(* ===== verification/Prelude.thy ===== *)
theory Prelude
  imports Main "HOL-Library.Word"
begin

text \<open>
  Shared ground of the development: machine integers as words, big- and little-endian byte
  strings, the error value of \<^verbatim>\<open>src/src/codec.rs\<close>, the result of a fallible operation on a mutable
  object, and the generic lemmas the component theories use.

  A fallible Rust method \<^verbatim>\<open>fn f(&mut self, ..) -> Result<T>\<close> is a function from the object to a
  pair of a result (\<open>Inl\<close> the error, \<open>Inr\<close> the value) and the object as the method leaves it, also
  when it fails.  \<open>try_bind\<close> is the operator \<^verbatim>\<open>?\<close>.  Sizes and offsets (\<^verbatim>\<open>usize\<close>) are natural
  numbers: they count bytes of buffers that exist, so the saturating operations the source uses on
  them are the operations of \<^typ>\<open>nat\<close>.
\<close>

unbundle bit_operations_syntax

subsection \<open>Integers and byte strings\<close>

type_synonym u8 = "8 word"
type_synonym u16 = "16 word"
type_synonym u32 = "32 word"
type_synonym u64 = "64 word"
type_synonym bytes = "8 word list"

named_theorems res_simps \<open>evaluation of results and of the operator for early return\<close>
named_theorems codec_defs \<open>definitions of the cursor and of the writers\<close>

text \<open>The loop \<^verbatim>\<open>v = (v << 8) | b\<close> over a byte string: \<^verbatim>\<open>from_be_bytes\<close> when the widths agree.\<close>

definition shl8_or :: "'a::len word \<Rightarrow> u8 \<Rightarrow> 'a word" where
  "shl8_or v b = push_bit 8 v OR ucast b"

definition be_word :: "bytes \<Rightarrow> 'a::len word" where
  "be_word bs = foldl shl8_or 0 bs"

text \<open>The \<open>n\<close> low bytes of a word, most significant first (\<^verbatim>\<open>to_be_bytes\<close>) or last (\<^verbatim>\<open>to_le_bytes\<close>).\<close>

definition be_bytes :: "nat \<Rightarrow> 'a::len word \<Rightarrow> bytes" where
  "be_bytes n w = map (\<lambda>i. ucast (drop_bit (8 * i) w)) (rev [0..<n])"

definition le_bytes :: "nat \<Rightarrow> 'a::len word \<Rightarrow> bytes" where
  "le_bytes n w = rev (be_bytes n w)"

text \<open>The same on natural numbers, for reasoning.\<close>

definition be_nat :: "bytes \<Rightarrow> nat" where
  "be_nat bs = foldl (\<lambda>v b. v * 256 + unat b) 0 bs"

primrec nat_be :: "nat \<Rightarrow> nat \<Rightarrow> bytes" where
  "nat_be 0 v = []"
| "nat_be (Suc n) v = nat_be n (v div 256) @ [of_nat (v mod 256)]"

text \<open>Division rounding up, \<^verbatim>\<open>usize::div_ceil\<close>.\<close>

definition div_ceil :: "nat \<Rightarrow> nat \<Rightarrow> nat" where
  "div_ceil a b = (a + b - 1) div b"

text \<open>The index of the first element that satisfies a predicate, \<^verbatim>\<open>Iterator::position\<close>.\<close>

fun position :: "('a \<Rightarrow> bool) \<Rightarrow> 'a list \<Rightarrow> nat option" where
  "position P [] = None"
| "position P (x # xs) = (if P x then Some 0 else map_option Suc (position P xs))"

text \<open>Overwriting the cells of a fixed-size buffer from an index on.\<close>

definition overwrite :: "'a list \<Rightarrow> nat \<Rightarrow> 'a list \<Rightarrow> 'a list" where
  "overwrite buf at xs = take at buf @ xs @ drop (at + length xs) buf"

text \<open>The slice \<^verbatim>\<open>buf[from..to]\<close> as \<^verbatim>\<open>get\<close> returns it.\<close>

definition slice :: "'a list \<Rightarrow> nat \<Rightarrow> nat \<Rightarrow> 'a list option" where
  "slice buf from to = (if from \<le> to \<and> to \<le> length buf then Some (take (to - from) (drop from buf)) else None)"

subsection \<open>Errors and results\<close>

datatype ErrorKind =
    Truncated nat
  | InvalidTag u8
  | InvalidValue
  | TypeMismatch
  | InvalidLength
  | DepthExceeded
  | WorkExceeded
  | BufferTooSmall nat
  | BadChecksum
  | BadTag
  | Replay
  | UnexpectedMessage
  | Unsupported

record Error =
  err_kind :: ErrorKind
  err_offset :: nat

definition Error_new :: "ErrorKind \<Rightarrow> nat \<Rightarrow> Error" where
  "Error_new k off = \<lparr>err_kind = k, err_offset = off\<rparr>"

fun Error_is_truncated :: "Error \<Rightarrow> bool" where
  "Error_is_truncated e = (case err_kind e of Truncated _ \<Rightarrow> True | _ \<Rightarrow> False)"

type_synonym 'a result = "Error + 'a"
type_synonym ('s, 'a) op = "'s \<Rightarrow> 'a result \<times> 's"

definition ok :: "'a \<Rightarrow> ('s, 'a) op" where
  "ok x = (\<lambda>s. (Inr x, s))"

definition fail :: "Error \<Rightarrow> ('s, 'a) op" where
  "fail e = (\<lambda>s. (Inl e, s))"

definition try_bind :: "('s, 'a) op \<Rightarrow> ('a \<Rightarrow> ('s, 'b) op) \<Rightarrow> ('s, 'b) op" where
  "try_bind m f = (\<lambda>s. case m s of (Inl e, s') \<Rightarrow> (Inl e, s') | (Inr x, s') \<Rightarrow> f x s')"

text \<open>The operator \<^verbatim>\<open>?\<close> on a result that involves no state.\<close>

definition res_bind :: "'a result \<Rightarrow> ('a \<Rightarrow> 'b result) \<Rightarrow> 'b result" where
  "res_bind m f = (case m of Inl e \<Rightarrow> Inl e | Inr x \<Rightarrow> f x)"

definition lift_res :: "'a result \<Rightarrow> ('s, 'a) op" where
  "lift_res m = (\<lambda>s. (m, s))"

subsection \<open>Lemmas on results\<close>

lemma Error_new_simps [simp]:
  "err_kind (Error_new k off) = k" "err_offset (Error_new k off) = off"
  by (simp_all add: Error_new_def)

lemma Error_new_eq [simp]: "Error_new k a = Error_new k' b \<longleftrightarrow> k = k' \<and> a = b"
  by (simp add: Error_new_def)

lemma ok_apply [simp, res_simps]: "ok x s = (Inr x, s)"
  by (simp add: ok_def)

lemma fail_apply [simp, res_simps]: "fail e s = (Inl e, s)"
  by (simp add: fail_def)

lemma lift_res_apply [simp, res_simps]: "lift_res m s = (m, s)"
  by (simp add: lift_res_def)

lemma try_bind_ok [simp]: "try_bind (ok x) f = f x"
  by (simp add: try_bind_def fun_eq_iff)

lemma try_bind_Inr [res_simps]: "m s = (Inr x, s') \<Longrightarrow> try_bind m f s = f x s'"
  by (simp add: try_bind_def)

lemma try_bind_Inl [res_simps]: "m s = (Inl e, s') \<Longrightarrow> try_bind m f s = (Inl e, s')"
  by (simp add: try_bind_def)

lemma try_bind_cong [fundef_cong]:
  "m = m' \<Longrightarrow> s = s' \<Longrightarrow> (\<And>x t. m' s' = (Inr x, t) \<Longrightarrow> f x t = f' x t) \<Longrightarrow>
    try_bind m f s = try_bind m' f' s'"
  by (auto simp: try_bind_def split: sum.splits prod.splits)

lemma try_bind_InrE:
  assumes "try_bind m f s = (Inr y, s'')"
  obtains x s' where "m s = (Inr x, s')" "f x s' = (Inr y, s'')"
  using assms by (auto simp: try_bind_def split: sum.splits prod.splits)

lemma try_bind_InlE:
  assumes "try_bind m f s = (Inl e, s'')"
  obtains "m s = (Inl e, s'')" | x s' where "m s = (Inr x, s')" "f x s' = (Inl e, s'')"
  using assms by (auto simp: try_bind_def split: sum.splits prod.splits)

lemma try_bind_assoc: "try_bind (try_bind m f) g = try_bind m (\<lambda>x. try_bind (f x) g)"
  by (auto simp: try_bind_def fun_eq_iff split: sum.splits prod.splits)

lemma res_bind_simps [simp]: "res_bind (Inl e) f = Inl e" "res_bind (Inr x) f = f x"
  by (simp_all add: res_bind_def)

subsection \<open>Lemmas on byte strings\<close>

lemma be_nat_Nil [simp]: "be_nat [] = 0"
  by (simp add: be_nat_def)

lemma be_nat_snoc: "be_nat (bs @ [b]) = be_nat bs * 256 + unat b"
  by (simp add: be_nat_def)

lemma unat_bound: "unat (w :: 'a::len word) < 2 ^ LENGTH('a)"
  by (rule unsigned_less)

lemma unat_u8_less [simp]: "unat (b :: u8) < 256"
  using unsigned_less [of b] by simp

lemma be_nat_append: "be_nat (as @ bs) = be_nat as * 256 ^ length bs + be_nat bs"
proof (induction bs rule: rev_induct)
  case (snoc b bs)
  have "be_nat (as @ bs @ [b]) = be_nat ((as @ bs) @ [b])" by simp
  then show ?case by (simp only: be_nat_snoc snoc length_append_singleton) (simp add: algebra_simps)
qed simp

lemma be_nat_Cons: "be_nat (b # bs) = unat b * 256 ^ length bs + be_nat bs"
  using be_nat_append [of "[b]" bs] by (simp add: be_nat_def)

lemma be_nat_zeros: "\<forall>b\<in>set bs. b = 0 \<Longrightarrow> be_nat bs = 0"
  by (induction bs) (auto simp: be_nat_Cons)

lemma be_nat_less: "be_nat bs < 256 ^ length bs"
proof (induction bs rule: rev_induct)
  case (snoc b bs)
  have "be_nat bs * 256 + unat b < (be_nat bs + 1) * 256" using unat_u8_less [of b] by simp
  also have "\<dots> \<le> 256 ^ length bs * 256" using snoc by (intro mult_right_mono) auto
  finally show ?case by (simp add: be_nat_snoc mult.commute)
qed simp

lemma length_nat_be [simp]: "length (nat_be n v) = n"
  by (induction n arbitrary: v) auto

lemma be_nat_nat_be: "be_nat (nat_be n v) = v mod 256 ^ n"
proof (induction n arbitrary: v)
  case (Suc n)
  have u: "unat (of_nat (v mod 256) :: u8) = v mod 256"
    by (simp add: unat_of_nat)
  have "be_nat (nat_be (Suc n) v) = (v div 256) mod 256 ^ n * 256 + v mod 256"
    by (simp add: be_nat_snoc Suc.IH u)
  also have "\<dots> = v mod 256 ^ Suc n"
    using mod_mult2_eq [of v 256 "256 ^ n"] by (simp add: mult.commute)
  finally show ?case .
qed simp

lemma nat_be_be_nat: "nat_be (length bs) (be_nat bs) = bs"
proof (induction bs rule: rev_induct)
  case (snoc b bs)
  have "(be_nat bs * 256 + unat b) div 256 = be_nat bs"
    and "(be_nat bs * 256 + unat b) mod 256 = unat b" using unat_u8_less [of b] by simp_all
  with snoc show ?case by (simp add: be_nat_snoc)
qed simp

lemma shl8_or_unat: "unat (shl8_or v b :: 'a::len word) = (unat v * 256 + unat b) mod 2 ^ LENGTH('a)"
proof -
  have "push_bit 8 v AND ucast b = 0"
    by (rule bit_eqI) (auto simp: bit_simps dest: bit_imp_le_length)
  then have "shl8_or v b = push_bit 8 v + ucast b"
    by (simp add: shl8_or_def disjunctive_add_eq_or)
  also have "\<dots> = of_nat (unat v * 256 + unat b)"
    by (simp add: push_bit_eq_mult)
  finally show ?thesis by (simp only: unat_of_nat)
qed

lemma unat_be_word: "unat (be_word bs :: 'a::len word) = be_nat bs mod 2 ^ LENGTH('a)"
proof (induction bs rule: rev_induct)
  case Nil
  then show ?case by (simp add: be_word_def)
next
  case (snoc b bs)
  have "unat (be_word (bs @ [b]) :: 'a word) = (unat (be_word bs :: 'a word) * 256 + unat b) mod 2 ^ LENGTH('a)"
    by (simp add: be_word_def shl8_or_unat)
  also have "\<dots> = (be_nat bs * 256 + unat b) mod 2 ^ LENGTH('a)"
    by (metis snoc mod_add_left_eq mod_mult_left_eq)
  finally show ?case by (simp add: be_nat_snoc)
qed

lemma be_bytes_Suc: "be_bytes (Suc n) w = ucast (drop_bit (8 * n) w) # be_bytes n w"
  by (simp add: be_bytes_def)

lemma be_bytes_0 [simp]: "be_bytes 0 w = []"
  by (simp add: be_bytes_def)

lemma length_be_bytes [simp]: "length (be_bytes n w) = n"
  by (simp add: be_bytes_def)

lemma length_le_bytes [simp]: "length (le_bytes n w) = n"
  by (simp add: le_bytes_def)

lemma nat_be_Cons: "nat_be (Suc n) v = of_nat (v div 256 ^ n mod 256) # nat_be n v"
proof (induction n arbitrary: v)
  case (Suc n)
  have "nat_be (Suc (Suc n)) v = nat_be (Suc n) (v div 256) @ [of_nat (v mod 256)]"
    by (rule nat_be.simps)
  also have "\<dots> = of_nat (v div 256 div 256 ^ n mod 256) # nat_be (Suc n) v"
    by (subst Suc.IH) simp
  also have "v div 256 div 256 ^ n = v div 256 ^ Suc n"
    by (simp add: div_mult2_eq)
  finally show ?case .
qed simp

lemma be_bytes_nat_be: "be_bytes n w = nat_be n (unat w)"
proof (induction n)
  case (Suc n)
  have "(256::nat) ^ n = 2 ^ (8 * n)" by (simp add: power_mult)
  moreover have "(ucast (drop_bit (8 * n) w) :: u8) = of_nat (unat w div 2 ^ (8 * n) mod 256)"
    by (rule word_unat_eq_iff [THEN iffD2])
      (simp add: unsigned_ucast_eq unsigned_drop_bit_eq unat_of_nat take_bit_eq_mod flip: drop_bit_eq_div)
  ultimately show ?case by (simp only: be_bytes_Suc nat_be_Cons Suc)
qed simp

lemma be_word_be_bytes: "LENGTH('a) \<le> 8 * n \<Longrightarrow> be_word (be_bytes n (w :: 'a::len word)) = w"
proof -
  assume n: "LENGTH('a) \<le> 8 * n"
  have "unat w < 2 ^ LENGTH('a)" by (rule unsigned_less)
  also have "\<dots> \<le> 2 ^ (8 * n)" using n by (rule power_increasing) simp
  finally have "unat w < 256 ^ n" by (simp add: power_mult)
  then show ?thesis
    by (intro word_unat_eq_iff [THEN iffD2]) (simp add: unat_be_word be_bytes_nat_be be_nat_nat_be)
qed

lemma be_word_inverses [simp]:
  "be_word (be_bytes 2 (v :: u16)) = v"
  "be_word (be_bytes 4 (x :: u32)) = x"
  "be_word (be_bytes 8 (y :: u64)) = y"
  by (simp_all add: be_word_be_bytes)

lemma be_bytes_be_word: "8 * length bs \<le> LENGTH('a) \<Longrightarrow> be_bytes (length bs) (be_word bs :: 'a::len word) = bs"
proof -
  assume n: "8 * length bs \<le> LENGTH('a)"
  have "be_nat bs < 256 ^ length bs" by (rule be_nat_less)
  also have "\<dots> = 2 ^ (8 * length bs)" by (simp add: power_mult)
  also have "\<dots> \<le> 2 ^ LENGTH('a)" using n by (rule power_increasing) simp
  finally show ?thesis by (simp add: be_bytes_nat_be unat_be_word nat_be_be_nat)
qed

lemma length_overwrite [simp]: "at + length xs \<le> length buf \<Longrightarrow> length (overwrite buf at xs) = length buf"
  by (simp add: overwrite_def)

lemma take_overwrite [simp]: "at \<le> length buf \<Longrightarrow> take at (overwrite buf at xs) = take at buf"
  by (simp add: overwrite_def)

lemma take_overwrite_upto:
  "at \<le> length buf \<Longrightarrow> take (at + length xs) (overwrite buf at xs) = take at buf @ xs"
  by (simp add: overwrite_def)

lemma overwrite_Nil [simp]: "overwrite buf at [] = buf"
  by (simp add: overwrite_def)

lemma overwrite_overwrite:
  "at + length xs \<le> length buf \<Longrightarrow>
    overwrite (overwrite buf at xs) (at + length xs) ys = overwrite buf at (xs @ ys)"
  by (simp add: overwrite_def ac_simps)

lemma position_Some:
  "position P xs = Some i \<Longrightarrow> i < length xs \<and> P (xs ! i) \<and> (\<forall>j<i. \<not> P (xs ! j))"
proof (induction xs arbitrary: i)
  case (Cons x xs)
  then show ?case by (cases i) (auto split: if_splits simp: less_Suc_eq_0_disj)
qed simp

lemma position_None: "position P xs = None \<longleftrightarrow> (\<forall>x\<in>set xs. \<not> P x)"
  by (induction xs) auto

lemma div_ceil_8 [simp]: "div_ceil n 8 = (n + 7) div 8"
  by (simp add: div_ceil_def)

end
