(* ===== verification/Codec.thy ===== *)
theory Codec
  imports Prelude
begin

text \<open>
  The cursor codec of \<^verbatim>\<open>src/src/codec.rs\<close>: the bounds-checked \<open>Reader\<close>, the implementations of the
  trait \<^verbatim>\<open>Writer\<close> as one sum type (a case distinction is the dynamic dispatch of \<^verbatim>\<open>&mut dyn Writer\<close>),
  and the contracts the other components rely on, as locales: \<open>byte_sink\<close> for the writers,
  \<open>encoder\<close> and \<open>codec_pair\<close> for a type with \<^verbatim>\<open>Encode\<close> and \<^verbatim>\<open>Decode\<close>, \<open>cursor_decoder\<close> for a decoder
  that stays inside its buffer.
\<close>

subsection \<open>Reader\<close>

record Reader =
  rd_buf :: bytes
  rd_pos :: nat
  rd_base :: nat

definition Reader_new :: "bytes \<Rightarrow> Reader" where
  "Reader_new buf = \<lparr>rd_buf = buf, rd_pos = 0, rd_base = 0\<rparr>"

definition Reader_with_base :: "bytes \<Rightarrow> nat \<Rightarrow> Reader" where
  "Reader_with_base buf base = \<lparr>rd_buf = buf, rd_pos = 0, rd_base = base\<rparr>"

definition Reader_remaining :: "Reader \<Rightarrow> nat" where
  "Reader_remaining r = length (rd_buf r) - rd_pos r"

definition Reader_is_empty :: "Reader \<Rightarrow> bool" where
  "Reader_is_empty r \<longleftrightarrow> Reader_remaining r = 0"

definition Reader_offset :: "Reader \<Rightarrow> nat" where
  "Reader_offset r = rd_base r + rd_pos r"

definition Reader_rest :: "Reader \<Rightarrow> bytes" where
  "Reader_rest r = drop (rd_pos r) (rd_buf r)"

definition Reader_consumed :: "Reader \<Rightarrow> nat" where
  "Reader_consumed r = rd_pos r"

definition Reader_err :: "Reader \<Rightarrow> ErrorKind \<Rightarrow> Error" where
  "Reader_err r k = Error_new k (Reader_offset r)"

definition Reader_err_back :: "Reader \<Rightarrow> ErrorKind \<Rightarrow> nat \<Rightarrow> Error" where
  "Reader_err_back r k back = Error_new k (Reader_offset r - back)"

text \<open>Failing at the current position, or some bytes before it.\<close>

definition rd_fail :: "ErrorKind \<Rightarrow> (Reader, 'a) op" where
  "rd_fail k = (\<lambda>r. (Inl (Reader_err r k), r))"

definition rd_fail_back :: "ErrorKind \<Rightarrow> nat \<Rightarrow> (Reader, 'a) op" where
  "rd_fail_back k back = (\<lambda>r. (Inl (Reader_err_back r k back), r))"

definition Reader_ensure :: "nat \<Rightarrow> (Reader, unit) op" where
  "Reader_ensure n = (\<lambda>r.
     if Reader_remaining r < n then (Inl (Reader_err r (Truncated (n - Reader_remaining r))), r)
     else (Inr (), r))"

definition Reader_take :: "nat \<Rightarrow> (Reader, bytes) op" where
  "Reader_take n = try_bind (Reader_ensure n) (\<lambda>_ r.
     case slice (rd_buf r) (rd_pos r) (rd_pos r + n) of
       None \<Rightarrow> (Inl (Reader_err r InvalidLength), r)
     | Some out \<Rightarrow> (Inr out, r\<lparr>rd_pos := rd_pos r + n\<rparr>))"

definition Reader_take_rest :: "Reader \<Rightarrow> bytes \<times> Reader" where
  "Reader_take_rest r = (Reader_rest r, r\<lparr>rd_pos := length (rd_buf r)\<rparr>)"

definition Reader_u8 :: "(Reader, u8) op" where
  "Reader_u8 r =
     (if rd_pos r < length (rd_buf r) then (Inr (rd_buf r ! rd_pos r), r\<lparr>rd_pos := rd_pos r + 1\<rparr>)
      else (Inl (Reader_err r (Truncated 1)), r))"

definition Reader_peek_u8 :: "Reader \<Rightarrow> u8 result" where
  "Reader_peek_u8 r =
     (if rd_pos r < length (rd_buf r) then Inr (rd_buf r ! rd_pos r)
      else Inl (Reader_err r (Truncated 1)))"

text \<open>
  \<^verbatim>\<open>array::<N>\<close> copies the \<open>N\<close> bytes that \<^verbatim>\<open>take\<close> returned; the integer readers join them.  A signed
  integer of the source keeps its bits, so \<^verbatim>\<open>i8\<close> \dots \<^verbatim>\<open>i64\<close> read as the unsigned word whose \<^const>\<open>sint\<close>
  is the value.
\<close>

definition Reader_array :: "nat \<Rightarrow> (Reader, bytes) op" where
  "Reader_array n = try_bind (Reader_take n) ok"

definition Reader_u16 :: "(Reader, u16) op" where
  "Reader_u16 = try_bind (Reader_array 2) (\<lambda>b. ok (be_word b))"

definition Reader_u32 :: "(Reader, u32) op" where
  "Reader_u32 = try_bind (Reader_array 4) (\<lambda>b. ok (be_word b))"

definition Reader_u64 :: "(Reader, u64) op" where
  "Reader_u64 = try_bind (Reader_array 8) (\<lambda>b. ok (be_word b))"

definition Reader_skip :: "nat \<Rightarrow> (Reader, unit) op" where
  "Reader_skip n = try_bind (Reader_take n) (\<lambda>_. ok ())"

definition Reader_length :: "(Reader, nat) op" where
  "Reader_length = try_bind Reader_u8 (\<lambda>first.
     if first < 0x80 then ok (unat first)
     else let n = unat (first AND 0x7f) in
       if n = 0 \<or> n > 4 then rd_fail_back InvalidLength 1
       else try_bind (Reader_take n) (\<lambda>b. ok (unat (be_word b :: u64))))"

definition Reader_length_prefixed :: "(Reader, bytes) op" where
  "Reader_length_prefixed = try_bind Reader_length Reader_take"

definition Reader_nested :: "nat \<Rightarrow> (Reader, 'a) op \<Rightarrow> (Reader, 'a) op" where
  "Reader_nested n f = (\<lambda>r. let base = Reader_offset r in
     try_bind (Reader_take n) (\<lambda>b r'.
       case f (Reader_with_base b base) of
         (Inl e, _) \<Rightarrow> (Inl e, r')
       | (Inr out, inner) \<Rightarrow>
           if Reader_is_empty inner then (Inr out, r')
           else (Inl (Reader_err inner InvalidLength), r')) r)"

text \<open>\<^verbatim>\<open>Decode::from_bytes\<close>: one value, requiring all bytes to be used.\<close>

definition from_bytes :: "(Reader, 'a) op \<Rightarrow> bytes \<Rightarrow> 'a result" where
  "from_bytes dec b =
     (case dec (Reader_new b) of
        (Inl e, _) \<Rightarrow> Inl e
      | (Inr v, r) \<Rightarrow> if Reader_is_empty r then Inr v else Inl (Reader_err r InvalidLength))"

subsection \<open>Writers\<close>

record SliceWriter =
  sw_buf :: bytes
  sw_pos :: nat

datatype writer =
    SliceW SliceWriter
  | VecW bytes
  | HeaplessW nat bytes
  | CountW nat

definition SliceWriter_new :: "bytes \<Rightarrow> SliceWriter" where
  "SliceWriter_new buf = \<lparr>sw_buf = buf, sw_pos = 0\<rparr>"

definition SliceWriter_as_slice :: "SliceWriter \<Rightarrow> bytes" where
  "SliceWriter_as_slice w = (case slice (sw_buf w) 0 (sw_pos w) of Some s \<Rightarrow> s | None \<Rightarrow> sw_buf w)"

definition SliceWriter_finish :: "SliceWriter \<Rightarrow> bytes" where
  "SliceWriter_finish w = take (min (sw_pos w) (length (sw_buf w))) (sw_buf w)"

definition SliceWriter_truncate :: "nat \<Rightarrow> (SliceWriter, unit) op" where
  "SliceWriter_truncate at w =
     (if at > sw_pos w then (Inl (Error_new InvalidLength (sw_pos w)), w)
      else (Inr (), w\<lparr>sw_pos := at\<rparr>))"

definition SliceWriter_write_bytes :: "bytes \<Rightarrow> (SliceWriter, unit) op" where
  "SliceWriter_write_bytes b w =
     (let end = sw_pos w + length b in
      if end \<le> length (sw_buf w)
      then (Inr (), w\<lparr>sw_buf := overwrite (sw_buf w) (sw_pos w) b, sw_pos := end\<rparr>)
      else (Inl (Error_new (BufferTooSmall (end - length (sw_buf w))) (sw_pos w)), w))"

definition Heapless_write_bytes :: "nat \<Rightarrow> bytes \<Rightarrow> (bytes, unit) op" where
  "Heapless_write_bytes N b v =
     (if length v + length b \<le> N then (Inr (), v @ b)
      else (Inl (Error_new (BufferTooSmall (length b - (N - length v))) (length v)), v))"

fun write_bytes :: "bytes \<Rightarrow> (writer, unit) op" where
  "write_bytes b (SliceW w) = apsnd SliceW (SliceWriter_write_bytes b w)"
| "write_bytes b (VecW v) = (Inr (), VecW (v @ b))"
| "write_bytes b (HeaplessW N v) = apsnd (HeaplessW N) (Heapless_write_bytes N b v)"
| "write_bytes b (CountW n) = (Inr (), CountW (n + length b))"

fun written :: "writer \<Rightarrow> nat" where
  "written (SliceW w) = sw_pos w"
| "written (VecW v) = length v"
| "written (HeaplessW N v) = length v"
| "written (CountW n) = n"

definition write_u8 :: "u8 \<Rightarrow> (writer, unit) op" where
  "write_u8 b = write_bytes [b]"

definition write_u16 :: "u16 \<Rightarrow> (writer, unit) op" where
  "write_u16 v = write_bytes (be_bytes 2 v)"

definition write_u32 :: "u32 \<Rightarrow> (writer, unit) op" where
  "write_u32 v = write_bytes (be_bytes 4 v)"

definition write_u64 :: "u64 \<Rightarrow> (writer, unit) op" where
  "write_u64 v = write_bytes (be_bytes 8 v)"

definition write_length :: "nat \<Rightarrow> (writer, unit) op" where
  "write_length len =
     (if len < 0x80 then write_u8 (of_nat len)
      else let be = be_bytes 8 (of_nat len :: u64);
               first = (case position (\<lambda>b. b \<noteq> 0) be of Some i \<Rightarrow> i | None \<Rightarrow> 7);
               n = 8 - first
           in if n > 4 then (\<lambda>w. (Inl (Error_new InvalidLength (written w)), w))
              else try_bind (write_u8 (0x80 OR of_nat n)) (\<lambda>_. write_bytes (drop first be)))"

definition write_length_prefixed :: "bytes \<Rightarrow> (writer, unit) op" where
  "write_length_prefixed b = try_bind (write_length (length b)) (\<lambda>_. write_bytes b)"

text \<open>\<^verbatim>\<open>Encode::encoded_len\<close>: what the encoder writes to a \<^verbatim>\<open>CountingWriter\<close>.\<close>

definition encoded_len :: "(writer, unit) op \<Rightarrow> nat" where
  "encoded_len enc = written (snd (enc (CountW 0)))"

text \<open>
  The pattern \<^verbatim>\<open>let mut w = SliceWriter::new(out); x.encode(&mut w)?; Ok(w.written())\<close>: how many bytes of
  \<open>out\<close> the value took, and \<open>out\<close> as the encoder left it.
\<close>

fun wr_buf :: "writer \<Rightarrow> bytes" where
  "wr_buf (SliceW w) = sw_buf w"
| "wr_buf (VecW v) = v"
| "wr_buf (HeaplessW N v) = v"
| "wr_buf (CountW n) = []"

definition encode_into :: "(writer, unit) op \<Rightarrow> bytes \<Rightarrow> nat result \<times> bytes" where
  "encode_into enc out =
     (case enc (SliceW (SliceWriter_new out)) of
        (Inl e, w) \<Rightarrow> (Inl e, wr_buf w)
      | (Inr _, w) \<Rightarrow> (Inr (written w), wr_buf w))"

subsection \<open>The contract of a writer\<close>

text \<open>
  \<open>room w n\<close> says that \<open>n\<close> more bytes fit, \<open>after w b\<close> is the writer once \<open>b\<close> has gone in.  The laws
  are what every encoder relies on: a write that fits appends, one that does not reports
  \<^const>\<open>BufferTooSmall\<close> and leaves the writer as it was, and room is spent byte by byte.
\<close>

locale byte_sink =
  fixes put :: "bytes \<Rightarrow> ('w, unit) op"
    and count :: "'w \<Rightarrow> nat"
    and room :: "'w \<Rightarrow> nat \<Rightarrow> bool"
    and after :: "'w \<Rightarrow> bytes \<Rightarrow> 'w"
  assumes put_fits: "room w (length b) \<Longrightarrow> put b w = (Inr (), after w b)"
    and put_full: "\<not> room w (length b) \<Longrightarrow> \<exists>n. put b w = (Inl (Error_new (BufferTooSmall n) (count w)), w)"
    and count_after: "count (after w b) = count w + length b"
    and room_after: "room w (length b) \<Longrightarrow> room (after w b) n \<longleftrightarrow> room w (length b + n)"
    and room_mono: "room w n \<Longrightarrow> m \<le> n \<Longrightarrow> room w m"
    and after_after: "room w (length a) \<Longrightarrow> after (after w a) b = after w (a @ b)"
begin

lemma put_put:
  assumes "room w (length (a @ b))"
  shows "try_bind (put a) (\<lambda>_. put b) w = put (a @ b) w"
proof -
  from assms have a: "room w (length a)" by (auto elim: room_mono)
  with assms have "room (after w a) (length b)" by (simp add: room_after)
  with a assms show ?thesis
    by (simp add: try_bind_def put_fits after_after)
qed

lemma count_unchanged_on_error: "put b w = (Inl e, w') \<Longrightarrow> w' = w"
  by (cases "room w (length b)") (use put_full [of w b] in \<open>auto simp: put_fits\<close>)

lemma count_on_success: "put b w = (Inr (), w') \<Longrightarrow> count w' = count w + length b"
  by (cases "room w (length b)") (use put_full [of w b] in \<open>auto simp: put_fits count_after\<close>)

end

fun wr_room :: "writer \<Rightarrow> nat \<Rightarrow> bool" where
  "wr_room (SliceW w) n \<longleftrightarrow> sw_pos w + n \<le> length (sw_buf w)"
| "wr_room (VecW v) n \<longleftrightarrow> True"
| "wr_room (HeaplessW N v) n \<longleftrightarrow> length v + n \<le> N"
| "wr_room (CountW k) n \<longleftrightarrow> True"

fun wr_after :: "writer \<Rightarrow> bytes \<Rightarrow> writer" where
  "wr_after (SliceW w) b =
     SliceW (w\<lparr>sw_buf := overwrite (sw_buf w) (sw_pos w) b, sw_pos := sw_pos w + length b\<rparr>)"
| "wr_after (VecW v) b = VecW (v @ b)"
| "wr_after (HeaplessW N v) b = HeaplessW N (v @ b)"
| "wr_after (CountW k) b = CountW (k + length b)"

interpretation wr: byte_sink write_bytes written wr_room wr_after
proof unfold_locales
  fix w and b :: bytes assume "wr_room w (length b)"
  then show "write_bytes b w = (Inr (), wr_after w b)"
    by (cases w) (auto simp: SliceWriter_write_bytes_def Heapless_write_bytes_def Let_def)
next
  fix w and b :: bytes assume "\<not> wr_room w (length b)"
  then show "\<exists>n. write_bytes b w = (Inl (Error_new (BufferTooSmall n) (written w)), w)"
    by (cases w) (auto simp: SliceWriter_write_bytes_def Heapless_write_bytes_def Let_def)
next
  fix w and b :: bytes show "written (wr_after w b) = written w + length b"
    by (cases w) auto
next
  fix w n and b :: bytes
  assume "wr_room w (length b)"
  then show "wr_room (wr_after w b) n \<longleftrightarrow> wr_room w (length b + n)"
    by (cases w) auto
next
  fix w n m assume "wr_room w n" "m \<le> (n :: nat)"
  then show "wr_room w m" by (cases w) auto
next
  fix w and a b :: bytes
  assume "wr_room w (length a)"
  then show "wr_after (wr_after w a) b = wr_after w (a @ b)"
    by (cases w) (auto simp: overwrite_overwrite)
qed

text \<open>
  An encoder writes exactly \<open>bs\<close>, or reports that the buffer is too small.  \<open>wr_room w 0\<close> is the
  well-formedness of a writer: a slice writer's position lies inside its buffer.  \<open>same_sink\<close> relates the
  states of one writer: a slice never becomes a vector and never changes its length.
\<close>

fun same_sink :: "writer \<Rightarrow> writer \<Rightarrow> bool" where
  "same_sink (SliceW w) (SliceW w') \<longleftrightarrow> length (sw_buf w') = length (sw_buf w)"
| "same_sink (VecW _) (VecW _) \<longleftrightarrow> True"
| "same_sink (HeaplessW N _) (HeaplessW M _) \<longleftrightarrow> M = N"
| "same_sink (CountW _) (CountW _) \<longleftrightarrow> True"
| "same_sink _ _ \<longleftrightarrow> False"

lemma same_sink_refl [simp]: "same_sink w w"
  by (cases w) auto

lemma same_sink_trans: "same_sink u v \<Longrightarrow> same_sink v w \<Longrightarrow> same_sink u w"
  by (cases u; cases v; cases w) auto

lemma same_sink_after: "wr_room w (length b) \<Longrightarrow> same_sink w (wr_after w b)"
  by (cases w) auto

lemma same_sink_SliceW: "same_sink (SliceW w) v \<longleftrightarrow> (\<exists>w'. v = SliceW w' \<and> length (sw_buf w') = length (sw_buf w))"
  by (cases v) auto

definition writes :: "(writer, unit) op \<Rightarrow> bytes \<Rightarrow> bool" where
  "writes f bs \<longleftrightarrow> (\<forall>w. wr_room w 0 \<longrightarrow>
     (if wr_room w (length bs) then f w = (Inr (), wr_after w bs)
      else \<exists>n off w'. f w = (Inl (Error_new (BufferTooSmall n) off), w') \<and> same_sink w w'))"

named_theorems writes_intro \<open>what each writing primitive writes\<close>

lemma writes_room: "writes f bs \<Longrightarrow> wr_room w (length bs) \<Longrightarrow> f w = (Inr (), wr_after w bs)"
  unfolding writes_def by (metis wr.room_mono zero_le)

lemma writes_full:
  "writes f bs \<Longrightarrow> wr_room w 0 \<Longrightarrow> \<not> wr_room w (length bs) \<Longrightarrow>
    \<exists>n off w'. f w = (Inl (Error_new (BufferTooSmall n) off), w') \<and> same_sink w w'"
  by (simp add: writes_def)

lemma writes_bytes [writes_intro]: "writes (write_bytes b) b"
  unfolding writes_def using wr.put_fits wr.put_full [of _ b] by fastforce

lemma writes_seq [writes_intro]:
  assumes f: "writes f a" and g: "writes g b"
  shows "writes (try_bind f (\<lambda>_. g)) (a @ b)"
  unfolding writes_def
proof (intro allI impI)
  fix w
  assume wf: "wr_room w 0"
  show "if wr_room w (length (a @ b)) then try_bind f (\<lambda>_. g) w = (Inr (), wr_after w (a @ b))
     else \<exists>n off w'. try_bind f (\<lambda>_. g) w = (Inl (Error_new (BufferTooSmall n) off), w') \<and> same_sink w w'"
  proof (cases "wr_room w (length a)")
    case True
    then have "try_bind f (\<lambda>_. g) w = g (wr_after w a)"
      using writes_room [OF f] by (simp add: try_bind_def)
    moreover have "wr_room (wr_after w a) n \<longleftrightarrow> wr_room w (length a + n)" for n
      using True by (rule wr.room_after)
    ultimately show ?thesis
      using g True same_sink_trans [OF same_sink_after [OF True]]
      by (fastforce simp: writes_def wr.after_after)
  next
    case False
    moreover from this have "\<not> wr_room w (length (a @ b))"
      by (metis wr.room_mono le_add1 length_append)
    ultimately show ?thesis
      using writes_full [OF f wf False] by (auto simp: try_bind_def)
  qed
qed

lemma wr_after_Nil [simp]: "wr_after w [] = w"
  by (cases w) auto

lemma writes_ok [writes_intro]: "writes (ok ()) []"
  by (simp add: writes_def)

lemma writes_u8 [writes_intro]: "writes (write_u8 b) [b]"
  by (simp add: write_u8_def writes_bytes)

lemma writes_u16 [writes_intro]: "writes (write_u16 v) (be_bytes 2 v)"
  by (simp add: write_u16_def writes_bytes)

lemma writes_u32 [writes_intro]: "writes (write_u32 v) (be_bytes 4 v)"
  by (simp add: write_u32_def writes_bytes)

lemma writes_u64 [writes_intro]: "writes (write_u64 v) (be_bytes 8 v)"
  by (simp add: write_u64_def writes_bytes)

text \<open>Sequencing and rearranging: the form in which encoders are matched against a byte string.\<close>

lemma writes_seq_eq:
  "writes f a \<Longrightarrow> writes g b \<Longrightarrow> c = a @ b \<Longrightarrow> writes (try_bind f (\<lambda>_. g)) c"
  by (simp add: writes_seq)

text \<open>Writing to a vector or counting is the same length; writing to a slice fills its front.\<close>

lemma writes_VecW: "writes f bs \<Longrightarrow> f (VecW v) = (Inr (), VecW (v @ bs))"
  using writes_room [of f bs "VecW v"] by simp

lemma writes_encoded_len: "writes f bs \<Longrightarrow> encoded_len f = length bs"
  using writes_room [of f bs "CountW 0"] by (simp add: encoded_len_def)

lemma writes_SliceW:
  assumes "writes f bs" and "length bs \<le> length buf"
  shows "f (SliceW (SliceWriter_new buf)) =
    (Inr (), SliceW \<lparr>sw_buf = bs @ drop (length bs) buf, sw_pos = length bs\<rparr>)"
  using writes_room [OF assms(1), of "SliceW (SliceWriter_new buf)"] assms(2)
  by (simp add: SliceWriter_new_def overwrite_def)

lemma writes_SliceW_full:
  assumes "writes f bs" and "length buf < length bs"
  shows "\<exists>n off w'. f (SliceW (SliceWriter_new buf)) = (Inl (Error_new (BufferTooSmall n) off), SliceW w') \<and>
    length (sw_buf w') = length buf"
  using writes_full [OF assms(1), of "SliceW (SliceWriter_new buf)"] assms(2)
  by (auto simp: SliceWriter_new_def same_sink_SliceW)

lemma encode_into_fits:
  "writes f bs \<Longrightarrow> length bs \<le> length out \<Longrightarrow> encode_into f out = (Inr (length bs), bs @ drop (length bs) out)"
  by (simp add: encode_into_def writes_SliceW)

lemma encode_into_full:
  assumes "writes f bs" "length out < length bs"
  shows "\<exists>n off out'. encode_into f out = (Inl (Error_new (BufferTooSmall n) off), out') \<and> length out' = length out"
  using writes_SliceW_full [OF assms] by (auto simp: encode_into_def)

lemma encode_into_InrD:
  assumes "writes f bs" "encode_into f out = (Inr n, out')"
  shows "n = length bs" "take n out' = bs" "length out' = length out" "length bs \<le> length out"
proof -
  show le: "length bs \<le> length out" using encode_into_full [OF assms(1), of out] assms(2) by (rule_tac ccontr) auto
  show "n = length bs" "take n out' = bs" "length out' = length out"
    using encode_into_fits [OF assms(1) le] assms(2) le by auto
qed

subsection \<open>The canonical length\<close>

definition len_first :: "nat \<Rightarrow> nat" where
  "len_first n = (case position (\<lambda>b. b \<noteq> 0) (be_bytes 8 (of_nat n :: u64)) of Some i \<Rightarrow> i | None \<Rightarrow> 7)"

definition len_bytes :: "nat \<Rightarrow> bytes" where
  "len_bytes n = (if n < 0x80 then [of_nat n]
     else (0x80 OR of_nat (8 - len_first n)) # drop (len_first n) (be_bytes 8 (of_nat n :: u64)))"

lemma len_first_spec:
  assumes "0 < n" "n < 2 ^ 64"
  shows "len_first n < 8"
    and "be_nat (drop (len_first n) (be_bytes 8 (of_nat n :: u64))) = n"
    and "256 ^ (7 - len_first n) \<le> n"
proof -
  define be where "be = be_bytes 8 (of_nat n :: u64)"
  have be: "be_nat be = n" "length be = 8"
    using assms by (simp_all add: be_def be_bytes_nat_be be_nat_nat_be unat_of_nat)
  have "position (\<lambda>b. b \<noteq> 0) be \<noteq> None"
    using be assms be_nat_zeros [of be] by (auto simp: position_None)
  then obtain i where pos: "position (\<lambda>b. b \<noteq> 0) be = Some i" by auto
  then have i: "len_first n = i" by (simp add: len_first_def be_def)
  from position_Some [OF pos] be have i8: "i < 8" and nz: "be ! i \<noteq> 0" and z: "\<forall>b\<in>set (take i be). b = 0"
    by (auto simp: in_set_conv_nth)
  have "be_nat (take i be @ drop i be) = be_nat (drop i be)"
    using z by (simp only: be_nat_append be_nat_zeros)
  then show d: "be_nat (drop (len_first n) (be_bytes 8 (of_nat n :: u64))) = n"
    using be i by (simp add: be_def)
  show "len_first n < 8" using i i8 by simp
  have "drop i be = be ! i # drop (Suc i) be" using i8 be by (simp add: Cons_nth_drop_Suc)
  moreover have "1 \<le> unat (be ! i)" using nz by (metis One_nat_def Suc_leI unat_gt_0)
  ultimately have "256 ^ (7 - i) \<le> be_nat (drop i be)"
    using be by (simp add: be_nat_Cons Suc_diff_Suc trans_le_add1)
  then show "256 ^ (7 - len_first n) \<le> n" using d i by (simp add: be_def)
qed

lemma len_first_ge4:
  assumes "0 < n" "n < 2 ^ 32"
  shows "4 \<le> len_first n"
proof (rule ccontr)
  assume "\<not> 4 \<le> len_first n"
  then have "(256::nat) ^ 4 \<le> 256 ^ (7 - len_first n)" by (intro power_increasing) auto
  also have "\<dots> \<le> n" using assms by (intro len_first_spec(3)) auto
  finally show False using assms by simp
qed

lemma writes_length [writes_intro]:
  assumes "n < 2 ^ 32"
  shows "writes (write_length n) (len_bytes n)"
proof (cases "n < 0x80")
  case True
  then show ?thesis by (simp add: write_length_def len_bytes_def writes_u8)
next
  case False
  then have "\<not> 4 < 8 - len_first n" using len_first_ge4 [of n] assms by simp
  with False show ?thesis
    using writes_seq [OF writes_u8 writes_bytes]
    by (simp add: write_length_def len_bytes_def Let_def flip: len_first_def)
qed

lemma write_length_too_long:
  assumes "2 ^ 32 \<le> n" "n < 2 ^ 64"
  shows "write_length n w = (Inl (Error_new InvalidLength (written w)), w)"
proof -
  have "len_first n < 4"
  proof (rule ccontr)
    assume "\<not> len_first n < 4"
    moreover have "n < 256 ^ (8 - len_first n)"
      using be_nat_less [of "drop (len_first n) (be_bytes 8 (of_nat n :: u64))"] len_first_spec(2) [of n] assms
      by simp
    moreover have "(256::nat) ^ (8 - len_first n) \<le> 256 ^ 4" if "\<not> len_first n < 4"
      using that by (intro power_increasing) auto
    ultimately show False using assms by simp
  qed
  then have "4 < 8 - len_first n" by simp
  with assms show ?thesis
    by (simp add: write_length_def Let_def flip: len_first_def)
qed

lemma writes_length_prefixed [writes_intro]:
  "length b < 2 ^ 32 \<Longrightarrow> writes (write_length_prefixed b) (len_bytes (length b) @ b)"
  unfolding write_length_prefixed_def by (intro writes_seq writes_length writes_bytes)

subsection \<open>The contract of a decoder\<close>

definition rd_wf :: "Reader \<Rightarrow> bool" where
  "rd_wf r \<longleftrightarrow> rd_pos r \<le> length (rd_buf r)"

definition rd_advance :: "nat \<Rightarrow> Reader \<Rightarrow> Reader" where
  "rd_advance n r = r\<lparr>rd_pos := rd_pos r + n\<rparr>"

text \<open>
  \<open>decodes_at dec bs f\<close>: wherever the unread input starts with \<open>bs\<close>, the decoder returns
  \<open>f\<close> of the offset it started at and has consumed exactly \<open>bs\<close>.  Only the sequences of A-XDR keep
  their offset; for the other types \<open>decodes dec bs x\<close> is the same with a constant.
\<close>

definition decodes_at :: "(Reader, 'a) op \<Rightarrow> bytes \<Rightarrow> (nat \<Rightarrow> 'a) \<Rightarrow> bool" where
  "decodes_at dec bs f \<longleftrightarrow> (\<forall>r rest. rd_wf r \<longrightarrow> Reader_rest r = bs @ rest \<longrightarrow>
     dec r = (Inr (f (Reader_offset r)), rd_advance (length bs) r))"

definition decodes :: "(Reader, 'a) op \<Rightarrow> bytes \<Rightarrow> 'a \<Rightarrow> bool" where
  "decodes dec bs x \<longleftrightarrow> decodes_at dec bs (\<lambda>_. x)"

named_theorems decodes_intro \<open>what each reading primitive decodes\<close>

lemma rd_advance_simps [simp]:
  "rd_buf (rd_advance n r) = rd_buf r" "rd_base (rd_advance n r) = rd_base r"
  "rd_pos (rd_advance n r) = rd_pos r + n" "rd_advance 0 r = r"
  "rd_advance m (rd_advance n r) = rd_advance (n + m) r"
  "Reader_offset (rd_advance n r) = Reader_offset r + n"
  by (simp_all add: rd_advance_def Reader_offset_def)

lemma rest_append:
  assumes "rd_wf r" "Reader_rest r = bs @ rest"
  shows "rd_wf (rd_advance (length bs) r)" "Reader_rest (rd_advance (length bs) r) = rest"
    "length bs \<le> length (rd_buf r) - rd_pos r"
proof -
  from assms(2) have "length (rd_buf r) - rd_pos r = length bs + length rest"
    by (metis Reader_rest_def length_append length_drop)
  with assms(1) show "rd_wf (rd_advance (length bs) r)" "length bs \<le> length (rd_buf r) - rd_pos r"
    by (simp_all add: rd_wf_def)
  have "Reader_rest (rd_advance (length bs) r) = drop (length bs) (Reader_rest r)"
    by (simp add: Reader_rest_def rd_advance_def add.commute)
  with assms(2) show "Reader_rest (rd_advance (length bs) r) = rest" by simp
qed

lemma decodes_at_bind:
  assumes m: "decodes_at m a f" and k: "\<And>off. decodes_at (k (f off)) b (g off)"
  shows "decodes_at (try_bind m k) (a @ b) (\<lambda>off. g off (off + length a))"
  unfolding decodes_at_def
proof (intro allI impI)
  fix r rest assume r: "rd_wf r" "Reader_rest r = (a @ b) @ rest"
  then have rest: "Reader_rest r = a @ (b @ rest)" by simp
  then have "m r = (Inr (f (Reader_offset r)), rd_advance (length a) r)"
    using m r(1) by (auto simp: decodes_at_def)
  moreover have "k (f (Reader_offset r)) (rd_advance (length a) r) =
      (Inr (g (Reader_offset r) (Reader_offset r + length a)), rd_advance (length a + length b) r)"
    using k rest_append [OF r(1) rest] by (auto simp: decodes_at_def)
  ultimately show "try_bind m k r =
      (Inr (g (Reader_offset r) (Reader_offset r + length a)), rd_advance (length (a @ b)) r)"
    by (simp add: try_bind_def)
qed

lemma decodes_bind [decodes_intro]:
  "decodes m a x \<Longrightarrow> decodes (k x) b y \<Longrightarrow> decodes (try_bind m k) (a @ b) y"
  unfolding decodes_def by (rule decodes_at_bind)

lemma decodes_ok [decodes_intro]: "decodes (ok x) [] x"
  by (simp add: decodes_def decodes_at_def)

lemma decodes_ok_eq: "x = y \<Longrightarrow> decodes (ok x) [] y"
  by (simp add: decodes_ok)

lemma decodes_last:
  "decodes m a x \<Longrightarrow> k x = ok y \<Longrightarrow> decodes (try_bind m k) a y"
  using decodes_bind [of m a x k "[]" y] by (simp add: decodes_ok)

lemma decodes_map:
  "decodes m a x \<Longrightarrow> decodes (try_bind m (\<lambda>v. ok (h v))) a (h x)"
  using decodes_bind [of m a x "\<lambda>v. ok (h v)" "[]"] decodes_ok by fastforce

lemma decodes_bind_eq:
  "decodes m a x \<Longrightarrow> decodes (k x) b y \<Longrightarrow> c = a @ b \<Longrightarrow> decodes (try_bind m k) c y"
  by (simp add: decodes_bind)

lemma Reader_take_eq:
  assumes "rd_wf r"
  shows "Reader_take n r =
    (if n \<le> length (Reader_rest r) then (Inr (take n (Reader_rest r)), rd_advance n r)
     else (Inl (Reader_err r (Truncated (n - length (Reader_rest r)))), r))"
  using assms
  by (auto simp: Reader_take_def Reader_ensure_def Reader_remaining_def Reader_rest_def rd_wf_def
      try_bind_def slice_def rd_advance_def)

lemma Reader_take_length: "Reader_take n r = (Inr b, r') \<Longrightarrow> length b = n"
  by (auto simp: Reader_take_def Reader_ensure_def try_bind_def slice_def split: if_splits)

lemma Reader_u8_eq:
  "Reader_u8 r = (case Reader_rest r of [] \<Rightarrow> (Inl (Reader_err r (Truncated 1)), r)
     | b # _ \<Rightarrow> (Inr b, rd_advance 1 r))"
proof (cases "rd_pos r < length (rd_buf r)")
  case True
  then have "Reader_rest r = rd_buf r ! rd_pos r # drop (Suc (rd_pos r)) (rd_buf r)"
    by (simp add: Reader_rest_def Cons_nth_drop_Suc)
  with True show ?thesis by (simp add: Reader_u8_def rd_advance_def)
next
  case False
  then show ?thesis by (simp add: Reader_u8_def Reader_rest_def)
qed

lemma decodes_take [decodes_intro]: "decodes (Reader_take (length b)) b b"
  by (auto simp: decodes_def decodes_at_def Reader_take_eq)

lemma decodes_take_n: "length b = n \<Longrightarrow> decodes (Reader_take n) b b"
  using decodes_take by blast

lemma decodes_array: "length b = n \<Longrightarrow> decodes (Reader_array n) b b"
  unfolding Reader_array_def using decodes_map [of "Reader_take n" b b "\<lambda>x. x"] decodes_take_n by simp

lemma decodes_u8 [decodes_intro]: "decodes Reader_u8 [b] b"
  by (auto simp: decodes_def decodes_at_def Reader_u8_eq)

lemma decodes_u16 [decodes_intro]: "decodes Reader_u16 (be_bytes 2 v) v"
  unfolding Reader_u16_def using decodes_map [OF decodes_array, of "be_bytes 2 v" 2 "be_word :: bytes \<Rightarrow> u16"] by simp

lemma decodes_u32 [decodes_intro]: "decodes Reader_u32 (be_bytes 4 v) v"
  unfolding Reader_u32_def using decodes_map [OF decodes_array, of "be_bytes 4 v" 4 "be_word :: bytes \<Rightarrow> u32"] by simp

lemma decodes_u64 [decodes_intro]: "decodes Reader_u64 (be_bytes 8 v) v"
  unfolding Reader_u64_def using decodes_map [OF decodes_array, of "be_bytes 8 v" 8 "be_word :: bytes \<Rightarrow> u64"] by simp

lemma decodes_skip: "length b = n \<Longrightarrow> decodes (Reader_skip n) b ()"
  unfolding Reader_skip_def using decodes_map [OF decodes_take_n, of b n "\<lambda>_. ()"] by simp

text \<open>The long form: \<open>0x80\<close> or the number of length bytes, one to four of them.\<close>

lemma long_form_first:
  assumes "0 < k" "k \<le> 4"
  shows "\<not> (0x80 OR of_nat k :: u8) < 0x80" "unat ((0x80 OR of_nat k :: u8) AND 0x7f) = k"
proof -
  from assms have "k = 1 \<or> k = 2 \<or> k = 3 \<or> k = 4" by auto
  then show "\<not> (0x80 OR of_nat k :: u8) < 0x80" "unat ((0x80 OR of_nat k :: u8) AND 0x7f) = k"
    by auto
qed

lemma decodes_long_length:
  assumes "0 < length b" "length b \<le> 4"
  shows "decodes Reader_length ((0x80 OR of_nat (length b)) # b) (be_nat b)"
proof -
  have "be_nat b < 256 ^ length b" by (rule be_nat_less)
  also have "\<dots> \<le> 256 ^ 4" using assms by (intro power_increasing) auto
  finally have v: "unat (be_word b :: u64) = be_nat b" by (simp add: unat_be_word)
  have "decodes (try_bind (Reader_take (length b)) (\<lambda>b. ok (unat (be_word b :: u64)))) b (be_nat b)"
    using decodes_map [OF decodes_take, of b "\<lambda>b. unat (be_word b :: u64)"] v by simp
  then have "decodes (let n = unat ((0x80 OR of_nat (length b)) AND 0x7f :: u8) in
      if n = 0 \<or> n > 4 then rd_fail_back InvalidLength 1
      else try_bind (Reader_take n) (\<lambda>b. ok (unat (be_word b :: u64)))) b (be_nat b)"
    using assms long_form_first [OF assms] by simp
  then show ?thesis
    unfolding Reader_length_def
    by (intro decodes_bind_eq [OF decodes_u8]) (use long_form_first [OF assms] in auto)
qed

lemma decodes_length [decodes_intro]:
  assumes "n < 2 ^ 32"
  shows "decodes Reader_length (len_bytes n) n"
proof (cases "n < 0x80")
  case True
  then have "(of_nat n :: u8) < 0x80" "unat (of_nat n :: u8) = n"
    by (simp_all add: word_less_nat_alt unat_of_nat)
  then show ?thesis
    unfolding Reader_length_def len_bytes_def
    using True by (auto intro!: decodes_bind_eq [OF decodes_u8 _ append_Nil2 [symmetric]] intro: decodes_ok)
next
  case False
  define b where "b = drop (len_first n) (be_bytes 8 (of_nat n :: u64))"
  have "len_first n < 8" "4 \<le> len_first n" "be_nat b = n"
    using False assms len_first_spec [of n] len_first_ge4 [of n] by (auto simp: b_def)
  moreover from this have "length b = 8 - len_first n" by (simp add: b_def)
  ultimately show ?thesis
    using decodes_long_length [of b] False by (simp add: len_bytes_def flip: b_def)
qed

lemma decodes_length_prefixed [decodes_intro]:
  "length b < 2 ^ 32 \<Longrightarrow> decodes Reader_length_prefixed (len_bytes (length b) @ b) b"
  unfolding Reader_length_prefixed_def by (rule decodes_bind [OF decodes_length]) (auto intro: decodes_take)

lemma Reader_new_simps [simp]:
  "rd_buf (Reader_new b) = b" "rd_pos (Reader_new b) = 0" "rd_base (Reader_new b) = 0" "Reader_offset (Reader_new b) = 0"
  "rd_wf (Reader_new b)" "Reader_rest (Reader_new b) = b"
  by (simp_all add: Reader_new_def Reader_offset_def rd_wf_def Reader_rest_def)

lemma decodes_inside:
  assumes "decodes dec bs x" "buf = pre @ bs @ post" "n = length pre" "m = n + length bs"
  shows "dec (rd_advance n (Reader_new buf)) = (Inr x, rd_advance m (Reader_new buf))"
proof -
  have "rd_wf (rd_advance n (Reader_new buf))" "Reader_rest (rd_advance n (Reader_new buf)) = bs @ post"
    using assms(2,3) by (auto simp: rd_wf_def Reader_rest_def)
  with assms(1,4) show ?thesis by (simp add: decodes_def decodes_at_def)
qed

lemma decodes_from_bytes: "decodes dec bs x \<Longrightarrow> from_bytes dec bs = Inr x"
proof -
  assume "decodes dec bs x"
  moreover have "rd_wf (Reader_new bs)" "Reader_rest (Reader_new bs) = bs @ []"
    by (simp_all add: rd_wf_def Reader_rest_def Reader_new_def)
  ultimately have "dec (Reader_new bs) = (Inr x, rd_advance (length bs) (Reader_new bs))"
    by (simp only: decodes_def decodes_at_def)
  then show ?thesis
    by (simp add: from_bytes_def Reader_is_empty_def Reader_remaining_def Reader_new_def)
qed

text \<open>
  A decoder stays inside its buffer: it never changes the buffer or the base, never moves the cursor
  back or past the end, and its errors point between where it started (less \<open>n\<close> bytes that were
  already consumed for it) and the end of the buffer.
\<close>

definition safe_dec :: "nat \<Rightarrow> (Reader, 'a) op \<Rightarrow> bool" where
  "safe_dec n dec \<longleftrightarrow> (\<forall>r. rd_wf r \<longrightarrow> n \<le> rd_pos r \<longrightarrow>
     (case dec r of (res, r') \<Rightarrow>
        rd_buf r' = rd_buf r \<and> rd_base r' = rd_base r \<and> rd_pos r \<le> rd_pos r' \<and> rd_wf r' \<and>
        (case res of Inr _ \<Rightarrow> True
         | Inl e \<Rightarrow> Reader_offset r \<le> err_offset e + n \<and> err_offset e \<le> rd_base r + length (rd_buf r))))"

named_theorems safe_intro \<open>decoders that stay inside their buffer\<close>

lemma safe_decD:
  assumes "safe_dec n dec" "rd_wf r" "n \<le> rd_pos r" "dec r = (res, r')"
  shows "rd_buf r' = rd_buf r" "rd_base r' = rd_base r" "rd_pos r \<le> rd_pos r'" "rd_wf r'"
    "res = Inl e \<Longrightarrow> Reader_offset r \<le> err_offset e + n \<and> err_offset e \<le> rd_base r + length (rd_buf r)"
  using assms unfolding safe_dec_def by (fastforce split: sum.splits)+

lemma safe_decI:
  assumes "\<And>r res r'. rd_wf r \<Longrightarrow> n \<le> rd_pos r \<Longrightarrow> dec r = (res, r') \<Longrightarrow>
     rd_buf r' = rd_buf r \<and> rd_base r' = rd_base r \<and> rd_pos r \<le> rd_pos r' \<and> rd_wf r' \<and>
     (\<forall>e. res = Inl e \<longrightarrow> Reader_offset r \<le> err_offset e + n \<and> err_offset e \<le> rd_base r + length (rd_buf r))"
  shows "safe_dec n dec"
  unfolding safe_dec_def
proof (intro allI impI)
  fix r assume r: "rd_wf r" "n \<le> rd_pos r"
  obtain res r' where d: "dec r = (res, r')" by fastforce
  from assms [OF r d] show "case dec r of (res, r') \<Rightarrow>
        rd_buf r' = rd_buf r \<and> rd_base r' = rd_base r \<and> rd_pos r \<le> rd_pos r' \<and> rd_wf r' \<and>
        (case res of Inr _ \<Rightarrow> True
         | Inl e \<Rightarrow> Reader_offset r \<le> err_offset e + n \<and> err_offset e \<le> rd_base r + length (rd_buf r))"
    by (cases res) (simp_all add: d)
qed

lemma safe_dec_mono: "safe_dec n dec \<Longrightarrow> n \<le> m \<Longrightarrow> safe_dec m dec"
  unfolding safe_dec_def by (fastforce split: sum.splits prod.splits)

lemma safe_bind [safe_intro]:
  assumes m: "safe_dec n m" and k: "\<And>x. safe_dec n (k x)"
  shows "safe_dec n (try_bind m k)"
proof (rule safe_decI)
  fix r res r'' assume r: "rd_wf r" "n \<le> rd_pos r" and run: "try_bind m k r = (res, r'')"
  obtain res' r' where m_run: "m r = (res', r')" by fastforce
  note m_facts = safe_decD [OF m r m_run]
  show "rd_buf r'' = rd_buf r \<and> rd_base r'' = rd_base r \<and> rd_pos r \<le> rd_pos r'' \<and> rd_wf r'' \<and>
     (\<forall>e. res = Inl e \<longrightarrow> Reader_offset r \<le> err_offset e + n \<and> err_offset e \<le> rd_base r + length (rd_buf r))"
  proof (cases res')
    case (Inl e)
    then have "res = Inl e" "r'' = r'" using run m_run by (simp_all add: try_bind_def)
    then show ?thesis using m_facts Inl by auto
  next
    case (Inr x)
    then have "k x r' = (res, r'')" using run m_run by (simp add: try_bind_def)
    from safe_decD [OF k m_facts(4) _ this] r(2) m_facts(3)
    have k_facts: "rd_buf r'' = rd_buf r'" "rd_base r'' = rd_base r'" "rd_pos r' \<le> rd_pos r''" "rd_wf r''"
      "\<And>e. res = Inl e \<Longrightarrow> Reader_offset r' \<le> err_offset e + n \<and> err_offset e \<le> rd_base r' + length (rd_buf r')"
      by auto
    moreover have "Reader_offset r \<le> Reader_offset r'"
      using m_facts by (simp add: Reader_offset_def)
    ultimately show ?thesis using m_facts by auto
  qed
qed

lemma safe_state: "(\<And>r0. safe_dec n (f r0)) \<Longrightarrow> safe_dec n (\<lambda>r. f r r)"
  by (simp add: safe_dec_def)

lemma safe_take_bind:
  assumes "\<And>b. safe_dec (n + k) (f b)"
  shows "safe_dec n (try_bind (Reader_take k) f)"
proof (rule safe_decI)
  fix r res r' assume r: "rd_wf r" "n \<le> rd_pos r" and run: "try_bind (Reader_take k) f r = (res, r')"
  show "rd_buf r' = rd_buf r \<and> rd_base r' = rd_base r \<and> rd_pos r \<le> rd_pos r' \<and> rd_wf r' \<and>
     (\<forall>e. res = Inl e \<longrightarrow> Reader_offset r \<le> err_offset e + n \<and> err_offset e \<le> rd_base r + length (rd_buf r))"
  proof (cases "k \<le> length (Reader_rest r)")
    case True
    then have "f (take k (Reader_rest r)) (rd_advance k r) = (res, r')"
      using run r by (simp add: try_bind_def Reader_take_eq)
    moreover have "rd_wf (rd_advance k r)" using True r by (simp add: rd_wf_def Reader_rest_def)
    ultimately show ?thesis
      using safe_decD [OF assms [of "take k (Reader_rest r)"], of "rd_advance k r" res r'] r by auto
  next
    case False
    then show ?thesis
      using run r by (auto simp: try_bind_def Reader_take_eq Reader_err_def Reader_offset_def rd_wf_def)
  qed
qed

lemma safe_u8_bind:
  assumes "\<And>b. safe_dec (Suc n) (f b)"
  shows "safe_dec n (try_bind Reader_u8 f)"
proof -
  have "try_bind Reader_u8 f r = try_bind (Reader_take 1) (\<lambda>b. f (hd b)) r" if "rd_wf r" for r
    using that by (auto simp: try_bind_def Reader_u8_eq Reader_take_eq split: list.splits)
  moreover have "safe_dec n (try_bind (Reader_take 1) (\<lambda>b. f (hd b)))"
    by (rule safe_take_bind) (use assms in simp)
  ultimately show ?thesis unfolding safe_dec_def by auto
qed

lemma safe_u16_bind:
  assumes "\<And>v. safe_dec (n + 2) (f v)"
  shows "safe_dec n (try_bind Reader_u16 f)"
proof -
  have "try_bind Reader_u16 f = try_bind (Reader_take 2) (\<lambda>b. f (be_word b))"
    unfolding Reader_u16_def Reader_array_def try_bind_assoc try_bind_ok ..
  then show ?thesis using assms by (simp add: safe_take_bind)
qed

lemma safe_ok [safe_intro]: "safe_dec n (ok x)"
  by (simp add: safe_dec_def)

lemma safe_rd_fail [safe_intro]: "safe_dec n (rd_fail k)"
  by (simp add: safe_dec_def rd_fail_def Reader_err_def Reader_offset_def rd_wf_def)

lemma safe_rd_fail_back [safe_intro]: "m \<le> n \<Longrightarrow> safe_dec n (rd_fail_back k m)"
  by (auto simp: safe_dec_def rd_fail_back_def Reader_err_back_def Reader_offset_def rd_wf_def)

lemma safe_take [safe_intro]: "safe_dec n (Reader_take k)"
  by (rule safe_decI)
    (auto simp: Reader_take_eq Reader_err_def Reader_offset_def rd_wf_def Reader_rest_def split: if_splits)

lemma safe_array [safe_intro]: "safe_dec n (Reader_array k)"
  unfolding Reader_array_def by (intro safe_intro)

lemma safe_u8 [safe_intro]: "safe_dec n Reader_u8"
  by (rule safe_decI)
    (auto simp: Reader_u8_def Reader_err_def Reader_offset_def rd_wf_def split: if_splits)

lemma safe_u16 [safe_intro]: "safe_dec n Reader_u16"
  unfolding Reader_u16_def by (intro safe_intro)

lemma safe_u32 [safe_intro]: "safe_dec n Reader_u32"
  unfolding Reader_u32_def by (intro safe_intro)

lemma safe_u64 [safe_intro]: "safe_dec n Reader_u64"
  unfolding Reader_u64_def by (intro safe_intro)

lemma safe_skip [safe_intro]: "safe_dec n (Reader_skip k)"
  unfolding Reader_skip_def by (intro safe_intro)

lemma safe_length [safe_intro]: "safe_dec n Reader_length"
  unfolding Reader_length_def Let_def
  by (intro safe_u8_bind) (auto intro!: safe_intro)

lemma safe_length_prefixed [safe_intro]: "safe_dec n Reader_length_prefixed"
  unfolding Reader_length_prefixed_def by (intro safe_intro)

lemma safe_if [safe_intro]:
  "(c \<Longrightarrow> safe_dec n f) \<Longrightarrow> (\<not> c \<Longrightarrow> safe_dec n g) \<Longrightarrow> safe_dec n (if c then f else g)"
  by simp

subsection \<open>Contracts of a type with an encoding\<close>

locale encoder =
  fixes enc :: "'a \<Rightarrow> (writer, unit) op"
    and img :: "'a \<Rightarrow> bytes"
    and valid :: "'a \<Rightarrow> bool"
  assumes enc_writes: "valid x \<Longrightarrow> writes (enc x) (img x)"
begin

lemma encoded_len_img: "valid x \<Longrightarrow> encoded_len (enc x) = length (img x)"
  by (rule writes_encoded_len) (rule enc_writes)

lemma enc_vec: "valid x \<Longrightarrow> enc x (VecW v) = (Inr (), VecW (v @ img x))"
  by (rule writes_VecW) (rule enc_writes)

lemma enc_slice:
  "valid x \<Longrightarrow> length (img x) \<le> length buf \<Longrightarrow>
    enc x (SliceW (SliceWriter_new buf)) =
      (Inr (), SliceW \<lparr>sw_buf = img x @ drop (length (img x)) buf, sw_pos = length (img x)\<rparr>)"
  by (rule writes_SliceW) (rule enc_writes)

lemma enc_slice_full:
  "valid x \<Longrightarrow> length buf < length (img x) \<Longrightarrow>
    \<exists>n off w'. enc x (SliceW (SliceWriter_new buf)) = (Inl (Error_new (BufferTooSmall n) off), SliceW w') \<and>
      length (sw_buf w') = length buf"
  by (rule writes_SliceW_full) (rule enc_writes)

lemma enc_into_fits:
  "valid x \<Longrightarrow> length (img x) \<le> length out \<Longrightarrow>
    encode_into (enc x) out = (Inr (length (img x)), img x @ drop (length (img x)) out)"
  by (rule encode_into_fits) (rule enc_writes)

lemma enc_into_full:
  "valid x \<Longrightarrow> length out < length (img x) \<Longrightarrow>
    \<exists>n off out'. encode_into (enc x) out = (Inl (Error_new (BufferTooSmall n) off), out') \<and> length out' = length out"
  by (rule encode_into_full) (rule enc_writes)

end

locale codec_pair = encoder enc img valid
  for enc :: "'a \<Rightarrow> (writer, unit) op" and img and valid +
  fixes dec :: "(Reader, 'a) op"
  assumes dec_img: "valid x \<Longrightarrow> decodes dec (img x) x"
begin

text \<open>What the encoder wrote, the decoder reads back.\<close>

lemma round_trip:
  assumes "valid x"
  shows "\<exists>bs. enc x (VecW []) = (Inr (), VecW bs) \<and> from_bytes dec bs = Inr x \<and> encoded_len (enc x) = length bs"
  using assms enc_vec [of x "[]"] decodes_from_bytes [OF dec_img] encoded_len_img by simp

text \<open>The encoding is prefix free: two values never share a beginning.\<close>

lemma img_prefix_free:
  assumes "valid x" "valid y" "img x @ s = img y @ t"
  shows "x = y" "s = t"
proof -
  define r where "r = Reader_new (img x @ s)"
  have wf: "rd_wf r" and rest: "Reader_rest r = img x @ s" "Reader_rest r = img y @ t"
    using assms(3) by (simp_all add: r_def Reader_new_def rd_wf_def Reader_rest_def)
  have "dec r = (Inr x, rd_advance (length (img x)) r)" "dec r = (Inr y, rd_advance (length (img y)) r)"
    using dec_img assms(1,2) wf rest unfolding decodes_def decodes_at_def by metis+
  then show "x = y" by simp
  then show "s = t" using assms(3) by simp
qed

end

locale cursor_decoder =
  fixes dec :: "(Reader, 'a) op"
  assumes dec_safe: "safe_dec 0 dec"
begin

lemma stays_inside:
  assumes "dec (Reader_with_base b base) = (res, r')"
  shows "rd_buf r' = b" "rd_pos r' \<le> length b"
    "res = Inl e \<Longrightarrow> base \<le> err_offset e \<and> err_offset e \<le> base + length b"
  using safe_decD [OF dec_safe _ _ assms]
  by (auto simp: Reader_with_base_def rd_wf_def Reader_offset_def)

lemma from_bytes_error_offset:
  "from_bytes dec b = Inl e \<Longrightarrow> err_offset e \<le> length b"
  using safe_decD [OF dec_safe, of "Reader_new b"]
  by (fastforce simp: from_bytes_def Reader_new_def rd_wf_def Reader_err_def Reader_offset_def
      split: prod.splits sum.splits if_splits)

end

subsection \<open>Properties of the codec\<close>

lemma Reader_length_InrE:
  assumes "Reader_length r = (Inr n, r')" "rd_wf r"
  obtains (short) b :: u8 where "b < 0x80" "n = unat b" "r' = rd_advance 1 r" "1 \<le> length (Reader_rest r)"
  | (long) k where "0 < k" "k \<le> 4" "n < 256 ^ k" "r' = rd_advance (Suc k) r" "Suc k \<le> length (Reader_rest r)"
proof -
  from assms(1) obtain b bs where rest: "Reader_rest r = b # bs"
    and run: "(if b < 0x80 then ok (unat b)
      else let k = unat (b AND 0x7f) in if k = 0 \<or> k > 4 then rd_fail_back InvalidLength 1
        else try_bind (Reader_take k) (\<lambda>b. ok (unat (be_word b :: u64)))) (rd_advance 1 r) = (Inr n, r')"
    by (auto simp: Reader_length_def Reader_u8_eq elim!: try_bind_InrE split: list.splits)
  show thesis
  proof (cases "b < 0x80")
    case True
    then show thesis using run rest by (intro short [of b]) auto
  next
    case False
    define k where "k = unat (b AND 0x7f)"
    have k: "k \<noteq> 0" "k \<le> 4" and take: "Reader_take k (rd_advance 1 r) = (Inr (take k bs), rd_advance k (rd_advance 1 r))"
      and le: "k \<le> length bs" and n: "n = unat (be_word (take k bs) :: u64)" and r': "r' = rd_advance (Suc k) r"
      using run False rest rest_append [OF assms(2), of "[b]" bs]
      by (auto simp: k_def [symmetric] Let_def rd_fail_back_def Reader_take_eq try_bind_def
          split: if_splits)
    have "be_nat (take k bs) < 256 ^ k" using be_nat_less [of "take k bs"] le by (simp add: min_absorb2)
    then have "n < 256 ^ k" using n by (simp add: unat_be_word le_less_trans [OF mod_less_eq_dividend])
    then show thesis using k le rest r' by (intro long [of k]) auto
  qed
qed

lemma length_len_bytes:
  assumes "n < 2 ^ 32" "n < 256 ^ k" "0 < k"
  shows "length (len_bytes n) \<le> Suc k"
proof (cases "n < 0x80")
  case True
  then show ?thesis by (simp add: len_bytes_def)
next
  case False
  then have "(256::nat) ^ (7 - len_first n) \<le> n" "len_first n < 8"
    using len_first_spec [of n] assms by auto
  with assms(2) have "(256::nat) ^ (7 - len_first n) < 256 ^ k" by linarith
  then have "7 - len_first n < k" by (rule power_less_imp_less_exp [rotated]) simp
  with False show ?thesis by (simp add: len_bytes_def)
qed

lemma len_bytes_shortest:
  assumes "from_bytes Reader_length bs = Inr n"
  shows "length (len_bytes n) \<le> length bs"
proof -
  have wf: "rd_wf (Reader_new bs)" and rest: "Reader_rest (Reader_new bs) = bs"
    by (simp_all add: rd_wf_def Reader_new_def Reader_rest_def)
  from assms obtain r' where "Reader_length (Reader_new bs) = (Inr n, r')"
    by (auto simp: from_bytes_def split: prod.splits sum.splits if_splits)
  from this wf show ?thesis
  proof (cases rule: Reader_length_InrE)
    case (short b)
    then have "n < 0x80" by (simp add: word_less_nat_alt)
    then show ?thesis using short rest by (simp add: len_bytes_def)
  next
    case (long k)
    have "(256::nat) ^ k \<le> 256 ^ 4" using long by (intro power_increasing) auto
    then have "n < 2 ^ 32" using long by simp
    from length_len_bytes [OF this] long rest show ?thesis by force
  qed
qed

text \<open>An A-XDR length below \<open>2\<^sup>3\<^sup>2\<close> is written in a form that the reader reads back as the same
  number, and no other byte string the reader accepts for that number is shorter.\<close>

theorem length_round_trip_shortest:
  assumes "n < 2 ^ 32"
  shows "\<exists>bs. write_length n (VecW []) = (Inr (), VecW bs) \<and> from_bytes Reader_length bs = Inr n \<and>
    (\<forall>bs'. from_bytes Reader_length bs' = Inr n \<longrightarrow> length bs \<le> length bs')"
  using writes_VecW [OF writes_length [OF assms], of "[]"] decodes_from_bytes [OF decodes_length [OF assms]]
    len_bytes_shortest by auto

theorem length_round_trip_shortest_witness:
  "(0x1234 :: nat) < 2 ^ 32 \<and> (\<exists>bs. write_length 0x1234 (VecW []) = (Inr (), VecW bs) \<and>
    from_bytes Reader_length bs = Inr 0x1234 \<and>
    (\<forall>bs'. from_bytes Reader_length bs' = Inr 0x1234 \<longrightarrow> length bs \<le> length bs'))"
  using length_round_trip_shortest [of "0x1234"] by simp

text \<open>A primitive read that fails (one byte, a run of bytes, a fixed-width integer, a skip) leaves the
  cursor exactly where it was, so the same read can be retried once more bytes have arrived.\<close>

theorem failed_primitive_read_keeps_cursor:
  assumes "rd_wf r"
  shows "(Reader_u8 r = (Inl e, r') \<or> Reader_take n r = (Inl e, r') \<or> Reader_array n r = (Inl e, r') \<or>
    Reader_u16 r = (Inl e, r') \<or> Reader_u32 r = (Inl e, r') \<or> Reader_u64 r = (Inl e, r') \<or>
    Reader_skip n r = (Inl e, r')) \<longrightarrow> r' = r"
  using assms
  by (auto simp: Reader_u8_def Reader_take_eq Reader_array_def Reader_u16_def Reader_u32_def Reader_u64_def
      Reader_skip_def elim!: try_bind_InlE split: if_splits)

theorem failed_primitive_read_keeps_cursor_witness:
  "rd_wf (Reader_new [0xaa]) \<and>
    Reader_u16 (Reader_new [0xaa]) = (Inl (Error_new (Truncated 1) 0), Reader_new [0xaa])"
proof -
  have wf: "rd_wf (Reader_new [0xaa])" by (simp add: rd_wf_def Reader_new_def)
  obtain r' where run: "Reader_u16 (Reader_new [0xaa]) = (Inl (Error_new (Truncated 1) 0), r')"
    using wf by (auto simp: Reader_u16_def Reader_array_def Reader_take_eq try_bind_def Reader_rest_def
        Reader_new_def Reader_err_def Reader_offset_def)
  with failed_primitive_read_keeps_cursor [OF wf, of "Error_new (Truncated 1) 0" r'] wf show ?thesis by simp
qed

text \<open>The composite reads do not have that property: a length whose long form is cut short, and a
  length-prefixed string whose bytes have not all arrived, both report \<^const>\<open>Truncated\<close> with the cursor
  already past the bytes they had read, so retrying the same read on a longer buffer starts in the
  wrong place.\<close>

theorem truncated_length_read_moves_cursor:
  "Reader_length (Reader_new [0x82, 0x01]) =
     (Inl (Error_new (Truncated 1) 1), \<lparr>rd_buf = [0x82, 0x01], rd_pos = 1, rd_base = 0\<rparr>) \<and>
   Reader_length_prefixed (Reader_new [0x03, 0x61]) =
     (Inl (Error_new (Truncated 2) 1), \<lparr>rd_buf = [0x03, 0x61], rd_pos = 1, rd_base = 0\<rparr>)"
  by (simp add: Reader_length_def Reader_length_prefixed_def Reader_u8_def Reader_take_def Reader_ensure_def
      Reader_remaining_def Reader_new_def Reader_err_def Reader_offset_def try_bind_def)

end
