(* ===== verification/Hdlc.thy ===== *)
theory Hdlc
  imports Codec
begin

text \<open>
  HDLC frames, \<^verbatim>\<open>src/src/transport/hdlc.rs\<close> up to \<^verbatim>\<open>Framer\<close>: the check sequence, addresses, the control
  field, one frame, and the search for a frame in a noisy byte stream.
\<close>

definition FLAG :: u8 where
  "FLAG = 0x7E"

definition LLC_REQUEST :: bytes where
  "LLC_REQUEST = [0xE6, 0xE6, 0x00]"

definition LLC_RESPONSE :: bytes where
  "LLC_RESPONSE = [0xE6, 0xE7, 0x00]"

subsection \<open>The check sequence\<close>

definition crc_bit :: "u16 \<Rightarrow> u16" where
  "crc_bit fcs = (if fcs AND 1 \<noteq> 0 then drop_bit 1 fcs XOR 0x8408 else drop_bit 1 fcs)"

definition crc_byte :: "u16 \<Rightarrow> u8 \<Rightarrow> u16" where
  "crc_byte fcs b = (crc_bit ^^ 8) (fcs XOR ucast b)"

definition crc_update :: "u16 \<Rightarrow> bytes \<Rightarrow> u16" where
  "crc_update fcs data = foldl crc_byte fcs data"

definition fcs16 :: "bytes \<Rightarrow> u16" where
  "fcs16 data = NOT (foldl crc_byte 0xFFFF data)"

subsection \<open>Addresses\<close>

datatype Address = Single u8 | Double u8 u8 | Quad u16 u16

definition Address_client :: "u8 \<Rightarrow> Address" where
  "Address_client sap = Single sap"

definition Address_server :: "u16 \<Rightarrow> u16 \<Rightarrow> Address" where
  "Address_server logical physical =
     (if logical \<le> 0x7F \<and> physical \<le> 0x7F then Double (ucast logical) (ucast physical)
      else Quad logical physical)"

fun Address_len :: "Address \<Rightarrow> nat" where
  "Address_len (Single _) = 1"
| "Address_len (Double _ _) = 2"
| "Address_len (Quad _ _) = 4"

text \<open>The shift \<^verbatim>\<open>v << 1\<close> of a byte.\<close>

definition shl1 :: "u8 \<Rightarrow> u8" where
  "shl1 v = push_bit 1 v"

fun Address_encode :: "Address \<Rightarrow> (writer, unit) op" where
  "Address_encode (Single v) = write_u8 (shl1 v OR 1)"
| "Address_encode (Double upper lower) = write_bytes [shl1 upper, shl1 lower OR 1]"
| "Address_encode (Quad upper lower) = write_bytes
     [shl1 (ucast (drop_bit 7 upper)), shl1 (ucast (upper AND 0x7F)),
      shl1 (ucast (drop_bit 7 lower)), shl1 (ucast (lower AND 0x7F)) OR 1]"

text \<open>The loop reads seven bits a byte until a byte with its low bit set; \<open>k\<close> is how many more may be read.\<close>

fun addr_loop :: "nat \<Rightarrow> u8 list \<Rightarrow> (Reader, u8 list) op" where
  "addr_loop 0 parts = rd_fail InvalidValue"
| "addr_loop (Suc k) parts = try_bind Reader_u8 (\<lambda>b.
     let parts = parts @ [drop_bit 1 b] in if b AND 1 \<noteq> 0 then ok parts else addr_loop k parts)"

definition Address_decode :: "(Reader, Address) op" where
  "Address_decode = try_bind (addr_loop 4 []) (\<lambda>parts.
     case parts of
       [a] \<Rightarrow> ok (Single a)
     | [a, b] \<Rightarrow> ok (Double a b)
     | [a, b, c, d] \<Rightarrow> ok (Quad (push_bit 7 (ucast a) OR ucast b) (push_bit 7 (ucast c) OR ucast d))
     | _ \<Rightarrow> rd_fail InvalidValue)"

subsection \<open>The control field\<close>

datatype Control =
    CI u8 u8 bool
  | Rr u8 bool
  | Rnr u8 bool
  | Snrm | Ua | Disc | Dm | Frmr | Ui

fun Control_as_u8 :: "Control \<Rightarrow> u8" where
  "Control_as_u8 (CI ns nr pf) = push_bit 5 (nr AND 7) OR push_bit 4 (of_bool pf) OR push_bit 1 (ns AND 7)"
| "Control_as_u8 (Rr nr pf) = push_bit 5 (nr AND 7) OR push_bit 4 (of_bool pf) OR 0x01"
| "Control_as_u8 (Rnr nr pf) = push_bit 5 (nr AND 7) OR push_bit 4 (of_bool pf) OR 0x05"
| "Control_as_u8 Snrm = 0x93"
| "Control_as_u8 Ua = 0x73"
| "Control_as_u8 Disc = 0x53"
| "Control_as_u8 Dm = 0x1F"
| "Control_as_u8 Frmr = 0x97"
| "Control_as_u8 Ui = 0x13"

definition Control_from_u8 :: "u8 \<Rightarrow> Control" where
  "Control_from_u8 v =
     (if v AND 1 = 0 then CI (drop_bit 1 v AND 7) (drop_bit 5 v AND 7) (v AND 0x10 \<noteq> 0)
      else let u = v AND NOT 0x10 in
        if u = 0x83 then Snrm
        else if u = 0x63 then Ua
        else if u = 0x43 then Disc
        else if u = 0x0F then Dm
        else if u = 0x87 then Frmr
        else if u = 0x03 then Ui
        else if v AND 0x0F = 0x01 then Rr (drop_bit 5 v AND 7) (v AND 0x10 \<noteq> 0)
        else if v AND 0x0F = 0x05 then Rnr (drop_bit 5 v AND 7) (v AND 0x10 \<noteq> 0)
        else Frmr)"

fun Control_is_supervisory :: "Control \<Rightarrow> bool" where
  "Control_is_supervisory (Rr _ _) = True"
| "Control_is_supervisory (Rnr _ _) = True"
| "Control_is_supervisory _ = False"

subsection \<open>Frames\<close>

record Frame =
  fr_segmented :: bool
  fr_destination :: Address
  fr_source :: Address
  fr_control :: Control
  fr_information :: bytes

definition Frame_control_only :: "Address \<Rightarrow> Address \<Rightarrow> Control \<Rightarrow> Frame" where
  "Frame_control_only destination source control =
     \<lparr>fr_segmented = False, fr_destination = destination, fr_source = source, fr_control = control, fr_information = []\<rparr>"

definition Frame_encoded_len :: "Frame \<Rightarrow> nat" where
  "Frame_encoded_len f =
     (let body = 2 + Address_len (fr_destination f) + Address_len (fr_source f) + 1;
          info = (if fr_information f = [] then 0 else 2 + length (fr_information f))
      in 1 + body + info + 2 + 1)"

definition Frame_encode :: "Frame \<Rightarrow> (writer, unit) op" where
  "Frame_encode f =
     (let header_len = 2 + Address_len (fr_destination f) + Address_len (fr_source f) + 1;
          hcs_len = (if fr_information f \<noteq> [] then 1 else 0) * 2;
          frame_len = header_len + hcs_len + length (fr_information f) + 2
      in if frame_len > 0x7FF then fail (Error_new InvalidLength 0)
         else
           let format = 0xA000 OR push_bit 11 (of_bool (fr_segmented f)) OR (of_nat frame_len :: u16)
           in case encode_into
                (try_bind (write_u16 format) (\<lambda>_.
                 try_bind (Address_encode (fr_destination f)) (\<lambda>_.
                 try_bind (Address_encode (fr_source f)) (\<lambda>_.
                 write_u8 (Control_as_u8 (fr_control f)))))) (replicate 12 0) of
                (Inl e, _) \<Rightarrow> fail e
              | (Inr header_bytes_len, header) \<Rightarrow>
                  let header = take header_bytes_len header in
                  try_bind (write_u8 FLAG) (\<lambda>_.
                  try_bind (write_bytes header) (\<lambda>_.
                  try_bind (if fr_information f \<noteq> []
                    then try_bind (write_bytes (le_bytes 2 (fcs16 header))) (\<lambda>_. write_bytes (fr_information f))
                    else ok ()) (\<lambda>_.
                  let fcs = crc_update 0xFFFF header;
                      fcs = (if fr_information f \<noteq> []
                             then crc_update (crc_update fcs (le_bytes 2 (fcs16 header))) (fr_information f) else fcs)
                  in try_bind (write_bytes (le_bytes 2 (NOT fcs))) (\<lambda>_.
                  write_u8 FLAG)))))"

definition MIN_FRAME_LEN :: nat where
  "MIN_FRAME_LEN = 2 + 1 + 1 + 1 + 2"

definition from_le_bytes :: "u8 \<Rightarrow> u8 \<Rightarrow> u16" where
  "from_le_bytes lo hi = be_word [hi, lo]"

text \<open>The part of \<^verbatim>\<open>decode_frame\<close> that reads out of the frame alone, once its end is known.\<close>

definition decode_frame_body :: "bool \<Rightarrow> bytes \<Rightarrow> nat \<Rightarrow> (Frame \<times> nat) result" where
  "decode_frame_body segmented frame total_len =
     fst (try_bind (Reader_skip 3) (\<lambda>_.
       try_bind Address_decode (\<lambda>destination.
       try_bind Address_decode (\<lambda>source.
       try_bind Reader_u8 (\<lambda>c r.
         let control = Control_from_u8 c;
             header_end = Reader_offset r;
             fcs_at = total_len - 3
         in if header_end > fcs_at then (Inl (Error_new InvalidLength header_end), r)
         else
           let header = take (header_end - 1) (drop 1 frame);
               fcs = from_le_bytes (frame ! fcs_at) (frame ! (fcs_at + 1))
           in if fcs \<noteq> fcs16 (take (fcs_at - 1) (drop 1 frame)) then (Inl (Error_new BadChecksum fcs_at), r)
           else if header_end = fcs_at
           then (Inr (\<lparr>fr_segmented = segmented, fr_destination = destination, fr_source = source,
                       fr_control = control, fr_information = []\<rparr>, total_len), r)
           else if header_end + 2 > fcs_at then (Inl (Error_new InvalidLength header_end), r)
           else
             let hcs = from_le_bytes (frame ! header_end) (frame ! (header_end + 1)) in
             if hcs \<noteq> fcs16 header then (Inl (Error_new BadChecksum header_end), r)
             else (Inr (\<lparr>fr_segmented = segmented, fr_destination = destination, fr_source = source,
                         fr_control = control,
                         fr_information = take (fcs_at - (header_end + 2)) (drop (header_end + 2) frame)\<rparr>, total_len), r)))))
       (Reader_new frame))"

definition decode_frame :: "bytes \<Rightarrow> (Frame \<times> nat) result" where
  "decode_frame bs =
     fst (try_bind Reader_u8 (\<lambda>flag.
       if flag \<noteq> FLAG then rd_fail_back InvalidValue 1
       else try_bind Reader_u16 (\<lambda>format.
       if format AND 0xF000 \<noteq> 0xA000 then rd_fail_back InvalidValue 2
       else
         let segmented = (format AND 0x0800 \<noteq> 0);
             frame_len = unat (format AND 0x07FF)
         in if frame_len < MIN_FRAME_LEN then rd_fail_back InvalidLength 2
         else
           let total_len = 1 + frame_len + 1 in
           if length bs < total_len then fail (Error_new (Truncated (total_len - length bs)) (length bs))
           else if bs ! (total_len - 1) \<noteq> FLAG then fail (Error_new InvalidValue (total_len - 1))
           else lift_res (decode_frame_body segmented (take total_len bs) total_len)))
       (Reader_new bs))"

subsection \<open>Finding a frame in a stream\<close>

datatype Found = FoundFrame Frame nat | Incomplete nat

record Framer =
  fm_discarded :: nat

definition Framer_new :: Framer where
  "Framer_new = \<lparr>fm_discarded = 0\<rparr>"

text \<open>
  The loop of \<^verbatim>\<open>next_frame\<close>: the position and the extent of the frame it found, or the first candidate
  that was cut short.
\<close>

function framer_loop :: "bytes \<Rightarrow> nat \<Rightarrow> nat option \<Rightarrow> (Frame \<times> nat \<times> nat) + nat option" where
  "framer_loop buf start first_incomplete =
     (if start < length buf then
        case position (\<lambda>b. b = FLAG) (drop start buf) of
          None \<Rightarrow> Inr first_incomplete
        | Some rel \<Rightarrow>
            (let from = start + rel in
             case decode_frame (drop from buf) of
               Inr (frame, used) \<Rightarrow> Inl (frame, from, from + used)
             | Inl e \<Rightarrow> framer_loop buf (from + 1)
                 (if Error_is_truncated e \<and> first_incomplete = None then Some from else first_incomplete))
      else Inr first_incomplete)"
  by pat_completeness auto
termination by (relation "measure (\<lambda>(buf, start, _). length buf - start)") auto

declare framer_loop.simps [simp del]

definition Framer_next_frame :: "bytes \<Rightarrow> (Framer, Found) op" where
  "Framer_next_frame buf fm =
     (case framer_loop buf 0 None of
        Inl (frame, from, consumed) \<Rightarrow> (Inr (FoundFrame frame consumed), fm\<lparr>fm_discarded := fm_discarded fm + from\<rparr>)
      | Inr first_incomplete \<Rightarrow>
          let discard = (case first_incomplete of Some i \<Rightarrow> i | None \<Rightarrow> length buf)
          in (Inr (Incomplete discard), fm\<lparr>fm_discarded := fm_discarded fm + discard\<rparr>))"

subsection \<open>Seven bits a byte\<close>

lemma and_mask_self: "unat (w :: 'a::len word) < 2 ^ n \<Longrightarrow> w AND mask n = w"
  by (metis take_bit_eq_mask take_bit_nat_eq_self_iff unsigned_take_bit_eq word_unat_eq_iff)

lemma not_bit_small: "unat (w :: 'a::len word) < 2 ^ n \<Longrightarrow> n \<le> i \<Longrightarrow> \<not> bit w i"
  by (metis and_mask_self bit_and_iff bit_mask_iff not_le)

lemma shl1_u8:
  fixes v :: u8
  assumes "v < 0x80"
  shows "drop_bit (Suc 0) (shl1 v) = v" "shl1 v AND 1 = 0"
    "drop_bit (Suc 0) (shl1 v OR 1) = v" "(shl1 v OR 1) AND 1 = 1"
proof -
  have hi: "\<not> bit v 7" using assms by (intro not_bit_small [of _ 7]) (simp_all add: word_less_nat_alt)
  have b: "bit v i \<Longrightarrow> i < 7" for i
    using hi bit_imp_le_length [of v i] by (cases "i = 7") auto
  have p: "bit (shl1 v) i \<longleftrightarrow> 0 < i \<and> i < 8 \<and> bit v (i - 1)" for i
    unfolding shl1_def bit_push_bit_iff [of 1 v i] by (auto simp: Suc_le_eq)
  show "drop_bit (Suc 0) (shl1 v) = v"
    by (rule bit_eqI) (auto simp: bit_simps p dest: b)
  show "shl1 v AND 1 = 0" by (rule bit_eqI) (auto simp: bit_simps p)
  show "drop_bit (Suc 0) (shl1 v OR 1) = v" by (rule bit_eqI) (auto simp: bit_simps p dest: b)
  show "(shl1 v OR 1) AND 1 = 1" by (rule bit_eqI) (auto simp: bit_simps p)
qed

lemma split14:
  fixes v :: u16
  assumes "v < 0x4000"
  shows "(ucast (drop_bit 7 v) :: u8) < 0x80" "(ucast (v AND 0x7F) :: u8) < 0x80"
    "push_bit 7 (ucast (ucast (drop_bit 7 v) :: u8)) OR ucast (ucast (v AND 0x7F) :: u8) = v"
proof -
  have b: "bit v i \<Longrightarrow> i < 14" for i
    using assms not_bit_small [of v 14 i] by (cases "i < 14") (auto simp: word_less_nat_alt)
  have m: "(0x7F :: u16) = mask 7" by (simp add: mask_eq_exp_minus_1)
  have m8: "w < 0x80" if "\<And>i. bit w i \<Longrightarrow> i < 7" for w :: u8
  proof -
    have "w = w AND mask 7" by (rule bit_eqI) (use that in \<open>auto simp: bit_simps\<close>)
    also have "\<dots> \<le> mask 7" by (rule word_and_le1)
    finally show ?thesis by (simp add: mask_eq_exp_minus_1 word_less_nat_alt word_le_nat_alt)
  qed
  show "(ucast (drop_bit 7 v) :: u8) < 0x80" by (rule m8) (auto simp: bit_simps dest!: b)
  show "(ucast (v AND 0x7F) :: u8) < 0x80" unfolding m by (rule m8) (auto simp: bit_simps)
  show "push_bit 7 (ucast (ucast (drop_bit 7 v) :: u8)) OR ucast (ucast (v AND 0x7F) :: u8) = v"
    unfolding m by (rule bit_eqI) (auto simp: bit_simps dest: b)
qed

fun addr_image :: "Address \<Rightarrow> bytes" where
  "addr_image (Single v) = [shl1 v OR 1]"
| "addr_image (Double upper lower) = [shl1 upper, shl1 lower OR 1]"
| "addr_image (Quad upper lower) =
     [shl1 (ucast (drop_bit 7 upper)), shl1 (ucast (upper AND 0x7F)),
      shl1 (ucast (drop_bit 7 lower)), shl1 (ucast (lower AND 0x7F)) OR 1]"

text \<open>Seven bits each in the short forms, fourteen in the long one.\<close>

fun addr_valid :: "Address \<Rightarrow> bool" where
  "addr_valid (Single v) \<longleftrightarrow> v < 0x80"
| "addr_valid (Double upper lower) \<longleftrightarrow> upper < 0x80 \<and> lower < 0x80"
| "addr_valid (Quad upper lower) \<longleftrightarrow> upper < 0x4000 \<and> lower < 0x4000"

lemma length_addr_image [simp]: "length (addr_image a) = Address_len a"
  by (cases a) auto

lemma decodes_addr_loop:
  assumes "bs \<noteq> []" "length bs \<le> k" "last bs AND 1 = 1" "\<forall>b\<in>set (butlast bs). b AND 1 = 0"
  shows "decodes (addr_loop k parts) bs (parts @ map (drop_bit 1) bs)"
  using assms
proof (induction bs arbitrary: k parts)
  case (Cons b bs)
  then obtain k' where k: "k = Suc k'" by (cases k) auto
  show ?case
  proof (cases "bs = []")
    case True
    then show ?thesis using Cons.prems
      by (auto simp: k intro!: decodes_last [OF decodes_u8])
  next
    case False
    then have "decodes (addr_loop k' (parts @ [drop_bit 1 b])) bs ((parts @ [drop_bit 1 b]) @ map (drop_bit 1) bs)"
      using Cons.prems by (intro Cons.IH) (auto simp: k)
    then show ?thesis
      using Cons.prems False by (auto simp: k intro!: decodes_bind_eq [OF decodes_u8, where b = bs])
  qed
qed simp

interpretation addr: codec_pair Address_encode addr_image addr_valid Address_decode
proof unfold_locales
  fix a assume v: "addr_valid a"
  show "writes (Address_encode a) (addr_image a)"
    by (cases a) (auto intro: writes_u8 writes_bytes)
  have loop: "decodes (addr_loop 4 []) (addr_image a) (map (drop_bit 1) (addr_image a))"
    using v decodes_addr_loop [of "addr_image a" 4 "[]"] by (cases a) (auto simp: shl1_u8 split14)
  show "decodes Address_decode (addr_image a) a"
    unfolding Address_decode_def
    by (rule decodes_last [OF loop]) (use v in \<open>cases a; simp add: shl1_u8 split14\<close>)
qed

lemma Address_server_valid: "logical < 0x4000 \<Longrightarrow> physical < 0x4000 \<Longrightarrow> addr_valid (Address_server logical physical)"
proof -
  assume a: "logical < 0x4000" "physical < 0x4000"
  have "(ucast w :: u8) < 0x80" if "w \<le> 0x7F" for w :: u16
    using that by (simp add: word_less_nat_alt word_le_nat_alt unsigned_ucast_eq take_bit_eq_mod)
  with a show ?thesis by (auto simp: Address_server_def)
qed

subsection \<open>The control field round trip\<close>

fun control_valid :: "Control \<Rightarrow> bool" where
  "control_valid (CI ns nr pf) \<longleftrightarrow> ns < 8 \<and> nr < 8"
| "control_valid (Rr nr pf) \<longleftrightarrow> nr < 8"
| "control_valid (Rnr nr pf) \<longleftrightarrow> nr < 8"
| "control_valid _ \<longleftrightarrow> True"

lemma below8: "(n :: u8) < 8 \<Longrightarrow> n \<in> set [0, 1, 2, 3, 4, 5, 6, 7]"
proof -
  assume "n < 8"
  then have "unat n < 8" by (simp add: word_less_nat_alt)
  then have "unat n \<in> set [0, 1, 2, 3, 4, 5, 6, 7]" by auto
  then have "(of_nat (unat n) :: u8) \<in> of_nat ` set [0, 1, 2, 3, 4, 5, 6, 7]" by (rule imageI)
  then show ?thesis by simp
qed

lemma Control_table:
  "\<forall>nr\<in>set [0, 1, 2, 3, 4, 5, 6, 7]. \<forall>pf\<in>set [True, False].
     (\<forall>ns\<in>set [0, 1, 2, 3, 4, 5, 6, 7]. Control_from_u8 (Control_as_u8 (CI ns nr pf)) = CI ns nr pf) \<and>
     Control_from_u8 (Control_as_u8 (Rr nr pf)) = Rr nr pf \<and>
     Control_from_u8 (Control_as_u8 (Rnr nr pf)) = Rnr nr pf"
  by code_simp

lemma Control_round_trip:
  assumes "control_valid c"
  shows "Control_from_u8 (Control_as_u8 c) = c"
proof -
  have pf: "pf \<in> set [True, False]" for pf by (cases pf) auto
  show ?thesis
    using assms Control_table below8 pf by (cases c) (auto simp: Control_from_u8_def Let_def simp del: list.set)
qed

lemma Control_from_u8_valid: "control_valid (Control_from_u8 v)"
proof -
  have "w AND 7 < 8" for w :: u8
    using word_and_le1 [of w 7] by (simp add: word_less_nat_alt word_le_nat_alt)
  then show ?thesis by (simp add: Control_from_u8_def Let_def)
qed

subsection \<open>What the check sequence detects\<close>

lemma crc_update_append: "crc_update fcs (a @ b) = crc_update (crc_update fcs a) b"
  by (simp add: crc_update_def)

lemma crc_update_Nil [simp]: "crc_update fcs [] = fcs"
  by (simp add: crc_update_def)

lemma fcs16_crc_update: "fcs16 data = NOT (crc_update 0xFFFF data)"
  by (simp add: fcs16_def crc_update_def)

text \<open>The feedback polynomial sets the top bit, so the bit shifted out can be told from the result.\<close>

lemma xor_cancel: "a XOR c = b XOR c \<longleftrightarrow> a = b" for a b c :: "'a::len word"
  by (metis xor.assoc xor_self_eq xor.right_neutral)

lemma inj_crc_bit: "inj crc_bit"
proof (rule injI)
  fix x y :: u16 assume eq: "crc_bit x = crc_bit y"
  have top: "bit (crc_bit z) 15 \<longleftrightarrow> bit z 0" for z
    by (auto simp: crc_bit_def bit_simps and_one_eq bit_0 mod_2_eq_odd bit_numeral_rec dest: bit_imp_le_length)
  have low: "bit x 0 \<longleftrightarrow> bit y 0" using top eq by metis
  then have "drop_bit 1 x = drop_bit 1 y"
    using eq xor_cancel by (auto simp: crc_bit_def and_one_eq mod_2_eq_odd bit_0 split: if_splits)
  then have "bit x (Suc n) = bit y (Suc n)" for n by (metis bit_drop_bit_eq plus_1_eq_Suc comp_apply)
  with low show "x = y" by (intro bit_eqI) (metis not0_implies_Suc)
qed

lemma inj_crc_byte: "crc_byte u b = crc_byte v c \<longleftrightarrow> u XOR ucast b = v XOR ucast c"
proof -
  have "inj (crc_bit ^^ n)" for n
    by (induction n) (simp_all only: funpow.simps inj_on_id inj_compose [OF inj_crc_bit])
  then show ?thesis by (auto simp: crc_byte_def dest: injD)
qed

lemma crc_update_inj: "crc_update u bs = crc_update v bs \<longleftrightarrow> u = v"
proof (induction bs arbitrary: u v)
  case (Cons b bs)
  then show ?case by (simp add: crc_update_def inj_crc_byte xor_cancel)
qed (simp add: crc_update_def)

lemma unat_ucast_u8_u16: "unat (ucast (b :: u8) :: u16) = unat b"
  by (simp add: unsigned_ucast_eq take_bit_eq_mod mod_less [OF less_trans [OF unat_u8_less]])

lemma fcs16_detects:
  assumes "b \<noteq> c"
  shows "fcs16 (p @ [b] @ s) \<noteq> fcs16 (p @ [c] @ s)"
proof
  assume "fcs16 (p @ [b] @ s) = fcs16 (p @ [c] @ s)"
  then have "crc_byte (crc_update 0xFFFF p) b = crc_byte (crc_update 0xFFFF p) c"
    using crc_update_inj [of "crc_byte (crc_update 0xFFFF p) b" s "crc_byte (crc_update 0xFFFF p) c"]
    by (simp add: fcs16_crc_update) (simp add: crc_update_def)
  then have "(ucast b :: u16) = ucast c" by (simp add: inj_crc_byte xor_cancel xor.commute [of "crc_update 0xFFFF p"])
  then have "unat b = unat c" by (metis unat_ucast_u8_u16)
  then show False using assms by (simp add: word_unat_eq_iff)
qed

subsection \<open>The bytes of a frame\<close>

definition frame_len :: "Frame \<Rightarrow> nat" where
  "frame_len f = 2 + Address_len (fr_destination f) + Address_len (fr_source f) + 1 +
     (if fr_information f \<noteq> [] then 1 else 0) * 2 + length (fr_information f) + 2"

definition frame_format :: "Frame \<Rightarrow> u16" where
  "frame_format f = 0xA000 OR push_bit 11 (of_bool (fr_segmented f)) OR of_nat (frame_len f)"

definition frame_header :: "Frame \<Rightarrow> bytes" where
  "frame_header f = be_bytes 2 (frame_format f) @ addr_image (fr_destination f) @ addr_image (fr_source f) @
     [Control_as_u8 (fr_control f)]"

definition frame_body :: "Frame \<Rightarrow> bytes" where
  "frame_body f = frame_header f @
     (if fr_information f = [] then [] else le_bytes 2 (fcs16 (frame_header f)) @ fr_information f)"

definition frame_image :: "Frame \<Rightarrow> bytes" where
  "frame_image f = [FLAG] @ frame_body f @ le_bytes 2 (fcs16 (frame_body f)) @ [FLAG]"

definition frame_valid :: "Frame \<Rightarrow> bool" where
  "frame_valid f \<longleftrightarrow> addr_valid (fr_destination f) \<and> addr_valid (fr_source f) \<and> control_valid (fr_control f) \<and>
     frame_len f \<le> 0x7FF"

lemma length_frame_header: "length (frame_header f) = 3 + Address_len (fr_destination f) + Address_len (fr_source f)"
  by (simp add: frame_header_def)

lemma length_frame_body: "length (frame_body f) + 2 = frame_len f"
  by (simp add: frame_body_def length_frame_header frame_len_def)

lemma length_frame_image: "length (frame_image f) = frame_len f + 2"
  using length_frame_body [of f] by (simp add: frame_image_def)

lemma frame_encoded_len: "Frame_encoded_len f = length (frame_image f)"
  by (simp add: Frame_encoded_len_def length_frame_image frame_len_def Let_def)

lemma Address_len_le: "Address_len a \<le> 4" "0 < Address_len a"
  by (cases a; simp)+

interpretation frame_enc: encoder Frame_encode frame_image frame_valid
proof unfold_locales
  fix f assume v: "frame_valid f"
  have "writes (Address_encode a) (addr_image a)" for a
    by (cases a) (auto intro: writes_u8 writes_bytes)
  then have "writes (try_bind (write_u16 (frame_format f)) (\<lambda>_. try_bind (Address_encode (fr_destination f)) (\<lambda>_.
      try_bind (Address_encode (fr_source f)) (\<lambda>_. write_u8 (Control_as_u8 (fr_control f)))))) (frame_header f)"
    unfolding frame_header_def by (intro writes_seq writes_u16 writes_u8)
  moreover have "length (frame_header f) \<le> length (replicate 12 (0 :: u8))"
    using Address_len_le(1) [of "fr_destination f"] Address_len_le(1) [of "fr_source f"] by (simp add: length_frame_header)
  ultimately have hdr: "encode_into (try_bind (write_u16 (frame_format f)) (\<lambda>_. try_bind (Address_encode (fr_destination f)) (\<lambda>_.
      try_bind (Address_encode (fr_source f)) (\<lambda>_. write_u8 (Control_as_u8 (fr_control f)))))) (replicate 12 0) =
      (Inr (length (frame_header f)), frame_header f @ drop (length (frame_header f)) (replicate 12 0))"
    by (rule encode_into_fits)
  have fcs: "fcs16 (frame_body f) = NOT (if fr_information f \<noteq> []
      then crc_update (crc_update (crc_update 0xFFFF (frame_header f)) (le_bytes 2 (fcs16 (frame_header f)))) (fr_information f)
      else crc_update 0xFFFF (frame_header f))"
    by (simp add: frame_body_def fcs16_crc_update crc_update_append)
  have mid: "writes (if fr_information f \<noteq> []
      then try_bind (write_bytes (le_bytes 2 (fcs16 (frame_header f)))) (\<lambda>_. write_bytes (fr_information f)) else ok ())
      (if fr_information f = [] then [] else le_bytes 2 (fcs16 (frame_header f)) @ fr_information f)"
    by (auto intro: writes_seq writes_bytes writes_ok)
  have "\<not> 0x7FF < frame_len f" using v by (simp add: frame_valid_def)
  then have "Frame_encode f = try_bind (write_u8 FLAG) (\<lambda>_. try_bind (write_bytes (frame_header f)) (\<lambda>_.
      try_bind (if fr_information f \<noteq> []
        then try_bind (write_bytes (le_bytes 2 (fcs16 (frame_header f)))) (\<lambda>_. write_bytes (fr_information f)) else ok ()) (\<lambda>_.
      try_bind (write_bytes (le_bytes 2 (fcs16 (frame_body f)))) (\<lambda>_. write_u8 FLAG))))"
    unfolding Frame_encode_def fcs Let_def frame_len_def [symmetric] frame_format_def [symmetric] hdr by simp
  moreover have "frame_image f = [FLAG] @ frame_header f @
      (if fr_information f = [] then [] else le_bytes 2 (fcs16 (frame_header f)) @ fr_information f) @
      le_bytes 2 (fcs16 (frame_body f)) @ [FLAG]"
    by (simp add: frame_image_def frame_body_def)
  ultimately show "writes (Frame_encode f) (frame_image f)"
    by (simp only:) (intro writes_seq writes_u8 writes_bytes mid)
qed

subsection \<open>Decoding a frame\<close>

lemma decode_frame_short:
  assumes "length bs < 3"
  shows "decode_frame bs = (if bs \<noteq> [] \<and> hd bs \<noteq> FLAG then Inl (Error_new InvalidValue 0)
    else Inl (Error_new (Truncated (if bs = [] then 1 else 3 - length bs)) (if bs = [] then 0 else 1)))"
  using assms
  by (cases bs) (auto simp: decode_frame_def try_bind_def Reader_u8_eq Reader_u16_def Reader_array_def Reader_take_def
      Reader_ensure_def Reader_remaining_def Reader_new_def Reader_rest_def Reader_err_def Reader_err_back_def Reader_offset_def
      rd_fail_back_def rd_advance_def)

lemma decode_frame_not_flag: "bs \<noteq> [] \<Longrightarrow> hd bs \<noteq> FLAG \<Longrightarrow> decode_frame bs = Inl (Error_new InvalidValue 0)"
  by (cases bs) (auto simp: decode_frame_def try_bind_def Reader_u8_eq Reader_new_def Reader_rest_def Reader_err_back_def
      Reader_offset_def rd_fail_back_def rd_advance_def)

text \<open>Once the three leading bytes are there, everything else is decided by the length they name.\<close>

definition frame_fmt :: "bytes \<Rightarrow> u16" where
  "frame_fmt bs = be_word (take 2 (drop 1 bs))"

definition frame_extent :: "bytes \<Rightarrow> nat" where
  "frame_extent bs = unat (frame_fmt bs AND 0x07FF) + 2"

lemma decode_frame_long:
  assumes "3 \<le> length bs"
  shows "decode_frame bs =
    (if bs ! 0 \<noteq> FLAG then Inl (Error_new InvalidValue 0)
     else if frame_fmt bs AND 0xF000 \<noteq> 0xA000 then Inl (Error_new InvalidValue 1)
     else if frame_extent bs < MIN_FRAME_LEN + 2 then Inl (Error_new InvalidLength 1)
     else if length bs < frame_extent bs then Inl (Error_new (Truncated (frame_extent bs - length bs)) (length bs))
     else if bs ! (frame_extent bs - 1) \<noteq> FLAG then Inl (Error_new InvalidValue (frame_extent bs - 1))
     else decode_frame_body (frame_fmt bs AND 0x0800 \<noteq> 0) (take (frame_extent bs) bs) (frame_extent bs))"
proof -
  have u8: "Reader_u8 (Reader_new bs) = (Inr (bs ! 0), rd_advance 1 (Reader_new bs))"
    using assms by (cases bs) (auto simp: Reader_u8_eq)
  have rest: "Reader_rest (rd_advance 1 (Reader_new bs)) = drop 1 bs" "rd_wf (rd_advance 1 (Reader_new bs))"
    using assms by (auto simp: Reader_rest_def rd_wf_def)
  have u16: "Reader_u16 (rd_advance (Suc 0) (Reader_new bs)) = (Inr (frame_fmt bs), rd_advance 3 (Reader_new bs))"
    using assms rest by (simp add: Reader_u16_def Reader_array_def Reader_take_eq try_bind_def frame_fmt_def)
  show ?thesis
    unfolding decode_frame_def Let_def try_bind_def
    by (simp add: u8 u16 rd_fail_back_def Reader_err_back_def frame_extent_def)
qed

text \<open>A verdict other than a shortage of bytes stands, whatever arrives later.\<close>

lemma decode_frame_append:
  assumes "3 \<le> length bs"
  shows "frame_fmt (bs @ later) = frame_fmt bs" "frame_extent (bs @ later) = frame_extent bs"
    "frame_extent bs \<le> length bs \<Longrightarrow> decode_frame (bs @ later) = decode_frame bs"
proof -
  show f: "frame_fmt (bs @ later) = frame_fmt bs" using assms by (simp add: frame_fmt_def)
  then show e: "frame_extent (bs @ later) = frame_extent bs" by (simp add: frame_extent_def)
  assume le: "frame_extent bs \<le> length bs"
  have "frame_extent bs - 1 < length bs" "bs \<noteq> []" using le assms by (auto simp: frame_extent_def)
  then show "decode_frame (bs @ later) = decode_frame bs"
    using assms le by (simp add: decode_frame_long f e nth_append)
qed

lemma decode_frame_stable:
  assumes "decode_frame bs = Inl e" "\<not> Error_is_truncated e"
  shows "decode_frame (bs @ later) = Inl e"
proof (cases "length bs < 3")
  case True
  with assms have h: "bs \<noteq> []" "hd bs \<noteq> FLAG" "e = Error_new InvalidValue 0"
    by (auto simp: decode_frame_short split: if_splits)
  then show ?thesis using decode_frame_not_flag [of "bs @ later"] by simp
next
  case False
  then have len: "3 \<le> length bs" by simp
  note app = decode_frame_append [OF len, of later]
  show ?thesis
  proof (cases "frame_extent bs \<le> length bs")
    case True
    then show ?thesis using app(3) assms(1) by simp
  next
    case False
    have "0 < length bs" using len by linarith
    with False assms len show ?thesis
      by (auto simp: decode_frame_long app(1,2) nth_append split: if_splits)
  qed
qed

lemma decode_frame_body_consumes: "decode_frame_body sg frame n = Inr (f, k) \<Longrightarrow> k = n"
proof -
  assume "decode_frame_body sg frame n = Inr (f, k)"
  then show ?thesis
    unfolding decode_frame_body_def Let_def
    by (auto simp: try_bind_def split: sum.splits prod.splits if_splits)
qed

lemma decode_frame_complete:
  assumes "decode_frame bs = Inr (f, n)"
  shows "0 < n \<and> n \<le> length bs \<and> hd bs = FLAG \<and> decode_frame (bs @ later) = Inr (f, n)"
proof -
  have len: "3 \<le> length bs" using assms by (cases "length bs < 3") (simp_all add: decode_frame_short split: if_splits)
  then have "bs ! 0 = hd bs" by (cases bs) auto
  with assms decode_frame_append(3) [OF len, of later] show ?thesis
    by (auto simp: decode_frame_long [OF len] frame_extent_def dest: decode_frame_body_consumes split: if_splits)
qed

lemma unat_from_le_bytes: "unat (from_le_bytes lo hi) = unat hi * 256 + unat lo"
proof -
  have "be_nat [hi, lo] = unat hi * 256 + unat lo" by (simp add: be_nat_def)
  moreover have "be_nat [hi, lo] < 2 ^ LENGTH(16)" using be_nat_less [of "[hi, lo]"] by simp
  ultimately show ?thesis unfolding from_le_bytes_def unat_be_word by (simp only: mod_less)
qed

lemma from_le_bytes_inj: "from_le_bytes lo hi = from_le_bytes lo' hi' \<longleftrightarrow> lo = lo' \<and> hi = hi'"
proof
  assume "from_le_bytes lo hi = from_le_bytes lo' hi'"
  then have eq: "unat hi * 256 + unat lo = unat hi' * 256 + unat lo'" by (metis unat_from_le_bytes)
  have "(unat hi * 256 + unat lo) div 256 = unat hi" "(unat hi' * 256 + unat lo') div 256 = unat hi'"
    using unat_u8_less [of lo] unat_u8_less [of lo'] by simp_all
  with eq have "unat hi = unat hi'" by metis
  with eq show "lo = lo' \<and> hi = hi'" by (simp add: word_unat_eq_iff)
qed simp

lemma from_le_bytes_le_bytes: "\<exists>lo hi. le_bytes 2 v = [lo, hi] \<and> from_le_bytes lo hi = v"
proof -
  have "be_bytes 2 v = [ucast (drop_bit 8 v), ucast (drop_bit 0 v)]"
    by (simp only: numeral_2_eq_2 be_bytes_Suc be_bytes_0) simp
  moreover from this have "be_word [ucast (drop_bit 8 v), ucast (drop_bit 0 v)] = v"
    using be_word_inverses(1) [of v] by simp
  ultimately show ?thesis unfolding le_bytes_def from_le_bytes_def by (metis rev.simps(1,2) append_Cons append_Nil)
qed

text \<open>What the decoder makes of a frame whose header is the header of \<open>f\<close>.\<close>

lemma decode_frame_body_eq:
  assumes f: "addr_valid (fr_destination f)" "addr_valid (fr_source f)" "control_valid (fr_control f)"
    and frame: "frame = [FLAG] @ frame_header f @ mid @ [lo, hi] @ [FLAG]"
  shows "decode_frame_body sg frame (length frame) =
    (if from_le_bytes lo hi \<noteq> fcs16 (frame_header f @ mid) then Inl (Error_new BadChecksum (length frame - 3))
     else if mid = [] then Inr (f\<lparr>fr_segmented := sg, fr_information := []\<rparr>, length frame)
     else if length mid < 2 then Inl (Error_new InvalidLength (1 + length (frame_header f)))
     else if from_le_bytes (mid ! 0) (mid ! 1) \<noteq> fcs16 (frame_header f)
     then Inl (Error_new BadChecksum (1 + length (frame_header f)))
     else Inr (f\<lparr>fr_segmented := sg, fr_information := drop 2 mid\<rparr>, length frame))"
proof -
  define h where "h = 1 + length (frame_header f)"
  define tl' where "tl' = mid @ [lo, hi] @ [FLAG]"
  have bytes: "frame = ([FLAG] @ be_bytes 2 (frame_format f)) @ addr_image (fr_destination f) @ addr_image (fr_source f) @
      [Control_as_u8 (fr_control f)] @ tl'"
    by (simp add: frame frame_header_def tl'_def)
  define l1 l2 where "l1 = 3 + Address_len (fr_destination f)" and "l2 = l1 + Address_len (fr_source f)"
  have d0: "Reader_skip 3 (rd_advance 0 (Reader_new frame)) = (Inr (), rd_advance 3 (Reader_new frame))"
    by (rule decodes_inside [OF decodes_skip, of "[FLAG] @ be_bytes 2 (frame_format f)" 3 _ "[]"]) (simp_all add: bytes)
  have d1: "Address_decode (rd_advance 3 (Reader_new frame)) = (Inr (fr_destination f), rd_advance l1 (Reader_new frame))"
    by (rule decodes_inside [OF addr.dec_img [OF f(1)], of _ "[FLAG] @ be_bytes 2 (frame_format f)"]) (simp_all add: bytes l1_def)
  have d2: "Address_decode (rd_advance l1 (Reader_new frame)) = (Inr (fr_source f), rd_advance l2 (Reader_new frame))"
    by (rule decodes_inside [OF addr.dec_img [OF f(2)], of _ "([FLAG] @ be_bytes 2 (frame_format f)) @ addr_image (fr_destination f)"])
      (simp_all add: bytes l1_def l2_def)
  have d3: "Reader_u8 (rd_advance l2 (Reader_new frame)) = (Inr (Control_as_u8 (fr_control f)), rd_advance h (Reader_new frame))"
    by (rule decodes_inside [OF decodes_u8, of _ "([FLAG] @ be_bytes 2 (frame_format f)) @ addr_image (fr_destination f) @ addr_image (fr_source f)"])
      (simp_all add: bytes l1_def l2_def h_def length_frame_header)
  have len: "length frame = h + length mid + 3" by (simp add: frame h_def)
  have idx: "frame ! (length frame - 3) = lo" "frame ! (length frame - 3 + 1) = hi"
    "take (length frame - 3 - 1) (drop 1 frame) = frame_header f @ mid" "take (h - 1) (drop 1 frame) = frame_header f"
    by (simp_all add: frame h_def nth_append)
  have mid: "2 \<le> length mid \<Longrightarrow> frame ! h = mid ! 0" "2 \<le> length mid \<Longrightarrow> frame ! (h + 1) = mid ! 1"
    "2 \<le> length mid \<Longrightarrow> take (length frame - 3 - (h + 2)) (drop (h + 2) frame) = drop 2 mid"
    by (auto simp: frame h_def nth_append)
  have off: "Reader_offset (rd_advance h (Reader_new frame)) = h" by simp
  have guards: "\<not> length frame - 3 < h" "h = length frame - 3 \<longleftrightarrow> mid = []" "length frame - 3 < h + 2 \<longleftrightarrow> length mid < 2"
    using len by auto
  have rec: "\<lparr>fr_segmented = sg, fr_destination = fr_destination f, fr_source = fr_source f, fr_control = fr_control f, fr_information = i\<rparr>
      = f\<lparr>fr_segmented := sg, fr_information := i\<rparr>" for i by (cases f) simp
  show ?thesis
    unfolding decode_frame_body_def try_bind_def
    by (simp only: d0 [simplified] d1 d2 d3 prod.case sum.case Let_def idx off guards Control_round_trip [OF f(3)] rec
        if_False if_True fst_conv h_def [symmetric]) (auto simp: mid [simplified])
qed

lemma frame_format_fields:
  assumes "frame_len f \<le> 0x7FF"
  shows "frame_format f AND 0xF000 = 0xA000" "(frame_format f AND 0x0800 \<noteq> 0) = fr_segmented f"
    "unat (frame_format f AND 0x07FF) = frame_len f"
proof -
  define w :: u16 where "w = of_nat (frame_len f)"
  have u: "unat w = frame_len f" using assms by (simp add: w_def unat_of_nat)
  have m: "(0x7FF :: u16) = mask 11" by (simp add: mask_eq_exp_minus_1)
  have self: "w AND 0x7FF = w" unfolding m by (rule and_mask_self) (use u assms in simp)
  have "w AND 0xF000 = (w AND 0x7FF) AND 0xF000" "w AND 0x0800 = (w AND 0x7FF) AND 0x0800" by (simp_all only: self)
  then have z: "w AND 0xF000 = 0" "w AND 0x0800 = 0" by (simp_all add: and.assoc)
  show "frame_format f AND 0xF000 = 0xA000" "(frame_format f AND 0x0800 \<noteq> 0) = fr_segmented f"
    "unat (frame_format f AND 0x07FF) = frame_len f"
    by (simp_all add: frame_format_def bit.conj_disj_distrib2 z self u flip: w_def)
qed

text \<open>A string of bytes that opens like \<open>f\<close>, has its length and closes with a flag is decoded as a frame.\<close>

lemma decode_frame_shape:
  assumes v: "frame_valid f" and frame: "frame = [FLAG] @ frame_header f @ mid @ [lo, hi] @ [FLAG]"
    and len: "length frame = frame_len f + 2"
  shows "decode_frame (frame @ rest) = decode_frame_body (fr_segmented f) frame (length frame)"
proof -
  have n: "frame_len f \<le> 0x7FF" using v by (simp add: frame_valid_def)
  have fmt: "frame_fmt (frame @ rest) = frame_format f"
    by (simp add: frame frame_fmt_def frame_header_def)
  have ext: "frame_extent (frame @ rest) = length frame"
    by (simp add: frame_extent_def fmt frame_format_fields [OF n] len)
  have "7 \<le> frame_len f"
    using Address_len_le(2) [of "fr_destination f"] Address_len_le(2) [of "fr_source f"] by (simp add: frame_len_def)
  moreover have "frame ! 0 = FLAG" "frame ! (length frame - 1) = FLAG" by (simp_all add: frame nth_append)
  moreover have "frame \<noteq> []" "3 \<le> length frame" using len \<open>7 \<le> frame_len f\<close> by auto
  ultimately show ?thesis
    using len by (simp add: decode_frame_long fmt ext frame_format_fields [OF n] MIN_FRAME_LEN_def nth_append)
qed

lemma decode_frame_image:
  assumes v: "frame_valid f"
  shows "decode_frame (frame_image f @ rest) = Inr (f, length (frame_image f))"
proof -
  define mid where "mid = (if fr_information f = [] then [] else le_bytes 2 (fcs16 (frame_header f)) @ fr_information f)"
  obtain lo hi where fcs: "le_bytes 2 (fcs16 (frame_body f)) = [lo, hi]" "from_le_bytes lo hi = fcs16 (frame_body f)"
    using from_le_bytes_le_bytes by blast
  obtain lo' hi' where hcs: "le_bytes 2 (fcs16 (frame_header f)) = [lo', hi']" "from_le_bytes lo' hi' = fcs16 (frame_header f)"
    using from_le_bytes_le_bytes by blast
  have body: "frame_body f = frame_header f @ mid" by (simp add: frame_body_def mid_def)
  have img: "frame_image f = [FLAG] @ frame_header f @ mid @ [lo, hi] @ [FLAG]"
    by (simp add: frame_image_def fcs(1)) (simp add: body)
  have "fr_information f = [] \<Longrightarrow> f\<lparr>fr_information := []\<rparr> = f" by (cases f) simp
  moreover have "f\<lparr>fr_segmented := fr_segmented f\<rparr> = f" by (cases f) simp
  ultimately show ?thesis
    unfolding decode_frame_shape [OF v img length_frame_image]
    using v by (subst decode_frame_body_eq [OF _ _ _ img]) (auto simp: frame_valid_def fcs(2) body mid_def hcs)
qed

lemma one_byte_changed:
  assumes "p @ [b] @ s = mid @ [lo, hi]"
  obtains (inside) m where "mid = p @ [b] @ m" "p @ [c] @ s = (p @ [c] @ m) @ [lo, hi]"
  | (check) lo' hi' where "p @ [c] @ s = mid @ [lo', hi']" "b \<noteq> c \<Longrightarrow> (lo', hi') \<noteq> (lo, hi)"
proof (cases "length p < length mid")
  case True
  define m where "m = drop (Suc (length p)) mid"
  have "mid = take (length mid) (p @ [b] @ s)" unfolding assms by simp
  then have "mid = p @ [b] @ m" "s = m @ [lo, hi]"
    using True assms unfolding m_def by (auto simp: append_eq_append_conv2 Cons_eq_append_conv)
  then show thesis using inside by simp
next
  case False
  then show thesis
    using assms check by (auto simp: append_eq_append_conv2 Cons_eq_append_conv append_eq_Cons_conv)
qed

lemma corruption_detected:
  assumes v: "frame_valid f" and img: "p @ [b] @ s = frame_image f" and c: "c \<noteq> b"
    and pos: "length (frame_header f) < length p" "length p + 1 < length (frame_image f)"
  shows "decode_frame (p @ [c] @ s @ rest) = Inl (Error_new BadChecksum (length (frame_image f) - 3))"
proof -
  define mid where "mid = (if fr_information f = [] then [] else le_bytes 2 (fcs16 (frame_header f)) @ fr_information f)"
  obtain lo hi where fcs: "le_bytes 2 (fcs16 (frame_body f)) = [lo, hi]" "from_le_bytes lo hi = fcs16 (frame_body f)"
    using from_le_bytes_le_bytes by blast
  have body: "frame_body f = frame_header f @ mid" by (simp add: frame_body_def mid_def)
  have eq: "p @ [b] @ s = ([FLAG] @ frame_header f) @ (mid @ [lo, hi]) @ [FLAG]"
    unfolding img by (simp add: frame_image_def fcs(1)) (simp add: body)
  obtain s' where s': "s = s' @ [FLAG]"
  proof (cases s rule: rev_cases)
    case Nil
    then show thesis using pos(2) arg_cong [OF img, of length] by simp
  next
    case (snoc s' x)
    then show thesis using that eq by (simp flip: append_assoc append_Cons)
  qed
  define p' where "p' = drop (length ([FLAG] @ frame_header f)) p"
  have p': "p = ([FLAG] @ frame_header f) @ p'"
    using eq pos(1) unfolding p'_def by (metis append_eq_append_conv_if append_take_drop_id length_append_singleton less_or_eq_imp_le
        append_eq_conv_conj length_Cons append_Cons append_Nil Suc_leI)
  have rest_eq: "p' @ [b] @ s' = mid @ [lo, hi]" using eq unfolding p' s' by simp
  from rest_eq obtain mid' lo' hi' where ch: "p' @ [c] @ s' = mid' @ [lo', hi']" and bad: "from_le_bytes lo' hi' \<noteq> fcs16 (frame_header f @ mid')"
  proof (cases rule: one_byte_changed [where c = c])
    case (inside m)
    then show thesis using that [of "p' @ [c] @ m" lo hi] fcs(2) fcs16_detects [of b c "frame_header f @ p'" m] c by (simp add: body)
  next
    case (check lo' hi')
    then show thesis using that [of mid lo' hi'] fcs(2) from_le_bytes_inj c by (metis body)
  qed
  define frame where "frame = [FLAG] @ frame_header f @ mid' @ [lo', hi'] @ [FLAG]"
  have frame: "p @ [c] @ s = frame" using ch by (simp add: frame_def p' s')
  have len: "length frame = length (frame_image f)" by (simp flip: frame img)
  have "decode_frame (frame @ rest) = Inl (Error_new BadChecksum (length frame - 3))"
    using v bad decode_frame_body_eq [OF _ _ _ frame_def]
    by (simp add: decode_frame_shape [OF v frame_def] len length_frame_image frame_valid_def)
  moreover have "p @ [c] @ s @ rest = frame @ rest" by (simp flip: frame)
  ultimately show ?thesis by (simp only: len)
qed

text \<open>A well-formed frame (addresses within seven or fourteen bits, sequence numbers below eight, at most
  2047 bytes between the flags) is written in exactly \<^verbatim>\<open>encoded_len\<close> bytes, and the decoder gives the same frame
  back from those bytes, whatever follows them in the receive buffer.\<close>

theorem hdlc_frame_round_trip:
  assumes "frame_valid f"
  shows "\<exists>bs. Frame_encode f (VecW []) = (Inr (), VecW bs) \<and> length bs = Frame_encoded_len f \<and>
    (\<forall>rest. decode_frame (bs @ rest) = Inr (f, length bs))"
  using frame_enc.enc_vec [OF assms, of "[]"] decode_frame_image [OF assms] by (simp add: frame_encoded_len)

text \<open>C19: A frame in which one byte behind the header was changed in transit, in the header check sequence, in the
  information field or in the frame check sequence, is refused with \<^const>\<open>BadChecksum\<close>, whatever the change.\<close>

theorem hdlc_corruption_detected:
  assumes "frame_valid f" "Frame_encode f (VecW []) = (Inr (), VecW (p @ [b] @ s))" "c \<noteq> b"
    "length (frame_header f) < length p" "length p + 1 < Frame_encoded_len f"
  shows "decode_frame (p @ [c] @ s @ rest) = Inl (Error_new BadChecksum (Frame_encoded_len f - 3))"
proof -
  have "p @ [b] @ s = frame_image f" using assms(1,2) frame_enc.enc_vec [OF assms(1), of "[]"] by simp
  from corruption_detected [OF assms(1) this] assms show ?thesis by (simp add: frame_encoded_len)
qed

theorem hdlc_frame_round_trip_witness:
  "\<exists>bs. Frame_encode (Frame_control_only (Address_server 1 17) (Address_client 0x10) Snrm) (VecW []) = (Inr (), VecW bs) \<and>
    decode_frame (bs @ [1, 2]) = Inr (Frame_control_only (Address_server 1 17) (Address_client 0x10) Snrm, length bs)"
proof -
  have "frame_valid (Frame_control_only (Address_server 1 17) (Address_client 0x10) Snrm)"
    by (simp add: frame_valid_def Frame_control_only_def Address_server_def Address_client_def frame_len_def)
  from hdlc_frame_round_trip [OF this] show ?thesis by blast
qed

theorem hdlc_corruption_detected_witness:
  "\<exists>p b s. Frame_encode \<lparr>fr_segmented = False, fr_destination = Single 1, fr_source = Single 0x10, fr_control = CI 0 0 True, fr_information = [7, 8]\<rparr> (VecW [])
      = (Inr (), VecW (p @ [b] @ s)) \<and>
    decode_frame (p @ [b XOR 1] @ s) = Inl (Error_new BadChecksum 10)"
proof -
  define f where "f = \<lparr>fr_segmented = False, fr_destination = Single 1, fr_source = Single 0x10, fr_control = CI 0 0 True, fr_information = [7, 8 :: u8]\<rparr>"
  have v: "frame_valid f" by (simp add: f_def frame_valid_def frame_len_def)
  define p b s where "p = take 8 (frame_image f)" and "b = frame_image f ! 8" and "s = drop 9 (frame_image f)"
  have len: "length (frame_image f) = 13" by (simp add: length_frame_image f_def frame_len_def)
  have "p @ [b] @ s = frame_image f" using len id_take_nth_drop [of 8 "frame_image f"] by (simp add: p_def b_def s_def)
  then have enc: "Frame_encode f (VecW []) = (Inr (), VecW (p @ [b] @ s))"
    using frame_enc.enc_vec [OF v, of "[]"] by simp
  have "length (frame_header f) < length p" "length p + 1 < Frame_encoded_len f" "Frame_encoded_len f = 13"
    using len by (simp_all add: p_def frame_encoded_len length_frame_header) (simp_all add: f_def)
  moreover have "b XOR 1 \<noteq> b" using xor_cancel [of 1 b 0] by (simp add: xor.commute)
  ultimately have "decode_frame (p @ [b XOR 1] @ s) = Inl (Error_new BadChecksum 10)"
    using hdlc_corruption_detected [OF v enc, of "b XOR 1" "[]"] by simp
  with enc show ?thesis unfolding f_def by blast
qed

subsection \<open>Finding a frame\<close>

text \<open>The plain search: every offset in turn, none skipped.\<close>

fun plain_search :: "nat \<Rightarrow> bytes \<Rightarrow> nat option \<Rightarrow> (Frame \<times> nat \<times> nat) + nat option" where
  "plain_search i [] fi = Inr fi"
| "plain_search i (b # bs) fi =
     (case decode_frame (b # bs) of
        Inr (frame, used) \<Rightarrow> Inl (frame, i, i + used)
      | Inl e \<Rightarrow> plain_search (Suc i) bs (if Error_is_truncated e \<and> fi = None then Some i else fi))"

lemma plain_search_skip:
  assumes "\<forall>b\<in>set pre. b \<noteq> FLAG"
  shows "plain_search i (pre @ bs) fi = plain_search (i + length pre) bs fi"
  using assms
proof (induction pre arbitrary: i)
  case (Cons b pre)
  then have "decode_frame (b # pre @ bs) = Inl (Error_new InvalidValue 0)" by (intro decode_frame_not_flag) auto
  with Cons show ?case by simp
qed simp

lemma framer_loop_plain: "framer_loop buf start fi = plain_search start (drop start buf) fi"
proof (induction buf start fi rule: framer_loop.induct)
  case (1 buf start fi)
  show ?case
  proof (cases "start < length buf")
    case False
    then show ?thesis by (simp add: framer_loop.simps)
  next
    case start: True
    show ?thesis
    proof (cases "position (\<lambda>b. b = FLAG) (drop start buf)")
      case None
      then have "plain_search start (drop start buf) fi = plain_search (start + length (drop start buf)) [] fi"
        using plain_search_skip [of "drop start buf" start "[]"] by (simp add: position_None)
      then show ?thesis using start None by (simp add: framer_loop.simps)
    next
      case (Some rel)
      note pos = position_Some [OF Some]
      define pre bs where "pre = take rel (drop start buf)" and "bs = drop (Suc (start + rel)) buf"
      have "drop rel (drop start buf) = FLAG # bs"
        using pos Cons_nth_drop_Suc [of rel "drop start buf"] by (simp add: bs_def add.commute)
      then have parts: "drop start buf = pre @ FLAG # bs" "length pre = rel" "drop (start + rel) buf = FLAG # bs"
        using pos append_take_drop_id [of rel "drop start buf"] by (simp_all add: pre_def add.commute)
      have "\<forall>b\<in>set pre. b \<noteq> FLAG" using pos by (auto simp: pre_def in_set_conv_nth)
      then have "plain_search start (drop start buf) fi = plain_search (start + rel) (FLAG # bs) fi"
        by (simp only: parts(1) plain_search_skip parts(2))
      then show ?thesis
        using start Some "1.IH" [OF start Some refl] unfolding parts(3)
        by (simp add: framer_loop.simps [of buf start] parts(3) Let_def flip: bs_def split: sum.splits prod.splits)
    qed
  qed
qed

lemma plain_search_found:
  assumes "k < length bs" "decode_frame (drop k bs) = Inr (f, n)" "\<forall>j<k. \<exists>e. decode_frame (drop j bs) = Inl e"
  shows "plain_search i bs fi = Inl (f, i + k, i + k + n)"
  using assms
proof (induction bs arbitrary: i k fi)
  case (Cons b bs)
  show ?case
  proof (cases k)
    case 0
    then show ?thesis using Cons.prems by simp
  next
    case (Suc k')
    then have "\<exists>e. decode_frame (b # bs) = Inl e" "\<forall>j<k'. \<exists>e. decode_frame (drop j bs) = Inl e"
      using Cons.prems(3) by (auto dest: spec [of _ "Suc _"] spec [of _ 0])
    then show ?thesis using Cons.IH [of k'] Cons.prems Suc by auto
  qed
qed simp

lemma plain_search_fails: "plain_search i bs (Some d) = Inr r \<Longrightarrow> r = Some d"
  by (induction bs arbitrary: i) (auto split: sum.splits prod.splits)

lemma plain_search_bound: "plain_search i bs None = Inr (Some d) \<Longrightarrow> i \<le> d \<and> d < i + length bs"
proof (induction bs arbitrary: i)
  case (Cons b bs)
  then show ?case
    using plain_search_fails [of "Suc i" bs i "Some d"] Cons.IH [of "Suc i"] by (force split: sum.splits prod.splits if_splits)
qed simp

text \<open>Nothing before the reported position can become a frame.\<close>

lemma plain_search_incomplete:
  assumes "plain_search i bs None = Inr r" "d = (case r of Some d \<Rightarrow> d - i | None \<Rightarrow> length bs)" "j < d"
  shows "\<exists>e. decode_frame (drop j bs) = Inl e \<and> \<not> Error_is_truncated e"
  using assms
proof (induction bs arbitrary: i d j)
  case (Cons b bs)
  from Cons.prems(1) obtain e where e: "decode_frame (b # bs) = Inl e"
    and rest: "plain_search (Suc i) bs (if Error_is_truncated e then Some i else None) = Inr r"
    by (auto split: sum.splits)
  show ?case
  proof (cases "Error_is_truncated e")
    case True
    then show ?thesis using rest plain_search_fails [of "Suc i" bs i r] Cons.prems by simp
  next
    case False
    then have rest: "plain_search (Suc i) bs None = Inr r" using rest by simp
    show ?thesis
    proof (cases j)
      case 0
      then show ?thesis using e False by simp
    next
      case (Suc j')
      then have "j' < (case r of Some d \<Rightarrow> d - Suc i | None \<Rightarrow> length bs)"
        using Cons.prems(2,3) by (auto split: option.splits)
      then show ?thesis using Cons.IH [OF rest refl] Suc by simp
    qed
  qed
qed (auto split: option.splits)

lemma plain_search_drop:
  assumes "d \<le> length bs" "\<forall>j<d. \<exists>e. decode_frame (drop j bs) = Inl e \<and> \<not> Error_is_truncated e"
  shows "plain_search i bs fi = plain_search (i + d) (drop d bs) fi"
  using assms
proof (induction d arbitrary: i bs)
  case (Suc d)
  then obtain b bs' where bs: "bs = b # bs'" by (cases bs) auto
  have "\<forall>j<d. \<exists>e. decode_frame (drop j bs') = Inl e \<and> \<not> Error_is_truncated e"
    using Suc.prems(2) unfolding bs by (auto dest: spec [of _ "Suc _"])
  moreover obtain e where "decode_frame (b # bs') = Inl e" "\<not> Error_is_truncated e"
    using Suc.prems(2) bs by (auto dest: spec [of _ 0])
  ultimately show ?case using Suc.IH [of bs' "Suc i"] Suc.prems(1) by (simp add: bs)
qed simp

lemma plain_search_shift:
  "plain_search (m + i) bs (map_option ((+) m) fi) =
     map_sum (\<lambda>(f, a, c). (f, m + a, m + c)) (map_option ((+) m)) (plain_search i bs fi)"
proof (induction bs arbitrary: i fi)
  case (Cons b bs)
  show ?case
  proof (cases "decode_frame (b # bs)")
    case (Inl e)
    have "plain_search (Suc (m + i)) bs (if Error_is_truncated e \<and> fi = None then Some (m + i) else map_option ((+) m) fi)
      = plain_search (m + Suc i) bs (map_option ((+) m) (if Error_is_truncated e \<and> fi = None then Some i else fi))" by simp
    with Cons.IH [of "Suc i" "if Error_is_truncated e \<and> fi = None then Some i else fi"] Inl show ?thesis by simp
  next
    case (Inr a)
    then show ?thesis by (cases a) simp
  qed
qed simp

lemma Framer_next_frame_plain:
  "Framer_next_frame buf fm = (case plain_search 0 buf None of
     Inl (frame, from, consumed) \<Rightarrow> (Inr (FoundFrame frame consumed), fm\<lparr>fm_discarded := fm_discarded fm + from\<rparr>)
   | Inr r \<Rightarrow> (Inr (Incomplete (case r of Some i \<Rightarrow> i | None \<Rightarrow> length buf)),
       fm\<lparr>fm_discarded := fm_discarded fm + (case r of Some i \<Rightarrow> i | None \<Rightarrow> length buf)\<rparr>))"
  by (simp add: Framer_next_frame_def framer_loop_plain Let_def split: sum.splits)

text \<open>Whatever noise comes first, flags and half frames included, the framer returns the first complete frame:
  if no offset inside the noise decodes, the frame behind it is found, its bytes and the noise are reported
  as consumed, and the noise is counted as discarded.\<close>

theorem framer_resynchronises:
  assumes "frame_valid f" "Frame_encode f (VecW []) = (Inr (), VecW bs)"
    "\<forall>j<length noise. \<exists>e. decode_frame (drop j (noise @ bs @ rest)) = Inl e"
  shows "Framer_next_frame (noise @ bs @ rest) fm =
    (Inr (FoundFrame f (length noise + length bs)), fm\<lparr>fm_discarded := fm_discarded fm + length noise\<rparr>)"
proof -
  have img: "bs = frame_image f" using assms(1,2) frame_enc.enc_vec [OF assms(1), of "[]"] by simp
  have "plain_search 0 (noise @ bs @ rest) None = Inl (f, 0 + length noise, 0 + length noise + length bs)"
    using assms(3) decode_frame_image [OF assms(1)] by (intro plain_search_found) (auto simp: img length_frame_image)
  then show ?thesis by (simp add: Framer_next_frame_plain)
qed

theorem framer_resynchronises_witness:
  "\<exists>bs. Frame_encode (Frame_control_only (Single 1) (Single 0x10) Ua) (VecW []) = (Inr (), VecW bs) \<and>
    fst (Framer_next_frame ([0x55, 0xAA] @ bs @ [3]) Framer_new) =
      Inr (FoundFrame (Frame_control_only (Single 1) (Single 0x10) Ua) (2 + length bs))"
proof -
  define f where "f = Frame_control_only (Single 1) (Single 0x10) Ua"
  have v: "frame_valid f" by (simp add: f_def Frame_control_only_def frame_valid_def frame_len_def)
  have enc: "Frame_encode f (VecW []) = (Inr (), VecW (frame_image f))" using frame_enc.enc_vec [OF v, of "[]"] by simp
  have "\<exists>e. decode_frame (drop j ([0x55, 0xAA] @ frame_image f @ [3])) = Inl e" if "j < 2" for j
    using that decode_frame_not_flag [of "drop j ([0x55, 0xAA] @ frame_image f @ [3])"]
    unfolding FLAG_def by (cases j) (simp_all add: less_Suc_eq)
  then show ?thesis
    using framer_resynchronises [OF v enc, of "[0x55, 0xAA]" "[3]" Framer_new] enc unfolding f_def by auto
qed

text \<open>When the framer reports an incomplete frame, dropping the bytes it says may be dropped loses nothing:
  however the stream goes on, searching what is left gives the same frame at the same place as searching
  everything, so a caller may discard at once and keep its buffer small.\<close>

theorem framer_discard_is_safe:
  assumes "Framer_next_frame buf fm = (Inr (Incomplete d), fm')"
  shows "d \<le> length buf \<and>
    (fst (Framer_next_frame (buf @ later) fm1) = Inr (FoundFrame g c) \<longleftrightarrow>
      d \<le> c \<and> fst (Framer_next_frame (drop d buf @ later) fm2) = Inr (FoundFrame g (c - d)))"
proof -
  obtain r where r: "plain_search 0 buf None = Inr r" and d: "d = (case r of Some i \<Rightarrow> i | None \<Rightarrow> length buf)"
    using assms by (auto simp: Framer_next_frame_plain split: sum.splits prod.splits)
  have le: "d \<le> length buf" using plain_search_bound [of 0 buf d] r d by (auto split: option.splits)
  have "\<exists>e. decode_frame (drop j (buf @ later)) = Inl e \<and> \<not> Error_is_truncated e" if "j < d" for j
  proof -
    from plain_search_incomplete [OF r, of d j] that d obtain e where e: "decode_frame (drop j buf) = Inl e" "\<not> Error_is_truncated e"
      by (auto split: option.splits)
    from decode_frame_stable [OF this, of later] that le e show ?thesis by simp
  qed
  then have "plain_search 0 (buf @ later) None = plain_search (0 + d) (drop d (buf @ later)) None"
    using le by (intro plain_search_drop) auto
  then have "plain_search 0 (buf @ later) None = plain_search (d + 0) (drop d buf @ later) (map_option ((+) d) None)"
    using le by simp
  then show ?thesis
    using le unfolding plain_search_shift
    by (cases "plain_search 0 (drop d buf @ later) None") (auto simp: Framer_next_frame_plain)
qed

theorem framer_discard_is_safe_witness:
  "Framer_next_frame [0x55] Framer_new = (Inr (Incomplete 1), \<lparr>fm_discarded = 1\<rparr>) \<and>
    (\<forall>later g c. fst (Framer_next_frame ([0x55] @ later) Framer_new) = Inr (FoundFrame g c) \<longleftrightarrow>
      1 \<le> c \<and> fst (Framer_next_frame later Framer_new) = Inr (FoundFrame g (c - 1)))"
proof -
  have "framer_loop [0x55] 0 None = Inr None" by (simp add: framer_loop.simps FLAG_def)
  then have "Framer_next_frame [0x55] Framer_new = (Inr (Incomplete 1), \<lparr>fm_discarded = 1\<rparr>)"
    by (simp add: Framer_next_frame_def Framer_new_def)
  with framer_discard_is_safe [OF this] show ?thesis by simp
qed

subsection \<open>A frame that is never given up\<close>

lemma decode_frame_needs_flag:
  assumes "\<forall>b\<in>set (tl bs). b \<noteq> FLAG"
  shows "\<exists>e. decode_frame bs = Inl e"
proof (cases "length bs < 3")
  case True
  then show ?thesis by (simp add: decode_frame_short)
next
  case False
  define n where "n = frame_extent bs"
  have len: "3 \<le> length bs" using False by simp
  have "bs ! (n - 1) \<noteq> FLAG" if "n \<le> length bs"
  proof -
    have "bs ! (n - 1) = tl bs ! (n - 2)" "n - 2 < length (tl bs)"
      using that len by (auto simp: n_def frame_extent_def nth_tl)
    then show ?thesis using assms nth_mem by metis
  qed
  then show ?thesis unfolding decode_frame_long [OF len] n_def by (auto simp: not_less)
qed

lemma plain_search_none:
  assumes "\<forall>j<length bs. \<exists>e. decode_frame (drop j bs) = Inl e"
  shows "plain_search i bs (Some d) = Inr (Some d)"
  using assms
proof (induction bs arbitrary: i)
  case (Cons b bs)
  then have "\<forall>j<length bs. \<exists>e. decode_frame (drop j bs) = Inl e" by (auto dest: spec [of _ "Suc _"])
  moreover obtain e where "decode_frame (b # bs) = Inl e" using Cons.prems by (auto dest: spec [of _ 0])
  ultimately show ?case using Cons.IH by simp
qed simp

definition endless_frame :: bytes where
  "endless_frame = [0x7E, 0xA0, 0x07, 0x02, 0x02, 0x02, 0x03, 0x02, 0x7E]"

lemma decode_endless: "decode_frame endless_frame = Inl (Error_new (Truncated 1) 9)"
  unfolding endless_frame_def by code_simp

lemma decode_endless_append: "decode_frame (endless_frame @ later) = Inl (Error_new (Truncated 1) 9)"
proof -
  have "3 \<le> length endless_frame" "frame_extent endless_frame \<le> length endless_frame" by code_simp+
  from decode_frame_append(3) [OF this, of later] show ?thesis by (simp only: decode_endless)
qed

text \<open>Nine bytes whose addresses run up to the closing flag are a complete frame (the length, both flags, all
  of it is there), yet the decoder reports it as cut short, whatever follows.  The framer takes that as a frame
  still to come: as long as no further flag arrives it answers that no byte may be dropped, so noise behind those
  nine bytes fills the receive buffer without bound.\<close>

theorem framer_keeps_malformed_frame:
  assumes "\<forall>b\<in>set later. b \<noteq> FLAG"
  shows "decode_frame (endless_frame @ later) = Inl (Error_new (Truncated 1) 9) \<and>
    Framer_next_frame (endless_frame @ later) fm = (Inr (Incomplete 0), fm)"
proof -
  define t :: bytes where "t = [0xA0, 0x07, 0x02, 0x02, 0x02, 0x03, 0x02]"
  have e: "endless_frame = FLAG # t @ [FLAG]" by (simp add: endless_frame_def t_def FLAG_def)
  have t: "\<forall>b\<in>set t. b \<noteq> FLAG" by (simp add: t_def FLAG_def)
  have "plain_search 0 (endless_frame @ later) None = plain_search 1 (t @ FLAG # later) (Some 0)"
    using decode_endless_append [of later] by (simp add: e)
  also have "\<dots> = plain_search (1 + length t) (FLAG # later) (Some 0)" by (rule plain_search_skip [OF t])
  also have "\<dots> = Inr (Some 0)"
  proof (rule plain_search_none, intro allI impI)
    fix j assume "j < length (FLAG # later)"
    have "set (tl (drop j (FLAG # later))) \<subseteq> set later" by (simp add: tl_drop set_drop_subset)
    then show "\<exists>e. decode_frame (drop j (FLAG # later)) = Inl e" using assms by (intro decode_frame_needs_flag) auto
  qed
  finally show ?thesis by (simp add: Framer_next_frame_plain decode_endless_append)
qed

theorem framer_keeps_malformed_frame_witness:
  "Framer_next_frame (endless_frame @ replicate 1000 0x55) Framer_new = (Inr (Incomplete 0), Framer_new)"
  using framer_keeps_malformed_frame [of "replicate 1000 0x55" Framer_new] by (simp add: FLAG_def)

end
