(* ===== verification/HdlcLink.thy ===== *)
theory HdlcLink
  imports Hdlc
begin

text \<open>
  The HDLC link, the second half of \<^verbatim>\<open>src/src/transport/hdlc.rs\<close>: splitting a service data unit over
  information frames and gathering it again, the parameters that SNRM and UA negotiate, and the connection
  that drives them with its sequence numbers.
\<close>

subsection \<open>Segmenter\<close>

record Segmenter =
  sg_lsdu :: bytes
  sg_sent :: nat
  sg_max_info :: nat

definition Segmenter_new :: "bytes \<Rightarrow> u16 \<Rightarrow> Segmenter result" where
  "Segmenter_new lsdu max_info =
     (if max_info = 0 then Inl (Error_new InvalidLength 0)
      else Inr \<lparr>sg_lsdu = lsdu, sg_sent = 0, sg_max_info = unat max_info\<rparr>)"

definition Segmenter_is_done :: "Segmenter \<Rightarrow> bool" where
  "Segmenter_is_done s \<longleftrightarrow> sg_sent s \<ge> length (sg_lsdu s)"

definition Segmenter_remaining :: "Segmenter \<Rightarrow> nat" where
  "Segmenter_remaining s = length (sg_lsdu s) - sg_sent s"

definition Segmenter_next_frame ::
    "Address \<Rightarrow> Address \<Rightarrow> u8 \<Rightarrow> u8 \<Rightarrow> (Segmenter \<times> bytes, nat option) op" where
  "Segmenter_next_frame destination source ns nr = (\<lambda>(s, out).
     if Segmenter_is_done s then (Inr None, s, out)
     else
       let end = min (sg_sent s + sg_max_info s) (length (sg_lsdu s)) in
       case slice (sg_lsdu s) (sg_sent s) end of
         None \<Rightarrow> (Inl (Error_new InvalidLength 0), s, out)
       | Some information \<Rightarrow>
           let segmented = (end < length (sg_lsdu s));
               frame = \<lparr>fr_segmented = segmented, fr_destination = destination, fr_source = source,
                        fr_control = CI ns nr (\<not> segmented), fr_information = information\<rparr>
           in case encode_into (Frame_encode frame) out of
                (Inl e, out') \<Rightarrow> (Inl e, s, out')
              | (Inr n, out') \<Rightarrow> (Inr (Some n), s\<lparr>sg_sent := end\<rparr>, out'))"

subsection \<open>Reassembler\<close>

record Reassembler =
  ra_buf :: bytes
  ra_len :: nat
  ra_expect_ns :: "u8 option"
  ra_complete :: bool

definition Reassembler_new :: "bytes \<Rightarrow> Reassembler" where
  "Reassembler_new buf = \<lparr>ra_buf = buf, ra_len = 0, ra_expect_ns = None, ra_complete = False\<rparr>"

definition Reassembler_reset :: "Reassembler \<Rightarrow> Reassembler" where
  "Reassembler_reset r = r\<lparr>ra_len := 0, ra_expect_ns := None, ra_complete := False\<rparr>"

definition Reassembler_push :: "Frame \<Rightarrow> (Reassembler, bool) op" where
  "Reassembler_push frame r0 =
     (case fr_control frame of
        CI ns _ _ \<Rightarrow>
          let r = (if ra_complete r0 then Reassembler_reset r0 else r0) in
          if (case ra_expect_ns r of Some expected \<Rightarrow> ns \<noteq> expected | None \<Rightarrow> False)
          then (Inl (Error_new UnexpectedMessage (ra_len r)), r)
          else
            let end = ra_len r + length (fr_information frame) in
            if end > length (ra_buf r)
            then (Inl (Error_new (BufferTooSmall (end - length (ra_buf r))) (ra_len r)), r)
            else
              let r = r\<lparr>ra_buf := overwrite (ra_buf r) (ra_len r) (fr_information frame), ra_len := end,
                        ra_expect_ns := Some ((ns + 1) mod 8), ra_complete := \<not> fr_segmented frame\<rparr>
              in (Inr (ra_complete r), r)
      | _ \<Rightarrow> (Inr False, r0))"

definition Reassembler_lsdu :: "Reassembler \<Rightarrow> bytes" where
  "Reassembler_lsdu r =
     (if ra_complete r then (case slice (ra_buf r) 0 (ra_len r) of Some d \<Rightarrow> d | None \<Rightarrow> []) else [])"

subsection \<open>Parameters\<close>

record Parameters =
  pm_max_info_tx :: u16
  pm_max_info_rx :: u16
  pm_window_tx :: u32
  pm_window_rx :: u32

definition Parameters_DEFAULT :: Parameters where
  "Parameters_DEFAULT = \<lparr>pm_max_info_tx = 128, pm_max_info_rx = 128, pm_window_tx = 1, pm_window_rx = 1\<rparr>"

definition write_param :: "u8 \<Rightarrow> u32 \<Rightarrow> (writer, unit) op" where
  "write_param ident value' =
     (let be = be_bytes 4 value';
          first = (case position (\<lambda>b. b \<noteq> 0) be of Some i \<Rightarrow> i | None \<Rightarrow> 3);
          n = 4 - first
      in try_bind (write_bytes [ident, of_nat n]) (\<lambda>_. write_bytes (drop first be)))"

definition Parameters_encode :: "Parameters \<Rightarrow> (writer, unit) op" where
  "Parameters_encode p =
     (case encode_into
        (try_bind (write_param 5 (ucast (pm_max_info_tx p))) (\<lambda>_.
         try_bind (write_param 6 (ucast (pm_max_info_rx p))) (\<lambda>_.
         try_bind (write_param 7 (pm_window_tx p)) (\<lambda>_.
         write_param 8 (pm_window_rx p))))) (replicate 32 0) of
        (Inl e, _) \<Rightarrow> fail e
      | (Inr n, body) \<Rightarrow>
          try_bind (write_bytes [0x81, 0x80, of_nat n]) (\<lambda>_. write_bytes (take n body)))"

text \<open>\<^verbatim>\<open>u16::try_from(v).unwrap_or(u16::MAX)\<close>.\<close>

definition clamp_u16 :: "u32 \<Rightarrow> u16" where
  "clamp_u16 v = (if unat v < 2 ^ 16 then ucast v else - 1)"

definition param_set :: "u8 \<Rightarrow> u32 \<Rightarrow> Parameters \<Rightarrow> Parameters" where
  "param_set ident v out =
     (if ident = 5 then out\<lparr>pm_max_info_tx := clamp_u16 v\<rparr>
      else if ident = 6 then out\<lparr>pm_max_info_rx := clamp_u16 v\<rparr>
      else if ident = 7 then out\<lparr>pm_window_tx := v\<rparr>
      else if ident = 8 then out\<lparr>pm_window_rx := v\<rparr>
      else out)"

definition param_item :: "(Reader, u8 \<times> bytes) op" where
  "param_item = try_bind Reader_u8 (\<lambda>ident.
     try_bind Reader_u8 (\<lambda>vlen.
     try_bind (Reader_take (unat vlen)) (\<lambda>raw. ok (ident, raw))))"

lemma param_item_shrinks: "param_item r = (Inr x, r') \<Longrightarrow> Reader_remaining r' < Reader_remaining r"
proof -
  have u8: "Reader_remaining r' < Reader_remaining r" if "Reader_u8 r = (Inr b, r')" for r r' b
    using that by (auto simp: Reader_u8_def Reader_remaining_def split: if_splits)
  have tk: "Reader_remaining r' \<le> Reader_remaining r" if "Reader_take n r = (Inr b, r')" for r r' b n
    using that by (auto simp: Reader_take_def Reader_ensure_def Reader_remaining_def slice_def try_bind_def split: if_splits)
  assume "param_item r = (Inr x, r')"
  then show ?thesis unfolding param_item_def by (auto elim!: try_bind_InrE dest!: u8 tk)
qed

function param_loop :: "Parameters \<Rightarrow> Reader \<Rightarrow> Parameters result" where
  "param_loop out inner =
     (if Reader_is_empty inner then Inr out
      else case param_item inner of
             (Inl e, _) \<Rightarrow> Inl e
           | (Inr (ident, raw), inner') \<Rightarrow> param_loop (param_set ident (be_word raw) out) inner')"
  by pat_completeness auto
termination
  by (relation "measure (\<lambda>(_, r). Reader_remaining r)") (auto dest: param_item_shrinks [OF sym])

declare param_loop.simps [simp del]

definition Parameters_decode :: "bytes \<Rightarrow> Parameters result" where
  "Parameters_decode bs =
     (if bs = [] then Inr Parameters_DEFAULT
      else fst (try_bind Reader_u8 (\<lambda>a.
        if a \<noteq> 0x81 then rd_fail_back InvalidValue 2
        else try_bind Reader_u8 (\<lambda>b.
        if b \<noteq> 0x80 then rd_fail_back InvalidValue 2
        else try_bind Reader_u8 (\<lambda>len.
        try_bind (Reader_take (unat len)) (\<lambda>inner.
        lift_res (param_loop Parameters_DEFAULT (Reader_with_base inner 3)))))) (Reader_new bs)))"

definition Parameters_negotiate :: "Parameters \<Rightarrow> Parameters \<Rightarrow> Parameters" where
  "Parameters_negotiate self peer =
     \<lparr>pm_max_info_tx = (if pm_max_info_tx self < pm_max_info_rx peer then pm_max_info_tx self else pm_max_info_rx peer),
      pm_max_info_rx = (if pm_max_info_rx self < pm_max_info_tx peer then pm_max_info_rx self else pm_max_info_tx peer),
      pm_window_tx = (if pm_window_tx self < pm_window_rx peer then pm_window_tx self else pm_window_rx peer),
      pm_window_rx = (if pm_window_rx self < pm_window_tx peer then pm_window_rx self else pm_window_tx peer)\<rparr>"

subsection \<open>Connection\<close>

datatype Role = Client | Server

datatype LinkState = LDisconnected | LConnecting | LConnected | LDisconnecting

datatype Event = EvIdle | EvConnected | EvDisconnected | EvLsdu | EvAcknowledgeRequired | EvPollRequired

record Connection =
  cn_role :: Role
  cn_local :: Address
  cn_peer :: Address
  cn_state :: LinkState
  cn_ns :: u8
  cn_nr :: u8
  cn_proposed :: Parameters
  cn_negotiated :: Parameters
  cn_acknowledging :: "Control option"

definition Connection_new :: "Role \<Rightarrow> Address \<Rightarrow> Address \<Rightarrow> Parameters \<Rightarrow> Connection" where
  "Connection_new role local' peer proposed =
     \<lparr>cn_role = role, cn_local = local', cn_peer = peer, cn_state = LDisconnected, cn_ns = 0, cn_nr = 0,
      cn_proposed = proposed, cn_negotiated = Parameters_DEFAULT, cn_acknowledging = None\<rparr>"

definition reset_sequence :: "Connection \<Rightarrow> Connection" where
  "reset_sequence c = c\<lparr>cn_ns := 0, cn_nr := 0\<rparr>"

definition Connection_reset :: "Connection \<Rightarrow> Connection" where
  "Connection_reset c = reset_sequence (c\<lparr>cn_state := LDisconnected, cn_negotiated := Parameters_DEFAULT, cn_acknowledging := None\<rparr>)"

definition Connection_connect :: "(Connection \<times> bytes, nat) op" where
  "Connection_connect = (\<lambda>(c, out).
     if cn_role c \<noteq> Client \<or> cn_state c = LConnected then (Inl (Error_new UnexpectedMessage 0), c, out)
     else case encode_into (Parameters_encode (cn_proposed c)) (replicate 32 0) of
       (Inl e, _) \<Rightarrow> (Inl e, c, out)
     | (Inr n, info) \<Rightarrow>
         let frame = \<lparr>fr_segmented = False, fr_destination = cn_peer c, fr_source = cn_local c,
                      fr_control = Snrm, fr_information = take n info\<rparr>
         in case encode_into (Frame_encode frame) out of
              (Inl e, out') \<Rightarrow> (Inl e, c, out')
            | (Inr m, out') \<Rightarrow> (Inr m, c\<lparr>cn_state := LConnecting\<rparr>, out'))"

definition Connection_disconnect :: "(Connection \<times> bytes, nat) op" where
  "Connection_disconnect = (\<lambda>(c, out).
     case encode_into (Frame_encode (Frame_control_only (cn_peer c) (cn_local c) Disc)) out of
       (Inl e, out') \<Rightarrow> (Inl e, c, out')
     | (Inr m, out') \<Rightarrow> (Inr m, c\<lparr>cn_state := LDisconnecting\<rparr>, out'))"

definition Connection_acknowledge :: "(Connection \<times> bytes, nat) op" where
  "Connection_acknowledge = (\<lambda>(c, out).
     case cn_acknowledging c of
       None \<Rightarrow> (Inl (Error_new UnexpectedMessage 0), c, out)
     | Some pending \<Rightarrow>
         let c = c\<lparr>cn_acknowledging := None\<rparr> in
         case (if pending = Snrm then encode_into (Parameters_encode (cn_negotiated c)) (replicate 32 0)
               else (Inr 0, replicate 32 0)) of
           (Inl e, _) \<Rightarrow> (Inl e, c, out)
         | (Inr n, info) \<Rightarrow>
             let frame = \<lparr>fr_segmented = False, fr_destination = cn_peer c, fr_source = cn_local c,
                          fr_control = Ua, fr_information = take n info\<rparr>
             in case encode_into (Frame_encode frame) out of
                  (Inl e, out') \<Rightarrow> (Inl e, c, out')
                | (Inr m, out') \<Rightarrow> (Inr m, c, out'))"

definition Connection_poll :: "(Connection \<times> bytes, nat) op" where
  "Connection_poll = (\<lambda>(c, out).
     case encode_into (Frame_encode (Frame_control_only (cn_peer c) (cn_local c) (Rr (cn_nr c) True))) out of
       (Inl e, out') \<Rightarrow> (Inl e, c, out')
     | (Inr m, out') \<Rightarrow> (Inr m, c, out'))"

definition Connection_segmenter :: "Connection \<Rightarrow> bytes \<Rightarrow> Segmenter result" where
  "Connection_segmenter c lsdu =
     (if cn_state c \<noteq> LConnected then Inl (Error_new UnexpectedMessage 0)
      else Segmenter_new lsdu (pm_max_info_tx (cn_negotiated c)))"

definition Connection_next_frame :: "(Connection \<times> Segmenter \<times> bytes, nat option) op" where
  "Connection_next_frame = (\<lambda>(c, s, out).
     if cn_state c \<noteq> LConnected then (Inl (Error_new UnexpectedMessage 0), c, s, out)
     else case Segmenter_next_frame (cn_peer c) (cn_local c) (cn_ns c) (cn_nr c) (s, out) of
       (Inl e, s', out') \<Rightarrow> (Inl e, c, s', out')
     | (Inr None, s', out') \<Rightarrow> (Inr None, c, s', out')
     | (Inr (Some n), s', out') \<Rightarrow> (Inr (Some n), c\<lparr>cn_ns := (cn_ns c + 1) mod 8\<rparr>, s', out'))"

definition Connection_handle :: "Frame \<Rightarrow> (Connection \<times> Reassembler, Event) op" where
  "Connection_handle frame = (\<lambda>(c, into).
     if fr_destination frame \<noteq> cn_local c then (Inr EvIdle, c, into)
     else case fr_control frame of
       Snrm \<Rightarrow>
         if cn_role c \<noteq> Server then (Inl (Error_new UnexpectedMessage 0), c, into)
         else (case Parameters_decode (fr_information frame) of
           Inl e \<Rightarrow> (Inl e, c, into)
         | Inr peer \<Rightarrow>
             (Inr EvAcknowledgeRequired,
              (reset_sequence (c\<lparr>cn_negotiated := Parameters_negotiate (cn_proposed c) peer\<rparr>))
                \<lparr>cn_state := LConnected, cn_acknowledging := Some Snrm\<rparr>,
              Reassembler_reset into))
     | Ua \<Rightarrow>
         if cn_state c = LConnecting
         then (case Parameters_decode (fr_information frame) of
           Inl e \<Rightarrow> (Inl e, c, into)
         | Inr peer \<Rightarrow>
             (Inr EvConnected,
              (reset_sequence (c\<lparr>cn_negotiated := Parameters_negotiate (cn_proposed c) peer\<rparr>))\<lparr>cn_state := LConnected\<rparr>,
              Reassembler_reset into))
         else (Inr EvDisconnected, c\<lparr>cn_state := LDisconnected\<rparr>, into)
     | Disc \<Rightarrow> (Inr EvAcknowledgeRequired, c\<lparr>cn_state := LDisconnected, cn_acknowledging := Some Disc\<rparr>, into)
     | Dm \<Rightarrow> (Inr EvDisconnected, c\<lparr>cn_state := LDisconnected\<rparr>, into)
     | Frmr \<Rightarrow> (Inr EvDisconnected, c\<lparr>cn_state := LDisconnected\<rparr>, into)
     | CI ns _ pf \<Rightarrow>
         if cn_state c \<noteq> LConnected then (Inl (Error_new UnexpectedMessage 0), c, into)
         else if ns = (cn_nr c + 7) mod 8 then (Inr EvIdle, c, into)
         else if ns \<noteq> cn_nr c then (Inl (Error_new UnexpectedMessage 0), c, into)
         else
           let c = c\<lparr>cn_nr := (cn_nr c + 1) mod 8\<rparr> in
           (case Reassembler_push frame into of
              (Inl e, into') \<Rightarrow> (Inl e, c, into')
            | (Inr True, into') \<Rightarrow> (Inr EvLsdu, c, into')
            | (Inr False, into') \<Rightarrow> (Inr (if pf then EvPollRequired else EvIdle), c, into'))
     | _ \<Rightarrow> (Inr EvIdle, c, into))"

subsection \<open>The parameters round trip\<close>

definition param_first :: "u32 \<Rightarrow> nat" where
  "param_first v = (case position (\<lambda>b. b \<noteq> 0) (be_bytes 4 v) of Some i \<Rightarrow> i | None \<Rightarrow> 3)"

definition param_image :: "u8 \<Rightarrow> u32 \<Rightarrow> bytes" where
  "param_image ident v = [ident, of_nat (4 - param_first v)] @ drop (param_first v) (be_bytes 4 v)"

lemma writes_param: "writes (write_param ident v) (param_image ident v)"
  unfolding write_param_def param_image_def Let_def param_first_def [symmetric] by (intro writes_seq writes_bytes)

lemma param_first_lt: "param_first v < 4"
  by (auto simp: param_first_def dest: position_Some split: option.splits)

lemma param_raw: "(be_word (drop (param_first v) (be_bytes 4 v)) :: u32) = v"
proof -
  define be n where "be = be_bytes 4 v" and "n = param_first v"
  have zeros: "\<forall>b\<in>set (take n be). b = 0"
  proof
    fix b assume "b \<in> set (take n be)"
    then obtain i where "i < n" "i < length be" "b = be ! i" by (auto simp: in_set_conv_nth)
    then show "b = 0" unfolding n_def be_def param_first_def
      by (auto split: option.splits dest: position_Some simp: position_None)
  qed
  have "be_nat be = be_nat (take n be @ drop n be)" by simp
  also have "\<dots> = be_nat (drop n be)" unfolding be_nat_append be_nat_zeros [OF zeros] by simp
  finally have "(be_word (drop n be) :: u32) = be_word be" by (simp add: word_unat_eq_iff unat_be_word)
  then show ?thesis by (simp add: be_def n_def)
qed

lemma length_param_image: "length (param_image ident v) \<le> 6" "length (param_image ident v) = 6 - param_first v"
  using param_first_lt [of v] by (simp_all add: param_image_def)

lemma decodes_param_item: "decodes param_item (param_image ident v) (ident, drop (param_first v) (be_bytes 4 v))"
proof -
  have n: "unat (of_nat (4 - param_first v) :: u8) = 4 - param_first v" by (simp add: unat_of_nat)
  have "decodes (try_bind (Reader_take (unat (of_nat (4 - param_first v) :: u8))) (\<lambda>raw. ok (ident, raw)))
      (drop (param_first v) (be_bytes 4 v)) (ident, drop (param_first v) (be_bytes 4 v))"
    unfolding n by (rule decodes_map [OF decodes_take_n]) simp
  then show ?thesis
    unfolding param_item_def param_image_def
    by (intro decodes_bind_eq [OF decodes_u8, where b = "of_nat (4 - param_first v) # drop (param_first v) (be_bytes 4 v)"]
        decodes_bind_eq [OF decodes_u8, where b = "drop (param_first v) (be_bytes 4 v)"]) auto
qed

lemma param_loop_step:
  assumes "rd_wf r" "Reader_rest r = param_image ident v @ rest"
  shows "\<exists>r'. rd_wf r' \<and> Reader_rest r' = rest \<and> param_loop out r = param_loop (param_set ident v out) r'"
proof -
  have "\<not> Reader_is_empty r" using assms(2) by (auto simp: Reader_is_empty_def Reader_remaining_def Reader_rest_def param_image_def)
  moreover have "param_item r = (Inr (ident, drop (param_first v) (be_bytes 4 v)), rd_advance (length (param_image ident v)) r)"
    using decodes_param_item [of ident v] assms by (simp add: decodes_def decodes_at_def)
  ultimately show ?thesis using rest_append [OF assms] param_raw [of v] by (auto simp: param_loop.simps [of out r])
qed

lemma param_loop_done: "Reader_rest r = [] \<Longrightarrow> param_loop out r = Inr out"
  by (simp add: param_loop.simps Reader_is_empty_def Reader_remaining_def Reader_rest_def)

definition params_body :: "Parameters \<Rightarrow> bytes" where
  "params_body p = param_image 5 (ucast (pm_max_info_tx p)) @ param_image 6 (ucast (pm_max_info_rx p)) @
     param_image 7 (pm_window_tx p) @ param_image 8 (pm_window_rx p)"

definition params_image :: "Parameters \<Rightarrow> bytes" where
  "params_image p = [0x81, 0x80, of_nat (length (params_body p))] @ params_body p"

lemma length_params_body: "length (params_body p) \<le> 24"
  using length_param_image(1) [of 5 "ucast (pm_max_info_tx p)"] length_param_image(1) [of 6 "ucast (pm_max_info_rx p)"]
    length_param_image(1) [of 7 "pm_window_tx p"] length_param_image(1) [of 8 "pm_window_rx p"]
  by (simp add: params_body_def)

lemma length_params_image: "length (params_image p) \<le> 27" "params_image p \<noteq> []"
  using length_params_body [of p] by (simp_all add: params_image_def)

interpretation params: encoder Parameters_encode params_image "\<lambda>_. True"
proof unfold_locales
  fix p
  have "writes (try_bind (write_param 5 (ucast (pm_max_info_tx p))) (\<lambda>_. try_bind (write_param 6 (ucast (pm_max_info_rx p))) (\<lambda>_.
      try_bind (write_param 7 (pm_window_tx p)) (\<lambda>_. write_param 8 (pm_window_rx p))))) (params_body p)"
    unfolding params_body_def by (intro writes_seq writes_param)
  then have body: "encode_into (try_bind (write_param 5 (ucast (pm_max_info_tx p))) (\<lambda>_. try_bind (write_param 6 (ucast (pm_max_info_rx p))) (\<lambda>_.
      try_bind (write_param 7 (pm_window_tx p)) (\<lambda>_. write_param 8 (pm_window_rx p))))) (replicate 32 0) =
      (Inr (length (params_body p)), params_body p @ drop (length (params_body p)) (replicate 32 0))"
    using length_params_body [of p] by (intro encode_into_fits) auto
  have "Parameters_encode p = try_bind (write_bytes [0x81, 0x80, of_nat (length (params_body p))]) (\<lambda>_. write_bytes (params_body p))"
    unfolding Parameters_encode_def body by simp
  then show "writes (Parameters_encode p) (params_image p)"
    unfolding params_image_def by (simp only:) (intro writes_seq writes_bytes)
qed

lemma clamp_u16_ucast: "clamp_u16 (ucast (v :: u16)) = v"
proof -
  have lt: "unat v < 65536" using unsigned_less [of v] by simp
  then have "take_bit 32 (unat v) = unat v" "take_bit 16 (unat v) = unat v" by (simp_all add: take_bit_nat_eq_self_iff)
  then have u: "unat (ucast v :: u32) = unat v" "unat (ucast (ucast v :: u32) :: u16) = unat v"
    by (simp_all add: unsigned_ucast_eq unsigned_take_bit_eq [symmetric] del: take_bit_eq_mod)
  with lt show ?thesis by (simp add: clamp_u16_def word_unat_eq_iff)
qed

lemma param_loop_body:
  assumes "rd_wf r" "Reader_rest r = params_body p"
  shows "param_loop out r = Inr p"
proof -
  obtain r1 where r1: "rd_wf r1" "Reader_rest r1 = param_image 6 (ucast (pm_max_info_rx p)) @ param_image 7 (pm_window_tx p) @ param_image 8 (pm_window_rx p)"
    "param_loop out r = param_loop (param_set 5 (ucast (pm_max_info_tx p)) out) r1"
    using param_loop_step [OF assms(1), of 5] assms(2) unfolding params_body_def by blast
  obtain r2 where r2: "rd_wf r2" "Reader_rest r2 = param_image 7 (pm_window_tx p) @ param_image 8 (pm_window_rx p)"
    "param_loop out r = param_loop (param_set 6 (ucast (pm_max_info_rx p)) (param_set 5 (ucast (pm_max_info_tx p)) out)) r2"
    using param_loop_step [OF r1(1,2)] r1(3) by metis
  obtain r3 where r3: "rd_wf r3" "Reader_rest r3 = param_image 8 (pm_window_rx p) @ []"
    "param_loop out r = param_loop (param_set 7 (pm_window_tx p) (param_set 6 (ucast (pm_max_info_rx p)) (param_set 5 (ucast (pm_max_info_tx p)) out))) r3"
    using param_loop_step [OF r2(1,2)] r2(3) by auto
  obtain r4 where r4: "Reader_rest r4 = []"
    "param_loop out r = param_loop (param_set 8 (pm_window_rx p) (param_set 7 (pm_window_tx p) (param_set 6 (ucast (pm_max_info_rx p)) (param_set 5 (ucast (pm_max_info_tx p)) out)))) r4"
    using param_loop_step [OF r3(1,2)] r3(3) by metis
  show ?thesis unfolding r4(2) param_loop_done [OF r4(1)] by (cases p) (simp add: param_set_def clamp_u16_ucast)
qed

lemma Parameters_decode_image: "Parameters_decode (params_image p) = Inr p"
proof -
  define bs n where "bs = params_image p" and "n = (of_nat (length (params_body p)) :: u8)"
  have n: "unat n = length (params_body p)" using length_params_body [of p] by (simp add: n_def unat_of_nat)
  have bs: "bs = [0x81, 0x80, n] @ params_body p" by (simp add: bs_def params_image_def n_def)
  have r: "Reader_u8 (Reader_new bs) = (Inr 0x81, rd_advance (Suc 0) (Reader_new bs))"
      "Reader_u8 (rd_advance (Suc 0) (Reader_new bs)) = (Inr 0x80, rd_advance 2 (Reader_new bs))"
      "Reader_u8 (rd_advance 2 (Reader_new bs)) = (Inr n, rd_advance 3 (Reader_new bs))"
      "Reader_take (length (params_body p)) (rd_advance 3 (Reader_new bs)) = (Inr (params_body p), rd_advance (length bs) (Reader_new bs))"
    using decodes_inside [OF decodes_u8, of bs "[]" _ _ 0 1] decodes_inside [OF decodes_u8, of bs "[0x81]" _ _ 1 2]
      decodes_inside [OF decodes_u8, of bs "[0x81, 0x80]" _ _ 2 3]
      decodes_inside [OF decodes_take [of "params_body p"], of bs "[0x81, 0x80, n]" "[]" 3 "length bs"]
    by (simp_all add: bs)
  have "rd_wf (Reader_with_base (params_body p) 3)" "Reader_rest (Reader_with_base (params_body p) 3) = params_body p"
    by (simp_all add: Reader_with_base_def rd_wf_def Reader_rest_def)
  then show ?thesis
    using param_loop_body [of "Reader_with_base (params_body p) 3"] length_params_image(2) [of p]
    unfolding Parameters_decode_def try_bind_def bs_def [symmetric] by (simp add: r n)
qed

subsection \<open>Opening the link\<close>

lemma frame_wire:
  assumes "frame_valid f" "Frame_encoded_len f \<le> length out"
  obtains out' where "encode_into (Frame_encode f) out = (Inr (Frame_encoded_len f), out')" "length out' = length out"
    "decode_frame (take (Frame_encoded_len f) out') = Inr (f, Frame_encoded_len f)"
proof -
  have "encode_into (Frame_encode f) out = (Inr (Frame_encoded_len f), frame_image f @ drop (length (frame_image f)) out)"
    using frame_enc.enc_into_fits [OF assms(1), of out] assms(2) by (simp add: frame_encoded_len)
  then show thesis using that decode_frame_image [OF assms(1), of "[]"] assms(2) by (simp add: frame_encoded_len)
qed

lemma params_info:
  "encode_into (Parameters_encode p) (replicate 32 0) =
    (Inr (length (params_image p)), params_image p @ drop (length (params_image p)) (replicate 32 0))"
  using length_params_image(1) [of p] by (intro params.enc_into_fits) auto

text \<open>A frame that carries parameters fits in sixty-four bytes.\<close>

lemma params_frame_valid:
  assumes "addr_valid d" "addr_valid s" "control_valid c"
    and "f = \<lparr>fr_segmented = False, fr_destination = d, fr_source = s, fr_control = c, fr_information = params_image p\<rparr>"
  shows "frame_valid f" "Frame_encoded_len f \<le> 64"
  using assms length_params_image [of p] Address_len_le(1) [of d] Address_len_le(1) [of s]
  by (auto simp: frame_valid_def frame_len_def Frame_encoded_len_def)

text \<open>
  The exchange that opens a link: the client's SNRM, the server's UA, each encoded, decoded and handled at the
  other end.  \<open>None\<close> is any other outcome.
\<close>

definition link_open :: "bytes \<Rightarrow> Connection \<times> Reassembler \<Rightarrow> Connection \<times> Reassembler \<Rightarrow>
    ((Connection \<times> Reassembler) \<times> (Connection \<times> Reassembler)) option" where
  "link_open out = (\<lambda>(c, into_c) (s, into_s).
     case Connection_connect (c, out) of
       (Inr n, c1, out1) \<Rightarrow>
         (case decode_frame (take n out1) of
            Inr (snrm, _) \<Rightarrow>
              (case Connection_handle snrm (s, into_s) of
                 (Inr EvAcknowledgeRequired, s1, into_s1) \<Rightarrow>
                   (case Connection_acknowledge (s1, out1) of
                      (Inr m, s2, out2) \<Rightarrow>
                        (case decode_frame (take m out2) of
                           Inr (ua, _) \<Rightarrow>
                             (case Connection_handle ua (c1, into_c) of
                                (Inr EvConnected, c2, into_c2) \<Rightarrow> Some ((c2, into_c2), (s2, into_s1))
                              | _ \<Rightarrow> None)
                         | Inl _ \<Rightarrow> None)
                    | _ \<Rightarrow> None)
               | _ \<Rightarrow> None)
          | Inl _ \<Rightarrow> None)
     | _ \<Rightarrow> None)"

definition mirrored :: "Parameters \<Rightarrow> Parameters" where
  "mirrored p = \<lparr>pm_max_info_tx = pm_max_info_rx p, pm_max_info_rx = pm_max_info_tx p,
     pm_window_tx = pm_window_rx p, pm_window_rx = pm_window_tx p\<rparr>"

text \<open>Negotiating with what the peer has already settled gives the mirror image of it.\<close>

lemma if_less_min: "(if a < b then a else b) = min a (b :: 'a::linorder)"
  by (auto simp: min_def)

lemma negotiate_settled: "Parameters_negotiate p (Parameters_negotiate q p) = mirrored (Parameters_negotiate q p)"
proof -
  have m: "min a (min b a) = min b a" for a b :: "'a::linorder" by (simp add: min.left_commute)
  show ?thesis unfolding Parameters_negotiate_def if_less_min mirrored_def by (simp only: Parameters.simps m)
qed

lemma link_open_eq:
  assumes v: "addr_valid (cn_local c)" "addr_valid (cn_peer c)"
    and c: "cn_role c = Client" "cn_state c \<noteq> LConnected"
    and s: "cn_role s = Server" "cn_local s = cn_peer c" "cn_peer s = cn_local c" and out: "64 \<le> length out"
  defines "q \<equiv> Parameters_negotiate (cn_proposed s) (cn_proposed c)"
  shows "link_open out (c, into_c) (s, into_s) = Some
    ((c\<lparr>cn_state := LConnected, cn_ns := 0, cn_nr := 0, cn_negotiated := mirrored q\<rparr>, Reassembler_reset into_c),
     (s\<lparr>cn_state := LConnected, cn_ns := 0, cn_nr := 0, cn_negotiated := q, cn_acknowledging := None\<rparr>, Reassembler_reset into_s))"
proof -
  define snrm where "snrm = \<lparr>fr_segmented = False, fr_destination = cn_peer c, fr_source = cn_local c, fr_control = Snrm,
    fr_information = params_image (cn_proposed c)\<rparr>"
  define ua where "ua = \<lparr>fr_segmented = False, fr_destination = cn_local c, fr_source = cn_peer c, fr_control = Ua,
    fr_information = params_image q\<rparr>"
  have snrm_v: "frame_valid snrm" "Frame_encoded_len snrm \<le> length out"
    using params_frame_valid [OF v(2,1) _ snrm_def] out by simp_all
  obtain out1 where snrm_w: "encode_into (Frame_encode snrm) out = (Inr (Frame_encoded_len snrm), out1)" "length out1 = length out"
    "decode_frame (take (Frame_encoded_len snrm) out1) = Inr (snrm, Frame_encoded_len snrm)"
    using frame_wire [OF snrm_v] .
  have ua_v: "frame_valid ua" "Frame_encoded_len ua \<le> length out1"
    using params_frame_valid [OF v _ ua_def] out snrm_w(2) by simp_all
  obtain out2 where ua_w: "encode_into (Frame_encode ua) out1 = (Inr (Frame_encoded_len ua), out2)" "length out2 = length out1"
    "decode_frame (take (Frame_encoded_len ua) out2) = Inr (ua, Frame_encoded_len ua)"
    using frame_wire [OF ua_v] .
  have connect: "Connection_connect (c, out) = (Inr (Frame_encoded_len snrm), c\<lparr>cn_state := LConnecting\<rparr>, out1)"
    using c snrm_w(1) by (simp add: Connection_connect_def params_info Let_def flip: snrm_def)
  define s1 where "s1 = s\<lparr>cn_state := LConnected, cn_ns := 0, cn_nr := 0, cn_negotiated := q, cn_acknowledging := Some Snrm\<rparr>"
  have handle1: "Connection_handle snrm (s, into_s) = (Inr EvAcknowledgeRequired, s1, Reassembler_reset into_s)"
    using s by (simp add: Connection_handle_def snrm_def Parameters_decode_image reset_sequence_def s1_def q_def)
  have ack: "Connection_acknowledge (s1, out1) = (Inr (Frame_encoded_len ua), s1\<lparr>cn_acknowledging := None\<rparr>, out2)"
    using ua_w(1) s by (simp add: Connection_acknowledge_def s1_def params_info Let_def flip: ua_def)
  have handle2: "Connection_handle ua (c\<lparr>cn_state := LConnecting\<rparr>, into_c) =
      (Inr EvConnected, c\<lparr>cn_state := LConnected, cn_ns := 0, cn_nr := 0, cn_negotiated := mirrored q\<rparr>, Reassembler_reset into_c)"
    by (simp add: Connection_handle_def ua_def Parameters_decode_image reset_sequence_def)
      (simp add: q_def negotiate_settled)
  show ?thesis
    by (simp add: link_open_def connect snrm_w(3) handle1 ack ua_w(3) handle2) (simp add: s1_def)
qed

text \<open>The exchange of SNRM and UA, byte for byte, opens the link at both ends: both are connected with their sequence
  numbers at zero, and they agree on the parameters, what one may send being exactly what the other accepts,
  and neither more than either of them proposed.\<close>

theorem hdlc_link_opens:
  assumes "addr_valid a" "addr_valid b" "64 \<le> length out"
  shows "\<exists>c s into_c' into_s'.
    link_open out (Connection_new Client a b p, into_c) (Connection_new Server b a q, into_s) = Some ((c, into_c'), (s, into_s')) \<and>
    cn_state c = LConnected \<and> cn_state s = LConnected \<and> cn_ns c = cn_nr s \<and> cn_ns s = cn_nr c \<and>
    cn_negotiated c = mirrored (cn_negotiated s) \<and>
    pm_max_info_tx (cn_negotiated c) \<le> pm_max_info_tx p \<and> pm_max_info_tx (cn_negotiated c) \<le> pm_max_info_rx q \<and>
    pm_max_info_tx (cn_negotiated s) \<le> pm_max_info_tx q \<and> pm_max_info_tx (cn_negotiated s) \<le> pm_max_info_rx p"
proof -
  have "link_open out (Connection_new Client a b p, into_c) (Connection_new Server b a q, into_s) = Some
    (((Connection_new Client a b p)\<lparr>cn_state := LConnected, cn_ns := 0, cn_nr := 0, cn_negotiated := mirrored (Parameters_negotiate q p)\<rparr>,
      Reassembler_reset into_c),
     ((Connection_new Server b a q)\<lparr>cn_state := LConnected, cn_ns := 0, cn_nr := 0, cn_negotiated := Parameters_negotiate q p,
       cn_acknowledging := None\<rparr>, Reassembler_reset into_s))"
    using link_open_eq [of "Connection_new Client a b p" "Connection_new Server b a q" out into_c into_s] assms
    by (simp add: Connection_new_def)
  moreover have "pm_max_info_tx (mirrored (Parameters_negotiate q p)) \<le> pm_max_info_tx p"
    "pm_max_info_tx (mirrored (Parameters_negotiate q p)) \<le> pm_max_info_rx q"
    "pm_max_info_tx (Parameters_negotiate q p) \<le> pm_max_info_tx q" "pm_max_info_tx (Parameters_negotiate q p) \<le> pm_max_info_rx p"
    by (simp_all add: Parameters_negotiate_def mirrored_def if_less_min)
  ultimately show ?thesis by simp
qed

theorem hdlc_link_opens_witness:
  "\<exists>c s into_c' into_s'.
    link_open (replicate 64 0) (Connection_new Client (Single 0x10) (Single 1) Parameters_DEFAULT, Reassembler_new [])
      (Connection_new Server (Single 1) (Single 0x10) Parameters_DEFAULT, Reassembler_new []) = Some ((c, into_c'), (s, into_s')) \<and>
    cn_state c = LConnected"
  using hdlc_link_opens [of "Single 0x10" "Single 1" "replicate 64 0" Parameters_DEFAULT "Reassembler_new []"
      Parameters_DEFAULT "Reassembler_new []"] by auto

subsection \<open>Carrying a service data unit\<close>

text \<open>
  The sender's segments, each encoded, decoded and handled at the other end, until the receiver has the unit.
  \<open>None\<close> is running out of fuel or any other outcome.
\<close>

fun link_send :: "nat \<Rightarrow> bytes \<Rightarrow> Connection \<times> Segmenter \<Rightarrow> Connection \<times> Reassembler \<Rightarrow>
    (Connection \<times> Connection \<times> Reassembler) option" where
  "link_send 0 out tx rx = None"
| "link_send (Suc fuel) out (c, sg) (s, into) =
     (case Connection_next_frame (c, sg, out) of
        (Inr (Some n), c', sg', out') \<Rightarrow>
          (case decode_frame (take n out') of
             Inr (frame, _) \<Rightarrow>
               (case Connection_handle frame (s, into) of
                  (Inr EvLsdu, s', into') \<Rightarrow> Some (c', s', into')
                | (Inr EvIdle, s', into') \<Rightarrow> link_send fuel out' (c', sg') (s', into')
                | _ \<Rightarrow> None)
           | Inl _ \<Rightarrow> None)
      | _ \<Rightarrow> None)"

definition ra_open :: "Reassembler \<Rightarrow> Reassembler" where
  "ra_open r = (if ra_complete r then Reassembler_reset r else r)"

text \<open>The receiver holds what the segmenter has sent, and both count the same frame.\<close>

definition link_sync :: "Connection \<Rightarrow> Segmenter \<Rightarrow> Connection \<Rightarrow> Reassembler \<Rightarrow> bool" where
  "link_sync c sg s into \<longleftrightarrow>
     cn_state c = LConnected \<and> cn_state s = LConnected \<and> cn_peer c = cn_local s \<and>
     addr_valid (cn_local c) \<and> addr_valid (cn_peer c) \<and> cn_ns c = cn_nr s \<and> cn_ns c < 8 \<and> cn_nr c < 8 \<and>
     0 < sg_max_info sg \<and> sg_max_info sg \<le> 2032 \<and> sg_sent sg < length (sg_lsdu sg) \<and>
     length (sg_lsdu sg) \<le> length (ra_buf into) \<and> ra_len (ra_open into) = sg_sent sg \<and>
     take (sg_sent sg) (ra_buf into) = take (sg_sent sg) (sg_lsdu sg) \<and>
     (ra_expect_ns (ra_open into) = None \<or> ra_expect_ns (ra_open into) = Some (cn_nr s))"

lemma seq_mod8: "(n :: u8) < 8 \<Longrightarrow> (n + 1) mod 8 < 8 \<and> n \<noteq> (n + 7) mod 8"
  using below8 [of n] by auto

definition seg_end :: "Segmenter \<Rightarrow> nat" where
  "seg_end sg = min (sg_sent sg + sg_max_info sg) (length (sg_lsdu sg))"

definition seg_frame :: "Connection \<Rightarrow> Segmenter \<Rightarrow> Frame" where
  "seg_frame c sg = \<lparr>fr_segmented = (seg_end sg < length (sg_lsdu sg)), fr_destination = cn_peer c, fr_source = cn_local c,
     fr_control = CI (cn_ns c) (cn_nr c) (\<not> seg_end sg < length (sg_lsdu sg)),
     fr_information = take (seg_end sg - sg_sent sg) (drop (sg_sent sg) (sg_lsdu sg))\<rparr>"

lemma sync_next_frame:
  assumes sync: "link_sync c sg s into" and out: "sg_max_info sg + 17 \<le> length out"
  obtains n out' where "Connection_next_frame (c, sg, out) =
      (Inr (Some n), c\<lparr>cn_ns := (cn_ns c + 1) mod 8\<rparr>, sg\<lparr>sg_sent := seg_end sg\<rparr>, out')"
    "decode_frame (take n out') = Inr (seg_frame c sg, n)" "length out' = length out"
proof -
  have info: "length (fr_information (seg_frame c sg)) \<le> sg_max_info sg" by (simp add: seg_frame_def seg_end_def)
  have len: "frame_len f \<le> length (fr_information f) + 15" for f
    using Address_len_le(1) [of "fr_destination f"] Address_len_le(1) [of "fr_source f"] by (simp add: frame_len_def)
  have fits: "Frame_encoded_len (seg_frame c sg) \<le> length out"
    using info len [of "seg_frame c sg"] out by (simp add: frame_encoded_len length_frame_image)
  have "frame_len (seg_frame c sg) \<le> 0x7FF" using info len [of "seg_frame c sg"] sync by (simp add: link_sync_def)
  then have v: "frame_valid (seg_frame c sg)"
    using sync unfolding frame_valid_def by (auto simp: seg_frame_def link_sync_def)
  from frame_wire [OF v fits] obtain out' where w: "encode_into (Frame_encode (seg_frame c sg)) out = (Inr (Frame_encoded_len (seg_frame c sg)), out')"
    "length out' = length out" "decode_frame (take (Frame_encoded_len (seg_frame c sg)) out') = Inr (seg_frame c sg, Frame_encoded_len (seg_frame c sg))" .
  have "slice (sg_lsdu sg) (sg_sent sg) (seg_end sg) = Some (fr_information (seg_frame c sg))" "\<not> Segmenter_is_done sg"
    using sync by (auto simp: slice_def seg_end_def seg_frame_def link_sync_def Segmenter_is_done_def)
  then have "Segmenter_next_frame (cn_peer c) (cn_local c) (cn_ns c) (cn_nr c) (sg, out) =
      (Inr (Some (Frame_encoded_len (seg_frame c sg))), sg\<lparr>sg_sent := seg_end sg\<rparr>, out')"
    using w(1) by (simp add: Segmenter_next_frame_def Let_def flip: seg_end_def) (simp add: seg_frame_def)
  then show thesis using that w(2,3) sync by (simp add: Connection_next_frame_def link_sync_def)
qed

lemma push_open: "Reassembler_push f r = Reassembler_push f (ra_open r)" if "\<exists>ns nr pf. fr_control f = CI ns nr pf"
  using that by (auto simp: Reassembler_push_def ra_open_def Reassembler_reset_def)

lemma sync_handle:
  assumes sync: "link_sync c sg s into"
  defines "r \<equiv> (ra_open into)\<lparr>ra_buf := overwrite (ra_buf into) (sg_sent sg) (take (seg_end sg - sg_sent sg) (drop (sg_sent sg) (sg_lsdu sg))),
      ra_len := seg_end sg, ra_expect_ns := Some ((cn_nr s + 1) mod 8), ra_complete := \<not> seg_end sg < length (sg_lsdu sg)\<rparr>"
  shows "Connection_handle (seg_frame c sg) (s, into) =
      (Inr (if seg_end sg < length (sg_lsdu sg) then EvIdle else EvLsdu), s\<lparr>cn_nr := (cn_nr s + 1) mod 8\<rparr>, r)"
    and "take (seg_end sg) (ra_buf r) = take (seg_end sg) (sg_lsdu sg)" and "length (ra_buf r) = length (ra_buf into)"
proof -
  define info where "info = take (seg_end sg - sg_sent sg) (drop (sg_sent sg) (sg_lsdu sg))"
  have e: "seg_end sg \<le> length (sg_lsdu sg)" "sg_sent sg \<le> seg_end sg" "sg_sent sg + length info = seg_end sg"
    and fits: "length (sg_lsdu sg) \<le> length (ra_buf into)"
    using sync by (auto simp: seg_end_def link_sync_def info_def)
  have buf: "ra_buf (ra_open into) = ra_buf into" by (simp add: ra_open_def Reassembler_reset_def)
  have "Reassembler_push (seg_frame c sg) into = Reassembler_push (seg_frame c sg) (ra_open into)"
    by (rule push_open) (simp add: seg_frame_def)
  also have "\<dots> = (Inr (\<not> seg_end sg < length (sg_lsdu sg)), r)"
  proof -
    have "\<not> ra_complete (ra_open into)" by (simp add: ra_open_def Reassembler_reset_def)
    moreover have "ra_len (ra_open into) = sg_sent sg" "cn_ns c = cn_nr s"
      "\<not> (case ra_expect_ns (ra_open into) of Some x \<Rightarrow> cn_nr s \<noteq> x | None \<Rightarrow> False)"
      using sync by (auto simp: link_sync_def)
    ultimately show ?thesis
      using e fits unfolding Reassembler_push_def Let_def r_def
      by (simp add: seg_frame_def buf flip: info_def)
  qed
  finally have push: "Reassembler_push (seg_frame c sg) into = (Inr (\<not> seg_end sg < length (sg_lsdu sg)), r)" .
  have "cn_ns c \<noteq> (cn_nr s + 7) mod 8" "cn_ns c = cn_nr s" "cn_state s = LConnected" "cn_peer c = cn_local s"
    using sync seq_mod8 [of "cn_nr s"] by (auto simp: link_sync_def)
  then show "Connection_handle (seg_frame c sg) (s, into) =
      (Inr (if seg_end sg < length (sg_lsdu sg) then EvIdle else EvLsdu), s\<lparr>cn_nr := (cn_nr s + 1) mod 8\<rparr>, r)"
    using push unfolding Connection_handle_def by (simp add: seg_frame_def split: if_splits)
  have "take (seg_end sg) (ra_buf r) = take (sg_sent sg) (ra_buf into) @ info"
    using take_overwrite_upto [of "sg_sent sg" "ra_buf into" info] e fits by (simp add: r_def info_def)
  also have "\<dots> = take (seg_end sg) (sg_lsdu sg)"
    using sync e take_add [of "sg_sent sg" "seg_end sg - sg_sent sg" "sg_lsdu sg"] by (simp add: link_sync_def info_def)
  finally show "take (seg_end sg) (ra_buf r) = take (seg_end sg) (sg_lsdu sg)" .
  show "length (ra_buf r) = length (ra_buf into)" using e fits by (simp add: r_def flip: info_def)
qed

lemma link_send_delivers:
  assumes "link_sync c sg s into" "sg_max_info sg + 17 \<le> length out" "length (sg_lsdu sg) - sg_sent sg \<le> fuel"
  shows "\<exists>c' s' into'. link_send fuel out (c, sg) (s, into) = Some (c', s', into') \<and>
    Reassembler_lsdu into' = sg_lsdu sg \<and> cn_ns c' = cn_nr s'"
  using assms
proof (induction fuel arbitrary: c sg s into out)
  case 0
  then show ?case by (simp add: link_sync_def)
next
  case (Suc fuel)
  obtain n out' where tx: "Connection_next_frame (c, sg, out) =
      (Inr (Some n), c\<lparr>cn_ns := (cn_ns c + 1) mod 8\<rparr>, sg\<lparr>sg_sent := seg_end sg\<rparr>, out')"
    "decode_frame (take n out') = Inr (seg_frame c sg, n)" "length out' = length out"
    using sync_next_frame [OF Suc.prems(1,2)] by blast
  note rx = sync_handle [OF Suc.prems(1)]
  define r where "r = (ra_open into)\<lparr>ra_buf := overwrite (ra_buf into) (sg_sent sg) (take (seg_end sg - sg_sent sg) (drop (sg_sent sg) (sg_lsdu sg))),
      ra_len := seg_end sg, ra_expect_ns := Some ((cn_nr s + 1) mod 8), ra_complete := \<not> seg_end sg < length (sg_lsdu sg)\<rparr>"
  have ns: "cn_ns c = cn_nr s" using Suc.prems(1) by (simp add: link_sync_def)
  show ?case
  proof (cases "seg_end sg < length (sg_lsdu sg)")
    case True
    have "link_sync (c\<lparr>cn_ns := (cn_ns c + 1) mod 8\<rparr>) (sg\<lparr>sg_sent := seg_end sg\<rparr>) (s\<lparr>cn_nr := (cn_nr s + 1) mod 8\<rparr>) r"
      using Suc.prems(1) rx(2,3) True seq_mod8 [of "cn_nr s"] unfolding r_def [symmetric]
      by (simp add: link_sync_def ra_open_def) (auto simp: r_def)
    moreover have "length (sg_lsdu sg) - seg_end sg \<le> fuel"
      using Suc.prems True by (auto simp: seg_end_def link_sync_def)
    moreover have "link_send (Suc fuel) out (c, sg) (s, into) =
        link_send fuel out' (c\<lparr>cn_ns := (cn_ns c + 1) mod 8\<rparr>, sg\<lparr>sg_sent := seg_end sg\<rparr>) (s\<lparr>cn_nr := (cn_nr s + 1) mod 8\<rparr>, r)"
      using tx rx(1) True by (simp add: r_def)
    ultimately show ?thesis using Suc.IH [of "c\<lparr>cn_ns := (cn_ns c + 1) mod 8\<rparr>" "sg\<lparr>sg_sent := seg_end sg\<rparr>"] Suc.prems tx(3)
      by simp
  next
    case False
    then have e: "seg_end sg = length (sg_lsdu sg)" by (simp add: seg_end_def)
    have "link_send (Suc fuel) out (c, sg) (s, into) =
        Some (c\<lparr>cn_ns := (cn_ns c + 1) mod 8\<rparr>, s\<lparr>cn_nr := (cn_nr s + 1) mod 8\<rparr>, r)"
      using tx rx(1) False by (simp add: r_def)
    moreover have "Reassembler_lsdu r = sg_lsdu sg"
      using rx(2,3) e Suc.prems(1) unfolding r_def [symmetric] by (simp add: Reassembler_lsdu_def slice_def link_sync_def) (simp add: r_def)
    ultimately show ?thesis using ns by simp
  qed
qed

text \<open>What it takes for one end to send to the other: both connected, the addresses and the sequence numbers agree,
  and the information field leaves a frame within its eleven-bit length.\<close>

definition link_ready :: "Connection \<Rightarrow> Connection \<Rightarrow> bool" where
  "link_ready c s \<longleftrightarrow> cn_state c = LConnected \<and> cn_state s = LConnected \<and> cn_peer c = cn_local s \<and>
     addr_valid (cn_local c) \<and> addr_valid (cn_peer c) \<and> cn_ns c = cn_nr s \<and> cn_ns c < 8 \<and> cn_nr c < 8 \<and>
     0 < pm_max_info_tx (cn_negotiated c) \<and> pm_max_info_tx (cn_negotiated c) \<le> 2032"

text \<open>C20: On an open link a service data unit that is not empty arrives whole, whatever its length: segmented, framed, checked, decoded and
  reassembled, with as many frames as it takes, across the wrap of the sequence numbers at eight, and the two
  ends are in step for the next unit.  The link is one whose negotiated information field has between 1 and 2032 bytes, so that a frame's
  eleven-bit length can say its size (the negotiation accepts up to 65535, and a frame of more than 2047 bytes is refused), whose addresses are
  valid and whose sequence numbers agree; the reassembler is fresh or has its last unit complete, its buffer holds the unit, and the output buffer
  holds a frame, 17 bytes more than the information field.  Nothing is lost or reordered on the way.\<close>

theorem hdlc_unit_delivered:
  assumes "link_ready c s" "lsdu \<noteq> []" "Connection_segmenter c lsdu = Inr sg" "length lsdu \<le> length (ra_buf into)"
    "ra_complete into \<or> ra_len into = 0 \<and> ra_expect_ns into = None"
    "unat (pm_max_info_tx (cn_negotiated c)) + 17 \<le> length out"
  shows "\<exists>c' s' into'. link_send (length lsdu) out (c, sg) (s, into) = Some (c', s', into') \<and>
    Reassembler_lsdu into' = lsdu \<and> cn_ns c' = cn_nr s'"
proof -
  have sg: "sg = \<lparr>sg_lsdu = lsdu, sg_sent = 0, sg_max_info = unat (pm_max_info_tx (cn_negotiated c))\<rparr>"
    using assms(1,3) by (auto simp: Connection_segmenter_def Segmenter_new_def link_ready_def split: if_splits)
  have "ra_len (ra_open into) = 0" "ra_expect_ns (ra_open into) = None"
    using assms(5) by (auto simp: ra_open_def Reassembler_reset_def)
  then have "link_sync c sg s into"
    using assms(1,2,4) by (auto simp: link_sync_def link_ready_def sg word_less_nat_alt word_le_nat_alt)
  from link_send_delivers [OF this, of out "length lsdu"] assms(6) show ?thesis by (simp add: sg)
qed

theorem hdlc_unit_delivered_witness:
  "\<exists>c s sg c' s' into'. link_ready c s \<and> Connection_segmenter c (replicate 300 7) = Inr sg \<and>
    link_send 300 (replicate 200 0) (c, sg) (s, Reassembler_new (replicate 512 0)) = Some (c', s', into') \<and>
    Reassembler_lsdu into' = replicate 300 7"
proof -
  define c s where "c = (Connection_new Client (Single 0x10) (Single 1) Parameters_DEFAULT)\<lparr>cn_state := LConnected\<rparr>"
    and "s = (Connection_new Server (Single 1) (Single 0x10) Parameters_DEFAULT)\<lparr>cn_state := LConnected\<rparr>"
  have ready: "link_ready c s" by (simp add: link_ready_def c_def s_def Connection_new_def Parameters_DEFAULT_def)
  obtain sg where sg: "Connection_segmenter c (replicate 300 7) = Inr sg"
    by (simp add: c_def Connection_segmenter_def Segmenter_new_def Connection_new_def Parameters_DEFAULT_def)
  have "unat (pm_max_info_tx (cn_negotiated c)) + 17 \<le> length (replicate 200 (0 :: u8))"
    by (simp add: c_def Connection_new_def Parameters_DEFAULT_def)
  from hdlc_unit_delivered [OF ready _ sg _ _ this, of "Reassembler_new (replicate 512 0)"]
  have "\<exists>c' s' into'. link_send 300 (replicate 200 0) (c, sg) (s, Reassembler_new (replicate 512 0)) = Some (c', s', into') \<and>
      Reassembler_lsdu into' = replicate 300 7" by (auto simp: Reassembler_new_def)
  with ready sg show ?thesis by blast
qed

subsection \<open>What the link refuses and what it keeps\<close>

text \<open>The operations of a connection on one reassembler, in any order, with any frame the decoder can produce.\<close>

inductive link_step :: "Connection \<times> Reassembler \<Rightarrow> Connection \<times> Reassembler \<Rightarrow> bool" where
  do_connect: "Connection_connect (c, out) = (res, c', out') \<Longrightarrow> link_step (c, into) (c', into)"
| do_disconnect: "Connection_disconnect (c, out) = (res, c', out') \<Longrightarrow> link_step (c, into) (c', into)"
| do_acknowledge: "Connection_acknowledge (c, out) = (res, c', out') \<Longrightarrow> link_step (c, into) (c', into)"
| do_poll: "Connection_poll (c, out) = (res, c', out') \<Longrightarrow> link_step (c, into) (c', into)"
| do_next_frame: "Connection_next_frame (c, sg, out) = (res', c', sg', out') \<Longrightarrow> link_step (c, into) (c', into)"
| do_handle: "decode_frame bs = Inr (frame, n) \<Longrightarrow> Connection_handle frame (c, into) = (res'', c', into') \<Longrightarrow>
    link_step (c, into) (c', into')"
| do_reset: "link_step (c, into) (Connection_reset c, into)"

inductive_cases link_stepE: "link_step (c, into) (c', into')"

definition link_inv :: "Role \<Rightarrow> Address \<Rightarrow> Address \<Rightarrow> Parameters \<Rightarrow> Connection \<Rightarrow> bool" where
  "link_inv role a b p c \<longleftrightarrow> cn_role c = role \<and> cn_local c = a \<and> cn_peer c = b \<and> cn_proposed c = p \<and>
     cn_ns c < 8 \<and> cn_nr c < 8 \<and> (role = Server \<longrightarrow> cn_state c \<noteq> LConnecting) \<and>
     (role = Client \<longrightarrow> cn_acknowledging c \<noteq> Some Snrm) \<and>
     (cn_acknowledging c = None \<or> cn_acknowledging c = Some Snrm \<or> cn_acknowledging c = Some Disc)"

lemma link_inv_new: "link_inv role a b p (Connection_new role a b p)"
  by (simp add: link_inv_def Connection_new_def)

lemma connect_changes:
  assumes "Connection_connect (c, out) = (res, c', out')"
  shows "c' = c \<or> cn_role c = Client \<and> cn_state c \<noteq> LConnected \<and> c' = c\<lparr>cn_state := LConnecting\<rparr>"
  using assms by (auto simp: Connection_connect_def Let_def split: if_splits prod.splits sum.splits)

lemma acknowledge_changes:
  assumes "Connection_acknowledge (c, out) = (res, c', out')"
  shows "c' = c\<lparr>cn_acknowledging := None\<rparr>"
  using assms by (cases c) (auto simp: Connection_acknowledge_def Let_def split: if_splits prod.splits sum.splits option.splits)

lemma handle_changes:
  assumes run: "Connection_handle frame (c, into) = (res, c', into')" and inv: "link_inv role a b p c"
  shows "link_inv role a b p c'"
proof (cases "fr_destination frame = cn_local c")
  case False
  then show ?thesis using run inv by (simp add: Connection_handle_def)
next
  case True
  show ?thesis
  proof (cases "fr_control frame")
    case (CI ns nr pf)
    have "c' = c \<or> c' = c\<lparr>cn_nr := (cn_nr c + 1) mod 8\<rparr>"
      using run True CI by (auto simp: Connection_handle_def Let_def split: if_splits sum.splits prod.splits bool.splits)
    then show ?thesis using inv seq_mod8 [of "cn_nr c"] by (auto simp: link_inv_def)
  next
    case Snrm
    then have "c' = c \<or> cn_role c = Server \<and> (\<exists>n. c' = c\<lparr>cn_negotiated := n, cn_ns := 0, cn_nr := 0, cn_state := LConnected,
        cn_acknowledging := Some Snrm\<rparr>)"
      using run True by (auto simp: Connection_handle_def reset_sequence_def split: if_splits sum.splits)
    then show ?thesis using inv by (auto simp: link_inv_def)
  next
    case Ua
    then have "c' = c \<or> (\<exists>n. c' = c\<lparr>cn_negotiated := n, cn_ns := 0, cn_nr := 0, cn_state := LConnected\<rparr>) \<or> c' = c\<lparr>cn_state := LDisconnected\<rparr>"
      using run True by (auto simp: Connection_handle_def reset_sequence_def split: if_splits sum.splits)
    then show ?thesis using inv by (auto simp: link_inv_def)
  qed (use run inv True in \<open>auto simp: Connection_handle_def link_inv_def\<close>)
qed

lemma link_step_inv: "link_step (c, into) (c', into') \<Longrightarrow> link_inv role a b p c \<Longrightarrow> link_inv role a b p c'"
proof (erule link_stepE)
  assume inv: "link_inv role a b p c"
  { fix out res out' assume "Connection_connect (c, out) = (res, c', out')"
    from connect_changes [OF this] inv show ?thesis by (auto simp: link_inv_def) }
  { fix out res out' assume "Connection_disconnect (c, out) = (res, c', out')"
    with inv show ?thesis by (auto simp: Connection_disconnect_def link_inv_def split: prod.splits sum.splits) }
  { fix out res out' assume "Connection_acknowledge (c, out) = (res, c', out')"
    from acknowledge_changes [OF this] inv show ?thesis by (auto simp: link_inv_def) }
  { fix out res out' assume "Connection_poll (c, out) = (res, c', out')"
    with inv show ?thesis by (auto simp: Connection_poll_def split: prod.splits sum.splits) }
  { fix sg out res sg' out' assume "Connection_next_frame (c, sg, out) = (res, c', sg', out')"
    with inv seq_mod8 [of "cn_ns c"] show ?thesis
      by (auto simp: Connection_next_frame_def link_inv_def split: if_splits prod.splits sum.splits option.splits) }
  { fix bs frame n res assume "Connection_handle frame (c, into) = (res, c', into')"
    then show ?thesis using inv by (rule handle_changes) }
  { assume "c' = Connection_reset c"
    with inv show ?thesis by (auto simp: Connection_reset_def reset_sequence_def link_inv_def) }
qed

text \<open>C21: However the operations of a connection are interleaved, and whatever frames arrive, its sequence numbers stay
  below eight, its role, addresses and proposal never change, a server never waits for a UA and a client never
  owes one for an SNRM, and what it owes is only ever the answer to an SNRM or a DISC.\<close>

theorem hdlc_link_invariant:
  assumes "link_step\<^sup>*\<^sup>* (Connection_new role a b p, into) (c, into')"
  shows "link_inv role a b p c"
  using assms by (induction rule: rtranclp_induct2) (auto intro: link_inv_new link_step_inv)

theorem hdlc_link_invariant_witness:
  "\<exists>c. link_step\<^sup>*\<^sup>* (Connection_new Server (Single 1) (Single 0x10) Parameters_DEFAULT, Reassembler_new [])
      (c, Reassembler_new []) \<and> cn_nr c < 8"
proof -
  let ?c = "Connection_new Server (Single 1) (Single 0x10) Parameters_DEFAULT"
  have "link_step\<^sup>*\<^sup>* (?c, Reassembler_new []) (Connection_reset ?c, Reassembler_new [])" by (blast intro: do_reset)
  from hdlc_link_invariant [OF this] this show ?thesis by (auto simp: link_inv_def)
qed

text \<open>An information frame changes the connection or the reassembler only when it is addressed to this station, the
  link is open and the frame carries exactly the next sequence number: a repeat, a frame ahead of its turn, one for
  another station or one before the link is open leaves both as they were.\<close>

theorem hdlc_only_next_frame_counts:
  assumes "Connection_handle frame (c, into) = (res, c', into')" "fr_control frame = CI ns nr pf" "(c', into') \<noteq> (c, into)"
  shows "fr_destination frame = cn_local c \<and> cn_state c = LConnected \<and> ns = cn_nr c \<and> c' = c\<lparr>cn_nr := (cn_nr c + 1) mod 8\<rparr>"
  using assms by (auto simp: Connection_handle_def Let_def split: if_splits sum.splits prod.splits bool.splits)

theorem hdlc_only_next_frame_counts_witness:
  "\<exists>frame c c' into into' res. Connection_handle frame (c, into) = (res, c', into') \<and> fr_control frame = CI 0 0 True \<and> cn_nr c = 0 \<and> cn_nr c' = 1"
proof -
  define c where "c = (Connection_new Server (Single 1) (Single 0x10) Parameters_DEFAULT)\<lparr>cn_state := LConnected\<rparr>"
  define f where "f = \<lparr>fr_segmented = False, fr_destination = Single 1, fr_source = Single 0x10, fr_control = CI 0 0 True, fr_information = [5 :: u8]\<rparr>"
  obtain res c' into' where run: "Connection_handle f (c, Reassembler_new [0]) = (res, c', into')" by (metis prod_cases3)
  have "cn_nr c' \<noteq> cn_nr c"
    using run by (auto simp: Connection_handle_def c_def f_def Connection_new_def Reassembler_push_def Reassembler_new_def Let_def split: prod.splits)
  then have "c' = c\<lparr>cn_nr := (cn_nr c + 1) mod 8\<rparr>"
    using hdlc_only_next_frame_counts [OF run, of 0 0 True] by (auto simp: f_def)
  then show ?thesis using run by (intro exI [of _ f] exI [of _ c] exI [of _ c'] exI [of _ "Reassembler_new [0]"] exI [of _ into'] exI [of _ res])
      (simp add: f_def c_def Connection_new_def)
qed

text \<open>When the first segment of a unit does not fit the reassembler, the connection reports it but has already counted
  the frame: the next segment is then taken as the beginning of a unit, and if it is the last one the unit is
  announced as complete although its first part is missing.\<close>

theorem hdlc_overflow_then_partial_unit:
  assumes "cn_state c = LConnected" "cn_nr c < 8"
    and f: "fr_destination f = cn_local c" "fr_control f = CI (cn_nr c) nr pf" "length buf < length (fr_information f)"
    and g: "fr_destination g = cn_local c" "fr_control g = CI ((cn_nr c + 1) mod 8) nr' pf'" "\<not> fr_segmented g"
      "length (fr_information g) \<le> length buf"
  shows "\<exists>e c1 c2 into2. Connection_handle f (c, Reassembler_new buf) = (Inl e, c1, Reassembler_new buf) \<and>
    Connection_handle g (c1, Reassembler_new buf) = (Inr EvLsdu, c2, into2) \<and> Reassembler_lsdu into2 = fr_information g"
proof -
  define c1 where "c1 = c\<lparr>cn_nr := (cn_nr c + 1) mod 8\<rparr>"
  have "Connection_handle f (c, Reassembler_new buf) =
      (Inl (Error_new (BufferTooSmall (length (fr_information f) - length buf)) 0), c1, Reassembler_new buf)"
    using assms(1) f seq_mod8 [OF assms(2)]
    by (simp add: Connection_handle_def Reassembler_push_def Reassembler_new_def Let_def c1_def)
  moreover obtain c2 into2 where "Connection_handle g (c1, Reassembler_new buf) = (Inr EvLsdu, c2, into2)"
    "Reassembler_lsdu into2 = fr_information g"
    using assms(1) g seq_mod8 [OF assms(2)] seq_mod8 [of "(cn_nr c + 1) mod 8"]
    by (simp add: Connection_handle_def Reassembler_push_def Reassembler_new_def Reassembler_lsdu_def Let_def c1_def
        overwrite_def slice_def)
  ultimately show ?thesis by blast
qed

theorem hdlc_overflow_then_partial_unit_witness:
  "\<exists>f g e c c1 c2 into2. fr_segmented f \<and> fr_information f = [1, 2, 3] \<and> fr_information g = [4] \<and>
    Connection_handle f (c, Reassembler_new [0, 0]) = (Inl e, c1, Reassembler_new [0, 0]) \<and>
    Connection_handle g (c1, Reassembler_new [0, 0]) = (Inr EvLsdu, c2, into2) \<and> Reassembler_lsdu into2 = [4]"
proof -
  define c where "c = (Connection_new Server (Single 1) (Single 0x10) Parameters_DEFAULT)\<lparr>cn_state := LConnected\<rparr>"
  define f where "f = \<lparr>fr_segmented = True, fr_destination = Single 1, fr_source = Single 0x10, fr_control = CI 0 0 False, fr_information = [1, 2, 3 :: u8]\<rparr>"
  define g where "g = \<lparr>fr_segmented = False, fr_destination = Single 1, fr_source = Single 0x10, fr_control = CI 1 0 True, fr_information = [4 :: u8]\<rparr>"
  have "\<exists>e c1 c2 into2. Connection_handle f (c, Reassembler_new [0, 0]) = (Inl e, c1, Reassembler_new [0, 0]) \<and>
    Connection_handle g (c1, Reassembler_new [0, 0]) = (Inr EvLsdu, c2, into2) \<and> Reassembler_lsdu into2 = fr_information g"
    by (rule hdlc_overflow_then_partial_unit [where nr = 0 and pf = False and nr' = 0 and pf' = True]) (simp_all add: c_def f_def g_def Connection_new_def)
  moreover have "fr_segmented f" "fr_information f = [1, 2, 3]" "fr_information g = [4]" by (simp_all add: f_def g_def)
  ultimately show ?thesis by metis
qed

end
