(* ===== verification/Wrapper.thy ===== *)
theory Wrapper
  imports Codec
begin

text \<open>
  The TCP/UDP wrapper of \<^verbatim>\<open>src/src/transport/wrapper.rs\<close>: the eight-byte header, the wrapper PDU and
  the stream reassembler.
\<close>

definition VERSION :: u16 where
  "VERSION = 0x0001"

record Header =
  hd_version :: u16
  hd_source :: u16
  hd_destination :: u16
  hd_length :: u16

definition Header_new :: "u16 \<Rightarrow> u16 \<Rightarrow> u16 \<Rightarrow> Header" where
  "Header_new source destination len =
     \<lparr>hd_version = VERSION, hd_source = source, hd_destination = destination, hd_length = len\<rparr>"

definition Header_LEN :: nat where
  "Header_LEN = 8"

definition Header_encode :: "Header \<Rightarrow> (writer, unit) op" where
  "Header_encode h =
     try_bind (write_u16 (hd_version h)) (\<lambda>_.
     try_bind (write_u16 (hd_source h)) (\<lambda>_.
     try_bind (write_u16 (hd_destination h)) (\<lambda>_.
     write_u16 (hd_length h))))"

definition Header_decode :: "(Reader, Header) op" where
  "Header_decode =
     try_bind Reader_u16 (\<lambda>version.
     if version \<noteq> VERSION then rd_fail_back InvalidValue 2
     else try_bind Reader_u16 (\<lambda>source.
       try_bind Reader_u16 (\<lambda>destination.
       try_bind Reader_u16 (\<lambda>len.
       ok \<lparr>hd_version = version, hd_source = source, hd_destination = destination, hd_length = len\<rparr>))))"

record Wpdu =
  wp_header :: Header
  wp_apdu :: bytes

definition Wpdu_new :: "u16 \<Rightarrow> u16 \<Rightarrow> bytes \<Rightarrow> Wpdu result" where
  "Wpdu_new source destination apdu =
     (if length apdu < 2 ^ 16
      then Inr \<lparr>wp_header = Header_new source destination (of_nat (length apdu)), wp_apdu = apdu\<rparr>
      else Inl (Error_new InvalidLength 0))"

definition Wpdu_encode :: "Wpdu \<Rightarrow> (writer, unit) op" where
  "Wpdu_encode p = try_bind (Header_encode (wp_header p)) (\<lambda>_. write_bytes (wp_apdu p))"

definition Wpdu_encoded_len :: "Wpdu \<Rightarrow> nat" where
  "Wpdu_encoded_len p = Header_LEN + length (wp_apdu p)"

definition Wpdu_decode :: "(Reader, Wpdu) op" where
  "Wpdu_decode =
     try_bind Header_decode (\<lambda>h.
     try_bind (Reader_take (unat (hd_length h))) (\<lambda>apdu.
     ok \<lparr>wp_header = h, wp_apdu = apdu\<rparr>))"

text \<open>The reassembler holds only its bound; \<open>None\<close> is ``wait for more bytes''.\<close>

record StreamReassembler =
  sr_max_apdu :: u16

definition StreamReassembler_next_pdu :: "StreamReassembler \<Rightarrow> bytes \<Rightarrow> (Wpdu \<times> nat) option result" where
  "StreamReassembler_next_pdu s buf =
     (if length buf < Header_LEN then Inr None
      else case fst (Header_decode (Reader_new buf)) of
        Inl e \<Rightarrow> Inl e
      | Inr header \<Rightarrow>
          if sr_max_apdu s \<noteq> 0 \<and> hd_length header > sr_max_apdu s then Inl (Error_new InvalidLength 6)
          else let total = Header_LEN + unat (hd_length header) in
            if length buf < total then Inr None
            else Inr (Some (\<lparr>wp_header = header,
                             wp_apdu = take (total - Header_LEN) (drop Header_LEN buf)\<rparr>, total)))"

subsection \<open>The wrapper as a codec\<close>

definition header_valid :: "Header \<Rightarrow> bool" where
  "header_valid h \<longleftrightarrow> hd_version h = VERSION"

definition header_image :: "Header \<Rightarrow> bytes" where
  "header_image h = be_bytes 2 (hd_version h) @ be_bytes 2 (hd_source h) @
     be_bytes 2 (hd_destination h) @ be_bytes 2 (hd_length h)"

definition wpdu_valid :: "Wpdu \<Rightarrow> bool" where
  "wpdu_valid p \<longleftrightarrow> header_valid (wp_header p) \<and> unat (hd_length (wp_header p)) = length (wp_apdu p)"

definition wpdu_image :: "Wpdu \<Rightarrow> bytes" where
  "wpdu_image p = header_image (wp_header p) @ wp_apdu p"

lemma length_header_image [simp]: "length (header_image h) = 8"
  by (simp add: header_image_def)

interpretation header: codec_pair Header_encode header_image header_valid Header_decode
proof unfold_locales
  fix h
  show "writes (Header_encode h) (header_image h)"
    unfolding Header_encode_def header_image_def by (intro writes_seq writes_u16)
  assume v: "header_valid h"
  have "decodes (try_bind Reader_u16 (\<lambda>source. try_bind Reader_u16 (\<lambda>destination. try_bind Reader_u16 (\<lambda>len.
      ok \<lparr>hd_version = VERSION, hd_source = source, hd_destination = destination, hd_length = len\<rparr>))))
      (be_bytes 2 (hd_source h) @ be_bytes 2 (hd_destination h) @ be_bytes 2 (hd_length h)) h"
    using v by (intro decodes_bind [OF decodes_u16] decodes_last [OF decodes_u16])
      (cases h, simp add: header_valid_def)
  then show "decodes Header_decode (header_image h) h"
    unfolding Header_decode_def header_image_def
    by (intro decodes_bind [OF decodes_u16]) (use v in \<open>simp add: header_valid_def\<close>)
qed

interpretation wpdu: codec_pair Wpdu_encode wpdu_image wpdu_valid Wpdu_decode
proof unfold_locales
  fix p assume v: "wpdu_valid p"
  then have hv: "header_valid (wp_header p)" by (simp add: wpdu_valid_def)
  show "writes (Wpdu_encode p) (wpdu_image p)"
    unfolding Wpdu_encode_def wpdu_image_def by (intro writes_seq writes_bytes header.enc_writes hv)
  show "decodes Wpdu_decode (wpdu_image p) p"
    unfolding Wpdu_decode_def wpdu_image_def
    using v by (intro decodes_bind [OF header.dec_img [OF hv]] decodes_last [OF decodes_take_n])
      (cases p; simp add: wpdu_valid_def)+
qed

lemma safe_Header_decode [safe_intro]: "safe_dec n Header_decode"
  unfolding Header_decode_def by (rule safe_u16_bind, intro safe_intro) auto

lemma safe_Wpdu_decode: "safe_dec 0 Wpdu_decode"
  unfolding Wpdu_decode_def by (intro safe_intro)

interpretation wpdu_cursor: cursor_decoder Wpdu_decode
  by unfold_locales (rule safe_Wpdu_decode)

lemma Header_decode_image_append:
  assumes "header_valid h"
  shows "fst (Header_decode (Reader_new (header_image h @ rest))) = Inr h"
proof -
  have "Reader_rest (Reader_new (header_image h @ rest)) = header_image h @ rest"
    "rd_wf (Reader_new (header_image h @ rest))"
    by (simp_all add: Reader_rest_def Reader_new_def rd_wf_def)
  with header.dec_img [OF assms] show ?thesis
    unfolding decodes_def decodes_at_def by (metis fst_conv)
qed

text \<open>A complete PDU at the front of the buffer is found with exactly its own length.\<close>

lemma next_pdu_complete:
  assumes "wpdu_valid p" "sr_max_apdu s = 0 \<or> length (wp_apdu p) \<le> unat (sr_max_apdu s)"
  shows "StreamReassembler_next_pdu s (wpdu_image p @ rest) = Inr (Some (p, length (wpdu_image p)))"
proof -
  have len: "unat (hd_length (wp_header p)) = length (wp_apdu p)" "header_valid (wp_header p)"
    using assms(1) by (simp_all add: wpdu_valid_def)
  have dec: "fst (Header_decode (Reader_new (header_image (wp_header p) @ wp_apdu p @ rest))) = Inr (wp_header p)"
    by (rule Header_decode_image_append [OF len(2)])
  have "\<not> (sr_max_apdu s \<noteq> 0 \<and> hd_length (wp_header p) > sr_max_apdu s)"
    using assms(2) len by (auto simp: word_less_nat_alt)
  then show ?thesis
    using len dec by (simp add: StreamReassembler_next_pdu_def wpdu_image_def Header_LEN_def Let_def)
qed

text \<open>Every proper prefix of a PDU makes the reassembler wait.\<close>

lemma next_pdu_waits:
  assumes "wpdu_valid p" "sr_max_apdu s = 0 \<or> length (wp_apdu p) \<le> unat (sr_max_apdu s)"
    and "n < length (wpdu_image p)"
  shows "StreamReassembler_next_pdu s (take n (wpdu_image p)) = Inr None"
proof (cases "n < 8")
  case True
  then show ?thesis using assms(3) by (simp add: StreamReassembler_next_pdu_def Header_LEN_def)
next
  case False
  have len: "unat (hd_length (wp_header p)) = length (wp_apdu p)" "header_valid (wp_header p)"
    using assms(1) by (simp_all add: wpdu_valid_def)
  have eq: "take n (wpdu_image p) = header_image (wp_header p) @ take (n - 8) (wp_apdu p)"
    using False by (simp add: wpdu_image_def)
  have dec: "fst (Header_decode (Reader_new (take n (wpdu_image p)))) = Inr (wp_header p)"
    unfolding eq by (rule Header_decode_image_append [OF len(2)])
  have "\<not> (sr_max_apdu s \<noteq> 0 \<and> hd_length (wp_header p) > sr_max_apdu s)"
    using assms(2) len by (auto simp: word_less_nat_alt)
  with dec len False assms(3) show ?thesis
    by (simp add: StreamReassembler_next_pdu_def Header_LEN_def Let_def wpdu_image_def)
qed

subsection \<open>Properties of the wrapper\<close>

text \<open>The caller's loop: take PDUs off the front of the received bytes until none is complete.\<close>

function drain :: "StreamReassembler \<Rightarrow> bytes \<Rightarrow> (Wpdu list \<times> bytes) result" where
  "drain s buf =
     (case StreamReassembler_next_pdu s buf of
        Inl e \<Rightarrow> Inl e
      | Inr None \<Rightarrow> Inr ([], buf)
      | Inr (Some (p, used)) \<Rightarrow> res_bind (drain s (drop used buf)) (\<lambda>(ps, rest). Inr (p # ps, rest)))"
  by pat_completeness auto
termination
  by (relation "measure (\<lambda>(s, buf). length buf)")
    (auto simp: StreamReassembler_next_pdu_def Header_LEN_def Let_def split: if_splits sum.splits)

declare drain.simps [simp del]

text \<open>Wrapper PDUs sent back to back over a stream, with the last one cut anywhere, are returned one at
  a time, in order and unchanged; the bytes of the incomplete one are kept for the next read.\<close>

theorem wrapper_stream_reassembly:
  assumes "\<forall>p\<in>set (q # ps). wpdu_valid p \<and> (sr_max_apdu s = 0 \<or> length (wp_apdu p) \<le> unat (sr_max_apdu s))"
    and "n < length (wpdu_image q)"
  shows "drain s (concat (map wpdu_image ps) @ take n (wpdu_image q)) = Inr (ps, take n (wpdu_image q))"
  using assms
proof (induction ps)
  case Nil
  then show ?case by (subst drain.simps) (simp add: next_pdu_waits)
next
  case (Cons p ps)
  then have "drain s (concat (map wpdu_image ps) @ take n (wpdu_image q)) = Inr (ps, take n (wpdu_image q))"
    by simp
  moreover have "StreamReassembler_next_pdu s (concat (map wpdu_image (p # ps)) @ take n (wpdu_image q))
      = Inr (Some (p, length (wpdu_image p)))"
    using Cons.prems next_pdu_complete [of p s] by simp
  ultimately show ?case by (subst drain.simps) simp
qed

theorem wrapper_stream_reassembly_witness:
  "let p = \<lparr>wp_header = Header_new 0x10 1 3, wp_apdu = [0xC0, 0x01, 0x81]\<rparr> in
    drain \<lparr>sr_max_apdu = 1024\<rparr> (wpdu_image p @ wpdu_image p @ take 9 (wpdu_image p)) =
      Inr ([p, p], take 9 (wpdu_image p))"
  using wrapper_stream_reassembly [of "\<lparr>wp_header = Header_new 0x10 1 3, wp_apdu = [0xC0, 0x01, 0x81]\<rparr>"
      "[\<lparr>wp_header = Header_new 0x10 1 3, wp_apdu = [0xC0, 0x01, 0x81]\<rparr>,
        \<lparr>wp_header = Header_new 0x10 1 3, wp_apdu = [0xC0, 0x01, 0x81]\<rparr>]" "\<lparr>sr_max_apdu = 1024\<rparr>" 9]
  by (simp add: wpdu_valid_def header_valid_def Header_new_def wpdu_image_def)

lemma be_bytes_2_split: "2 + k \<le> length b \<Longrightarrow> \<exists>v :: u16. drop k b = be_bytes 2 v @ drop (2 + k) b"
proof (intro exI)
  assume "2 + k \<le> length b"
  then have "be_bytes 2 (be_word (take 2 (drop k b)) :: u16) = take 2 (drop k b)"
    using be_bytes_be_word [of "take 2 (drop k b)", where 'a = 16] by (simp add: min_absorb2)
  then show "drop k b = be_bytes 2 (be_word (take 2 (drop k b)) :: u16) @ drop (2 + k) b"
    using append_take_drop_id [of 2 "drop k b"] by simp
qed

lemma header_split: "8 \<le> length b \<Longrightarrow> \<exists>h. b = header_image h @ drop 8 b"
proof -
  assume len: "8 \<le> length b"
  obtain v s d l :: u16 where "drop 0 b = be_bytes 2 v @ drop 2 b" "drop 2 b = be_bytes 2 s @ drop 4 b"
    "drop 4 b = be_bytes 2 d @ drop 6 b" "drop 6 b = be_bytes 2 l @ drop 8 b"
    using be_bytes_2_split [of 0 b] be_bytes_2_split [of 2 b] be_bytes_2_split [of 4 b]
      be_bytes_2_split [of 6 b] len
    by (simp only: add_0_right numeral_plus_numeral) (auto simp: numeral_eq_Suc [symmetric])
  note vsdl = this
  have "b = header_image \<lparr>hd_version = v, hd_source = s, hd_destination = d, hd_length = l\<rparr> @ drop 8 b"
    unfolding header_image_def using vsdl by simp
  then show ?thesis ..
qed

lemma Header_decode_bad_version:
  assumes "hd_version h \<noteq> VERSION"
  shows "fst (Header_decode (Reader_new (header_image h @ rest))) = Inl (Error_new InvalidValue 0)"
proof -
  define r where "r = Reader_new (header_image h @ rest)"
  have "Reader_rest r = be_bytes 2 (hd_version h) @ drop 2 (header_image h @ rest)" "rd_wf r"
    by (simp_all add: r_def Reader_rest_def Reader_new_def rd_wf_def header_image_def)
  then have "Reader_u16 r = (Inr (hd_version h), rd_advance 2 r)"
    using decodes_u16 unfolding decodes_def decodes_at_def by (metis length_be_bytes)
  then show ?thesis
    using assms
    by (simp add: Header_decode_def try_bind_def rd_fail_back_def Reader_err_back_def flip: r_def)
      (simp add: r_def Reader_offset_def Reader_new_def)
qed

text \<open>Whatever bytes arrive, a PDU the reassembler returns is no longer than the configured bound and lies
  inside the buffer, and a header announcing more than the bound is refused before its body is awaited.\<close>

theorem wrapper_length_bounded:
  "(case StreamReassembler_next_pdu s buf of
      Inr (Some (p, used)) \<Rightarrow>
        used \<le> length buf \<and> used = Header_LEN + length (wp_apdu p) \<and>
        take used buf = wpdu_image p \<and>
        (sr_max_apdu s = 0 \<or> length (wp_apdu p) \<le> unat (sr_max_apdu s))
    | Inr None \<Rightarrow> length buf < Header_LEN + 2 ^ 16
    | Inl e \<Rightarrow> Header_LEN \<le> length buf \<and> e \<in> {Error_new InvalidValue 0, Error_new InvalidLength 6})"
proof (cases "8 \<le> length buf")
  case False
  then show ?thesis by (simp add: StreamReassembler_next_pdu_def Header_LEN_def)
next
  case True
  then obtain h where h: "buf = header_image h @ drop 8 buf" using header_split by blast
  show ?thesis
  proof (cases "hd_version h = VERSION")
    case False
    then have "fst (Header_decode (Reader_new buf)) = Inl (Error_new InvalidValue 0)"
      using Header_decode_bad_version [of h "drop 8 buf"] h by simp
    then show ?thesis using True by (simp add: StreamReassembler_next_pdu_def Header_LEN_def)
  next
    case vers: True
    then have "fst (Header_decode (Reader_new buf)) = Inr h"
      using Header_decode_image_append [of h "drop 8 buf"] h by (simp add: header_valid_def)
    moreover have "take (8 + n) buf = header_image h @ take n (drop 8 buf)" for n
      by (subst h) simp
    ultimately show ?thesis
      using True unat_bound [of "hd_length h"]
      by (auto simp: StreamReassembler_next_pdu_def Header_LEN_def Let_def wpdu_image_def word_less_nat_alt)
  qed
qed

end
