(* ===== verification/Gbt.thy ===== *)
theory Gbt
  imports Codec
begin

text \<open>
  General block transfer, \<^verbatim>\<open>src/src/xdlms/gbt.rs\<close>: the block APDU, the sending and the receiving machine.
  An output slice \<^verbatim>\<open>out: &mut [u8]\<close> is part of the state of the operation that fills it.
\<close>

datatype BlockControl = BlockControl u8

fun bc_byte :: "BlockControl \<Rightarrow> u8" where
  "bc_byte (BlockControl v) = v"

definition BlockControl_new :: "bool \<Rightarrow> bool \<Rightarrow> u8 \<Rightarrow> BlockControl" where
  "BlockControl_new last_block streaming window =
     (let v = window AND 0x3F;
          v = (if last_block then v OR 0x80 else v);
          v = (if streaming then v OR 0x40 else v)
      in BlockControl v)"

definition BlockControl_last_block :: "BlockControl \<Rightarrow> bool" where
  "BlockControl_last_block c \<longleftrightarrow> bc_byte c AND 0x80 \<noteq> 0"

definition BlockControl_streaming :: "BlockControl \<Rightarrow> bool" where
  "BlockControl_streaming c \<longleftrightarrow> bc_byte c AND 0x40 \<noteq> 0"

definition BlockControl_window :: "BlockControl \<Rightarrow> u8" where
  "BlockControl_window c = bc_byte c AND 0x3F"

record GeneralBlockTransfer =
  gb_control :: BlockControl
  gb_block_number :: u16
  gb_block_number_ack :: u16
  gb_block_data :: bytes

definition GeneralBlockTransfer_ack :: "u16 \<Rightarrow> u8 \<Rightarrow> GeneralBlockTransfer" where
  "GeneralBlockTransfer_ack block_number_ack window =
     \<lparr>gb_control = BlockControl_new False False window, gb_block_number = 0,
      gb_block_number_ack = block_number_ack, gb_block_data = []\<rparr>"

definition GeneralBlockTransfer_encode :: "GeneralBlockTransfer \<Rightarrow> (writer, unit) op" where
  "GeneralBlockTransfer_encode b =
     try_bind (write_u8 (bc_byte (gb_control b))) (\<lambda>_.
     try_bind (write_u16 (gb_block_number b)) (\<lambda>_.
     try_bind (write_u16 (gb_block_number_ack b)) (\<lambda>_.
     write_length_prefixed (gb_block_data b))))"

definition GeneralBlockTransfer_decode :: "(Reader, GeneralBlockTransfer) op" where
  "GeneralBlockTransfer_decode =
     try_bind Reader_u8 (\<lambda>c.
     try_bind Reader_u16 (\<lambda>n.
     try_bind Reader_u16 (\<lambda>a.
     try_bind Reader_length_prefixed (\<lambda>d.
     ok \<lparr>gb_control = BlockControl c, gb_block_number = n, gb_block_number_ack = a, gb_block_data = d\<rparr>))))"

definition GBT_WINDOW_MAX :: u8 where
  "GBT_WINDOW_MAX = 0x3F"

subsection \<open>The sender\<close>

record GbtSender =
  gs_apdu :: bytes
  gs_block :: u16
  gs_acked :: u16
  gs_fragment :: nat
  gs_window :: u8
  gs_streaming :: bool

definition GbtSender_new :: "bytes \<Rightarrow> nat \<Rightarrow> u8 \<Rightarrow> bool \<Rightarrow> GbtSender result" where
  "GbtSender_new apdu fragment window streaming =
     (if fragment = 0 then Inl (Error_new InvalidLength 0)
      else if max (div_ceil (length apdu) fragment) 1 \<ge> 2 ^ 16 then Inl (Error_new InvalidLength 0)
      else Inr \<lparr>gs_apdu = apdu, gs_block = 0, gs_acked = 0, gs_fragment = fragment,
                gs_window = (if streaming then max 1 (min window GBT_WINDOW_MAX) else 1),
                gs_streaming = streaming\<rparr>)"

definition GbtSender_blocks :: "GbtSender \<Rightarrow> u16" where
  "GbtSender_blocks s =
     (let n = div_ceil (length (gs_apdu s)) (gs_fragment s) in if n = 0 then 1 else of_nat n)"

definition GbtSender_is_done :: "GbtSender \<Rightarrow> bool" where
  "GbtSender_is_done s \<longleftrightarrow> gs_acked s \<ge> GbtSender_blocks s"

text \<open>The saturating operations on \<^verbatim>\<open>u16\<close>.\<close>

definition sat_sub :: "'a::len word \<Rightarrow> 'a word \<Rightarrow> 'a word" where
  "sat_sub a b = (if a < b then 0 else a - b)"

definition sat_inc :: "'a::len word \<Rightarrow> 'a word" where
  "sat_inc a = (if a = - 1 then a else a + 1)"

definition GbtSender_next_block :: "(GbtSender \<times> bytes, nat option) op" where
  "GbtSender_next_block = (\<lambda>(s, out).
     let total = GbtSender_blocks s in
     if gs_block s \<ge> total then (Inr None, s, out)
     else if sat_sub (gs_block s) (gs_acked s) \<ge> ucast (gs_window s) then (Inr None, s, out)
     else
       let number = sat_inc (gs_block s);
           start = unat (gs_block s) * gs_fragment s;
           end = min (start + gs_fragment s) (length (gs_apdu s));
           last = (number = total);
           frame = \<lparr>gb_control = BlockControl_new last (gs_streaming s) (gs_window s),
                    gb_block_number = number, gb_block_number_ack = 0,
                    gb_block_data = (case slice (gs_apdu s) start end of Some d \<Rightarrow> d | None \<Rightarrow> [])\<rparr>
       in case encode_into (GeneralBlockTransfer_encode frame) out of
            (Inl e, out') \<Rightarrow> (Inl e, s, out')
          | (Inr n, out') \<Rightarrow> (Inr (Some n), s\<lparr>gs_block := number\<rparr>, out'))"

definition GbtSender_acknowledge :: "u16 \<Rightarrow> (GbtSender, unit) op" where
  "GbtSender_acknowledge block_number_ack s =
     (if block_number_ack > gs_block s \<or> block_number_ack < gs_acked s
      then (Inl (Error_new UnexpectedMessage 0), s)
      else (Inr (), s\<lparr>gs_acked := block_number_ack, gs_block := block_number_ack\<rparr>))"

subsection \<open>The receiver\<close>

datatype GbtAction = Await | Acknowledge | Complete

record GbtReceiver =
  gr_buf :: bytes
  gr_len :: nat
  gr_received :: u16
  gr_since_ack :: u8
  gr_complete :: bool

definition GbtReceiver_new :: "bytes \<Rightarrow> GbtReceiver" where
  "GbtReceiver_new buf = \<lparr>gr_buf = buf, gr_len = 0, gr_received = 0, gr_since_ack = 0, gr_complete = False\<rparr>"

definition GbtReceiver_reset :: "GbtReceiver \<Rightarrow> GbtReceiver" where
  "GbtReceiver_reset r = r\<lparr>gr_len := 0, gr_received := 0, gr_since_ack := 0, gr_complete := False\<rparr>"

definition GbtReceiver_push :: "GeneralBlockTransfer \<Rightarrow> (GbtReceiver, GbtAction) op" where
  "GbtReceiver_push b r0 =
     (let r = (if gr_complete r0 then GbtReceiver_reset r0 else r0);
          expected = sat_inc (gr_received r)
      in if gb_block_number b \<noteq> expected then (Inr Acknowledge, r\<lparr>gr_since_ack := 0\<rparr>)
         else
           let end = gr_len r + length (gb_block_data b) in
           if end > length (gr_buf r)
           then (Inl (Error_new (BufferTooSmall (end - length (gr_buf r))) (gr_len r)), r)
           else
             let r = r\<lparr>gr_buf := overwrite (gr_buf r) (gr_len r) (gb_block_data b), gr_len := end,
                       gr_received := gb_block_number b, gr_since_ack := sat_inc (gr_since_ack r)\<rparr>
             in if BlockControl_last_block (gb_control b)
                then (Inr Complete, r\<lparr>gr_complete := True, gr_since_ack := 0\<rparr>)
                else
                  let window = (if BlockControl_streaming (gb_control b)
                                then max (BlockControl_window (gb_control b)) 1 else 1)
                  in if gr_since_ack r \<ge> window then (Inr Acknowledge, r\<lparr>gr_since_ack := 0\<rparr>)
                     else (Inr Await, r))"

definition GbtReceiver_acknowledged :: "GbtReceiver \<Rightarrow> u16" where
  "GbtReceiver_acknowledged r = gr_received r"

definition GbtReceiver_acknowledgement :: "u8 \<Rightarrow> GbtReceiver \<Rightarrow> bytes \<Rightarrow> nat result \<times> bytes" where
  "GbtReceiver_acknowledgement window r out =
     encode_into (GeneralBlockTransfer_encode (GeneralBlockTransfer_ack (gr_received r) window)) out"

definition GbtReceiver_apdu :: "GbtReceiver \<Rightarrow> bytes" where
  "GbtReceiver_apdu r =
     (if gr_complete r then (case slice (gr_buf r) 0 (gr_len r) of Some d \<Rightarrow> d | None \<Rightarrow> []) else [])"

subsection \<open>The block APDU as a codec\<close>

definition gbt_valid :: "GeneralBlockTransfer \<Rightarrow> bool" where
  "gbt_valid b \<longleftrightarrow> length (gb_block_data b) < 2 ^ 32"

definition gbt_image :: "GeneralBlockTransfer \<Rightarrow> bytes" where
  "gbt_image b = [bc_byte (gb_control b)] @ be_bytes 2 (gb_block_number b) @ be_bytes 2 (gb_block_number_ack b) @
     len_bytes (length (gb_block_data b)) @ gb_block_data b"

interpretation gbt: codec_pair GeneralBlockTransfer_encode gbt_image gbt_valid GeneralBlockTransfer_decode
proof unfold_locales
  fix b assume v: "gbt_valid b"
  show "writes (GeneralBlockTransfer_encode b) (gbt_image b)"
    unfolding GeneralBlockTransfer_encode_def gbt_image_def
    by (intro writes_seq writes_u8 writes_u16 writes_length_prefixed) (use v in \<open>simp add: gbt_valid_def\<close>)
  have c: "BlockControl (bc_byte (gb_control b)) = gb_control b" by (cases "gb_control b") simp
  show "decodes GeneralBlockTransfer_decode (gbt_image b) b"
    unfolding GeneralBlockTransfer_decode_def gbt_image_def
  proof (rule decodes_bind [OF decodes_u8], rule decodes_bind [OF decodes_u16],
      rule decodes_bind [OF decodes_u16], rule decodes_last [OF decodes_length_prefixed])
    show "length (gb_block_data b) < 2 ^ 32" using v by (simp add: gbt_valid_def)
    show "ok \<lparr>gb_control = BlockControl (bc_byte (gb_control b)), gb_block_number = gb_block_number b,
      gb_block_number_ack = gb_block_number_ack b, gb_block_data = gb_block_data b\<rparr> = ok b"
      by (subst c) (cases b, simp)
  qed
qed

lemma BlockControl_fields [simp]:
  "BlockControl_last_block (BlockControl_new l s w) = l"
  "BlockControl_streaming (BlockControl_new l s w) = s"
  "BlockControl_window (BlockControl_new l s w) = w AND 0x3F"
proof -
  have "(w AND 0x3F) AND 0x80 = 0" "(w AND 0x3F) AND 0x40 = 0" "(w AND 0x3F) AND 0x3F = w AND 0x3F"
    by (simp_all add: and.assoc)
  then show "BlockControl_last_block (BlockControl_new l s w) = l"
    "BlockControl_streaming (BlockControl_new l s w) = s" "BlockControl_window (BlockControl_new l s w) = w AND 0x3F"
    by (simp_all add: BlockControl_last_block_def BlockControl_streaming_def BlockControl_window_def
        BlockControl_new_def Let_def bit.conj_disj_distrib2)
qed

subsection \<open>What the sender emits\<close>

definition gbt_chunk :: "bytes \<Rightarrow> nat \<Rightarrow> nat \<Rightarrow> bytes" where
  "gbt_chunk apdu f k = take f (drop (k * f) apdu)"

text \<open>How many blocks an APDU takes, and the invariant of a sender for it.\<close>

definition gbt_total :: "bytes \<Rightarrow> nat \<Rightarrow> nat" where
  "gbt_total apdu f = max (div_ceil (length apdu) f) 1"

definition gs_inv :: "bytes \<Rightarrow> nat \<Rightarrow> GbtSender \<Rightarrow> bool" where
  "gs_inv apdu f s \<longleftrightarrow> gs_apdu s = apdu \<and> gs_fragment s = f \<and> 0 < f \<and> gbt_total apdu f < 2 ^ 16 \<and>
     gs_acked s \<le> gs_block s \<and> unat (gs_block s) \<le> gbt_total apdu f \<and>
     1 \<le> unat (gs_window s) \<and> unat (gs_window s) \<le> 63 \<and>
     unat (gs_block s) - unat (gs_acked s) \<le> unat (gs_window s)"

lemma div_ceil_bounds:
  assumes "0 < f"
  shows "n \<le> div_ceil n f * f" "k < div_ceil n f \<Longrightarrow> k * f < n" "div_ceil n f = 0 \<longleftrightarrow> n = 0"
proof -
  have eq: "div_ceil n f * f + (n + f - 1) mod f = n + f - 1" by (simp add: div_ceil_def)
  moreover have "(n + f - 1) mod f < f" using assms by simp
  ultimately show le: "n \<le> div_ceil n f * f" by linarith
  show "k * f < n" if "k < div_ceil n f"
  proof -
    have "(k + 1) * f \<le> div_ceil n f * f" using that by (intro mult_right_mono) auto
    then have "k * f + f \<le> n + f - 1" using eq by simp
    with assms show ?thesis by linarith
  qed
  show "div_ceil n f = 0 \<longleftrightarrow> n = 0"
    using le assms by (auto simp: div_ceil_def)
qed

lemma gbt_total_covers: "0 < f \<Longrightarrow> length apdu \<le> gbt_total apdu f * f"
  using div_ceil_bounds(1) [of f "length apdu"]
  by (rule order.trans) (auto simp: gbt_total_def intro: mult_right_mono)

lemma blocks_total:
  assumes "gs_inv apdu f s"
  shows "unat (GbtSender_blocks s) = gbt_total apdu f"
  using assms by (auto simp: gs_inv_def GbtSender_blocks_def gbt_total_def Let_def unat_of_nat max_def split: if_splits)

lemma gs_inv_new:
  "GbtSender_new apdu f w st = Inr s \<Longrightarrow> gs_inv apdu f s \<and> gs_block s = 0 \<and> gs_acked s = 0"
  by (auto simp: GbtSender_new_def gs_inv_def gbt_total_def GBT_WINDOW_MAX_def max_def min_def
      word_le_nat_alt word_less_nat_alt split: if_splits)

lemma unat_sat_inc: "unat (a :: 'a::len word) + 1 < 2 ^ LENGTH('a) \<Longrightarrow> unat (sat_inc a) = unat a + 1"
proof -
  assume lt: "unat a + 1 < 2 ^ LENGTH('a)"
  then have "a \<noteq> - 1" by (auto simp: unsigned_minus_1_eq_mask mask_eq_exp_minus_1)
  with lt show ?thesis by (simp add: sat_inc_def unat_word_ariths)
qed

text \<open>The frame that carries block \<open>k + 1\<close>.\<close>

definition gbt_frame :: "GbtSender \<Rightarrow> nat \<Rightarrow> GeneralBlockTransfer" where
  "gbt_frame s k = \<lparr>gb_control = BlockControl_new (Suc k = gbt_total (gs_apdu s) (gs_fragment s)) (gs_streaming s) (gs_window s),
     gb_block_number = of_nat (Suc k), gb_block_number_ack = 0,
     gb_block_data = gbt_chunk (gs_apdu s) (gs_fragment s) k\<rparr>"

lemma slice_chunk:
  assumes "0 < f" "k < gbt_total apdu f"
  shows "slice apdu (k * f) (min (k * f + f) (length apdu)) = Some (gbt_chunk apdu f k)"
proof -
  have "k * f \<le> length apdu"
    using assms div_ceil_bounds(2) [of f k "length apdu"] by (cases k) (auto simp: gbt_total_def max_def split: if_splits)
  then show ?thesis by (auto simp: slice_def gbt_chunk_def min_def)
qed

lemma unat_block_number: "k < gbt_total apdu f \<Longrightarrow> gbt_total apdu f < 2 ^ 16 \<Longrightarrow> unat (of_nat (Suc k) :: u16) = Suc k"
  by (simp add: unat_of_nat del: of_nat_Suc)

lemma next_block_eq:
  assumes inv: "gs_inv apdu f s"
  defines "k \<equiv> unat (gs_block s)"
  shows "GbtSender_next_block (s, out) =
    (if k = gbt_total apdu f \<or> k - unat (gs_acked s) = unat (gs_window s) then (Inr None, s, out)
     else case encode_into (GeneralBlockTransfer_encode (gbt_frame s k)) out of
            (Inl e, out') \<Rightarrow> (Inl e, s, out')
          | (Inr n, out') \<Rightarrow> (Inr (Some n), s\<lparr>gs_block := of_nat (Suc k)\<rparr>, out'))"
proof -
  note tot = blocks_total [OF inv]
  have g1: "GbtSender_blocks s \<le> gs_block s \<longleftrightarrow> k = gbt_total apdu f"
    using inv tot by (auto simp: word_le_nat_alt gs_inv_def k_def)
  have "unat (sat_sub (gs_block s) (gs_acked s)) = k - unat (gs_acked s)"
    using inv unat_sub [of "gs_acked s" "gs_block s"] by (auto simp: sat_sub_def gs_inv_def k_def)
  moreover have "unat (ucast (gs_window s) :: u16) = unat (gs_window s)"
    by (simp add: unsigned_ucast_eq take_bit_eq_mod mod_less [OF less_trans [OF unat_u8_less]])
  ultimately have g2: "(ucast (gs_window s) \<le> sat_sub (gs_block s) (gs_acked s)) \<longleftrightarrow> k - unat (gs_acked s) = unat (gs_window s)"
    using inv by (auto simp: word_le_nat_alt gs_inv_def k_def)
  show ?thesis
  proof (cases "k = gbt_total apdu f \<or> k - unat (gs_acked s) = unat (gs_window s)")
    case True
    then show ?thesis by (auto simp: GbtSender_next_block_def Let_def g1 g2)
  next
    case False
    then have lt: "k < gbt_total apdu f" and small: "gbt_total apdu f < 2 ^ 16" and f: "0 < f"
      and eqs: "gs_apdu s = apdu" "gs_fragment s = f"
      using inv by (auto simp: gs_inv_def k_def)
    have "unat (sat_inc (gs_block s)) = Suc k"
      using lt small unat_sat_inc [of "gs_block s"] by (simp add: k_def)
    then have num: "sat_inc (gs_block s) = of_nat (Suc k)"
      using unat_block_number [OF lt small] by (simp only: word_unat_eq_iff)
    have last: "(of_nat (Suc k) = GbtSender_blocks s) \<longleftrightarrow> Suc k = gbt_total apdu f"
      using unat_block_number [OF lt small] tot by (simp only: word_unat_eq_iff)
    from False slice_chunk [OF f lt] show ?thesis
      by (simp only: GbtSender_next_block_def Let_def g1 g2 num last prod.case if_False eqs option.case gbt_frame_def
          flip: k_def) simp
  qed
qed

lemma next_block_cases:
  assumes inv: "gs_inv apdu f s" and run: "GbtSender_next_block (s, out) = (res, s', out')"
    and small: "length apdu < 2 ^ 32"
  obtains (waiting) "res = Inr None" "s' = s" "out' = out"
      "unat (gs_block s) = gbt_total apdu f \<or> unat (gs_block s) - unat (gs_acked s) = unat (gs_window s)"
  | (emitted) "unat (gs_block s) < gbt_total apdu f" "unat (gs_block s) - unat (gs_acked s) < unat (gs_window s)"
      "res = Inr (Some (length (gbt_image (gbt_frame s (unat (gs_block s))))))"
      "s' = s\<lparr>gs_block := of_nat (Suc (unat (gs_block s)))\<rparr>"
      "take (length (gbt_image (gbt_frame s (unat (gs_block s))))) out' = gbt_image (gbt_frame s (unat (gs_block s)))"
      "length out' = length out"
  | (full) e where "length out < length (gbt_image (gbt_frame s (unat (gs_block s))))" "res = Inl e" "s' = s" "length out' = length out"
proof (cases "unat (gs_block s) = gbt_total apdu f \<or> unat (gs_block s) - unat (gs_acked s) = unat (gs_window s)")
  case True
  then show thesis using waiting run by (simp add: next_block_eq [OF inv])
next
  case False
  define b where "b = gbt_frame s (unat (gs_block s))"
  have v: "gbt_valid b"
    using inv small by (auto simp: b_def gbt_valid_def gbt_frame_def gbt_chunk_def gs_inv_def min_def)
  have lt: "unat (gs_block s) < gbt_total apdu f" "unat (gs_block s) - unat (gs_acked s) < unat (gs_window s)"
    using False inv by (auto simp: gs_inv_def)
  show thesis
  proof (cases "length (gbt_image b) \<le> length out")
    case True
    then show thesis
      using False run lt gbt.enc_into_fits [OF v True] by (intro emitted) (auto simp: next_block_eq [OF inv] b_def)
  next
    case out: False
    obtain n off w where w: "encode_into (GeneralBlockTransfer_encode b) out = (Inl (Error_new (BufferTooSmall n) off), w)"
      "length w = length out"
      using gbt.enc_into_full [OF v, of out] out by auto
    then show thesis using False out run by (intro full) (auto simp: next_block_eq [OF inv] b_def)
  qed
qed

subsection \<open>What the receiver holds\<close>

text \<open>The receiver holds the blocks \<open>1\<close> to \<open>gr_received\<close> of one APDU, and is complete when that is all of them.\<close>

definition gr_inv :: "bytes \<Rightarrow> nat \<Rightarrow> GbtReceiver \<Rightarrow> bool" where
  "gr_inv apdu f r \<longleftrightarrow> unat (gr_received r) \<le> gbt_total apdu f \<and>
     gr_len r = min (unat (gr_received r) * f) (length apdu) \<and> gr_len r \<le> length (gr_buf r) \<and>
     take (gr_len r) (gr_buf r) = take (unat (gr_received r) * f) apdu \<and>
     (gr_complete r \<longleftrightarrow> unat (gr_received r) = gbt_total apdu f)"

lemma gbt_total_pos [simp]: "0 < gbt_total apdu f" "gbt_total apdu f \<noteq> 0"
  by (simp_all add: gbt_total_def)

lemma gr_inv_new: "gr_inv apdu f (GbtReceiver_new buf)"
  by (simp add: gr_inv_def GbtReceiver_new_def)

lemma gr_inv_reset: "gr_inv apdu f (GbtReceiver_reset r)"
  by (simp add: gr_inv_def GbtReceiver_reset_def)

lemma gr_inv_since_ack [simp]: "gr_inv apdu f (r\<lparr>gr_since_ack := n\<rparr>) = gr_inv apdu f r"
  by (simp add: gr_inv_def)

lemma gr_inv_apdu:
  assumes "gr_inv apdu f r" "0 < f"
  shows "GbtReceiver_apdu r = (if gr_complete r then apdu else [])"
proof -
  have "take (gbt_total apdu f * f) apdu = apdu" using gbt_total_covers [OF assms(2), of apdu] by simp
  with assms show ?thesis by (auto simp: GbtReceiver_apdu_def gr_inv_def slice_def)
qed

lemma take_chunk: "take (k * f) apdu @ gbt_chunk apdu f k = take (Suc k * f) apdu"
  by (simp add: gbt_chunk_def add.commute [of f] flip: take_add)

lemma length_chunk: "length (gbt_chunk apdu f k) = min (Suc k * f) (length apdu) - min (k * f) (length apdu)"
  by (auto simp: gbt_chunk_def min_def)

text \<open>Accepting the block that is due, on a receiver that is not complete.\<close>

definition gr_store :: "bytes \<Rightarrow> nat \<Rightarrow> nat \<Rightarrow> GbtReceiver \<Rightarrow> GbtReceiver" where
  "gr_store apdu f k r = r\<lparr>gr_buf := overwrite (gr_buf r) (gr_len r) (gbt_chunk apdu f k),
     gr_len := min (Suc k * f) (length apdu), gr_received := of_nat (Suc k), gr_complete := (Suc k = gbt_total apdu f)\<rparr>"

lemma push_due:
  assumes inv: "gr_inv apdu f r" "unat (gr_received r) = k" and k: "k < gbt_total apdu f" "gbt_total apdu f < 2 ^ 16"
    and s: "gs_apdu s = apdu" "gs_fragment s = f" and fits: "min (Suc k * f) (length apdu) \<le> length (gr_buf r)"
  shows "GbtReceiver_push (gbt_frame s k) r =
    (if Suc k = gbt_total apdu f then (Inr Complete, (gr_store apdu f k r)\<lparr>gr_since_ack := 0\<rparr>)
     else if (if gs_streaming s then max (gs_window s AND 0x3F) 1 else 1) \<le> sat_inc (gr_since_ack r)
     then (Inr Acknowledge, (gr_store apdu f k r)\<lparr>gr_since_ack := 0\<rparr>)
     else (Inr Await, (gr_store apdu f k r)\<lparr>gr_since_ack := sat_inc (gr_since_ack r)\<rparr>))"
proof -
  have "unat (sat_inc (gr_received r)) = Suc k"
    using unat_sat_inc [of "gr_received r"] inv(2) k by simp
  then have due: "sat_inc (gr_received r) = of_nat (Suc k)"
    using unat_block_number [OF k] by (simp only: word_unat_eq_iff)
  have len: "gr_len r + length (gbt_chunk apdu f k) = min (Suc k * f) (length apdu)"
    using inv by (auto simp: gr_inv_def length_chunk min_def)
  have nc: "\<not> gr_complete r" using inv k by (auto simp: gr_inv_def)
  show ?thesis
    using fits nc unfolding GbtReceiver_push_def Let_def gr_store_def
    by (simp add: due gbt_frame_def s len not_less [symmetric] del: max.bounded_iff min_less_iff_conj mult_Suc of_nat_Suc)
qed

lemma gr_store_inv:
  assumes inv: "gr_inv apdu f r" "unat (gr_received r) = k" and k: "k < gbt_total apdu f" "gbt_total apdu f < 2 ^ 16"
    and fits: "min (Suc k * f) (length apdu) \<le> length (gr_buf r)"
  shows "gr_inv apdu f (gr_store apdu f k r)"
proof -
  have len: "gr_len r + length (gbt_chunk apdu f k) = min (Suc k * f) (length apdu)"
    and held: "take (gr_len r) (gr_buf r) = take (k * f) apdu" "gr_len r \<le> length (gr_buf r)"
    using inv by (auto simp: gr_inv_def length_chunk min_def)
  have "take (min (Suc k * f) (length apdu)) (overwrite (gr_buf r) (gr_len r) (gbt_chunk apdu f k)) = take (Suc k * f) apdu"
    unfolding len [symmetric] take_overwrite_upto [OF held(2)] held(1) take_chunk ..
  then show ?thesis
    using k fits len unat_block_number [OF k] by (simp add: gr_inv_def gr_store_def del: of_nat_Suc mult_Suc)
qed

lemma gr_store_received [simp]: "gr_received (gr_store apdu f k r) = of_nat (Suc k)" "gr_complete (gr_store apdu f k r) \<longleftrightarrow> Suc k = gbt_total apdu f"
  by (simp_all add: gr_store_def)

lemma push_out_of_order:
  assumes "gr_inv apdu f r" "\<not> gr_complete r" "unat (gr_received r) \<noteq> k" "k < gbt_total apdu f" "gbt_total apdu f < 2 ^ 16"
  shows "GbtReceiver_push (gbt_frame s k) r = (Inr Acknowledge, r\<lparr>gr_since_ack := 0\<rparr>)"
proof -
  have "unat (gr_received r) < gbt_total apdu f" using assms by (auto simp: gr_inv_def)
  then have "unat (sat_inc (gr_received r)) = Suc (unat (gr_received r))"
    using unat_sat_inc [of "gr_received r"] assms by simp
  moreover have "unat (of_nat (Suc k) :: u16) = Suc k" using assms by (intro unat_block_number)
  ultimately have "sat_inc (gr_received r) \<noteq> of_nat (Suc k)" using assms(3) by (metis Suc_inject)
  then show ?thesis using assms(2) by (simp add: GbtReceiver_push_def Let_def gbt_frame_def)
qed

lemma push_complete: "gr_complete r \<Longrightarrow> GbtReceiver_push b r = GbtReceiver_push b (GbtReceiver_reset r)"
  by (simp add: GbtReceiver_push_def GbtReceiver_reset_def)

lemma push_full:
  assumes inv: "gr_inv apdu f r" "\<not> gr_complete r" "unat (gr_received r) = k" and k: "k < gbt_total apdu f" "gbt_total apdu f < 2 ^ 16"
    and s: "gs_apdu s = apdu" "gs_fragment s = f" and full: "length (gr_buf r) < min (Suc k * f) (length apdu)"
  shows "\<exists>n. GbtReceiver_push (gbt_frame s k) r = (Inl (Error_new (BufferTooSmall n) (gr_len r)), r)"
proof -
  have "unat (sat_inc (gr_received r)) = Suc k"
    using unat_sat_inc [of "gr_received r"] inv k by simp
  then have due: "sat_inc (gr_received r) = of_nat (Suc k)"
    using unat_block_number [OF k] by (simp only: word_unat_eq_iff)
  have len: "gr_len r + length (gbt_chunk apdu f k) = min (Suc k * f) (length apdu)"
    using inv by (auto simp: gr_inv_def length_chunk min_def)
  show ?thesis
    using full inv unfolding GbtReceiver_push_def Let_def by (simp add: due gbt_frame_def s len not_less)
qed

text \<open>Any block of the transfer, in any order, keeps the invariant, and completes only with the last one.\<close>

lemma push_frame:
  assumes inv: "gr_inv apdu f r" and k: "k < gbt_total apdu f" "gbt_total apdu f < 2 ^ 16"
    and s: "gs_apdu s = apdu" "gs_fragment s = f" and run: "GbtReceiver_push (gbt_frame s k) r = (res, r')"
  shows "gr_inv apdu f r' \<and> (gr_complete r' \<longleftrightarrow> res = Inr Complete) \<and>
    (gr_received r' = 0 \<or> gr_received r' = gr_received r \<or> gr_received r' = of_nat (Suc k))"
proof -
  define q where "q = (if gr_complete r then GbtReceiver_reset r else r)"
  have q: "gr_inv apdu f q" "\<not> gr_complete q" "gr_received q = 0 \<or> gr_received q = gr_received r"
    using inv gr_inv_reset [of apdu f r] by (simp_all add: q_def) (simp_all add: GbtReceiver_reset_def)
  have run: "GbtReceiver_push (gbt_frame s k) q = (res, r')"
    using run push_complete [of r] by (auto simp: q_def)
  consider (other) "unat (gr_received q) \<noteq> k" | (full) "unat (gr_received q) = k" "length (gr_buf q) < min (Suc k * f) (length apdu)"
    | (due) "unat (gr_received q) = k" "min (Suc k * f) (length apdu) \<le> length (gr_buf q)" by linarith
  then show ?thesis
  proof cases
    case other
    then show ?thesis using q push_out_of_order [OF q(1,2) other k, of s] run by auto
  next
    case full
    then show ?thesis using q push_full [OF q(1,2) full(1) k s full(2)] run by auto
  next
    case due
    from run gr_store_inv [OF q(1) due(1) k due(2)] show ?thesis
      by (auto simp: push_due [OF q(1) due(1) k s due(2)] simp del: of_nat_Suc split: if_splits)
  qed
qed

subsection \<open>A transfer over an unreliable link\<close>

text \<open>
  Sender and receiver joined by a link that may lose, repeat, delay and reorder: \<open>gn_wire\<close> holds every
  block the sender ever emitted and \<open>gn_acks\<close> every acknowledgement the receiver ever sent, and a step
  may deliver any of them at any time.  \<open>gn_actions\<close> is the history of what \<^verbatim>\<open>push\<close> returned.
\<close>

record gbt_net =
  gn_sender :: GbtSender
  gn_receiver :: GbtReceiver
  gn_wire :: "GeneralBlockTransfer list"
  gn_acks :: "u16 list"
  gn_actions :: "GbtAction list"

inductive gbt_step :: "gbt_net \<Rightarrow> gbt_net \<Rightarrow> bool" where
  emit: "GbtSender_next_block (gn_sender n, out) = (Inr (Some len), s', out') \<Longrightarrow>
    from_bytes GeneralBlockTransfer_decode (take len out') = Inr b \<Longrightarrow>
    gbt_step n (n\<lparr>gn_sender := s', gn_wire := b # gn_wire n\<rparr>)"
| deliver: "b \<in> set (gn_wire n) \<Longrightarrow> GbtReceiver_push b (gn_receiver n) = (res, r') \<Longrightarrow>
    gbt_step n (n\<lparr>gn_receiver := r', gn_actions := (case res of Inr a \<Rightarrow> [a] | Inl _ \<Rightarrow> []) @ gn_actions n\<rparr>)"
| reply: "GbtReceiver_acknowledgement window (gn_receiver n) out = (Inr len, out') \<Longrightarrow>
    from_bytes GeneralBlockTransfer_decode (take len out') = Inr b \<Longrightarrow>
    gbt_step n (n\<lparr>gn_acks := gb_block_number_ack b # gn_acks n\<rparr>)"
| ack: "a \<in> set (gn_acks n) \<Longrightarrow> GbtSender_acknowledge a (gn_sender n) = (res, s') \<Longrightarrow>
    gbt_step n (n\<lparr>gn_sender := s'\<rparr>)"

inductive_cases gbt_stepE: "gbt_step n n'"

definition gbt_init :: "GbtSender \<Rightarrow> bytes \<Rightarrow> gbt_net" where
  "gbt_init s buf = \<lparr>gn_sender = s, gn_receiver = GbtReceiver_new buf, gn_wire = [], gn_acks = [], gn_actions = []\<rparr>"

definition gbt_inv :: "bytes \<Rightarrow> nat \<Rightarrow> gbt_net \<Rightarrow> bool" where
  "gbt_inv apdu f n \<longleftrightarrow> gs_inv apdu f (gn_sender n) \<and> gr_inv apdu f (gn_receiver n) \<and>
     (\<forall>b\<in>set (gn_wire n). \<exists>k<gbt_total apdu f. b = gbt_frame (gn_sender n) k) \<and>
     (\<forall>a. a = gs_acked (gn_sender n) \<or> a = gr_received (gn_receiver n) \<or> a \<in> set (gn_acks n) \<longrightarrow>
        unat a = gbt_total apdu f \<longrightarrow> Complete \<in> set (gn_actions n))"

lemma gbt_frame_cursor [simp]: "gbt_frame (s\<lparr>gs_block := b\<rparr>) = gbt_frame s" "gbt_frame (s\<lparr>gs_acked := a\<rparr>) = gbt_frame s"
  by (simp_all add: fun_eq_iff gbt_frame_def)

lemma acknowledgement_bytes:
  assumes "GbtReceiver_acknowledgement w r out = (Inr len, out')"
  shows "from_bytes GeneralBlockTransfer_decode (take len out') = Inr (GeneralBlockTransfer_ack (gr_received r) w)"
proof -
  define b where "b = GeneralBlockTransfer_ack (gr_received r) w"
  have v: "gbt_valid b" by (simp add: b_def gbt_valid_def GeneralBlockTransfer_ack_def)
  have "take len out' = gbt_image b"
    using encode_into_InrD [OF gbt.enc_writes [OF v]] assms by (simp add: GbtReceiver_acknowledgement_def b_def)
  then show ?thesis using decodes_from_bytes [OF gbt.dec_img [OF v]] by (simp add: b_def)
qed

text \<open>What the peer decodes is the frame of the block that was due.\<close>

lemma next_block_emits:
  assumes inv: "gs_inv apdu f s" and run: "GbtSender_next_block (s, out) = (Inr (Some len), s', out')"
    and small: "length apdu < 2 ^ 32"
  shows "unat (gs_block s) < gbt_total apdu f \<and> s' = s\<lparr>gs_block := of_nat (Suc (unat (gs_block s)))\<rparr> \<and> gs_inv apdu f s' \<and>
    from_bytes GeneralBlockTransfer_decode (take len out') = Inr (gbt_frame s (unat (gs_block s)))"
  using inv run small
proof (cases rule: next_block_cases)
  case emitted
  have v: "gbt_valid (gbt_frame s (unat (gs_block s)))"
    using inv small by (auto simp: gbt_valid_def gbt_frame_def gbt_chunk_def gs_inv_def min_def)
  have num: "unat (of_nat (Suc (unat (gs_block s))) :: u16) = Suc (unat (gs_block s))"
    using inv emitted(1) unat_block_number [of "unat (gs_block s)" apdu f] by (simp add: gs_inv_def)
  have "gs_inv apdu f s'"
    using inv emitted(1,2) num unfolding emitted(4) gs_inv_def by (auto simp: word_le_nat_alt simp del: of_nat_Suc)
  with emitted decodes_from_bytes [OF gbt.dec_img [OF v]] show ?thesis by simp
qed auto

lemma acknowledge_inv:
  assumes "gs_inv apdu f s" "GbtSender_acknowledge a s = (res, s')"
  shows "gs_inv apdu f s'" "gbt_frame s' = gbt_frame s" "gs_acked s' = gs_acked s \<or> gs_acked s' = a"
  using assms by (auto simp: GbtSender_acknowledge_def gs_inv_def word_le_nat_alt word_less_nat_alt split: if_splits)

lemma gbt_step_inv:
  assumes inv: "gbt_inv apdu f n" and step: "gbt_step n n'" and small: "length apdu < 2 ^ 32"
  shows "gbt_inv apdu f n'"
proof -
  have gs: "gs_inv apdu f (gn_sender n)" and gr: "gr_inv apdu f (gn_receiver n)" using inv by (auto simp: gbt_inv_def)
  from step show ?thesis
  proof cases
    case (emit out len s' out' b)
    from next_block_emits [OF gs emit(2) small] emit inv show ?thesis by (auto simp: gbt_inv_def)
  next
    case (deliver b res r')
    then obtain k where k: "k < gbt_total apdu f" "b = gbt_frame (gn_sender n) k" using inv by (auto simp: gbt_inv_def)
    have "gbt_total apdu f < 2 ^ 16" "gs_apdu (gn_sender n) = apdu" "gs_fragment (gn_sender n) = f"
      using gs by (auto simp: gs_inv_def)
    from push_frame [OF gr k(1) this deliver(3) [unfolded k(2)]]
    have "gr_inv apdu f r'" "gr_complete r' \<longleftrightarrow> res = Inr Complete" by auto
    then have "unat (gr_received r') = gbt_total apdu f \<Longrightarrow> res = Inr Complete" by (auto simp: gr_inv_def)
    then show ?thesis using inv \<open>gr_inv apdu f r'\<close> deliver(1) by (auto simp: gbt_inv_def split: sum.splits)
  next
    case (reply window out len out' b)
    from acknowledgement_bytes [OF reply(2)] reply(3) have "gb_block_number_ack b = gr_received (gn_receiver n)"
      by (simp add: GeneralBlockTransfer_ack_def)
    then show ?thesis using inv reply(1) by (auto simp: gbt_inv_def)
  next
    case (ack a res s')
    from acknowledge_inv [OF gs ack(3)] ack(1,2) inv show ?thesis by (auto simp: gbt_inv_def)
  qed
qed

lemma gbt_reach_inv:
  assumes "GbtSender_new apdu f w st = Inr s" "length apdu < 2 ^ 32" "gbt_step\<^sup>*\<^sup>* (gbt_init s buf) n"
  shows "gbt_inv apdu f n"
  using assms(3)
proof induction
  case base
  then show ?case using gs_inv_new [OF assms(1)] gr_inv_new [of apdu f buf]
    by (auto simp: gbt_inv_def gbt_init_def GbtReceiver_new_def)
qed (use assms(2) gbt_step_inv in blast)

text \<open>C2: Over a link that may lose, repeat, delay and reorder blocks and acknowledgements, the receiver never
  hands out anything but the whole APDU the sender was given, and the sender considers the transfer done
  only after the receiver has reported it complete.\<close>

theorem gbt_safety:
  assumes "GbtSender_new apdu f w st = Inr s" "length apdu < 2 ^ 32" "gbt_step\<^sup>*\<^sup>* (gbt_init s buf) n"
  shows "GbtReceiver_apdu (gn_receiver n) = (if gr_complete (gn_receiver n) then apdu else []) \<and>
    (GbtSender_is_done (gn_sender n) \<longrightarrow> Complete \<in> set (gn_actions n))"
proof -
  have inv: "gbt_inv apdu f n" by (rule gbt_reach_inv [OF assms])
  then have gs: "gs_inv apdu f (gn_sender n)" by (simp add: gbt_inv_def)
  have "unat (gs_acked (gn_sender n)) = gbt_total apdu f" if "GbtSender_is_done (gn_sender n)"
    using that gs blocks_total [OF gs] by (auto simp: GbtSender_is_done_def word_le_nat_alt gs_inv_def)
  then show ?thesis
    using inv gs gr_inv_apdu [of apdu f "gn_receiver n"] by (auto simp: gbt_inv_def gs_inv_def)
qed

subsection \<open>A transfer over a reliable link\<close>

text \<open>
  The exchange the module describes: the sender emits, the receiver pushes, and an acknowledgement goes
  back when \<^verbatim>\<open>push\<close> asks for one.  \<open>None\<close> is running out of fuel, a failed operation, or a sender that stalls.
\<close>

fun gbt_run :: "nat \<Rightarrow> bytes \<Rightarrow> GbtSender \<Rightarrow> GbtReceiver \<Rightarrow> (GbtSender \<times> GbtReceiver) option" where
  "gbt_run 0 out s r = None"
| "gbt_run (Suc fuel) out s r =
     (case GbtSender_next_block (s, out) of
        (Inr (Some len), s', out') \<Rightarrow>
          (case from_bytes GeneralBlockTransfer_decode (take len out') of
             Inr b \<Rightarrow>
               (case GbtReceiver_push b r of
                  (Inr Await, r') \<Rightarrow> gbt_run fuel out' s' r'
                | (Inr act, r') \<Rightarrow>
                    (case GbtSender_acknowledge (GbtReceiver_acknowledged r') s' of
                       (Inr _, s'') \<Rightarrow> if act = Complete then Some (s'', r') else gbt_run fuel out' s'' r'
                     | (Inl _, _) \<Rightarrow> None)
                | (Inl _, _) \<Rightarrow> None)
           | Inl _ \<Rightarrow> None)
      | _ \<Rightarrow> None)"

text \<open>In step: both ends count the same blocks, and those since the last acknowledgement are less than the window.\<close>

definition gbt_sync :: "bytes \<Rightarrow> nat \<Rightarrow> GbtSender \<Rightarrow> GbtReceiver \<Rightarrow> bool" where
  "gbt_sync apdu f s r \<longleftrightarrow> gs_inv apdu f s \<and> gr_inv apdu f r \<and> (\<not> gs_streaming s \<longrightarrow> gs_window s = 1) \<and>
     gr_received r = gs_block s \<and> \<not> gr_complete r \<and>
     unat (gr_since_ack r) = unat (gs_block s) - unat (gs_acked s) \<and> gr_since_ack r < gs_window s"

lemma window_and_mask: "unat (w :: u8) \<le> 63 \<Longrightarrow> w AND 0x3F = w"
proof -
  assume "unat w \<le> 63"
  then have "take_bit 6 (unat w) = unat w" by (simp add: take_bit_nat_eq_self_iff)
  then have "unat (w AND 0x3F) = unat w"
    by (simp add: unsigned_and_eq take_bit_eq_mask mask_eq_exp_minus_1)
  then show ?thesis by (simp only: word_unat_eq_iff)
qed

lemma length_gbt_image:
  assumes "length (gb_block_data b) < 2 ^ 32"
  shows "length (gbt_image b) \<le> length (gb_block_data b) + 10"
  using length_len_bytes [OF assms, of 4] assms by (simp add: gbt_image_def)

lemma sync_emits:
  assumes sync: "gbt_sync apdu f s r" and small: "length apdu < 2 ^ 32" and room: "f + 10 \<le> length out"
  defines "k \<equiv> unat (gs_block s)"
  obtains len out' where "GbtSender_next_block (s, out) = (Inr (Some len), s\<lparr>gs_block := of_nat (Suc k)\<rparr>, out')"
    "from_bytes GeneralBlockTransfer_decode (take len out') = Inr (gbt_frame s k)" "length out' = length out"
    "k < gbt_total apdu f" "gs_inv apdu f (s\<lparr>gs_block := of_nat (Suc k)\<rparr>)"
proof -
  have gs: "gs_inv apdu f s" and not_done: "k \<noteq> gbt_total apdu f" and open_window: "k - unat (gs_acked s) \<noteq> unat (gs_window s)"
    using sync by (auto simp: gbt_sync_def gr_inv_def k_def word_less_nat_alt)
  obtain res s' out' where run: "GbtSender_next_block (s, out) = (res, s', out')" by (metis prod_cases3)
  have "length (gb_block_data (gbt_frame s k)) \<le> f" "length (gb_block_data (gbt_frame s k)) < 2 ^ 32"
    using gs small by (auto simp: gbt_frame_def gbt_chunk_def gs_inv_def)
  then have fits: "length (gbt_image (gbt_frame s k)) \<le> length out"
    using length_gbt_image [of "gbt_frame s k"] room by linarith
  from gs run small show thesis
  proof (cases rule: next_block_cases)
    case emitted
    then show thesis using that run next_block_emits [OF gs run [unfolded emitted(3)] small] by (auto simp: k_def)
  qed (use not_done open_window fits in \<open>auto simp: k_def\<close>)
qed

lemma sync_push:
  assumes sync: "gbt_sync apdu f s r" and k: "unat (gs_block s) = k" "k < gbt_total apdu f"
    and fits: "length apdu \<le> length (gr_buf r)"
  defines "q \<equiv> gr_store apdu f k r"
  shows "GbtReceiver_push (gbt_frame s k) r =
      (if Suc k = gbt_total apdu f then (Inr Complete, q\<lparr>gr_since_ack := 0\<rparr>)
       else if gs_window s \<le> sat_inc (gr_since_ack r) then (Inr Acknowledge, q\<lparr>gr_since_ack := 0\<rparr>)
       else (Inr Await, q\<lparr>gr_since_ack := sat_inc (gr_since_ack r)\<rparr>))"
    and "gr_inv apdu f q" and "length (gr_buf q) = length (gr_buf r)"
    and "unat (sat_inc (gr_since_ack r)) = Suc (unat (gr_since_ack r))"
proof -
  have gr: "gr_inv apdu f r" and rk: "unat (gr_received r) = k" and since: "gr_since_ack r < gs_window s"
    and ns: "\<not> gs_streaming s \<longrightarrow> gs_window s = 1"
    and small': "gbt_total apdu f < 2 ^ 16" and eqs: "gs_apdu s = apdu" "gs_fragment s = f"
    and w: "unat (gs_window s) \<le> 63" "1 \<le> gs_window s"
    using sync k by (auto simp: gbt_sync_def gs_inv_def word_le_nat_alt)
  have room_r: "min (Suc k * f) (length apdu) \<le> length (gr_buf r)" using fits by (simp add: min_def)
  have win: "(if gs_streaming s then max (gs_window s AND 0x3F) 1 else 1) = gs_window s"
    using w ns by (simp add: window_and_mask max_absorb1)
  show "GbtReceiver_push (gbt_frame s k) r =
      (if Suc k = gbt_total apdu f then (Inr Complete, q\<lparr>gr_since_ack := 0\<rparr>)
       else if gs_window s \<le> sat_inc (gr_since_ack r) then (Inr Acknowledge, q\<lparr>gr_since_ack := 0\<rparr>)
       else (Inr Await, q\<lparr>gr_since_ack := sat_inc (gr_since_ack r)\<rparr>))"
    unfolding push_due [OF gr rk k(2) small' eqs room_r] win q_def ..
  show "gr_inv apdu f q" unfolding q_def by (rule gr_store_inv [OF gr rk k(2) small' room_r])
  show "length (gr_buf q) = length (gr_buf r)"
    using gr rk room_r by (auto simp: q_def gr_store_def gr_inv_def length_chunk)
  show "unat (sat_inc (gr_since_ack r)) = Suc (unat (gr_since_ack r))"
    using since w unat_sat_inc [of "gr_since_ack r"] by (simp add: word_less_nat_alt)
qed

lemma sync_acknowledge:
  assumes "gs_inv apdu f (s\<lparr>gs_block := of_nat (Suc k)\<rparr>)"
  defines "s1 \<equiv> s\<lparr>gs_acked := of_nat (Suc k), gs_block := of_nat (Suc k)\<rparr>"
  shows "GbtSender_acknowledge (of_nat (Suc k)) (s\<lparr>gs_block := of_nat (Suc k)\<rparr>) = (Inr (), s1)" "gs_inv apdu f s1"
proof -
  show "GbtSender_acknowledge (of_nat (Suc k)) (s\<lparr>gs_block := of_nat (Suc k)\<rparr>) = (Inr (), s1)"
    using assms by (auto simp: GbtSender_acknowledge_def gs_inv_def not_less simp del: of_nat_Suc)
  then show "gs_inv apdu f s1" by (rule acknowledge_inv(1) [OF assms(1)])
qed

lemma gbt_run_progress:
  assumes sync: "gbt_sync apdu f s r" and small: "length apdu < 2 ^ 32" and room: "f + 10 \<le> length out"
    and fits: "length apdu \<le> length (gr_buf r)" and k: "unat (gs_block s) = k"
  obtains (finished) s' r' where "Suc k = gbt_total apdu f" "gbt_run (Suc fuel) out s r = Some (s', r')"
      "GbtSender_is_done s'" "GbtReceiver_apdu r' = apdu"
  | (going) s' r' out' where "Suc k < gbt_total apdu f" "gbt_run (Suc fuel) out s r = gbt_run fuel out' s' r'"
      "gbt_sync apdu f s' r'" "unat (gs_block s') = Suc k" "length out' = length out" "length (gr_buf r') = length (gr_buf r)"
proof -
  obtain len out' where emit: "GbtSender_next_block (s, out) = (Inr (Some len), s\<lparr>gs_block := of_nat (Suc k)\<rparr>, out')"
    and dec: "from_bytes GeneralBlockTransfer_decode (take len out') = Inr (gbt_frame s k)"
    and out': "length out' = length out" and kt: "k < gbt_total apdu f" and gs': "gs_inv apdu f (s\<lparr>gs_block := of_nat (Suc k)\<rparr>)"
    using sync_emits [OF sync small room] unfolding k by blast
  have f: "0 < f" and small': "gbt_total apdu f < 2 ^ 16" and w: "0 < gs_window s" "unat (gs_acked s) \<le> k"
    and since: "unat (gr_since_ack r) = k - unat (gs_acked s)" and ns: "\<not> gs_streaming s \<longrightarrow> gs_window s = 1"
    using sync k by (auto simp: gbt_sync_def gs_inv_def word_le_nat_alt word_less_nat_alt)
  note num = unat_block_number [OF kt small'] and push = sync_push [OF sync k kt fits] and ackd = sync_acknowledge [OF gs']
  define q s1 where "q = gr_store apdu f k r" and "s1 = s\<lparr>gs_acked := of_nat (Suc k), gs_block := of_nat (Suc k)\<rparr>"
  note step = emit dec push(1) ackd(1) GbtReceiver_acknowledged_def
  consider (last) "Suc k = gbt_total apdu f" | (ack) "Suc k < gbt_total apdu f" "gs_window s \<le> sat_inc (gr_since_ack r)"
    | (await) "Suc k < gbt_total apdu f" "sat_inc (gr_since_ack r) < gs_window s"
    using kt by (meson Suc_lessI not_le)
  then show thesis
  proof cases
    case last
    have "GbtReceiver_apdu (q\<lparr>gr_since_ack := 0\<rparr>) = apdu"
      using gr_inv_apdu [OF push(2) f] last by (simp add: q_def GbtReceiver_apdu_def)
    moreover have "GbtSender_is_done s1"
      using blocks_total [OF ackd(2)] num last by (simp add: GbtSender_is_done_def word_le_nat_alt s1_def del: of_nat_Suc)
    ultimately show thesis
      by (intro finished [OF last, of s1 "q\<lparr>gr_since_ack := 0\<rparr>"])
        (simp_all add: step q_def s1_def last [symmetric] del: of_nat_Suc)
  next
    case ack
    have "gbt_sync apdu f s1 (q\<lparr>gr_since_ack := 0\<rparr>)"
      using ackd(2) push(2) ack(1) w ns by (simp add: gbt_sync_def s1_def q_def del: of_nat_Suc)
    then show thesis
      using ack num push(3) out' by (intro going [of out' s1 "q\<lparr>gr_since_ack := 0\<rparr>"]) (simp_all add: step q_def s1_def del: of_nat_Suc)
  next
    case await
    have "gbt_sync apdu f (s\<lparr>gs_block := of_nat (Suc k)\<rparr>) (q\<lparr>gr_since_ack := sat_inc (gr_since_ack r)\<rparr>)"
      using gs' push(2,4) await num since w(2) ns by (simp add: gbt_sync_def q_def del: of_nat_Suc)
    then show thesis
      using await num push(3) out' by (intro going [of out' "s\<lparr>gs_block := of_nat (Suc k)\<rparr>" "q\<lparr>gr_since_ack := sat_inc (gr_since_ack r)\<rparr>"])
        (simp_all add: step q_def not_le [THEN iffD2, OF await(2)] del: of_nat_Suc)
  qed
qed

lemma gbt_run_completes:
  assumes "gbt_sync apdu f s r" "length apdu < 2 ^ 32" "f + 10 \<le> length out" "length apdu \<le> length (gr_buf r)"
    "unat (gs_block s) + fuel = gbt_total apdu f"
  shows "\<exists>s' r'. gbt_run fuel out s r = Some (s', r') \<and> GbtSender_is_done s' \<and> GbtReceiver_apdu r' = apdu"
  using assms
proof (induction fuel arbitrary: out s r)
  case 0
  then show ?case by (auto simp: gbt_sync_def gr_inv_def)
next
  case (Suc fuel)
  from Suc.prems(1-4) refl show ?case
  proof (cases rule: gbt_run_progress [where fuel = fuel])
    case (going s' r' out')
    with Suc.IH [OF going(3) Suc.prems(2), of out'] Suc.prems show ?thesis by simp
  qed blast
qed

text \<open>C3: Over a reliable link the exchange ends: as many steps as there are blocks deliver the whole APDU to the
  receiver and leave the sender done, whatever the window and whether or not blocks are streamed, so the two
  ends never wait for one another.\<close>

theorem gbt_transfer_completes:
  assumes "GbtSender_new apdu f w st = Inr s" "length apdu < 2 ^ 32" "f + 10 \<le> length out" "length apdu \<le> length buf"
  shows "\<exists>s' r'. gbt_run (unat (GbtSender_blocks s)) out s (GbtReceiver_new buf) = Some (s', r') \<and>
    GbtSender_is_done s' \<and> GbtReceiver_apdu r' = apdu"
proof -
  have gs: "gs_inv apdu f s" "gs_block s = 0" "gs_acked s = 0" using gs_inv_new [OF assms(1)] by auto
  moreover have "\<not> gs_streaming s \<longrightarrow> gs_window s = 1" using assms(1) by (auto simp: GbtSender_new_def split: if_splits)
  ultimately have "gbt_sync apdu f s (GbtReceiver_new buf)"
    using gr_inv_new [of apdu f buf] by (auto simp: gbt_sync_def GbtReceiver_new_def gs_inv_def word_less_nat_alt)
  then show ?thesis
    using gbt_run_completes assms gs blocks_total [OF gs(1)] by (simp add: GbtReceiver_new_def)
qed

theorem gbt_transfer_completes_witness:
  "\<exists>s s' r'. GbtSender_new [1, 2, 3] 2 5 True = Inr s \<and>
    gbt_run (unat (GbtSender_blocks s)) (replicate 12 0) s (GbtReceiver_new [0, 0, 0, 0]) = Some (s', r') \<and>
    GbtReceiver_apdu r' = [1, 2, 3]"
proof -
  obtain s where s: "GbtSender_new [1, 2, 3] 2 5 True = Inr s" by (simp add: GbtSender_new_def div_ceil_def)
  from gbt_transfer_completes [OF s, of "replicate 12 0" "[0, 0, 0, 0]"] s show ?thesis by auto
qed

theorem gbt_safety_witness:
  "\<exists>s n. GbtSender_new [7] 1 1 False = Inr s \<and> gbt_step\<^sup>*\<^sup>* (gbt_init s [0]) n \<and>
    gr_complete (gn_receiver n) \<and> GbtReceiver_apdu (gn_receiver n) = [7]"
proof -
  define s where "s = \<lparr>gs_apdu = [7 :: u8], gs_block = 0, gs_acked = 0, gs_fragment = 1, gs_window = 1, gs_streaming = False\<rparr>"
  have new: "GbtSender_new [7] 1 1 False = Inr s" by (simp add: GbtSender_new_def div_ceil_def s_def)
  have sync: "gbt_sync [7] 1 s (GbtReceiver_new [0])"
    using gs_inv_new [OF new] gr_inv_new [of "[7]" 1 "[0]"] by (simp add: gbt_sync_def GbtReceiver_new_def s_def)
  have b0: "unat (gs_block s) = 0" by (simp add: s_def)
  obtain len out' where emit: "GbtSender_next_block (s, replicate 11 0) = (Inr (Some len), s\<lparr>gs_block := of_nat (Suc 0)\<rparr>, out')"
    and dec: "from_bytes GeneralBlockTransfer_decode (take len out') = Inr (gbt_frame s 0)"
    by (rule sync_emits [OF sync, of "replicate 11 0", unfolded b0]) (auto simp del: of_nat_Suc)
  define n1 where "n1 = (gbt_init s [0])\<lparr>gn_sender := s\<lparr>gs_block := of_nat (Suc 0)\<rparr>, gn_wire := [gbt_frame s 0]\<rparr>"
  have s1: "gbt_step (gbt_init s [0]) n1"
    using gbt_step.emit [of "gbt_init s [0]", OF _ dec] emit by (simp add: gbt_init_def n1_def)
  obtain res r' where push: "GbtReceiver_push (gbt_frame s 0) (GbtReceiver_new [0]) = (res, r')" by fastforce
  have total: "gbt_total [7 :: u8] 1 = 1" by (simp add: gbt_total_def div_ceil_def)
  have whole: "gr_complete r'"
    using sync_push(1) [OF sync, of 0] push total by (auto simp: s_def GbtReceiver_new_def)
  obtain n2 where s2: "gbt_step n1 n2" and r2: "gn_receiver n2 = r'"
    using gbt_step.deliver [of "gbt_frame s 0" n1 res r'] push by (auto simp: n1_def gbt_init_def)
  have reach: "gbt_step\<^sup>*\<^sup>* (gbt_init s [0]) n2" using s1 s2 by simp
  show ?thesis using gbt_safety [OF new _ reach] new reach whole r2 by auto
qed

text \<open>A receiver that has the whole APDU discards it when the last block arrives once more (its acknowledgement
  was lost and the sender repeats the block): it starts again from nothing, hands out nothing, and the
  acknowledgement it asks to be sent names block \<open>0\<close>, which a sender that has had any block acknowledged refuses.\<close>

theorem gbt_repeated_last_block_discards:
  assumes "gr_complete r" "gb_block_number b \<noteq> 1" "0 < gs_acked s"
  shows "\<exists>r'. GbtReceiver_push b r = (Inr Acknowledge, r') \<and> GbtReceiver_apdu r' = [] \<and>
    GbtSender_acknowledge (GbtReceiver_acknowledged r') s = (Inl (Error_new UnexpectedMessage 0), s)"
  using assms by (simp add: GbtReceiver_push_def GbtReceiver_reset_def Let_def sat_inc_def GbtReceiver_apdu_def
      GbtReceiver_acknowledged_def GbtSender_acknowledge_def)

theorem gbt_repeated_last_block_discards_witness:
  "\<exists>r r' s b. GbtReceiver_apdu r = [1, 2] \<and> gb_block_number b = 2 \<and> gs_acked s = 1 \<and>
    GbtReceiver_push b r = (Inr Acknowledge, r') \<and> GbtReceiver_apdu r' = [] \<and>
    GbtSender_acknowledge (GbtReceiver_acknowledged r') s = (Inl (Error_new UnexpectedMessage 0), s)"
proof -
  define r where "r = \<lparr>gr_buf = [1, 2 :: u8], gr_len = 2, gr_received = 2, gr_since_ack = 0, gr_complete = True\<rparr>"
  define b where "b = \<lparr>gb_control = BlockControl_new True False 1, gb_block_number = 2, gb_block_number_ack = 0, gb_block_data = [2 :: u8]\<rparr>"
  define s where "s = \<lparr>gs_apdu = [1, 2 :: u8], gs_block = 2, gs_acked = 1, gs_fragment = 1, gs_window = 1, gs_streaming = False\<rparr>"
  have "GbtReceiver_apdu r = [1, 2]" "gr_complete r" "gb_block_number b = 2" "gs_acked s = 1"
    by (simp_all add: r_def b_def s_def GbtReceiver_apdu_def slice_def)
  moreover from this obtain r' where "GbtReceiver_push b r = (Inr Acknowledge, r')" "GbtReceiver_apdu r' = []"
    "GbtSender_acknowledge (GbtReceiver_acknowledged r') s = (Inl (Error_new UnexpectedMessage 0), s)"
    using gbt_repeated_last_block_discards [of r b s] by auto
  ultimately show ?thesis by blast
qed

end
