(* ===== verification/Clock.thy ===== *)
theory Clock
  imports Codec
begin

text \<open>
  COSEM dates and times, \<^verbatim>\<open>src/src/axdr/datetime.rs\<close>.  A signed field (\<^verbatim>\<open>i16\<close>) is the word with its bits, read
  through \<^const>\<open>sint\<close>; the day and second counts (\<^verbatim>\<open>i32\<close>, \<^verbatim>\<open>i64\<close>) are integers, whose magnitude stays far
  below the width for a year of sixteen bits.
\<close>

datatype ClockStatus = ClockStatus u8

fun cs_byte :: "ClockStatus \<Rightarrow> u8" where
  "cs_byte (ClockStatus v) = v"

definition ClockStatus_NOT_SPECIFIED :: ClockStatus where
  "ClockStatus_NOT_SPECIFIED = ClockStatus 0xFF"

definition ClockStatus_invalid :: "ClockStatus \<Rightarrow> bool" where
  "ClockStatus_invalid s \<longleftrightarrow> cs_byte s AND 0x01 \<noteq> 0"

definition ClockStatus_doubtful :: "ClockStatus \<Rightarrow> bool" where
  "ClockStatus_doubtful s \<longleftrightarrow> cs_byte s AND 0x02 \<noteq> 0"

definition ClockStatus_different_clock_base :: "ClockStatus \<Rightarrow> bool" where
  "ClockStatus_different_clock_base s \<longleftrightarrow> cs_byte s AND 0x04 \<noteq> 0"

definition ClockStatus_invalid_clock_status :: "ClockStatus \<Rightarrow> bool" where
  "ClockStatus_invalid_clock_status s \<longleftrightarrow> cs_byte s AND 0x08 \<noteq> 0"

definition ClockStatus_daylight_saving_active :: "ClockStatus \<Rightarrow> bool" where
  "ClockStatus_daylight_saving_active s \<longleftrightarrow> cs_byte s AND 0x80 \<noteq> 0"

definition ClockStatus_is_not_specified :: "ClockStatus \<Rightarrow> bool" where
  "ClockStatus_is_not_specified s \<longleftrightarrow> cs_byte s = 0xFF"

record DateTime =
  dt_year :: u16
  dt_month :: u8
  dt_day_of_month :: u8
  dt_day_of_week :: u8
  dt_hour :: u8
  dt_minute :: u8
  dt_second :: u8
  dt_hundredths :: u8
  dt_deviation :: u16
  dt_status :: ClockStatus

definition DEVIATION_NOT_SPECIFIED :: u16 where
  "DEVIATION_NOT_SPECIFIED = 0x8000"

definition DateTime_WILDCARD :: DateTime where
  "DateTime_WILDCARD = \<lparr>dt_year = 0xFFFF, dt_month = 0xFF, dt_day_of_month = 0xFF, dt_day_of_week = 0xFF,
     dt_hour = 0xFF, dt_minute = 0xFF, dt_second = 0xFF, dt_hundredths = 0xFF,
     dt_deviation = DEVIATION_NOT_SPECIFIED, dt_status = ClockStatus_NOT_SPECIFIED\<rparr>"

definition DateTime_from_bytes :: "bytes \<Rightarrow> DateTime" where
  "DateTime_from_bytes b = \<lparr>dt_year = be_word [b ! 0, b ! 1], dt_month = b ! 2, dt_day_of_month = b ! 3,
     dt_day_of_week = b ! 4, dt_hour = b ! 5, dt_minute = b ! 6, dt_second = b ! 7, dt_hundredths = b ! 8,
     dt_deviation = be_word [b ! 9, b ! 10], dt_status = ClockStatus (b ! 11)\<rparr>"

definition DateTime_to_bytes :: "DateTime \<Rightarrow> bytes" where
  "DateTime_to_bytes t =
     (let y = be_bytes 2 (dt_year t); d = be_bytes 2 (dt_deviation t)
      in [y ! 0, y ! 1, dt_month t, dt_day_of_month t, dt_day_of_week t, dt_hour t, dt_minute t, dt_second t,
          dt_hundredths t, d ! 0, d ! 1, cs_byte (dt_status t)])"

definition DateTime_has_wildcard :: "DateTime \<Rightarrow> bool" where
  "DateTime_has_wildcard t \<longleftrightarrow> dt_year t = 0xFFFF \<or> dt_month t \<ge> 0xFD \<or> dt_day_of_month t \<ge> 0xFD \<or>
     dt_hour t = 0xFF \<or> dt_minute t = 0xFF \<or> dt_second t = 0xFF"

definition DateTime_utc_offset_minutes :: "DateTime \<Rightarrow> u16 option" where
  "DateTime_utc_offset_minutes t =
     (if dt_deviation t = DEVIATION_NOT_SPECIFIED then None else Some (- dt_deviation t))"

definition days_in_month :: "u16 \<Rightarrow> u8 \<Rightarrow> u8" where
  "days_in_month year month =
     (if month \<in> {1, 3, 5, 7, 8, 10, 12} then 31
      else if month \<in> {4, 6, 9, 11} then 30
      else if month = 2 then
        (let y = unat year in if y mod 4 = 0 \<and> (y mod 100 \<noteq> 0 \<or> y mod 400 = 0) then 29 else 28)
      else 0)"

text \<open>Integer division of the source, towards zero.\<close>

definition tdiv :: "int \<Rightarrow> int \<Rightarrow> int" where
  "tdiv a b = (if a < 0 then - ((- a) div b) else a div b)"

definition days_from_civil :: "int \<Rightarrow> u8 \<Rightarrow> u8 \<Rightarrow> int" where
  "days_from_civil y0 m0 d0 =
     (let m = uint m0; d = uint d0;
          y = (if m \<le> 2 then y0 - 1 else y0);
          era = tdiv (if y \<ge> 0 then y else y - 399) 400;
          yoe = y - era * 400;
          mp = (m + 9) mod 12;
          doy = tdiv (153 * mp + 2) 5 + d - 1;
          doe = yoe * 365 + tdiv yoe 4 - tdiv yoe 100 + doy
      in era * 146097 + doe - 719468)"

definition day_of_week :: "int \<Rightarrow> u8 \<Rightarrow> u8 \<Rightarrow> u8" where
  "day_of_week y m d = of_int ((days_from_civil y m d + 3) mod 7 + 1)"

definition DateTime_to_unix_seconds :: "DateTime \<Rightarrow> int option" where
  "DateTime_to_unix_seconds t =
     (if DateTime_has_wildcard t then None
      else case DateTime_utc_offset_minutes t of
        None \<Rightarrow> None
      | Some offset \<Rightarrow>
          if dt_month t = 0 \<or> dt_month t > 12 \<or> dt_day_of_month t = 0 then None
          else if dt_day_of_month t > days_in_month (dt_year t) (dt_month t) then None
          else if dt_hour t > 23 \<or> dt_minute t > 59 \<or> dt_second t > 59 then None
          else
            let days = days_from_civil (uint (dt_year t)) (dt_month t) (dt_day_of_month t);
                secs = days * 86400 + uint (dt_hour t) * 3600 + uint (dt_minute t) * 60 + uint (dt_second t)
            in Some (secs - sint offset * 60))"

definition DateTime_from_civil :: "u16 \<Rightarrow> u8 \<Rightarrow> u8 \<Rightarrow> u8 \<Rightarrow> u8 \<Rightarrow> u8 \<Rightarrow> u16 \<Rightarrow> DateTime" where
  "DateTime_from_civil year month day hour minute second utc_offset_minutes =
     \<lparr>dt_year = year, dt_month = month, dt_day_of_month = day, dt_day_of_week = day_of_week (uint year) month day,
      dt_hour = hour, dt_minute = minute, dt_second = second, dt_hundredths = 0xFF,
      dt_deviation = - utc_offset_minutes, dt_status = ClockStatus 0\<rparr>"

record Date =
  da_year :: u16
  da_month :: u8
  da_day_of_month :: u8
  da_day_of_week :: u8

definition Date_from_bytes :: "bytes \<Rightarrow> Date" where
  "Date_from_bytes b = \<lparr>da_year = be_word [b ! 0, b ! 1], da_month = b ! 2, da_day_of_month = b ! 3, da_day_of_week = b ! 4\<rparr>"

definition Date_to_bytes :: "Date \<Rightarrow> bytes" where
  "Date_to_bytes t = (let y = be_bytes 2 (da_year t) in [y ! 0, y ! 1, da_month t, da_day_of_month t, da_day_of_week t])"

record Time =
  ti_hour :: u8
  ti_minute :: u8
  ti_second :: u8
  ti_hundredths :: u8

definition Time_from_bytes :: "bytes \<Rightarrow> Time" where
  "Time_from_bytes b = \<lparr>ti_hour = b ! 0, ti_minute = b ! 1, ti_second = b ! 2, ti_hundredths = b ! 3\<rparr>"

definition Time_to_bytes :: "Time \<Rightarrow> bytes" where
  "Time_to_bytes t = [ti_hour t, ti_minute t, ti_second t, ti_hundredths t]"

subsection \<open>Wire form\<close>

lemma list2: "length xs = 2 \<Longrightarrow> [xs ! 0, xs ! Suc 0] = xs"
  by (auto simp: numeral_eq_Suc length_Suc_conv)

lemma be_word2 [simp]: "be_word [be_bytes 2 v ! 0, be_bytes 2 v ! Suc 0] = (v :: u16)"
  by (simp only: list2 [OF length_be_bytes] be_word_inverses(1))

lemma be_bytes_be_word2: "be_bytes 2 (be_word [a, b] :: u16) = [a, b]"
  using be_bytes_be_word [of "[a, b]", where 'a = 16] by (simp add: numeral_2_eq_2)

lemma DateTime_bytes_inverse [simp]: "DateTime_from_bytes (DateTime_to_bytes t) = t" "length (DateTime_to_bytes t) = 12"
  by (cases t; cases "dt_status t"; simp add: DateTime_from_bytes_def DateTime_to_bytes_def Let_def)+

lemma Date_bytes_inverse [simp]: "Date_from_bytes (Date_to_bytes d) = d" "length (Date_to_bytes d) = 5"
  by (cases d; simp add: Date_from_bytes_def Date_to_bytes_def Let_def)+

lemma Time_bytes_inverse [simp]: "Time_from_bytes (Time_to_bytes t) = t" "length (Time_to_bytes t) = 4"
  by (cases t; simp add: Time_from_bytes_def Time_to_bytes_def)+

lemma list12: "length b = 12 \<Longrightarrow> b = [b ! 0, b ! 1, b ! 2, b ! 3, b ! 4, b ! 5, b ! 6, b ! 7, b ! 8, b ! 9, b ! 10, b ! 11]"
  by (auto simp: numeral_eq_Suc length_Suc_conv)

text \<open>Every twelve-byte string is a date-time, and writing it back gives the same twelve bytes, wildcards, deviation and
  status included.\<close>

theorem datetime_bytes_exact:
  assumes "length b = 12"
  shows "DateTime_to_bytes (DateTime_from_bytes b) = b"
proof -
  have "DateTime_to_bytes (DateTime_from_bytes b) =
      [b ! 0, b ! 1, b ! 2, b ! 3, b ! 4, b ! 5, b ! 6, b ! 7, b ! 8, b ! 9, b ! 10, b ! 11]"
    by (simp add: DateTime_to_bytes_def DateTime_from_bytes_def Let_def be_bytes_be_word2)
  then show ?thesis using list12 [OF assms] by simp
qed

theorem datetime_bytes_exact_witness:
  "DateTime_to_bytes (DateTime_from_bytes [7, 0xE8, 2, 29, 0xFF, 6, 0, 0, 0xFF, 0x80, 0, 0xFF]) =
    [7, 0xE8, 2, 29, 0xFF, 6, 0, 0, 0xFF, 0x80, 0, 0xFF]"
  using datetime_bytes_exact [of "[7, 0xE8, 2, 29, 0xFF, 6, 0, 0, 0xFF, 0x80, 0, 0xFF]"] by simp

subsection \<open>The calendar\<close>

definition valid_date :: "u16 \<Rightarrow> u8 \<Rightarrow> u8 \<Rightarrow> bool" where
  "valid_date y m d \<longleftrightarrow> 1 \<le> m \<and> m \<le> 12 \<and> 1 \<le> d \<and> d \<le> days_in_month y m"

text \<open>The day after, by the rules of the calendar alone.\<close>

definition next_day :: "u16 \<Rightarrow> u8 \<Rightarrow> u8 \<Rightarrow> u16 \<times> u8 \<times> u8" where
  "next_day y m d =
     (if d < days_in_month y m then (y, m, d + 1)
      else if m < 12 then (y, m + 1, 1)
      else (y + 1, 1, 1))"

definition leap :: "int \<Rightarrow> bool" where
  "leap y \<longleftrightarrow> y mod 4 = 0 \<and> (y mod 100 \<noteq> 0 \<or> y mod 400 = 0)"

text \<open>Days of the years before \<open>y\<close> (counted from March), up to a constant.\<close>

definition year_days :: "int \<Rightarrow> int" where
  "year_days y = 365 * y + y div 4 - y div 100 + y div 400"

lemma int_div_succ:
  assumes "0 < (n :: int)"
  shows "(a + 1) div n = a div n + (if (a + 1) mod n = 0 then 1 else 0)"
proof -
  have a: "a = n * (a div n) + a mod n" "0 \<le> a mod n" "a mod n < n" using assms by simp_all
  show ?thesis
  proof (cases "a mod n + 1 = n")
    case True
    then have eq: "a + 1 = n * (a div n + 1) + 0" using a(1) by (simp only: distrib_left mult_1_right)
    have "(a + 1) div n = a div n + 1" by (rule int_div_pos_eq [OF eq]) (use assms in auto)
    moreover have "(a + 1) mod n = 0" by (rule int_mod_pos_eq [OF eq]) (use assms in auto)
    ultimately show ?thesis by simp
  next
    case False
    have eq: "a + 1 = n * (a div n) + (a mod n + 1)" using a(1) by linarith
    have "(a + 1) div n = a div n" by (rule int_div_pos_eq [OF eq]) (use a False in auto)
    moreover have "(a + 1) mod n = a mod n + 1" by (rule int_mod_pos_eq [OF eq]) (use a False in auto)
    ultimately show ?thesis using a(2) by simp
  qed
qed

lemma year_days_succ: "year_days (y + 1) = year_days y + 365 + (if leap (y + 1) then 1 else 0)"
proof -
  define p4 p100 p400 where "p4 \<longleftrightarrow> (y + 1) mod 4 = 0" and "p100 \<longleftrightarrow> (y + 1) mod 100 = 0" and "p400 \<longleftrightarrow> (y + 1) mod 400 = 0"
  have imp: "p400 \<Longrightarrow> p100" "p100 \<Longrightarrow> p4"
    unfolding p4_def p100_def p400_def mod_eq_0_iff_dvd by (auto elim: dvd_trans [rotated])
  have "(y + 1) div 4 = y div 4 + (if p4 then 1 else 0)" "(y + 1) div 100 = y div 100 + (if p100 then 1 else 0)"
    "(y + 1) div 400 = y div 400 + (if p400 then 1 else 0)"
    unfolding p4_def p100_def p400_def by (intro int_div_succ; simp)+
  then show ?thesis
    unfolding year_days_def leap_def p4_def [symmetric] p100_def [symmetric] p400_def [symmetric]
    using imp by (cases p4; cases p100; cases p400) simp_all
qed

lemma tdiv_pos: "0 \<le> a \<Longrightarrow> tdiv a b = a div b"
  by (simp add: tdiv_def)

lemma days_from_civil_eq:
  assumes "0 \<le> y" "1 \<le> uint m" "uint m \<le> 12"
  shows "days_from_civil y m d = year_days (if uint m \<le> 2 then y - 1 else y) +
    (153 * ((uint m + 9) mod 12) + 2) div 5 + uint d - 1 - 719468"
proof -
  define Y where "Y = (if uint m \<le> 2 then y - 1 else y)"
  have Y: "Y = - 1 \<or> 0 \<le> Y" using assms by (simp add: Y_def) linarith
  then have era: "tdiv (if Y \<ge> 0 then Y else Y - 399) 400 = Y div 400" by (auto simp: tdiv_def)
  define q r where "q = Y div 400" and "r = Y mod 400"
  have Yqr: "Y = r + q * 400" and r: "0 \<le> r" by (simp_all add: q_def r_def)
  have "r + q * 400 = r + (q * 100) * 4" "r + q * 400 = r + (q * 4) * 100" by simp_all
  then have "Y div 4 = q * 100 + r div 4" "Y div 100 = q * 4 + r div 100"
    unfolding Yqr by (metis div_mult_self1 zero_neq_numeral)+
  moreover have "Y - q * 400 = r" using Yqr by simp
  moreover have "0 \<le> 153 * ((uint m + 9) mod 12) + 2" using pos_mod_sign [of 12 "uint m + 9"] by linarith
  ultimately show ?thesis
    using tdiv_pos [OF r]
    unfolding days_from_civil_def Let_def Y_def [symmetric] era q_def [symmetric] year_days_def
    by (simp only: tdiv_pos q_def [symmetric])
qed

lemma month_cases:
  assumes "1 \<le> m" "m \<le> (12 :: u8)"
  shows "m \<in> {1, 2, 3, 4, 5, 6, 7, 8, 9, 10, 11, 12}"
proof -
  have "unat m \<in> set [1..<13]" using assms by (simp add: word_le_nat_alt)
  then have "unat m \<in> {1, 2, 3, 4, 5, 6, 7, 8, 9, 10, 11, 12}" by (simp add: upt_rec eval_nat_numeral)
  then have "(of_nat (unat m) :: u8) \<in> of_nat ` {1, 2, 3, 4, 5, 6, 7, 8, 9, 10, 11, 12}" by (rule imageI)
  then show ?thesis by simp
qed

lemma uint_month: "1 \<le> m \<Longrightarrow> m \<le> 12 \<Longrightarrow> 1 \<le> uint m \<and> uint m \<le> 12" for m :: u8
  by (simp add: word_le_def)

lemma leap_year: "days_in_month y 2 = (if leap (uint y) then 29 else 28)"
proof -
  have "int (unat y) = uint y" by simp
  then have "unat y mod n = 0 \<longleftrightarrow> uint y mod int n = 0" for n by (metis of_nat_eq_0_iff of_nat_mod)
  from this [of 4] this [of 100] this [of 400] show ?thesis by (simp add: days_in_month_def leap_def Let_def del: neq0_conv)
qed

lemma uint_succ: "(w :: 'a::len word) \<noteq> - 1 \<Longrightarrow> uint (w + 1) = uint w + 1"
proof -
  assume "w \<noteq> - 1"
  then have "uint w \<noteq> uint (- 1 :: 'a word)" by (metis word_uint_eq_iff)
  then have "uint w \<noteq> 2 ^ LENGTH('a) - 1" by (simp add: unsigned_minus_1_eq_mask mask_eq_exp_minus_1)
  moreover have "uint w < 2 ^ LENGTH('a)" by (rule uint_bounded)
  ultimately have "uint w + 1 < 2 ^ LENGTH('a)" by linarith
  then show ?thesis by (simp add: uint_word_ariths mod_pos_pos_trivial)
qed

lemma days_next_day_in_month:
  assumes v: "valid_date y m d" and lt: "d < days_in_month y m"
  shows "days_from_civil (uint y) m (d + 1) = days_from_civil (uint y) m d + 1"
proof -
  have "1 \<le> uint m \<and> uint m \<le> 12" using v uint_month by (auto simp: valid_date_def)
  moreover have "d \<noteq> - 1" using lt word_order.extremum_strict by auto
  ultimately show ?thesis by (simp add: days_from_civil_eq uint_succ)
qed

lemma days_next_month:
  assumes v: "1 \<le> m" "m < 12"
  shows "days_from_civil (uint y) (m + 1) 1 = days_from_civil (uint y) m (days_in_month y m) + 1"
proof -
  have "m \<in> {1, 2, 3, 4, 5, 6, 7, 8, 9, 10, 11, 12} - {12}" using month_cases [of m] v by auto
  then have "m \<in> {1, 3, 4, 5, 6, 7, 8, 9, 10, 11} \<or> m = 2" by auto
  then show ?thesis
  proof
    assume "m \<in> {1, 3, 4, 5, 6, 7, 8, 9, 10, 11}"
    then show ?thesis by (elim insertE emptyE) (simp_all add: days_from_civil_eq days_in_month_def)
  next
    assume "m = 2"
    then show ?thesis using year_days_succ [of "uint y - 1"] by (simp add: days_from_civil_eq leap_year)
  qed
qed

lemma days_next_year: "y \<noteq> - 1 \<Longrightarrow> days_from_civil (uint (y + 1)) 1 1 = days_from_civil (uint y) 12 31 + 1" for y :: u16
  by (simp add: days_from_civil_eq uint_succ)

text \<open>The closed formula for day numbers counts days: 1 January 1970 is day zero, and by the rules of the calendar
  alone, leap years included, the day after any date from the year 0 on is numbered one higher.\<close>

theorem days_from_civil_counts:
  assumes "valid_date y m d" "y < 0xFFFF"
  shows "days_from_civil 1970 1 1 = 0 \<and>
    (case next_day y m d of (y', m', d') \<Rightarrow> days_from_civil (uint y') m' d' = days_from_civil (uint y) m d + 1)"
proof -
  have "days_from_civil 1970 1 1 = 0" by (simp add: days_from_civil_def tdiv_def)
  moreover have "y \<noteq> - 1" "1 \<le> m" "m \<le> 12" "d \<le> days_in_month y m" using assms by (auto simp: valid_date_def)
  moreover have "m = 12 \<Longrightarrow> days_in_month y m = 31" by (simp add: days_in_month_def)
  ultimately show ?thesis
    using days_next_day_in_month [OF assms(1)] days_next_month [of m y] days_next_year [of y]
    by (auto simp: next_day_def not_less order.order_iff_strict)
qed

theorem days_from_civil_counts_witness:
  "valid_date 2024 2 29 \<and> next_day 2024 2 29 = (2024, 3, 1) \<and> days_from_civil 2024 3 1 = days_from_civil 2024 2 29 + 1"
proof -
  have v: "valid_date 2024 2 29" and n: "next_day 2024 2 29 = (2024, 3, 1)"
    by (simp_all add: valid_date_def next_day_def days_in_month_def)
  from days_from_civil_counts [OF v] n show ?thesis by (simp add: v n)
qed

lemma days_in_month_bounds: "days_in_month y m \<le> 31"
  by (simp add: days_in_month_def Let_def)

text \<open>A date-time built from civil fields reads back as the point in time they name: for a date that exists and a time
  of day, the Unix seconds are the day number times 86400, plus the seconds of the day, less the offset.\<close>

theorem from_civil_unix_seconds:
  assumes "valid_date y m d" "y < 0xFFFF" "h \<le> 23" "mi \<le> 59" "sec \<le> 59" "off \<noteq> 0x8000"
  shows "DateTime_to_unix_seconds (DateTime_from_civil y m d h mi sec off) =
    Some (days_from_civil (uint y) m d * 86400 + uint h * 3600 + uint mi * 60 + uint sec - sint off * 60)"
proof -
  have neg: "- off \<noteq> 0x8000"
  proof
    assume "- off = 0x8000"
    then have "off = - 0x8000" by (metis minus_minus)
    with assms(6) show False by simp
  qed
  have "d \<le> 31" using assms(1) days_in_month_bounds [of y m] by (auto simp: valid_date_def)
  then have "\<not> DateTime_has_wildcard (DateTime_from_civil y m d h mi sec off)"
    using assms by (auto simp: DateTime_has_wildcard_def DateTime_from_civil_def valid_date_def word_le_nat_alt word_less_nat_alt)
  moreover have "DateTime_utc_offset_minutes (DateTime_from_civil y m d h mi sec off) = Some off"
    using neg by (simp add: DateTime_utc_offset_minutes_def DateTime_from_civil_def DEVIATION_NOT_SPECIFIED_def)
  ultimately show ?thesis
    using assms by (auto simp: DateTime_to_unix_seconds_def DateTime_from_civil_def valid_date_def Let_def not_less)
qed

theorem from_civil_unix_seconds_witness:
  "DateTime_to_unix_seconds (DateTime_from_civil 1970 1 2 1 0 0 60) = Some 86400"
  using from_civil_unix_seconds [of 1970 1 2 1 0 0 60] by (simp add: valid_date_def days_in_month_def days_from_civil_def tdiv_def)

text \<open>The day of the week is a number from 1 to 7 for every input, also for a date that does not exist, such as 31 February.\<close>

theorem day_of_week_always_a_day:
  "1 \<le> day_of_week y m d \<and> day_of_week y m d \<le> 7 \<and> \<not> valid_date 2023 2 31 \<and> day_of_week 2023 2 31 = 5"
proof -
  define k where "k = (days_from_civil y m d + 3) mod 7"
  have "0 \<le> k" "k < 7" by (simp_all add: k_def)
  then have "k \<in> {0, 1, 2, 3, 4, 5, 6}" by auto
  then have "1 \<le> day_of_week y m d \<and> day_of_week y m d \<le> 7" unfolding day_of_week_def k_def [symmetric] by auto
  moreover have "\<not> valid_date 2023 2 31" "day_of_week 2023 2 31 = 5"
    by (simp_all add: valid_date_def days_in_month_def day_of_week_def days_from_civil_def tdiv_def)
  ultimately show ?thesis by simp
qed

end
