(* ===== verification/Axdr.thy ===== *)
theory Axdr
  imports Clock
begin

text \<open>
  The A-XDR value of \<^verbatim>\<open>src/src/axdr/data.rs\<close> and the type description of \<^verbatim>\<open>src/src/axdr/compact.rs\<close>: tags,
  the borrowed value with its lazily read sequences, decoding, skipping and encoding.  A nesting depth
  (\<^verbatim>\<open>u8\<close>, never above seventeen) is a natural number; a float is its bit pattern, which is all that
  \<^verbatim>\<open>from_bits\<close> and \<^verbatim>\<open>to_bits\<close> move.
\<close>

definition MAX_DEPTH :: nat where
  "MAX_DEPTH = 16"

subsection \<open>Tags\<close>

datatype DataTag =
    TNullData | TArray | TStructure | TBoolean | TBitString | TDoubleLong
  | TDoubleLongUnsigned | TOctetString | TVisibleString | TUtf8String | TBcd | TInteger
  | TLong | TUnsigned | TLongUnsigned | TCompactArray | TLong64 | TLong64Unsigned
  | TEnum | TFloat32 | TFloat64 | TDateTime | TDate | TTime
  | TDeltaInteger | TDeltaLong | TDeltaDoubleLong | TDeltaUnsigned | TDeltaLongUnsigned | TDeltaDoubleLongUnsigned
  | TDontCare

fun DataTag_as_u8 :: "DataTag \<Rightarrow> u8" where
  "DataTag_as_u8 TNullData = 0"
| "DataTag_as_u8 TArray = 1"
| "DataTag_as_u8 TStructure = 2"
| "DataTag_as_u8 TBoolean = 3"
| "DataTag_as_u8 TBitString = 4"
| "DataTag_as_u8 TDoubleLong = 5"
| "DataTag_as_u8 TDoubleLongUnsigned = 6"
| "DataTag_as_u8 TOctetString = 9"
| "DataTag_as_u8 TVisibleString = 10"
| "DataTag_as_u8 TUtf8String = 12"
| "DataTag_as_u8 TBcd = 13"
| "DataTag_as_u8 TInteger = 15"
| "DataTag_as_u8 TLong = 16"
| "DataTag_as_u8 TUnsigned = 17"
| "DataTag_as_u8 TLongUnsigned = 18"
| "DataTag_as_u8 TCompactArray = 19"
| "DataTag_as_u8 TLong64 = 20"
| "DataTag_as_u8 TLong64Unsigned = 21"
| "DataTag_as_u8 TEnum = 22"
| "DataTag_as_u8 TFloat32 = 23"
| "DataTag_as_u8 TFloat64 = 24"
| "DataTag_as_u8 TDateTime = 25"
| "DataTag_as_u8 TDate = 26"
| "DataTag_as_u8 TTime = 27"
| "DataTag_as_u8 TDeltaInteger = 28"
| "DataTag_as_u8 TDeltaLong = 29"
| "DataTag_as_u8 TDeltaDoubleLong = 30"
| "DataTag_as_u8 TDeltaUnsigned = 31"
| "DataTag_as_u8 TDeltaLongUnsigned = 32"
| "DataTag_as_u8 TDeltaDoubleLongUnsigned = 33"
| "DataTag_as_u8 TDontCare = 255"

definition DataTag_from_u8 :: "u8 \<Rightarrow> DataTag option" where
  "DataTag_from_u8 v =
     (if v = 0 then Some TNullData
      else if v = 1 then Some TArray
      else if v = 2 then Some TStructure
      else if v = 3 then Some TBoolean
      else if v = 4 then Some TBitString
      else if v = 5 then Some TDoubleLong
      else if v = 6 then Some TDoubleLongUnsigned
      else if v = 9 then Some TOctetString
      else if v = 10 then Some TVisibleString
      else if v = 12 then Some TUtf8String
      else if v = 13 then Some TBcd
      else if v = 15 then Some TInteger
      else if v = 16 then Some TLong
      else if v = 17 then Some TUnsigned
      else if v = 18 then Some TLongUnsigned
      else if v = 19 then Some TCompactArray
      else if v = 20 then Some TLong64
      else if v = 21 then Some TLong64Unsigned
      else if v = 22 then Some TEnum
      else if v = 23 then Some TFloat32
      else if v = 24 then Some TFloat64
      else if v = 25 then Some TDateTime
      else if v = 26 then Some TDate
      else if v = 27 then Some TTime
      else if v = 28 then Some TDeltaInteger
      else if v = 29 then Some TDeltaLong
      else if v = 30 then Some TDeltaDoubleLong
      else if v = 31 then Some TDeltaUnsigned
      else if v = 32 then Some TDeltaLongUnsigned
      else if v = 33 then Some TDeltaDoubleLongUnsigned
      else if v = 255 then Some TDontCare
      else None)"

fun DataTag_fixed_len :: "DataTag \<Rightarrow> nat option" where
  "DataTag_fixed_len TNullData = Some 0"
| "DataTag_fixed_len TBoolean = Some 1"
| "DataTag_fixed_len TDoubleLong = Some 4"
| "DataTag_fixed_len TDoubleLongUnsigned = Some 4"
| "DataTag_fixed_len TBcd = Some 1"
| "DataTag_fixed_len TInteger = Some 1"
| "DataTag_fixed_len TLong = Some 2"
| "DataTag_fixed_len TUnsigned = Some 1"
| "DataTag_fixed_len TLongUnsigned = Some 2"
| "DataTag_fixed_len TLong64 = Some 8"
| "DataTag_fixed_len TLong64Unsigned = Some 8"
| "DataTag_fixed_len TEnum = Some 1"
| "DataTag_fixed_len TFloat32 = Some 4"
| "DataTag_fixed_len TFloat64 = Some 8"
| "DataTag_fixed_len TDateTime = Some 12"
| "DataTag_fixed_len TDate = Some 5"
| "DataTag_fixed_len TTime = Some 4"
| "DataTag_fixed_len TDeltaInteger = Some 1"
| "DataTag_fixed_len TDeltaLong = Some 2"
| "DataTag_fixed_len TDeltaDoubleLong = Some 4"
| "DataTag_fixed_len TDeltaUnsigned = Some 1"
| "DataTag_fixed_len TDeltaLongUnsigned = Some 2"
| "DataTag_fixed_len TDeltaDoubleLongUnsigned = Some 4"
| "DataTag_fixed_len TDontCare = Some 0"
| "DataTag_fixed_len _ = None"

fun DataTag_is_delta :: "DataTag \<Rightarrow> bool" where
  "DataTag_is_delta TDeltaInteger = True"
| "DataTag_is_delta TDeltaLong = True"
| "DataTag_is_delta TDeltaDoubleLong = True"
| "DataTag_is_delta TDeltaUnsigned = True"
| "DataTag_is_delta TDeltaLongUnsigned = True"
| "DataTag_is_delta TDeltaDoubleLongUnsigned = True"
| "DataTag_is_delta _ = False"

subsection \<open>Bit strings, sequences, compact arrays\<close>

record BitStr =
  bs_bits :: nat
  bs_bytes :: bytes

definition BitStr_new :: "nat \<Rightarrow> bytes \<Rightarrow> BitStr result" where
  "BitStr_new bits bs =
     (if length bs \<noteq> div_ceil bits 8 then Inl (Error_new InvalidLength 0)
      else Inr \<lparr>bs_bits = bits, bs_bytes = bs\<rparr>)"

definition BitStr_bit :: "BitStr \<Rightarrow> nat \<Rightarrow> bool" where
  "BitStr_bit b i \<longleftrightarrow> i < bs_bits b \<and> bs_bytes b ! (i div 8) AND drop_bit (i mod 8) 0x80 \<noteq> 0"

definition BitStr_to_u32 :: "BitStr \<Rightarrow> u32" where
  "BitStr_to_u32 b = foldl (\<lambda>v i. push_bit 1 v OR of_bool (BitStr_bit b i)) 0 [0..<min (bs_bits b) 32]"

record Seq =
  sq_count :: nat
  sq_raw :: bytes
  sq_base :: nat
  sq_depth :: nat

text \<open>The hand-written equality: where the bytes came from does not count.\<close>

definition Seq_eq :: "Seq \<Rightarrow> Seq \<Rightarrow> bool" where
  "Seq_eq a b \<longleftrightarrow> sq_count a = sq_count b \<and> sq_raw a = sq_raw b"

record CompactArray =
  ca_desc :: bytes
  ca_contents :: bytes
  ca_desc_base :: nat
  ca_contents_base :: nat
  ca_depth :: nat

datatype TypeDesc = TdScalar DataTag | TdArray u16 bytes | TdStructure nat bytes

datatype Data =
    DNull | DArray Seq | DStructure Seq | DBoolean bool | DBitString BitStr
  | DDoubleLong u32 | DDoubleLongUnsigned u32 | DOctetString bytes | DVisibleString bytes | DUtf8String bytes
  | DBcd u8 | DInteger u8 | DLong u16 | DUnsigned u8 | DLongUnsigned u16
  | DCompactArray CompactArray | DLong64 u64 | DLong64Unsigned u64 | DEnum u8 | DFloat32 u32
  | DFloat64 u64 | DDateTime DateTime | DDate Date | DTime Time | DDeltaInteger u8
  | DDeltaLong u16 | DDeltaDoubleLong u32 | DDeltaUnsigned u8 | DDeltaLongUnsigned u16 | DDeltaDoubleLongUnsigned u32
  | DDontCare

fun Data_tag :: "Data \<Rightarrow> DataTag" where
  "Data_tag DNull = TNullData"
| "Data_tag (DArray _) = TArray"
| "Data_tag (DStructure _) = TStructure"
| "Data_tag (DBoolean _) = TBoolean"
| "Data_tag (DBitString _) = TBitString"
| "Data_tag (DDoubleLong _) = TDoubleLong"
| "Data_tag (DDoubleLongUnsigned _) = TDoubleLongUnsigned"
| "Data_tag (DOctetString _) = TOctetString"
| "Data_tag (DVisibleString _) = TVisibleString"
| "Data_tag (DUtf8String _) = TUtf8String"
| "Data_tag (DBcd _) = TBcd"
| "Data_tag (DInteger _) = TInteger"
| "Data_tag (DLong _) = TLong"
| "Data_tag (DUnsigned _) = TUnsigned"
| "Data_tag (DLongUnsigned _) = TLongUnsigned"
| "Data_tag (DCompactArray _) = TCompactArray"
| "Data_tag (DLong64 _) = TLong64"
| "Data_tag (DLong64Unsigned _) = TLong64Unsigned"
| "Data_tag (DEnum _) = TEnum"
| "Data_tag (DFloat32 _) = TFloat32"
| "Data_tag (DFloat64 _) = TFloat64"
| "Data_tag (DDateTime _) = TDateTime"
| "Data_tag (DDate _) = TDate"
| "Data_tag (DTime _) = TTime"
| "Data_tag (DDeltaInteger _) = TDeltaInteger"
| "Data_tag (DDeltaLong _) = TDeltaLong"
| "Data_tag (DDeltaDoubleLong _) = TDeltaDoubleLong"
| "Data_tag (DDeltaUnsigned _) = TDeltaUnsigned"
| "Data_tag (DDeltaLongUnsigned _) = TDeltaLongUnsigned"
| "Data_tag (DDeltaDoubleLongUnsigned _) = TDeltaDoubleLongUnsigned"
| "Data_tag DDontCare = TDontCare"

subsection \<open>Walking ahead\<close>

text \<open>\<^verbatim>\<open>for _ in 0..n { f(r)?; }\<close>\<close>

primrec repeat_op :: "nat \<Rightarrow> ('s, unit) op \<Rightarrow> ('s, unit) op" where
  "repeat_op 0 f = ok ()"
| "repeat_op (Suc n) f = try_bind f (\<lambda>_. repeat_op n f)"

text \<open>A probe over the bytes still to come, at their offset; what it walked over is then taken.\<close>

definition probe_of :: "Reader \<Rightarrow> Reader" where
  "probe_of r = Reader_with_base (Reader_rest r) (Reader_offset r)"

definition probed :: "(Reader, 'a) op \<Rightarrow> (Reader, bytes) op" where
  "probed f = (\<lambda>r. case f (probe_of r) of
     (Inl e, _) \<Rightarrow> (Inl e, r)
   | (Inr _, p) \<Rightarrow> Reader_take (Reader_consumed p) r)"

subsection \<open>Type descriptions and compact arrays\<close>

text \<open>The tag byte that starts a value or a description.\<close>

definition read_tag :: "(Reader, DataTag) op" where
  "read_tag = try_bind Reader_u8 (\<lambda>tag_byte.
     case DataTag_from_u8 tag_byte of
       None \<Rightarrow> rd_fail_back (InvalidTag tag_byte) 1
     | Some tag \<Rightarrow> ok tag)"

function TypeDesc_parse_at :: "nat \<Rightarrow> (Reader, TypeDesc) op" where
  "TypeDesc_parse_at depth =
     (if depth \<ge> MAX_DEPTH then rd_fail DepthExceeded
      else try_bind read_tag (\<lambda>tag.
        case tag of
          TArray \<Rightarrow> try_bind Reader_u16 (\<lambda>len.
            try_bind (probed (TypeDesc_parse_at (depth + 1))) (\<lambda>elem. ok (TdArray len elem)))
        | TStructure \<Rightarrow> try_bind Reader_length (\<lambda>count.
            try_bind (probed (repeat_op count (try_bind (TypeDesc_parse_at (depth + 1)) (\<lambda>_. ok ())))) (\<lambda>fields.
              ok (TdStructure count fields)))
        | TCompactArray \<Rightarrow> rd_fail_back (InvalidTag (DataTag_as_u8 TCompactArray)) 1
        | other \<Rightarrow> ok (TdScalar other)))"
  by pat_completeness auto
termination by (relation "measure (\<lambda>d. MAX_DEPTH - d)") auto

declare TypeDesc_parse_at.simps [simp del]

definition TypeDesc_parse :: "(Reader, TypeDesc) op" where
  "TypeDesc_parse = TypeDesc_parse_at 0"

definition TypeDesc_skip_at :: "nat \<Rightarrow> (Reader, unit) op" where
  "TypeDesc_skip_at depth = try_bind (TypeDesc_parse_at depth) (\<lambda>_. ok ())"

definition CompactArray_decode_body :: "nat \<Rightarrow> (Reader, CompactArray) op" where
  "CompactArray_decode_body depth r0 =
     (if depth \<ge> MAX_DEPTH then rd_fail DepthExceeded r0
      else
        let desc_base = Reader_offset r0 in
        try_bind (probed (TypeDesc_skip_at depth)) (\<lambda>desc.
        try_bind Reader_length (\<lambda>len r.
          let contents_base = Reader_offset r in
          try_bind (Reader_take len) (\<lambda>contents.
            ok \<lparr>ca_desc = desc, ca_contents = contents, ca_desc_base = desc_base,
                ca_contents_base = contents_base, ca_depth = depth\<rparr>) r)) r0)"

definition CompactArray_skip_body :: "nat \<Rightarrow> (Reader, unit) op" where
  "CompactArray_skip_body depth = try_bind (CompactArray_decode_body depth) (\<lambda>_. ok ())"

definition CompactArray_encode_body :: "CompactArray \<Rightarrow> (writer, unit) op" where
  "CompactArray_encode_body c = try_bind (write_bytes (ca_desc c)) (\<lambda>_. write_length_prefixed (ca_contents c))"

definition CompactArray_from_parts :: "bytes \<Rightarrow> bytes \<Rightarrow> CompactArray result" where
  "CompactArray_from_parts desc contents =
     (case TypeDesc_skip_at 0 (Reader_new desc) of
        (Inl e, _) \<Rightarrow> Inl e
      | (Inr _, r) \<Rightarrow>
          if \<not> Reader_is_empty r then Inl (Error_new InvalidLength (Reader_offset r))
          else Inr \<lparr>ca_desc = desc, ca_contents = contents, ca_desc_base = 0, ca_contents_base = 0, ca_depth = 0\<rparr>)"

subsection \<open>Decoding\<close>

text \<open>
  The arms of \<^verbatim>\<open>decode_at\<close> that build a scalar; \<^verbatim>\<open>leaf\<close> of \<^verbatim>\<open>compact.rs\<close> has the same arms.  \<open>None\<close> is a tag
  that is handled elsewhere.
\<close>

fun scalar_arm :: "DataTag \<Rightarrow> (Reader, Data) op option" where
  "scalar_arm TNullData = Some (ok DNull)"
| "scalar_arm TBoolean = Some (try_bind Reader_u8 (\<lambda>b. ok (DBoolean (b \<noteq> 0))))"
| "scalar_arm TDoubleLong = Some (try_bind Reader_u32 (\<lambda>v. ok (DDoubleLong v)))"
| "scalar_arm TDoubleLongUnsigned = Some (try_bind Reader_u32 (\<lambda>v. ok (DDoubleLongUnsigned v)))"
| "scalar_arm TOctetString = Some (try_bind Reader_length_prefixed (\<lambda>b. ok (DOctetString b)))"
| "scalar_arm TVisibleString = Some (try_bind Reader_length_prefixed (\<lambda>b. ok (DVisibleString b)))"
| "scalar_arm TUtf8String = Some (try_bind Reader_length_prefixed (\<lambda>b. ok (DUtf8String b)))"
| "scalar_arm TBcd = Some (try_bind Reader_u8 (\<lambda>v. ok (DBcd v)))"
| "scalar_arm TInteger = Some (try_bind Reader_u8 (\<lambda>v. ok (DInteger v)))"
| "scalar_arm TLong = Some (try_bind Reader_u16 (\<lambda>v. ok (DLong v)))"
| "scalar_arm TUnsigned = Some (try_bind Reader_u8 (\<lambda>v. ok (DUnsigned v)))"
| "scalar_arm TLongUnsigned = Some (try_bind Reader_u16 (\<lambda>v. ok (DLongUnsigned v)))"
| "scalar_arm TLong64 = Some (try_bind Reader_u64 (\<lambda>v. ok (DLong64 v)))"
| "scalar_arm TLong64Unsigned = Some (try_bind Reader_u64 (\<lambda>v. ok (DLong64Unsigned v)))"
| "scalar_arm TEnum = Some (try_bind Reader_u8 (\<lambda>v. ok (DEnum v)))"
| "scalar_arm TFloat32 = Some (try_bind Reader_u32 (\<lambda>v. ok (DFloat32 v)))"
| "scalar_arm TFloat64 = Some (try_bind Reader_u64 (\<lambda>v. ok (DFloat64 v)))"
| "scalar_arm TDateTime = Some (try_bind (Reader_array 12) (\<lambda>b. ok (DDateTime (DateTime_from_bytes b))))"
| "scalar_arm TDate = Some (try_bind (Reader_array 5) (\<lambda>b. ok (DDate (Date_from_bytes b))))"
| "scalar_arm TTime = Some (try_bind (Reader_array 4) (\<lambda>b. ok (DTime (Time_from_bytes b))))"
| "scalar_arm TDeltaInteger = Some (try_bind Reader_u8 (\<lambda>v. ok (DDeltaInteger v)))"
| "scalar_arm TDeltaLong = Some (try_bind Reader_u16 (\<lambda>v. ok (DDeltaLong v)))"
| "scalar_arm TDeltaDoubleLong = Some (try_bind Reader_u32 (\<lambda>v. ok (DDeltaDoubleLong v)))"
| "scalar_arm TDeltaUnsigned = Some (try_bind Reader_u8 (\<lambda>v. ok (DDeltaUnsigned v)))"
| "scalar_arm TDeltaLongUnsigned = Some (try_bind Reader_u16 (\<lambda>v. ok (DDeltaLongUnsigned v)))"
| "scalar_arm TDeltaDoubleLongUnsigned = Some (try_bind Reader_u32 (\<lambda>v. ok (DDeltaDoubleLongUnsigned v)))"
| "scalar_arm TDontCare = Some (ok DDontCare)"
| "scalar_arm _ = None"

function Data_skip :: "nat \<Rightarrow> (Reader, unit) op" where
  "Data_skip depth =
     (if depth \<ge> MAX_DEPTH then rd_fail DepthExceeded
      else try_bind read_tag (\<lambda>tag.
        case DataTag_fixed_len tag of
          Some n \<Rightarrow> Reader_skip n
        | None \<Rightarrow>
            (case tag of
               TArray \<Rightarrow> try_bind Reader_length (\<lambda>count. repeat_op count (Data_skip (depth + 1)))
             | TStructure \<Rightarrow> try_bind Reader_length (\<lambda>count. repeat_op count (Data_skip (depth + 1)))
             | TBitString \<Rightarrow> try_bind Reader_length (\<lambda>bits. Reader_skip (div_ceil bits 8))
             | TOctetString \<Rightarrow> try_bind Reader_length Reader_skip
             | TVisibleString \<Rightarrow> try_bind Reader_length Reader_skip
             | TUtf8String \<Rightarrow> try_bind Reader_length Reader_skip
             | TCompactArray \<Rightarrow> CompactArray_skip_body (depth + 1)
             | _ \<Rightarrow> rd_fail (InvalidTag (DataTag_as_u8 tag)))))"
  by pat_completeness auto
termination by (relation "measure (\<lambda>d. MAX_DEPTH - d)") auto

declare Data_skip.simps [simp del]

text \<open>The arm for an array or a structure.\<close>

definition seq_arm :: "nat \<Rightarrow> (Seq \<Rightarrow> Data) \<Rightarrow> (Reader, Data) op" where
  "seq_arm depth mk = try_bind Reader_length (\<lambda>count r.
     let start = Reader_offset r in
     try_bind (probed (repeat_op count (Data_skip (depth + 1)))) (\<lambda>raw.
       ok (mk \<lparr>sq_count = count, sq_raw = raw, sq_base = start, sq_depth = depth + 1\<rparr>)) r)"

definition Data_decode_at :: "nat \<Rightarrow> (Reader, Data) op" where
  "Data_decode_at depth =
     (if depth \<ge> MAX_DEPTH then rd_fail DepthExceeded
      else try_bind read_tag (\<lambda>tag.
        case scalar_arm tag of
          Some f \<Rightarrow> f
        | None \<Rightarrow>
            (case tag of
               TArray \<Rightarrow> seq_arm depth DArray
             | TStructure \<Rightarrow> seq_arm depth DStructure
             | TBitString \<Rightarrow> try_bind Reader_length (\<lambda>bits.
                 try_bind (Reader_take (div_ceil bits 8)) (\<lambda>b. ok (DBitString \<lparr>bs_bits = bits, bs_bytes = b\<rparr>)))
             | _ \<Rightarrow> try_bind (CompactArray_decode_body (depth + 1)) (\<lambda>c. ok (DCompactArray c)))))"

definition Data_decode :: "(Reader, Data) op" where
  "Data_decode = Data_decode_at 0"

text \<open>The iterator over a sequence: how many elements are left and the reader they come from.\<close>

record SeqIter =
  si_reader :: Reader
  si_left :: nat
  si_depth :: nat

definition Seq_iter :: "Seq \<Rightarrow> SeqIter" where
  "Seq_iter s = \<lparr>si_reader = Reader_with_base (sq_raw s) (sq_base s), si_left = sq_count s, si_depth = sq_depth s\<rparr>"

definition SeqIter_next :: "SeqIter \<Rightarrow> Data result option \<times> SeqIter" where
  "SeqIter_next it =
     (if si_left it = 0 then (None, it)
      else case Data_decode_at (si_depth it) (si_reader it) of
        (res, r') \<Rightarrow> (Some res, it\<lparr>si_left := si_left it - 1, si_reader := r'\<rparr>))"

text \<open>\<^verbatim>\<open>Iterator::nth\<close>: the elements before the index are decoded and dropped, errors included.\<close>

primrec SeqIter_nth :: "nat \<Rightarrow> SeqIter \<Rightarrow> Data result option" where
  "SeqIter_nth 0 it = fst (SeqIter_next it)"
| "SeqIter_nth (Suc n) it =
     (case SeqIter_next it of (None, _) \<Rightarrow> None | (Some _, it') \<Rightarrow> SeqIter_nth n it')"

definition Seq_get :: "Seq \<Rightarrow> nat \<Rightarrow> Data result" where
  "Seq_get s index = (case SeqIter_nth index (Seq_iter s) of
     None \<Rightarrow> Inl (Error_new InvalidLength (sq_base s)) | Some res \<Rightarrow> res)"

subsection \<open>Accessors\<close>

text \<open>The value of an integer tag; \<open>None\<close> also for an unsigned value beyond the range of \<^verbatim>\<open>i64\<close>.\<close>

fun Data_as_i64 :: "Data \<Rightarrow> int option" where
  "Data_as_i64 (DInteger v) = Some (sint v)"
| "Data_as_i64 (DDeltaInteger v) = Some (sint v)"
| "Data_as_i64 (DLong v) = Some (sint v)"
| "Data_as_i64 (DDeltaLong v) = Some (sint v)"
| "Data_as_i64 (DDoubleLong v) = Some (sint v)"
| "Data_as_i64 (DDeltaDoubleLong v) = Some (sint v)"
| "Data_as_i64 (DLong64 v) = Some (sint v)"
| "Data_as_i64 (DUnsigned v) = Some (uint v)"
| "Data_as_i64 (DDeltaUnsigned v) = Some (uint v)"
| "Data_as_i64 (DLongUnsigned v) = Some (uint v)"
| "Data_as_i64 (DDeltaLongUnsigned v) = Some (uint v)"
| "Data_as_i64 (DDoubleLongUnsigned v) = Some (uint v)"
| "Data_as_i64 (DDeltaDoubleLongUnsigned v) = Some (uint v)"
| "Data_as_i64 (DEnum v) = Some (uint v)"
| "Data_as_i64 (DLong64Unsigned v) = (if uint v < 2 ^ 63 then Some (uint v) else None)"
| "Data_as_i64 _ = None"

fun Data_as_u64 :: "Data \<Rightarrow> int option" where
  "Data_as_u64 (DLong64Unsigned v) = Some (uint v)"
| "Data_as_u64 d = (case Data_as_i64 d of None \<Rightarrow> None | Some v \<Rightarrow> if 0 \<le> v then Some v else None)"

fun Data_as_bcd :: "Data \<Rightarrow> u8 option" where
  "Data_as_bcd (DBcd b) =
     (let high = drop_bit 4 b; low = b AND 0x0F
      in if high > 9 \<or> low > 9 then None else Some (high * 10 + low))"
| "Data_as_bcd _ = None"

fun Data_as_bool :: "Data \<Rightarrow> bool option" where
  "Data_as_bool (DBoolean v) = Some v"
| "Data_as_bool _ = None"

fun Data_as_bytes :: "Data \<Rightarrow> bytes option" where
  "Data_as_bytes (DOctetString b) = Some b"
| "Data_as_bytes (DVisibleString b) = Some b"
| "Data_as_bytes (DUtf8String b) = Some b"
| "Data_as_bytes _ = None"

fun Data_as_seq :: "Data \<Rightarrow> Seq option" where
  "Data_as_seq (DArray s) = Some s"
| "Data_as_seq (DStructure s) = Some s"
| "Data_as_seq _ = None"

fun Data_as_structure :: "Data \<Rightarrow> Seq option" where
  "Data_as_structure (DStructure s) = Some s"
| "Data_as_structure _ = None"

fun Data_as_array :: "Data \<Rightarrow> Seq option" where
  "Data_as_array (DArray s) = Some s"
| "Data_as_array _ = None"

definition Data_field :: "Data \<Rightarrow> nat \<Rightarrow> Data result" where
  "Data_field d index = (case Data_as_structure d of
     None \<Rightarrow> Inl (Error_new InvalidValue 0) | Some s \<Rightarrow> Seq_get s index)"

definition Data_is_delta :: "Data \<Rightarrow> bool" where
  "Data_is_delta d \<longleftrightarrow> DataTag_is_delta (Data_tag d)"

subsection \<open>Encoding\<close>

fun Data_encode_body :: "Data \<Rightarrow> (writer, unit) op" where
  "Data_encode_body DNull = ok ()"
| "Data_encode_body (DArray s) = try_bind (write_length (sq_count s)) (\<lambda>_. write_bytes (sq_raw s))"
| "Data_encode_body (DStructure s) = try_bind (write_length (sq_count s)) (\<lambda>_. write_bytes (sq_raw s))"
| "Data_encode_body (DBoolean v) = write_u8 (of_bool v)"
| "Data_encode_body (DBitString b) = try_bind (write_length (bs_bits b)) (\<lambda>_. write_bytes (bs_bytes b))"
| "Data_encode_body (DDoubleLong v) = write_u32 v"
| "Data_encode_body (DDoubleLongUnsigned v) = write_u32 v"
| "Data_encode_body (DOctetString v) = write_length_prefixed v"
| "Data_encode_body (DVisibleString v) = write_length_prefixed v"
| "Data_encode_body (DUtf8String v) = write_length_prefixed v"
| "Data_encode_body (DBcd v) = write_u8 v"
| "Data_encode_body (DInteger v) = write_u8 v"
| "Data_encode_body (DLong v) = write_u16 v"
| "Data_encode_body (DUnsigned v) = write_u8 v"
| "Data_encode_body (DLongUnsigned v) = write_u16 v"
| "Data_encode_body (DCompactArray c) = CompactArray_encode_body c"
| "Data_encode_body (DLong64 v) = write_u64 v"
| "Data_encode_body (DLong64Unsigned v) = write_u64 v"
| "Data_encode_body (DEnum v) = write_u8 v"
| "Data_encode_body (DFloat32 v) = write_u32 v"
| "Data_encode_body (DFloat64 v) = write_u64 v"
| "Data_encode_body (DDateTime v) = write_bytes (DateTime_to_bytes v)"
| "Data_encode_body (DDate v) = write_bytes (Date_to_bytes v)"
| "Data_encode_body (DTime v) = write_bytes (Time_to_bytes v)"
| "Data_encode_body (DDeltaInteger v) = write_u8 v"
| "Data_encode_body (DDeltaLong v) = write_u16 v"
| "Data_encode_body (DDeltaDoubleLong v) = write_u32 v"
| "Data_encode_body (DDeltaUnsigned v) = write_u8 v"
| "Data_encode_body (DDeltaLongUnsigned v) = write_u16 v"
| "Data_encode_body (DDeltaDoubleLongUnsigned v) = write_u32 v"
| "Data_encode_body DDontCare = ok ()"

definition Data_encode :: "Data \<Rightarrow> (writer, unit) op" where
  "Data_encode d = try_bind (write_u8 (DataTag_as_u8 (Data_tag d))) (\<lambda>_. Data_encode_body d)"

subsection \<open>Tags\<close>

lemma DataTag_round_trip [simp]: "DataTag_from_u8 (DataTag_as_u8 t) = Some t"
  by (cases t) (simp_all add: DataTag_from_u8_def)

lemma DataTag_from_u8_as_u8: "DataTag_from_u8 v = Some t \<Longrightarrow> DataTag_as_u8 t = v"
  by (auto simp: DataTag_from_u8_def split: if_splits)

subsection \<open>Position independence\<close>

text \<open>
  A reading operation is local when it looks only at the bytes still to come: run on a probe over them it gives the
  same answer and walks over the same number of bytes.
\<close>

definition local_op :: "(Reader, 'a) op \<Rightarrow> bool" where
  "local_op f \<longleftrightarrow> (\<forall>r. rd_wf r \<longrightarrow> (\<exists>res n. n \<le> length (Reader_rest r) \<and>
     f r = (res, rd_advance n r) \<and> f (probe_of r) = (res, rd_advance n (probe_of r))))"

named_theorems local_intro \<open>which reading operations are local\<close>

lemma probe_of_simps [simp]:
  "Reader_rest (probe_of r) = Reader_rest r" "Reader_offset (probe_of r) = Reader_offset r" "rd_wf (probe_of r)"
  "rd_pos (probe_of r) = 0" "probe_of (probe_of r) = probe_of r"
  by (simp_all add: probe_of_def Reader_with_base_def Reader_rest_def Reader_offset_def rd_wf_def)

lemma rd_wf_advance: "rd_wf r \<Longrightarrow> n \<le> length (Reader_rest r) \<Longrightarrow> rd_wf (rd_advance n r)"
  by (simp add: rd_wf_def Reader_rest_def)

lemma Reader_rest_advance: "Reader_rest (rd_advance n r) = drop n (Reader_rest r)"
  by (simp add: Reader_rest_def add.commute)

lemma probe_of_advance: "probe_of (rd_advance n (probe_of r)) = probe_of (rd_advance n r)"
  by (simp add: probe_of_def Reader_rest_advance) (simp add: Reader_with_base_def Reader_offset_def Reader_rest_def)

lemma rd_advance_inject: "rd_advance n r = rd_advance m r \<longleftrightarrow> n = m"
  by (cases r) (simp add: rd_advance_def)

lemma local_opE:
  assumes "local_op f" "rd_wf r"
  obtains res n where "n \<le> length (Reader_rest r)" "f r = (res, rd_advance n r)" "f (probe_of r) = (res, rd_advance n (probe_of r))"
  using assms unfolding local_op_def by blast

lemma local_bind [local_intro]:
  assumes f: "local_op f" and k: "\<And>x. local_op (k x)"
  shows "local_op (try_bind f k)"
  unfolding local_op_def
proof (intro allI impI)
  fix r assume wf: "rd_wf r"
  obtain res n where n: "n \<le> length (Reader_rest r)" "f r = (res, rd_advance n r)" "f (probe_of r) = (res, rd_advance n (probe_of r))"
    using local_opE [OF f wf] .
  show "\<exists>res n. n \<le> length (Reader_rest r) \<and> try_bind f k r = (res, rd_advance n r) \<and>
      try_bind f k (probe_of r) = (res, rd_advance n (probe_of r))"
  proof (cases res)
    case (Inl e)
    then show ?thesis using n by (intro exI [of _ "Inl e"] exI [of _ n]) (simp add: try_bind_def)
  next
    case (Inr x)
    obtain res1 m where m: "m \<le> length (Reader_rest (rd_advance n r))" "k x (rd_advance n r) = (res1, rd_advance m (rd_advance n r))"
      "k x (probe_of (rd_advance n r)) = (res1, rd_advance m (probe_of (rd_advance n r)))"
      using local_opE [OF k rd_wf_advance [OF wf n(1)]] .
    have "rd_wf (rd_advance n (probe_of r))" by (rule rd_wf_advance) (use n(1) in simp_all)
    then obtain res2 m' where m': "m' \<le> length (Reader_rest (rd_advance n (probe_of r)))"
      "k x (rd_advance n (probe_of r)) = (res2, rd_advance m' (rd_advance n (probe_of r)))"
      "k x (probe_of (rd_advance n (probe_of r))) = (res2, rd_advance m' (probe_of (rd_advance n (probe_of r))))"
      using local_opE [OF k] by blast
    have "res2 = res1" "m' = m" using m(3) m'(3) by (simp_all add: probe_of_advance rd_advance_inject)
    then show ?thesis
      using n m m'(2) Inr by (intro exI [of _ res1] exI [of _ "n + m"]) (simp add: try_bind_def Reader_rest_advance)
  qed
qed

lemma local_ok [local_intro]: "local_op (ok x)"
  by (auto simp: local_op_def intro: exI [of _ 0])

lemma local_rd_fail [local_intro]: "local_op (rd_fail k)"
  by (auto simp: local_op_def rd_fail_def Reader_err_def intro: exI [of _ 0])

lemma local_rd_fail_back [local_intro]: "local_op (rd_fail_back k m)"
  by (auto simp: local_op_def rd_fail_back_def Reader_err_back_def intro: exI [of _ 0])

lemma local_take [local_intro]: "local_op (Reader_take n)"
  unfolding local_op_def
  by (auto simp: Reader_take_eq Reader_err_def intro: exI [of _ 0])

lemma local_u8 [local_intro]: "local_op Reader_u8"
  unfolding local_op_def
  by (auto simp: Reader_u8_eq Reader_err_def split: list.splits intro: exI [of _ 0])

lemma local_array [local_intro]: "local_op (Reader_array n)"
  unfolding Reader_array_def by (intro local_intro)

lemma local_ints [local_intro]: "local_op Reader_u16" "local_op Reader_u32" "local_op Reader_u64" "local_op (Reader_skip n)"
  unfolding Reader_u16_def Reader_u32_def Reader_u64_def Reader_skip_def by (intro local_intro)+

lemma local_if [local_intro]: "(c \<Longrightarrow> local_op f) \<Longrightarrow> (\<not> c \<Longrightarrow> local_op g) \<Longrightarrow> local_op (if c then f else g)"
  by simp

lemma local_length [local_intro]: "local_op Reader_length" "local_op Reader_length_prefixed"
  unfolding Reader_length_prefixed_def Reader_length_def Let_def by (intro local_intro)+

lemma local_repeat [local_intro]: "local_op f \<Longrightarrow> local_op (repeat_op n f)"
  by (induction n) (auto intro: local_intro)

lemma local_offset: "(\<And>off. local_op (f off)) \<Longrightarrow> local_op (\<lambda>r. f (Reader_offset r) r)"
  unfolding local_op_def by fastforce

lemma probed_eq:
  assumes "local_op f" "rd_wf r"
  shows "probed f r = (case f r of (Inl e, _) \<Rightarrow> (Inl e, r)
    | (Inr _, r') \<Rightarrow> (Inr (take (rd_pos r' - rd_pos r) (Reader_rest r)), r'))"
proof -
  obtain res n where n: "n \<le> length (Reader_rest r)" "f r = (res, rd_advance n r)" "f (probe_of r) = (res, rd_advance n (probe_of r))"
    using local_opE [OF assms] .
  then show ?thesis
    using assms(2) by (cases res) (simp_all add: probed_def Reader_consumed_def Reader_take_eq)
qed

lemma local_probed [local_intro]: "local_op f \<Longrightarrow> local_op (probed f)"
  unfolding local_op_def [of "probed f"]
proof (intro allI impI)
  fix r assume f: "local_op f" and wf: "rd_wf r"
  obtain res n where n: "n \<le> length (Reader_rest r)" "f r = (res, rd_advance n r)" "f (probe_of r) = (res, rd_advance n (probe_of r))"
    using local_opE [OF f wf] .
  show "\<exists>res n. n \<le> length (Reader_rest r) \<and> probed f r = (res, rd_advance n r) \<and> probed f (probe_of r) = (res, rd_advance n (probe_of r))"
    using n by (cases res) (auto simp: probed_eq [OF f wf] probed_eq [OF f, of "probe_of r"] intro: exI [of _ 0])
qed

lemma local_read_tag [local_intro]: "local_op read_tag"
  unfolding read_tag_def by (intro local_intro) (auto split: option.splits intro: local_intro)

lemma local_TypeDesc_parse_at [local_intro]: "local_op (TypeDesc_parse_at d)"
proof (induction d rule: TypeDesc_parse_at.induct)
  case (1 d)
  show ?case
    unfolding TypeDesc_parse_at.simps [of d]
    by (intro local_intro) (auto split: DataTag.splits intro!: local_intro 1 [simplified])
qed

lemma local_TypeDesc_skip_at [local_intro]: "local_op (TypeDesc_skip_at d)"
  unfolding TypeDesc_skip_at_def by (intro local_intro)

lemma local_compact_body [local_intro]: "local_op (CompactArray_decode_body d)"
proof (cases "d \<ge> MAX_DEPTH")
  case True
  then have "CompactArray_decode_body d = rd_fail DepthExceeded" by (simp add: fun_eq_iff CompactArray_decode_body_def)
  then show ?thesis by (simp add: local_rd_fail)
next
  case False
  define body where "body desc_base desc = try_bind Reader_length (\<lambda>len r. try_bind (Reader_take len) (\<lambda>contents.
      ok \<lparr>ca_desc = desc, ca_contents = contents, ca_desc_base = desc_base, ca_contents_base = Reader_offset r, ca_depth = d\<rparr>) r)"
    for desc_base desc
  have "local_op (\<lambda>r. try_bind (Reader_take len) (\<lambda>contents.
      ok \<lparr>ca_desc = desc, ca_contents = contents, ca_desc_base = desc_base, ca_contents_base = Reader_offset r, ca_depth = d\<rparr>) r)"
    for len desc desc_base
    by (rule local_offset [where f = "\<lambda>off. try_bind (Reader_take len) (\<lambda>contents.
      ok \<lparr>ca_desc = desc, ca_contents = contents, ca_desc_base = desc_base, ca_contents_base = off, ca_depth = d\<rparr>)"])
      (intro local_intro)
  then have "local_op (body desc_base desc)" for desc_base desc unfolding body_def by (intro local_intro)
  then have "local_op (try_bind (probed (TypeDesc_skip_at d)) (body desc_base))" for desc_base by (intro local_intro)
  then have "local_op (\<lambda>r. try_bind (probed (TypeDesc_skip_at d)) (body (Reader_offset r)) r)"
    by (rule local_offset [where f = "\<lambda>off. try_bind (probed (TypeDesc_skip_at d)) (body off)"])
  moreover have "CompactArray_decode_body d = (\<lambda>r. try_bind (probed (TypeDesc_skip_at d)) (body (Reader_offset r)) r)"
    using False by (simp add: fun_eq_iff CompactArray_decode_body_def body_def [abs_def] Let_def)
  ultimately show ?thesis by simp
qed

lemma local_compact_skip [local_intro]: "local_op (CompactArray_skip_body d)"
  unfolding CompactArray_skip_body_def by (intro local_intro)

lemma local_Data_skip [local_intro]: "local_op (Data_skip d)"
proof (induction d rule: Data_skip.induct)
  case (1 d)
  show ?case
    unfolding Data_skip.simps [of d]
    by (intro local_intro) (auto split: DataTag.splits option.splits intro!: local_intro 1 [simplified])
qed

subsection \<open>Skipping and decoding\<close>

text \<open>Two operations walk over the same bytes.\<close>

definition same_extent :: "(Reader, 'a) op \<Rightarrow> (Reader, 'b) op \<Rightarrow> bool" where
  "same_extent f g \<longleftrightarrow> (\<forall>r r'. rd_wf r \<longrightarrow> (\<exists>x. f r = (Inr x, r')) = (\<exists>y. g r = (Inr y, r')))"

named_theorems same_intro \<open>operations that walk over the same bytes\<close>

lemma same_refl [same_intro]: "same_extent f f"
  by (simp add: same_extent_def)

lemma same_trans: "same_extent f g \<Longrightarrow> same_extent g h \<Longrightarrow> same_extent f h"
  by (simp add: same_extent_def)

lemma same_sym: "same_extent f g \<Longrightarrow> same_extent g f"
  by (simp add: same_extent_def)

lemma same_fail: "same_extent (rd_fail k) (rd_fail k')"
  by (simp add: same_extent_def rd_fail_def)

lemma same_map: "same_extent (try_bind m (\<lambda>x. ok (h x))) m"
  by (auto simp: same_extent_def try_bind_def split: sum.splits prod.splits)

lemma same_map_left: "same_extent m g \<Longrightarrow> same_extent (try_bind m (\<lambda>x. ok (h x))) g"
  by (rule same_trans [OF same_map])

lemma same_map_right: "same_extent f m \<Longrightarrow> same_extent f (try_bind m (\<lambda>x. ok (h x)))"
  by (erule same_trans [OF _ same_sym [OF same_map]])

lemma same_bind [same_intro]:
  assumes m: "local_op m" and k: "\<And>x. same_extent (f x) (g x)"
  shows "same_extent (try_bind m f) (try_bind m g)"
  unfolding same_extent_def
proof (intro allI impI)
  fix r r' assume wf: "rd_wf r"
  obtain res n where n: "n \<le> length (Reader_rest r)" "m r = (res, rd_advance n r)" using local_opE [OF m wf] by blast
  show "(\<exists>x. try_bind m f r = (Inr x, r')) = (\<exists>y. try_bind m g r = (Inr y, r'))"
    using k rd_wf_advance [OF wf n(1)] n(2) by (cases res) (auto simp: try_bind_def same_extent_def)
qed

lemma same_take_skip: "same_extent (Reader_take n) (Reader_skip n)"
  unfolding Reader_skip_def by (intro same_map_right same_refl)

lemma same_array_skip: "same_extent (Reader_array n) (Reader_skip n)"
  unfolding Reader_array_def using same_map_left [OF same_take_skip [of n], of "\<lambda>x. x"] by simp

lemma same_u8_skip: "same_extent Reader_u8 (Reader_skip 1)"
proof -
  have "same_extent Reader_u8 (Reader_take 1)"
    unfolding same_extent_def by (auto simp: Reader_u8_eq Reader_take_eq split: list.splits)
  then show ?thesis using same_trans same_take_skip by blast
qed

lemma same_ints_skip: "same_extent Reader_u16 (Reader_skip 2)" "same_extent Reader_u32 (Reader_skip 4)" "same_extent Reader_u64 (Reader_skip 8)"
  unfolding Reader_u16_def Reader_u32_def Reader_u64_def by (intro same_map_left same_array_skip)+

lemma same_ok_skip: "same_extent (ok x) (Reader_skip 0)"
  by (auto simp: same_extent_def Reader_skip_def try_bind_def Reader_take_eq)

lemma same_length_prefixed: "same_extent Reader_length_prefixed (try_bind Reader_length Reader_skip)"
  unfolding Reader_length_prefixed_def by (intro same_bind local_length same_take_skip)

lemmas same_scalar = same_map_left [OF same_u8_skip] same_map_left [OF same_ints_skip(1)] same_map_left [OF same_ints_skip(2)]
  same_map_left [OF same_ints_skip(3)] same_map_left [OF same_array_skip] same_ok_skip same_map_left [OF same_length_prefixed]

lemma same_probed: "local_op f \<Longrightarrow> same_extent (probed f) f"
  by (auto simp: same_extent_def probed_eq split: sum.splits prod.splits)

lemma seq_arm_same: "same_extent (seq_arm d mk) (try_bind Reader_length (\<lambda>count. repeat_op count (Data_skip (d + 1))))"
proof -
  have "same_extent (\<lambda>r. let start = Reader_offset r in
      try_bind (probed (repeat_op count (Data_skip (d + 1)))) (\<lambda>raw. ok (mk \<lparr>sq_count = count, sq_raw = raw, sq_base = start, sq_depth = d + 1\<rparr>)) r)
      (repeat_op count (Data_skip (d + 1)))" for count
    unfolding same_extent_def Let_def
  proof (intro allI impI)
    fix r r' assume "rd_wf r"
    then show "(\<exists>x. try_bind (probed (repeat_op count (Data_skip (d + 1))))
        (\<lambda>raw. ok (mk \<lparr>sq_count = count, sq_raw = raw, sq_base = Reader_offset r, sq_depth = d + 1\<rparr>)) r = (Inr x, r')) =
        (\<exists>y. repeat_op count (Data_skip (d + 1)) r = (Inr y, r'))"
      using same_map_left [OF same_probed [OF local_repeat [OF local_Data_skip]],
          of count "d + 1" "\<lambda>raw. mk \<lparr>sq_count = count, sq_raw = raw, sq_base = Reader_offset r, sq_depth = d + 1\<rparr>"]
      by (simp add: same_extent_def)
  qed
  then show ?thesis unfolding seq_arm_def by (intro same_bind local_length)
qed

lemma Data_decode_skip_same: "same_extent (Data_decode_at d) (Data_skip d)"
proof (cases "d \<ge> MAX_DEPTH")
  case True
  then show ?thesis unfolding Data_decode_at_def Data_skip.simps [of d] by (simp add: same_fail)
next
  case False
  define arm where "arm tag = (case scalar_arm tag of Some f \<Rightarrow> f | None \<Rightarrow>
      (case tag of TArray \<Rightarrow> seq_arm d DArray | TStructure \<Rightarrow> seq_arm d DStructure
        | TBitString \<Rightarrow> try_bind Reader_length (\<lambda>bits.
            try_bind (Reader_take (div_ceil bits 8)) (\<lambda>b. ok (DBitString \<lparr>bs_bits = bits, bs_bytes = b\<rparr>)))
        | _ \<Rightarrow> try_bind (CompactArray_decode_body (d + 1)) (\<lambda>c. ok (DCompactArray c))))" for tag
  define skp where "skp tag = (case DataTag_fixed_len tag of Some n \<Rightarrow> Reader_skip n | None \<Rightarrow>
      (case tag of TArray \<Rightarrow> try_bind Reader_length (\<lambda>count. repeat_op count (Data_skip (d + 1)))
        | TStructure \<Rightarrow> try_bind Reader_length (\<lambda>count. repeat_op count (Data_skip (d + 1)))
        | TBitString \<Rightarrow> try_bind Reader_length (\<lambda>bits. Reader_skip (div_ceil bits 8))
        | TOctetString \<Rightarrow> try_bind Reader_length Reader_skip | TVisibleString \<Rightarrow> try_bind Reader_length Reader_skip
        | TUtf8String \<Rightarrow> try_bind Reader_length Reader_skip | TCompactArray \<Rightarrow> CompactArray_skip_body (d + 1)
        | _ \<Rightarrow> rd_fail (InvalidTag (DataTag_as_u8 tag))))" for tag
  have bits: "same_extent (try_bind Reader_length (\<lambda>bits. try_bind (Reader_take (div_ceil bits 8)) (\<lambda>b. ok (DBitString \<lparr>bs_bits = bits, bs_bytes = b\<rparr>))))
      (try_bind Reader_length (\<lambda>bits. Reader_skip (div_ceil bits 8)))"
    by (intro same_bind local_length same_map_left same_take_skip)
  have comp: "same_extent (try_bind (CompactArray_decode_body (d + 1)) (\<lambda>c. ok (DCompactArray c))) (CompactArray_skip_body (d + 1))"
    unfolding CompactArray_skip_body_def by (intro same_map_left same_map_right same_refl)
  have "same_extent (arm tag) (skp tag)" for tag
    using bits comp seq_arm_same [of d] same_scalar unfolding arm_def skp_def by (cases tag) (simp_all del: One_nat_def)
  then have "same_extent (try_bind read_tag arm) (try_bind read_tag skp)" by (intro same_bind local_read_tag)
  moreover have "Data_decode_at d = try_bind read_tag arm" "Data_skip d = try_bind read_tag skp"
    using False unfolding Data_decode_at_def Data_skip.simps [of d] arm_def [abs_def] skp_def [abs_def] by simp_all
  ultimately show ?thesis by simp
qed

text \<open>Skipping a value and decoding it agree on where it ends: at every depth and at every position of a buffer, one
  succeeds exactly when the other does, and both leave the cursor at the same byte.\<close>

theorem data_skip_agrees_with_decode:
  assumes "rd_wf r"
  shows "(\<exists>x. Data_decode_at depth r = (Inr x, r')) \<longleftrightarrow> Data_skip depth r = (Inr (), r')"
  using Data_decode_skip_same [of depth] assms by (auto simp: same_extent_def)

theorem data_skip_agrees_with_decode_witness:
  "\<exists>x. Data_decode_at 0 (Reader_new [0x02, 0x01, 0x11, 0x2A]) = (Inr x, \<lparr>rd_buf = [0x02, 0x01, 0x11, 0x2A], rd_pos = 4, rd_base = 0\<rparr>)"
proof -
  have "Data_skip 0 (Reader_new [0x02, 0x01, 0x11, 0x2A]) = (Inr (), \<lparr>rd_buf = [0x02, 0x01, 0x11, 0x2A], rd_pos = 4, rd_base = 0\<rparr>)"
    by code_simp
  then show ?thesis using data_skip_agrees_with_decode [of "Reader_new [0x02, 0x01, 0x11, 0x2A]" 0] by simp
qed

subsection \<open>The decoder stays inside its buffer\<close>

lemma safe_repeat [safe_intro]: "safe_dec n f \<Longrightarrow> safe_dec n (repeat_op k f)"
  by (induction k) (auto intro: safe_intro)

lemma safe_probed [safe_intro]:
  assumes f: "safe_dec 0 f" "local_op f"
  shows "safe_dec n (probed f)"
proof (rule safe_decI)
  fix r res r' assume r: "rd_wf r" "n \<le> rd_pos r" and run: "probed f r = (res, r')"
  obtain fr k where k: "k \<le> length (Reader_rest r)" "f r = (fr, rd_advance k r)" using local_opE [OF f(2) r(1)] by blast
  have "rd_base r \<le> Reader_offset r" by (simp add: Reader_offset_def)
  have wf: "rd_wf (rd_advance k r)" by (rule rd_wf_advance [OF r(1) k(1)])
  show "rd_buf r' = rd_buf r \<and> rd_base r' = rd_base r \<and> rd_pos r \<le> rd_pos r' \<and> rd_wf r' \<and>
     (\<forall>e. res = Inl e \<longrightarrow> Reader_offset r \<le> err_offset e + n \<and> err_offset e \<le> rd_base r + length (rd_buf r))"
    using run safe_decD [OF f(1) r(1) _ k(2)] r(1) wf k
    by (cases fr) (auto simp: probed_eq [OF f(2) r(1)])
qed

lemma safe_read_tag_bind:
  assumes "\<And>t. safe_dec (Suc n) (f t)"
  shows "safe_dec n (try_bind read_tag f)"
  unfolding read_tag_def try_bind_assoc
proof (rule safe_u8_bind)
  fix b show "safe_dec (Suc n) (try_bind (case DataTag_from_u8 b of None \<Rightarrow> rd_fail_back (InvalidTag b) 1 | Some tag \<Rightarrow> ok tag) f)"
    using assms by (cases "DataTag_from_u8 b") (auto intro!: safe_bind safe_rd_fail_back)
qed

lemma safe_TypeDesc_parse_at: "safe_dec n (TypeDesc_parse_at d)"
proof (induction d arbitrary: n rule: TypeDesc_parse_at.induct)
  case (1 d)
  show ?case
    unfolding TypeDesc_parse_at.simps [of d]
    by (rule safe_if [OF safe_rd_fail], rule safe_read_tag_bind)
      (auto split: DataTag.splits intro!: safe_intro local_intro 1 [simplified])
qed

lemma safe_TypeDesc_skip_at [safe_intro]: "safe_dec n (TypeDesc_skip_at d)"
  unfolding TypeDesc_skip_at_def by (intro safe_intro safe_TypeDesc_parse_at)

lemma safe_compact_body [safe_intro]: "safe_dec n (CompactArray_decode_body d)"
proof -
  have inner: "safe_dec n (\<lambda>r. try_bind (Reader_take len) (\<lambda>contents.
      ok \<lparr>ca_desc = desc, ca_contents = contents, ca_desc_base = desc_base, ca_contents_base = Reader_offset r, ca_depth = d\<rparr>) r)"
    for n len desc desc_base
    by (rule safe_state [where f = "\<lambda>r0. try_bind (Reader_take len) (\<lambda>contents.
      ok \<lparr>ca_desc = desc, ca_contents = contents, ca_desc_base = desc_base, ca_contents_base = Reader_offset r0, ca_depth = d\<rparr>)"])
      (intro safe_intro)
  have "safe_dec n (if d \<ge> MAX_DEPTH then rd_fail DepthExceeded else
      try_bind (probed (TypeDesc_skip_at d)) (\<lambda>desc. try_bind Reader_length (\<lambda>len r. try_bind (Reader_take len) (\<lambda>contents.
      ok \<lparr>ca_desc = desc, ca_contents = contents, ca_desc_base = Reader_offset r0, ca_contents_base = Reader_offset r, ca_depth = d\<rparr>) r)))" for r0
    by (intro safe_intro local_intro inner)
  then have "safe_dec n (\<lambda>r0. (if d \<ge> MAX_DEPTH then rd_fail DepthExceeded else
      try_bind (probed (TypeDesc_skip_at d)) (\<lambda>desc. try_bind Reader_length (\<lambda>len r. try_bind (Reader_take len) (\<lambda>contents.
      ok \<lparr>ca_desc = desc, ca_contents = contents, ca_desc_base = Reader_offset r0, ca_contents_base = Reader_offset r, ca_depth = d\<rparr>) r))) r0)"
    by (rule safe_state [where f = "\<lambda>r0. if d \<ge> MAX_DEPTH then rd_fail DepthExceeded else
      try_bind (probed (TypeDesc_skip_at d)) (\<lambda>desc. try_bind Reader_length (\<lambda>len r. try_bind (Reader_take len) (\<lambda>contents.
      ok \<lparr>ca_desc = desc, ca_contents = contents, ca_desc_base = Reader_offset r0, ca_contents_base = Reader_offset r, ca_depth = d\<rparr>) r))"])
  then show ?thesis unfolding CompactArray_decode_body_def [abs_def] Let_def by (simp add: if_distrib [of "\<lambda>f. f _"] cong: if_cong)
qed

lemma safe_Data_skip [safe_intro]: "safe_dec n (Data_skip d)"
proof (induction d arbitrary: n rule: Data_skip.induct)
  case (1 d)
  show ?case
    unfolding Data_skip.simps [of d] CompactArray_skip_body_def
    by (rule safe_if [OF safe_rd_fail], rule safe_read_tag_bind)
      (auto split: DataTag.splits option.splits intro!: safe_intro 1 [simplified])
qed

lemma safe_seq_arm [safe_intro]: "safe_dec n (seq_arm d mk)"
proof -
  have "safe_dec n (\<lambda>r. try_bind (probed (repeat_op count (Data_skip (d + 1)))) (\<lambda>raw.
      ok (mk \<lparr>sq_count = count, sq_raw = raw, sq_base = Reader_offset r, sq_depth = d + 1\<rparr>)) r)" for n count
    by (rule safe_state [where f = "\<lambda>r0. try_bind (probed (repeat_op count (Data_skip (d + 1)))) (\<lambda>raw.
      ok (mk \<lparr>sq_count = count, sq_raw = raw, sq_base = Reader_offset r0, sq_depth = d + 1\<rparr>))"]) (intro safe_intro local_intro)
  then show ?thesis unfolding seq_arm_def Let_def by (intro safe_intro)
qed

lemma safe_scalar_arm: "scalar_arm tag = Some f \<Longrightarrow> safe_dec n f"
  by (cases tag) (auto intro!: safe_intro)

lemma safe_Data_decode_at [safe_intro]: "safe_dec n (Data_decode_at d)"
  unfolding Data_decode_at_def
proof (rule safe_if [OF safe_rd_fail], rule safe_read_tag_bind)
  fix t
  show "safe_dec (Suc n) (case scalar_arm t of Some f \<Rightarrow> f | None \<Rightarrow>
      (case t of TArray \<Rightarrow> seq_arm d DArray | TStructure \<Rightarrow> seq_arm d DStructure
       | TBitString \<Rightarrow> try_bind Reader_length (\<lambda>bits. try_bind (Reader_take (div_ceil bits 8)) (\<lambda>b. ok (DBitString \<lparr>bs_bits = bits, bs_bytes = b\<rparr>)))
       | _ \<Rightarrow> try_bind (CompactArray_decode_body (d + 1)) (\<lambda>c. ok (DCompactArray c))))"
    using safe_scalar_arm [of t] by (cases "scalar_arm t") (auto split: DataTag.splits intro!: safe_intro)
qed

interpretation data_cursor: cursor_decoder Data_decode
  by unfold_locales (simp add: Data_decode_def safe_Data_decode_at)

text \<open>Whatever bytes it is given, the decoder of values never leaves its buffer, never moves its cursor back, and every
  error it reports points into the bytes it was reading, offset by where they sat in the frame.\<close>

theorem data_decode_stays_inside:
  assumes "Data_decode (Reader_with_base b base) = (res, r')"
  shows "rd_buf r' = b \<and> rd_pos r' \<le> length b \<and> (\<forall>e. res = Inl e \<longrightarrow> base \<le> err_offset e \<and> err_offset e \<le> base + length b)"
  using data_cursor.stays_inside [OF assms] by blast

theorem data_decode_stays_inside_witness:
  "\<exists>e r'. Data_decode (Reader_with_base [0x01, 0x02, 0x11] 7) = (Inl e, r') \<and> 7 \<le> err_offset e \<and> err_offset e \<le> 10"
proof -
  have "isl (fst (Data_decode (Reader_with_base [0x01, 0x02, 0x11] 7)))" by code_simp
  then obtain e r' where run: "Data_decode (Reader_with_base [0x01, 0x02, 0x11] 7) = (Inl e, r')"
    by (cases "Data_decode (Reader_with_base [0x01, 0x02, 0x11] 7)") (auto simp: isl_def)
  from data_decode_stays_inside [OF run] run show ?thesis by auto
qed

end
