(* ===== verification/AxdrTree.thy ===== *)
theory AxdrTree
  imports Axdr
begin

text \<open>
  The owned value tree of \<^verbatim>\<open>src/src/axdr/data.rs\<close> (\<^verbatim>\<open>DataBuf\<close>) and the expansion of a compact array in
  \<^verbatim>\<open>src/src/axdr/compact.rs\<close>, with the budget of nodes that bounds it.  The loops over the contents of a compact
  array end because every row spends from that budget, and the recursion of \<^verbatim>\<open>from_data\<close> because every sequence it
  reads sits one level deeper.
\<close>

datatype DataBuf =
    BNull | BArray "DataBuf list" | BStructure "DataBuf list" | BBoolean bool | BBitString nat bytes
  | BDoubleLong u32 | BDoubleLongUnsigned u32 | BOctetString bytes | BVisibleString bytes | BUtf8String bytes
  | BBcd u8 | BInteger u8 | BLong u16 | BUnsigned u8 | BLongUnsigned u16
  | BLong64 u64 | BLong64Unsigned u64 | BEnum u8 | BFloat32 u32 | BFloat64 u64
  | BDateTime DateTime | BDate Date | BTime Time | BDeltaInteger u8 | BDeltaLong u16
  | BDeltaDoubleLong u32 | BDeltaUnsigned u8 | BDeltaLongUnsigned u16 | BDeltaDoubleLongUnsigned u32 | BDontCare

subsection \<open>Encoding\<close>

text \<open>The tag bytes are a table of their own in the source, not \<^verbatim>\<open>DataTag::as_u8\<close>.\<close>

fun DataBuf_tag :: "DataBuf \<Rightarrow> u8" where
  "DataBuf_tag BNull = 0"
| "DataBuf_tag (BArray _) = 1"
| "DataBuf_tag (BStructure _) = 2"
| "DataBuf_tag (BBoolean _) = 3"
| "DataBuf_tag (BBitString _ _) = 4"
| "DataBuf_tag (BDoubleLong _) = 5"
| "DataBuf_tag (BDoubleLongUnsigned _) = 6"
| "DataBuf_tag (BOctetString _) = 9"
| "DataBuf_tag (BVisibleString _) = 10"
| "DataBuf_tag (BUtf8String _) = 12"
| "DataBuf_tag (BBcd _) = 13"
| "DataBuf_tag (BInteger _) = 15"
| "DataBuf_tag (BLong _) = 16"
| "DataBuf_tag (BUnsigned _) = 17"
| "DataBuf_tag (BLongUnsigned _) = 18"
| "DataBuf_tag (BLong64 _) = 20"
| "DataBuf_tag (BLong64Unsigned _) = 21"
| "DataBuf_tag (BEnum _) = 22"
| "DataBuf_tag (BFloat32 _) = 23"
| "DataBuf_tag (BFloat64 _) = 24"
| "DataBuf_tag (BDateTime _) = 25"
| "DataBuf_tag (BDate _) = 26"
| "DataBuf_tag (BTime _) = 27"
| "DataBuf_tag (BDeltaInteger _) = 28"
| "DataBuf_tag (BDeltaLong _) = 29"
| "DataBuf_tag (BDeltaDoubleLong _) = 30"
| "DataBuf_tag (BDeltaUnsigned _) = 31"
| "DataBuf_tag (BDeltaLongUnsigned _) = 32"
| "DataBuf_tag (BDeltaDoubleLongUnsigned _) = 33"
| "DataBuf_tag BDontCare = 255"

text \<open>\<^verbatim>\<open>for e in v { e.encode(w)?; }\<close>\<close>

primrec in_turn :: "('s, unit) op list \<Rightarrow> ('s, unit) op" where
  "in_turn [] = ok ()"
| "in_turn (f # fs) = try_bind f (\<lambda>_. in_turn fs)"

primrec DataBuf_encode :: "DataBuf \<Rightarrow> (writer, unit) op" where
  "DataBuf_encode BNull = try_bind (write_u8 (DataBuf_tag BNull)) (\<lambda>_. ok ())"
| "DataBuf_encode (BArray v) = try_bind (write_u8 (DataBuf_tag (BArray v))) (\<lambda>_. try_bind (write_length (length v)) (\<lambda>_. in_turn (map DataBuf_encode v)))"
| "DataBuf_encode (BStructure v) = try_bind (write_u8 (DataBuf_tag (BStructure v))) (\<lambda>_. try_bind (write_length (length v)) (\<lambda>_. in_turn (map DataBuf_encode v)))"
| "DataBuf_encode (BBoolean v) = try_bind (write_u8 (DataBuf_tag (BBoolean v))) (\<lambda>_. write_u8 (of_bool v))"
| "DataBuf_encode (BBitString bits bytes) = try_bind (write_u8 (DataBuf_tag (BBitString bits bytes))) (\<lambda>_. try_bind (write_length bits) (\<lambda>_. write_bytes bytes))"
| "DataBuf_encode (BDoubleLong v) = try_bind (write_u8 (DataBuf_tag (BDoubleLong v))) (\<lambda>_. write_u32 v)"
| "DataBuf_encode (BDoubleLongUnsigned v) = try_bind (write_u8 (DataBuf_tag (BDoubleLongUnsigned v))) (\<lambda>_. write_u32 v)"
| "DataBuf_encode (BOctetString v) = try_bind (write_u8 (DataBuf_tag (BOctetString v))) (\<lambda>_. write_length_prefixed v)"
| "DataBuf_encode (BVisibleString v) = try_bind (write_u8 (DataBuf_tag (BVisibleString v))) (\<lambda>_. write_length_prefixed v)"
| "DataBuf_encode (BUtf8String v) = try_bind (write_u8 (DataBuf_tag (BUtf8String v))) (\<lambda>_. write_length_prefixed v)"
| "DataBuf_encode (BBcd v) = try_bind (write_u8 (DataBuf_tag (BBcd v))) (\<lambda>_. write_u8 v)"
| "DataBuf_encode (BInteger v) = try_bind (write_u8 (DataBuf_tag (BInteger v))) (\<lambda>_. write_u8 v)"
| "DataBuf_encode (BLong v) = try_bind (write_u8 (DataBuf_tag (BLong v))) (\<lambda>_. write_u16 v)"
| "DataBuf_encode (BUnsigned v) = try_bind (write_u8 (DataBuf_tag (BUnsigned v))) (\<lambda>_. write_u8 v)"
| "DataBuf_encode (BLongUnsigned v) = try_bind (write_u8 (DataBuf_tag (BLongUnsigned v))) (\<lambda>_. write_u16 v)"
| "DataBuf_encode (BLong64 v) = try_bind (write_u8 (DataBuf_tag (BLong64 v))) (\<lambda>_. write_u64 v)"
| "DataBuf_encode (BLong64Unsigned v) = try_bind (write_u8 (DataBuf_tag (BLong64Unsigned v))) (\<lambda>_. write_u64 v)"
| "DataBuf_encode (BEnum v) = try_bind (write_u8 (DataBuf_tag (BEnum v))) (\<lambda>_. write_u8 v)"
| "DataBuf_encode (BFloat32 v) = try_bind (write_u8 (DataBuf_tag (BFloat32 v))) (\<lambda>_. write_u32 v)"
| "DataBuf_encode (BFloat64 v) = try_bind (write_u8 (DataBuf_tag (BFloat64 v))) (\<lambda>_. write_u64 v)"
| "DataBuf_encode (BDateTime v) = try_bind (write_u8 (DataBuf_tag (BDateTime v))) (\<lambda>_. write_bytes (DateTime_to_bytes v))"
| "DataBuf_encode (BDate v) = try_bind (write_u8 (DataBuf_tag (BDate v))) (\<lambda>_. write_bytes (Date_to_bytes v))"
| "DataBuf_encode (BTime v) = try_bind (write_u8 (DataBuf_tag (BTime v))) (\<lambda>_. write_bytes (Time_to_bytes v))"
| "DataBuf_encode (BDeltaInteger v) = try_bind (write_u8 (DataBuf_tag (BDeltaInteger v))) (\<lambda>_. write_u8 v)"
| "DataBuf_encode (BDeltaLong v) = try_bind (write_u8 (DataBuf_tag (BDeltaLong v))) (\<lambda>_. write_u16 v)"
| "DataBuf_encode (BDeltaDoubleLong v) = try_bind (write_u8 (DataBuf_tag (BDeltaDoubleLong v))) (\<lambda>_. write_u32 v)"
| "DataBuf_encode (BDeltaUnsigned v) = try_bind (write_u8 (DataBuf_tag (BDeltaUnsigned v))) (\<lambda>_. write_u8 v)"
| "DataBuf_encode (BDeltaLongUnsigned v) = try_bind (write_u8 (DataBuf_tag (BDeltaLongUnsigned v))) (\<lambda>_. write_u16 v)"
| "DataBuf_encode (BDeltaDoubleLongUnsigned v) = try_bind (write_u8 (DataBuf_tag (BDeltaDoubleLongUnsigned v))) (\<lambda>_. write_u32 v)"
| "DataBuf_encode BDontCare = try_bind (write_u8 (DataBuf_tag BDontCare)) (\<lambda>_. ok ())"

subsection \<open>Expanding a compact array\<close>

definition MAX_COMPACT_NODES :: nat where
  "MAX_COMPACT_NODES = 2 ^ 20"

text \<open>What a walk changes: the reader over the contents and the nodes left to spend.\<close>

record walk_state =
  wk_contents :: Reader
  wk_budget :: nat

text \<open>An operation on the contents, inside a walk.\<close>

definition on_contents :: "(Reader, 'a) op \<Rightarrow> (walk_state, 'a) op" where
  "on_contents f st = (case f (wk_contents st) of (res, r) \<Rightarrow> (res, st\<lparr>wk_contents := r\<rparr>))"

definition spend :: "(walk_state, unit) op" where
  "spend st = (if wk_budget st = 0 then (Inl (Reader_err (wk_contents st) WorkExceeded), st)
     else (Inr (), st\<lparr>wk_budget := wk_budget st - 1\<rparr>))"

definition ensure_progress :: "Reader \<Rightarrow> nat \<Rightarrow> unit result" where
  "ensure_progress contents before =
     (if Reader_offset contents = before then Inl (Reader_err contents InvalidValue) else Inr ())"

definition leaf :: "DataTag \<Rightarrow> (Reader, Data) op" where
  "leaf tag =
     (case scalar_arm tag of
        Some f \<Rightarrow> f
      | None \<Rightarrow>
          (case tag of
             TBitString \<Rightarrow> try_bind Reader_length (\<lambda>bits.
               try_bind (Reader_take (div_ceil bits 8)) (\<lambda>b.
                 case BitStr_new bits b of
                   Inl _ \<Rightarrow> rd_fail InvalidLength
                 | Inr s \<Rightarrow> ok (DBitString s)))
           | _ \<Rightarrow> rd_fail (InvalidTag (DataTag_as_u8 tag))))"

text \<open>\<^verbatim>\<open>for _ in 0..count { let inner = TypeDesc::parse(&mut dr)?; .. }\<close>\<close>

primrec each_field :: "nat \<Rightarrow> Reader \<Rightarrow> (TypeDesc \<Rightarrow> ('s, unit) op) \<Rightarrow> ('s, unit) op" where
  "each_field 0 dr g = ok ()"
| "each_field (Suc n) dr g =
     (case TypeDesc_parse dr of
        (Inl e, _) \<Rightarrow> fail e
      | (Inr inner, dr') \<Rightarrow> try_bind (g inner) (\<lambda>_. each_field n dr' g))"

text \<open>The same loops when every pass pushes a value.\<close>

primrec collect_op :: "nat \<Rightarrow> ('s, 'a) op \<Rightarrow> ('s, 'a list) op" where
  "collect_op 0 f = ok []"
| "collect_op (Suc n) f = try_bind f (\<lambda>x. try_bind (collect_op n f) (\<lambda>xs. ok (x # xs)))"

primrec collect_fields :: "nat \<Rightarrow> Reader \<Rightarrow> (TypeDesc \<Rightarrow> ('s, 'a) op) \<Rightarrow> ('s, 'a list) op" where
  "collect_fields 0 dr g = ok []"
| "collect_fields (Suc n) dr g =
     (case TypeDesc_parse dr of
        (Inl e, _) \<Rightarrow> fail e
      | (Inr inner, dr') \<Rightarrow> try_bind (g inner) (\<lambda>x. try_bind (collect_fields n dr' g) (\<lambda>xs. ok (x # xs))))"

text \<open>\<open>fst_op\<close> and \<open>snd_op\<close> act on the walk and on what the visitor closure has captured.\<close>

definition fst_op :: "('s, 'a) op \<Rightarrow> ('s \<times> 'c, 'a) op" where
  "fst_op f p = (case f (fst p) of (res, s) \<Rightarrow> (res, (s, snd p)))"

definition snd_op :: "('c, 'a) op \<Rightarrow> ('s \<times> 'c, 'a) op" where
  "snd_op f p = (case f (snd p) of (res, c) \<Rightarrow> (res, (fst p, c)))"

function walk :: "(Data \<Rightarrow> ('c, unit) op) \<Rightarrow> nat \<Rightarrow> TypeDesc \<Rightarrow> (walk_state \<times> 'c, unit) op" where
  "walk f depth desc =
     (if depth \<ge> MAX_DEPTH then fst_op (on_contents (rd_fail DepthExceeded))
      else try_bind (fst_op spend) (\<lambda>_.
        case desc of
          TdScalar tag \<Rightarrow> try_bind (fst_op (on_contents (leaf tag))) (\<lambda>v. snd_op (f v))
        | TdArray len elem \<Rightarrow> try_bind (lift_res (fst (TypeDesc_parse (Reader_new elem)))) (\<lambda>inner.
            repeat_op (unat len) (walk f (depth + 1) inner))
        | TdStructure count flds \<Rightarrow> each_field count (Reader_new flds) (\<lambda>inner. walk f (depth + 1) inner)))"
  by pat_completeness auto
termination by (relation "measure (\<lambda>(f, d, t). MAX_DEPTH - d)") auto

declare walk.simps [simp del]

subsection \<open>Owning a borrowed value\<close>

text \<open>
  The arms of \<^verbatim>\<open>DataBuf::from_data\<close> that copy a scalar; the arrays, structures and compact arrays are in
  \<open>DataBuf_from_data\<close> below.
\<close>

fun DataBuf_scalar :: "Data \<Rightarrow> DataBuf option" where
  "DataBuf_scalar DNull = Some (BNull)"
| "DataBuf_scalar (DBoolean v) = Some (BBoolean v)"
| "DataBuf_scalar (DBitString b) = Some (BBitString (bs_bits b) (bs_bytes b))"
| "DataBuf_scalar (DDoubleLong v) = Some (BDoubleLong v)"
| "DataBuf_scalar (DDoubleLongUnsigned v) = Some (BDoubleLongUnsigned v)"
| "DataBuf_scalar (DOctetString v) = Some (BOctetString v)"
| "DataBuf_scalar (DVisibleString v) = Some (BVisibleString v)"
| "DataBuf_scalar (DUtf8String v) = Some (BUtf8String v)"
| "DataBuf_scalar (DBcd v) = Some (BBcd v)"
| "DataBuf_scalar (DInteger v) = Some (BInteger v)"
| "DataBuf_scalar (DLong v) = Some (BLong v)"
| "DataBuf_scalar (DUnsigned v) = Some (BUnsigned v)"
| "DataBuf_scalar (DLongUnsigned v) = Some (BLongUnsigned v)"
| "DataBuf_scalar (DLong64 v) = Some (BLong64 v)"
| "DataBuf_scalar (DLong64Unsigned v) = Some (BLong64Unsigned v)"
| "DataBuf_scalar (DEnum v) = Some (BEnum v)"
| "DataBuf_scalar (DFloat32 v) = Some (BFloat32 v)"
| "DataBuf_scalar (DFloat64 v) = Some (BFloat64 v)"
| "DataBuf_scalar (DDateTime v) = Some (BDateTime v)"
| "DataBuf_scalar (DDate v) = Some (BDate v)"
| "DataBuf_scalar (DTime v) = Some (BTime v)"
| "DataBuf_scalar (DDeltaInteger v) = Some (BDeltaInteger v)"
| "DataBuf_scalar (DDeltaLong v) = Some (BDeltaLong v)"
| "DataBuf_scalar (DDeltaDoubleLong v) = Some (BDeltaDoubleLong v)"
| "DataBuf_scalar (DDeltaUnsigned v) = Some (BDeltaUnsigned v)"
| "DataBuf_scalar (DDeltaLongUnsigned v) = Some (BDeltaLongUnsigned v)"
| "DataBuf_scalar (DDeltaDoubleLongUnsigned v) = Some (BDeltaDoubleLongUnsigned v)"
| "DataBuf_scalar DDontCare = Some (BDontCare)"
| "DataBuf_scalar _ = None"

text \<open>
  In \<^verbatim>\<open>build\<close> the argument of \<^verbatim>\<open>from_data\<close> is what \<^verbatim>\<open>leaf\<close> returned, which is never an array, a structure or a
  compact array (\<open>leaf_scalar\<close> below), so the copying arms are the ones that run.
\<close>

definition own_leaf :: "Data \<Rightarrow> (walk_state, DataBuf) op" where
  "own_leaf d = (case DataBuf_scalar d of Some b \<Rightarrow> ok b | None \<Rightarrow> fail (Error_new Unsupported 0))"

function build :: "nat \<Rightarrow> TypeDesc \<Rightarrow> (walk_state, DataBuf) op" where
  "build depth desc =
     (if depth \<ge> MAX_DEPTH then on_contents (rd_fail DepthExceeded)
      else try_bind spend (\<lambda>_.
        case desc of
          TdScalar tag \<Rightarrow> try_bind (on_contents (leaf tag)) own_leaf
        | TdArray len elem \<Rightarrow> try_bind (lift_res (fst (TypeDesc_parse (Reader_new elem)))) (\<lambda>inner.
            try_bind (collect_op (unat len) (build (depth + 1) inner)) (\<lambda>v. ok (BArray v)))
        | TdStructure count flds \<Rightarrow>
            try_bind (collect_fields count (Reader_new flds) (\<lambda>inner. build (depth + 1) inner)) (\<lambda>v. ok (BStructure v))))"
  by pat_completeness auto
termination by (relation "measure (\<lambda>(d, t). MAX_DEPTH - d)") auto

declare build.simps [simp del]

subsection \<open>A walk only spends\<close>

definition shrinks :: "('s \<Rightarrow> nat) \<Rightarrow> ('s, 'a) op \<Rightarrow> bool" where
  "shrinks \<mu> f \<longleftrightarrow> (\<forall>s res s'. f s = (res, s') \<longrightarrow> \<mu> s' \<le> \<mu> s)"

named_theorems shrinks_intro \<open>operations that never raise a measure\<close>

lemma shrinksD: "shrinks \<mu> f \<Longrightarrow> f s = (res, s') \<Longrightarrow> \<mu> s' \<le> \<mu> s"
  by (simp add: shrinks_def)

lemma shrinks_ok [shrinks_intro]: "shrinks \<mu> (ok x)" "shrinks \<mu> (fail e)" "shrinks \<mu> (lift_res m)"
  by (simp_all add: shrinks_def)

lemma shrinks_bind [shrinks_intro]:
  assumes "shrinks \<mu> m" "\<And>x. shrinks \<mu> (k x)"
  shows "shrinks \<mu> (try_bind m k)"
  using assms unfolding shrinks_def try_bind_def
  by (fastforce split: sum.splits prod.splits dest: order_trans)

lemma shrinks_if [shrinks_intro]:
  "(c \<Longrightarrow> shrinks \<mu> f) \<Longrightarrow> (\<not> c \<Longrightarrow> shrinks \<mu> g) \<Longrightarrow> shrinks \<mu> (if c then f else g)"
  by simp

lemma shrinks_repeat [shrinks_intro]: "shrinks \<mu> f \<Longrightarrow> shrinks \<mu> (repeat_op n f)"
  by (induction n) (auto intro: shrinks_intro)

lemma shrinks_collect [shrinks_intro]: "shrinks \<mu> f \<Longrightarrow> shrinks \<mu> (collect_op n f)"
  by (induction n) (auto intro!: shrinks_intro)

lemma shrinks_each_field [shrinks_intro]: "(\<And>t. shrinks \<mu> (g t)) \<Longrightarrow> shrinks \<mu> (each_field n dr g)"
  by (induction n arbitrary: dr) (auto intro!: shrinks_intro split: sum.splits prod.splits)

lemma shrinks_collect_fields [shrinks_intro]: "(\<And>t. shrinks \<mu> (g t)) \<Longrightarrow> shrinks \<mu> (collect_fields n dr g)"
  by (induction n arbitrary: dr) (auto intro!: shrinks_intro split: sum.splits prod.splits)

lemma shrinks_on_contents [shrinks_intro]: "shrinks wk_budget (on_contents f)"
  by (auto simp: shrinks_def on_contents_def split: prod.splits)

lemma shrinks_spend [shrinks_intro]: "shrinks wk_budget spend"
  by (auto simp: shrinks_def spend_def split: if_splits)

lemma shrinks_fst_op [shrinks_intro]: "shrinks \<mu> f \<Longrightarrow> shrinks (\<lambda>p. \<mu> (fst p)) (fst_op f)"
  by (auto simp: shrinks_def fst_op_def split: prod.splits)

lemma shrinks_snd_op [shrinks_intro]: "shrinks (\<lambda>p. \<mu> (fst p)) (snd_op f)"
  by (auto simp: shrinks_def snd_op_def split: prod.splits)

lemma shrinks_own_leaf [shrinks_intro]: "shrinks \<mu> (own_leaf d)"
  by (cases "DataBuf_scalar d") (auto simp: own_leaf_def intro: shrinks_intro)

lemma spend_strict: "spend st = (Inr x, st') \<Longrightarrow> wk_budget st' < wk_budget st"
  by (auto simp: spend_def split: if_splits)

text \<open>The part of a step of the walk or of the builder that comes after its node has been paid for.\<close>

lemma paid_strict:
  assumes "try_bind pay k s = (Inr y, s')" "\<And>x t. pay s = (Inr x, t) \<Longrightarrow> \<mu> t < \<mu> s" "\<And>x. shrinks \<mu> (k x)"
  shows "\<mu> s' < \<mu> s"
proof -
  from assms(1) obtain x t where "pay s = (Inr x, t)" "k x t = (Inr y, s')" by (rule try_bind_InrE)
  with assms(2,3) show ?thesis by (meson order.strict_trans1 shrinksD)
qed

lemma shrinks_build [shrinks_intro]: "shrinks wk_budget (build depth desc)"
proof (induction depth desc rule: build.induct)
  case (1 depth desc)
  show ?case
    unfolding build.simps [of depth desc]
    by (intro shrinks_intro) (cases desc; auto intro!: shrinks_intro intro: 1 [simplified])
qed

lemma shrinks_walk [shrinks_intro]: "shrinks (\<lambda>p. wk_budget (fst p)) (walk f depth desc)"
proof (induction f depth desc rule: walk.induct)
  case (1 f depth desc)
  show ?case
    unfolding walk.simps [of f depth desc]
    by (intro shrinks_intro) (cases desc; auto intro!: shrinks_intro intro: 1 [simplified])
qed

lemma build_strict: "build depth desc st = (Inr t, st') \<Longrightarrow> wk_budget st' < wk_budget st"
  unfolding build.simps [of depth desc]
  by (auto split: if_splits TypeDesc.splits simp: on_contents_def rd_fail_def
      intro!: shrinks_intro dest: spend_strict elim!: paid_strict [where \<mu> = wk_budget])

lemma walk_strict: "walk f depth desc p = (Inr u, p') \<Longrightarrow> wk_budget (fst p') < wk_budget (fst p)"
  unfolding walk.simps [of f depth desc]
  by (auto split: if_splits TypeDesc.splits prod.splits simp: on_contents_def rd_fail_def fst_op_def
      intro!: shrinks_intro dest: spend_strict elim!: paid_strict [where \<mu> = "\<lambda>p. wk_budget (fst p)"])

subsection \<open>The loops over the rows\<close>

definition CompactArray_description :: "CompactArray \<Rightarrow> TypeDesc result" where
  "CompactArray_description c = fst (TypeDesc_parse_at (ca_depth c) (Reader_with_base (ca_desc c) (ca_desc_base c)))"

text \<open>The state every loop starts in: \<^verbatim>\<open>Reader::with_base(self.contents, ..)\<close> and \<^verbatim>\<open>Budget::new()\<close>.\<close>

definition walk_start :: "CompactArray \<Rightarrow> walk_state" where
  "walk_start c = \<lparr>wk_contents = Reader_with_base (ca_contents c) (ca_contents_base c), wk_budget = MAX_COMPACT_NODES\<rparr>"

function row_count_from :: "TypeDesc \<Rightarrow> nat \<Rightarrow> walk_state \<Rightarrow> nat \<Rightarrow> nat result" where
  "row_count_from desc depth st rows =
     (if Reader_is_empty (wk_contents st) then Inr rows
      else case walk (\<lambda>_. ok ()) depth desc (st, ()) of
        (Inl e, _) \<Rightarrow> Inl e
      | (Inr _, (st', _)) \<Rightarrow>
          res_bind (ensure_progress (wk_contents st') (Reader_offset (wk_contents st))) (\<lambda>_.
            row_count_from desc depth st' (rows + 1)))"
  by pat_completeness auto
termination by (relation "measure (\<lambda>(t, d, st, n). wk_budget st)") (auto dest!: walk_strict [OF sym])

function to_rows_from :: "TypeDesc \<Rightarrow> nat \<Rightarrow> walk_state \<Rightarrow> DataBuf list \<Rightarrow> DataBuf list result" where
  "to_rows_from desc depth st out =
     (if Reader_is_empty (wk_contents st) then Inr out
      else case build depth desc st of
        (Inl e, _) \<Rightarrow> Inl e
      | (Inr row, st') \<Rightarrow>
          res_bind (ensure_progress (wk_contents st') (Reader_offset (wk_contents st))) (\<lambda>_.
            to_rows_from desc depth st' (out @ [row])))"
  by pat_completeness auto
termination by (relation "measure (\<lambda>(t, d, st, n). wk_budget st)") (auto dest!: build_strict [OF sym])

record CompactLeaf =
  cl_row :: nat
  cl_column :: nat
  cl_value :: Data

text \<open>The closure of \<^verbatim>\<open>for_each_leaf\<close>: it has captured the column counter and what the caller's visitor captured.\<close>

definition leaf_visitor :: "(CompactLeaf \<Rightarrow> ('c, unit) op) \<Rightarrow> nat \<Rightarrow> Data \<Rightarrow> (nat \<times> 'c, unit) op" where
  "leaf_visitor f row v = (\<lambda>(column, c).
     case f \<lparr>cl_row = row, cl_column = column, cl_value = v\<rparr> c of (res, c') \<Rightarrow> (res, (column + 1, c')))"

function for_each_leaf_from ::
  "(CompactLeaf \<Rightarrow> ('c, unit) op) \<Rightarrow> TypeDesc \<Rightarrow> nat \<Rightarrow> walk_state \<Rightarrow> nat \<Rightarrow> ('c, unit) op" where
  "for_each_leaf_from f desc depth st row c =
     (if Reader_is_empty (wk_contents st) then (Inr (), c)
      else case walk (leaf_visitor f row) depth desc (st, (0, c)) of
        (Inl e, (_, (_, c'))) \<Rightarrow> (Inl e, c')
      | (Inr _, (st', (_, c'))) \<Rightarrow>
          (case ensure_progress (wk_contents st') (Reader_offset (wk_contents st)) of
             Inl e \<Rightarrow> (Inl e, c')
           | Inr _ \<Rightarrow> for_each_leaf_from f desc depth st' (row + 1) c'))"
  by pat_completeness auto
termination by (relation "measure (\<lambda>(f, t, d, st, n, c). wk_budget st)") (auto dest!: walk_strict [OF sym])

declare row_count_from.simps [simp del] to_rows_from.simps [simp del] for_each_leaf_from.simps [simp del]

definition row_count :: "CompactArray \<Rightarrow> nat result" where
  "row_count c = res_bind (CompactArray_description c) (\<lambda>desc. row_count_from desc (ca_depth c) (walk_start c) 0)"

definition to_rows :: "CompactArray \<Rightarrow> DataBuf list result" where
  "to_rows c = res_bind (CompactArray_description c) (\<lambda>desc. to_rows_from desc (ca_depth c) (walk_start c) [])"

definition for_each_leaf :: "(CompactLeaf \<Rightarrow> ('c, unit) op) \<Rightarrow> CompactArray \<Rightarrow> ('c, unit) op" where
  "for_each_leaf f c = try_bind (lift_res (CompactArray_description c)) (\<lambda>desc.
     for_each_leaf_from f desc (ca_depth c) (walk_start c) 0)"

text \<open>\<^verbatim>\<open>usize\<close> where the product of array lengths can overflow it: sixty-four bits.\<close>

definition checked_mul :: "nat \<Rightarrow> nat \<Rightarrow> nat option" where
  "checked_mul a b = (if a * b < 2 ^ 64 then Some (a * b) else None)"

definition checked_add :: "nat \<Rightarrow> nat \<Rightarrow> nat option" where
  "checked_add a b = (if a + b < 2 ^ 64 then Some (a + b) else None)"

definition or_overflow :: "nat option \<Rightarrow> nat result" where
  "or_overflow n = (case n of None \<Rightarrow> Inl (Error_new InvalidLength 0) | Some v \<Rightarrow> Inr v)"

primrec sum_fields :: "nat \<Rightarrow> nat \<Rightarrow> Reader \<Rightarrow> (TypeDesc \<Rightarrow> nat result) \<Rightarrow> nat \<Rightarrow> nat result" where
  "sum_fields 0 depth r g n = Inr n"
| "sum_fields (Suc k) depth r g n =
     (case TypeDesc_parse_at depth r of
        (Inl e, _) \<Rightarrow> Inl e
      | (Inr field, r') \<Rightarrow> res_bind (g field) (\<lambda>m. res_bind (or_overflow (checked_add n m)) (sum_fields k depth r' g)))"

function leaf_count_at :: "nat \<Rightarrow> TypeDesc \<Rightarrow> nat result" where
  "leaf_count_at depth desc =
     (if depth \<ge> MAX_DEPTH then Inl (Error_new DepthExceeded 0)
      else case desc of
        TdScalar _ \<Rightarrow> Inr 1
      | TdArray len elem \<Rightarrow>
          res_bind (fst (TypeDesc_parse_at (depth + 1) (Reader_new elem))) (\<lambda>inner.
          res_bind (leaf_count_at (depth + 1) inner) (\<lambda>m. or_overflow (checked_mul (unat len) m)))
      | TdStructure count flds \<Rightarrow>
          sum_fields count (depth + 1) (Reader_new flds) (\<lambda>field. leaf_count_at (depth + 1) field) 0)"
  by pat_completeness auto
termination by (relation "measure (\<lambda>(d, t). MAX_DEPTH - d)") auto

declare leaf_count_at.simps [simp del]

definition leaf_count :: "TypeDesc \<Rightarrow> nat result" where
  "leaf_count desc = leaf_count_at 0 desc"

definition row_len :: "CompactArray \<Rightarrow> nat result" where
  "row_len c = res_bind (CompactArray_description c) leaf_count"

text \<open>How deep the elements of a value sit, for the recursion below.\<close>

fun Data_rank :: "Data \<Rightarrow> nat" where
  "Data_rank (DArray s) = Suc (MAX_DEPTH - sq_depth s)"
| "Data_rank (DStructure s) = Suc (MAX_DEPTH - sq_depth s)"
| "Data_rank _ = 0"

lemma leaf_scalar: "leaf tag r = (Inr d, r') \<Longrightarrow> \<exists>b. DataBuf_scalar d = Some b"
  by (cases tag) (auto simp: leaf_def BitStr_new_def rd_fail_def elim!: try_bind_InrE split: if_splits)

lemma scalar_arm_rank: "scalar_arm tag = Some f \<Longrightarrow> f r = (Inr d, r') \<Longrightarrow> Data_rank d = 0"
  by (cases tag) (auto elim!: try_bind_InrE)

lemma seq_arm_InrE:
  assumes "seq_arm depth mk r = (Inr d, r')"
  obtains s where "d = mk s" "sq_depth s = depth + 1"
  using assms by (auto simp: seq_arm_def Let_def elim!: try_bind_InrE)

lemma Data_decode_at_rank:
  assumes "Data_decode_at depth r = (Inr d, r')"
  shows "depth < MAX_DEPTH" "Data_rank d \<le> MAX_DEPTH - depth"
proof -
  show lt: "depth < MAX_DEPTH" using assms by (auto simp: Data_decode_at_def rd_fail_def split: if_splits)
  have arms: "seq_arm depth DArray s = (Inr d, s') \<Longrightarrow> Data_rank d \<le> MAX_DEPTH - depth"
    "seq_arm depth DStructure s = (Inr d, s') \<Longrightarrow> Data_rank d \<le> MAX_DEPTH - depth"
    "scalar_arm tag = Some f \<Longrightarrow> f s = (Inr d, s') \<Longrightarrow> Data_rank d \<le> MAX_DEPTH - depth" for s s' tag f
    using lt scalar_arm_rank by (fastforce elim!: seq_arm_InrE)+
  show "Data_rank d \<le> MAX_DEPTH - depth"
    using assms lt
    by (auto simp: Data_decode_at_def elim!: try_bind_InrE split: option.splits DataTag.splits)
      (metis arms)+
qed

lemma SeqIter_next_Some:
  assumes "SeqIter_next it = (Some res, it')"
  shows "si_left it' < si_left it" "si_depth it' = si_depth it"
    "res = Inr d \<Longrightarrow> si_depth it < MAX_DEPTH \<and> Data_rank d \<le> MAX_DEPTH - si_depth it"
  using assms by (auto simp: SeqIter_next_def dest: Data_decode_at_rank split: if_splits prod.splits)

function DataBuf_from_data :: "Data \<Rightarrow> DataBuf result"
  and DataBuf_from_iter :: "SeqIter \<Rightarrow> DataBuf list result" where
  "DataBuf_from_data d =
     (case DataBuf_scalar d of
        Some b \<Rightarrow> Inr b
      | None \<Rightarrow>
          (case d of
             DArray s \<Rightarrow> res_bind (DataBuf_from_iter (Seq_iter s)) (\<lambda>v. Inr (BArray v))
           | DStructure s \<Rightarrow> res_bind (DataBuf_from_iter (Seq_iter s)) (\<lambda>v. Inr (BStructure v))
           | DCompactArray c \<Rightarrow> res_bind (to_rows c) (\<lambda>v. Inr (BArray v))
           | _ \<Rightarrow> Inl (Error_new Unsupported 0)))"
| "DataBuf_from_iter it =
     (case SeqIter_next it of
        (None, _) \<Rightarrow> Inr []
      | (Some (Inl e), _) \<Rightarrow> Inl e
      | (Some (Inr d), it') \<Rightarrow>
          res_bind (DataBuf_from_data d) (\<lambda>b. res_bind (DataBuf_from_iter it') (\<lambda>bs. Inr (b # bs))))"
  by pat_completeness auto
termination
proof (relation "(\<lambda>x. case x of Inl d \<Rightarrow> 2 * Data_rank d | Inr it \<Rightarrow> 2 * Suc (MAX_DEPTH - si_depth it) - 1) <*mlex*>
    measure (\<lambda>x. case x of Inl d \<Rightarrow> 0 | Inr it \<Rightarrow> si_left it)", goal_cases)
  case 1
  show ?case by (simp add: wf_mlex)
next
  case (2 d s)
  then show ?case by (simp add: mlex_prod_def Seq_iter_def)
next
  case (3 d s)
  then show ?case by (simp add: mlex_prod_def Seq_iter_def)
next
  case (4 it x y res d)
  then have "SeqIter_next it = (Some (Inr d), y)" by simp
  from SeqIter_next_Some(3) [OF this, of d] show ?case by (auto simp: mlex_prod_def)
next
  case (5 it x y res d)
  then have "SeqIter_next it = (Some (Inr d), y)" by simp
  from SeqIter_next_Some(1,2) [OF this] show ?case by (auto simp: mlex_prod_def)
qed

declare DataBuf_from_data.simps [simp del] DataBuf_from_iter.simps [simp del]

definition DataBuf_parse :: "bytes \<Rightarrow> DataBuf result" where
  "DataBuf_parse bs = res_bind (from_bytes Data_decode bs) DataBuf_from_data"

subsection \<open>Counting rows and building them\<close>

text \<open>
  \<open>tracks R m g\<close>: the operation \<open>g\<close>, which also carries a closure's state, does to the walk what \<open>m\<close> does, fails
  with the same error, and returns a value related to the one \<open>m\<close> returns.
\<close>

definition tracks :: "('a \<Rightarrow> 'b \<Rightarrow> bool) \<Rightarrow> ('s, 'a) op \<Rightarrow> ('s \<times> 'c, 'b) op \<Rightarrow> bool" where
  "tracks R m g \<longleftrightarrow> (\<forall>s c. case m s of
     (Inl e, s') \<Rightarrow> g (s, c) = (Inl e, (s', c))
   | (Inr x, s') \<Rightarrow> \<exists>y. g (s, c) = (Inr y, (s', c)) \<and> R x y)"

named_theorems tracks_intro \<open>operations that track each other\<close>

lemma tracksD:
  "tracks R m g \<Longrightarrow> case m s of (Inl e, s') \<Rightarrow> g (s, c) = (Inl e, (s', c)) | (Inr x, s') \<Rightarrow> \<exists>y. g (s, c) = (Inr y, (s', c)) \<and> R x y"
  unfolding tracks_def by (elim allE)

lemma tracks_bind:
  assumes m: "tracks R m g" and k: "\<And>x y. R x y \<Longrightarrow> tracks S (k x) (h y)"
  shows "tracks S (try_bind m k) (try_bind g h)"
  unfolding tracks_def
proof (intro allI)
  fix s c
  have step: "case m s of (Inl e, s') \<Rightarrow> g (s, c) = (Inl e, (s', c)) | (Inr x, s') \<Rightarrow> \<exists>y. g (s, c) = (Inr y, (s', c)) \<and> R x y"
    using m by (rule tracksD)
  show "case try_bind m k s of (Inl e, s') \<Rightarrow> try_bind g h (s, c) = (Inl e, (s', c))
    | (Inr x, s') \<Rightarrow> \<exists>y. try_bind g h (s, c) = (Inr y, (s', c)) \<and> S x y"
  proof (cases "m s")
    case (Pair res s')
    show ?thesis
    proof (cases res)
      case (Inl e)
      then show ?thesis using Pair step by (simp add: try_bind_def)
    next
      case (Inr x)
      then obtain y where y: "g (s, c) = (Inr y, (s', c))" "R x y" using Pair step by auto
      have eqs: "try_bind m k s = k x s'" "try_bind g h (s, c) = h y (s', c)" using Pair Inr y(1) by (simp_all add: try_bind_def)
      show ?thesis unfolding eqs by (rule tracksD [OF k [OF y(2)]])
    qed
  qed
qed

lemma tracks_fst_op [tracks_intro]: "tracks (=) m (fst_op m)"
  by (auto simp: tracks_def fst_op_def split: prod.splits sum.splits)

lemma tracks_lift_res [tracks_intro]: "tracks (=) (lift_res x) (lift_res x)"
  by (auto simp: tracks_def split: sum.splits)

lemma tracks_ok: "R x y \<Longrightarrow> tracks R (ok x) (ok y)"
  by (simp add: tracks_def)

lemma tracks_map_left: "tracks (\<lambda>_ _. True) m g \<Longrightarrow> tracks (\<lambda>_ _. True) (try_bind m (\<lambda>x. ok (h x))) g"
  unfolding tracks_def try_bind_def by (fastforce split: prod.splits sum.splits)

lemma tracks_fail: "tracks R (fail e) (fail e)"
  by (simp add: tracks_def)

lemma tracks_collect:
  "tracks (\<lambda>_ _. True) f g \<Longrightarrow> tracks (\<lambda>_ _. True) (collect_op n f) (repeat_op n g)"
  by (induction n) (auto intro!: tracks_ok tracks_bind tracks_map_left)

lemma tracks_collect_fields:
  "(\<And>t. tracks (\<lambda>_ _. True) (f t) (g t)) \<Longrightarrow> tracks (\<lambda>_ _. True) (collect_fields n dr f) (each_field n dr g)"
  by (induction n arbitrary: dr)
    (auto intro!: tracks_ok tracks_fail tracks_bind tracks_map_left split: prod.splits sum.splits)

lemma tracks_leaf:
  "tracks (\<lambda>_ _. True) (try_bind (on_contents (leaf tag)) own_leaf)
     (try_bind (fst_op (on_contents (leaf tag))) (\<lambda>v. snd_op (ok ())))"
  by (auto simp: tracks_def try_bind_def fst_op_def snd_op_def on_contents_def own_leaf_def
      dest: leaf_scalar split: prod.splits sum.splits option.splits)

lemma tracks_build_walk: "tracks (\<lambda>_ _. True) (build depth desc) (walk (\<lambda>_. ok ()) depth desc)"
proof (induction depth desc rule: build.induct)
  case (1 depth desc)
  show ?case
  proof (cases "depth \<ge> MAX_DEPTH")
    case True
    then show ?thesis unfolding build.simps [of depth] walk.simps [of _ depth]
      by (auto simp: tracks_def fst_op_def on_contents_def rd_fail_def)
  next
    case False
    show ?thesis
    proof (cases desc)
      case (TdScalar tag)
      then show ?thesis using False unfolding build.simps [of depth] walk.simps [of _ depth]
        by simp (rule tracks_bind [OF tracks_fst_op], rule tracks_leaf)
    next
      case (TdArray len elem)
      with False show ?thesis unfolding build.simps [of depth] walk.simps [of _ depth]
        by (simp del: One_nat_def)
          (rule tracks_bind [OF tracks_fst_op], rule tracks_bind [OF tracks_lift_res], hypsubst, rule tracks_map_left, rule tracks_collect,
            rule 1(1) [OF False TdArray])
    next
      case (TdStructure count flds)
      with False show ?thesis unfolding build.simps [of depth] walk.simps [of _ depth]
        by (simp del: One_nat_def) (rule tracks_bind [OF tracks_fst_op], rule tracks_map_left, rule tracks_collect_fields,
            rule 1(2) [OF False TdStructure])
    qed
  qed
qed

lemma walk_by_build:
  "walk (\<lambda>_. ok ()) depth desc (st, ()) = (case build depth desc st of (Inl e, st') \<Rightarrow> (Inl e, (st', ())) | (Inr _, st') \<Rightarrow> (Inr (), (st', ())))"
proof -
  have "case build depth desc st of (Inl e, s') \<Rightarrow> walk (\<lambda>_. ok ()) depth desc (st, ()) = (Inl e, (s', ()))
     | (Inr x, s') \<Rightarrow> \<exists>y. walk (\<lambda>_. ok ()) depth desc (st, ()) = (Inr y, (s', ())) \<and> True"
    by (rule tracksD [OF tracks_build_walk])
  then show ?thesis by (auto split: prod.splits sum.splits)
qed

lemma row_count_to_rows_from:
  "row_count_from desc depth st (length out) = map_sum id length (to_rows_from desc depth st out)"
proof (induction desc depth st out rule: to_rows_from.induct)
  case (1 desc depth st out)
  show ?case
    unfolding row_count_from.simps [of desc depth st] to_rows_from.simps [of desc depth st]
    using 1 by (auto simp: walk_by_build ensure_progress_def split: prod.splits sum.splits)
qed

text \<open>Counting the rows of a compact array and expanding them never disagree: the count is the number of rows the
  expansion returns, and where one of them fails the other fails with the same error at the same offset.\<close>

theorem compact_row_count_agrees_with_to_rows:
  "row_count c = map_sum id length (to_rows c)"
  using row_count_to_rows_from [of _ _ _ "[]"]
  by (cases "CompactArray_description c") (simp_all add: row_count_def to_rows_def)

subsection \<open>What an expansion holds\<close>

text \<open>Nodes, scalar leaves and nesting levels of an owned value.\<close>

fun DataBuf_nodes :: "DataBuf \<Rightarrow> nat" where
  "DataBuf_nodes (BArray v) = Suc (sum_list (map DataBuf_nodes v))"
| "DataBuf_nodes (BStructure v) = Suc (sum_list (map DataBuf_nodes v))"
| "DataBuf_nodes _ = 1"

fun DataBuf_leaves :: "DataBuf \<Rightarrow> nat" where
  "DataBuf_leaves (BArray v) = sum_list (map DataBuf_leaves v)"
| "DataBuf_leaves (BStructure v) = sum_list (map DataBuf_leaves v)"
| "DataBuf_leaves _ = 1"

fun DataBuf_levels :: "DataBuf \<Rightarrow> nat" where
  "DataBuf_levels (BArray v) = Suc (fold max (map DataBuf_levels v) 0)"
| "DataBuf_levels (BStructure v) = Suc (fold max (map DataBuf_levels v) 0)"
| "DataBuf_levels _ = 1"

lemma fold_max_le [simp]: "fold max (xs :: nat list) a \<le> n \<longleftrightarrow> a \<le> n \<and> (\<forall>x\<in>set xs. x \<le> n)"
  by (induction xs arbitrary: a) auto

lemma scalar_counts:
  assumes "DataBuf_scalar d = Some b"
  shows "DataBuf_nodes b = 1" "DataBuf_leaves b = 1" "DataBuf_levels b = 1"
  using assms by (cases d; auto)+

lemma collect_op_InrD:
  assumes "collect_op n f s = (Inr xs, s')"
    and "\<And>s x s'. f s = (Inr x, s') \<Longrightarrow> Q x \<and> (\<mu> s' :: nat) + \<nu> x = \<mu> s"
  shows "length xs = n \<and> (\<forall>x\<in>set xs. Q x) \<and> \<mu> s' + sum_list (map \<nu> xs) = \<mu> s"
  using assms
  by (induction n arbitrary: s xs) (fastforce elim!: try_bind_InrE)+

lemma collect_fields_InrD:
  assumes "collect_fields n dr g s = (Inr xs, s')"
    and "\<And>t s x s'. g t s = (Inr x, s') \<Longrightarrow> Q x \<and> (\<mu> s' :: nat) + \<nu> x = \<mu> s"
  shows "length xs = n \<and> (\<forall>x\<in>set xs. Q x) \<and> \<mu> s' + sum_list (map \<nu> xs) = \<mu> s"
  using assms
  by (induction n arbitrary: dr s xs) (fastforce elim!: try_bind_InrE split: prod.splits sum.splits)+

lemma spend_InrD: "spend s = (Inr x, s') \<Longrightarrow> wk_budget s' + 1 = wk_budget s \<and> wk_contents s' = wk_contents s"
  by (auto simp: spend_def split: if_splits)

lemma on_contents_InrD: "on_contents f s = (Inr x, s') \<Longrightarrow> wk_budget s' = wk_budget s \<and> f (wk_contents s) = (Inr x, wk_contents s')"
  by (auto simp: on_contents_def split: prod.splits)

lemma levels_one_down:
  "\<not> MAX_DEPTH \<le> depth \<Longrightarrow> \<forall>x\<in>set v. Suc (depth + DataBuf_levels x) \<le> MAX_DEPTH \<Longrightarrow>
    Suc (depth + fold max (map DataBuf_levels v) 0) \<le> MAX_DEPTH"
proof -
  assume "\<not> MAX_DEPTH \<le> depth" "\<forall>x\<in>set v. Suc (depth + DataBuf_levels x) \<le> MAX_DEPTH"
  then have "fold max (map DataBuf_levels v) 0 \<le> MAX_DEPTH - Suc depth" by (auto simp: le_diff_conv2)
  with \<open>\<not> MAX_DEPTH \<le> depth\<close> show ?thesis by linarith
qed

lemma build_InrD:
  "build depth desc st = (Inr t, st') \<Longrightarrow> depth + DataBuf_levels t \<le> MAX_DEPTH \<and> wk_budget st' + DataBuf_nodes t = wk_budget st"
proof (induction depth desc arbitrary: st t st' rule: build.induct)
  case (1 depth desc)
  then have lt: "\<not> depth \<ge> MAX_DEPTH" by (auto simp: build.simps [of depth] on_contents_def rd_fail_def)
  show ?case
  proof (cases desc)
    case (TdScalar tag)
    with 1(3) lt show ?thesis
      by (auto simp: build.simps [of depth] own_leaf_def scalar_counts elim!: try_bind_InrE split: option.splits
          dest!: spend_InrD on_contents_InrD)
  next
    case (TdArray len elem)
    from 1(3) lt TdArray obtain s1 inner v where run: "wk_budget s1 + 1 = wk_budget st" "t = BArray v"
      "collect_op (unat len) (build (depth + 1) inner) s1 = (Inr v, st')"
      by (auto simp: build.simps [of depth] elim!: try_bind_InrE dest!: spend_InrD)
    show ?thesis
      using collect_op_InrD [where Q = "\<lambda>x. (depth + 1) + DataBuf_levels x \<le> MAX_DEPTH" and \<mu> = wk_budget and \<nu> = DataBuf_nodes,
          OF run(3) 1(1) [OF lt TdArray]] run(1,2) lt by (simp add: levels_one_down)
  next
    case (TdStructure count flds)
    from 1(3) lt TdStructure obtain s1 v where run: "wk_budget s1 + 1 = wk_budget st" "t = BStructure v"
      "collect_fields count (Reader_new flds) (\<lambda>inner. build (depth + 1) inner) s1 = (Inr v, st')"
      by (auto simp: build.simps [of depth] elim!: try_bind_InrE dest!: spend_InrD)
    show ?thesis
      using collect_fields_InrD [where Q = "\<lambda>x. (depth + 1) + DataBuf_levels x \<le> MAX_DEPTH" and \<mu> = wk_budget and \<nu> = DataBuf_nodes,
          OF run(3) 1(2) [OF lt TdStructure]] run(1,2) lt by (simp add: levels_one_down)
  qed
qed

text \<open>A description that parses at some depth parses to the same value closer to the top.\<close>

definition succeeds_as :: "(Reader, 'a) op \<Rightarrow> (Reader, 'a) op \<Rightarrow> bool" where
  "succeeds_as f g \<longleftrightarrow> (\<forall>r x r'. f r = (Inr x, r') \<longrightarrow> g r = (Inr x, r'))"

lemma succeeds_as_refl: "succeeds_as f f"
  by (simp add: succeeds_as_def)

lemma succeeds_as_bind:
  "succeeds_as m m' \<Longrightarrow> (\<And>x. succeeds_as (k x) (k' x)) \<Longrightarrow> succeeds_as (try_bind m k) (try_bind m' k')"
  unfolding succeeds_as_def by (intro allI impI, erule try_bind_InrE) (simp add: try_bind_Inr)

lemma succeeds_as_repeat: "succeeds_as f g \<Longrightarrow> succeeds_as (repeat_op n f) (repeat_op n g)"
  by (induction n) (auto intro: succeeds_as_refl succeeds_as_bind)

lemma succeeds_as_probed: "succeeds_as f g \<Longrightarrow> succeeds_as (probed f) (probed g)"
  unfolding succeeds_as_def probed_def by (fastforce split: prod.splits sum.splits)

lemma succeeds_as_fail: "succeeds_as (rd_fail k) g"
  by (simp add: succeeds_as_def rd_fail_def)

lemma TypeDesc_parse_at_shallower: "d' \<le> d \<Longrightarrow> succeeds_as (TypeDesc_parse_at d) (TypeDesc_parse_at d')"
proof (induction d arbitrary: d' rule: TypeDesc_parse_at.induct)
  case (1 d)
  show ?case
  proof (cases "d \<ge> MAX_DEPTH")
    case True
    then show ?thesis unfolding TypeDesc_parse_at.simps [of d] by (simp add: succeeds_as_fail)
  next
    case False
    have sub: "succeeds_as (TypeDesc_parse_at (d + 1)) (TypeDesc_parse_at (d' + 1))"
      by (rule 1(1) [OF False]) (use 1(3) in auto)
    from False 1(3) show ?thesis
      unfolding TypeDesc_parse_at.simps [of d] TypeDesc_parse_at.simps [of d']
      by (auto split: DataTag.splits simp del: add_Suc_right One_nat_def
          intro!: succeeds_as_bind succeeds_as_refl succeeds_as_probed succeeds_as_repeat sub)
  qed
qed

lemma TypeDesc_parse_shallower:
  "TypeDesc_parse_at d r = (Inr t, r') \<Longrightarrow> TypeDesc_parse r = (Inr t, r')"
  using TypeDesc_parse_at_shallower [of 0 d] by (simp add: succeeds_as_def TypeDesc_parse_def)

lemma or_overflow_InrD: "or_overflow (checked_add a b) = Inr n \<Longrightarrow> n = a + b" "or_overflow (checked_mul a b) = Inr n \<Longrightarrow> n = a * b"
  by (auto simp: or_overflow_def checked_add_def checked_mul_def split: if_splits)

lemma res_bind_InrE:
  assumes "res_bind m f = Inr y"
  obtains x where "m = Inr x" "f x = Inr y"
  using assms by (cases m) auto

lemma collect_op_leaves:
  assumes "collect_op k f s = (Inr v, s')" "\<And>s x s'. f s = (Inr x, s') \<Longrightarrow> DataBuf_leaves x = m"
  shows "sum_list (map DataBuf_leaves v) = k * m"
  using assms by (induction k arbitrary: s v) (auto elim!: try_bind_InrE)

lemma collect_fields_leaves:
  assumes "collect_fields k dr g s = (Inr v, s')" "sum_fields k d dr h n = Inr m"
    and "\<And>t s x s' c. g t s = (Inr x, s') \<Longrightarrow> h t = Inr c \<Longrightarrow> DataBuf_leaves x = c"
  shows "n + sum_list (map DataBuf_leaves v) = m"
  using assms(1,2)
proof (induction k arbitrary: dr s v n)
  case (Suc k)
  from Suc.prems(2) obtain t dr' where parse: "TypeDesc_parse_at d dr = (Inr t, dr')"
    by (auto split: prod.splits sum.splits)
  note parse0 = TypeDesc_parse_shallower [OF parse]
  from Suc.prems(2) parse obtain c where c: "h t = Inr c" "sum_fields k d dr' h (n + c) = Inr m"
    by (auto elim!: res_bind_InrE dest!: or_overflow_InrD)
  from Suc.prems(1) parse0 obtain x s1 xs where x: "g t s = (Inr x, s1)" "collect_fields k dr' g s1 = (Inr xs, s')" "v = x # xs"
    by (auto elim!: try_bind_InrE)
  show ?case using Suc.IH [OF x(2) c(2)] assms(3) [OF x(1) c(1)] x(3) by simp
qed auto

lemma leaf_count_leaves:
  "leaf_count_at d desc = Inr n \<Longrightarrow> build depth desc st = (Inr t, st') \<Longrightarrow> DataBuf_leaves t = n"
proof (induction d desc arbitrary: n depth st t st' rule: leaf_count_at.induct)
  case (1 d desc)
  then have lt: "\<not> d \<ge> MAX_DEPTH" "\<not> depth \<ge> MAX_DEPTH"
    by (auto simp: leaf_count_at.simps [of d] build.simps [of depth] on_contents_def rd_fail_def)
  show ?case
  proof (cases desc)
    case (TdScalar tag)
    with 1(3,4) lt show ?thesis
      by (auto simp: leaf_count_at.simps [of d] build.simps [of depth] own_leaf_def scalar_counts elim!: try_bind_InrE split: option.splits)
  next
    case (TdArray len elem)
    from 1(4) lt TdArray obtain s1 inner v where run: "fst (TypeDesc_parse (Reader_new elem)) = Inr inner" "t = BArray v"
      "collect_op (unat len) (build (depth + 1) inner) s1 = (Inr v, st')"
      by (auto simp: build.simps [of depth] elim!: try_bind_InrE)
    from 1(3) lt TdArray obtain inner' c where c: "fst (TypeDesc_parse_at (d + 1) (Reader_new elem)) = Inr inner'"
      "leaf_count_at (d + 1) inner' = Inr c" "n = unat len * c"
      by (auto simp: leaf_count_at.simps [of d] elim!: res_bind_InrE dest!: or_overflow_InrD)
    have "inner' = inner"
      using run(1) c(1) TypeDesc_parse_shallower [of "d + 1" "Reader_new elem" inner']
      by (cases "TypeDesc_parse_at (d + 1) (Reader_new elem)") auto
    with c 1(1) [OF lt(1) TdArray] have "\<And>s x s'. build (depth + 1) inner s = (Inr x, s') \<Longrightarrow> DataBuf_leaves x = c" by blast
    from collect_op_leaves [OF run(3) this] run(2) c(3) show ?thesis by simp
  next
    case (TdStructure count flds)
    from 1(4) lt TdStructure obtain s1 v where run: "t = BStructure v"
      "collect_fields count (Reader_new flds) (\<lambda>inner. build (depth + 1) inner) s1 = (Inr v, st')"
      by (auto simp: build.simps [of depth] elim!: try_bind_InrE)
    from 1(3) lt TdStructure have "sum_fields count (d + 1) (Reader_new flds) (\<lambda>field. leaf_count_at (d + 1) field) 0 = Inr n"
      by (simp add: leaf_count_at.simps [of d])
    from collect_fields_leaves [OF run(2) this] 1(2) [OF lt(1) TdStructure] run(1) show ?thesis by force
  qed
qed

lemma to_rows_from_InrD:
  "to_rows_from desc depth st out = Inr rows \<Longrightarrow>
    \<exists>new. rows = out @ new \<and> sum_list (map DataBuf_nodes new) \<le> wk_budget st \<and>
      (\<forall>t\<in>set new. depth + DataBuf_levels t \<le> MAX_DEPTH \<and> (\<forall>n. leaf_count desc = Inr n \<longrightarrow> DataBuf_leaves t = n))"
proof (induction desc depth st out rule: to_rows_from.induct)
  case (1 desc depth st out)
  show ?case
  proof (cases "Reader_is_empty (wk_contents st)")
    case True
    with 1(2) show ?thesis by (simp add: to_rows_from.simps [of desc depth st])
  next
    case False
    with 1(2) obtain t st' where t: "build depth desc st = (Inr t, st')"
      "ensure_progress (wk_contents st') (Reader_offset (wk_contents st)) = Inr ()" "to_rows_from desc depth st' (out @ [t]) = Inr rows"
      by (auto simp: to_rows_from.simps [of desc depth st] elim!: res_bind_InrE split: prod.splits sum.splits)
    from 1(1) [OF False t(1) [symmetric] refl t(3)] obtain new where "rows = out @ t # new"
      "sum_list (map DataBuf_nodes new) \<le> wk_budget st'"
      "\<forall>t\<in>set new. depth + DataBuf_levels t \<le> MAX_DEPTH \<and> (\<forall>n. leaf_count desc = Inr n \<longrightarrow> DataBuf_leaves t = n)"
      by auto
    then show ?thesis
      using build_InrD [OF t(1)] leaf_count_leaves [OF _ t(1), of 0]
      by (intro exI [of _ "t # new"]) (auto simp: leaf_count_def)
  qed
qed

text \<open>Expanding a compact array does a bounded amount of work whatever its description multiplies to: the rows together
  hold at most \<open>2\<^sup>2\<^sup>0\<close> nodes, no row nests deeper than the depth budget allows, and where the row length is known
  every row has exactly that many leaves.\<close>

theorem compact_expansion_bounded:
  assumes "to_rows c = Inr rows"
  shows "sum_list (map DataBuf_nodes rows) \<le> MAX_COMPACT_NODES \<and>
    (\<forall>t\<in>set rows. ca_depth c + DataBuf_levels t \<le> MAX_DEPTH \<and> (\<forall>n. row_len c = Inr n \<longrightarrow> DataBuf_leaves t = n))"
proof -
  from assms obtain desc where desc: "CompactArray_description c = Inr desc" "to_rows_from desc (ca_depth c) (walk_start c) [] = Inr rows"
    by (auto simp: to_rows_def elim!: res_bind_InrE)
  from to_rows_from_InrD [OF desc(2)] desc(1) show ?thesis by (auto simp: walk_start_def row_len_def)
qed

subsection \<open>Encode and parse\<close>

text \<open>What the encoder can represent: lengths of four bytes at most and bit strings with their own number of bytes.\<close>

fun DataBuf_valid :: "DataBuf \<Rightarrow> bool" where
  "DataBuf_valid (BArray v) \<longleftrightarrow> length v < 2 ^ 32 \<and> list_all DataBuf_valid v"
| "DataBuf_valid (BStructure v) \<longleftrightarrow> length v < 2 ^ 32 \<and> list_all DataBuf_valid v"
| "DataBuf_valid (BBitString bits b) \<longleftrightarrow> bits < 2 ^ 32 \<and> length b = div_ceil bits 8"
| "DataBuf_valid (BOctetString b) \<longleftrightarrow> length b < 2 ^ 32"
| "DataBuf_valid (BVisibleString b) \<longleftrightarrow> length b < 2 ^ 32"
| "DataBuf_valid (BUtf8String b) \<longleftrightarrow> length b < 2 ^ 32"
| "DataBuf_valid _ \<longleftrightarrow> True"

text \<open>The bytes \<open>bs\<close>, met at depth \<open>d\<close> anywhere in a buffer, decode to a borrowed value that owns to \<open>t\<close>.\<close>

definition reads_back :: "nat \<Rightarrow> bytes \<Rightarrow> DataBuf \<Rightarrow> bool" where
  "reads_back d bs t \<longleftrightarrow> (\<forall>r rest. rd_wf r \<longrightarrow> Reader_rest r = bs @ rest \<longrightarrow>
     (\<exists>x. Data_decode_at d r = (Inr x, rd_advance (length bs) r) \<and> DataBuf_from_data x = Inr t))"

lemma reads_backD:
  assumes "reads_back d bs t" "rd_wf r" "Reader_rest r = bs @ rest"
  obtains x where "Data_decode_at d r = (Inr x, rd_advance (length bs) r)" "DataBuf_from_data x = Inr t"
  using assms unfolding reads_back_def by blast

lemma reads_back_skip: "reads_back d bs t \<Longrightarrow> decodes (Data_skip d) bs ()"
  unfolding decodes_def decodes_at_def
proof (intro allI impI)
  fix r rest assume "reads_back d bs t" and r: "rd_wf r" "Reader_rest r = bs @ rest"
  then obtain x where "Data_decode_at d r = (Inr x, rd_advance (length bs) r)" by (rule reads_backD)
  with Data_decode_skip_same [of d] r(1) show "Data_skip d r = (Inr (), rd_advance (length bs) r)" by (auto simp: same_extent_def)
qed

lemma decodes_read_tag: "decodes read_tag [DataTag_as_u8 tag] tag"
  unfolding read_tag_def by (rule decodes_bind_eq [OF decodes_u8, where b = "[]"]) (simp_all add: decodes_ok)

lemma decodes_map_eq: "decodes m a x \<Longrightarrow> h x = y \<Longrightarrow> decodes (try_bind m (\<lambda>v. ok (h v))) a y"
  by (drule decodes_map [where h = h]) simp

lemma decodes_run:
  "decodes dec bs x \<Longrightarrow> rd_wf r \<Longrightarrow> Reader_rest r = bs @ rest \<Longrightarrow> dec r = (Inr x, rd_advance (length bs) r)"
  by (simp add: decodes_def decodes_at_def)

lemma decode_at_tag:
  assumes "\<not> MAX_DEPTH \<le> d" "rd_wf r" "Reader_rest r = DataTag_as_u8 tag # rest"
  shows "Data_decode_at d r = (case scalar_arm tag of Some f \<Rightarrow> f | None \<Rightarrow>
      (case tag of TArray \<Rightarrow> seq_arm d DArray | TStructure \<Rightarrow> seq_arm d DStructure
       | TBitString \<Rightarrow> try_bind Reader_length (\<lambda>bits. try_bind (Reader_take (div_ceil bits 8)) (\<lambda>b. ok (DBitString \<lparr>bs_bits = bits, bs_bytes = b\<rparr>)))
       | _ \<Rightarrow> try_bind (CompactArray_decode_body (d + 1)) (\<lambda>c. ok (DCompactArray c)))) (rd_advance 1 r)"
  using decodes_run [OF decodes_read_tag assms(2), of tag rest] assms
  by (simp add: Data_decode_at_def try_bind_Inr)

lemma reads_back_arm:
  assumes d: "\<not> MAX_DEPTH \<le> d"
    and arm: "decodes f body x" "DataBuf_from_data x = Inr t"
    and sel: "scalar_arm tag = Some f \<or> tag = TBitString \<and> f = try_bind Reader_length (\<lambda>bits.
       try_bind (Reader_take (div_ceil bits 8)) (\<lambda>b. ok (DBitString \<lparr>bs_bits = bits, bs_bytes = b\<rparr>)))"
  shows "reads_back d (DataTag_as_u8 tag # body) t"
  unfolding reads_back_def
proof (intro allI impI)
  fix r rest assume r: "rd_wf r" "Reader_rest r = (DataTag_as_u8 tag # body) @ rest"
  have "Data_decode_at d r = f (rd_advance 1 r)"
    using sel decode_at_tag [OF d r(1), of tag "body @ rest"] r(2) by auto
  moreover have "rd_wf (rd_advance 1 r)" "Reader_rest (rd_advance 1 r) = body @ rest"
    using rest_append [OF r(1), of "[DataTag_as_u8 tag]" "body @ rest"] r(2) by auto
  ultimately show "\<exists>x. Data_decode_at d r = (Inr x, rd_advance (length (DataTag_as_u8 tag # body)) r) \<and> DataBuf_from_data x = Inr t"
    using decodes_run [OF arm(1)] arm(2) by (simp add: exI [of _ x])
qed

lemma from_data_scalar: "DataBuf_scalar x = Some t \<Longrightarrow> DataBuf_from_data x = Inr t"
  by (simp add: DataBuf_from_data.simps)

lemmas reads_back_scalar = reads_back_arm [OF _ _ from_data_scalar]

text \<open>The elements of a sequence, walked over and then read back one by one.\<close>

lemma decodes_elements:
  "list_all2 (reads_back d) bss ts \<Longrightarrow> decodes (repeat_op (length ts) (Data_skip d)) (concat bss) ()"
  by (induction rule: list_all2_induct) (auto intro!: decodes_ok decodes_bind reads_back_skip simp del: ok_apply)

lemma from_iter_elements:
  "list_all2 (reads_back d) bss ts \<Longrightarrow> rd_wf r \<Longrightarrow> Reader_rest r = concat bss @ rest \<Longrightarrow>
    DataBuf_from_iter \<lparr>si_reader = r, si_left = length ts, si_depth = d\<rparr> = Inr ts"
proof (induction arbitrary: r rule: list_all2_induct)
  case Nil
  then show ?case by (simp add: DataBuf_from_iter.simps SeqIter_next_def)
next
  case (Cons b bss t ts)
  from Cons.prems have rest: "Reader_rest r = b @ (concat bss @ rest)" by simp
  obtain x where x: "Data_decode_at d r = (Inr x, rd_advance (length b) r)" "DataBuf_from_data x = Inr t"
    using reads_backD [OF Cons.hyps(1) Cons.prems(1) rest] .
  have "DataBuf_from_iter \<lparr>si_reader = rd_advance (length b) r, si_left = length ts, si_depth = d\<rparr> = Inr ts"
    by (rule Cons.IH) (use rest_append [OF Cons.prems(1) rest] in auto)
  with x show ?case by (simp add: DataBuf_from_iter.simps [of "\<lparr>si_reader = r, si_left = _, si_depth = _\<rparr>"] SeqIter_next_def)
qed

lemma reads_back_seq:
  assumes d: "\<not> MAX_DEPTH \<le> d" and len: "length ts < 2 ^ 32" and elems: "list_all2 (reads_back (d + 1)) bss ts"
    and tag: "tag = TArray \<and> mk = DArray \<and> own = BArray \<or> tag = TStructure \<and> mk = DStructure \<and> own = BStructure"
  shows "reads_back d (DataTag_as_u8 tag # len_bytes (length ts) @ concat bss) (own ts)"
  unfolding reads_back_def
proof (intro allI impI)
  fix r rest assume r: "rd_wf r" "Reader_rest r = (DataTag_as_u8 tag # len_bytes (length ts) @ concat bss) @ rest"
  define r1 where "r1 = rd_advance 1 r"
  define r2 where "r2 = rd_advance (length (len_bytes (length ts))) r1"
  have r1: "rd_wf r1" "Reader_rest r1 = len_bytes (length ts) @ (concat bss @ rest)"
    using rest_append [OF r(1), of "[DataTag_as_u8 tag]"] r(2) by (auto simp: r1_def)
  have r2: "rd_wf r2" "Reader_rest r2 = concat bss @ rest"
    using rest_append [OF r1] by (auto simp: r2_def)
  have len_run: "Reader_length r1 = (Inr (length ts), r2)"
    using decodes_run [OF decodes_length [OF len] r1] by (simp add: r2_def)
  have walk: "repeat_op (length ts) (Data_skip (d + 1)) r2 = (Inr (), rd_advance (length (concat bss)) r2)"
    by (rule decodes_run [OF decodes_elements [OF elems] r2])
  have "probed (repeat_op (length ts) (Data_skip (d + 1))) r2 = (Inr (concat bss), rd_advance (length (concat bss)) r2)"
    using r2 by (simp only: probed_eq [OF local_repeat [OF local_Data_skip] r2(1)] walk) simp
  then have "seq_arm d mk r1 = (Inr (mk \<lparr>sq_count = length ts, sq_raw = concat bss, sq_base = Reader_offset r2, sq_depth = d + 1\<rparr>),
      rd_advance (length (concat bss)) r2)" (is "_ = (Inr (mk ?s), _)")
    by (simp add: seq_arm_def try_bind_Inr [where m = Reader_length, OF len_run] try_bind_Inr Let_def)
  moreover have "Data_decode_at d r = seq_arm d mk r1"
    using tag decode_at_tag [OF d r(1), of tag] r(2) by (auto simp: r1_def)
  moreover have "DataBuf_from_iter (Seq_iter ?s) = Inr ts"
    unfolding Seq_iter_def
    by simp (rule from_iter_elements [OF elems, of _ "[]", simplified], simp_all add: Reader_with_base_def rd_wf_def Reader_rest_def)
  then have "DataBuf_from_data (mk ?s) = Inr (own ts)" using tag by (auto simp: DataBuf_from_data.simps)
  ultimately show "\<exists>x. Data_decode_at d r = (Inr x, rd_advance (length (DataTag_as_u8 tag # len_bytes (length ts) @ concat bss)) r) \<and>
      DataBuf_from_data x = Inr (own ts)"
    by (simp add: r1_def r2_def)
qed

lemma writes_in_turn:
  "list_all2 writes fs bss \<Longrightarrow> writes (in_turn fs) (concat bss)"
  by (induction rule: list_all2_induct) (auto intro: writes_ok writes_seq simp del: ok_apply)

text \<open>A tree and the bytes it is written as.\<close>

definition tree_codes :: "DataBuf \<Rightarrow> nat \<Rightarrow> bytes \<Rightarrow> bool" where
  "tree_codes t d bs \<longleftrightarrow> writes (DataBuf_encode t) bs \<and> reads_back d bs t"

lemma tree_codes_seq:
  assumes ts: "\<And>t. t \<in> set ts \<Longrightarrow> \<exists>bs. tree_codes t (d + 1) bs"
    and lim: "length ts < 2 ^ 32" "\<not> MAX_DEPTH \<le> d"
  shows "\<exists>bs. tree_codes (BArray ts) d bs" "\<exists>bs. tree_codes (BStructure ts) d bs"
proof -
  obtain img where img: "\<And>t. t \<in> set ts \<Longrightarrow> tree_codes t (d + 1) (img t)" using ts by metis
  have reads: "list_all2 (reads_back (d + 1)) (map img ts) ts" and wrs: "list_all2 writes (map DataBuf_encode ts) (map img ts)"
    using img by (auto simp: list_all2_conv_all_nth tree_codes_def)
  have body: "writes (try_bind (write_length (length ts)) (\<lambda>_. in_turn (map DataBuf_encode ts))) (len_bytes (length ts) @ concat (map img ts))"
    by (intro writes_seq writes_length writes_in_turn wrs lim(1))
  show "\<exists>bs. tree_codes (BArray ts) d bs"
    using writes_seq [OF writes_u8 body, of 1] reads_back_seq [OF lim(2,1) reads, of TArray DArray BArray] by (auto simp: tree_codes_def)
  show "\<exists>bs. tree_codes (BStructure ts) d bs"
    using writes_seq [OF writes_u8 body, of 2] reads_back_seq [OF lim(2,1) reads, of TStructure DStructure BStructure] by (auto simp: tree_codes_def)
qed

lemma tree_codes_scalar:
  assumes "DataBuf_encode t = try_bind (write_u8 (DataTag_as_u8 tag)) (\<lambda>_. body)" "writes body bs"
    and "scalar_arm tag = Some f" "decodes f bs x" "DataBuf_scalar x = Some t" "\<not> MAX_DEPTH \<le> d"
  shows "\<exists>bs. tree_codes t d bs"
  using writes_seq [OF writes_u8 assms(2), of "DataTag_as_u8 tag"] reads_back_scalar [OF assms(6,4,5), of tag] assms(1,3)
  by (auto simp: tree_codes_def)

lemma levels_below:
  "d + Suc (fold max (map DataBuf_levels ts) 0) \<le> n \<Longrightarrow> t \<in> set ts \<Longrightarrow> d + 1 + DataBuf_levels t \<le> n"
proof -
  assume lim: "d + Suc (fold max (map DataBuf_levels ts) 0) \<le> n" and t: "t \<in> set ts"
  have "\<forall>x\<in>set (map DataBuf_levels ts). x \<le> fold max (map DataBuf_levels ts) 0"
    using fold_max_le [of "map DataBuf_levels ts" 0 "fold max (map DataBuf_levels ts) 0"] by blast
  with lim t show ?thesis by fastforce
qed

lemma tree_codes_exists:
  "DataBuf_valid t \<Longrightarrow> d + DataBuf_levels t \<le> MAX_DEPTH \<Longrightarrow> \<exists>bs. tree_codes t d bs"
proof (induction t arbitrary: d)
  case BNull
  then show ?case by (intro tree_codes_scalar [where tag = TNullData and x = DNull]) (auto intro!: writes_ok decodes_ok)
next
  case (BArray ts)
  have "\<exists>bs. tree_codes t (d + 1) bs" if "t \<in> set ts" for t
    using BArray.IH [OF that, of "d + 1"] BArray.prems that levels_below [of d ts] by (auto simp: list_all_iff)
  with BArray.prems show ?case by (intro tree_codes_seq(1)) auto
next
  case (BStructure ts)
  have "\<exists>bs. tree_codes t (d + 1) bs" if "t \<in> set ts" for t
    using BStructure.IH [OF that, of "d + 1"] BStructure.prems that levels_below [of d ts] by (auto simp: list_all_iff)
  with BStructure.prems show ?case by (intro tree_codes_seq(2)) auto
next
  case (BBoolean v)
  have "decodes (try_bind Reader_u8 (\<lambda>b. ok (DBoolean (b \<noteq> 0)))) [of_bool v] (DBoolean v)"
    using decodes_map [OF decodes_u8 [of "of_bool v"], where h = "\<lambda>b. DBoolean (b \<noteq> 0)"] by simp
  with BBoolean show ?case by (intro tree_codes_scalar [where tag = TBoolean and x = "DBoolean v"]) (auto intro!: writes_u8)
next
  case (BBitString bits b)
  then have b: "bits < 2 ^ 32" "length b = div_ceil bits 8" "\<not> MAX_DEPTH \<le> d" by auto
  have "writes (DataBuf_encode (BBitString bits b)) ([4] @ len_bytes bits @ b)"
    unfolding DataBuf_encode.simps DataBuf_tag.simps by (intro writes_seq writes_u8 writes_length writes_bytes b(1))
  moreover have "reads_back d (DataTag_as_u8 TBitString # (len_bytes bits @ b)) (BBitString bits b)"
    by (rule reads_back_scalar [where x = "DBitString \<lparr>bs_bits = bits, bs_bytes = b\<rparr>", OF b(3)])
      (auto intro!: decodes_bind decodes_length b(1) decodes_map decodes_take_n simp del: div_ceil_8 simp: b(2))
  ultimately show ?case unfolding tree_codes_def by auto
next
  case (BDoubleLong v)
  then show ?case by (intro tree_codes_scalar [where tag = TDoubleLong and x = "DDoubleLong v"]) (auto intro!: writes_u32 decodes_map [OF decodes_u32])
next
  case (BDoubleLongUnsigned v)
  then show ?case by (intro tree_codes_scalar [where tag = TDoubleLongUnsigned and x = "DDoubleLongUnsigned v"]) (auto intro!: writes_u32 decodes_map [OF decodes_u32])
next
  case (BOctetString v)
  then show ?case by (intro tree_codes_scalar [where tag = TOctetString and x = "DOctetString v"]) (auto intro!: writes_length_prefixed decodes_map [OF decodes_length_prefixed])
next
  case (BVisibleString v)
  then show ?case by (intro tree_codes_scalar [where tag = TVisibleString and x = "DVisibleString v"]) (auto intro!: writes_length_prefixed decodes_map [OF decodes_length_prefixed])
next
  case (BUtf8String v)
  then show ?case by (intro tree_codes_scalar [where tag = TUtf8String and x = "DUtf8String v"]) (auto intro!: writes_length_prefixed decodes_map [OF decodes_length_prefixed])
next
  case (BBcd v)
  then show ?case by (intro tree_codes_scalar [where tag = TBcd and x = "DBcd v"]) (auto intro!: writes_u8 decodes_map [OF decodes_u8])
next
  case (BInteger v)
  then show ?case by (intro tree_codes_scalar [where tag = TInteger and x = "DInteger v"]) (auto intro!: writes_u8 decodes_map [OF decodes_u8])
next
  case (BLong v)
  then show ?case by (intro tree_codes_scalar [where tag = TLong and x = "DLong v"]) (auto intro!: writes_u16 decodes_map [OF decodes_u16])
next
  case (BUnsigned v)
  then show ?case by (intro tree_codes_scalar [where tag = TUnsigned and x = "DUnsigned v"]) (auto intro!: writes_u8 decodes_map [OF decodes_u8])
next
  case (BLongUnsigned v)
  then show ?case by (intro tree_codes_scalar [where tag = TLongUnsigned and x = "DLongUnsigned v"]) (auto intro!: writes_u16 decodes_map [OF decodes_u16])
next
  case (BLong64 v)
  then show ?case by (intro tree_codes_scalar [where tag = TLong64 and x = "DLong64 v"]) (auto intro!: writes_u64 decodes_map [OF decodes_u64])
next
  case (BLong64Unsigned v)
  then show ?case by (intro tree_codes_scalar [where tag = TLong64Unsigned and x = "DLong64Unsigned v"]) (auto intro!: writes_u64 decodes_map [OF decodes_u64])
next
  case (BEnum v)
  then show ?case by (intro tree_codes_scalar [where tag = TEnum and x = "DEnum v"]) (auto intro!: writes_u8 decodes_map [OF decodes_u8])
next
  case (BFloat32 v)
  then show ?case by (intro tree_codes_scalar [where tag = TFloat32 and x = "DFloat32 v"]) (auto intro!: writes_u32 decodes_map [OF decodes_u32])
next
  case (BFloat64 v)
  then show ?case by (intro tree_codes_scalar [where tag = TFloat64 and x = "DFloat64 v"]) (auto intro!: writes_u64 decodes_map [OF decodes_u64])
next
  case (BDateTime v)
  then show ?case by (intro tree_codes_scalar [where tag = TDateTime and x = "DDateTime v"]) (auto intro!: writes_bytes decodes_map_eq [OF decodes_array])
next
  case (BDate v)
  then show ?case by (intro tree_codes_scalar [where tag = TDate and x = "DDate v"]) (auto intro!: writes_bytes decodes_map_eq [OF decodes_array])
next
  case (BTime v)
  then show ?case by (intro tree_codes_scalar [where tag = TTime and x = "DTime v"]) (auto intro!: writes_bytes decodes_map_eq [OF decodes_array])
next
  case (BDeltaInteger v)
  then show ?case by (intro tree_codes_scalar [where tag = TDeltaInteger and x = "DDeltaInteger v"]) (auto intro!: writes_u8 decodes_map [OF decodes_u8])
next
  case (BDeltaLong v)
  then show ?case by (intro tree_codes_scalar [where tag = TDeltaLong and x = "DDeltaLong v"]) (auto intro!: writes_u16 decodes_map [OF decodes_u16])
next
  case (BDeltaDoubleLong v)
  then show ?case by (intro tree_codes_scalar [where tag = TDeltaDoubleLong and x = "DDeltaDoubleLong v"]) (auto intro!: writes_u32 decodes_map [OF decodes_u32])
next
  case (BDeltaUnsigned v)
  then show ?case by (intro tree_codes_scalar [where tag = TDeltaUnsigned and x = "DDeltaUnsigned v"]) (auto intro!: writes_u8 decodes_map [OF decodes_u8])
next
  case (BDeltaLongUnsigned v)
  then show ?case by (intro tree_codes_scalar [where tag = TDeltaLongUnsigned and x = "DDeltaLongUnsigned v"]) (auto intro!: writes_u16 decodes_map [OF decodes_u16])
next
  case (BDeltaDoubleLongUnsigned v)
  then show ?case by (intro tree_codes_scalar [where tag = TDeltaDoubleLongUnsigned and x = "DDeltaDoubleLongUnsigned v"]) (auto intro!: writes_u32 decodes_map [OF decodes_u32])
next
  case BDontCare
  then show ?case by (intro tree_codes_scalar [where tag = TDontCare and x = DDontCare]) (auto intro!: writes_ok decodes_ok)
qed

text \<open>Where a decoded value sits: its elements, or its rows, are one level below it.\<close>

fun placed :: "nat \<Rightarrow> Data \<Rightarrow> bool" where
  "placed k (DArray s) \<longleftrightarrow> sq_depth s = k + 1"
| "placed k (DStructure s) \<longleftrightarrow> sq_depth s = k + 1"
| "placed k (DCompactArray c) \<longleftrightarrow> ca_depth c = k + 1"
| "placed k _ \<longleftrightarrow> True"

lemma placed_scalar: "DataBuf_scalar x = Some b \<Longrightarrow> placed k x"
  by (cases x) auto

lemma scalar_arm_scalar: "scalar_arm tag = Some f \<Longrightarrow> f r = (Inr x, r') \<Longrightarrow> \<exists>b. DataBuf_scalar x = Some b"
  by (cases tag) (auto elim!: try_bind_InrE)

lemma compact_body_depth: "CompactArray_decode_body d r = (Inr c, r') \<Longrightarrow> ca_depth c = d"
  by (auto simp: CompactArray_decode_body_def Let_def rd_fail_def elim!: try_bind_InrE split: if_splits)

lemma Data_decode_at_placed:
  assumes "Data_decode_at k r = (Inr x, r')"
  shows "placed k x"
proof -
  have arms: "placed k x" if "scalar_arm tag = Some f" "f s = (Inr x, s')" for tag f s s'
    using scalar_arm_scalar [OF that] placed_scalar by blast
  from assms obtain tag s where tag: "\<not> MAX_DEPTH \<le> k" "(case scalar_arm tag of Some f \<Rightarrow> f | None \<Rightarrow>
      (case tag of TArray \<Rightarrow> seq_arm k DArray | TStructure \<Rightarrow> seq_arm k DStructure
       | TBitString \<Rightarrow> try_bind Reader_length (\<lambda>bits. try_bind (Reader_take (div_ceil bits 8)) (\<lambda>b. ok (DBitString \<lparr>bs_bits = bits, bs_bytes = b\<rparr>)))
       | _ \<Rightarrow> try_bind (CompactArray_decode_body (k + 1)) (\<lambda>c. ok (DCompactArray c)))) s = (Inr x, r')"
    by (auto simp: Data_decode_at_def rd_fail_def elim!: try_bind_InrE split: if_splits)
  show ?thesis
  proof (cases "scalar_arm tag")
    case None
    with tag(2) show ?thesis
      by (cases tag) (auto elim!: seq_arm_InrE try_bind_InrE simp: compact_body_depth)
  qed (use tag(2) arms in auto)
qed

lemma from_data_levels:
  "DataBuf_from_data x = Inr t \<Longrightarrow> placed k x \<Longrightarrow> k < MAX_DEPTH \<Longrightarrow> k + DataBuf_levels t \<le> MAX_DEPTH"
  "DataBuf_from_iter it = Inr ts \<Longrightarrow> \<forall>t\<in>set ts. si_depth it + DataBuf_levels t \<le> MAX_DEPTH"
proof (induction x and it arbitrary: t k and ts rule: DataBuf_from_data_DataBuf_from_iter.induct)
  case (1 x)
  show ?case
  proof (cases "DataBuf_scalar x")
    case (Some b)
    with 1(3,5) show ?thesis by (auto simp: DataBuf_from_data.simps [of x] scalar_counts)
  next
    case None
    have down: "k + Suc (fold max (map DataBuf_levels v) 0) \<le> MAX_DEPTH" if "\<forall>t\<in>set v. Suc k + DataBuf_levels t \<le> MAX_DEPTH" for v
      using levels_one_down [of k v] that 1(5) by auto
    from None 1(3) consider (arr) s v where "x = DArray s" "t = BArray v" "DataBuf_from_iter (Seq_iter s) = Inr v"
      | (str) s v where "x = DStructure s" "t = BStructure v" "DataBuf_from_iter (Seq_iter s) = Inr v"
      | (com) c v where "x = DCompactArray c" "t = BArray v" "to_rows c = Inr v"
      by (cases x) (auto simp: DataBuf_from_data.simps elim!: res_bind_InrE)
    then show ?thesis
    proof cases
      case arr
      with 1(1) [OF None arr(1) arr(3)] 1(4) show ?thesis by (simp only: arr DataBuf_levels.simps) (rule down, simp add: Seq_iter_def)
    next
      case str
      with 1(2) [OF None str(1) str(3)] 1(4) show ?thesis by (simp only: str DataBuf_levels.simps) (rule down, simp add: Seq_iter_def)
    next
      case com
      have "\<forall>t\<in>set v. ca_depth c + DataBuf_levels t \<le> MAX_DEPTH"
        using com(3) to_rows_from_InrD by (fastforce simp: to_rows_def elim!: res_bind_InrE)
      with com 1(4) show ?thesis by (simp only: com DataBuf_levels.simps) (rule down, simp)
    qed
  qed
next
  case (2 it)
  show ?case
  proof (cases "SeqIter_next it")
    case (Pair a it')
    show ?thesis
    proof (cases a)
      case None
      with 2(3) Pair show ?thesis by (simp add: DataBuf_from_iter.simps [of it])
    next
      case (Some res)
      with 2(3) Pair obtain x b bs where x: "SeqIter_next it = (Some (Inr x), it')" "DataBuf_from_data x = Inr b"
        "DataBuf_from_iter it' = Inr bs" "ts = b # bs"
        by (cases res) (auto simp: DataBuf_from_iter.simps [of it] elim!: res_bind_InrE)
      have "placed (si_depth it) x" using x(1) Data_decode_at_placed by (auto simp: SeqIter_next_def split: if_splits prod.splits)
      moreover have "si_depth it < MAX_DEPTH" "si_depth it' = si_depth it" using SeqIter_next_Some(2,3) [OF x(1)] by auto
      ultimately show ?thesis
        using 2(1) [OF x(1) [symmetric] refl refl x(2)] 2(2) [OF x(1) [symmetric] refl refl x(3)] x(4) by auto
    qed
  qed
qed

text \<open>C23: An owned value that the encoder can represent and that nests no deeper than the depth budget is written as bytes
  that parse back to exactly that value.\<close>

theorem tree_encode_parse_round_trip:
  assumes "DataBuf_valid t" "DataBuf_levels t \<le> MAX_DEPTH"
  shows "\<exists>bs. DataBuf_encode t (VecW []) = (Inr (), VecW bs) \<and> DataBuf_parse bs = Inr t"
proof -
  from assms obtain bs where bs: "writes (DataBuf_encode t) bs" "reads_back 0 bs t"
    using tree_codes_exists [of t 0] by (auto simp: tree_codes_def)
  from bs(2) obtain x where "Data_decode_at 0 (Reader_new bs) = (Inr x, rd_advance (length bs) (Reader_new bs))" "DataBuf_from_data x = Inr t"
    by (rule reads_backD [where r = "Reader_new bs" and rest = "[]"]) simp_all
  then have "DataBuf_parse bs = Inr t"
    by (simp add: DataBuf_parse_def from_bytes_def Data_decode_def Reader_is_empty_def Reader_remaining_def)
  with writes_VecW [OF bs(1), of "[]"] show ?thesis by auto
qed

theorem tree_encode_parse_round_trip_witness:
  "\<exists>bs. DataBuf_encode (BStructure [BUnsigned 42, BArray [BOctetString [1, 2, 3], BNull]]) (VecW []) = (Inr (), VecW bs) \<and>
    DataBuf_parse bs = Inr (BStructure [BUnsigned 42, BArray [BOctetString [1, 2, 3], BNull]])"
  by (rule tree_encode_parse_round_trip) (simp_all add: MAX_DEPTH_def)

text \<open>Whatever bytes are parsed, the owned value never nests deeper than sixteen levels, compact arrays and what they
  expand to included, so every walk over it has bounded depth.\<close>

theorem parsed_tree_depth_bounded:
  assumes "DataBuf_parse bs = Inr t"
  shows "DataBuf_levels t \<le> MAX_DEPTH"
proof -
  from assms obtain x where x: "from_bytes Data_decode bs = Inr x" "DataBuf_from_data x = Inr t"
    by (auto simp: DataBuf_parse_def elim!: res_bind_InrE)
  then obtain r' where "Data_decode_at 0 (Reader_new bs) = (Inr x, r')"
    by (auto simp: from_bytes_def Data_decode_def split: prod.splits sum.splits if_splits)
  from from_data_levels(1) [OF x(2) Data_decode_at_placed [OF this]] show ?thesis by (simp add: MAX_DEPTH_def)
qed

subsection \<open>Evaluation\<close>

text \<open>A compact array of two unsigned values, for evaluation.\<close>

definition small_compact :: CompactArray where
  "small_compact = \<lparr>ca_desc = [0x11], ca_contents = [5, 6], ca_desc_base = 0, ca_contents_base = 0, ca_depth = 0\<rparr>"

lemma small_compact_description: "CompactArray_description small_compact = Inr (TdScalar TUnsigned)"
  by (simp add: CompactArray_description_def small_compact_def TypeDesc_parse_at.simps [of 0] try_bind_def read_tag_def
      Reader_u8_def Reader_with_base_def MAX_DEPTH_def DataTag_from_u8_def)

lemma small_compact_rows: "to_rows small_compact = Inr [BUnsigned 5, BUnsigned 6]"
  by (simp add: to_rows_def small_compact_description)
   (simp add: small_compact_def walk_start_def Reader_with_base_def MAX_COMPACT_NODES_def to_rows_from.simps Reader_is_empty_def Reader_remaining_def
    build.simps MAX_DEPTH_def try_bind_def spend_def on_contents_def leaf_def own_leaf_def Reader_u8_def ensure_progress_def Reader_offset_def)

theorem compact_expansion_bounded_witness:
  "to_rows small_compact = Inr [BUnsigned 5, BUnsigned 6] \<and>
    sum_list (map DataBuf_nodes [BUnsigned 5, BUnsigned 6]) \<le> MAX_COMPACT_NODES \<and> row_len small_compact = Inr 1"
proof -
  have "row_len small_compact = Inr 1"
    by (simp add: row_len_def small_compact_description leaf_count_def leaf_count_at.simps [of 0] MAX_DEPTH_def)
  with compact_expansion_bounded [OF small_compact_rows] small_compact_rows show ?thesis by blast
qed

theorem parsed_tree_depth_bounded_witness:
  "DataBuf_parse [0x11, 0x2A] = Inr (BUnsigned 42) \<and> DataBuf_levels (BUnsigned 42) \<le> MAX_DEPTH"
proof -
  have "DataBuf_parse [0x11, 0x2A] = Inr (BUnsigned 42)" by code_simp
  with parsed_tree_depth_bounded [OF this] show ?thesis by simp
qed

text \<open>The derived equality of compact arrays looks at where the bytes were found: the same bytes decoded at two places of a
  frame give values with the same description and the same contents that are nevertheless different, which is
  what the hand-written equality of sequences avoids.\<close>

theorem compact_array_equality_sees_position:
  "\<exists>c c' r r'. Data_decode (Reader_with_base [0x13, 0x11, 0x01, 0x05] 0) = (Inr (DCompactArray c), r) \<and>
    Data_decode (Reader_with_base [0x13, 0x11, 0x01, 0x05] (Suc k)) = (Inr (DCompactArray c'), r') \<and>
    ca_desc c = ca_desc c' \<and> ca_contents c = ca_contents c' \<and> c \<noteq> c'"
proof -
  have "\<exists>r. Data_decode (Reader_with_base [0x13, 0x11, 0x01, 0x05] b) = (Inr (DCompactArray
      \<lparr>ca_desc = [0x11], ca_contents = [5], ca_desc_base = b + 1, ca_contents_base = b + 3, ca_depth = 1\<rparr>), r)" for b
    by (simp add: Data_decode_def Data_decode_at_def CompactArray_decode_body_def probed_def probe_of_def TypeDesc_skip_at_def
      TypeDesc_parse_at.simps [of "Suc 0"] try_bind_def read_tag_def
      Reader_u8_def Reader_with_base_def MAX_DEPTH_def DataTag_from_u8_def Reader_rest_def Reader_offset_def Reader_consumed_def Reader_take_def Reader_ensure_def
     Reader_remaining_def slice_def Reader_length_def)
  from this [of 0] this [of "Suc k"] show ?thesis by force
qed

end
