(* ===== verification/Obis.thy ===== *)
theory Obis
  imports Codec
begin

text \<open>
  Logical names, \<^verbatim>\<open>src/src/obis.rs\<close>: the six value groups, the medium, the textual notation with its parser and printer,
  and the wire form.  A string is the list of its bytes, as the parser of the source reads it.
\<close>

subsection \<open>The medium\<close>

datatype Medium =
    MAbstract | MElectricity | MElectricityDc | MHeatCostAllocator | MCooling | MHeat | MGas | MColdWater | MHotWater | MOther
  | MReserved u8

fun Medium_as_u8 :: "Medium \<Rightarrow> u8" where
  "Medium_as_u8 MAbstract = 0"
| "Medium_as_u8 MElectricity = 1"
| "Medium_as_u8 MElectricityDc = 2"
| "Medium_as_u8 MHeatCostAllocator = 4"
| "Medium_as_u8 MCooling = 5"
| "Medium_as_u8 MHeat = 6"
| "Medium_as_u8 MGas = 7"
| "Medium_as_u8 MColdWater = 8"
| "Medium_as_u8 MHotWater = 9"
| "Medium_as_u8 MOther = 15"
| "Medium_as_u8 (MReserved v) = v"

definition Medium_from_u8 :: "u8 \<Rightarrow> Medium" where
  "Medium_from_u8 v =
     (if v = 0 then MAbstract else if v = 1 then MElectricity else if v = 2 then MElectricityDc
      else if v = 4 then MHeatCostAllocator else if v = 5 then MCooling else if v = 6 then MHeat
      else if v = 7 then MGas else if v = 8 then MColdWater else if v = 9 then MHotWater
      else if v = 15 then MOther else MReserved v)"

subsection \<open>The name\<close>

datatype Obis = Obis (obis_bytes: bytes)

definition Obis_new :: "u8 \<Rightarrow> u8 \<Rightarrow> u8 \<Rightarrow> u8 \<Rightarrow> u8 \<Rightarrow> u8 \<Rightarrow> Obis" where
  "Obis_new a b c d e f = Obis [a, b, c, d, e, f]"

definition Obis_medium :: "Obis \<Rightarrow> Medium" where
  "Obis_medium o1 = Medium_from_u8 (obis_bytes o1 ! 0)"

definition Obis_is_manufacturer_specific :: "Obis \<Rightarrow> bool" where
  "Obis_is_manufacturer_specific o1 \<longleftrightarrow>
     (128 \<le> obis_bytes o1 ! 2 \<and> obis_bytes o1 ! 2 \<le> 199) \<or> (128 \<le> obis_bytes o1 ! 3 \<and> obis_bytes o1 ! 3 \<le> 254) \<or>
     (128 \<le> obis_bytes o1 ! 4 \<and> obis_bytes o1 ! 4 \<le> 254)"

definition obis_wf :: "Obis \<Rightarrow> bool" where
  "obis_wf o1 \<longleftrightarrow> length (obis_bytes o1) = 6"

subsection \<open>The textual notation\<close>

datatype ObisParseError = ObisParseError

text \<open>The loop variables of the parser.\<close>

record obis_scan =
  os_groups :: "u16 list"
  os_n :: nat
  os_have_digit :: bool
  os_cur :: u16

definition is_digit :: "u8 \<Rightarrow> bool" where
  "is_digit ch \<longleftrightarrow> 48 \<le> ch \<and> ch \<le> 57"

definition is_separator :: "u8 \<Rightarrow> bool" where
  "is_separator ch \<longleftrightarrow> ch = 45 \<or> ch = 58 \<or> ch = 46 \<or> ch = 42 \<or> ch = 38"

definition obis_digit :: "u8 \<Rightarrow> obis_scan \<Rightarrow> ObisParseError + obis_scan" where
  "obis_digit ch st =
     (let cur = (if os_have_digit st then os_cur st else 0) in
      if unat cur * 10 \<ge> 2 ^ 16 then Inl ObisParseError
      else if unat (cur * 10) + unat (ch - 48) \<ge> 2 ^ 16 then Inl ObisParseError
      else let cur = cur * 10 + ucast (ch - 48) in
        if cur > 255 then Inl ObisParseError else Inr (st\<lparr>os_have_digit := True, os_cur := cur\<rparr>))"

text \<open>What a separator does, and what the end of the string does as well.\<close>

definition obis_close :: "obis_scan \<Rightarrow> ObisParseError + obis_scan" where
  "obis_close st =
     (if \<not> os_have_digit st \<or> os_n st \<ge> 6 then Inl ObisParseError
      else Inr (st\<lparr>os_groups := (os_groups st)[os_n st := os_cur st], os_n := os_n st + 1, os_have_digit := False\<rparr>))"

fun obis_scan_bytes :: "bytes \<Rightarrow> obis_scan \<Rightarrow> ObisParseError + obis_scan" where
  "obis_scan_bytes [] st = obis_close st"
| "obis_scan_bytes (ch # s) st =
     (case (if is_digit ch then obis_digit ch st else if is_separator ch then obis_close st else Inl ObisParseError) of
        Inl e \<Rightarrow> Inl e
      | Inr st' \<Rightarrow> obis_scan_bytes s st')"

definition Obis_parse :: "bytes \<Rightarrow> ObisParseError + Obis" where
  "Obis_parse s =
     (case obis_scan_bytes s \<lparr>os_groups = replicate 6 0, os_n = 0, os_have_digit = False, os_cur = 0\<rparr> of
        Inl e \<Rightarrow> Inl e
      | Inr st \<Rightarrow>
          (let g = (\<lambda>i. ucast (os_groups st ! i) :: u8) in
           if os_n st = 3 then Inr (Obis_new 1 0 (g 0) (g 1) (g 2) 255)
           else if os_n st = 5 then Inr (Obis_new (g 0) (g 1) (g 2) (g 3) (g 4) 255)
           else if os_n st = 6 then Inr (Obis_new (g 0) (g 1) (g 2) (g 3) (g 4) (g 5))
           else Inl ObisParseError))"

text \<open>A number in decimal, as \<^verbatim>\<open>write!\<close> puts it.\<close>

fun decimal :: "nat \<Rightarrow> bytes" where
  "decimal n = (if n < 10 then [48 + of_nat n] else decimal (n div 10) @ [48 + of_nat (n mod 10)])"

declare decimal.simps [simp del]

definition Obis_display :: "Obis \<Rightarrow> bytes" where
  "Obis_display o1 =
     (let g = (\<lambda>i. decimal (unat (obis_bytes o1 ! i))) in
      g 0 @ [45] @ g 1 @ [58] @ g 2 @ [46] @ g 3 @ [46] @ g 4 @ [42] @ g 5)"

subsection \<open>The wire form\<close>

definition Obis_encode :: "Obis \<Rightarrow> (writer, unit) op" where
  "Obis_encode o1 = write_bytes (obis_bytes o1)"

definition Obis_decode :: "(Reader, Obis) op" where
  "Obis_decode = try_bind (Reader_array 6) (\<lambda>b. ok (Obis b))"

definition Obis_from_octet_string :: "bytes \<Rightarrow> nat \<Rightarrow> Obis result" where
  "Obis_from_octet_string b offset = (if length b = 6 then Inr (Obis b) else Inl (Error_new InvalidLength offset))"

interpretation obis: codec_pair Obis_encode obis_bytes obis_wf Obis_decode
proof unfold_locales
  fix o1 show "obis_wf o1 \<Longrightarrow> writes (Obis_encode o1) (obis_bytes o1)" by (simp add: Obis_encode_def writes_bytes)
next
  fix o1 assume "obis_wf o1"
  then show "decodes Obis_decode (obis_bytes o1) o1"
    unfolding Obis_decode_def obis_wf_def using decodes_map [OF decodes_array, of "obis_bytes o1" 6 Obis] by simp
qed

subsection \<open>Reading back what was printed\<close>

lemma Medium_round_trip: "Medium_as_u8 (Medium_from_u8 v) = v"
  by (simp add: Medium_from_u8_def)


lemma digit_bytes:
  assumes "d < 10"
  shows "is_digit (48 + of_nat d)" "48 + of_nat d - 48 = (of_nat d :: u8)" "unat (of_nat d :: u8) = d"
proof -
  have "unat (48 + of_nat d :: u8) = 48 + d" "unat (of_nat d :: u8) = d" using assms by (simp_all add: unat_word_ariths unat_of_nat)
  then show "is_digit (48 + of_nat d)" "unat (of_nat d :: u8) = d" using assms by (simp_all add: is_digit_def word_le_nat_alt)
qed simp

lemma obis_digit_step:
  assumes "d < 10" "c * 10 + d < 256" "if os_have_digit st then os_cur st = of_nat c else c = 0"
  shows "obis_digit (48 + of_nat d) st = Inr (st\<lparr>os_have_digit := True, os_cur := of_nat (c * 10 + d)\<rparr>)"
proof -
  define cur where "cur = (if os_have_digit st then os_cur st else 0)"
  have cur: "cur = of_nat c" "unat cur = c" using assms by (auto simp: cur_def unat_of_nat split: if_splits)
  then have "unat (cur * 10) = c * 10" using assms by (simp add: unat_word_ariths)
  moreover have step: "cur * 10 + ucast (of_nat d :: u8) = (of_nat (c * 10 + d) :: u16)"
    using assms(1,2) cur(2) digit_bytes(3) [OF assms(1)] by (simp add: word_unat_eq_iff unat_word_ariths unsigned_ucast_eq unat_of_nat take_bit_nat_def)
  moreover have "unat (of_nat (c * 10 + d) :: u16) = c * 10 + d" using assms(2) by (simp only: unat_of_nat) simp
  then have "\<not> (of_nat (c * 10 + d) :: u16) > 255" using assms(2) by (simp only: word_less_nat_alt) simp
  ultimately show ?thesis
    using assms digit_bytes [OF assms(1)] cur(2) by (simp add: obis_digit_def Let_def cur_def [symmetric])
qed

text \<open>The digits of a number below 256 accumulate to it.\<close>

lemma scan_decimal:
  "n < 256 \<Longrightarrow> \<not> os_have_digit st \<Longrightarrow>
    obis_scan_bytes (decimal n @ s) st = obis_scan_bytes s (st\<lparr>os_have_digit := True, os_cur := of_nat n\<rparr>)"
proof (induction n arbitrary: s rule: decimal.induct)
  case (1 n)
  show ?case
  proof (cases "n < 10")
    case True
    then show ?thesis using 1 digit_bytes(1) obis_digit_step [of n 0 st] by (simp add: decimal.simps [of n])
  next
    case False
    let ?st = "st\<lparr>os_have_digit := True, os_cur := of_nat (n div 10)\<rparr>"
    have "obis_digit (48 + of_nat (n mod 10)) ?st = Inr (?st\<lparr>os_have_digit := True, os_cur := of_nat (n div 10 * 10 + n mod 10)\<rparr>)"
      by (rule obis_digit_step) (use 1(2) in auto)
    moreover have "obis_scan_bytes (decimal (n div 10) @ [48 + of_nat (n mod 10)] @ s) st = obis_scan_bytes ([48 + of_nat (n mod 10)] @ s) ?st"
      using 1 False by (intro 1(1)) auto
    ultimately show ?thesis using False digit_bytes(1) [of "n mod 10"] by (simp add: decimal.simps [of n])
  qed
qed

lemma scan_group:
  assumes "n < 256" "\<not> os_have_digit st" "is_separator c" "\<not> is_digit c" "os_n st < 6"
  shows "obis_scan_bytes (decimal n @ [c] @ s) st =
    obis_scan_bytes s (st\<lparr>os_groups := (os_groups st)[os_n st := of_nat n], os_n := os_n st + 1, os_have_digit := False, os_cur := of_nat n\<rparr>)"
proof -
  have "obis_scan_bytes (decimal n @ [c] @ s) st = obis_scan_bytes ([c] @ s) (st\<lparr>os_have_digit := True, os_cur := of_nat n\<rparr>)"
    by (rule scan_decimal [OF assms(1,2)])
  then show ?thesis using assms by (cases st) (simp add: obis_close_def)
qed

lemma scan_last_group:
  assumes "n < 256" "\<not> os_have_digit st" "os_n st < 6"
  shows "obis_scan_bytes (decimal n) st =
    Inr (st\<lparr>os_groups := (os_groups st)[os_n st := of_nat n], os_n := os_n st + 1, os_have_digit := False, os_cur := of_nat n\<rparr>)"
  using scan_decimal [OF assms(1,2), of "[]"] assms by (cases st) (simp add: obis_close_def)

lemma separators:
  "is_separator 45" "is_separator 58" "is_separator 46" "is_separator 42"
  "\<not> is_digit 45" "\<not> is_digit 58" "\<not> is_digit 46" "\<not> is_digit 42"
  by (simp_all add: is_separator_def is_digit_def)

lemma list6: "length xs = 6 \<Longrightarrow> xs = [xs ! 0, xs ! 1, xs ! 2, xs ! 3, xs ! 4, xs ! 5]"
  by (rule nth_equalityI) (auto simp: less_Suc_eq numeral_eq_Suc)

lemma groups6:
  "replicate 6 (0 :: u16) = [0, 0, 0, 0, 0, 0]" "[a, b, c, d, e, f][0 := x] = [x, b, c, d, e, f]" "[a, b, c, d, e, f][1 := x] = [a, x, c, d, e, f]"
  "[a, b, c, d, e, f][2 := x] = [a, b, x, d, e, f]" "[a, b, c, d, e, f][3 := x] = [a, b, c, x, e, f]"
  "[a, b, c, d, e, f][4 := x] = [a, b, c, d, x, f]" "[a, b, c, d, e, f][5 := x] = [a, b, c, d, e, x]"
  by (simp_all add: numeral_eq_Suc)

lemma u8_through_u16: "ucast (ucast (b :: u8) :: u16) = b"
  by (rule bit_word_eqI) (simp add: bit_simps)

lemma u8_below: "unat (b :: u8) < 256"
  using unat_bound [of b] by simp

lemma parse_display:
  assumes "obis_wf o1"
  shows "Obis_parse (Obis_display o1) = Inr o1"
proof -
  let ?g = "\<lambda>i. unat (obis_bytes o1 ! i)"
  have "obis_scan_bytes (Obis_display o1) \<lparr>os_groups = replicate 6 0, os_n = 0, os_have_digit = False, os_cur = 0\<rparr> =
      Inr \<lparr>os_groups = map (\<lambda>i. of_nat (?g i)) [0, 1, 2, 3, 4, 5], os_n = 6, os_have_digit = False, os_cur = of_nat (?g 5)\<rparr>"
    unfolding Obis_display_def Let_def groups6(1)
    by (simp add: scan_group [simplified] scan_last_group separators u8_below groups6)
  then show ?thesis
    using list6 [of "obis_bytes o1", symmetric] assms
    by (cases o1) (simp add: Obis_parse_def Obis_new_def obis_wf_def u8_through_u16)
qed

subsection \<open>Properties\<close>

text \<open>The printed form of a logical name is read back as that name, whatever its six groups are.\<close>

theorem obis_text_round_trip:
  assumes "obis_wf o1"
  shows "Obis_parse (Obis_display o1) = Inr o1"
  using assms by (rule parse_display)

theorem obis_text_round_trip_witness:
  "obis_wf (Obis_new 1 0 1 8 0 255) \<and> Obis_parse (Obis_display (Obis_new 1 0 1 8 0 255)) = Inr (Obis_new 1 0 1 8 0 255)"
  using obis_text_round_trip [of "Obis_new 1 0 1 8 0 255"] by (simp add: obis_wf_def Obis_new_def)

end
