(* ===== verification/ApduTag.thy ===== *)
theory ApduTag
  imports Codec
begin

text \<open>
  The tag byte of an APDU, \<^verbatim>\<open>src/src/xdlms/tag.rs\<close>: its classification and the arithmetic that maps a plain service
  to its \<^verbatim>\<open>glo-\<close> and \<^verbatim>\<open>ded-\<close> form and back.
\<close>

datatype ApduTag =
    AInitiateRequest | AReadRequest | AWriteRequest | AInitiateResponse | AReadResponse
  | AWriteResponse | AConfirmedServiceError | ADataNotification | AUnconfirmedWriteRequest | AInformationReportRequest
  | AGloInitiateRequest | AGloReadRequest | AGloWriteRequest | AGloInitiateResponse | AGloReadResponse
  | AGloWriteResponse | AGloConfirmedServiceError | AGloUnconfirmedWriteRequest | AGloInformationReport | ADedInitiateRequest
  | ADedReadRequest | ADedWriteRequest | ADedInitiateResponse | ADedReadResponse | ADedWriteResponse
  | ADedConfirmedServiceError | ADedUnconfirmedWriteRequest | ADedInformationReport | AAarq | AAare
  | AReleaseRequest | AReleaseResponse | AGetRequest | ASetRequest | AEventNotificationRequest
  | AActionRequest | AGetResponse | ASetResponse | AActionResponse | AGloGetRequest
  | AGloSetRequest | AGloEventNotification | AGloActionRequest | AGloGetResponse | AGloSetResponse
  | AGloActionResponse | ADedGetRequest | ADedSetRequest | ADedEventNotification | ADedActionRequest
  | ADedGetResponse | ADedSetResponse | ADedActionResponse | AExceptionResponse | AAccessRequest
  | AAccessResponse | AGeneralGloCiphering | AGeneralDedCiphering | AGeneralCiphering | AGeneralSigning
  | AGeneralBlockTransfer | AGatewayRequest | AGatewayResponse | APingRequest | APingResponse
  | ARegisterRequest | ADiscoverRequest | ADiscoverReport | ARepeatCallRequest

datatype Protection = PNone | PGlobal | PDedicated

fun ApduTag_as_u8 :: "ApduTag \<Rightarrow> u8" where
  "ApduTag_as_u8 AInitiateRequest = 0x01"
| "ApduTag_as_u8 AReadRequest = 0x05"
| "ApduTag_as_u8 AWriteRequest = 0x06"
| "ApduTag_as_u8 AInitiateResponse = 0x08"
| "ApduTag_as_u8 AReadResponse = 0x0C"
| "ApduTag_as_u8 AWriteResponse = 0x0D"
| "ApduTag_as_u8 AConfirmedServiceError = 0x0E"
| "ApduTag_as_u8 ADataNotification = 0x0F"
| "ApduTag_as_u8 AUnconfirmedWriteRequest = 0x16"
| "ApduTag_as_u8 AInformationReportRequest = 0x18"
| "ApduTag_as_u8 AGloInitiateRequest = 0x21"
| "ApduTag_as_u8 AGloReadRequest = 0x25"
| "ApduTag_as_u8 AGloWriteRequest = 0x26"
| "ApduTag_as_u8 AGloInitiateResponse = 0x28"
| "ApduTag_as_u8 AGloReadResponse = 0x2C"
| "ApduTag_as_u8 AGloWriteResponse = 0x2D"
| "ApduTag_as_u8 AGloConfirmedServiceError = 0x2E"
| "ApduTag_as_u8 AGloUnconfirmedWriteRequest = 0x36"
| "ApduTag_as_u8 AGloInformationReport = 0x38"
| "ApduTag_as_u8 ADedInitiateRequest = 0x41"
| "ApduTag_as_u8 ADedReadRequest = 0x45"
| "ApduTag_as_u8 ADedWriteRequest = 0x46"
| "ApduTag_as_u8 ADedInitiateResponse = 0x48"
| "ApduTag_as_u8 ADedReadResponse = 0x4C"
| "ApduTag_as_u8 ADedWriteResponse = 0x4D"
| "ApduTag_as_u8 ADedConfirmedServiceError = 0x4E"
| "ApduTag_as_u8 ADedUnconfirmedWriteRequest = 0x56"
| "ApduTag_as_u8 ADedInformationReport = 0x58"
| "ApduTag_as_u8 AAarq = 0x60"
| "ApduTag_as_u8 AAare = 0x61"
| "ApduTag_as_u8 AReleaseRequest = 0x62"
| "ApduTag_as_u8 AReleaseResponse = 0x63"
| "ApduTag_as_u8 AGetRequest = 0xC0"
| "ApduTag_as_u8 ASetRequest = 0xC1"
| "ApduTag_as_u8 AEventNotificationRequest = 0xC2"
| "ApduTag_as_u8 AActionRequest = 0xC3"
| "ApduTag_as_u8 AGetResponse = 0xC4"
| "ApduTag_as_u8 ASetResponse = 0xC5"
| "ApduTag_as_u8 AActionResponse = 0xC7"
| "ApduTag_as_u8 AGloGetRequest = 0xC8"
| "ApduTag_as_u8 AGloSetRequest = 0xC9"
| "ApduTag_as_u8 AGloEventNotification = 0xCA"
| "ApduTag_as_u8 AGloActionRequest = 0xCB"
| "ApduTag_as_u8 AGloGetResponse = 0xCC"
| "ApduTag_as_u8 AGloSetResponse = 0xCD"
| "ApduTag_as_u8 AGloActionResponse = 0xCF"
| "ApduTag_as_u8 ADedGetRequest = 0xD0"
| "ApduTag_as_u8 ADedSetRequest = 0xD1"
| "ApduTag_as_u8 ADedEventNotification = 0xD2"
| "ApduTag_as_u8 ADedActionRequest = 0xD3"
| "ApduTag_as_u8 ADedGetResponse = 0xD4"
| "ApduTag_as_u8 ADedSetResponse = 0xD5"
| "ApduTag_as_u8 ADedActionResponse = 0xD7"
| "ApduTag_as_u8 AExceptionResponse = 0xD8"
| "ApduTag_as_u8 AAccessRequest = 0xD9"
| "ApduTag_as_u8 AAccessResponse = 0xDA"
| "ApduTag_as_u8 AGeneralGloCiphering = 0xDB"
| "ApduTag_as_u8 AGeneralDedCiphering = 0xDC"
| "ApduTag_as_u8 AGeneralCiphering = 0xDD"
| "ApduTag_as_u8 AGeneralSigning = 0xDF"
| "ApduTag_as_u8 AGeneralBlockTransfer = 0xE0"
| "ApduTag_as_u8 AGatewayRequest = 0xE6"
| "ApduTag_as_u8 AGatewayResponse = 0xE7"
| "ApduTag_as_u8 APingRequest = 0x19"
| "ApduTag_as_u8 APingResponse = 0x1A"
| "ApduTag_as_u8 ARegisterRequest = 0x1C"
| "ApduTag_as_u8 ADiscoverRequest = 0x1D"
| "ApduTag_as_u8 ADiscoverReport = 0x1E"
| "ApduTag_as_u8 ARepeatCallRequest = 0x1F"

definition ApduTag_from_u8 :: "u8 \<Rightarrow> ApduTag option" where
  "ApduTag_from_u8 v =
     (if v = 0x01 then Some AInitiateRequest
      else if v = 0x05 then Some AReadRequest
      else if v = 0x06 then Some AWriteRequest
      else if v = 0x08 then Some AInitiateResponse
      else if v = 0x0C then Some AReadResponse
      else if v = 0x0D then Some AWriteResponse
      else if v = 0x0E then Some AConfirmedServiceError
      else if v = 0x0F then Some ADataNotification
      else if v = 0x16 then Some AUnconfirmedWriteRequest
      else if v = 0x18 then Some AInformationReportRequest
      else if v = 0x19 then Some APingRequest
      else if v = 0x1A then Some APingResponse
      else if v = 0x1C then Some ARegisterRequest
      else if v = 0x1D then Some ADiscoverRequest
      else if v = 0x1E then Some ADiscoverReport
      else if v = 0x1F then Some ARepeatCallRequest
      else if v = 0x21 then Some AGloInitiateRequest
      else if v = 0x25 then Some AGloReadRequest
      else if v = 0x26 then Some AGloWriteRequest
      else if v = 0x28 then Some AGloInitiateResponse
      else if v = 0x2C then Some AGloReadResponse
      else if v = 0x2D then Some AGloWriteResponse
      else if v = 0x2E then Some AGloConfirmedServiceError
      else if v = 0x36 then Some AGloUnconfirmedWriteRequest
      else if v = 0x38 then Some AGloInformationReport
      else if v = 0x41 then Some ADedInitiateRequest
      else if v = 0x45 then Some ADedReadRequest
      else if v = 0x46 then Some ADedWriteRequest
      else if v = 0x48 then Some ADedInitiateResponse
      else if v = 0x4C then Some ADedReadResponse
      else if v = 0x4D then Some ADedWriteResponse
      else if v = 0x4E then Some ADedConfirmedServiceError
      else if v = 0x56 then Some ADedUnconfirmedWriteRequest
      else if v = 0x58 then Some ADedInformationReport
      else if v = 0x60 then Some AAarq
      else if v = 0x61 then Some AAare
      else if v = 0x62 then Some AReleaseRequest
      else if v = 0x63 then Some AReleaseResponse
      else if v = 0xC0 then Some AGetRequest
      else if v = 0xC1 then Some ASetRequest
      else if v = 0xC2 then Some AEventNotificationRequest
      else if v = 0xC3 then Some AActionRequest
      else if v = 0xC4 then Some AGetResponse
      else if v = 0xC5 then Some ASetResponse
      else if v = 0xC7 then Some AActionResponse
      else if v = 0xC8 then Some AGloGetRequest
      else if v = 0xC9 then Some AGloSetRequest
      else if v = 0xCA then Some AGloEventNotification
      else if v = 0xCB then Some AGloActionRequest
      else if v = 0xCC then Some AGloGetResponse
      else if v = 0xCD then Some AGloSetResponse
      else if v = 0xCF then Some AGloActionResponse
      else if v = 0xD0 then Some ADedGetRequest
      else if v = 0xD1 then Some ADedSetRequest
      else if v = 0xD2 then Some ADedEventNotification
      else if v = 0xD3 then Some ADedActionRequest
      else if v = 0xD4 then Some ADedGetResponse
      else if v = 0xD5 then Some ADedSetResponse
      else if v = 0xD7 then Some ADedActionResponse
      else if v = 0xD8 then Some AExceptionResponse
      else if v = 0xD9 then Some AAccessRequest
      else if v = 0xDA then Some AAccessResponse
      else if v = 0xDB then Some AGeneralGloCiphering
      else if v = 0xDC then Some AGeneralDedCiphering
      else if v = 0xDD then Some AGeneralCiphering
      else if v = 0xDF then Some AGeneralSigning
      else if v = 0xE0 then Some AGeneralBlockTransfer
      else if v = 0xE6 then Some AGatewayRequest
      else if v = 0xE7 then Some AGatewayResponse
      else None)"

definition ApduTag_unprotect :: "ApduTag \<Rightarrow> (Protection \<times> ApduTag) option" where
  "ApduTag_unprotect tag =
     (let v = ApduTag_as_u8 tag;
          arm = (if v \<in> {0x21, 0x25, 0x26, 0x28, 0x2C, 0x2D, 0x2E, 0x36, 0x38} then Some (PGlobal, v - 0x20)
                 else if v \<in> {0x41, 0x45, 0x46, 0x48, 0x4C, 0x4D, 0x4E, 0x56, 0x58} then Some (PDedicated, v - 0x40)
                 else if 0xC8 \<le> v \<and> v \<le> 0xCF then Some (PGlobal, v - 0x08)
                 else if 0xD0 \<le> v \<and> v \<le> 0xD7 then Some (PDedicated, v - 0x10)
                 else None)
      in case arm of
           None \<Rightarrow> None
         | Some (protection, plain) \<Rightarrow>
             (case ApduTag_from_u8 plain of Some p \<Rightarrow> Some (protection, p) | None \<Rightarrow> None))"

definition ApduTag_protected_as :: "Protection \<Rightarrow> ApduTag \<Rightarrow> ApduTag option" where
  "ApduTag_protected_as protection tag =
     (let v = ApduTag_as_u8 tag;
          short = v \<in> {0x01, 0x05, 0x06, 0x08, 0x0C, 0x0D, 0x0E, 0x16, 0x18};
          named = 0xC0 \<le> v \<and> v \<le> 0xC7;
          out = (if protection = PNone then Some v
                 else if protection = PGlobal \<and> short then Some (v + 0x20)
                 else if protection = PDedicated \<and> short then Some (v + 0x40)
                 else if protection = PGlobal \<and> named then Some (v + 0x08)
                 else if protection = PDedicated \<and> named then Some (v + 0x10)
                 else None)
      in case out of None \<Rightarrow> None | Some b \<Rightarrow> ApduTag_from_u8 b)"

definition ApduTag_is_request :: "ApduTag \<Rightarrow> bool" where
  "ApduTag_is_request tag \<longleftrightarrow> tag \<in> {AGetRequest, ASetRequest, AActionRequest, AAccessRequest, AReadRequest, AWriteRequest,
     AAarq, AReleaseRequest}"

lemma ApduTag_round_trip [simp]: "ApduTag_from_u8 (ApduTag_as_u8 t) = Some t"
  by (cases t) (simp_all add: ApduTag_from_u8_def)

lemma if_SomeE:
  assumes "(if v = c then Some x else r) = Some t"
  obtains "v = c" "x = t" | "r = Some t"
  using assms by (auto split: if_splits)

lemma ApduTag_from_u8_Some: "ApduTag_from_u8 v = Some t \<longleftrightarrow> v = ApduTag_as_u8 t"
proof
  assume "ApduTag_from_u8 v = Some t"
  then show "v = ApduTag_as_u8 t" unfolding ApduTag_from_u8_def by (elim if_SomeE; simp; hypsubst?; simp)
qed simp

text \<open>Every tag, for the checks that run through all of them.\<close>

definition ApduTag_list :: "ApduTag list" where
  "ApduTag_list = [AInitiateRequest, AReadRequest, AWriteRequest, AInitiateResponse, AReadResponse, AWriteResponse,
     AConfirmedServiceError, ADataNotification, AUnconfirmedWriteRequest, AInformationReportRequest, AGloInitiateRequest, AGloReadRequest,
     AGloWriteRequest, AGloInitiateResponse, AGloReadResponse, AGloWriteResponse, AGloConfirmedServiceError, AGloUnconfirmedWriteRequest,
     AGloInformationReport, ADedInitiateRequest, ADedReadRequest, ADedWriteRequest, ADedInitiateResponse, ADedReadResponse,
     ADedWriteResponse, ADedConfirmedServiceError, ADedUnconfirmedWriteRequest, ADedInformationReport, AAarq, AAare,
     AReleaseRequest, AReleaseResponse, AGetRequest, ASetRequest, AEventNotificationRequest, AActionRequest,
     AGetResponse, ASetResponse, AActionResponse, AGloGetRequest, AGloSetRequest, AGloEventNotification,
     AGloActionRequest, AGloGetResponse, AGloSetResponse, AGloActionResponse, ADedGetRequest, ADedSetRequest,
     ADedEventNotification, ADedActionRequest, ADedGetResponse, ADedSetResponse, ADedActionResponse, AExceptionResponse,
     AAccessRequest, AAccessResponse, AGeneralGloCiphering, AGeneralDedCiphering, AGeneralCiphering, AGeneralSigning,
     AGeneralBlockTransfer, AGatewayRequest, AGatewayResponse, APingRequest, APingResponse, ARegisterRequest,
     ADiscoverRequest, ADiscoverReport, ARepeatCallRequest]"

lemma ApduTag_list_complete: "t \<in> set ApduTag_list"
  by (cases t) (simp_all add: ApduTag_list_def)

lemma unprotect_table:
  "list_all (\<lambda>c. case ApduTag_unprotect c of None \<Rightarrow> True
     | Some (p, t) \<Rightarrow> p \<noteq> PNone \<and> ApduTag_protected_as p t = Some c) ApduTag_list"
  by code_simp

lemma protected_as_table:
  "list_all (\<lambda>t. list_all (\<lambda>p. case ApduTag_protected_as p t of None \<Rightarrow> True
     | Some c \<Rightarrow> ApduTag_unprotect c = Some (p, t)) [PGlobal, PDedicated]) ApduTag_list"
  by code_simp

lemma unprotect_protected_as:
  "ApduTag_unprotect c = Some (p, t) \<Longrightarrow> ApduTag_protected_as p t = Some c \<and> p \<noteq> PNone"
  using unprotect_table ApduTag_list_complete [of c] by (fastforce simp: list_all_iff)

lemma protected_as_unprotect:
  "ApduTag_protected_as p t = Some c \<Longrightarrow> p \<noteq> PNone \<Longrightarrow> ApduTag_unprotect c = Some (p, t)"
  using protected_as_table ApduTag_list_complete [of t] by (cases p) (fastforce simp: list_all_iff)+

text \<open>Renaming a service to its ciphered form and reading that form self are inverse: a plain tag has a ciphered tag under a
  key set exactly when that ciphered tag is read as this service under this key set, and no tag stands for two
  services or two key sets.\<close>

theorem apdu_tag_protection_inverse:
  "ApduTag_protected_as p t = Some c \<and> p \<noteq> PNone \<longleftrightarrow> ApduTag_unprotect c = Some (p, t)"
  using protected_as_unprotect unprotect_protected_as by blast

end
