(* ===== verification/Ciphered.thy ===== *)
theory Ciphered
  imports ApduTag
begin

text \<open>
  The wire types of protected APDUs, \<^verbatim>\<open>src/src/xdlms/protection.rs\<close>: the security control byte, the ciphered service, the
  general wrappers and their key information.  No cryptography happens here.
\<close>

subsection \<open>The security control byte\<close>

datatype SecurityControl = SecurityControl (sc_byte: u8)

definition SecurityControl_new :: "u8 \<Rightarrow> bool \<Rightarrow> bool \<Rightarrow> SecurityControl" where
  "SecurityControl_new suite authenticated encrypted =
     (let v = suite AND 0x0F;
          v = (if authenticated then v OR 0x10 else v);
          v = (if encrypted then v OR 0x20 else v)
      in SecurityControl v)"

definition SecurityControl_with_broadcast :: "bool \<Rightarrow> SecurityControl \<Rightarrow> SecurityControl" where
  "SecurityControl_with_broadcast broadcast c =
     SecurityControl (if broadcast then sc_byte c OR 0x40 else sc_byte c AND NOT 0x40)"

definition SecurityControl_suite :: "SecurityControl \<Rightarrow> u8" where
  "SecurityControl_suite c = sc_byte c AND 0x0F"

definition SecurityControl_authenticated :: "SecurityControl \<Rightarrow> bool" where
  "SecurityControl_authenticated c \<longleftrightarrow> sc_byte c AND 0x10 \<noteq> 0"

definition SecurityControl_encrypted :: "SecurityControl \<Rightarrow> bool" where
  "SecurityControl_encrypted c \<longleftrightarrow> sc_byte c AND 0x20 \<noteq> 0"

definition SecurityControl_broadcast_key :: "SecurityControl \<Rightarrow> bool" where
  "SecurityControl_broadcast_key c \<longleftrightarrow> sc_byte c AND 0x40 \<noteq> 0"

definition SecurityControl_compressed :: "SecurityControl \<Rightarrow> bool" where
  "SecurityControl_compressed c \<longleftrightarrow> sc_byte c AND 0x80 \<noteq> 0"

definition SecurityControl_is_plain :: "SecurityControl \<Rightarrow> bool" where
  "SecurityControl_is_plain c \<longleftrightarrow> \<not> SecurityControl_authenticated c \<and> \<not> SecurityControl_encrypted c"

subsection \<open>Ciphered services\<close>

record CipheredService =
  cs_security_control :: SecurityControl
  cs_invocation_counter :: u32
  cs_payload :: bytes

definition CipheredService_encode :: "CipheredService \<Rightarrow> (writer, unit) op" where
  "CipheredService_encode c =
     try_bind (write_length (5 + length (cs_payload c))) (\<lambda>_.
     try_bind (write_u8 (sc_byte (cs_security_control c))) (\<lambda>_.
     try_bind (write_u32 (cs_invocation_counter c)) (\<lambda>_.
     write_bytes (cs_payload c))))"

text \<open>\<^verbatim>\<open>Reader::with_base(body, ..)\<close>: the fields are read out of the octet string, not out of what follows it.\<close>

definition CipheredService_decode :: "(Reader, CipheredService) op" where
  "CipheredService_decode = try_bind Reader_length_prefixed (\<lambda>body r.
     (fst (try_bind Reader_u8 (\<lambda>control. try_bind Reader_u32 (\<lambda>counter br.
        case Reader_take_rest br of (payload, br') \<Rightarrow>
          (Inr \<lparr>cs_security_control = SecurityControl control, cs_invocation_counter = counter, cs_payload = payload\<rparr>, br')))
        (Reader_with_base body (Reader_offset r - length body))), r))"

record GeneralGloCiphering =
  gg_system_title :: bytes
  gg_ciphered :: CipheredService

definition GeneralGloCiphering_encode :: "GeneralGloCiphering \<Rightarrow> (writer, unit) op" where
  "GeneralGloCiphering_encode g =
     try_bind (write_length_prefixed (gg_system_title g)) (\<lambda>_. CipheredService_encode (gg_ciphered g))"

definition GeneralGloCiphering_decode :: "(Reader, GeneralGloCiphering) op" where
  "GeneralGloCiphering_decode =
     try_bind Reader_length_prefixed (\<lambda>title.
     try_bind CipheredService_decode (\<lambda>c. ok \<lparr>gg_system_title = title, gg_ciphered = c\<rparr>))"

subsection \<open>General ciphering\<close>

datatype KeyInfo =
    Identified u8
  | Wrapped u8 bytes
  | Agreed bytes bytes

fun KeyInfo_encode :: "KeyInfo \<Rightarrow> (writer, unit) op" where
  "KeyInfo_encode (Identified key_id) = write_bytes [0, key_id]"
| "KeyInfo_encode (Wrapped kek_id ciphered_key) =
     try_bind (write_bytes [1, kek_id]) (\<lambda>_. write_length_prefixed ciphered_key)"
| "KeyInfo_encode (Agreed parameters ciphered_key) =
     try_bind (write_u8 2) (\<lambda>_. try_bind (write_length_prefixed parameters) (\<lambda>_. write_length_prefixed ciphered_key))"

definition KeyInfo_decode :: "(Reader, KeyInfo) op" where
  "KeyInfo_decode = try_bind Reader_u8 (\<lambda>choice.
     if choice = 0 then try_bind Reader_u8 (\<lambda>key_id. ok (Identified key_id))
     else if choice = 1 then try_bind Reader_u8 (\<lambda>kek_id. try_bind Reader_length_prefixed (\<lambda>k. ok (Wrapped kek_id k)))
     else if choice = 2 then try_bind Reader_length_prefixed (\<lambda>p. try_bind Reader_length_prefixed (\<lambda>k. ok (Agreed p k)))
     else rd_fail_back (InvalidTag choice) 1)"

record GeneralCiphering =
  gc_transaction_id :: bytes
  gc_originator_system_title :: bytes
  gc_recipient_system_title :: bytes
  gc_date_time :: bytes
  gc_other_information :: bytes
  gc_key_info :: "KeyInfo option"
  gc_ciphered :: CipheredService

definition GeneralCiphering_encode :: "GeneralCiphering \<Rightarrow> (writer, unit) op" where
  "GeneralCiphering_encode g =
     try_bind (write_length_prefixed (gc_transaction_id g)) (\<lambda>_.
     try_bind (write_length_prefixed (gc_originator_system_title g)) (\<lambda>_.
     try_bind (write_length_prefixed (gc_recipient_system_title g)) (\<lambda>_.
     try_bind (write_length_prefixed (gc_date_time g)) (\<lambda>_.
     try_bind (write_length_prefixed (gc_other_information g)) (\<lambda>_.
     try_bind (case gc_key_info g of
         None \<Rightarrow> write_u8 0
       | Some k \<Rightarrow> try_bind (write_u8 1) (\<lambda>_. KeyInfo_encode k)) (\<lambda>_.
     CipheredService_encode (gc_ciphered g)))))))"

definition GeneralCiphering_decode :: "(Reader, GeneralCiphering) op" where
  "GeneralCiphering_decode =
     try_bind Reader_length_prefixed (\<lambda>tid.
     try_bind Reader_length_prefixed (\<lambda>orig.
     try_bind Reader_length_prefixed (\<lambda>recip.
     try_bind Reader_length_prefixed (\<lambda>dt.
     try_bind Reader_length_prefixed (\<lambda>other.
     try_bind (try_bind Reader_u8 (\<lambda>present.
         if present = 0 then ok None else try_bind KeyInfo_decode (\<lambda>k. ok (Some k)))) (\<lambda>ki.
     try_bind CipheredService_decode (\<lambda>c.
     ok \<lparr>gc_transaction_id = tid, gc_originator_system_title = orig, gc_recipient_system_title = recip,
         gc_date_time = dt, gc_other_information = other, gc_key_info = ki, gc_ciphered = c\<rparr>)))))))"

subsection \<open>General signing\<close>

record GeneralSigning =
  gsg_transaction_id :: bytes
  gsg_originator_system_title :: bytes
  gsg_recipient_system_title :: bytes
  gsg_date_time :: bytes
  gsg_other_information :: bytes
  gsg_content :: bytes
  gsg_signature :: bytes

definition GeneralSigning_encode :: "GeneralSigning \<Rightarrow> (writer, unit) op" where
  "GeneralSigning_encode g =
     try_bind (write_length_prefixed (gsg_transaction_id g)) (\<lambda>_.
     try_bind (write_length_prefixed (gsg_originator_system_title g)) (\<lambda>_.
     try_bind (write_length_prefixed (gsg_recipient_system_title g)) (\<lambda>_.
     try_bind (write_length_prefixed (gsg_date_time g)) (\<lambda>_.
     try_bind (write_length_prefixed (gsg_other_information g)) (\<lambda>_.
     try_bind (write_length_prefixed (gsg_content g)) (\<lambda>_.
     write_length_prefixed (gsg_signature g)))))))"

definition GeneralSigning_decode :: "(Reader, GeneralSigning) op" where
  "GeneralSigning_decode =
     try_bind Reader_length_prefixed (\<lambda>tid.
     try_bind Reader_length_prefixed (\<lambda>orig.
     try_bind Reader_length_prefixed (\<lambda>recip.
     try_bind Reader_length_prefixed (\<lambda>dt.
     try_bind Reader_length_prefixed (\<lambda>other.
     try_bind Reader_length_prefixed (\<lambda>content.
     try_bind Reader_length_prefixed (\<lambda>signature.
     ok \<lparr>gsg_transaction_id = tid, gsg_originator_system_title = orig, gsg_recipient_system_title = recip,
         gsg_date_time = dt, gsg_other_information = other, gsg_content = content, gsg_signature = signature\<rparr>)))))))"

subsection \<open>The bits of the control byte\<close>

lemma control_bits [simp]:
  "SecurityControl_authenticated (SecurityControl_with_broadcast b (SecurityControl_new s a e)) = a"
  "SecurityControl_encrypted (SecurityControl_with_broadcast b (SecurityControl_new s a e)) = e"
  "SecurityControl_broadcast_key (SecurityControl_with_broadcast b (SecurityControl_new s a e)) = b"
  "SecurityControl_compressed (SecurityControl_with_broadcast b (SecurityControl_new s a e)) = False"
  "SecurityControl_suite (SecurityControl_with_broadcast b (SecurityControl_new s a e)) = s AND 0x0F"
proof -
  have bits: "(0x0F::u8) AND 0x10 = 0" "(0x0F::u8) AND 0x20 = 0" "(0x0F::u8) AND 0x40 = 0" "(0x0F::u8) AND 0x80 = 0" by simp_all
  have z: "(s AND 0x0F) AND 0x10 = 0" "(s AND 0x0F) AND 0x20 = 0" "(s AND 0x0F) AND 0x40 = 0" "(s AND 0x0F) AND 0x80 = 0"
    unfolding and.assoc bits by simp_all
  show "SecurityControl_authenticated (SecurityControl_with_broadcast b (SecurityControl_new s a e)) = a"
    "SecurityControl_encrypted (SecurityControl_with_broadcast b (SecurityControl_new s a e)) = e"
    "SecurityControl_broadcast_key (SecurityControl_with_broadcast b (SecurityControl_new s a e)) = b"
    "SecurityControl_compressed (SecurityControl_with_broadcast b (SecurityControl_new s a e)) = False"
    "SecurityControl_suite (SecurityControl_with_broadcast b (SecurityControl_new s a e)) = s AND 0x0F"
    using z
    by (simp_all add: SecurityControl_authenticated_def SecurityControl_encrypted_def SecurityControl_broadcast_key_def
        SecurityControl_compressed_def SecurityControl_suite_def SecurityControl_with_broadcast_def SecurityControl_new_def
        bit.conj_disj_distrib2 and.assoc Let_def)
qed

lemma new_control_bits [simp]:
  "SecurityControl_authenticated (SecurityControl_new s a e) = a" "SecurityControl_encrypted (SecurityControl_new s a e) = e"
  "SecurityControl_broadcast_key (SecurityControl_new s a e) = False" "SecurityControl_compressed (SecurityControl_new s a e) = False"
  "SecurityControl_suite (SecurityControl_new s a e) = s AND 0x0F"
proof -
  have bits: "(0x0F::u8) AND 0x10 = 0" "(0x0F::u8) AND 0x20 = 0" "(0x0F::u8) AND 0x40 = 0" "(0x0F::u8) AND 0x80 = 0" by simp_all
  have z: "(s AND 0x0F) AND 0x10 = 0" "(s AND 0x0F) AND 0x20 = 0" "(s AND 0x0F) AND 0x40 = 0" "(s AND 0x0F) AND 0x80 = 0"
    unfolding and.assoc bits by simp_all
  then show "SecurityControl_authenticated (SecurityControl_new s a e) = a" "SecurityControl_encrypted (SecurityControl_new s a e) = e"
    "SecurityControl_broadcast_key (SecurityControl_new s a e) = False" "SecurityControl_compressed (SecurityControl_new s a e) = False"
    "SecurityControl_suite (SecurityControl_new s a e) = s AND 0x0F"
    by (simp_all add: SecurityControl_authenticated_def SecurityControl_encrypted_def SecurityControl_broadcast_key_def
        SecurityControl_compressed_def SecurityControl_suite_def SecurityControl_new_def bit.conj_disj_distrib2 and.assoc Let_def)
qed

subsection \<open>Round trips\<close>

definition ciphered_image :: "CipheredService \<Rightarrow> bytes" where
  "ciphered_image c = len_bytes (5 + length (cs_payload c)) @
     sc_byte (cs_security_control c) # be_bytes 4 (cs_invocation_counter c) @ cs_payload c"

definition ciphered_valid :: "CipheredService \<Rightarrow> bool" where
  "ciphered_valid c \<longleftrightarrow> 5 + length (cs_payload c) < 2 ^ 32"

lemma Reader_with_base_simps [simp]:
  "rd_wf (Reader_with_base b base)" "Reader_rest (Reader_with_base b base) = b" "Reader_offset (Reader_with_base b base) = base"
  "rd_buf (Reader_with_base b base) = b" "rd_pos (Reader_with_base b base) = 0" "rd_base (Reader_with_base b base) = base"
  by (simp_all add: Reader_with_base_def rd_wf_def Reader_rest_def Reader_offset_def)

lemma ciphered_body:
  "fst (try_bind Reader_u8 (\<lambda>control. try_bind Reader_u32 (\<lambda>counter br.
      case Reader_take_rest br of (payload, br') \<Rightarrow>
        (Inr \<lparr>cs_security_control = SecurityControl control, cs_invocation_counter = counter, cs_payload = payload\<rparr>, br')))
      (Reader_with_base (k # be_bytes 4 ic @ p) base)) =
    Inr \<lparr>cs_security_control = SecurityControl k, cs_invocation_counter = ic, cs_payload = p\<rparr>"
proof -
  define r where "r = Reader_with_base (k # be_bytes 4 ic @ p) base"
  have wf: "rd_wf r" and rest: "Reader_rest r = [k] @ (be_bytes 4 ic @ p)" by (simp_all add: r_def)
  have "Reader_u8 r = (Inr k, rd_advance 1 r)"
    using rest by (simp add: Reader_u8_eq)
  moreover have wf1: "rd_wf (rd_advance 1 r)" and rest1: "Reader_rest (rd_advance 1 r) = be_bytes 4 ic @ p"
    using rest_append [OF wf rest] by simp_all
  moreover have "Reader_u32 (rd_advance 1 r) = (Inr ic, rd_advance 4 (rd_advance 1 r))"
    using decodes_u32 [of ic] wf1 rest1 by (simp add: decodes_def decodes_at_def)
  moreover have "Reader_rest (rd_advance 4 (rd_advance 1 r)) = p"
    using rest_append [OF wf1 rest1] by simp
  ultimately show ?thesis by (simp add: r_def [symmetric] try_bind_def Reader_take_rest_def)
qed

interpretation ciphered: codec_pair CipheredService_encode ciphered_image ciphered_valid CipheredService_decode
proof unfold_locales
  fix c assume "ciphered_valid c"
  then show "writes (CipheredService_encode c) (ciphered_image c)"
    unfolding CipheredService_encode_def ciphered_image_def ciphered_valid_def
    by (intro writes_seq [OF writes_length] writes_seq_eq [OF writes_u8 writes_seq [OF writes_u32 writes_bytes]]) auto
next
  fix c assume valid: "ciphered_valid c"
  define body where "body = sc_byte (cs_security_control c) # be_bytes 4 (cs_invocation_counter c) @ cs_payload c"
  have "length body = 5 + length (cs_payload c)" by (simp add: body_def)
  then have "decodes Reader_length_prefixed (len_bytes (5 + length (cs_payload c)) @ body) body"
    using decodes_length_prefixed [of body] valid by (simp add: ciphered_valid_def)
  then show "decodes CipheredService_decode (ciphered_image c) c"
    unfolding CipheredService_decode_def ciphered_image_def body_def [symmetric]
    by (rule decodes_bind_eq [where b = "[]"]) (auto simp: decodes_def decodes_at_def body_def ciphered_body)
qed

text \<open>Length-prefixed fields in a row.\<close>

definition prefixed :: "bytes \<Rightarrow> bytes" where
  "prefixed b = len_bytes (length b) @ b"

definition short_field :: "bytes \<Rightarrow> bool" where
  "short_field b \<longleftrightarrow> length b < 2 ^ 32"

lemma writes_prefixed [writes_intro]: "short_field b \<Longrightarrow> writes (write_length_prefixed b) (prefixed b)"
  unfolding prefixed_def short_field_def by (rule writes_length_prefixed)

lemma decodes_prefixed [decodes_intro]: "short_field b \<Longrightarrow> decodes Reader_length_prefixed (prefixed b) b"
  unfolding prefixed_def short_field_def by (rule decodes_length_prefixed)

definition glo_image :: "GeneralGloCiphering \<Rightarrow> bytes" where
  "glo_image g = prefixed (gg_system_title g) @ ciphered_image (gg_ciphered g)"

definition glo_valid :: "GeneralGloCiphering \<Rightarrow> bool" where
  "glo_valid g \<longleftrightarrow> short_field (gg_system_title g) \<and> ciphered_valid (gg_ciphered g)"

interpretation glo: codec_pair GeneralGloCiphering_encode glo_image glo_valid GeneralGloCiphering_decode
proof unfold_locales
  fix g assume "glo_valid g"
  then show "writes (GeneralGloCiphering_encode g) (glo_image g)"
    unfolding GeneralGloCiphering_encode_def glo_image_def glo_valid_def
    by (intro writes_seq writes_prefixed ciphered.enc_writes) auto
next
  fix g assume "glo_valid g"
  then show "decodes GeneralGloCiphering_decode (glo_image g) g"
    unfolding GeneralGloCiphering_decode_def glo_image_def glo_valid_def
    by (auto intro!: decodes_bind [OF decodes_prefixed] decodes_last [OF ciphered.dec_img])
qed

fun key_image :: "KeyInfo \<Rightarrow> bytes" where
  "key_image (Identified k) = [0, k]"
| "key_image (Wrapped k c) = [1, k] @ prefixed c"
| "key_image (Agreed p c) = [2] @ prefixed p @ prefixed c"

fun key_valid :: "KeyInfo \<Rightarrow> bool" where
  "key_valid (Identified k) \<longleftrightarrow> True"
| "key_valid (Wrapped k c) \<longleftrightarrow> short_field c"
| "key_valid (Agreed p c) \<longleftrightarrow> short_field p \<and> short_field c"

interpretation key_info: codec_pair KeyInfo_encode key_image key_valid KeyInfo_decode
proof unfold_locales
  fix k assume "key_valid k"
  then show "writes (KeyInfo_encode k) (key_image k)"
    by (cases k; simp only: KeyInfo_encode.simps key_image.simps key_valid.simps)
      (intro writes_bytes writes_seq writes_u8 writes_prefixed; simp)+
next
  fix k assume valid: "key_valid k"
  show "decodes KeyInfo_decode (key_image k) k"
  proof (cases k)
    case (Identified i)
    have "decodes (try_bind Reader_u8 (\<lambda>key_id. ok (Identified key_id))) [i] (Identified i)"
      by (rule decodes_map [OF decodes_u8])
    with Identified show ?thesis unfolding KeyInfo_decode_def by (auto intro!: decodes_bind_eq [OF decodes_u8])
  next
    case (Wrapped i c)
    with valid have "decodes (try_bind Reader_u8 (\<lambda>kek_id. try_bind Reader_length_prefixed (\<lambda>k. ok (Wrapped kek_id k))))
        ([i] @ prefixed c) (Wrapped i c)"
      by (intro decodes_bind [OF decodes_u8] decodes_map decodes_prefixed) simp
    with Wrapped show ?thesis unfolding KeyInfo_decode_def by (auto intro!: decodes_bind_eq [OF decodes_u8])
  next
    case (Agreed p c)
    with valid have "decodes (try_bind Reader_length_prefixed (\<lambda>p. try_bind Reader_length_prefixed (\<lambda>k. ok (Agreed p k))))
        (prefixed p @ prefixed c) (Agreed p c)"
      by (auto intro!: decodes_bind [OF decodes_prefixed] decodes_map [OF decodes_prefixed])
    with Agreed show ?thesis unfolding KeyInfo_decode_def by (auto intro!: decodes_bind_eq [OF decodes_u8])
  qed
qed

definition key_opt_image :: "KeyInfo option \<Rightarrow> bytes" where
  "key_opt_image k = (case k of None \<Rightarrow> [0] | Some k \<Rightarrow> [1] @ key_image k)"

definition gc_image :: "GeneralCiphering \<Rightarrow> bytes" where
  "gc_image g = prefixed (gc_transaction_id g) @ prefixed (gc_originator_system_title g) @
     prefixed (gc_recipient_system_title g) @ prefixed (gc_date_time g) @ prefixed (gc_other_information g) @
     key_opt_image (gc_key_info g) @ ciphered_image (gc_ciphered g)"

definition gc_valid :: "GeneralCiphering \<Rightarrow> bool" where
  "gc_valid g \<longleftrightarrow> short_field (gc_transaction_id g) \<and> short_field (gc_originator_system_title g) \<and>
     short_field (gc_recipient_system_title g) \<and> short_field (gc_date_time g) \<and> short_field (gc_other_information g) \<and>
     (case gc_key_info g of None \<Rightarrow> True | Some k \<Rightarrow> key_valid k) \<and> ciphered_valid (gc_ciphered g)"

lemma writes_key_opt:
  "(case k of None \<Rightarrow> True | Some k \<Rightarrow> key_valid k) \<Longrightarrow>
    writes (case k of None \<Rightarrow> write_u8 0 | Some k \<Rightarrow> try_bind (write_u8 1) (\<lambda>_. KeyInfo_encode k)) (key_opt_image k)"
  unfolding key_opt_image_def by (cases k) (auto intro!: writes_u8 writes_seq [OF writes_u8, simplified] key_info.enc_writes)

lemma decodes_key_opt:
  "(case k of None \<Rightarrow> True | Some k \<Rightarrow> key_valid k) \<Longrightarrow>
    decodes (try_bind Reader_u8 (\<lambda>present. if present = 0 then ok None else try_bind KeyInfo_decode (\<lambda>k. ok (Some k))))
      (key_opt_image k) k"
  unfolding key_opt_image_def
  by (cases k) (auto intro!: decodes_bind_eq [OF decodes_u8] decodes_ok decodes_map key_info.dec_img)

interpretation gc: codec_pair GeneralCiphering_encode gc_image gc_valid GeneralCiphering_decode
proof unfold_locales
  fix g assume "gc_valid g"
  then show "writes (GeneralCiphering_encode g) (gc_image g)"
    unfolding GeneralCiphering_encode_def gc_image_def gc_valid_def
    by (intro writes_seq writes_prefixed writes_key_opt ciphered.enc_writes) auto
next
  fix g assume "gc_valid g"
  then show "decodes GeneralCiphering_decode (gc_image g) g"
    unfolding GeneralCiphering_decode_def gc_image_def gc_valid_def
    by (auto intro!: decodes_bind [OF decodes_prefixed] decodes_bind [OF decodes_key_opt] decodes_last [OF ciphered.dec_img])
qed

definition sign_image :: "GeneralSigning \<Rightarrow> bytes" where
  "sign_image g = prefixed (gsg_transaction_id g) @ prefixed (gsg_originator_system_title g) @
     prefixed (gsg_recipient_system_title g) @ prefixed (gsg_date_time g) @ prefixed (gsg_other_information g) @
     prefixed (gsg_content g) @ prefixed (gsg_signature g)"

definition sign_valid :: "GeneralSigning \<Rightarrow> bool" where
  "sign_valid g \<longleftrightarrow> short_field (gsg_transaction_id g) \<and> short_field (gsg_originator_system_title g) \<and>
     short_field (gsg_recipient_system_title g) \<and> short_field (gsg_date_time g) \<and> short_field (gsg_other_information g) \<and>
     short_field (gsg_content g) \<and> short_field (gsg_signature g)"

interpretation sign: codec_pair GeneralSigning_encode sign_image sign_valid GeneralSigning_decode
proof unfold_locales
  fix g assume "sign_valid g"
  then show "writes (GeneralSigning_encode g) (sign_image g)"
    unfolding GeneralSigning_encode_def sign_image_def sign_valid_def
    by (intro writes_seq writes_prefixed) auto
next
  fix g assume "sign_valid g"
  then show "decodes GeneralSigning_decode (sign_image g) g"
    unfolding GeneralSigning_decode_def sign_image_def sign_valid_def
    by (auto intro!: decodes_bind [OF decodes_prefixed] decodes_last [OF decodes_prefixed])
qed

text \<open>Every protected APDU that the wire format can carry is read back as it was written: the ciphered service, the general
  forms with the titles of both ends and every kind of key information, and the signed form; the encoded length each
  of them announces is the number of bytes it takes.\<close>

theorem protected_apdu_round_trip:
  "(gc_valid g \<longrightarrow> (\<exists>bs. GeneralCiphering_encode g (VecW []) = (Inr (), VecW bs) \<and> from_bytes GeneralCiphering_decode bs = Inr g \<and>
      encoded_len (GeneralCiphering_encode g) = length bs)) \<and>
   (glo_valid h \<longrightarrow> (\<exists>bs. GeneralGloCiphering_encode h (VecW []) = (Inr (), VecW bs) \<and> from_bytes GeneralGloCiphering_decode bs = Inr h \<and>
      encoded_len (GeneralGloCiphering_encode h) = length bs)) \<and>
   (sign_valid s \<longrightarrow> (\<exists>bs. GeneralSigning_encode s (VecW []) = (Inr (), VecW bs) \<and> from_bytes GeneralSigning_decode bs = Inr s \<and>
      encoded_len (GeneralSigning_encode s) = length bs))"
  using gc.round_trip [of g] glo.round_trip [of h] sign.round_trip [of s] by blast

theorem protected_apdu_round_trip_witness:
  "\<exists>bs. GeneralGloCiphering_encode \<lparr>gg_system_title = [0x4D, 0x4D, 0x4D, 0, 0, 0xBC, 0x61, 0x4E],
        gg_ciphered = \<lparr>cs_security_control = SecurityControl 0x30, cs_invocation_counter = 5, cs_payload = [1]\<rparr>\<rparr> (VecW []) = (Inr (), VecW bs) \<and>
     from_bytes GeneralGloCiphering_decode bs = Inr \<lparr>gg_system_title = [0x4D, 0x4D, 0x4D, 0, 0, 0xBC, 0x61, 0x4E],
        gg_ciphered = \<lparr>cs_security_control = SecurityControl 0x30, cs_invocation_counter = 5, cs_payload = [1]\<rparr>\<rparr>"
proof -
  have "glo_valid \<lparr>gg_system_title = [0x4D, 0x4D, 0x4D, 0, 0, 0xBC, 0x61, 0x4E],
      gg_ciphered = \<lparr>cs_security_control = SecurityControl 0x30, cs_invocation_counter = 5, cs_payload = [1]\<rparr>\<rparr>"
    by (simp add: glo_valid_def short_field_def ciphered_valid_def)
  then show ?thesis using protected_apdu_round_trip by blast
qed

end
