(* ===== verification/Wire.thy ===== *)
theory Wire
  imports AxdrTree Obis Ciphered
begin

text \<open>
  What the borrowed types of the services share: the contract of an encoder and a decoder whose value remembers where its
  bytes came from, A-XDR values under that contract, optional fields and the counted list of \<^verbatim>\<open>src/src/xdlms/result.rs\<close>.
\<close>

subsection \<open>Encoding and decoding up to positions\<close>

text \<open>
  \<open>decodes_sat fin dec bs P\<close>: wherever the unread input starts with \<open>bs\<close> (and, with \<open>fin\<close>, ends there as well),
  the decoder returns a value satisfying \<open>P\<close> and consumes exactly \<open>bs\<close>.
\<close>

definition decodes_sat :: "bool \<Rightarrow> (Reader, 'a) op \<Rightarrow> bytes \<Rightarrow> ('a \<Rightarrow> bool) \<Rightarrow> bool" where
  "decodes_sat fin dec bs P \<longleftrightarrow> (\<forall>r rest. rd_wf r \<longrightarrow> Reader_rest r = bs @ rest \<longrightarrow> (fin \<longrightarrow> rest = []) \<longrightarrow>
     (\<exists>y. dec r = (Inr y, rd_advance (length bs) r) \<and> P y))"

definition codes :: "bool \<Rightarrow> (writer, unit) op \<Rightarrow> (Reader, 'a) op \<Rightarrow> ('a \<Rightarrow> bool) \<Rightarrow> bool" where
  "codes fin enc dec P \<longleftrightarrow> (\<exists>bs. writes enc bs \<and> decodes_sat fin dec bs P)"

named_theorems codes_intro \<open>encoders and decoders that belong together\<close>

lemma writes_unique: "writes f a \<Longrightarrow> writes f b \<Longrightarrow> a = b"
  using writes_VecW [of f a "[]"] writes_VecW [of f b "[]"] by simp

lemma decodes_satD:
  assumes "decodes_sat fin dec bs P" "rd_wf r" "Reader_rest r = bs @ rest" "fin \<Longrightarrow> rest = []"
  obtains y where "dec r = (Inr y, rd_advance (length bs) r)" "P y"
  using assms unfolding decodes_sat_def by blast

lemma decodes_sat_new:
  assumes "decodes_sat fin dec bs P"
  obtains y where "dec (Reader_new bs) = (Inr y, rd_advance (length bs) (Reader_new bs))" "P y"
  using decodes_satD [OF assms, of "Reader_new bs" "[]"] by auto

lemma decodes_sat_eq: "decodes dec bs x \<Longrightarrow> decodes_sat fin dec bs (\<lambda>y. y = x)"
  by (auto simp: decodes_def decodes_at_def decodes_sat_def)

lemma decodes_sat_weaken: "decodes_sat False dec bs P \<Longrightarrow> decodes_sat fin dec bs P"
  by (simp add: decodes_sat_def)

lemma decodes_sat_mono: "decodes_sat fin dec bs P \<Longrightarrow> (\<And>y. P y \<Longrightarrow> Q y) \<Longrightarrow> decodes_sat fin dec bs Q"
  unfolding decodes_sat_def by blast

lemma decodes_sat_bind:
  assumes m: "decodes_sat False m a P" and k: "\<And>x. P x \<Longrightarrow> decodes_sat fin (k x) b Q"
  shows "decodes_sat fin (try_bind m k) (a @ b) Q"
  unfolding decodes_sat_def
proof (intro allI impI)
  fix r rest assume r: "rd_wf r" "Reader_rest r = (a @ b) @ rest" "fin \<longrightarrow> rest = []"
  then have rest: "Reader_rest r = a @ (b @ rest)" by simp
  obtain x where x: "m r = (Inr x, rd_advance (length a) r)" "P x" using decodes_satD [OF m r(1) rest] by blast
  obtain y where y: "k x (rd_advance (length a) r) = (Inr y, rd_advance (length b) (rd_advance (length a) r))" "Q y"
    using decodes_satD [OF k [OF x(2)] rest_append(1,2) [OF r(1) rest]] r(3) by blast
  from x y show "\<exists>y. try_bind m k r = (Inr y, rd_advance (length (a @ b)) r) \<and> Q y"
    by (simp add: try_bind_def)
qed

lemma codes_bind:
  assumes m: "codes False e m P" and k: "\<And>x. P x \<Longrightarrow> codes fin f (k x) Q"
  shows "codes fin (try_bind e (\<lambda>_. f)) (try_bind m k) Q"
proof -
  from m obtain a where a: "writes e a" "decodes_sat False m a P" by (auto simp: codes_def)
  then obtain x where "P x" using decodes_sat_new by blast
  with k obtain b where b: "writes f b" by (auto simp: codes_def)
  have "decodes_sat fin (k x) b Q" if "P x" for x
    using k [OF that] writes_unique [OF b] by (auto simp: codes_def)
  with a b show ?thesis unfolding codes_def
    by (intro exI [of _ "a @ b"] conjI writes_seq decodes_sat_bind)
qed

lemma codes_eq:
  "codes False e m (\<lambda>y. y = x) \<Longrightarrow> codes fin f (k x) Q \<Longrightarrow> codes fin (try_bind e (\<lambda>_. f)) (try_bind m k) Q"
  by (rule codes_bind [where P = "\<lambda>y. y = x"]) simp_all

lemma codes_last:
  assumes "codes fin e m P" "\<And>x. P x \<Longrightarrow> \<exists>y. k x = ok y \<and> Q y"
  shows "codes fin e (try_bind m k) Q"
proof -
  have "decodes_sat fin (try_bind m k) bs Q" if dec: "decodes_sat fin m bs P" for bs
    unfolding decodes_sat_def
  proof (intro allI impI)
    fix r rest assume "rd_wf r" "Reader_rest r = bs @ rest" "fin \<longrightarrow> rest = []"
    then obtain x where "m r = (Inr x, rd_advance (length bs) r)" "P x" using decodes_satD [OF dec] by blast
    with assms(2) [of x] show "\<exists>y. try_bind m k r = (Inr y, rd_advance (length bs) r) \<and> Q y" by (auto simp: try_bind_def)
  qed
  with assms(1) show ?thesis by (auto simp: codes_def)
qed

lemma codes_weaken: "codes False e m P \<Longrightarrow> codes fin e m P"
  by (auto simp: codes_def intro: decodes_sat_weaken)

lemma codes_mono: "codes fin e m P \<Longrightarrow> (\<And>y. P y \<Longrightarrow> Q y) \<Longrightarrow> codes fin e m Q"
  using decodes_sat_mono unfolding codes_def by blast

lemma codes_prim: "writes e bs \<Longrightarrow> decodes d bs x \<Longrightarrow> codes fin e d (\<lambda>y. y = x)"
  by (auto simp: codes_def intro: decodes_sat_eq)

lemma codes_ok [codes_intro]: "P x \<Longrightarrow> codes fin (ok ()) (ok x) P"
  unfolding codes_def by (intro exI [of _ "[]"] conjI writes_ok) (simp add: decodes_sat_def)

lemma codes_u8 [codes_intro]: "codes fin (write_u8 v) Reader_u8 (\<lambda>y. y = v)"
  by (rule codes_prim [OF writes_u8 decodes_u8])

lemma codes_u16 [codes_intro]: "codes fin (write_u16 v) Reader_u16 (\<lambda>y. y = v)"
  by (rule codes_prim [OF writes_u16 decodes_u16])

lemma codes_u32 [codes_intro]: "codes fin (write_u32 v) Reader_u32 (\<lambda>y. y = v)"
  by (rule codes_prim [OF writes_u32 decodes_u32])

lemma codes_u64 [codes_intro]: "codes fin (write_u64 v) Reader_u64 (\<lambda>y. y = v)"
  by (rule codes_prim [OF writes_u64 decodes_u64])

lemma codes_prefixed [codes_intro]: "short_field b \<Longrightarrow> codes fin (write_length_prefixed b) Reader_length_prefixed (\<lambda>y. y = b)"
  by (rule codes_prim [OF writes_prefixed decodes_prefixed])

lemma codes_length [codes_intro]: "n < 2 ^ 32 \<Longrightarrow> codes fin (write_length n) Reader_length (\<lambda>y. y = n)"
  by (rule codes_prim [OF writes_length decodes_length])

lemma codes_array [codes_intro]: "length b = n \<Longrightarrow> codes fin (write_bytes b) (Reader_array n) (\<lambda>y. y = b)"
  by (rule codes_prim [OF writes_bytes decodes_array])

lemma codes_take [codes_intro]: "length b = n \<Longrightarrow> codes fin (write_bytes b) (Reader_take n) (\<lambda>y. y = b)"
  by (rule codes_prim [OF writes_bytes decodes_take_n])

text \<open>The whole of a buffer.\<close>

lemma codes_round_trip:
  assumes "codes True enc dec P"
  shows "\<exists>bs y. enc (VecW []) = (Inr (), VecW bs) \<and> from_bytes dec bs = Inr y \<and> P y \<and> encoded_len enc = length bs"
proof -
  from assms obtain bs where bs: "writes enc bs" "decodes_sat True dec bs P" by (auto simp: codes_def)
  obtain y where "dec (Reader_new bs) = (Inr y, rd_advance (length bs) (Reader_new bs))" "P y"
    using decodes_sat_new [OF bs(2)] .
  then show ?thesis using writes_VecW [OF bs(1), of "[]"] writes_encoded_len [OF bs(1)]
    by (auto simp: from_bytes_def Reader_is_empty_def Reader_remaining_def)
qed

text \<open>The contract: \<open>abs\<close> is what a value says, without where it came from.\<close>

locale wire_type =
  fixes enc :: "'a \<Rightarrow> (writer, unit) op"
    and dec :: "(Reader, 'a) op"
    and valid :: "'a \<Rightarrow> bool"
    and abs :: "'a \<Rightarrow> 'b"
  assumes coded: "valid x \<Longrightarrow> codes False (enc x) dec (\<lambda>y. abs y = abs x)"
    and dec_local: "local_op dec"
    and dec_safe: "safe_dec 0 dec"
begin

lemma reads_back:
  assumes "valid x"
  shows "\<exists>bs y. enc x (VecW []) = (Inr (), VecW bs) \<and> from_bytes dec bs = Inr y \<and> abs y = abs x \<and> encoded_len (enc x) = length bs"
  by (rule codes_round_trip) (rule codes_weaken [OF coded [OF assms]])

lemma abs_determined:
  assumes "valid x" "valid y" "enc x = enc y"
  shows "abs x = abs y"
proof -
  obtain bs u where u: "enc x (VecW []) = (Inr (), VecW bs)" "from_bytes dec bs = Inr u" "abs u = abs x" using reads_back [OF assms(1)] by blast
  obtain cs v where v: "enc y (VecW []) = (Inr (), VecW cs)" "from_bytes dec cs = Inr v" "abs v = abs y" using reads_back [OF assms(2)] by blast
  from u v assms(3) show ?thesis by simp
qed

end

subsection \<open>Values\<close>

text \<open>What the encoding of a borrowed value can represent, and what the value says.\<close>

fun Data_valid :: "Data \<Rightarrow> bool" where
  "Data_valid (DArray s) \<longleftrightarrow> sq_count s < 2 ^ 32 \<and> sq_depth s = 1 \<and> decodes (repeat_op (sq_count s) (Data_skip 1)) (sq_raw s) ()"
| "Data_valid (DStructure s) \<longleftrightarrow> sq_count s < 2 ^ 32 \<and> sq_depth s = 1 \<and> decodes (repeat_op (sq_count s) (Data_skip 1)) (sq_raw s) ()"
| "Data_valid (DBitString b) \<longleftrightarrow> bs_bits b < 2 ^ 32 \<and> length (bs_bytes b) = div_ceil (bs_bits b) 8"
| "Data_valid (DOctetString b) \<longleftrightarrow> short_field b"
| "Data_valid (DVisibleString b) \<longleftrightarrow> short_field b"
| "Data_valid (DUtf8String b) \<longleftrightarrow> short_field b"
| "Data_valid (DCompactArray c) \<longleftrightarrow> short_field (ca_contents c) \<and> ca_depth c = 1 \<and> decodes (TypeDesc_skip_at 1) (ca_desc c) ()"
| "Data_valid _ \<longleftrightarrow> True"

fun Data_abs :: "Data \<Rightarrow> Data" where
  "Data_abs (DArray s) = DArray (s\<lparr>sq_base := 0\<rparr>)"
| "Data_abs (DStructure s) = DStructure (s\<lparr>sq_base := 0\<rparr>)"
| "Data_abs (DCompactArray c) = DCompactArray (c\<lparr>ca_desc_base := 0, ca_contents_base := 0\<rparr>)"
| "Data_abs d = d"

definition data_arm :: "DataTag \<Rightarrow> (Reader, Data) op" where
  "data_arm tag = (case scalar_arm tag of Some f \<Rightarrow> f | None \<Rightarrow>
      (case tag of TArray \<Rightarrow> seq_arm 0 DArray | TStructure \<Rightarrow> seq_arm 0 DStructure
       | TBitString \<Rightarrow> try_bind Reader_length (\<lambda>bits. try_bind (Reader_take (div_ceil bits 8)) (\<lambda>b. ok (DBitString \<lparr>bs_bits = bits, bs_bytes = b\<rparr>)))
       | _ \<Rightarrow> try_bind (CompactArray_decode_body 1) (\<lambda>c. ok (DCompactArray c))))"

lemma Data_decode_eq: "Data_decode = try_bind read_tag data_arm"
  unfolding Data_decode_def Data_decode_at_def data_arm_def [abs_def] add_0 by (simp only: MAX_DEPTH_def) simp

lemma codes_Data_tag:
  assumes "codes fin (Data_encode_body d) (data_arm (Data_tag d)) P"
  shows "codes fin (Data_encode d) Data_decode P"
proof -
  have "codes False (write_u8 (DataTag_as_u8 (Data_tag d))) read_tag (\<lambda>y. y = Data_tag d)"
    by (rule codes_prim [OF writes_u8 decodes_read_tag])
  then show ?thesis unfolding Data_encode_def Data_decode_eq using assms by (rule codes_eq)
qed

text \<open>Walking ahead and taking what was walked over.\<close>

lemma decodes_probed:
  assumes "local_op f" "decodes f bs x"
  shows "decodes (probed f) bs bs"
  unfolding decodes_def decodes_at_def
proof (intro allI impI)
  fix r rest assume r: "rd_wf r" "Reader_rest r = bs @ rest"
  then show "probed f r = (Inr bs, rd_advance (length bs) r)"
    by (simp add: probed_eq [OF assms(1)] decodes_run [OF assms(2) r])
qed

lemma decodes_sat_probed:
  assumes "local_op f" "decodes_sat False f bs P"
  shows "decodes (probed f) bs bs"
  unfolding decodes_def decodes_at_def
proof (intro allI impI)
  fix r rest assume r: "rd_wf r" "Reader_rest r = bs @ rest"
  then obtain y where "f r = (Inr y, rd_advance (length bs) r)" using decodes_satD [OF assms(2)] by blast
  then show "probed f r = (Inr bs, rd_advance (length bs) r)" using r by (simp add: probed_eq [OF assms(1)])
qed

lemma decodes_sat_offset:
  assumes "\<And>off. decodes_sat fin (f off) bs P"
  shows "decodes_sat fin (\<lambda>r. f (Reader_offset r) r) bs P"
  using assms unfolding decodes_sat_def by blast

lemma decodes_sat_last:
  "decodes m bs x \<Longrightarrow> P (h x) \<Longrightarrow> decodes_sat fin (try_bind m (\<lambda>v. ok (h v))) bs P"
  using decodes_sat_mono [OF decodes_sat_eq [OF decodes_map [of m bs x h]]] by blast

lemma codes_seq_arm:
  assumes "sq_count s < 2 ^ 32" "sq_depth s = 1" "decodes (repeat_op (sq_count s) (Data_skip 1)) (sq_raw s) ()"
    and "\<And>base. P (mk (s\<lparr>sq_base := base\<rparr>))"
  shows "codes fin (try_bind (write_length (sq_count s)) (\<lambda>_. write_bytes (sq_raw s))) (seq_arm 0 mk) P"
proof -
  have raw: "decodes (probed (repeat_op (sq_count s) (Data_skip 1))) (sq_raw s) (sq_raw s)"
    by (rule decodes_probed [OF _ assms(3)]) (intro local_intro)
  have "decodes_sat fin (\<lambda>r. try_bind (probed (repeat_op (sq_count s) (Data_skip 1))) (\<lambda>raw.
      ok (mk \<lparr>sq_count = sq_count s, sq_raw = raw, sq_base = Reader_offset r, sq_depth = 1\<rparr>)) r) (sq_raw s) P"
    by (rule decodes_sat_offset [where f = "\<lambda>off. try_bind (probed (repeat_op (sq_count s) (Data_skip 1))) (\<lambda>raw.
      ok (mk \<lparr>sq_count = sq_count s, sq_raw = raw, sq_base = off, sq_depth = 1\<rparr>))"])
      (rule decodes_sat_last [OF raw], use assms(2,4) in \<open>cases s; simp\<close>)
  then have "codes fin (write_bytes (sq_raw s)) (\<lambda>r. try_bind (probed (repeat_op (sq_count s) (Data_skip 1))) (\<lambda>raw.
      ok (mk \<lparr>sq_count = sq_count s, sq_raw = raw, sq_base = Reader_offset r, sq_depth = 1\<rparr>)) r) P"
    unfolding codes_def using writes_bytes by blast
  then show ?thesis unfolding seq_arm_def Let_def by (intro codes_eq [OF codes_length [OF assms(1)]]) simp
qed

lemma codes_compact:
  assumes "short_field (ca_contents c)" "ca_depth c = 1" "decodes (TypeDesc_skip_at 1) (ca_desc c) ()"
    and "\<And>a b. P (c\<lparr>ca_desc_base := a, ca_contents_base := b\<rparr>)"
  shows "codes fin (CompactArray_encode_body c) (CompactArray_decode_body 1) P"
proof -
  have desc: "decodes (probed (TypeDesc_skip_at 1)) (ca_desc c) (ca_desc c)"
    by (rule decodes_probed [OF _ assms(3)]) (intro local_intro)
  have tail: "decodes_sat fin (try_bind Reader_length (\<lambda>len r. try_bind (Reader_take len) (\<lambda>contents.
      ok \<lparr>ca_desc = ca_desc c, ca_contents = contents, ca_desc_base = db, ca_contents_base = Reader_offset r, ca_depth = 1\<rparr>) r))
      (len_bytes (length (ca_contents c)) @ ca_contents c) P" for db
  proof (rule decodes_sat_bind [OF decodes_sat_eq [OF decodes_length]])
    show "length (ca_contents c) < 2 ^ 32" using assms(1) by (simp add: short_field_def)
    fix x assume "x = length (ca_contents c)"
    then show "decodes_sat fin (\<lambda>r. try_bind (Reader_take x) (\<lambda>contents.
      ok \<lparr>ca_desc = ca_desc c, ca_contents = contents, ca_desc_base = db, ca_contents_base = Reader_offset r, ca_depth = 1\<rparr>) r) (ca_contents c) P"
      by (intro decodes_sat_offset [where f = "\<lambda>off. try_bind (Reader_take x) (\<lambda>contents.
        ok \<lparr>ca_desc = ca_desc c, ca_contents = contents, ca_desc_base = db, ca_contents_base = off, ca_depth = 1\<rparr>)"]
        decodes_sat_last [OF decodes_take_n]) (use assms(2,4) in \<open>cases c; simp\<close>)+
  qed
  have "decodes_sat fin (CompactArray_decode_body 1) (ca_desc c @ len_bytes (length (ca_contents c)) @ ca_contents c) P"
    unfolding CompactArray_decode_body_def [abs_def] Let_def
    by (simp add: MAX_DEPTH_def del: One_nat_def)
      (rule decodes_sat_offset [where f = "\<lambda>off. try_bind (probed (TypeDesc_skip_at 1)) (\<lambda>desc. try_bind Reader_length (\<lambda>len r.
        try_bind (Reader_take len) (\<lambda>contents. ok \<lparr>ca_desc = desc, ca_contents = contents, ca_desc_base = off,
          ca_contents_base = Reader_offset r, ca_depth = 1\<rparr>) r))"], rule decodes_sat_bind [OF decodes_sat_eq [OF desc]], use tail in simp)
  moreover have "writes (CompactArray_encode_body c) (ca_desc c @ len_bytes (length (ca_contents c)) @ ca_contents c)"
    unfolding CompactArray_encode_body_def using assms(1) by (intro writes_seq writes_bytes writes_length_prefixed) (simp add: short_field_def)
  ultimately show ?thesis unfolding codes_def by blast
qed

lemma codes_map:
  assumes "codes fin e m P" "\<And>x. P x \<Longrightarrow> Q (h x)"
  shows "codes fin e (try_bind m (\<lambda>v. ok (h v))) Q"
  by (rule codes_last [OF assms(1)]) (use assms(2) in blast)

lemmas codes_scalar = codes_map [OF codes_u8] codes_map [OF codes_u16] codes_map [OF codes_u32] codes_map [OF codes_u64]
  codes_map [OF codes_prefixed] codes_map [OF codes_array]

lemma codes_Data:
  assumes "Data_valid d"
  shows "codes fin (Data_encode d) Data_decode (\<lambda>y. Data_abs y = Data_abs d)"
proof (rule codes_Data_tag)
  show "codes fin (Data_encode_body d) (data_arm (Data_tag d)) (\<lambda>y. Data_abs y = Data_abs d)"
    using assms unfolding data_arm_def
    by (cases d) (auto intro!: codes_seq_arm codes_ok codes_scalar codes_eq [OF codes_length] codes_map [OF codes_take]
      codes_map [OF codes_compact [where P = "\<lambda>y. Data_abs (DCompactArray y) = Data_abs d"]] simp del: ok_apply One_nat_def)
qed

lemma local_seq_arm [local_intro]: "local_op (seq_arm d mk)"
  unfolding seq_arm_def Let_def
  by (intro local_bind local_length local_offset [where f = "\<lambda>off. try_bind (probed (repeat_op count (Data_skip (d + 1)))) (\<lambda>raw.
      ok (mk \<lparr>sq_count = count, sq_raw = raw, sq_base = off, sq_depth = d + 1\<rparr>))" for count] local_probed local_repeat local_Data_skip local_ok)

interpretation data: wire_type Data_encode Data_decode Data_valid Data_abs
proof unfold_locales
  show "local_op Data_decode" unfolding Data_decode_eq data_arm_def [abs_def]
    by (intro local_intro) (auto split: option.splits DataTag.splits intro!: local_intro simp del: ok_apply One_nat_def)
  show "safe_dec 0 Data_decode" by (simp add: Data_decode_def safe_Data_decode_at)
qed (rule codes_Data)

subsection \<open>Optional fields\<close>

definition encode_optional :: "('a \<Rightarrow> (writer, unit) op) \<Rightarrow> 'a option \<Rightarrow> (writer, unit) op" where
  "encode_optional enc v =
     (case v of None \<Rightarrow> write_u8 0 | Some x \<Rightarrow> try_bind (write_u8 1) (\<lambda>_. enc x))"

definition decode_optional :: "(Reader, 'a) op \<Rightarrow> (Reader, 'a option) op" where
  "decode_optional dec = try_bind Reader_u8 (\<lambda>flag.
     if flag = 0 then ok None else try_bind dec (\<lambda>x. ok (Some x)))"

lemma codes_optional:
  assumes "\<And>v. x = Some v \<Longrightarrow> codes fin (enc v) dec (\<lambda>y. view y = view v)"
  shows "codes fin (encode_optional enc x) (decode_optional dec) (\<lambda>y. map_option view y = map_option view x)"
proof (cases x)
  case None
  then show ?thesis unfolding encode_optional_def decode_optional_def by (auto intro!: codes_last [OF codes_u8] simp del: ok_apply)
next
  case (Some v)
  have "codes fin (enc v) (try_bind dec (\<lambda>x. ok (Some x))) (\<lambda>y. map_option view y = map_option view x)"
    using Some by (intro codes_map [OF assms]) auto
  then show ?thesis using Some unfolding encode_optional_def decode_optional_def by (auto intro!: codes_eq [OF codes_u8])
qed

lemma local_optional [local_intro]: "local_op dec \<Longrightarrow> local_op (decode_optional dec)"
  unfolding decode_optional_def by (intro local_intro)

lemma safe_optional [safe_intro]: "safe_dec n dec \<Longrightarrow> safe_dec n (decode_optional dec)"
  unfolding decode_optional_def by (intro safe_intro)

subsection \<open>Counted lists\<close>

record WireList =
  wl_count :: nat
  wl_raw :: bytes
  wl_base :: nat

definition void :: "('s, 'a) op \<Rightarrow> ('s, unit) op" where
  "void f = try_bind f (\<lambda>_. ok ())"

definition List_decode :: "(Reader, 'a) op \<Rightarrow> (Reader, WireList) op" where
  "List_decode T_decode = try_bind Reader_length (\<lambda>count r.
     let base = Reader_offset r in
     try_bind (probed (repeat_op count (void T_decode))) (\<lambda>raw.
       ok \<lparr>wl_count = count, wl_raw = raw, wl_base = base\<rparr>) r)"

definition List_encode :: "WireList \<Rightarrow> (writer, unit) op" where
  "List_encode l = try_bind (write_length (wl_count l)) (\<lambda>_. write_bytes (wl_raw l))"

definition List_from_raw :: "nat \<Rightarrow> bytes \<Rightarrow> WireList" where
  "List_from_raw count raw = \<lparr>wl_count = count, wl_raw = raw, wl_base = 0\<rparr>"

text \<open>The hand-written equality of the source: where the bytes came from does not count.\<close>

definition List_eq :: "WireList \<Rightarrow> WireList \<Rightarrow> bool" where
  "List_eq a b \<longleftrightarrow> wl_count a = wl_count b \<and> wl_raw a = wl_raw b"

text \<open>What the iterator yields: one result per element, each read where the one before left the reader.\<close>

primrec iter_from :: "(Reader, 'a) op \<Rightarrow> nat \<Rightarrow> Reader \<Rightarrow> 'a result list" where
  "iter_from T_decode 0 r = []"
| "iter_from T_decode (Suc left) r = (case T_decode r of (res, r') \<Rightarrow> res # iter_from T_decode left r')"

definition List_iter :: "(Reader, 'a) op \<Rightarrow> WireList \<Rightarrow> 'a result list" where
  "List_iter T_decode l = iter_from T_decode (wl_count l) (Reader_with_base (wl_raw l) (wl_base l))"

definition WireList_valid :: "(Reader, 'a) op \<Rightarrow> WireList \<Rightarrow> bool" where
  "WireList_valid T_decode l \<longleftrightarrow> wl_count l < 2 ^ 32 \<and> decodes_sat False (repeat_op (wl_count l) (void T_decode)) (wl_raw l) (\<lambda>_. True)"

definition WireList_abs :: "WireList \<Rightarrow> WireList" where
  "WireList_abs l = l\<lparr>wl_base := 0\<rparr>"

lemma List_eq_abs: "List_eq a b \<longleftrightarrow> WireList_abs a = WireList_abs b"
  by (cases a; cases b) (simp add: List_eq_def WireList_abs_def)

lemma local_void [local_intro]: "local_op f \<Longrightarrow> local_op (void f)"
  unfolding void_def by (intro local_intro)

lemma safe_void [safe_intro]: "safe_dec n f \<Longrightarrow> safe_dec n (void f)"
  unfolding void_def by (intro safe_intro)

lemma codes_list:
  assumes "local_op T_decode" "WireList_valid T_decode l"
  shows "codes fin (List_encode l) (List_decode T_decode) (\<lambda>y. WireList_abs y = WireList_abs l)"
proof -
  let ?walk = "repeat_op (wl_count l) (void T_decode)"
  have raw: "decodes (probed ?walk) (wl_raw l) (wl_raw l)"
    using assms by (intro decodes_sat_probed [where P = "\<lambda>_. True"] local_intro) (auto simp: WireList_valid_def)
  have "decodes_sat fin (\<lambda>r. try_bind (probed ?walk) (\<lambda>raw. ok \<lparr>wl_count = wl_count l, wl_raw = raw, wl_base = Reader_offset r\<rparr>) r)
      (wl_raw l) (\<lambda>y. WireList_abs y = WireList_abs l)"
    by (rule decodes_sat_offset [where f = "\<lambda>off. try_bind (probed ?walk) (\<lambda>raw. ok \<lparr>wl_count = wl_count l, wl_raw = raw, wl_base = off\<rparr>)"],
      rule decodes_sat_last [OF raw]) (cases l; simp add: WireList_abs_def)
  then have "codes fin (write_bytes (wl_raw l)) (\<lambda>r. try_bind (probed ?walk) (\<lambda>raw. ok \<lparr>wl_count = wl_count l, wl_raw = raw, wl_base = Reader_offset r\<rparr>) r)
      (\<lambda>y. WireList_abs y = WireList_abs l)"
    unfolding codes_def using writes_bytes by blast
  then show ?thesis unfolding List_encode_def List_decode_def Let_def
    using assms(2) by (intro codes_eq [OF codes_length]) (simp_all add: WireList_valid_def)
qed

lemma local_list [local_intro]: "local_op T \<Longrightarrow> local_op (List_decode T)"
  unfolding List_decode_def Let_def
  by (intro local_bind local_length local_offset [where f = "\<lambda>off. try_bind (probed (repeat_op count (void T))) (\<lambda>raw.
      ok \<lparr>wl_count = count, wl_raw = raw, wl_base = off\<rparr>)" for count] local_probed local_repeat local_void local_ok)

lemma safe_list [safe_intro]:
  assumes "safe_dec 0 T" "local_op T"
  shows "safe_dec n (List_decode T)"
proof -
  have "safe_dec n (\<lambda>r. try_bind (probed (repeat_op count (void T))) (\<lambda>raw.
      ok \<lparr>wl_count = count, wl_raw = raw, wl_base = Reader_offset r\<rparr>) r)" for n count
    by (rule safe_state [where f = "\<lambda>r0. try_bind (probed (repeat_op count (void T))) (\<lambda>raw.
      ok \<lparr>wl_count = count, wl_raw = raw, wl_base = Reader_offset r0\<rparr>)"]) (intro safe_intro local_intro assms)
  then show ?thesis unfolding List_decode_def Let_def by (intro safe_intro)
qed

text \<open>A list made of encoded elements iterates over them.\<close>

context wire_type
begin

lemma walk_elements:
  "list_all2 (\<lambda>x bs. valid x \<and> writes (enc x) bs) xs bss \<Longrightarrow>
    decodes_sat False (repeat_op (length xs) (void dec)) (concat bss) (\<lambda>_. True)"
proof (induction rule: list_all2_induct)
  case Nil
  then show ?case by (simp add: decodes_sat_def)
next
  case (Cons x xs bs bss)
  obtain bs' where "writes (enc x) bs'" "decodes_sat False dec bs' (\<lambda>y. abs y = abs x)" using coded Cons.hyps(1) by (auto simp: codes_def)
  then have "decodes_sat False dec bs (\<lambda>y. abs y = abs x)" using writes_unique Cons.hyps(1) by blast
  then have "decodes_sat False (void dec) (bs @ []) (\<lambda>_. True)"
    unfolding void_def by (rule decodes_sat_bind) (simp add: decodes_sat_def)
  then show ?case using Cons.IH by (auto intro: decodes_sat_bind)
qed

lemma iterate_elements:
  "list_all2 (\<lambda>x bs. valid x \<and> writes (enc x) bs) xs bss \<Longrightarrow> rd_wf r \<Longrightarrow> Reader_rest r = concat bss @ rest \<Longrightarrow>
    list_all2 (\<lambda>res x. \<exists>y. res = Inr y \<and> abs y = abs x) (iter_from dec (length xs) r) xs"
proof (induction arbitrary: r rule: list_all2_induct)
  case Nil
  then show ?case by simp
next
  case (Cons x xs bs bss)
  obtain bs' where "writes (enc x) bs'" "decodes_sat False dec bs' (\<lambda>y. abs y = abs x)" using coded Cons.hyps(1) by (auto simp: codes_def)
  then have sat: "decodes_sat False dec bs (\<lambda>y. abs y = abs x)" using writes_unique Cons.hyps(1) by blast
  have rest: "Reader_rest r = bs @ (concat bss @ rest)" using Cons.prems by simp
  obtain y where "dec r = (Inr y, rd_advance (length bs) r)" "abs y = abs x" using decodes_satD [OF sat Cons.prems(1) rest] by blast
  moreover have "list_all2 (\<lambda>res x. \<exists>y. res = Inr y \<and> abs y = abs x) (iter_from dec (length xs) (rd_advance (length bs) r)) xs"
    by (rule Cons.IH) (use rest_append [OF Cons.prems(1) rest] in auto)
  ultimately show ?case by simp
qed

lemma list_of_elements:
  assumes "list_all2 (\<lambda>x bs. valid x \<and> writes (enc x) bs) xs bss" "length xs < 2 ^ 32"
  shows "WireList_valid dec (List_from_raw (length xs) (concat bss))"
    "list_all2 (\<lambda>res x. \<exists>y. res = Inr y \<and> abs y = abs x) (List_iter dec (List_from_raw (length xs) (concat bss))) xs"
  using walk_elements [OF assms(1)] iterate_elements [OF assms(1), of "Reader_with_base (concat bss) 0" "[]"] assms(2)
  by (auto simp: WireList_valid_def List_from_raw_def List_iter_def)

end

end
