(* ===== verification/Services.thy ===== *)
theory Services
  imports Wire
begin

text \<open>
  The confirmed services of logical-name referencing: descriptors (\<^verbatim>\<open>src/src/xdlms/descriptor.rs\<close>), results and data blocks
  (\<^verbatim>\<open>src/src/xdlms/result.rs\<close>) and GET, SET and ACTION (\<^verbatim>\<open>src/src/xdlms/service.rs\<close>).  A signed byte is its bit
  pattern.  For every type \<open>T_valid\<close> is what the encoding can represent and \<open>T_abs\<close> what the value says without where its
  bytes came from.
\<close>

subsection \<open>Descriptors\<close>

record AttributeDescriptor =
  ad_class_id :: u16
  ad_instance_id :: Obis
  ad_attribute_id :: u8

definition AttributeDescriptor_new :: "u16 \<Rightarrow> Obis \<Rightarrow> u8 \<Rightarrow> AttributeDescriptor" where
  "AttributeDescriptor_new class_id instance_id attribute_id =
     \<lparr>ad_class_id = class_id, ad_instance_id = instance_id, ad_attribute_id = attribute_id\<rparr>"

definition AttributeDescriptor_encode :: "AttributeDescriptor \<Rightarrow> (writer, unit) op" where
  "AttributeDescriptor_encode d =
     try_bind (write_u16 (ad_class_id d)) (\<lambda>_.
     try_bind (write_bytes (obis_bytes (ad_instance_id d))) (\<lambda>_.
     write_u8 (ad_attribute_id d)))"

definition AttributeDescriptor_decode :: "(Reader, AttributeDescriptor) op" where
  "AttributeDescriptor_decode =
     try_bind Reader_u16 (\<lambda>c. try_bind Obis_decode (\<lambda>i. try_bind Reader_u8 (\<lambda>a.
       ok \<lparr>ad_class_id = c, ad_instance_id = i, ad_attribute_id = a\<rparr>)))"

record MethodDescriptor =
  md_class_id :: u16
  md_instance_id :: Obis
  md_method_id :: u8

definition MethodDescriptor_new :: "u16 \<Rightarrow> Obis \<Rightarrow> u8 \<Rightarrow> MethodDescriptor" where
  "MethodDescriptor_new class_id instance_id method_id =
     \<lparr>md_class_id = class_id, md_instance_id = instance_id, md_method_id = method_id\<rparr>"

definition MethodDescriptor_encode :: "MethodDescriptor \<Rightarrow> (writer, unit) op" where
  "MethodDescriptor_encode d =
     try_bind (write_u16 (md_class_id d)) (\<lambda>_.
     try_bind (write_bytes (obis_bytes (md_instance_id d))) (\<lambda>_.
     write_u8 (md_method_id d)))"

definition MethodDescriptor_decode :: "(Reader, MethodDescriptor) op" where
  "MethodDescriptor_decode =
     try_bind Reader_u16 (\<lambda>c. try_bind Obis_decode (\<lambda>i. try_bind Reader_u8 (\<lambda>m.
       ok \<lparr>md_class_id = c, md_instance_id = i, md_method_id = m\<rparr>)))"

record SelectiveAccess =
  sa_selector :: u8
  sa_parameters :: Data

definition SelectiveAccess_encode :: "SelectiveAccess \<Rightarrow> (writer, unit) op" where
  "SelectiveAccess_encode s = try_bind (write_u8 (sa_selector s)) (\<lambda>_. Data_encode (sa_parameters s))"

definition SelectiveAccess_decode :: "(Reader, SelectiveAccess) op" where
  "SelectiveAccess_decode =
     try_bind Reader_u8 (\<lambda>sel. try_bind Data_decode (\<lambda>p. ok \<lparr>sa_selector = sel, sa_parameters = p\<rparr>))"

record AttributeDescriptorWithSelection =
  ads_descriptor :: AttributeDescriptor
  ads_access :: "SelectiveAccess option"

definition AttributeDescriptorWithSelection_encode :: "AttributeDescriptorWithSelection \<Rightarrow> (writer, unit) op" where
  "AttributeDescriptorWithSelection_encode d =
     try_bind (AttributeDescriptor_encode (ads_descriptor d)) (\<lambda>_. encode_optional SelectiveAccess_encode (ads_access d))"

definition AttributeDescriptorWithSelection_decode :: "(Reader, AttributeDescriptorWithSelection) op" where
  "AttributeDescriptorWithSelection_decode =
     try_bind AttributeDescriptor_decode (\<lambda>d. try_bind (decode_optional SelectiveAccess_decode) (\<lambda>a.
       ok \<lparr>ads_descriptor = d, ads_access = a\<rparr>))"

datatype InvokeId = InvokeId (invoke_byte: u8)

definition InvokeId_confirmed :: "u8 \<Rightarrow> InvokeId" where
  "InvokeId_confirmed id1 = InvokeId ((id1 AND 0x0F) OR 0x40)"

definition InvokeId_id :: "InvokeId \<Rightarrow> u8" where
  "InvokeId_id i = invoke_byte i AND 0x0F"

definition InvokeId_is_confirmed :: "InvokeId \<Rightarrow> bool" where
  "InvokeId_is_confirmed i \<longleftrightarrow> invoke_byte i AND 0x40 \<noteq> 0"

definition InvokeId_is_high_priority :: "InvokeId \<Rightarrow> bool" where
  "InvokeId_is_high_priority i \<longleftrightarrow> invoke_byte i AND 0x80 \<noteq> 0"

definition InvokeId_with_high_priority :: "InvokeId \<Rightarrow> InvokeId" where
  "InvokeId_with_high_priority i = InvokeId (invoke_byte i OR 0x80)"

datatype LongInvokeId = LongInvokeId (long_invoke_word: u32)

definition LongInvokeId_new :: "u32 \<Rightarrow> LongInvokeId" where
  "LongInvokeId_new id1 = LongInvokeId (id1 AND 0x00FFFFFF)"

definition LongInvokeId_id :: "LongInvokeId \<Rightarrow> u32" where
  "LongInvokeId_id i = long_invoke_word i AND 0x00FFFFFF"

definition LongInvokeId_is_confirmed :: "LongInvokeId \<Rightarrow> bool" where
  "LongInvokeId_is_confirmed i \<longleftrightarrow> long_invoke_word i AND 0x20000000 \<noteq> 0"

definition LongInvokeId_is_self_descriptive :: "LongInvokeId \<Rightarrow> bool" where
  "LongInvokeId_is_self_descriptive i \<longleftrightarrow> long_invoke_word i AND 0x80000000 \<noteq> 0"

definition LongInvokeId_confirmed :: "LongInvokeId \<Rightarrow> LongInvokeId" where
  "LongInvokeId_confirmed i = LongInvokeId (long_invoke_word i OR 0x20000000)"

subsection \<open>Results\<close>

datatype DataAccessResult =
    DarSuccess | DarHardwareFault | DarTemporaryFailure | DarReadWriteDenied | DarObjectUndefined
    | DarObjectClassInconsistent | DarObjectUnavailable | DarTypeUnmatched | DarScopeOfAccessViolated
    | DarDataBlockUnavailable | DarLongGetAborted | DarNoLongGetInProgress | DarLongSetAborted | DarNoLongSetInProgress
    | DarDataBlockNumberInvalid | DarOtherReason | DarOther u8

fun DataAccessResult_as_u8 :: "DataAccessResult \<Rightarrow> u8" where
  "DataAccessResult_as_u8 DarSuccess = 0"
| "DataAccessResult_as_u8 DarHardwareFault = 1"
| "DataAccessResult_as_u8 DarTemporaryFailure = 2"
| "DataAccessResult_as_u8 DarReadWriteDenied = 3"
| "DataAccessResult_as_u8 DarObjectUndefined = 4"
| "DataAccessResult_as_u8 DarObjectClassInconsistent = 9"
| "DataAccessResult_as_u8 DarObjectUnavailable = 11"
| "DataAccessResult_as_u8 DarTypeUnmatched = 12"
| "DataAccessResult_as_u8 DarScopeOfAccessViolated = 13"
| "DataAccessResult_as_u8 DarDataBlockUnavailable = 14"
| "DataAccessResult_as_u8 DarLongGetAborted = 15"
| "DataAccessResult_as_u8 DarNoLongGetInProgress = 16"
| "DataAccessResult_as_u8 DarLongSetAborted = 17"
| "DataAccessResult_as_u8 DarNoLongSetInProgress = 18"
| "DataAccessResult_as_u8 DarDataBlockNumberInvalid = 19"
| "DataAccessResult_as_u8 DarOtherReason = 250"
| "DataAccessResult_as_u8 (DarOther v) = v"

definition DataAccessResult_from_u8 :: "u8 \<Rightarrow> DataAccessResult" where
  "DataAccessResult_from_u8 v =
     (if v = 0 then DarSuccess
      else if v = 1 then DarHardwareFault
      else if v = 2 then DarTemporaryFailure
      else if v = 3 then DarReadWriteDenied
      else if v = 4 then DarObjectUndefined
      else if v = 9 then DarObjectClassInconsistent
      else if v = 11 then DarObjectUnavailable
      else if v = 12 then DarTypeUnmatched
      else if v = 13 then DarScopeOfAccessViolated
      else if v = 14 then DarDataBlockUnavailable
      else if v = 15 then DarLongGetAborted
      else if v = 16 then DarNoLongGetInProgress
      else if v = 17 then DarLongSetAborted
      else if v = 18 then DarNoLongSetInProgress
      else if v = 19 then DarDataBlockNumberInvalid
      else if v = 250 then DarOtherReason
      else DarOther v)"

definition DataAccessResult_is_success :: "DataAccessResult \<Rightarrow> bool" where
  "DataAccessResult_is_success v \<longleftrightarrow> v = DarSuccess"

definition DataAccessResult_ok :: "DataAccessResult \<Rightarrow> DataAccessResult + unit" where
  "DataAccessResult_ok v = (if DataAccessResult_is_success v then Inr () else Inl v)"

datatype ActionResult =
    ActSuccess | ActHardwareFault | ActTemporaryFailure | ActReadWriteDenied | ActObjectUndefined
    | ActObjectClassInconsistent | ActObjectUnavailable | ActTypeUnmatched | ActScopeOfAccessViolated
    | ActDataBlockUnavailable | ActLongActionAborted | ActNoLongActionInProgress | ActOtherReason | ActOther u8

fun ActionResult_as_u8 :: "ActionResult \<Rightarrow> u8" where
  "ActionResult_as_u8 ActSuccess = 0"
| "ActionResult_as_u8 ActHardwareFault = 1"
| "ActionResult_as_u8 ActTemporaryFailure = 2"
| "ActionResult_as_u8 ActReadWriteDenied = 3"
| "ActionResult_as_u8 ActObjectUndefined = 4"
| "ActionResult_as_u8 ActObjectClassInconsistent = 9"
| "ActionResult_as_u8 ActObjectUnavailable = 11"
| "ActionResult_as_u8 ActTypeUnmatched = 12"
| "ActionResult_as_u8 ActScopeOfAccessViolated = 13"
| "ActionResult_as_u8 ActDataBlockUnavailable = 14"
| "ActionResult_as_u8 ActLongActionAborted = 15"
| "ActionResult_as_u8 ActNoLongActionInProgress = 16"
| "ActionResult_as_u8 ActOtherReason = 250"
| "ActionResult_as_u8 (ActOther v) = v"

definition ActionResult_from_u8 :: "u8 \<Rightarrow> ActionResult" where
  "ActionResult_from_u8 v =
     (if v = 0 then ActSuccess
      else if v = 1 then ActHardwareFault
      else if v = 2 then ActTemporaryFailure
      else if v = 3 then ActReadWriteDenied
      else if v = 4 then ActObjectUndefined
      else if v = 9 then ActObjectClassInconsistent
      else if v = 11 then ActObjectUnavailable
      else if v = 12 then ActTypeUnmatched
      else if v = 13 then ActScopeOfAccessViolated
      else if v = 14 then ActDataBlockUnavailable
      else if v = 15 then ActLongActionAborted
      else if v = 16 then ActNoLongActionInProgress
      else if v = 250 then ActOtherReason
      else ActOther v)"

definition ActionResult_is_success :: "ActionResult \<Rightarrow> bool" where
  "ActionResult_is_success v \<longleftrightarrow> v = ActSuccess"

definition ActionResult_ok :: "ActionResult \<Rightarrow> ActionResult + unit" where
  "ActionResult_ok v = (if ActionResult_is_success v then Inr () else Inl v)"

datatype GetDataResult = GdrData Data | GdrError DataAccessResult

fun GetDataResult_value :: "GetDataResult \<Rightarrow> DataAccessResult + Data" where
  "GetDataResult_value (GdrData d) = Inr d"
| "GetDataResult_value (GdrError e) = Inl e"

fun GetDataResult_encode :: "GetDataResult \<Rightarrow> (writer, unit) op" where
  "GetDataResult_encode (GdrData d) = try_bind (write_u8 0) (\<lambda>_. Data_encode d)"
| "GetDataResult_encode (GdrError e) = try_bind (write_u8 1) (\<lambda>_. write_u8 (DataAccessResult_as_u8 e))"

definition GetDataResult_decode :: "(Reader, GetDataResult) op" where
  "GetDataResult_decode = try_bind Reader_u8 (\<lambda>choice.
     if choice = 0 then try_bind Data_decode (\<lambda>d. ok (GdrData d))
     else if choice = 1 then try_bind Reader_u8 (\<lambda>e. ok (GdrError (DataAccessResult_from_u8 e)))
     else rd_fail_back (InvalidTag choice) 1)"

record DataBlockG =
  dbg_last_block :: bool
  dbg_block_number :: u32
  dbg_result :: "DataAccessResult + bytes"

definition DataBlockG_encode :: "DataBlockG \<Rightarrow> (writer, unit) op" where
  "DataBlockG_encode b =
     try_bind (write_u8 (of_bool (dbg_last_block b))) (\<lambda>_.
     try_bind (write_u32 (dbg_block_number b)) (\<lambda>_.
     case dbg_result b of
       Inr raw \<Rightarrow> try_bind (write_u8 0) (\<lambda>_. write_length_prefixed raw)
     | Inl e \<Rightarrow> try_bind (write_u8 1) (\<lambda>_. write_u8 (DataAccessResult_as_u8 e))))"

definition DataBlockG_decode :: "(Reader, DataBlockG) op" where
  "DataBlockG_decode =
     try_bind Reader_u8 (\<lambda>last.
     try_bind Reader_u32 (\<lambda>number.
     try_bind (try_bind Reader_u8 (\<lambda>choice.
         if choice = 0 then try_bind Reader_length_prefixed (\<lambda>raw. ok (Inr raw))
         else if choice = 1 then try_bind Reader_u8 (\<lambda>e. ok (Inl (DataAccessResult_from_u8 e)))
         else rd_fail_back (InvalidTag choice) 1)) (\<lambda>result.
       ok \<lparr>dbg_last_block = (last \<noteq> 0), dbg_block_number = number, dbg_result = result\<rparr>)))"

record DataBlockSA =
  dbs_last_block :: bool
  dbs_block_number :: u32
  dbs_raw_data :: bytes

definition DataBlockSA_encode :: "DataBlockSA \<Rightarrow> (writer, unit) op" where
  "DataBlockSA_encode b =
     try_bind (write_u8 (of_bool (dbs_last_block b))) (\<lambda>_.
     try_bind (write_u32 (dbs_block_number b)) (\<lambda>_.
     write_length_prefixed (dbs_raw_data b)))"

definition DataBlockSA_decode :: "(Reader, DataBlockSA) op" where
  "DataBlockSA_decode =
     try_bind Reader_u8 (\<lambda>last. try_bind Reader_u32 (\<lambda>number. try_bind Reader_length_prefixed (\<lambda>raw.
       ok \<lparr>dbs_last_block = (last \<noteq> 0), dbs_block_number = number, dbs_raw_data = raw\<rparr>)))"

definition DataAccessResult_encode :: "DataAccessResult \<Rightarrow> (writer, unit) op" where
  "DataAccessResult_encode v = write_u8 (DataAccessResult_as_u8 v)"

definition DataAccessResult_decode :: "(Reader, DataAccessResult) op" where
  "DataAccessResult_decode = try_bind Reader_u8 (\<lambda>v. ok (DataAccessResult_from_u8 v))"

definition ActionResult_encode :: "ActionResult \<Rightarrow> (writer, unit) op" where
  "ActionResult_encode v = write_u8 (ActionResult_as_u8 v)"

definition ActionResult_decode :: "(Reader, ActionResult) op" where
  "ActionResult_decode = try_bind Reader_u8 (\<lambda>v. ok (ActionResult_from_u8 v))"

subsection \<open>GET\<close>

datatype GetRequest =
    GetNormal InvokeId AttributeDescriptor "SelectiveAccess option"
  | GetNext InvokeId u32
  | GetWithList InvokeId WireList

fun GetRequest_encode :: "GetRequest \<Rightarrow> (writer, unit) op" where
  "GetRequest_encode (GetNormal i d a) = try_bind (write_u8 1) (\<lambda>_. try_bind (write_u8 (invoke_byte i)) (\<lambda>_.
     try_bind (AttributeDescriptor_encode d) (\<lambda>_. encode_optional SelectiveAccess_encode a)))"
| "GetRequest_encode (GetNext i n) = try_bind (write_u8 2) (\<lambda>_. try_bind (write_u8 (invoke_byte i)) (\<lambda>_. write_u32 n))"
| "GetRequest_encode (GetWithList i l) = try_bind (write_u8 3) (\<lambda>_. try_bind (write_u8 (invoke_byte i)) (\<lambda>_. List_encode l))"

definition GetRequest_decode :: "(Reader, GetRequest) op" where
  "GetRequest_decode = try_bind Reader_u8 (\<lambda>choice. try_bind Reader_u8 (\<lambda>invoke_id.
     if choice = 1 then try_bind AttributeDescriptor_decode (\<lambda>d. try_bind (decode_optional SelectiveAccess_decode) (\<lambda>a.
       ok (GetNormal (InvokeId invoke_id) d a)))
     else if choice = 2 then try_bind Reader_u32 (\<lambda>n. ok (GetNext (InvokeId invoke_id) n))
     else if choice = 3 then try_bind (List_decode AttributeDescriptorWithSelection_decode) (\<lambda>l. ok (GetWithList (InvokeId invoke_id) l))
     else rd_fail_back (InvalidTag choice) 2))"

datatype GetResponse =
    GetRspNormal InvokeId GetDataResult
  | GetRspWithDataBlock InvokeId DataBlockG
  | GetRspWithList InvokeId WireList

fun GetResponse_encode :: "GetResponse \<Rightarrow> (writer, unit) op" where
  "GetResponse_encode (GetRspNormal i r) = try_bind (write_u8 1) (\<lambda>_. try_bind (write_u8 (invoke_byte i)) (\<lambda>_. GetDataResult_encode r))"
| "GetResponse_encode (GetRspWithDataBlock i b) = try_bind (write_u8 2) (\<lambda>_. try_bind (write_u8 (invoke_byte i)) (\<lambda>_. DataBlockG_encode b))"
| "GetResponse_encode (GetRspWithList i l) = try_bind (write_u8 3) (\<lambda>_. try_bind (write_u8 (invoke_byte i)) (\<lambda>_. List_encode l))"

definition GetResponse_decode :: "(Reader, GetResponse) op" where
  "GetResponse_decode = try_bind Reader_u8 (\<lambda>choice. try_bind Reader_u8 (\<lambda>invoke_id.
     if choice = 1 then try_bind GetDataResult_decode (\<lambda>r. ok (GetRspNormal (InvokeId invoke_id) r))
     else if choice = 2 then try_bind DataBlockG_decode (\<lambda>b. ok (GetRspWithDataBlock (InvokeId invoke_id) b))
     else if choice = 3 then try_bind (List_decode GetDataResult_decode) (\<lambda>l. ok (GetRspWithList (InvokeId invoke_id) l))
     else rd_fail_back (InvalidTag choice) 2))"

subsection \<open>SET\<close>

datatype SetRequest =
    SetNormal InvokeId AttributeDescriptor "SelectiveAccess option" Data
  | SetWithFirstDataBlock InvokeId AttributeDescriptor "SelectiveAccess option" DataBlockSA
  | SetWithDataBlock InvokeId DataBlockSA
  | SetWithList InvokeId WireList WireList
  | SetWithListAndFirstDataBlock InvokeId WireList DataBlockSA

fun SetRequest_encode :: "SetRequest \<Rightarrow> (writer, unit) op" where
  "SetRequest_encode (SetNormal i d a v) = try_bind (write_u8 1) (\<lambda>_. try_bind (write_u8 (invoke_byte i)) (\<lambda>_.
     try_bind (AttributeDescriptor_encode d) (\<lambda>_. try_bind (encode_optional SelectiveAccess_encode a) (\<lambda>_. Data_encode v))))"
| "SetRequest_encode (SetWithFirstDataBlock i d a b) = try_bind (write_u8 2) (\<lambda>_. try_bind (write_u8 (invoke_byte i)) (\<lambda>_.
     try_bind (AttributeDescriptor_encode d) (\<lambda>_. try_bind (encode_optional SelectiveAccess_encode a) (\<lambda>_. DataBlockSA_encode b))))"
| "SetRequest_encode (SetWithDataBlock i b) = try_bind (write_u8 3) (\<lambda>_. try_bind (write_u8 (invoke_byte i)) (\<lambda>_. DataBlockSA_encode b))"
| "SetRequest_encode (SetWithList i ds vs) = try_bind (write_u8 4) (\<lambda>_. try_bind (write_u8 (invoke_byte i)) (\<lambda>_.
     try_bind (List_encode ds) (\<lambda>_. List_encode vs)))"
| "SetRequest_encode (SetWithListAndFirstDataBlock i ds b) = try_bind (write_u8 5) (\<lambda>_. try_bind (write_u8 (invoke_byte i)) (\<lambda>_.
     try_bind (List_encode ds) (\<lambda>_. DataBlockSA_encode b)))"

definition SetRequest_decode :: "(Reader, SetRequest) op" where
  "SetRequest_decode = try_bind Reader_u8 (\<lambda>choice. try_bind Reader_u8 (\<lambda>invoke_id.
     if choice = 1 then try_bind AttributeDescriptor_decode (\<lambda>d. try_bind (decode_optional SelectiveAccess_decode) (\<lambda>a.
       try_bind Data_decode (\<lambda>v. ok (SetNormal (InvokeId invoke_id) d a v))))
     else if choice = 2 then try_bind AttributeDescriptor_decode (\<lambda>d. try_bind (decode_optional SelectiveAccess_decode) (\<lambda>a.
       try_bind DataBlockSA_decode (\<lambda>b. ok (SetWithFirstDataBlock (InvokeId invoke_id) d a b))))
     else if choice = 3 then try_bind DataBlockSA_decode (\<lambda>b. ok (SetWithDataBlock (InvokeId invoke_id) b))
     else if choice = 4 then try_bind (List_decode AttributeDescriptorWithSelection_decode) (\<lambda>ds.
       try_bind (List_decode Data_decode) (\<lambda>vs. ok (SetWithList (InvokeId invoke_id) ds vs)))
     else if choice = 5 then try_bind (List_decode AttributeDescriptorWithSelection_decode) (\<lambda>ds.
       try_bind DataBlockSA_decode (\<lambda>b. ok (SetWithListAndFirstDataBlock (InvokeId invoke_id) ds b)))
     else rd_fail_back (InvalidTag choice) 2))"

datatype SetResponse =
    SetRspNormal InvokeId DataAccessResult
  | SetRspDataBlock InvokeId u32
  | SetRspLastDataBlock InvokeId DataAccessResult u32
  | SetRspLastDataBlockWithList InvokeId WireList u32
  | SetRspWithList InvokeId WireList

fun SetResponse_encode :: "SetResponse \<Rightarrow> (writer, unit) op" where
  "SetResponse_encode (SetRspNormal i r) = try_bind (write_u8 1) (\<lambda>_. try_bind (write_u8 (invoke_byte i)) (\<lambda>_. write_u8 (DataAccessResult_as_u8 r)))"
| "SetResponse_encode (SetRspDataBlock i n) = try_bind (write_u8 2) (\<lambda>_. try_bind (write_u8 (invoke_byte i)) (\<lambda>_. write_u32 n))"
| "SetResponse_encode (SetRspLastDataBlock i r n) = try_bind (write_u8 3) (\<lambda>_. try_bind (write_u8 (invoke_byte i)) (\<lambda>_.
     try_bind (write_u8 (DataAccessResult_as_u8 r)) (\<lambda>_. write_u32 n)))"
| "SetResponse_encode (SetRspLastDataBlockWithList i rs n) = try_bind (write_u8 4) (\<lambda>_. try_bind (write_u8 (invoke_byte i)) (\<lambda>_.
     try_bind (List_encode rs) (\<lambda>_. write_u32 n)))"
| "SetResponse_encode (SetRspWithList i rs) = try_bind (write_u8 5) (\<lambda>_. try_bind (write_u8 (invoke_byte i)) (\<lambda>_. List_encode rs))"

definition SetResponse_decode :: "(Reader, SetResponse) op" where
  "SetResponse_decode = try_bind Reader_u8 (\<lambda>choice. try_bind Reader_u8 (\<lambda>invoke_id.
     if choice = 1 then try_bind Reader_u8 (\<lambda>r. ok (SetRspNormal (InvokeId invoke_id) (DataAccessResult_from_u8 r)))
     else if choice = 2 then try_bind Reader_u32 (\<lambda>n. ok (SetRspDataBlock (InvokeId invoke_id) n))
     else if choice = 3 then try_bind Reader_u8 (\<lambda>r. try_bind Reader_u32 (\<lambda>n.
       ok (SetRspLastDataBlock (InvokeId invoke_id) (DataAccessResult_from_u8 r) n)))
     else if choice = 4 then try_bind (List_decode DataAccessResult_decode) (\<lambda>rs. try_bind Reader_u32 (\<lambda>n.
       ok (SetRspLastDataBlockWithList (InvokeId invoke_id) rs n)))
     else if choice = 5 then try_bind (List_decode DataAccessResult_decode) (\<lambda>rs. ok (SetRspWithList (InvokeId invoke_id) rs))
     else rd_fail_back (InvalidTag choice) 2))"

subsection \<open>ACTION\<close>

record ActionResponseWithOptionalData =
  aro_result :: ActionResult
  aro_return_parameters :: "GetDataResult option"

definition ActionResponseWithOptionalData_encode :: "ActionResponseWithOptionalData \<Rightarrow> (writer, unit) op" where
  "ActionResponseWithOptionalData_encode a =
     try_bind (write_u8 (ActionResult_as_u8 (aro_result a))) (\<lambda>_. encode_optional GetDataResult_encode (aro_return_parameters a))"

definition ActionResponseWithOptionalData_decode :: "(Reader, ActionResponseWithOptionalData) op" where
  "ActionResponseWithOptionalData_decode =
     try_bind Reader_u8 (\<lambda>r. try_bind (decode_optional GetDataResult_decode) (\<lambda>p.
       ok \<lparr>aro_result = ActionResult_from_u8 r, aro_return_parameters = p\<rparr>))"

datatype ActionRequest =
    ActNormal InvokeId MethodDescriptor "Data option"
  | ActNextPblock InvokeId u32
  | ActWithList InvokeId WireList WireList
  | ActWithFirstPblock InvokeId MethodDescriptor DataBlockSA
  | ActWithListAndFirstPblock InvokeId WireList DataBlockSA
  | ActWithPblock InvokeId DataBlockSA

fun ActionRequest_encode :: "ActionRequest \<Rightarrow> (writer, unit) op" where
  "ActionRequest_encode (ActNormal i d p) = try_bind (write_u8 1) (\<lambda>_. try_bind (write_u8 (invoke_byte i)) (\<lambda>_.
     try_bind (MethodDescriptor_encode d) (\<lambda>_. encode_optional Data_encode p)))"
| "ActionRequest_encode (ActNextPblock i n) = try_bind (write_u8 2) (\<lambda>_. try_bind (write_u8 (invoke_byte i)) (\<lambda>_. write_u32 n))"
| "ActionRequest_encode (ActWithList i ds ps) = try_bind (write_u8 3) (\<lambda>_. try_bind (write_u8 (invoke_byte i)) (\<lambda>_.
     try_bind (List_encode ds) (\<lambda>_. List_encode ps)))"
| "ActionRequest_encode (ActWithFirstPblock i d b) = try_bind (write_u8 4) (\<lambda>_. try_bind (write_u8 (invoke_byte i)) (\<lambda>_.
     try_bind (MethodDescriptor_encode d) (\<lambda>_. DataBlockSA_encode b)))"
| "ActionRequest_encode (ActWithListAndFirstPblock i ds b) = try_bind (write_u8 5) (\<lambda>_. try_bind (write_u8 (invoke_byte i)) (\<lambda>_.
     try_bind (List_encode ds) (\<lambda>_. DataBlockSA_encode b)))"
| "ActionRequest_encode (ActWithPblock i b) = try_bind (write_u8 6) (\<lambda>_. try_bind (write_u8 (invoke_byte i)) (\<lambda>_. DataBlockSA_encode b))"

definition ActionRequest_decode :: "(Reader, ActionRequest) op" where
  "ActionRequest_decode = try_bind Reader_u8 (\<lambda>choice. try_bind Reader_u8 (\<lambda>invoke_id.
     if choice = 1 then try_bind MethodDescriptor_decode (\<lambda>d. try_bind (decode_optional Data_decode) (\<lambda>p.
       ok (ActNormal (InvokeId invoke_id) d p)))
     else if choice = 2 then try_bind Reader_u32 (\<lambda>n. ok (ActNextPblock (InvokeId invoke_id) n))
     else if choice = 3 then try_bind (List_decode MethodDescriptor_decode) (\<lambda>ds.
       try_bind (List_decode Data_decode) (\<lambda>ps. ok (ActWithList (InvokeId invoke_id) ds ps)))
     else if choice = 4 then try_bind MethodDescriptor_decode (\<lambda>d. try_bind DataBlockSA_decode (\<lambda>b.
       ok (ActWithFirstPblock (InvokeId invoke_id) d b)))
     else if choice = 5 then try_bind (List_decode MethodDescriptor_decode) (\<lambda>ds. try_bind DataBlockSA_decode (\<lambda>b.
       ok (ActWithListAndFirstPblock (InvokeId invoke_id) ds b)))
     else if choice = 6 then try_bind DataBlockSA_decode (\<lambda>b. ok (ActWithPblock (InvokeId invoke_id) b))
     else rd_fail_back (InvalidTag choice) 2))"

datatype ActionResponse =
    ActRspNormal InvokeId ActionResponseWithOptionalData
  | ActRspWithPblock InvokeId DataBlockSA
  | ActRspWithList InvokeId WireList
  | ActRspNextPblock InvokeId u32

fun ActionResponse_encode :: "ActionResponse \<Rightarrow> (writer, unit) op" where
  "ActionResponse_encode (ActRspNormal i r) = try_bind (write_u8 1) (\<lambda>_. try_bind (write_u8 (invoke_byte i)) (\<lambda>_.
     ActionResponseWithOptionalData_encode r))"
| "ActionResponse_encode (ActRspWithPblock i b) = try_bind (write_u8 2) (\<lambda>_. try_bind (write_u8 (invoke_byte i)) (\<lambda>_. DataBlockSA_encode b))"
| "ActionResponse_encode (ActRspWithList i rs) = try_bind (write_u8 3) (\<lambda>_. try_bind (write_u8 (invoke_byte i)) (\<lambda>_. List_encode rs))"
| "ActionResponse_encode (ActRspNextPblock i n) = try_bind (write_u8 4) (\<lambda>_. try_bind (write_u8 (invoke_byte i)) (\<lambda>_. write_u32 n))"

definition ActionResponse_decode :: "(Reader, ActionResponse) op" where
  "ActionResponse_decode = try_bind Reader_u8 (\<lambda>choice. try_bind Reader_u8 (\<lambda>invoke_id.
     if choice = 1 then try_bind ActionResponseWithOptionalData_decode (\<lambda>r. ok (ActRspNormal (InvokeId invoke_id) r))
     else if choice = 2 then try_bind DataBlockSA_decode (\<lambda>b. ok (ActRspWithPblock (InvokeId invoke_id) b))
     else if choice = 3 then try_bind (List_decode ActionResponseWithOptionalData_decode) (\<lambda>rs. ok (ActRspWithList (InvokeId invoke_id) rs))
     else if choice = 4 then try_bind Reader_u32 (\<lambda>n. ok (ActRspNextPblock (InvokeId invoke_id) n))
     else rd_fail_back (InvalidTag choice) 2))"

end
