(* ===== verification/ServiceCodec.thy ===== *)
theory ServiceCodec
  imports Services
begin

text \<open>
  Every service of theory \<open>Services\<close> under the contract of theory \<open>Wire\<close>: what it was encoded as reads back as what it said,
  and its decoder stays inside its buffer.
\<close>

subsection \<open>Results\<close>

definition DataAccessResult_valid :: "DataAccessResult \<Rightarrow> bool" where
  "DataAccessResult_valid v \<longleftrightarrow> DataAccessResult_from_u8 (DataAccessResult_as_u8 v) = v"

definition ActionResult_valid :: "ActionResult \<Rightarrow> bool" where
  "ActionResult_valid v \<longleftrightarrow> ActionResult_from_u8 (ActionResult_as_u8 v) = v"

lemma result_codes_inverse:
  "DataAccessResult_as_u8 (DataAccessResult_from_u8 b) = b" "ActionResult_as_u8 (ActionResult_from_u8 b) = b"
  by (simp_all add: DataAccessResult_from_u8_def ActionResult_from_u8_def)

lemma named_results_valid:
  "(\<And>c. v \<noteq> DarOther c) \<Longrightarrow> DataAccessResult_valid v" "(\<And>c. a \<noteq> ActOther c) \<Longrightarrow> ActionResult_valid a"
  by (cases v; simp add: DataAccessResult_valid_def DataAccessResult_from_u8_def)
    (cases a; simp add: ActionResult_valid_def ActionResult_from_u8_def)

subsection \<open>Descriptors\<close>

definition AttributeDescriptor_valid :: "AttributeDescriptor \<Rightarrow> bool" where
  "AttributeDescriptor_valid d \<longleftrightarrow> obis_wf (ad_instance_id d)"

definition MethodDescriptor_valid :: "MethodDescriptor \<Rightarrow> bool" where
  "MethodDescriptor_valid d \<longleftrightarrow> obis_wf (md_instance_id d)"

definition SelectiveAccess_valid :: "SelectiveAccess \<Rightarrow> bool" where
  "SelectiveAccess_valid s \<longleftrightarrow> Data_valid (sa_parameters s)"

definition SelectiveAccess_abs :: "SelectiveAccess \<Rightarrow> SelectiveAccess" where
  "SelectiveAccess_abs s = s\<lparr>sa_parameters := Data_abs (sa_parameters s)\<rparr>"

definition AttributeDescriptorWithSelection_valid :: "AttributeDescriptorWithSelection \<Rightarrow> bool" where
  "AttributeDescriptorWithSelection_valid d \<longleftrightarrow>
     AttributeDescriptor_valid (ads_descriptor d) \<and> pred_option SelectiveAccess_valid (ads_access d)"

definition AttributeDescriptorWithSelection_abs :: "AttributeDescriptorWithSelection \<Rightarrow> AttributeDescriptorWithSelection" where
  "AttributeDescriptorWithSelection_abs d = d\<lparr>ads_access := map_option SelectiveAccess_abs (ads_access d)\<rparr>"

lemma codes_obis [codes_intro]: "obis_wf i \<Longrightarrow> codes fin (write_bytes (obis_bytes i)) Obis_decode (\<lambda>y. y = i)"
  by (rule codes_prim [OF writes_bytes obis.dec_img])

lemma codes_attribute_descriptor [codes_intro]:
  "AttributeDescriptor_valid d \<Longrightarrow> codes fin (AttributeDescriptor_encode d) AttributeDescriptor_decode (\<lambda>y. y = d)"
  unfolding AttributeDescriptor_encode_def AttributeDescriptor_decode_def AttributeDescriptor_valid_def
  by (auto intro!: codes_eq [OF codes_u16] codes_eq [OF codes_obis] codes_map [OF codes_u8])

lemma codes_method_descriptor [codes_intro]:
  "MethodDescriptor_valid d \<Longrightarrow> codes fin (MethodDescriptor_encode d) MethodDescriptor_decode (\<lambda>y. y = d)"
  unfolding MethodDescriptor_encode_def MethodDescriptor_decode_def MethodDescriptor_valid_def
  by (auto intro!: codes_eq [OF codes_u16] codes_eq [OF codes_obis] codes_map [OF codes_u8])

lemma codes_selective [codes_intro]:
  "SelectiveAccess_valid s \<Longrightarrow> codes fin (SelectiveAccess_encode s) SelectiveAccess_decode (\<lambda>y. SelectiveAccess_abs y = SelectiveAccess_abs s)"
  unfolding SelectiveAccess_encode_def SelectiveAccess_decode_def SelectiveAccess_valid_def SelectiveAccess_abs_def
  by (auto intro!: codes_eq [OF codes_u8] codes_map [OF codes_Data])

lemma codes_selective_option [codes_intro]:
  "pred_option SelectiveAccess_valid a \<Longrightarrow> codes fin (encode_optional SelectiveAccess_encode a) (decode_optional SelectiveAccess_decode)
    (\<lambda>y. map_option SelectiveAccess_abs y = map_option SelectiveAccess_abs a)"
  by (intro codes_optional [where view = SelectiveAccess_abs] codes_selective) simp

lemma codes_descriptor_with_selection [codes_intro]:
  "AttributeDescriptorWithSelection_valid d \<Longrightarrow> codes fin (AttributeDescriptorWithSelection_encode d) AttributeDescriptorWithSelection_decode
    (\<lambda>y. AttributeDescriptorWithSelection_abs y = AttributeDescriptorWithSelection_abs d)"
  unfolding AttributeDescriptorWithSelection_encode_def AttributeDescriptorWithSelection_decode_def
    AttributeDescriptorWithSelection_valid_def AttributeDescriptorWithSelection_abs_def
  by (auto intro!: codes_eq [OF codes_attribute_descriptor] codes_map [OF codes_selective_option])

lemma local_descriptors [local_intro]:
  "local_op Obis_decode" "local_op AttributeDescriptor_decode" "local_op MethodDescriptor_decode" "local_op SelectiveAccess_decode"
  "local_op AttributeDescriptorWithSelection_decode" "local_op Data_decode"
  unfolding Obis_decode_def AttributeDescriptor_decode_def MethodDescriptor_decode_def SelectiveAccess_decode_def
    AttributeDescriptorWithSelection_decode_def
  by (intro local_intro data.dec_local)+

lemma safe_Data [safe_intro]: "safe_dec n Data_decode"
  using data.dec_safe safe_dec_mono by blast

lemma safe_descriptors [safe_intro]:
  "safe_dec n Obis_decode" "safe_dec n AttributeDescriptor_decode" "safe_dec n MethodDescriptor_decode" "safe_dec n SelectiveAccess_decode"
  "safe_dec n AttributeDescriptorWithSelection_decode"
  unfolding Obis_decode_def AttributeDescriptor_decode_def MethodDescriptor_decode_def SelectiveAccess_decode_def
    AttributeDescriptorWithSelection_decode_def
  by (intro safe_intro)+

interpretation selection: wire_type AttributeDescriptorWithSelection_encode AttributeDescriptorWithSelection_decode
  AttributeDescriptorWithSelection_valid AttributeDescriptorWithSelection_abs
  by unfold_locales (intro codes_intro local_intro safe_intro | assumption)+

subsection \<open>Results and blocks\<close>

fun GetDataResult_valid :: "GetDataResult \<Rightarrow> bool" where
  "GetDataResult_valid (GdrData d) \<longleftrightarrow> Data_valid d"
| "GetDataResult_valid (GdrError e) \<longleftrightarrow> DataAccessResult_valid e"

fun GetDataResult_abs :: "GetDataResult \<Rightarrow> GetDataResult" where
  "GetDataResult_abs (GdrData d) = GdrData (Data_abs d)"
| "GetDataResult_abs (GdrError e) = GdrError e"

definition DataBlockG_valid :: "DataBlockG \<Rightarrow> bool" where
  "DataBlockG_valid b \<longleftrightarrow> (case dbg_result b of Inr raw \<Rightarrow> short_field raw | Inl e \<Rightarrow> DataAccessResult_valid e)"

definition DataBlockSA_valid :: "DataBlockSA \<Rightarrow> bool" where
  "DataBlockSA_valid b \<longleftrightarrow> short_field (dbs_raw_data b)"

lemma codes_get_data_result [codes_intro]:
  "GetDataResult_valid g \<Longrightarrow> codes fin (GetDataResult_encode g) GetDataResult_decode (\<lambda>y. GetDataResult_abs y = GetDataResult_abs g)"
  unfolding GetDataResult_decode_def
  by (cases g) (auto simp: DataAccessResult_valid_def intro!: codes_eq [OF codes_u8] codes_map [OF codes_Data] codes_map [OF codes_u8])

lemma codes_block_g [codes_intro]:
  "DataBlockG_valid b \<Longrightarrow> codes fin (DataBlockG_encode b) DataBlockG_decode (\<lambda>y. y = b)"
  unfolding DataBlockG_encode_def DataBlockG_decode_def DataBlockG_valid_def try_bind_assoc
  by (cases b; cases "dbg_result b")
    (auto simp: DataAccessResult_valid_def try_bind_assoc if_distrib [of "\<lambda>m. try_bind m _"] intro!: codes_eq [OF codes_u8] codes_eq [OF codes_u32]
      codes_map [OF codes_u8] codes_map [OF codes_prefixed] cong: if_cong simp del: ok_apply)

lemma codes_block_sa [codes_intro]:
  "DataBlockSA_valid b \<Longrightarrow> codes fin (DataBlockSA_encode b) DataBlockSA_decode (\<lambda>y. y = b)"
  unfolding DataBlockSA_encode_def DataBlockSA_decode_def DataBlockSA_valid_def
  by (cases b) (auto intro!: codes_eq [OF codes_u8] codes_eq [OF codes_u32] codes_map [OF codes_prefixed])

lemma codes_data_access_result [codes_intro]:
  "DataAccessResult_valid v \<Longrightarrow> codes fin (DataAccessResult_encode v) DataAccessResult_decode (\<lambda>y. y = v)"
  "ActionResult_valid a \<Longrightarrow> codes fin (ActionResult_encode a) ActionResult_decode (\<lambda>y. y = a)"
  unfolding DataAccessResult_encode_def DataAccessResult_decode_def DataAccessResult_valid_def
    ActionResult_encode_def ActionResult_decode_def ActionResult_valid_def
  by (auto intro!: codes_map [OF codes_u8])

lemma local_results [local_intro]:
  "local_op GetDataResult_decode" "local_op DataBlockG_decode" "local_op DataBlockSA_decode"
  "local_op DataAccessResult_decode" "local_op ActionResult_decode"
  unfolding GetDataResult_decode_def DataBlockG_decode_def DataBlockSA_decode_def DataAccessResult_decode_def ActionResult_decode_def
  by (intro local_intro)+

lemma safe_results [safe_intro]:
  "safe_dec n GetDataResult_decode" "safe_dec n DataBlockG_decode" "safe_dec n DataBlockSA_decode"
  "safe_dec n DataAccessResult_decode" "safe_dec n ActionResult_decode"
  unfolding GetDataResult_decode_def DataBlockG_decode_def DataBlockSA_decode_def DataAccessResult_decode_def ActionResult_decode_def
  by (auto intro!: safe_u8_bind safe_intro simp: try_bind_assoc)

interpretation get_data_result: wire_type GetDataResult_encode GetDataResult_decode GetDataResult_valid GetDataResult_abs
  by unfold_locales (intro codes_intro local_intro safe_intro | assumption)+

subsection \<open>GET, SET and ACTION\<close>

fun GetRequest_valid :: "GetRequest \<Rightarrow> bool" where
  "GetRequest_valid (GetNormal i d a) \<longleftrightarrow> AttributeDescriptor_valid d \<and> pred_option SelectiveAccess_valid a"
| "GetRequest_valid (GetNext i n) \<longleftrightarrow> True"
| "GetRequest_valid (GetWithList i l) \<longleftrightarrow> WireList_valid AttributeDescriptorWithSelection_decode l"

fun GetRequest_abs :: "GetRequest \<Rightarrow> GetRequest" where
  "GetRequest_abs (GetNormal i d a) = GetNormal i d (map_option SelectiveAccess_abs a)"
| "GetRequest_abs (GetNext i n) = GetNext i n"
| "GetRequest_abs (GetWithList i l) = GetWithList i (WireList_abs l)"

fun GetResponse_valid :: "GetResponse \<Rightarrow> bool" where
  "GetResponse_valid (GetRspNormal i r) \<longleftrightarrow> GetDataResult_valid r"
| "GetResponse_valid (GetRspWithDataBlock i b) \<longleftrightarrow> DataBlockG_valid b"
| "GetResponse_valid (GetRspWithList i l) \<longleftrightarrow> WireList_valid GetDataResult_decode l"

fun GetResponse_abs :: "GetResponse \<Rightarrow> GetResponse" where
  "GetResponse_abs (GetRspNormal i r) = GetRspNormal i (GetDataResult_abs r)"
| "GetResponse_abs (GetRspWithDataBlock i b) = GetRspWithDataBlock i b"
| "GetResponse_abs (GetRspWithList i l) = GetRspWithList i (WireList_abs l)"

fun SetRequest_valid :: "SetRequest \<Rightarrow> bool" where
  "SetRequest_valid (SetNormal i d a v) \<longleftrightarrow> AttributeDescriptor_valid d \<and> pred_option SelectiveAccess_valid a \<and> Data_valid v"
| "SetRequest_valid (SetWithFirstDataBlock i d a b) \<longleftrightarrow> AttributeDescriptor_valid d \<and> pred_option SelectiveAccess_valid a \<and> DataBlockSA_valid b"
| "SetRequest_valid (SetWithDataBlock i b) \<longleftrightarrow> DataBlockSA_valid b"
| "SetRequest_valid (SetWithList i ds vs) \<longleftrightarrow> WireList_valid AttributeDescriptorWithSelection_decode ds \<and> WireList_valid Data_decode vs"
| "SetRequest_valid (SetWithListAndFirstDataBlock i ds b) \<longleftrightarrow> WireList_valid AttributeDescriptorWithSelection_decode ds \<and> DataBlockSA_valid b"

fun SetRequest_abs :: "SetRequest \<Rightarrow> SetRequest" where
  "SetRequest_abs (SetNormal i d a v) = SetNormal i d (map_option SelectiveAccess_abs a) (Data_abs v)"
| "SetRequest_abs (SetWithFirstDataBlock i d a b) = SetWithFirstDataBlock i d (map_option SelectiveAccess_abs a) b"
| "SetRequest_abs (SetWithDataBlock i b) = SetWithDataBlock i b"
| "SetRequest_abs (SetWithList i ds vs) = SetWithList i (WireList_abs ds) (WireList_abs vs)"
| "SetRequest_abs (SetWithListAndFirstDataBlock i ds b) = SetWithListAndFirstDataBlock i (WireList_abs ds) b"

fun SetResponse_valid :: "SetResponse \<Rightarrow> bool" where
  "SetResponse_valid (SetRspNormal i r) \<longleftrightarrow> DataAccessResult_valid r"
| "SetResponse_valid (SetRspDataBlock i n) \<longleftrightarrow> True"
| "SetResponse_valid (SetRspLastDataBlock i r n) \<longleftrightarrow> DataAccessResult_valid r"
| "SetResponse_valid (SetRspLastDataBlockWithList i rs n) \<longleftrightarrow> WireList_valid DataAccessResult_decode rs"
| "SetResponse_valid (SetRspWithList i rs) \<longleftrightarrow> WireList_valid DataAccessResult_decode rs"

fun SetResponse_abs :: "SetResponse \<Rightarrow> SetResponse" where
  "SetResponse_abs (SetRspLastDataBlockWithList i rs n) = SetRspLastDataBlockWithList i (WireList_abs rs) n"
| "SetResponse_abs (SetRspWithList i rs) = SetRspWithList i (WireList_abs rs)"
| "SetResponse_abs r = r"

definition ActionResponseWithOptionalData_valid :: "ActionResponseWithOptionalData \<Rightarrow> bool" where
  "ActionResponseWithOptionalData_valid a \<longleftrightarrow> ActionResult_valid (aro_result a) \<and> pred_option GetDataResult_valid (aro_return_parameters a)"

definition ActionResponseWithOptionalData_abs :: "ActionResponseWithOptionalData \<Rightarrow> ActionResponseWithOptionalData" where
  "ActionResponseWithOptionalData_abs a = a\<lparr>aro_return_parameters := map_option GetDataResult_abs (aro_return_parameters a)\<rparr>"

fun ActionRequest_valid :: "ActionRequest \<Rightarrow> bool" where
  "ActionRequest_valid (ActNormal i d p) \<longleftrightarrow> MethodDescriptor_valid d \<and> pred_option Data_valid p"
| "ActionRequest_valid (ActNextPblock i n) \<longleftrightarrow> True"
| "ActionRequest_valid (ActWithList i ds ps) \<longleftrightarrow> WireList_valid MethodDescriptor_decode ds \<and> WireList_valid Data_decode ps"
| "ActionRequest_valid (ActWithFirstPblock i d b) \<longleftrightarrow> MethodDescriptor_valid d \<and> DataBlockSA_valid b"
| "ActionRequest_valid (ActWithListAndFirstPblock i ds b) \<longleftrightarrow> WireList_valid MethodDescriptor_decode ds \<and> DataBlockSA_valid b"
| "ActionRequest_valid (ActWithPblock i b) \<longleftrightarrow> DataBlockSA_valid b"

fun ActionRequest_abs :: "ActionRequest \<Rightarrow> ActionRequest" where
  "ActionRequest_abs (ActNormal i d p) = ActNormal i d (map_option Data_abs p)"
| "ActionRequest_abs (ActWithList i ds ps) = ActWithList i (WireList_abs ds) (WireList_abs ps)"
| "ActionRequest_abs (ActWithListAndFirstPblock i ds b) = ActWithListAndFirstPblock i (WireList_abs ds) b"
| "ActionRequest_abs r = r"

fun ActionResponse_valid :: "ActionResponse \<Rightarrow> bool" where
  "ActionResponse_valid (ActRspNormal i r) \<longleftrightarrow> ActionResponseWithOptionalData_valid r"
| "ActionResponse_valid (ActRspWithPblock i b) \<longleftrightarrow> DataBlockSA_valid b"
| "ActionResponse_valid (ActRspWithList i rs) \<longleftrightarrow> WireList_valid ActionResponseWithOptionalData_decode rs"
| "ActionResponse_valid (ActRspNextPblock i n) \<longleftrightarrow> True"

fun ActionResponse_abs :: "ActionResponse \<Rightarrow> ActionResponse" where
  "ActionResponse_abs (ActRspNormal i r) = ActRspNormal i (ActionResponseWithOptionalData_abs r)"
| "ActionResponse_abs (ActRspWithList i rs) = ActRspWithList i (WireList_abs rs)"
| "ActionResponse_abs r = r"

lemma codes_data_option [codes_intro]:
  "pred_option Data_valid p \<Longrightarrow> codes fin (encode_optional Data_encode p) (decode_optional Data_decode)
    (\<lambda>y. map_option Data_abs y = map_option Data_abs p)"
  by (intro codes_optional [where view = Data_abs] codes_Data) simp

lemma codes_get_data_result_option [codes_intro]:
  "pred_option GetDataResult_valid p \<Longrightarrow> codes fin (encode_optional GetDataResult_encode p) (decode_optional GetDataResult_decode)
    (\<lambda>y. map_option GetDataResult_abs y = map_option GetDataResult_abs p)"
  by (intro codes_optional [where view = GetDataResult_abs] codes_get_data_result) simp

lemma codes_action_response_data [codes_intro]:
  "ActionResponseWithOptionalData_valid a \<Longrightarrow> codes fin (ActionResponseWithOptionalData_encode a) ActionResponseWithOptionalData_decode
    (\<lambda>y. ActionResponseWithOptionalData_abs y = ActionResponseWithOptionalData_abs a)"
  unfolding ActionResponseWithOptionalData_encode_def ActionResponseWithOptionalData_decode_def
    ActionResponseWithOptionalData_valid_def ActionResponseWithOptionalData_abs_def ActionResult_valid_def
  by (auto intro!: codes_eq [OF codes_u8] codes_map [OF codes_get_data_result_option])

lemma local_action_response_data [local_intro]: "local_op ActionResponseWithOptionalData_decode"
  unfolding ActionResponseWithOptionalData_decode_def by (intro local_intro)

lemma safe_action_response_data [safe_intro]: "safe_dec n ActionResponseWithOptionalData_decode"
  unfolding ActionResponseWithOptionalData_decode_def by (intro safe_intro)

text \<open>The fields a service is made of: those that are read back as they were, and those read back up to positions.\<close>

lemmas codes_exact_field = codes_eq [OF codes_u8] codes_eq [OF codes_u32] codes_eq [OF codes_attribute_descriptor] codes_eq [OF codes_method_descriptor]

lemmas codes_field = codes_bind [OF codes_selective_option] codes_bind [OF codes_list]

lemmas codes_last_field = codes_map [OF codes_u8] codes_map [OF codes_u32] codes_map [OF codes_Data] codes_map [OF codes_list]
  codes_map [OF codes_selective_option] codes_map [OF codes_data_option] codes_map [OF codes_block_g] codes_map [OF codes_block_sa]
  codes_map [OF codes_get_data_result] codes_map [OF codes_action_response_data]

lemma codes_get_request [codes_intro]:
  "GetRequest_valid g \<Longrightarrow> codes fin (GetRequest_encode g) GetRequest_decode (\<lambda>y. GetRequest_abs y = GetRequest_abs g)"
  unfolding GetRequest_decode_def
  by (cases g) (auto intro!: codes_exact_field codes_field codes_last_field local_intro)

lemma codes_get_response [codes_intro]:
  "GetResponse_valid g \<Longrightarrow> codes fin (GetResponse_encode g) GetResponse_decode (\<lambda>y. GetResponse_abs y = GetResponse_abs g)"
  unfolding GetResponse_decode_def
  by (cases g) (auto intro!: codes_exact_field codes_field codes_last_field local_intro)

lemma codes_set_request [codes_intro]:
  "SetRequest_valid s \<Longrightarrow> codes fin (SetRequest_encode s) SetRequest_decode (\<lambda>y. SetRequest_abs y = SetRequest_abs s)"
  unfolding SetRequest_decode_def
  by (cases s) (auto intro!: codes_exact_field codes_field codes_last_field local_intro)

lemma codes_set_response [codes_intro]:
  "SetResponse_valid s \<Longrightarrow> codes fin (SetResponse_encode s) SetResponse_decode (\<lambda>y. SetResponse_abs y = SetResponse_abs s)"
  unfolding SetResponse_decode_def
  by (cases s) (auto simp: DataAccessResult_valid_def intro!: codes_exact_field codes_field codes_last_field local_intro)

lemma codes_action_request [codes_intro]:
  "ActionRequest_valid a \<Longrightarrow> codes fin (ActionRequest_encode a) ActionRequest_decode (\<lambda>y. ActionRequest_abs y = ActionRequest_abs a)"
  unfolding ActionRequest_decode_def
  by (cases a) (auto intro!: codes_exact_field codes_field codes_last_field local_intro)

lemma codes_action_response [codes_intro]:
  "ActionResponse_valid a \<Longrightarrow> codes fin (ActionResponse_encode a) ActionResponse_decode (\<lambda>y. ActionResponse_abs y = ActionResponse_abs a)"
  unfolding ActionResponse_decode_def
  by (cases a) (auto intro!: codes_exact_field codes_field codes_last_field local_intro)

lemma local_services [local_intro]:
  "local_op GetRequest_decode" "local_op GetResponse_decode" "local_op SetRequest_decode" "local_op SetResponse_decode"
  "local_op ActionRequest_decode" "local_op ActionResponse_decode"
  unfolding GetRequest_decode_def GetResponse_decode_def SetRequest_decode_def SetResponse_decode_def ActionRequest_decode_def ActionResponse_decode_def
  by (intro local_intro)+

lemma safe_two_bytes:
  assumes "\<And>a b. safe_dec (Suc (Suc n)) (f a b)"
  shows "safe_dec n (try_bind Reader_u8 (\<lambda>a. try_bind Reader_u8 (f a)))"
  by (intro safe_u8_bind assms)

lemma safe_services [safe_intro]:
  "safe_dec n GetRequest_decode" "safe_dec n GetResponse_decode" "safe_dec n SetRequest_decode" "safe_dec n SetResponse_decode"
  "safe_dec n ActionRequest_decode" "safe_dec n ActionResponse_decode"
  unfolding GetRequest_decode_def GetResponse_decode_def SetRequest_decode_def SetResponse_decode_def ActionRequest_decode_def ActionResponse_decode_def
  by (intro safe_two_bytes safe_intro local_intro; simp)+

end
