(* ===== verification/Initiate.thy ===== *)
theory Initiate
  imports ServiceCodec
begin

text \<open>
  What two ends agree on when an association opens and how a server refuses: the conformance block
  (\<^verbatim>\<open>src/src/xdlms/conformance.rs\<close>), the initiate exchange (\<^verbatim>\<open>src/src/xdlms/initiate.rs\<close>) and the two error APDUs
  (\<^verbatim>\<open>src/src/xdlms/error.rs\<close>).
\<close>

subsection \<open>The conformance block\<close>

datatype Conformance = Conformance (conf_bits: u32)

definition Conformance_from_bits_truncate :: "u32 \<Rightarrow> Conformance" where
  "Conformance_from_bits_truncate b = Conformance (b AND 0x00FFFFFF)"

definition Conformance_empty :: Conformance where
  "Conformance_empty = Conformance 0"

definition flag :: "nat \<Rightarrow> Conformance" where
  "flag n = Conformance (push_bit n 1)"

definition RESERVED_ZERO :: Conformance where
  "RESERVED_ZERO = flag 0"

definition READ :: Conformance where
  "READ = flag 3"

definition WRITE :: Conformance where
  "WRITE = flag 4"

definition UNCONFIRMED_WRITE :: Conformance where
  "UNCONFIRMED_WRITE = flag 5"

definition DELTA_VALUE_ENCODING :: Conformance where
  "DELTA_VALUE_ENCODING = flag 6"

definition RESERVED_SEVEN :: Conformance where
  "RESERVED_SEVEN = flag 7"

definition INFORMATION_REPORT :: Conformance where
  "INFORMATION_REPORT = flag 15"

definition PARAMETERIZED_ACCESS :: Conformance where
  "PARAMETERIZED_ACCESS = flag 18"

definition GENERAL_PROTECTION :: Conformance where
  "GENERAL_PROTECTION = flag 1"

definition GENERAL_BLOCK_TRANSFER :: Conformance where
  "GENERAL_BLOCK_TRANSFER = flag 2"

definition ATTRIBUTE0_SUPPORTED_WITH_SET :: Conformance where
  "ATTRIBUTE0_SUPPORTED_WITH_SET = flag 8"

definition PRIORITY_MGMT_SUPPORTED :: Conformance where
  "PRIORITY_MGMT_SUPPORTED = flag 9"

definition ATTRIBUTE0_SUPPORTED_WITH_GET :: Conformance where
  "ATTRIBUTE0_SUPPORTED_WITH_GET = flag 10"

definition BLOCK_TRANSFER_WITH_GET_OR_READ :: Conformance where
  "BLOCK_TRANSFER_WITH_GET_OR_READ = flag 11"

definition BLOCK_TRANSFER_WITH_SET_OR_WRITE :: Conformance where
  "BLOCK_TRANSFER_WITH_SET_OR_WRITE = flag 12"

definition BLOCK_TRANSFER_WITH_ACTION :: Conformance where
  "BLOCK_TRANSFER_WITH_ACTION = flag 13"

definition MULTIPLE_REFERENCES :: Conformance where
  "MULTIPLE_REFERENCES = flag 14"

definition DATA_NOTIFICATION :: Conformance where
  "DATA_NOTIFICATION = flag 16"

definition ACCESS :: Conformance where
  "ACCESS = flag 17"

definition GET :: Conformance where
  "GET = flag 19"

definition SET :: Conformance where
  "SET = flag 20"

definition SELECTIVE_ACCESS :: Conformance where
  "SELECTIVE_ACCESS = flag 21"

definition EVENT_NOTIFICATION :: Conformance where
  "EVENT_NOTIFICATION = flag 22"

definition ACTION :: Conformance where
  "ACTION = flag 23"


lemmas conformance_flags = GENERAL_PROTECTION_def GENERAL_BLOCK_TRANSFER_def ATTRIBUTE0_SUPPORTED_WITH_SET_def PRIORITY_MGMT_SUPPORTED_def
  ATTRIBUTE0_SUPPORTED_WITH_GET_def BLOCK_TRANSFER_WITH_GET_OR_READ_def BLOCK_TRANSFER_WITH_SET_OR_WRITE_def
  BLOCK_TRANSFER_WITH_ACTION_def MULTIPLE_REFERENCES_def RESERVED_ZERO_def READ_def WRITE_def UNCONFIRMED_WRITE_def
  DELTA_VALUE_ENCODING_def RESERVED_SEVEN_def INFORMATION_REPORT_def PARAMETERIZED_ACCESS_def DATA_NOTIFICATION_def ACCESS_def GET_def SET_def
  SELECTIVE_ACCESS_def EVENT_NOTIFICATION_def ACTION_def

definition any_of :: "Conformance list \<Rightarrow> Conformance" where
  "any_of fs = Conformance_from_bits_truncate (foldl (OR) 0 (map conf_bits fs))"

definition CLIENT_DEFAULT :: Conformance where
  "CLIENT_DEFAULT = any_of [ACCESS, GENERAL_PROTECTION, GET, SET, ACTION, SELECTIVE_ACCESS, MULTIPLE_REFERENCES,
     BLOCK_TRANSFER_WITH_GET_OR_READ, BLOCK_TRANSFER_WITH_SET_OR_WRITE, BLOCK_TRANSFER_WITH_ACTION, ATTRIBUTE0_SUPPORTED_WITH_GET,
     PRIORITY_MGMT_SUPPORTED, EVENT_NOTIFICATION, DATA_NOTIFICATION]"

definition SERVER_DEFAULT :: Conformance where
  "SERVER_DEFAULT = any_of [GET, SET, ACTION, SELECTIVE_ACCESS, MULTIPLE_REFERENCES, BLOCK_TRANSFER_WITH_GET_OR_READ,
     BLOCK_TRANSFER_WITH_SET_OR_WRITE, BLOCK_TRANSFER_WITH_ACTION, ATTRIBUTE0_SUPPORTED_WITH_GET, PRIORITY_MGMT_SUPPORTED,
     ACCESS, GENERAL_PROTECTION]"

text \<open>\<^verbatim>\<open>u32::reverse_bits\<close>\<close>

definition shift_in :: "u32 \<Rightarrow> bool \<Rightarrow> u32" where
  "shift_in acc b = push_bit 1 acc OR of_bool b"

definition reverse_bits :: "u32 \<Rightarrow> u32" where
  "reverse_bits w = foldl shift_in 0 (map (bit w) [0..<32])"

definition Conformance_to_bytes :: "Conformance \<Rightarrow> bytes" where
  "Conformance_to_bytes c =
     (let r = drop_bit 8 (reverse_bits (conf_bits c)) in [ucast (drop_bit 16 r), ucast (drop_bit 8 r), ucast r])"

definition Conformance_from_bytes :: "bytes \<Rightarrow> Conformance" where
  "Conformance_from_bytes b =
     (let v = (be_word [0, b ! 0, b ! 1, b ! 2] :: u32) in Conformance_from_bits_truncate (reverse_bits (push_bit 8 v)))"

definition Conformance_encode_tagged :: "Conformance \<Rightarrow> (writer, unit) op" where
  "Conformance_encode_tagged c = try_bind (write_bytes [0x5F, 0x1F, 0x04, 0x00]) (\<lambda>_. write_bytes (Conformance_to_bytes c))"

definition Conformance_decode_tagged :: "(Reader, Conformance) op" where
  "Conformance_decode_tagged =
     try_bind Reader_u8 (\<lambda>t0. try_bind Reader_u8 (\<lambda>t1.
       if t0 \<noteq> 0x5F \<or> t1 \<noteq> 0x1F then rd_fail_back (InvalidTag t0) 2
       else try_bind Reader_u8 (\<lambda>len.
         if len \<noteq> 4 then rd_fail_back InvalidLength 1
         else try_bind Reader_u8 (\<lambda>unused.
           if unused \<noteq> 0 then rd_fail_back InvalidValue 1
           else try_bind (Reader_array 3) (\<lambda>b. ok (Conformance_from_bytes b))))))"

definition Conformance_negotiate :: "Conformance \<Rightarrow> Conformance \<Rightarrow> Conformance" where
  "Conformance_negotiate c d = Conformance_from_bits_truncate (conf_bits c AND conf_bits d)"

definition Conformance_contains :: "Conformance \<Rightarrow> Conformance \<Rightarrow> bool" where
  "Conformance_contains c d \<longleftrightarrow> conf_bits c AND conf_bits d = conf_bits d"

definition Conformance_require :: "Conformance \<Rightarrow> Conformance \<Rightarrow> unit result" where
  "Conformance_require c required =
     (if Conformance_contains c required then Inr () else Inl (Error_new UnexpectedMessage 0))"

subsection \<open>The initiate exchange\<close>

definition DLMS_VERSION :: u8 where
  "DLMS_VERSION = 6"

definition VAA_NAME_LN :: u16 where
  "VAA_NAME_LN = 0x0007"

record InitiateRequest =
  ir_dedicated_key :: "bytes option"
  ir_response_allowed :: "bool option"
  ir_proposed_quality_of_service :: "u8 option"
  ir_proposed_dlms_version :: u8
  ir_proposed_conformance :: Conformance
  ir_client_max_receive_pdu_size :: u16

definition InitiateRequest_default :: InitiateRequest where
  "InitiateRequest_default = \<lparr>ir_dedicated_key = None, ir_response_allowed = None, ir_proposed_quality_of_service = None,
     ir_proposed_dlms_version = DLMS_VERSION, ir_proposed_conformance = CLIENT_DEFAULT, ir_client_max_receive_pdu_size = 1024\<rparr>"

definition InitiateRequest_encode :: "InitiateRequest \<Rightarrow> (writer, unit) op" where
  "InitiateRequest_encode q =
     try_bind (encode_optional write_length_prefixed (ir_dedicated_key q)) (\<lambda>_.
     try_bind (case ir_response_allowed q of None \<Rightarrow> write_u8 0 | Some v \<Rightarrow> try_bind (write_u8 1) (\<lambda>_. write_u8 (of_bool v))) (\<lambda>_.
     try_bind (case ir_proposed_quality_of_service q of None \<Rightarrow> write_u8 0 | Some v \<Rightarrow> try_bind (write_u8 1) (\<lambda>_. write_u8 v)) (\<lambda>_.
     try_bind (write_u8 (ir_proposed_dlms_version q)) (\<lambda>_.
     try_bind (Conformance_encode_tagged (ir_proposed_conformance q)) (\<lambda>_.
     write_u16 (ir_client_max_receive_pdu_size q))))))"

definition InitiateRequest_decode :: "(Reader, InitiateRequest) op" where
  "InitiateRequest_decode =
     try_bind (decode_optional Reader_length_prefixed) (\<lambda>key.
     try_bind (try_bind Reader_u8 (\<lambda>f. if f = 0 then ok None else try_bind Reader_u8 (\<lambda>v. ok (Some (v \<noteq> 0))))) (\<lambda>allowed.
     try_bind (try_bind Reader_u8 (\<lambda>f. if f = 0 then ok None else try_bind Reader_u8 (\<lambda>v. ok (Some v)))) (\<lambda>qos.
     try_bind Reader_u8 (\<lambda>version.
     try_bind Conformance_decode_tagged (\<lambda>conf.
     try_bind Reader_u16 (\<lambda>size.
       ok \<lparr>ir_dedicated_key = key, ir_response_allowed = allowed, ir_proposed_quality_of_service = qos,
          ir_proposed_dlms_version = version, ir_proposed_conformance = conf, ir_client_max_receive_pdu_size = size\<rparr>))))))"

record InitiateResponse =
  is_negotiated_quality_of_service :: "u8 option"
  is_negotiated_dlms_version :: u8
  is_negotiated_conformance :: Conformance
  is_server_max_receive_pdu_size :: u16
  is_vaa_name :: u16

definition InitiateResponse_default :: InitiateResponse where
  "InitiateResponse_default = \<lparr>is_negotiated_quality_of_service = None, is_negotiated_dlms_version = DLMS_VERSION,
     is_negotiated_conformance = Conformance_empty, is_server_max_receive_pdu_size = 1024, is_vaa_name = VAA_NAME_LN\<rparr>"

definition InitiateResponse_encode :: "InitiateResponse \<Rightarrow> (writer, unit) op" where
  "InitiateResponse_encode p =
     try_bind (case is_negotiated_quality_of_service p of None \<Rightarrow> write_u8 0 | Some v \<Rightarrow> try_bind (write_u8 1) (\<lambda>_. write_u8 v)) (\<lambda>_.
     try_bind (write_u8 (is_negotiated_dlms_version p)) (\<lambda>_.
     try_bind (Conformance_encode_tagged (is_negotiated_conformance p)) (\<lambda>_.
     try_bind (write_u16 (is_server_max_receive_pdu_size p)) (\<lambda>_.
     write_u16 (is_vaa_name p)))))"

definition InitiateResponse_decode :: "(Reader, InitiateResponse) op" where
  "InitiateResponse_decode =
     try_bind (try_bind Reader_u8 (\<lambda>f. if f = 0 then ok None else try_bind Reader_u8 (\<lambda>v. ok (Some v)))) (\<lambda>qos.
     try_bind Reader_u8 (\<lambda>version.
     try_bind Conformance_decode_tagged (\<lambda>conf.
     try_bind Reader_u16 (\<lambda>size.
     try_bind Reader_u16 (\<lambda>vaa.
       ok \<lparr>is_negotiated_quality_of_service = qos, is_negotiated_dlms_version = version, is_negotiated_conformance = conf,
          is_server_max_receive_pdu_size = size, is_vaa_name = vaa\<rparr>)))))"

definition InitiateResponse_check_version :: "InitiateResponse \<Rightarrow> unit result" where
  "InitiateResponse_check_version p =
     (if is_negotiated_dlms_version p = DLMS_VERSION then Inr () else Inl (Error_new Unsupported 0))"

subsection \<open>Refusals\<close>

datatype StateError = SeServiceNotAllowed | SeServiceUnknown | SeOther u8

definition StateError_from_u8 :: "u8 \<Rightarrow> StateError" where
  "StateError_from_u8 v = (if v = 1 then SeServiceNotAllowed else if v = 2 then SeServiceUnknown else SeOther v)"

fun StateError_as_u8 :: "StateError \<Rightarrow> u8" where
  "StateError_as_u8 SeServiceNotAllowed = 1"
| "StateError_as_u8 SeServiceUnknown = 2"
| "StateError_as_u8 (SeOther v) = v"

datatype ServiceError =
    SvOperationNotPossible | SvServiceNotSupported | SvOtherReason | SvPduTooLong | SvDecipheringError | SvInvocationCounterError | SvOther u8

definition ServiceError_from_u8 :: "u8 \<Rightarrow> ServiceError" where
  "ServiceError_from_u8 v =
     (if v = 1 then SvOperationNotPossible else if v = 2 then SvServiceNotSupported else if v = 3 then SvOtherReason
      else if v = 4 then SvPduTooLong else if v = 5 then SvDecipheringError else if v = 6 then SvInvocationCounterError else SvOther v)"

fun ServiceError_as_u8 :: "ServiceError \<Rightarrow> u8" where
  "ServiceError_as_u8 SvOperationNotPossible = 1"
| "ServiceError_as_u8 SvServiceNotSupported = 2"
| "ServiceError_as_u8 SvOtherReason = 3"
| "ServiceError_as_u8 SvPduTooLong = 4"
| "ServiceError_as_u8 SvDecipheringError = 5"
| "ServiceError_as_u8 SvInvocationCounterError = 6"
| "ServiceError_as_u8 (SvOther v) = v"

record ExceptionResponse =
  er_state_error :: StateError
  er_service_error :: ServiceError
  er_expected_invocation_counter :: "u32 option"

definition ExceptionResponse_encode :: "ExceptionResponse \<Rightarrow> (writer, unit) op" where
  "ExceptionResponse_encode x =
     try_bind (write_u8 (StateError_as_u8 (er_state_error x))) (\<lambda>_.
     try_bind (write_u8 (ServiceError_as_u8 (er_service_error x))) (\<lambda>_.
     case er_expected_invocation_counter x of None \<Rightarrow> ok () | Some ic \<Rightarrow> write_u32 ic))"

definition ExceptionResponse_decode :: "(Reader, ExceptionResponse) op" where
  "ExceptionResponse_decode =
     try_bind Reader_u8 (\<lambda>state. try_bind Reader_u8 (\<lambda>service.
       try_bind (\<lambda>r. if ServiceError_from_u8 service = SvInvocationCounterError \<and> Reader_remaining r \<ge> 4
                      then try_bind Reader_u32 (\<lambda>ic. ok (Some ic)) r else ok None r) (\<lambda>expected.
         ok \<lparr>er_state_error = StateError_from_u8 state, er_service_error = ServiceError_from_u8 service,
            er_expected_invocation_counter = expected\<rparr>)))"

record ConfirmedServiceError =
  cse_service :: u8
  cse_error_class :: u8
  cse_error_code :: u8

definition ConfirmedServiceError_encode :: "ConfirmedServiceError \<Rightarrow> (writer, unit) op" where
  "ConfirmedServiceError_encode x = write_bytes [cse_service x, cse_error_class x, cse_error_code x]"

definition ConfirmedServiceError_decode :: "(Reader, ConfirmedServiceError) op" where
  "ConfirmedServiceError_decode =
     try_bind Reader_u8 (\<lambda>s. try_bind Reader_u8 (\<lambda>c. try_bind Reader_u8 (\<lambda>e.
       ok \<lparr>cse_service = s, cse_error_class = c, cse_error_code = e\<rparr>)))"

subsection \<open>The order of the bits\<close>

lemma bit_shift_in: "bit (shift_in acc b) j \<longleftrightarrow> (case j of 0 \<Rightarrow> b | Suc k \<Rightarrow> Suc k < 32 \<and> bit acc k)"
  unfolding shift_in_def bit_or_iff bit_push_bit_iff by (cases j) (auto simp: bit_of_bool_iff)

lemma bit_reverse_prefix:
  "n \<le> 32 \<Longrightarrow> bit (foldl shift_in 0 (map (bit w) [0..<n])) j \<longleftrightarrow> j < n \<and> bit w (n - 1 - j)"
proof (induction n arbitrary: j)
  case (Suc n)
  have "bit (foldl shift_in 0 (map (bit w) [0..<Suc n])) j \<longleftrightarrow>
      (case j of 0 \<Rightarrow> bit w n | Suc k \<Rightarrow> Suc k < 32 \<and> bit (foldl shift_in 0 (map (bit w) [0..<n])) k)"
    by (simp add: bit_shift_in)
  also have "\<dots> \<longleftrightarrow> j < Suc n \<and> bit w (Suc n - 1 - j)"
  proof (cases j)
    case (Suc k)
    have "bit (foldl shift_in 0 (map (bit w) [0..<n])) k \<longleftrightarrow> k < n \<and> bit w (n - 1 - k)" by (rule Suc.IH) (use Suc.prems in linarith)
    moreover have "k < n \<Longrightarrow> Suc k < 32" using Suc.prems by linarith
    ultimately show ?thesis using \<open>j = Suc k\<close> by (simp only: nat.case) (auto simp: Suc_diff_Suc)
  qed simp
  finally show ?case .
qed simp

lemma bit_reverse: "bit (reverse_bits w) j \<longleftrightarrow> j < 32 \<and> bit w (31 - j)"
  unfolding reverse_bits_def bit_reverse_prefix [OF order_refl] by simp

lemma bit_beyond: "bit (w :: 'a::len word) n \<Longrightarrow> n < LENGTH('a)"
  by (rule bit_imp_le_length)

lemma to_bytes_bits:
  assumes "n < 24"
  shows "bit (conf_bits c) n \<longleftrightarrow> bit (Conformance_to_bytes c ! (n div 8)) (7 - n mod 8)"
proof -
  define r where "r = drop_bit 8 (reverse_bits (conf_bits c))"
  have r: "bit r j \<longleftrightarrow> j < 24 \<and> bit (conf_bits c) (23 - j)" for j
    unfolding r_def by (auto simp: bit_drop_bit_eq bit_reverse)
  have "n div 8 < 3" using assms by simp
  then consider "n div 8 = 0" | "n div 8 = 1" | "n div 8 = 2" by linarith
  then show ?thesis
  proof cases
    case 1
    then have "n < 8" by simp
    then show ?thesis using 1 by (auto simp: Conformance_to_bytes_def Let_def r_def [symmetric] bit_ucast_iff bit_drop_bit_eq r)
  next
    case 2
    then have "7 - n mod 8 + 8 = 23 - n" "n \<le> 23" using assms by presburger+
    then show ?thesis using 2 by (auto simp: Conformance_to_bytes_def Let_def r_def [symmetric] bit_ucast_iff bit_drop_bit_eq r add.commute simp flip: numeral_eq_Suc)
  next
    case 3
    then have "7 - n mod 8 = 23 - n" "n \<le> 23" using assms by presburger+
    then show ?thesis using 3 by (auto simp: Conformance_to_bytes_def Let_def r_def [symmetric] bit_ucast_iff r)
  qed
qed

lemma bit_shl8_or: "bit (shl8_or (v :: u32) b) j \<longleftrightarrow> (if j < 8 then bit b j else j < 32 \<and> bit v (j - 8))"
  unfolding shl8_or_def bit_or_iff bit_push_bit_iff bit_ucast_iff
  using bit_beyond [of b j] bit_beyond [of v "j - 8"] by auto

lemma bit_24: "bit (0x00FFFFFF :: u32) n \<longleftrightarrow> n < 24"
proof -
  have "(0x00FFFFFF :: u32) = mask 24" by (simp add: mask_eq_exp_minus_1)
  moreover have "bit (mask 24 :: u32) n \<longleftrightarrow> n < 24" unfolding bit_mask_iff by auto
  ultimately show ?thesis by simp
qed

lemma from_bytes_bits:
  "bit (conf_bits (Conformance_from_bytes b)) n \<longleftrightarrow> n < 24 \<and> bit (b ! (n div 8)) (7 - n mod 8)"
proof -
  define v where "v = (be_word [0, b ! 0, b ! 1, b ! 2] :: u32)"
  have v: "bit v j \<longleftrightarrow> (if j < 8 then bit (b ! 2) j else if j < 16 then bit (b ! 1) (j - 8) else j < 24 \<and> bit (b ! 0) (j - 16))" for j
    unfolding v_def be_word_def by (auto simp: bit_shl8_or)
  have "bit (conf_bits (Conformance_from_bytes b)) n \<longleftrightarrow> n < 24 \<and> bit v (23 - n)"
    unfolding Conformance_from_bytes_def Let_def v_def [symmetric] Conformance_from_bits_truncate_def Conformance.sel bit_and_iff bit_24 bit_reverse
      bit_push_bit_iff by auto
  also have "\<dots> \<longleftrightarrow> n < 24 \<and> bit (b ! (n div 8)) (7 - n mod 8)"
  proof (cases "n < 24")
    case True
    consider (a) "n < 8" | (b) "8 \<le> n" "n < 16" | (c) "16 \<le> n" "n < 24" using True by linarith
    then show ?thesis
    proof cases
      case a
      then have "n div 8 = 0" "n mod 8 = n" "23 - n - 16 = 7 - n" "\<not> 23 - n < 8" "\<not> 23 - n < 16" "23 - n < 24" by simp_all
      then show ?thesis using True by (simp add: v)
    next
      case b
      then have "n div 8 = 1" "n mod 8 = n - 8" "23 - n - 8 = 7 - (n - 8)" "\<not> 23 - n < 8" "23 - n < 16" by (simp_all add: div_nat_eqI mod_if)
      then show ?thesis using True by (simp add: v)
    next
      case c
      then have "n div 8 = 2" "n mod 8 = n - 16" "23 - n = 7 - (n - 16)" "23 - n < 8" by (simp_all add: div_nat_eqI mod_if)
      then show ?thesis using True by (simp add: v)
    qed
  qed simp
  finally show ?thesis .
qed

definition Conformance_valid :: "Conformance \<Rightarrow> bool" where
  "Conformance_valid c \<longleftrightarrow> conf_bits c AND 0x00FFFFFF = conf_bits c"

lemma Conformance_valid_bits: "Conformance_valid c \<Longrightarrow> bit (conf_bits c) n \<Longrightarrow> n < 24"
  unfolding Conformance_valid_def by (metis bit_24 bit_and_iff)

lemma Conformance_round_trip: "Conformance_valid c \<Longrightarrow> Conformance_from_bytes (Conformance_to_bytes c) = c"
proof -
  assume c: "Conformance_valid c"
  have "conf_bits (Conformance_from_bytes (Conformance_to_bytes c)) = conf_bits c"
    by (rule bit_word_eqI) (use c Conformance_valid_bits to_bytes_bits in \<open>auto simp: from_bytes_bits\<close>)
  then show ?thesis by (cases c) (metis Conformance.collapse Conformance.sel)
qed

lemma length_to_bytes [simp]: "length (Conformance_to_bytes c) = 3"
  by (simp add: Conformance_to_bytes_def Let_def)

subsection \<open>Reading back\<close>

lemma decodes_u8_bind: "decodes (k b) bs y \<Longrightarrow> decodes (try_bind Reader_u8 k) (b # bs) y"
  by (rule decodes_bind_eq [OF decodes_u8]) simp_all

lemma codes_conformance [codes_intro]:
  assumes "Conformance_valid c"
  shows "codes fin (Conformance_encode_tagged c) Conformance_decode_tagged (\<lambda>y. y = c)"
proof (rule codes_prim)
  show "writes (Conformance_encode_tagged c) (0x5F # 0x1F # 4 # 0 # Conformance_to_bytes c)"
    unfolding Conformance_encode_tagged_def using writes_seq [OF writes_bytes [of "[0x5F, 0x1F, 4, 0]"] writes_bytes] by simp
  show "decodes Conformance_decode_tagged (0x5F # 0x1F # 4 # 0 # Conformance_to_bytes c) c"
    unfolding Conformance_decode_tagged_def
    by (auto intro!: decodes_u8_bind decodes_map_eq [OF decodes_array] simp: Conformance_round_trip [OF assms])
qed

lemma codes_flagged [codes_intro]:
  "codes fin (case v of None \<Rightarrow> write_u8 0 | Some v \<Rightarrow> try_bind (write_u8 1) (\<lambda>_. write_u8 v))
    (try_bind Reader_u8 (\<lambda>f. if f = 0 then ok None else try_bind Reader_u8 (\<lambda>v. ok (Some v)))) (\<lambda>y. y = v)"
  "codes fin (case b of None \<Rightarrow> write_u8 0 | Some v \<Rightarrow> try_bind (write_u8 1) (\<lambda>_. write_u8 (of_bool v)))
    (try_bind Reader_u8 (\<lambda>f. if f = 0 then ok None else try_bind Reader_u8 (\<lambda>v. ok (Some (v \<noteq> 0))))) (\<lambda>y. y = b)"
  by (cases v; auto intro!: codes_eq [OF codes_u8] codes_last [OF codes_u8] simp del: ok_apply)
    (cases b; auto intro!: codes_eq [OF codes_u8] codes_last [OF codes_u8] simp del: ok_apply)

lemma codes_key_option [codes_intro]:
  "pred_option short_field k \<Longrightarrow> codes fin (encode_optional write_length_prefixed k) (decode_optional Reader_length_prefixed) (\<lambda>y. y = k)"
  unfolding encode_optional_def decode_optional_def
  by (cases k) (auto intro!: codes_last [OF codes_u8] codes_eq [OF codes_u8] codes_map [OF codes_prefixed] simp del: ok_apply)

definition InitiateRequest_valid :: "InitiateRequest \<Rightarrow> bool" where
  "InitiateRequest_valid q \<longleftrightarrow> pred_option short_field (ir_dedicated_key q) \<and> Conformance_valid (ir_proposed_conformance q)"

definition InitiateResponse_valid :: "InitiateResponse \<Rightarrow> bool" where
  "InitiateResponse_valid p \<longleftrightarrow> Conformance_valid (is_negotiated_conformance p)"

lemma codes_initiate_request [codes_intro]:
  "InitiateRequest_valid q \<Longrightarrow> codes fin (InitiateRequest_encode q) InitiateRequest_decode (\<lambda>y. y = q)"
  unfolding InitiateRequest_encode_def InitiateRequest_decode_def InitiateRequest_valid_def
  by (intro codes_eq [OF codes_key_option] codes_eq [OF codes_flagged(2)] codes_eq [OF codes_flagged(1)] codes_eq [OF codes_u8]
    codes_eq [OF codes_conformance] codes_map [OF codes_u16]) auto

lemma codes_initiate_response [codes_intro]:
  "InitiateResponse_valid p \<Longrightarrow> codes fin (InitiateResponse_encode p) InitiateResponse_decode (\<lambda>y. y = p)"
  unfolding InitiateResponse_encode_def InitiateResponse_decode_def InitiateResponse_valid_def
  by (intro codes_eq [OF codes_flagged(1)] codes_eq [OF codes_u8] codes_eq [OF codes_conformance] codes_eq [OF codes_u16]
    codes_map [OF codes_u16]) auto

definition ExceptionResponse_valid :: "ExceptionResponse \<Rightarrow> bool" where
  "ExceptionResponse_valid x \<longleftrightarrow>
     StateError_from_u8 (StateError_as_u8 (er_state_error x)) = er_state_error x \<and>
     ServiceError_from_u8 (ServiceError_as_u8 (er_service_error x)) = er_service_error x \<and>
     (er_expected_invocation_counter x \<noteq> None \<longrightarrow> er_service_error x = SvInvocationCounterError)"

lemma codes_exception [codes_intro]:
  assumes "ExceptionResponse_valid x"
  shows "codes True (ExceptionResponse_encode x) ExceptionResponse_decode (\<lambda>y. y = x)"
proof -
  let ?svc = "ServiceError_as_u8 (er_service_error x)"
  let ?tail = "\<lambda>r. if ServiceError_from_u8 ?svc = SvInvocationCounterError \<and> Reader_remaining r \<ge> 4
      then try_bind Reader_u32 (\<lambda>ic. ok (Some ic)) r else ok None r"
  have tail: "codes True (case er_expected_invocation_counter x of None \<Rightarrow> ok () | Some ic \<Rightarrow> write_u32 ic) ?tail
      (\<lambda>y. y = er_expected_invocation_counter x)"
  proof (cases "er_expected_invocation_counter x")
    case None
    have "decodes_sat True ?tail [] (\<lambda>y. y = None)"
      by (auto simp: decodes_sat_def Reader_remaining_def Reader_rest_def)
    with None show ?thesis unfolding codes_def using writes_ok by (auto simp del: ok_apply)
  next
    case (Some ic)
    then have svc: "ServiceError_from_u8 ?svc = SvInvocationCounterError"
      using assms by (auto simp: ExceptionResponse_valid_def ServiceError_from_u8_def)
    have "decodes (try_bind Reader_u32 (\<lambda>ic. ok (Some ic))) (be_bytes 4 ic) (Some ic)" by (rule decodes_map [OF decodes_u32])
    moreover have "Reader_remaining r \<ge> 4" if "rd_wf r" "Reader_rest r = be_bytes 4 ic @ rest" for r rest
    proof -
      have "Reader_remaining r = length (Reader_rest r)" by (simp add: Reader_remaining_def Reader_rest_def)
      with that show ?thesis by simp
    qed
    ultimately have "decodes_sat True ?tail (be_bytes 4 ic) (\<lambda>y. y = Some ic)"
      using svc by (auto simp: decodes_sat_def decodes_def decodes_at_def)
    with Some show ?thesis unfolding codes_def using writes_u32 by fastforce
  qed
  show ?thesis
    unfolding ExceptionResponse_encode_def ExceptionResponse_decode_def
    by (intro codes_eq [OF codes_u8], rule codes_map [OF tail]) (use assms in \<open>auto simp: ExceptionResponse_valid_def\<close>)
qed

lemma codes_confirmed_error [codes_intro]:
  "codes fin (ConfirmedServiceError_encode x) ConfirmedServiceError_decode (\<lambda>y. y = x)"
proof (rule codes_prim)
  show "writes (ConfirmedServiceError_encode x) [cse_service x, cse_error_class x, cse_error_code x]"
    by (simp add: ConfirmedServiceError_encode_def writes_bytes)
  show "decodes ConfirmedServiceError_decode [cse_service x, cse_error_class x, cse_error_code x] x"
    unfolding ConfirmedServiceError_decode_def by (auto intro!: decodes_u8_bind decodes_ok_eq simp del: ok_apply)
qed

lemma local_remaining: "(\<And>k. local_op (f k)) \<Longrightarrow> local_op (\<lambda>r. f (Reader_remaining r) r)"
proof -
  have "Reader_remaining (probe_of r) = Reader_remaining r" for r by (simp add: Reader_remaining_def probe_of_def Reader_with_base_def Reader_rest_def)
  then show "(\<And>k. local_op (f k)) \<Longrightarrow> local_op (\<lambda>r. f (Reader_remaining r) r)" unfolding local_op_def by fastforce
qed

lemma local_initiate [local_intro]:
  "local_op Conformance_decode_tagged" "local_op InitiateRequest_decode" "local_op InitiateResponse_decode" "local_op ConfirmedServiceError_decode"
  unfolding Conformance_decode_tagged_def InitiateRequest_decode_def InitiateResponse_decode_def ConfirmedServiceError_decode_def
  by (intro local_intro)+

lemma safe_initiate [safe_intro]:
  "safe_dec n Conformance_decode_tagged" "safe_dec n InitiateRequest_decode" "safe_dec n InitiateResponse_decode" "safe_dec n ConfirmedServiceError_decode"
proof -
  show c: "safe_dec n Conformance_decode_tagged" for n unfolding Conformance_decode_tagged_def by (auto intro!: safe_u8_bind safe_intro)
  show "safe_dec n InitiateRequest_decode" "safe_dec n InitiateResponse_decode" "safe_dec n ConfirmedServiceError_decode"
    unfolding InitiateRequest_decode_def InitiateResponse_decode_def ConfirmedServiceError_decode_def by (intro safe_intro c)+
qed

lemma safe_exception [safe_intro]: "safe_dec n ExceptionResponse_decode"
proof -
  have "safe_dec n (\<lambda>r. if ServiceError_from_u8 s = SvInvocationCounterError \<and> Reader_remaining r \<ge> 4
      then try_bind Reader_u32 (\<lambda>ic. ok (Some ic)) r else ok None r)" for n s
    using safe_state [where f = "\<lambda>r0. if ServiceError_from_u8 s = SvInvocationCounterError \<and> Reader_remaining r0 \<ge> 4
      then try_bind Reader_u32 (\<lambda>ic. ok (Some ic)) else ok None" and n = n]
    by (simp add: if_distrib [of "\<lambda>f. f _"] safe_intro cong: if_cong del: ok_apply)
  then show ?thesis unfolding ExceptionResponse_decode_def by (intro safe_intro)
qed

lemma contains_flag: "n < 24 \<Longrightarrow> Conformance_contains x (flag n) \<longleftrightarrow> bit (conf_bits x) n"
proof -
  assume n: "n < 24"
  have f: "bit (push_bit n 1 :: u32) j \<longleftrightarrow> j = n" for j using n unfolding bit_push_bit_iff bit_1_iff by auto
  show ?thesis unfolding Conformance_contains_def flag_def Conformance.sel
  proof
    assume "conf_bits x AND push_bit n 1 = push_bit n 1"
    then have "bit (conf_bits x AND push_bit n 1) n = bit (push_bit n 1 :: u32) n" by (rule arg_cong)
    then show "bit (conf_bits x) n" unfolding bit_and_iff f by simp
  next
    assume "bit (conf_bits x) n"
    then show "conf_bits x AND push_bit n 1 = push_bit n 1" by (intro bit_word_eqI) (unfold bit_and_iff f, auto)
  qed
qed

lemma negotiate_bits: "bit (conf_bits (Conformance_negotiate c d)) n \<longleftrightarrow> n < 24 \<and> bit (conf_bits c) n \<and> bit (conf_bits d) n"
  unfolding Conformance_negotiate_def Conformance_from_bits_truncate_def Conformance.sel bit_and_iff bit_24 by auto

subsection \<open>Properties\<close>

text \<open>The conformance block goes over the wire in the order the standard numbers its bits: bit \<open>n\<close> of the flags is bit \<open>n\<close>
  counted from the most significant bit of the first byte, in both directions; reading back is exact; and what two ends negotiate is
  a service exactly when both proposed it.\<close>

theorem conformance_bits_on_the_wire:
  "(n < 24 \<longrightarrow> bit (conf_bits c) n = bit (Conformance_to_bytes c ! (n div 8)) (7 - n mod 8)) \<and>
   (bit (conf_bits (Conformance_from_bytes b)) n \<longleftrightarrow> n < 24 \<and> bit (b ! (n div 8)) (7 - n mod 8)) \<and>
   (Conformance_valid c \<longrightarrow> Conformance_from_bytes (Conformance_to_bytes c) = c) \<and>
   (n < 24 \<longrightarrow> Conformance_contains (Conformance_negotiate c d) (flag n) = (Conformance_contains c (flag n) \<and> Conformance_contains d (flag n)))"
  using to_bytes_bits [of n c] from_bytes_bits [of b n] Conformance_round_trip [of c] by (simp add: negotiate_bits contains_flag)

theorem conformance_bits_on_the_wire_witness:
  "Conformance_to_bytes GET = [0, 0, 0x10] \<and> bit (conf_bits GET) 19 = bit (Conformance_to_bytes GET ! 2) 4"
proof -
  have "Conformance_to_bytes GET = [0, 0, 0x10]" by code_simp
  with conformance_bits_on_the_wire [of 19 GET] show ?thesis by simp
qed

end
