(* ===== verification/AccessNotify.thy ===== *)
theory AccessNotify
  imports Initiate
begin

text \<open>
  The ACCESS service, which batches reads, writes and invocations (\<^verbatim>\<open>src/src/xdlms/access.rs\<close>), and the notifications a
  meter sends unasked (\<^verbatim>\<open>src/src/xdlms/notify.rs\<close>).
\<close>

subsection \<open>Notifications\<close>

type_synonym OptionalDateTime = "DateTime option"

definition OptionalDateTime_encode :: "OptionalDateTime \<Rightarrow> (writer, unit) op" where
  "OptionalDateTime_encode t = (case t of None \<Rightarrow> write_length 0 | Some dt \<Rightarrow> write_length_prefixed (DateTime_to_bytes dt))"

definition OptionalDateTime_decode :: "(Reader, OptionalDateTime) op" where
  "OptionalDateTime_decode = try_bind Reader_length_prefixed (\<lambda>b.
     if length b = 0 then ok None
     else if length b = 12 then ok (Some (DateTime_from_bytes b))
     else rd_fail InvalidLength)"

record DataNotification =
  dn_long_invoke_id :: LongInvokeId
  dn_date_time :: OptionalDateTime
  dn_body :: Data

definition DataNotification_encode :: "DataNotification \<Rightarrow> (writer, unit) op" where
  "DataNotification_encode d =
     try_bind (write_u32 (long_invoke_word (dn_long_invoke_id d))) (\<lambda>_.
     try_bind (OptionalDateTime_encode (dn_date_time d)) (\<lambda>_.
     Data_encode (dn_body d)))"

definition DataNotification_decode :: "(Reader, DataNotification) op" where
  "DataNotification_decode =
     try_bind Reader_u32 (\<lambda>i. try_bind OptionalDateTime_decode (\<lambda>t. try_bind Data_decode (\<lambda>b.
       ok \<lparr>dn_long_invoke_id = LongInvokeId i, dn_date_time = t, dn_body = b\<rparr>)))"

definition DateTimeOctets_encode :: "DateTime \<Rightarrow> (writer, unit) op" where
  "DateTimeOctets_encode t = write_length_prefixed (DateTime_to_bytes t)"

definition DateTimeOctets_decode :: "(Reader, DateTime) op" where
  "DateTimeOctets_decode = try_bind Reader_length_prefixed (\<lambda>b.
     if length b = 12 then ok (DateTime_from_bytes b) else rd_fail InvalidLength)"

record EventNotification =
  en_time :: "DateTime option"
  en_descriptor :: AttributeDescriptor
  en_value :: Data

definition EventNotification_encode :: "EventNotification \<Rightarrow> (writer, unit) op" where
  "EventNotification_encode e =
     try_bind (encode_optional DateTimeOctets_encode (en_time e)) (\<lambda>_.
     try_bind (AttributeDescriptor_encode (en_descriptor e)) (\<lambda>_.
     Data_encode (en_value e)))"

definition EventNotification_decode :: "(Reader, EventNotification) op" where
  "EventNotification_decode =
     try_bind (decode_optional DateTimeOctets_decode) (\<lambda>t. try_bind AttributeDescriptor_decode (\<lambda>d. try_bind Data_decode (\<lambda>v.
       ok \<lparr>en_time = t, en_descriptor = d, en_value = v\<rparr>)))"

subsection \<open>ACCESS\<close>

definition MAX_ACCESS_ITEMS :: nat where
  "MAX_ACCESS_ITEMS = 64"

datatype AccessRequestSpecification =
    ArsGet AttributeDescriptor
  | ArsSet AttributeDescriptor
  | ArsAction MethodDescriptor
  | ArsGetWithSelection AttributeDescriptorWithSelection
  | ArsSetWithSelection AttributeDescriptorWithSelection

fun AccessRequestSpecification_encode :: "AccessRequestSpecification \<Rightarrow> (writer, unit) op" where
  "AccessRequestSpecification_encode (ArsGet d) = try_bind (write_u8 1) (\<lambda>_. AttributeDescriptor_encode d)"
| "AccessRequestSpecification_encode (ArsSet d) = try_bind (write_u8 2) (\<lambda>_. AttributeDescriptor_encode d)"
| "AccessRequestSpecification_encode (ArsAction d) = try_bind (write_u8 3) (\<lambda>_. MethodDescriptor_encode d)"
| "AccessRequestSpecification_encode (ArsGetWithSelection d) = try_bind (write_u8 4) (\<lambda>_. AttributeDescriptorWithSelection_encode d)"
| "AccessRequestSpecification_encode (ArsSetWithSelection d) = try_bind (write_u8 5) (\<lambda>_. AttributeDescriptorWithSelection_encode d)"

definition AccessRequestSpecification_decode :: "(Reader, AccessRequestSpecification) op" where
  "AccessRequestSpecification_decode = try_bind Reader_u8 (\<lambda>choice.
     if choice = 1 then try_bind AttributeDescriptor_decode (\<lambda>d. ok (ArsGet d))
     else if choice = 2 then try_bind AttributeDescriptor_decode (\<lambda>d. ok (ArsSet d))
     else if choice = 3 then try_bind MethodDescriptor_decode (\<lambda>d. ok (ArsAction d))
     else if choice = 4 then try_bind AttributeDescriptorWithSelection_decode (\<lambda>d. ok (ArsGetWithSelection d))
     else if choice = 5 then try_bind AttributeDescriptorWithSelection_decode (\<lambda>d. ok (ArsSetWithSelection d))
     else rd_fail_back (InvalidTag choice) 1)"

datatype AccessResponseSpecification =
    AspGet DataAccessResult
  | AspSet DataAccessResult
  | AspAction ActionResult

fun AccessResponseSpecification_encode :: "AccessResponseSpecification \<Rightarrow> (writer, unit) op" where
  "AccessResponseSpecification_encode (AspGet v) = write_bytes [1, DataAccessResult_as_u8 v]"
| "AccessResponseSpecification_encode (AspSet v) = write_bytes [2, DataAccessResult_as_u8 v]"
| "AccessResponseSpecification_encode (AspAction v) = write_bytes [3, ActionResult_as_u8 v]"

definition AccessResponseSpecification_decode :: "(Reader, AccessResponseSpecification) op" where
  "AccessResponseSpecification_decode = try_bind Reader_u8 (\<lambda>choice.
     if choice = 1 then try_bind Reader_u8 (\<lambda>v. ok (AspGet (DataAccessResult_from_u8 v)))
     else if choice = 2 then try_bind Reader_u8 (\<lambda>v. ok (AspSet (DataAccessResult_from_u8 v)))
     else if choice = 3 then try_bind Reader_u8 (\<lambda>v. ok (AspAction (ActionResult_from_u8 v)))
     else rd_fail_back (InvalidTag choice) 1)"

record AccessRequest =
  aq_long_invoke_id :: LongInvokeId
  aq_date_time :: OptionalDateTime
  aq_specification :: WireList
  aq_data :: WireList

definition AccessRequest_encode :: "AccessRequest \<Rightarrow> (writer, unit) op" where
  "AccessRequest_encode a =
     try_bind (write_u32 (long_invoke_word (aq_long_invoke_id a))) (\<lambda>_.
     try_bind (OptionalDateTime_encode (aq_date_time a)) (\<lambda>_.
     try_bind (List_encode (aq_specification a)) (\<lambda>_.
     List_encode (aq_data a))))"

definition AccessRequest_decode :: "(Reader, AccessRequest) op" where
  "AccessRequest_decode =
     try_bind Reader_u32 (\<lambda>i. try_bind OptionalDateTime_decode (\<lambda>t.
     try_bind (List_decode AccessRequestSpecification_decode) (\<lambda>s. try_bind (List_decode Data_decode) (\<lambda>d.
       ok \<lparr>aq_long_invoke_id = LongInvokeId i, aq_date_time = t, aq_specification = s, aq_data = d\<rparr>))))"

record AccessResponse =
  as_long_invoke_id :: LongInvokeId
  as_date_time :: OptionalDateTime
  as_request_specification :: "WireList option"
  as_data :: WireList
  as_response_specification :: WireList

definition AccessResponse_encode :: "AccessResponse \<Rightarrow> (writer, unit) op" where
  "AccessResponse_encode a =
     try_bind (write_u32 (long_invoke_word (as_long_invoke_id a))) (\<lambda>_.
     try_bind (OptionalDateTime_encode (as_date_time a)) (\<lambda>_.
     try_bind (encode_optional List_encode (as_request_specification a)) (\<lambda>_.
     try_bind (List_encode (as_data a)) (\<lambda>_.
     List_encode (as_response_specification a)))))"

definition AccessResponse_decode :: "(Reader, AccessResponse) op" where
  "AccessResponse_decode =
     try_bind Reader_u32 (\<lambda>i. try_bind OptionalDateTime_decode (\<lambda>t.
     try_bind (decode_optional (List_decode AccessRequestSpecification_decode)) (\<lambda>q.
     try_bind (List_decode Data_decode) (\<lambda>d. try_bind (List_decode AccessResponseSpecification_decode) (\<lambda>s.
       ok \<lparr>as_long_invoke_id = LongInvokeId i, as_date_time = t, as_request_specification = q, as_data = d,
          as_response_specification = s\<rparr>)))))"

subsection \<open>Reading back\<close>

definition DataNotification_valid :: "DataNotification \<Rightarrow> bool" where
  "DataNotification_valid d \<longleftrightarrow> Data_valid (dn_body d)"

definition DataNotification_abs :: "DataNotification \<Rightarrow> DataNotification" where
  "DataNotification_abs d = d\<lparr>dn_body := Data_abs (dn_body d)\<rparr>"

definition EventNotification_valid :: "EventNotification \<Rightarrow> bool" where
  "EventNotification_valid e \<longleftrightarrow> AttributeDescriptor_valid (en_descriptor e) \<and> Data_valid (en_value e)"

definition EventNotification_abs :: "EventNotification \<Rightarrow> EventNotification" where
  "EventNotification_abs e = e\<lparr>en_value := Data_abs (en_value e)\<rparr>"

fun AccessRequestSpecification_valid :: "AccessRequestSpecification \<Rightarrow> bool" where
  "AccessRequestSpecification_valid (ArsGet d) \<longleftrightarrow> AttributeDescriptor_valid d"
| "AccessRequestSpecification_valid (ArsSet d) \<longleftrightarrow> AttributeDescriptor_valid d"
| "AccessRequestSpecification_valid (ArsAction d) \<longleftrightarrow> MethodDescriptor_valid d"
| "AccessRequestSpecification_valid (ArsGetWithSelection d) \<longleftrightarrow> AttributeDescriptorWithSelection_valid d"
| "AccessRequestSpecification_valid (ArsSetWithSelection d) \<longleftrightarrow> AttributeDescriptorWithSelection_valid d"

fun AccessRequestSpecification_abs :: "AccessRequestSpecification \<Rightarrow> AccessRequestSpecification" where
  "AccessRequestSpecification_abs (ArsGetWithSelection d) = ArsGetWithSelection (AttributeDescriptorWithSelection_abs d)"
| "AccessRequestSpecification_abs (ArsSetWithSelection d) = ArsSetWithSelection (AttributeDescriptorWithSelection_abs d)"
| "AccessRequestSpecification_abs s = s"

fun AccessResponseSpecification_valid :: "AccessResponseSpecification \<Rightarrow> bool" where
  "AccessResponseSpecification_valid (AspGet v) \<longleftrightarrow> DataAccessResult_valid v"
| "AccessResponseSpecification_valid (AspSet v) \<longleftrightarrow> DataAccessResult_valid v"
| "AccessResponseSpecification_valid (AspAction v) \<longleftrightarrow> ActionResult_valid v"

definition AccessRequest_valid :: "AccessRequest \<Rightarrow> bool" where
  "AccessRequest_valid a \<longleftrightarrow> WireList_valid AccessRequestSpecification_decode (aq_specification a) \<and> WireList_valid Data_decode (aq_data a)"

definition AccessRequest_abs :: "AccessRequest \<Rightarrow> AccessRequest" where
  "AccessRequest_abs a = a\<lparr>aq_specification := WireList_abs (aq_specification a), aq_data := WireList_abs (aq_data a)\<rparr>"

definition AccessResponse_valid :: "AccessResponse \<Rightarrow> bool" where
  "AccessResponse_valid a \<longleftrightarrow> pred_option (WireList_valid AccessRequestSpecification_decode) (as_request_specification a) \<and>
     WireList_valid Data_decode (as_data a) \<and> WireList_valid AccessResponseSpecification_decode (as_response_specification a)"

definition AccessResponse_abs :: "AccessResponse \<Rightarrow> AccessResponse" where
  "AccessResponse_abs a = a\<lparr>as_request_specification := map_option WireList_abs (as_request_specification a),
     as_data := WireList_abs (as_data a), as_response_specification := WireList_abs (as_response_specification a)\<rparr>"

lemma codes_date_time [codes_intro]: "codes fin (OptionalDateTime_encode t) OptionalDateTime_decode (\<lambda>y. y = t)"
proof (cases t)
  case None
  have "codes fin (write_length 0) Reader_length_prefixed (\<lambda>y. y = [])"
    by (rule codes_prim [OF _ decodes_prefixed]) (use writes_length [of 0] in \<open>auto simp: prefixed_def short_field_def\<close>)
  with None show ?thesis unfolding OptionalDateTime_encode_def OptionalDateTime_decode_def
    by (auto intro!: codes_last simp del: ok_apply)
next
  case (Some dt)
  moreover have "DateTime_to_bytes dt \<noteq> []" using DateTime_bytes_inverse(2) [of dt] by force
  ultimately show ?thesis unfolding OptionalDateTime_encode_def OptionalDateTime_decode_def
    by (auto intro!: codes_last [OF codes_prefixed] simp: short_field_def simp del: ok_apply)
qed

lemma codes_date_time_octets [codes_intro]: "codes fin (DateTimeOctets_encode t) DateTimeOctets_decode (\<lambda>y. y = t)"
  unfolding DateTimeOctets_encode_def DateTimeOctets_decode_def
  by (auto intro!: codes_last [OF codes_prefixed] simp: short_field_def simp del: ok_apply)

lemma codes_date_time_option [codes_intro]:
  "codes fin (encode_optional DateTimeOctets_encode t) (decode_optional DateTimeOctets_decode) (\<lambda>y. y = t)"
  using codes_optional [where view = id and x = t, of fin DateTimeOctets_encode DateTimeOctets_decode] codes_date_time_octets
  by (simp add: option.map_id)

lemma codes_notification [codes_intro]:
  "DataNotification_valid d \<Longrightarrow> codes fin (DataNotification_encode d) DataNotification_decode (\<lambda>y. DataNotification_abs y = DataNotification_abs d)"
  "EventNotification_valid e \<Longrightarrow> codes fin (EventNotification_encode e) EventNotification_decode (\<lambda>y. EventNotification_abs y = EventNotification_abs e)"
  unfolding DataNotification_encode_def DataNotification_decode_def DataNotification_valid_def DataNotification_abs_def
    EventNotification_encode_def EventNotification_decode_def EventNotification_valid_def EventNotification_abs_def
  by (auto intro!: codes_exact_field codes_eq [OF codes_date_time] codes_eq [OF codes_date_time_option] codes_map [OF codes_Data])

lemma codes_access_specification [codes_intro]:
  "AccessRequestSpecification_valid s \<Longrightarrow> codes fin (AccessRequestSpecification_encode s) AccessRequestSpecification_decode
    (\<lambda>y. AccessRequestSpecification_abs y = AccessRequestSpecification_abs s)"
  unfolding AccessRequestSpecification_decode_def
  by (cases s) (auto intro!: codes_exact_field codes_map [OF codes_attribute_descriptor] codes_map [OF codes_method_descriptor]
    codes_map [OF codes_descriptor_with_selection])

lemma codes_access_result [codes_intro]:
  assumes "AccessResponseSpecification_valid s"
  shows "codes fin (AccessResponseSpecification_encode s) AccessResponseSpecification_decode (\<lambda>y. y = s)"
  using assms unfolding AccessResponseSpecification_decode_def
  by (cases s; simp only: AccessResponseSpecification_encode.simps; intro codes_prim [OF writes_bytes])
    (auto intro!: decodes_u8_bind decodes_ok_eq simp: DataAccessResult_valid_def ActionResult_valid_def simp del: ok_apply)

lemma local_access [local_intro]:
  "local_op OptionalDateTime_decode" "local_op DateTimeOctets_decode" "local_op DataNotification_decode" "local_op EventNotification_decode"
  "local_op AccessRequestSpecification_decode" "local_op AccessResponseSpecification_decode" "local_op AccessRequest_decode"
  "local_op AccessResponse_decode"
  unfolding OptionalDateTime_decode_def DateTimeOctets_decode_def DataNotification_decode_def EventNotification_decode_def
    AccessRequestSpecification_decode_def AccessResponseSpecification_decode_def AccessRequest_decode_def AccessResponse_decode_def
  by (intro local_intro)+

lemma codes_access [codes_intro]:
  "AccessRequest_valid q \<Longrightarrow> codes fin (AccessRequest_encode q) AccessRequest_decode (\<lambda>y. AccessRequest_abs y = AccessRequest_abs q)"
  "AccessResponse_valid p \<Longrightarrow> codes fin (AccessResponse_encode p) AccessResponse_decode (\<lambda>y. AccessResponse_abs y = AccessResponse_abs p)"
  unfolding AccessRequest_encode_def AccessRequest_decode_def AccessRequest_valid_def AccessRequest_abs_def
    AccessResponse_encode_def AccessResponse_decode_def AccessResponse_valid_def AccessResponse_abs_def
  by (auto intro!: codes_exact_field codes_eq [OF codes_date_time] codes_field codes_last_field local_intro
      codes_bind [OF codes_optional [where view = WireList_abs, OF codes_list]])

lemma safe_access [safe_intro]:
  "safe_dec n OptionalDateTime_decode" "safe_dec n DateTimeOctets_decode" "safe_dec n DataNotification_decode" "safe_dec n EventNotification_decode"
  "safe_dec n AccessRequestSpecification_decode" "safe_dec n AccessResponseSpecification_decode" "safe_dec n AccessRequest_decode"
  "safe_dec n AccessResponse_decode"
proof -
  show t: "safe_dec n OptionalDateTime_decode" and t': "safe_dec n DateTimeOctets_decode" for n
    unfolding OptionalDateTime_decode_def DateTimeOctets_decode_def by (intro safe_intro)+
  show q: "safe_dec n AccessRequestSpecification_decode" and p: "safe_dec n AccessResponseSpecification_decode" for n
    unfolding AccessRequestSpecification_decode_def AccessResponseSpecification_decode_def by (auto intro!: safe_u8_bind safe_intro)
  show "safe_dec n DataNotification_decode" "safe_dec n EventNotification_decode" "safe_dec n AccessRequest_decode" "safe_dec n AccessResponse_decode"
    unfolding DataNotification_decode_def EventNotification_decode_def AccessRequest_decode_def AccessResponse_decode_def
    by (intro safe_intro t t' q p local_intro)+
qed

interpretation access_request: wire_type AccessRequestSpecification_encode AccessRequestSpecification_decode
  AccessRequestSpecification_valid AccessRequestSpecification_abs
  by unfold_locales (intro codes_intro local_intro safe_intro | assumption)+

interpretation access_result: wire_type AccessResponseSpecification_encode AccessResponseSpecification_decode
  AccessResponseSpecification_valid "\<lambda>x. x"
  by unfold_locales (intro codes_intro local_intro safe_intro | assumption)+

end
