(* ===== verification/Ber.thy ===== *)
theory Ber
  imports Codec
begin

text \<open>
  The BER subset of \<^verbatim>\<open>src/src/ber.rs\<close>: tag-length-value elements with single-byte identifiers and definite
  lengths, the iterator over them, and the writer of constructed elements that measures its body first.
\<close>

record Tlv =
  tlv_tag :: u8
  tlv_value :: bytes
  tlv_offset :: nat

definition Tlv_is_constructed :: "Tlv \<Rightarrow> bool" where
  "Tlv_is_constructed t \<longleftrightarrow> tlv_tag t AND 0x20 \<noteq> 0"

definition Tlv_context_number :: "Tlv \<Rightarrow> u8 option" where
  "Tlv_context_number t = (if tlv_tag t AND 0xC0 = 0x80 then Some (tlv_tag t AND 0x1F) else None)"

definition Tlv_reader :: "Tlv \<Rightarrow> Reader" where
  "Tlv_reader t = Reader_with_base (tlv_value t) (tlv_offset t)"

definition Tlv_as_u8 :: "Tlv \<Rightarrow> u8 result" where
  "Tlv_as_u8 t = (case tlv_value t of [v] \<Rightarrow> Inr v | _ \<Rightarrow> Inl (Error_new InvalidLength (tlv_offset t)))"

text \<open>
  The length loop: \<^verbatim>\<open>checked_shl(8)\<close> fails only for a shift as wide as the word, so it keeps the low 64 bits;
  \<^verbatim>\<open>checked_add\<close> fails on overflow.
\<close>

fun ber_len_loop :: "u64 \<Rightarrow> bytes \<Rightarrow> u64 option" where
  "ber_len_loop v [] = Some v"
| "ber_len_loop v (b # bs) =
     (let v' = push_bit 8 v in
      if unat v' + unat b < 2 ^ 64 then ber_len_loop (v' + ucast b) bs else None)"

definition read_tlv :: "(Reader, Tlv) op" where
  "read_tlv =
     try_bind Reader_u8 (\<lambda>tag.
     if tag AND 0x1F = 0x1F then rd_fail_back (InvalidTag tag) 1
     else try_bind Reader_u8 (\<lambda>first.
       try_bind
         (if first < 0x80 then ok (unat first)
          else let n = unat (first AND 0x7F) in
            if n = 0 \<or> n > 4 then rd_fail_back InvalidLength 1
            else try_bind (Reader_take n) (\<lambda>b.
              case ber_len_loop 0 b of
                None \<Rightarrow> rd_fail_back InvalidLength n
              | Some v \<Rightarrow> ok (unat v)))
         (\<lambda>len r. let offset = Reader_offset r in
           try_bind (Reader_take len) (\<lambda>value.
             ok \<lparr>tlv_tag = tag, tlv_value = value, tlv_offset = offset\<rparr>) r)))"

definition write_len :: "nat \<Rightarrow> (writer, unit) op" where
  "write_len len =
     (if len < 0x80 then write_u8 (of_nat len)
      else let be = be_bytes 8 (of_nat len :: u64);
               first = (case position (\<lambda>b. b \<noteq> 0) be of Some i \<Rightarrow> i | None \<Rightarrow> 7);
               n = 8 - first
           in if n > 4 then (\<lambda>w. (Inl (Error_new InvalidLength (written w)), w))
              else try_bind (write_u8 (0x80 OR of_nat n)) (\<lambda>_. write_bytes (drop first be)))"

definition write_tlv :: "u8 \<Rightarrow> bytes \<Rightarrow> (writer, unit) op" where
  "write_tlv tag value =
     try_bind (write_u8 tag) (\<lambda>_. try_bind (write_len (length value)) (\<lambda>_. write_bytes value))"

text \<open>The body closure runs twice: on a counting writer for the length, then on the real one.\<close>

definition write_constructed :: "u8 \<Rightarrow> (writer, unit) op \<Rightarrow> (writer, unit) op" where
  "write_constructed tag f w =
     (case f (CountW 0) of
        (Inl e, _) \<Rightarrow> (Inl e, w)
      | (Inr _, counter) \<Rightarrow>
          try_bind (write_u8 tag) (\<lambda>_. try_bind (write_len (written counter)) (\<lambda>_. f)) w)"

subsection \<open>Reading an element is reading a length-prefixed string\<close>

lemma ber_len_loop_eq:
  assumes "length bs \<le> k" "k \<le> 8" "unat v < 256 ^ (8 - k)"
  shows "ber_len_loop v bs = Some (foldl shl8_or v bs)"
  using assms
proof (induction bs arbitrary: v k)
  case (Cons b bs)
  define j where "j = 8 - k"
  have k: "0 < k" "8 - (k - 1) = Suc j" using Cons.prems by (auto simp: j_def)
  have "unat v * 256 < 256 ^ Suc j" using Cons.prems(3) by (simp add: j_def)
  have le: "unat v * 256 + unat b < 256 ^ Suc j"
  proof -
    have "unat v * 256 + unat b < (unat v + 1) * 256" using unat_u8_less [of b] by simp
    also have "\<dots> \<le> 256 ^ j * 256" using Cons.prems(3) by (intro mult_right_mono) (auto simp: j_def)
    finally show ?thesis by simp
  qed
  have j8: "Suc j \<le> 8" using Cons.prems by (auto simp: j_def)
  then have "(256::nat) ^ Suc j \<le> 256 ^ 8" by (intro power_increasing) auto
  with le have lt: "unat v * 256 + unat b < 2 ^ 64" by simp
  have push: "unat (push_bit 8 v) = unat v * 256"
    using lt by (simp add: push_bit_eq_mult unat_word_ariths)
  have shl: "unat (shl8_or v b) = unat v * 256 + unat b" using lt by (simp add: shl8_or_unat)
  have eq: "push_bit 8 v + ucast b = shl8_or v b"
    using lt push shl by (intro word_unat_eq_iff [THEN iffD2]) (simp add: unat_word_ariths unsigned_ucast_eq take_bit_eq_mod)
  have "ber_len_loop (shl8_or v b) bs = Some (foldl shl8_or (shl8_or v b) bs)"
    using Cons.prems k le shl by (intro Cons.IH [of "k - 1"]) auto
  then show ?case using lt by (simp add: push eq Let_def)
qed simp

lemma ber_len_loop_word: "length bs \<le> 4 \<Longrightarrow> ber_len_loop 0 bs = Some (be_word bs)"
  unfolding be_word_def by (rule ber_len_loop_eq [of _ 8]) auto

lemma write_len_eq: "write_len = write_length"
  by (simp add: write_len_def write_length_def fun_eq_iff)

text \<open>Once the identifier octet is accepted, reading a BER element is reading an A-XDR length-prefixed
  string: the same lengths are accepted, refused and measured, error for error and cursor for cursor.\<close>

theorem read_tlv_is_length_prefixed:
  "read_tlv = try_bind Reader_u8 (\<lambda>tag.
     if tag AND 0x1F = 0x1F then rd_fail_back (InvalidTag tag) 1
     else try_bind Reader_length (\<lambda>len r.
       try_bind (Reader_take len) (\<lambda>value.
         ok \<lparr>tlv_tag = tag, tlv_value = value, tlv_offset = Reader_offset r\<rparr>) r))"
proof -
  have step: "(if first < 0x80 then ok (unat first)
      else let n = unat (first AND 0x7F) in
        if n = 0 \<or> n > 4 then rd_fail_back InvalidLength 1
        else try_bind (Reader_take n) (\<lambda>b.
          case ber_len_loop 0 b of None \<Rightarrow> rd_fail_back InvalidLength n | Some v \<Rightarrow> ok (unat v)))
    = (if first < 0x80 then ok (unat first)
      else let n = unat (first AND 0x7F) in
        if n = 0 \<or> n > 4 then rd_fail_back InvalidLength 1
        else try_bind (Reader_take n) (\<lambda>b. ok (unat (be_word b :: u64))))" for first :: u8
  proof -
    have "try_bind (Reader_take n) (\<lambda>b. case ber_len_loop 0 b of None \<Rightarrow> rd_fail_back InvalidLength n | Some v \<Rightarrow> ok (unat v))
        = try_bind (Reader_take n) (\<lambda>b. ok (unat (be_word b :: u64)))" if "n \<le> 4" for n
    proof
      fix r
      show "try_bind (Reader_take n) (\<lambda>b. case ber_len_loop 0 b of None \<Rightarrow> rd_fail_back InvalidLength n | Some v \<Rightarrow> ok (unat v)) r
        = try_bind (Reader_take n) (\<lambda>b. ok (unat (be_word b :: u64))) r"
        using that Reader_take_length [of n r]
        by (auto simp: try_bind_def ber_len_loop_word split: sum.splits prod.splits)
    qed
    then show ?thesis by (simp add: Let_def)
  qed
  show ?thesis
    unfolding read_tlv_def step unfolding Reader_length_def try_bind_assoc Let_def ..
qed

subsection \<open>Iterating over the elements of a buffer\<close>

lemma read_tlv_consumes:
  assumes "rd_wf r" "\<not> Reader_is_empty r" "read_tlv r = (res, r')"
  shows "rd_pos r < rd_pos r'" "rd_wf r'" "rd_buf r' = rd_buf r"
proof -
  obtain b bs where rest: "Reader_rest r = b # bs"
    using assms(1,2) by (cases "Reader_rest r") (auto simp: Reader_is_empty_def Reader_remaining_def Reader_rest_def)
  have wf: "rd_wf (rd_advance 1 r)" using rest_append(1) [OF assms(1), of "[b]" bs] rest by simp
  define k where "k tag = (if tag AND 0x1F = 0x1F then rd_fail_back (InvalidTag tag) 1
     else try_bind Reader_length (\<lambda>len r. try_bind (Reader_take len) (\<lambda>value.
         ok \<lparr>tlv_tag = tag, tlv_value = value, tlv_offset = Reader_offset r\<rparr>) r))" for tag :: u8
  have "safe_dec 1 (\<lambda>r. try_bind (Reader_take len) (\<lambda>value. ok \<lparr>tlv_tag = tag, tlv_value = value, tlv_offset = Reader_offset r\<rparr>) r)"
    for len tag
    by (rule safe_state [where f = "\<lambda>r0. try_bind (Reader_take len) (\<lambda>value.
        ok \<lparr>tlv_tag = tag, tlv_value = value, tlv_offset = Reader_offset r0\<rparr>)"]) (intro safe_intro)
  then have "safe_dec 1 (k tag)" for tag
    unfolding k_def by (intro safe_intro) auto
  moreover have "k b (rd_advance 1 r) = (res, r')"
    using assms(3) rest unfolding read_tlv_is_length_prefixed k_def by (simp add: try_bind_def Reader_u8_eq)
  ultimately show "rd_pos r < rd_pos r'" "rd_wf r'" "rd_buf r' = rd_buf r"
    using safe_decD [of 1 "k b" "rd_advance 1 r" res r'] wf by auto
qed

text \<open>
  The iterator yields errors too and goes on behind them; it ends because every call on a non-empty
  reader consumes at least the identifier octet.
\<close>

function tlv_items :: "Reader \<Rightarrow> Tlv result list" where
  "tlv_items r =
     (if \<not> rd_wf r \<or> Reader_is_empty r then [] else fst (read_tlv r) # tlv_items (snd (read_tlv r)))"
  by pat_completeness auto
termination
proof (relation "measure (\<lambda>r. length (rd_buf r) - rd_pos r)")
  fix r assume "\<not> (\<not> rd_wf r \<or> Reader_is_empty r)"
  then show "(snd (read_tlv r), r) \<in> measure (\<lambda>r. length (rd_buf r) - rd_pos r)"
    using read_tlv_consumes [of r "fst (read_tlv r)" "snd (read_tlv r)"]
    by (auto simp: rd_wf_def)
qed simp

declare tlv_items.simps [simp del]

definition iter_tlv :: "bytes \<Rightarrow> nat \<Rightarrow> Tlv result list" where
  "iter_tlv b base = tlv_items (Reader_with_base b base)"

definition tlv_image :: "u8 \<Rightarrow> bytes \<Rightarrow> bytes" where
  "tlv_image tag value = tag # len_bytes (length value) @ value"

lemma writes_tlv [writes_intro]:
  "length value < 2 ^ 32 \<Longrightarrow> writes (write_tlv tag value) (tlv_image tag value)"
  unfolding write_tlv_def tlv_image_def write_len_eq
  using writes_seq [OF writes_u8 writes_seq [OF writes_length writes_bytes]] by simp

lemma writes_constructed [writes_intro]:
  assumes "writes f body" "length body < 2 ^ 32"
  shows "writes (write_constructed tag f) (tlv_image tag body)"
proof -
  have "f (CountW 0) = (Inr (), CountW (length body))"
    using writes_room [OF assms(1), of "CountW 0"] by simp
  then have "write_constructed tag f = try_bind (write_u8 tag) (\<lambda>_. try_bind (write_length (length body)) (\<lambda>_. f))"
    by (simp add: write_constructed_def write_len_eq fun_eq_iff)
  then show ?thesis
    using writes_seq [OF writes_u8 writes_seq [OF writes_length [OF assms(2)] assms(1)]] by (simp add: tlv_image_def)
qed

lemma read_tlv_image:
  assumes "rd_wf r" "Reader_rest r = tlv_image tag value @ rest" "tag AND 0x1F \<noteq> 0x1F" "length value < 2 ^ 32"
  shows "read_tlv r = (Inr \<lparr>tlv_tag = tag, tlv_value = value,
      tlv_offset = Reader_offset r + (1 + length (len_bytes (length value)))\<rparr>, rd_advance (length (tlv_image tag value)) r)"
proof -
  have "decodes_at (\<lambda>r. try_bind (Reader_take (length value)) (\<lambda>v. ok \<lparr>tlv_tag = tag, tlv_value = v, tlv_offset = Reader_offset r\<rparr>) r)
      value (\<lambda>off. \<lparr>tlv_tag = tag, tlv_value = value, tlv_offset = off\<rparr>)"
    by (auto simp: decodes_at_def try_bind_def Reader_take_eq)
  then have "decodes_at (try_bind Reader_u8 (\<lambda>tag. if tag AND 0x1F = 0x1F then rd_fail_back (InvalidTag tag) 1
     else try_bind Reader_length (\<lambda>len r. try_bind (Reader_take len) (\<lambda>value.
         ok \<lparr>tlv_tag = tag, tlv_value = value, tlv_offset = Reader_offset r\<rparr>) r)))
      ([tag] @ len_bytes (length value) @ value)
      (\<lambda>off. \<lparr>tlv_tag = tag, tlv_value = value, tlv_offset = off + length [tag] + length (len_bytes (length value))\<rparr>)"
    using assms(3,4) decodes_u8 [of tag] decodes_length [OF assms(4)] unfolding decodes_def
    by (intro decodes_at_bind [where f = "\<lambda>_. tag" and g = "\<lambda>_ off. \<lparr>tlv_tag = tag, tlv_value = value,
          tlv_offset = off + length (len_bytes (length value))\<rparr>"])
      (auto intro: decodes_at_bind [where f = "\<lambda>_. length value" and g = "\<lambda>_ off. \<lparr>tlv_tag = tag, tlv_value = value, tlv_offset = off\<rparr>"])
  then show ?thesis
    using assms(1,2) unfolding read_tlv_is_length_prefixed decodes_at_def
    by (simp add: tlv_image_def add.assoc)
qed

lemma iter_tlv_elements:
  assumes "\<forall>(tag, value)\<in>set ts. tag AND 0x1F \<noteq> 0x1F \<and> length value < 2 ^ 32"
  shows "map (map_sum id (\<lambda>t. (tlv_tag t, tlv_value t)))
      (iter_tlv (concat (map (\<lambda>(tag, value). tlv_image tag value) ts)) base) = map Inr ts"
proof -
  have "map (map_sum id (\<lambda>t. (tlv_tag t, tlv_value t))) (tlv_items r) = map Inr ts"
    if "rd_wf r" "Reader_rest r = concat (map (\<lambda>(tag, value). tlv_image tag value) ts)" for r
    using assms that
  proof (induction ts arbitrary: r)
    case Nil
    then have "Reader_is_empty r" by (simp add: Reader_is_empty_def Reader_remaining_def Reader_rest_def)
    then show ?case by (subst tlv_items.simps) simp
  next
    case (Cons t ts)
    obtain tag val where t: "t = (tag, val)" by fastforce
    define rest where "rest = concat (map (\<lambda>(tag, value). tlv_image tag value) ts)"
    have r: "Reader_rest r = tlv_image tag val @ rest" using Cons.prems t by (simp add: rest_def)
    have "\<not> Reader_is_empty r"
      using r by (auto simp: Reader_is_empty_def Reader_remaining_def Reader_rest_def tlv_image_def)
    moreover note run = read_tlv_image [OF Cons.prems(2) r]
    have "map (map_sum id (\<lambda>t. (tlv_tag t, tlv_value t))) (tlv_items (rd_advance (length (tlv_image tag val)) r)) = map Inr ts"
      using Cons.prems(1) rest_append [OF Cons.prems(2) r] by (intro Cons.IH) (simp_all add: rest_def)
    ultimately show ?case
      using run Cons.prems(1,2) t by (subst tlv_items.simps) simp
  qed
  then show ?thesis
    by (simp add: iter_tlv_def Reader_with_base_def rd_wf_def Reader_rest_def)
qed

end
