(* ===== verification/Acse.thy ===== *)
theory Acse
  imports Ber Ciphered
begin

text \<open>
  Opening and releasing an association, \<^verbatim>\<open>src/src/acse.rs\<close>: the application context, the authentication mechanism, the four
  ACSE APDUs and their BER encodings.
\<close>

subsection \<open>Names and outcomes\<close>

definition OID_PREFIX :: bytes where
  "OID_PREFIX = [0x60, 0x85, 0x74, 0x05, 0x08]"

datatype Referencing = RefLogicalName | RefShortName

datatype ApplicationContext = CtxLogicalName | CtxShortName | CtxLogicalNameCiphered | CtxShortNameCiphered | CtxOther u8

fun ApplicationContext_arc :: "ApplicationContext \<Rightarrow> u8" where
  "ApplicationContext_arc CtxLogicalName = 1"
| "ApplicationContext_arc CtxShortName = 2"
| "ApplicationContext_arc CtxLogicalNameCiphered = 3"
| "ApplicationContext_arc CtxShortNameCiphered = 4"
| "ApplicationContext_arc (CtxOther v) = v"

definition ApplicationContext_from_arc :: "u8 \<Rightarrow> ApplicationContext" where
  "ApplicationContext_from_arc v =
     (if v = 1 then CtxLogicalName else if v = 2 then CtxShortName else if v = 3 then CtxLogicalNameCiphered
      else if v = 4 then CtxShortNameCiphered else CtxOther v)"

definition ApplicationContext_is_ciphered :: "ApplicationContext \<Rightarrow> bool" where
  "ApplicationContext_is_ciphered c \<longleftrightarrow> c = CtxLogicalNameCiphered \<or> c = CtxShortNameCiphered"

definition ApplicationContext_is_logical_name :: "ApplicationContext \<Rightarrow> bool" where
  "ApplicationContext_is_logical_name c \<longleftrightarrow> c = CtxLogicalName \<or> c = CtxLogicalNameCiphered"

fun ApplicationContext_for_referencing :: "Referencing \<Rightarrow> bool \<Rightarrow> ApplicationContext" where
  "ApplicationContext_for_referencing RefLogicalName False = CtxLogicalName"
| "ApplicationContext_for_referencing RefLogicalName True = CtxLogicalNameCiphered"
| "ApplicationContext_for_referencing RefShortName False = CtxShortName"
| "ApplicationContext_for_referencing RefShortName True = CtxShortNameCiphered"

definition ApplicationContext_referencing :: "ApplicationContext \<Rightarrow> Referencing" where
  "ApplicationContext_referencing c = (if ApplicationContext_is_logical_name c then RefLogicalName else RefShortName)"

definition ApplicationContext_with_ciphering :: "ApplicationContext \<Rightarrow> bool \<Rightarrow> ApplicationContext" where
  "ApplicationContext_with_ciphering c ciphered =
     (case (ApplicationContext_is_logical_name c, ciphered) of
        (True, False) \<Rightarrow> CtxLogicalName
      | (True, True) \<Rightarrow> CtxLogicalNameCiphered
      | (False, False) \<Rightarrow> CtxShortName
      | (False, True) \<Rightarrow> CtxShortNameCiphered)"

datatype AuthMechanism =
    AmNone | AmLow | AmHighManufacturer | AmHighMd5 | AmHighSha1 | AmHighGmac | AmHighSha256 | AmHighEcdsa | AmOther u8

fun AuthMechanism_arc :: "AuthMechanism \<Rightarrow> u8" where
  "AuthMechanism_arc AmNone = 0"
| "AuthMechanism_arc AmLow = 1"
| "AuthMechanism_arc AmHighManufacturer = 2"
| "AuthMechanism_arc AmHighMd5 = 3"
| "AuthMechanism_arc AmHighSha1 = 4"
| "AuthMechanism_arc AmHighGmac = 5"
| "AuthMechanism_arc AmHighSha256 = 6"
| "AuthMechanism_arc AmHighEcdsa = 7"
| "AuthMechanism_arc (AmOther v) = v"

definition AuthMechanism_from_arc :: "u8 \<Rightarrow> AuthMechanism" where
  "AuthMechanism_from_arc v =
     (if v = 0 then AmNone else if v = 1 then AmLow else if v = 2 then AmHighManufacturer else if v = 3 then AmHighMd5
      else if v = 4 then AmHighSha1 else if v = 5 then AmHighGmac else if v = 6 then AmHighSha256 else if v = 7 then AmHighEcdsa
      else AmOther v)"

definition AuthMechanism_is_high_level :: "AuthMechanism \<Rightarrow> bool" where
  "AuthMechanism_is_high_level m \<longleftrightarrow> \<not> (m = AmNone \<or> m = AmLow)"

datatype AssociationResult = ArAccepted | ArRejectedPermanent | ArRejectedTransient | ArOther u8

definition AssociationResult_from_u8 :: "u8 \<Rightarrow> AssociationResult" where
  "AssociationResult_from_u8 v =
     (if v = 0 then ArAccepted else if v = 1 then ArRejectedPermanent else if v = 2 then ArRejectedTransient else ArOther v)"

fun AssociationResult_as_u8 :: "AssociationResult \<Rightarrow> u8" where
  "AssociationResult_as_u8 ArAccepted = 0"
| "AssociationResult_as_u8 ArRejectedPermanent = 1"
| "AssociationResult_as_u8 ArRejectedTransient = 2"
| "AssociationResult_as_u8 (ArOther v) = v"

datatype UserDiagnostic =
    UdNull | UdNoReasonGiven | UdApplicationContextNameNotSupported | UdAuthenticationMechanismNameNotRecognised
  | UdAuthenticationMechanismNameRequired | UdAuthenticationFailure | UdAuthenticationRequired | UdOther u8

datatype Diagnostic = DiagUser UserDiagnostic | DiagProvider u8

definition UserDiagnostic_from_u8 :: "u8 \<Rightarrow> UserDiagnostic" where
  "UserDiagnostic_from_u8 v =
     (if v = 0 then UdNull else if v = 1 then UdNoReasonGiven else if v = 2 then UdApplicationContextNameNotSupported
      else if v = 11 then UdAuthenticationMechanismNameNotRecognised else if v = 12 then UdAuthenticationMechanismNameRequired
      else if v = 13 then UdAuthenticationFailure else if v = 14 then UdAuthenticationRequired else UdOther v)"

fun UserDiagnostic_as_u8 :: "UserDiagnostic \<Rightarrow> u8" where
  "UserDiagnostic_as_u8 UdNull = 0"
| "UserDiagnostic_as_u8 UdNoReasonGiven = 1"
| "UserDiagnostic_as_u8 UdApplicationContextNameNotSupported = 2"
| "UserDiagnostic_as_u8 UdAuthenticationMechanismNameNotRecognised = 11"
| "UserDiagnostic_as_u8 UdAuthenticationMechanismNameRequired = 12"
| "UserDiagnostic_as_u8 UdAuthenticationFailure = 13"
| "UserDiagnostic_as_u8 UdAuthenticationRequired = 14"
| "UserDiagnostic_as_u8 (UdOther v) = v"

datatype ReleaseReason = RrNormal | RrUrgent | RrUserDefined | RrOther u8

definition ReleaseReason_from_u8 :: "u8 \<Rightarrow> ReleaseReason" where
  "ReleaseReason_from_u8 v = (if v = 0 then RrNormal else if v = 1 then RrUrgent else if v = 30 then RrUserDefined else RrOther v)"

fun ReleaseReason_as_u8 :: "ReleaseReason \<Rightarrow> u8" where
  "ReleaseReason_as_u8 RrNormal = 0"
| "ReleaseReason_as_u8 RrUrgent = 1"
| "ReleaseReason_as_u8 RrUserDefined = 30"
| "ReleaseReason_as_u8 (RrOther v) = v"

subsection \<open>Object identifiers and wrapped octets\<close>

definition oid :: "u8 \<Rightarrow> u8 \<Rightarrow> bytes" where
  "oid branch arc = OID_PREFIX @ [branch, arc]"

definition check_oid_prefix :: "bytes \<Rightarrow> nat \<Rightarrow> u8 result" where
  "check_oid_prefix v offset =
     (if length v \<noteq> 7 \<or> take 5 v \<noteq> OID_PREFIX then Inl (Error_new InvalidValue offset) else Inr (v ! 6))"

definition oid_arc :: "Tlv \<Rightarrow> u8 result" where
  "oid_arc tlv = (case fst (read_tlv (Tlv_reader tlv)) of
     Inl e \<Rightarrow> Inl e
   | Inr inner \<Rightarrow> if tlv_tag inner \<noteq> 0x06 then Inl (Error_new (InvalidTag (tlv_tag inner)) (tlv_offset inner))
       else check_oid_prefix (tlv_value inner) (tlv_offset inner))"

definition implicit_oid_arc :: "Tlv \<Rightarrow> u8 result" where
  "implicit_oid_arc tlv = check_oid_prefix (tlv_value tlv) (tlv_offset tlv)"

definition inner_octets :: "Tlv \<Rightarrow> u8 \<Rightarrow> bytes result" where
  "inner_octets tlv expected =
     (if \<not> Tlv_is_constructed tlv then Inr (tlv_value tlv)
      else case fst (read_tlv (Tlv_reader tlv)) of
        Inl e \<Rightarrow> Inl e
      | Inr inner \<Rightarrow> if tlv_tag inner \<noteq> expected then Inl (Error_new (InvalidTag (tlv_tag inner)) (tlv_offset inner))
          else Inr (tlv_value inner))"

definition authentication_bit :: "bytes \<Rightarrow> bool" where
  "authentication_bit v \<longleftrightarrow> 1 < length v \<and> v ! 1 AND 0x80 \<noteq> 0"

text \<open>
  \<^verbatim>\<open>if let Some(v) = field { write(v)?; }\<close>; the loop over the elements of a constructed value, which stops at the first error;
  and the shape the four decoders share: one element of the right tag, then the loop over its contents.
\<close>

definition when_some :: "('a \<Rightarrow> (writer, unit) op) \<Rightarrow> 'a option \<Rightarrow> (writer, unit) op" where
  "when_some f x = (case x of None \<Rightarrow> ok () | Some v \<Rightarrow> f v)"

fun fold_fields :: "('o \<Rightarrow> Tlv \<Rightarrow> 'o result) \<Rightarrow> 'o \<Rightarrow> Tlv result list \<Rightarrow> 'o result" where
  "fold_fields field out [] = Inr out"
| "fold_fields field out (Inl e # ts) = Inl e"
| "fold_fields field out (Inr t # ts) = (case field out t of Inl e \<Rightarrow> Inl e | Inr out' \<Rightarrow> fold_fields field out' ts)"

definition decode_fields :: "u8 \<Rightarrow> ('o \<Rightarrow> Tlv \<Rightarrow> 'o result) \<Rightarrow> 'o \<Rightarrow> (Reader, 'o) op" where
  "decode_fields tag field dflt = try_bind read_tlv (\<lambda>outer r.
     if tlv_tag outer \<noteq> tag then (Inl (Error_new (InvalidTag (tlv_tag outer)) (tlv_offset outer)), r)
     else (fold_fields field dflt (iter_tlv (tlv_value outer) (tlv_offset outer)), r))"

subsection \<open>The association request\<close>

record Aarq =
  aarq_application_context :: "ApplicationContext option"
  aarq_called_ap_title :: "bytes option"
  aarq_calling_ap_title :: "bytes option"
  aarq_calling_ae_qualifier :: "bytes option"
  aarq_sender_acse_requirements :: bool
  aarq_mechanism_name :: "AuthMechanism option"
  aarq_calling_authentication_value :: "bytes option"
  aarq_user_information :: "bytes option"

definition Aarq_default :: Aarq where
  "Aarq_default = \<lparr>aarq_application_context = None, aarq_called_ap_title = None, aarq_calling_ap_title = None,
     aarq_calling_ae_qualifier = None, aarq_sender_acse_requirements = False, aarq_mechanism_name = None,
     aarq_calling_authentication_value = None, aarq_user_information = None\<rparr>"

definition Aarq_encode :: "Aarq \<Rightarrow> (writer, unit) op" where
  "Aarq_encode a = write_constructed 0x60
     (try_bind (when_some (\<lambda>ctx. write_constructed 0xA1 (write_tlv 0x06 (oid 1 (ApplicationContext_arc ctx)))) (aarq_application_context a)) (\<lambda>_.
      try_bind (when_some (\<lambda>t. write_constructed 0xA2 (write_tlv 0x04 t)) (aarq_called_ap_title a)) (\<lambda>_.
      try_bind (when_some (\<lambda>t. write_constructed 0xA6 (write_tlv 0x04 t)) (aarq_calling_ap_title a)) (\<lambda>_.
      try_bind (when_some (\<lambda>q. write_constructed 0xA7 (write_tlv 0x04 q)) (aarq_calling_ae_qualifier a)) (\<lambda>_.
      try_bind (if aarq_sender_acse_requirements a then write_tlv 0x8A [0x07, 0x80] else ok ()) (\<lambda>_.
      try_bind (when_some (\<lambda>m. write_tlv 0x8B (oid 2 (AuthMechanism_arc m))) (aarq_mechanism_name a)) (\<lambda>_.
      try_bind (when_some (\<lambda>v. write_constructed 0xAC (write_tlv 0x80 v)) (aarq_calling_authentication_value a)) (\<lambda>_.
      try_bind (when_some (\<lambda>u. write_constructed 0xBE (write_tlv 0x04 u)) (aarq_user_information a)) (\<lambda>_.
      ok ())))))))))"

definition Aarq_field :: "Aarq \<Rightarrow> Tlv \<Rightarrow> Aarq result" where
  "Aarq_field out tlv = (case Tlv_context_number tlv of
     Some n \<Rightarrow>
       if n = 1 then map_sum id (\<lambda>v. out\<lparr>aarq_application_context := Some (ApplicationContext_from_arc v)\<rparr>) (oid_arc tlv)
       else if n = 2 then map_sum id (\<lambda>v. out\<lparr>aarq_called_ap_title := Some v\<rparr>) (inner_octets tlv 0x04)
       else if n = 6 then map_sum id (\<lambda>v. out\<lparr>aarq_calling_ap_title := Some v\<rparr>) (inner_octets tlv 0x04)
       else if n = 7 then map_sum id (\<lambda>v. out\<lparr>aarq_calling_ae_qualifier := Some v\<rparr>) (inner_octets tlv 0x04)
       else if n = 10 then Inr (out\<lparr>aarq_sender_acse_requirements := authentication_bit (tlv_value tlv)\<rparr>)
       else if n = 11 then map_sum id (\<lambda>v. out\<lparr>aarq_mechanism_name := Some (AuthMechanism_from_arc v)\<rparr>) (implicit_oid_arc tlv)
       else if n = 12 then map_sum id (\<lambda>v. out\<lparr>aarq_calling_authentication_value := Some v\<rparr>) (inner_octets tlv 0x80)
       else if n = 30 then map_sum id (\<lambda>v. out\<lparr>aarq_user_information := Some v\<rparr>) (inner_octets tlv 0x04)
       else Inr out
   | None \<Rightarrow> Inr out)"

definition Aarq_decode :: "(Reader, Aarq) op" where
  "Aarq_decode = decode_fields 0x60 Aarq_field Aarq_default"

subsection \<open>The answer\<close>

record Aare =
  aare_application_context :: "ApplicationContext option"
  aare_result :: AssociationResult
  aare_diagnostic :: Diagnostic
  aare_responding_ap_title :: "bytes option"
  aare_responder_acse_requirements :: bool
  aare_mechanism_name :: "AuthMechanism option"
  aare_responding_authentication_value :: "bytes option"
  aare_user_information :: "bytes option"

definition Aare_default :: Aare where
  "Aare_default = \<lparr>aare_application_context = None, aare_result = ArAccepted, aare_diagnostic = DiagUser UdNull,
     aare_responding_ap_title = None, aare_responder_acse_requirements = False, aare_mechanism_name = None,
     aare_responding_authentication_value = None, aare_user_information = None\<rparr>"

definition Aare_is_accepted :: "Aare \<Rightarrow> bool" where
  "Aare_is_accepted a \<longleftrightarrow> aare_result a = ArAccepted"

definition Aare_encode :: "Aare \<Rightarrow> (writer, unit) op" where
  "Aare_encode a = write_constructed 0x61
     (try_bind (when_some (\<lambda>ctx. write_constructed 0xA1 (write_tlv 0x06 (oid 1 (ApplicationContext_arc ctx)))) (aare_application_context a)) (\<lambda>_.
      try_bind (write_constructed 0xA2 (write_tlv 0x02 [AssociationResult_as_u8 (aare_result a)])) (\<lambda>_.
      try_bind (write_constructed 0xA3 (case aare_diagnostic a of
          DiagUser d \<Rightarrow> write_constructed 0xA1 (write_tlv 0x02 [UserDiagnostic_as_u8 d])
        | DiagProvider d \<Rightarrow> write_constructed 0xA2 (write_tlv 0x02 [d]))) (\<lambda>_.
      try_bind (when_some (\<lambda>t. write_constructed 0xA4 (write_tlv 0x04 t)) (aare_responding_ap_title a)) (\<lambda>_.
      try_bind (if aare_responder_acse_requirements a then write_tlv 0x88 [0x07, 0x80] else ok ()) (\<lambda>_.
      try_bind (when_some (\<lambda>m. write_tlv 0x89 (oid 2 (AuthMechanism_arc m))) (aare_mechanism_name a)) (\<lambda>_.
      try_bind (when_some (\<lambda>v. write_constructed 0xAA (write_tlv 0x80 v)) (aare_responding_authentication_value a)) (\<lambda>_.
      try_bind (when_some (\<lambda>u. write_constructed 0xBE (write_tlv 0x04 u)) (aare_user_information a)) (\<lambda>_.
      ok ())))))))))"

definition Aare_field :: "Aare \<Rightarrow> Tlv \<Rightarrow> Aare result" where
  "Aare_field out tlv = (case Tlv_context_number tlv of
     Some n \<Rightarrow>
       if n = 1 then map_sum id (\<lambda>v. out\<lparr>aare_application_context := Some (ApplicationContext_from_arc v)\<rparr>) (oid_arc tlv)
       else if n = 2 then (case fst (read_tlv (Tlv_reader tlv)) of
           Inl e \<Rightarrow> Inl e
         | Inr inner \<Rightarrow> map_sum id (\<lambda>v. out\<lparr>aare_result := AssociationResult_from_u8 v\<rparr>) (Tlv_as_u8 inner))
       else if n = 3 then (case fst (read_tlv (Tlv_reader tlv)) of
           Inl e \<Rightarrow> Inl e
         | Inr inner \<Rightarrow> (case fst (read_tlv (Tlv_reader inner)) of
             Inl e \<Rightarrow> Inl e
           | Inr leaf \<Rightarrow> map_sum id (\<lambda>v. out\<lparr>aare_diagnostic :=
               (if Tlv_context_number inner = Some 1 then DiagUser (UserDiagnostic_from_u8 v) else DiagProvider v)\<rparr>) (Tlv_as_u8 leaf)))
       else if n = 4 then map_sum id (\<lambda>v. out\<lparr>aare_responding_ap_title := Some v\<rparr>) (inner_octets tlv 0x04)
       else if n = 8 then Inr (out\<lparr>aare_responder_acse_requirements := authentication_bit (tlv_value tlv)\<rparr>)
       else if n = 9 then map_sum id (\<lambda>v. out\<lparr>aare_mechanism_name := Some (AuthMechanism_from_arc v)\<rparr>) (implicit_oid_arc tlv)
       else if n = 10 then map_sum id (\<lambda>v. out\<lparr>aare_responding_authentication_value := Some v\<rparr>) (inner_octets tlv 0x80)
       else if n = 30 then map_sum id (\<lambda>v. out\<lparr>aare_user_information := Some v\<rparr>) (inner_octets tlv 0x04)
       else Inr out
   | None \<Rightarrow> Inr out)"

definition Aare_decode :: "(Reader, Aare) op" where
  "Aare_decode = decode_fields 0x61 Aare_field Aare_default"

subsection \<open>Release\<close>

text \<open>Request and confirmation have the same fields and, through one macro, the same code up to the tag.\<close>

record Release =
  rl_reason :: "ReleaseReason option"
  rl_user_information :: "bytes option"

type_synonym Rlrq = Release
type_synonym Rlre = Release

definition Release_default :: Release where
  "Release_default = \<lparr>rl_reason = None, rl_user_information = None\<rparr>"

definition release_encode :: "u8 \<Rightarrow> Release \<Rightarrow> (writer, unit) op" where
  "release_encode tag a = write_constructed tag
     (try_bind (when_some (\<lambda>reason. write_tlv 0x80 [ReleaseReason_as_u8 reason]) (rl_reason a)) (\<lambda>_.
      try_bind (when_some (\<lambda>u. write_constructed 0xBE (write_tlv 0x04 u)) (rl_user_information a)) (\<lambda>_.
      ok ())))"

definition Release_field :: "Release \<Rightarrow> Tlv \<Rightarrow> Release result" where
  "Release_field out tlv = (case Tlv_context_number tlv of
     Some n \<Rightarrow>
       if n = 0 then map_sum id (\<lambda>v. out\<lparr>rl_reason := Some (ReleaseReason_from_u8 v)\<rparr>) (Tlv_as_u8 tlv)
       else if n = 30 then map_sum id (\<lambda>v. out\<lparr>rl_user_information := Some v\<rparr>) (inner_octets tlv 0x04)
       else Inr out
   | None \<Rightarrow> Inr out)"

definition release_decode :: "u8 \<Rightarrow> (Reader, Release) op" where
  "release_decode tag = decode_fields tag Release_field Release_default"

definition Rlrq_encode :: "Rlrq \<Rightarrow> (writer, unit) op" where
  "Rlrq_encode = release_encode 0x62"

definition Rlrq_decode :: "(Reader, Rlrq) op" where
  "Rlrq_decode = release_decode 0x62"

definition Rlre_encode :: "Rlre \<Rightarrow> (writer, unit) op" where
  "Rlre_encode = release_encode 0x63"

definition Rlre_decode :: "(Reader, Rlre) op" where
  "Rlre_decode = release_decode 0x63"

subsection \<open>Elements in a row\<close>

definition elements :: "(u8 \<times> bytes) list \<Rightarrow> bytes" where
  "elements ts = concat (map (\<lambda>(tag, v). tlv_image tag v) ts)"

definition part :: "('a \<Rightarrow> u8 \<times> bytes) \<Rightarrow> 'a option \<Rightarrow> (u8 \<times> bytes) list" where
  "part p x = (case x of None \<Rightarrow> [] | Some v \<Rightarrow> [p v])"

lemma elements_simps [simp]:
  "elements [] = []" "elements ((t, v) # ts) = tlv_image t v @ elements ts" "elements (a @ b) = elements a @ elements b"
  by (simp_all add: elements_def)

lemma length_elements: "(t, v) \<in> set ts \<Longrightarrow> length v < length (elements ts)"
  by (induction ts) (auto simp: elements_def tlv_image_def)

lemma length_tlv_image: "length v < length (tlv_image t v)"
  by (simp add: tlv_image_def)

lemma writes_part:
  assumes "\<And>v. x = Some v \<Longrightarrow> writes (f v) (elements [p v])"
  shows "writes (when_some f x) (elements (part p x))"
  using assms writes_ok by (cases x) (auto simp: when_some_def part_def)

abbreviation what_of :: "Tlv result \<Rightarrow> Error + u8 \<times> bytes" where
  "what_of \<equiv> map_sum id (\<lambda>t. (tlv_tag t, tlv_value t))"

text \<open>\<open>reads_as field ts out out'\<close>: the loop over elements with these tags and contents, wherever they lie, goes from \<open>out\<close> to \<open>out'\<close>.\<close>

definition reads_as :: "('o \<Rightarrow> Tlv \<Rightarrow> 'o result) \<Rightarrow> (u8 \<times> bytes) list \<Rightarrow> 'o \<Rightarrow> 'o \<Rightarrow> bool" where
  "reads_as field ts out out' \<longleftrightarrow>
     (\<forall>items rest. map what_of items = map Inr ts \<longrightarrow>
        fold_fields field out (items @ rest) = fold_fields field out' rest)"

lemma reads_asE: "reads_as field ts out out' \<Longrightarrow> map what_of items = map Inr ts \<Longrightarrow>
    fold_fields field out (items @ rest) = fold_fields field out' rest"
  by (simp add: reads_as_def)

lemma reads_asD: "reads_as field ts out out' \<Longrightarrow> map what_of items = map Inr ts \<Longrightarrow> fold_fields field out items = Inr out'"
  using reads_asE [of field ts out out' items "[]"] by simp

lemma reads_as_append:
  assumes a: "reads_as f a o1 o2" and b: "reads_as f b o2 o3"
  shows "reads_as f (a @ b) o1 o3"
  unfolding reads_as_def
proof (intro allI impI)
  fix items rest assume all: "map what_of items = map Inr (a @ b)"
  have "map what_of (take (length a) items) = map Inr a" "map what_of (drop (length a) items) = map Inr b"
    unfolding take_map [symmetric] drop_map [symmetric] all by (simp_all add: take_map drop_map)
  then have "fold_fields f o1 (take (length a) items @ drop (length a) items @ rest) = fold_fields f o3 rest"
    using reads_asE [OF a] reads_asE [OF b] by simp
  then show "fold_fields f o1 (items @ rest) = fold_fields f o3 rest" by (simp flip: append_assoc)
qed

lemma reads_as_part:
  assumes "x = None \<Longrightarrow> out' = out"
    and "\<And>v off. x = Some v \<Longrightarrow> field out \<lparr>tlv_tag = fst (p v), tlv_value = snd (p v), tlv_offset = off\<rparr> = Inr out'"
  shows "reads_as field (part p x) out out'"
proof (cases x)
  case (Some v)
  have "fold_fields field out (t # rest) = fold_fields field out' rest"
    if t: "what_of t = Inr (p v)" for t rest
  proof -
    obtain u where "t = Inr u" "tlv_tag u = fst (p v)" "tlv_value u = snd (p v)" using t by (cases t; cases "p v") auto
    then have "t = Inr \<lparr>tlv_tag = fst (p v), tlv_value = snd (p v), tlv_offset = tlv_offset u\<rparr>" by simp
    then show ?thesis using assms(2) [OF Some] by simp
  qed
  then show ?thesis using Some by (auto simp: part_def reads_as_def)
qed (use assms(1) in \<open>simp add: part_def reads_as_def\<close>)

lemma reads_as_one:
  assumes "\<And>off. field out \<lparr>tlv_tag = t, tlv_value = v, tlv_offset = off\<rparr> = Inr out'"
  shows "reads_as field [(t, v)] out out'"
  using reads_as_part [of "Some ()" out' out field "\<lambda>_. (t, v)"] assms by (simp add: part_def)

lemma decodes_fields:
  assumes "tag AND 0x1F \<noteq> 0x1F" "length (elements ts) < 2 ^ 32" "\<forall>(t, v)\<in>set ts. t AND 0x1F \<noteq> 0x1F"
    and "reads_as field ts dflt out"
  shows "decodes (decode_fields tag field dflt) (tlv_image tag (elements ts)) out"
proof -
  have "\<forall>(t, v)\<in>set ts. t AND 0x1F \<noteq> 0x1F \<and> length v < 2 ^ 32" using assms(2,3) length_elements [of _ _ ts] by fastforce
  then have "map what_of (iter_tlv (elements ts) base) = map Inr ts" for base
    unfolding elements_def by (rule iter_tlv_elements)
  then have "fold_fields field dflt (iter_tlv (elements ts) base) = Inr out" for base
    by (rule reads_asD [OF assms(4)])
  then show ?thesis
    by (auto simp: decodes_def decodes_at_def decode_fields_def try_bind_def read_tlv_image [OF _ _ assms(1,2)])
qed

subsection \<open>Reading back\<close>

lemma inner_octets_image:
  assumes "tag AND 0x20 \<noteq> 0" "inner AND 0x1F \<noteq> 0x1F" "length v < 2 ^ 32"
  shows "inner_octets \<lparr>tlv_tag = tag, tlv_value = tlv_image inner v, tlv_offset = off\<rparr> inner = Inr v"
  using assms read_tlv_image [of "Reader_with_base (tlv_image inner v) off" inner v "[]"]
  by (simp add: inner_octets_def Tlv_is_constructed_def Tlv_reader_def)

lemma first_image:
  assumes "inner AND 0x1F \<noteq> 0x1F" "length v < 2 ^ 32"
  shows "\<exists>off'. fst (read_tlv (Tlv_reader \<lparr>tlv_tag = tag, tlv_value = tlv_image inner v, tlv_offset = off\<rparr>)) =
     Inr \<lparr>tlv_tag = inner, tlv_value = v, tlv_offset = off'\<rparr>"
  using assms read_tlv_image [of "Reader_with_base (tlv_image inner v) off" inner v "[]"] by (simp add: Tlv_reader_def)

lemma check_oid [simp]: "check_oid_prefix (oid branch arc) off = Inr arc" "length (oid branch arc) = 7"
  by (simp_all add: check_oid_prefix_def oid_def OID_PREFIX_def)

lemma oid_arc_image: "oid_arc \<lparr>tlv_tag = tag, tlv_value = tlv_image 6 (oid branch arc), tlv_offset = off\<rparr> = Inr arc"
  using first_image [of 6 "oid branch arc" tag off] by (auto simp: oid_arc_def)

lemma implicit_oid_image: "implicit_oid_arc \<lparr>tlv_tag = tag, tlv_value = oid branch arc, tlv_offset = off\<rparr> = Inr arc"
  by (simp add: implicit_oid_arc_def)

definition context_valid :: "ApplicationContext \<Rightarrow> bool" where
  "context_valid c \<longleftrightarrow> ApplicationContext_from_arc (ApplicationContext_arc c) = c"

definition mechanism_valid :: "AuthMechanism \<Rightarrow> bool" where
  "mechanism_valid m \<longleftrightarrow> AuthMechanism_from_arc (AuthMechanism_arc m) = m"

definition context_part :: "ApplicationContext option \<Rightarrow> (u8 \<times> bytes) list" where
  "context_part = part (\<lambda>c. (0xA1, tlv_image 6 (oid 1 (ApplicationContext_arc c))))"

definition mechanism_part :: "u8 \<Rightarrow> AuthMechanism option \<Rightarrow> (u8 \<times> bytes) list" where
  "mechanism_part tag = part (\<lambda>m. (tag, oid 2 (AuthMechanism_arc m)))"

definition octets_part :: "u8 \<Rightarrow> u8 \<Rightarrow> bytes option \<Rightarrow> (u8 \<times> bytes) list" where
  "octets_part tag inner = part (\<lambda>v. (tag, tlv_image inner v))"

definition requirements_part :: "u8 \<Rightarrow> bool \<Rightarrow> (u8 \<times> bytes) list" where
  "requirements_part tag b = (if b then [(tag, [0x07, 0x80])] else [])"

lemmas part_defs = context_part_def mechanism_part_def octets_part_def requirements_part_def

definition Aarq_parts :: "Aarq \<Rightarrow> (u8 \<times> bytes) list" where
  "Aarq_parts a = context_part (aarq_application_context a) @ octets_part 0xA2 4 (aarq_called_ap_title a) @
     octets_part 0xA6 4 (aarq_calling_ap_title a) @ octets_part 0xA7 4 (aarq_calling_ae_qualifier a) @
     requirements_part 0x8A (aarq_sender_acse_requirements a) @ mechanism_part 0x8B (aarq_mechanism_name a) @
     octets_part 0xAC 0x80 (aarq_calling_authentication_value a) @ octets_part 0xBE 4 (aarq_user_information a)"

definition Aarq_valid :: "Aarq \<Rightarrow> bool" where
  "Aarq_valid a \<longleftrightarrow> length (elements (Aarq_parts a)) < 2 ^ 32 \<and> pred_option context_valid (aarq_application_context a) \<and>
     pred_option mechanism_valid (aarq_mechanism_name a)"

fun diagnostic_image :: "Diagnostic \<Rightarrow> bytes" where
  "diagnostic_image (DiagUser d) = tlv_image 0xA1 (tlv_image 2 [UserDiagnostic_as_u8 d])"
| "diagnostic_image (DiagProvider d) = tlv_image 0xA2 (tlv_image 2 [d])"

fun diagnostic_valid :: "Diagnostic \<Rightarrow> bool" where
  "diagnostic_valid (DiagUser d) \<longleftrightarrow> UserDiagnostic_from_u8 (UserDiagnostic_as_u8 d) = d"
| "diagnostic_valid (DiagProvider d) \<longleftrightarrow> True"

definition Aare_parts :: "Aare \<Rightarrow> (u8 \<times> bytes) list" where
  "Aare_parts a = context_part (aare_application_context a) @ [(0xA2, tlv_image 2 [AssociationResult_as_u8 (aare_result a)])] @
     [(0xA3, diagnostic_image (aare_diagnostic a))] @ octets_part 0xA4 4 (aare_responding_ap_title a) @
     requirements_part 0x88 (aare_responder_acse_requirements a) @ mechanism_part 0x89 (aare_mechanism_name a) @
     octets_part 0xAA 0x80 (aare_responding_authentication_value a) @ octets_part 0xBE 4 (aare_user_information a)"

definition Aare_valid :: "Aare \<Rightarrow> bool" where
  "Aare_valid a \<longleftrightarrow> length (elements (Aare_parts a)) < 2 ^ 32 \<and> pred_option context_valid (aare_application_context a) \<and>
     pred_option mechanism_valid (aare_mechanism_name a) \<and> diagnostic_valid (aare_diagnostic a) \<and>
     AssociationResult_from_u8 (AssociationResult_as_u8 (aare_result a)) = aare_result a"

definition Release_parts :: "Release \<Rightarrow> (u8 \<times> bytes) list" where
  "Release_parts a = part (\<lambda>r. (0x80, [ReleaseReason_as_u8 r])) (rl_reason a) @ octets_part 0xBE 4 (rl_user_information a)"

definition Release_valid :: "Release \<Rightarrow> bool" where
  "Release_valid a \<longleftrightarrow> length (elements (Release_parts a)) < 2 ^ 32 \<and>
     pred_option (\<lambda>r. ReleaseReason_from_u8 (ReleaseReason_as_u8 r) = r) (rl_reason a)"

text \<open>What is written.\<close>

lemma in_elements:
  assumes "length (elements ts) < 2 ^ 32" "(t, v) \<in> set ts"
  shows "length v < 2 ^ 32"
  using length_elements [OF assms(2)] assms(1) by linarith

lemma octets_part_size:
  assumes "length (elements (octets_part tag inner (Some v))) < n"
  shows "length (tlv_image inner v) < n" "length v < n"
  using assms by (auto simp: octets_part_def part_def tlv_image_def)

lemma writes_octets_part:
  assumes "length (elements (octets_part tag inner x)) < 2 ^ 32"
  shows "writes (when_some (\<lambda>v. write_constructed tag (write_tlv inner v)) x) (elements (octets_part tag inner x))"
  unfolding octets_part_def
proof (rule writes_part)
  fix v assume x: "x = Some v"
  note size = octets_part_size [OF assms [unfolded x]]
  have "writes (write_constructed tag (write_tlv inner v)) (tlv_image tag (tlv_image inner v))"
    by (rule writes_constructed [OF writes_tlv [OF size(2)] size(1)])
  then show "writes (write_constructed tag (write_tlv inner v)) (elements [(tag, tlv_image inner v)])" by simp
qed

lemma short_tlv_image [simp]: "length v < 100 \<Longrightarrow> length (tlv_image t v) = 2 + length v"
  by (simp add: tlv_image_def len_bytes_def)

lemma writes_short:
  "length v < 100 \<Longrightarrow> writes (write_tlv t v) (tlv_image t v)"
  "length v < 100 \<Longrightarrow> writes (write_constructed tag (write_tlv t v)) (tlv_image tag (tlv_image t v))"
  by (intro writes_constructed writes_tlv; simp)+

lemma writes_context_part:
  "writes (when_some (\<lambda>c. write_constructed 0xA1 (write_tlv 6 (oid 1 (ApplicationContext_arc c)))) x) (elements (context_part x))"
  unfolding context_part_def by (rule writes_part) (simp add: writes_short)

lemma writes_mechanism_part:
  "writes (when_some (\<lambda>m. write_tlv tag (oid 2 (AuthMechanism_arc m))) x) (elements (mechanism_part tag x))"
  unfolding mechanism_part_def by (rule writes_part) (simp add: writes_short)

lemma writes_requirements_part:
  "writes (if b then write_tlv tag [0x07, 0x80] else ok ()) (elements (requirements_part tag b))"
  using writes_ok by (auto simp: requirements_part_def writes_short)

lemma writes_elements_end: "writes f (elements a) \<Longrightarrow> writes (try_bind f (\<lambda>_. ok ())) (elements a)"
  using writes_seq [OF _ writes_ok] by fastforce

lemma writes_elements_seq: "writes f (elements a) \<Longrightarrow> writes g (elements b) \<Longrightarrow> writes (try_bind f (\<lambda>_. g)) (elements (a @ b))"
  using writes_seq by simp

lemma writes_sized_seq:
  assumes "length (elements (a @ b)) < 2 ^ 32"
    and "length (elements a) < 2 ^ 32 \<Longrightarrow> writes f (elements a)" "length (elements b) < 2 ^ 32 \<Longrightarrow> writes g (elements b)"
  shows "writes (try_bind f (\<lambda>_. g)) (elements (a @ b))"
  using assms by (intro writes_elements_seq) simp_all

lemmas writes_fields = writes_sized_seq writes_elements_end writes_context_part writes_mechanism_part writes_requirements_part writes_octets_part

lemma writes_Aarq:
  assumes "Aarq_valid a"
  shows "writes (Aarq_encode a) (tlv_image 0x60 (elements (Aarq_parts a)))"
proof -
  have len: "length (elements (Aarq_parts a)) < 2 ^ 32" using assms by (simp add: Aarq_valid_def)
  show ?thesis unfolding Aarq_encode_def Aarq_parts_def by (rule writes_constructed [rotated], rule len [unfolded Aarq_parts_def]) (rule writes_fields len [unfolded Aarq_parts_def] | assumption)+
qed

lemma writes_Aare:
  assumes "Aare_valid a"
  shows "writes (Aare_encode a) (tlv_image 0x61 (elements (Aare_parts a)))"
proof -
  have d: "writes (write_constructed 0xA3 (case d of
          DiagUser d \<Rightarrow> write_constructed 0xA1 (write_tlv 0x02 [UserDiagnostic_as_u8 d])
        | DiagProvider d \<Rightarrow> write_constructed 0xA2 (write_tlv 0x02 [d]))) (elements [(0xA3, diagnostic_image d)])" for d
    by (cases d) (auto intro!: writes_constructed writes_short)
  have r: "writes (write_constructed 0xA2 (write_tlv 0x02 [v])) (elements [(0xA2, tlv_image 2 [v])])" for v
    by (auto intro!: writes_short)
  have len: "length (elements (Aare_parts a)) < 2 ^ 32" using assms by (simp add: Aare_valid_def)
  show ?thesis unfolding Aare_encode_def Aare_parts_def by (rule writes_constructed [rotated], rule len [unfolded Aare_parts_def]) (rule writes_fields d r len [unfolded Aare_parts_def] | assumption)+
qed

lemma writes_release:
  assumes "Release_valid a"
  shows "writes (release_encode tag a) (tlv_image tag (elements (Release_parts a)))"
proof -
  have r: "writes (when_some (\<lambda>reason. write_tlv 0x80 [ReleaseReason_as_u8 reason]) x) (elements (part (\<lambda>r. (0x80, [ReleaseReason_as_u8 r])) x))" for x
    by (rule writes_part) (simp add: writes_short)
  have len: "length (elements (Release_parts a)) < 2 ^ 32" using assms by (simp add: Release_valid_def)
  show ?thesis unfolding release_encode_def Release_parts_def by (rule writes_constructed [rotated], rule len [unfolded Release_parts_def]) (rule writes_fields r len [unfolded Release_parts_def] | assumption)+
qed

text \<open>What is read.\<close>

lemma inner_octets_part:
  assumes "length (elements (octets_part tag inner (Some v))) < 2 ^ 32" "tag AND 0x20 \<noteq> 0" "inner AND 0x1F \<noteq> 0x1F"
  shows "inner_octets \<lparr>tlv_tag = tag, tlv_value = tlv_image inner v, tlv_offset = off\<rparr> inner = Inr v"
  by (rule inner_octets_image [OF assms(2,3) octets_part_size(2) [OF assms(1)]])

lemma authentication_bit_set [simp]: "authentication_bit [0x07, 0x80]"
  by (simp add: authentication_bit_def)

lemma reads_octets:
  assumes none: "x = None \<Longrightarrow> out' = out" and size: "length (elements (octets_part tag inner x)) < 2 ^ 32"
    and tags: "tag AND 0x20 \<noteq> 0" "inner AND 0x1F \<noteq> 0x1F"
    and field: "\<And>v t. x = Some v \<Longrightarrow> tlv_tag t = tag \<Longrightarrow> inner_octets t inner = Inr v \<Longrightarrow> field out t = Inr out'"
  shows "reads_as field (octets_part tag inner x) out out'"
  unfolding octets_part_def
proof (rule reads_as_part [OF none])
  fix v off assume x: "x = Some v"
  then show "field out \<lparr>tlv_tag = fst (tag, tlv_image inner v), tlv_value = snd (tag, tlv_image inner v), tlv_offset = off\<rparr> = Inr out'"
    using size tags by (intro field) (simp_all add: inner_octets_part)
qed

lemma reads_context:
  assumes "x = None \<Longrightarrow> out' = out" "pred_option context_valid x"
    and "\<And>v t. x = Some v \<Longrightarrow> tlv_tag t = 0xA1 \<Longrightarrow> oid_arc t = Inr (ApplicationContext_arc v) \<Longrightarrow> field out t = Inr out'"
  shows "reads_as field (context_part x) out out'"
  unfolding context_part_def by (rule reads_as_part) (use assms in \<open>simp_all add: oid_arc_image\<close>)

lemma reads_mechanism:
  assumes "x = None \<Longrightarrow> out' = out"
    and "\<And>v t. x = Some v \<Longrightarrow> tlv_tag t = tag \<Longrightarrow> implicit_oid_arc t = Inr (AuthMechanism_arc v) \<Longrightarrow> field out t = Inr out'"
  shows "reads_as field (mechanism_part tag x) out out'"
  unfolding mechanism_part_def by (rule reads_as_part) (use assms in \<open>simp_all add: implicit_oid_image\<close>)

lemma reads_requirements:
  assumes "\<not> b \<Longrightarrow> out' = out" "\<And>t. b \<Longrightarrow> tlv_tag t = tag \<Longrightarrow> authentication_bit (tlv_value t) \<Longrightarrow> field out t = Inr out'"
  shows "reads_as field (requirements_part tag b) out out'"
  using assms by (auto simp: requirements_part_def reads_as_def [of _ "[]"] intro!: reads_as_one)

lemma reads_Aarq:
  assumes "Aarq_valid a"
  shows "reads_as Aarq_field (Aarq_parts a) Aarq_default a"
proof -
  note valid = assms [unfolded Aarq_valid_def Aarq_parts_def elements_simps length_append]
  define o1 where "o1 = Aarq_default\<lparr>aarq_application_context := aarq_application_context a\<rparr>"
  define o2 where "o2 = o1\<lparr>aarq_called_ap_title := aarq_called_ap_title a\<rparr>"
  define o3 where "o3 = o2\<lparr>aarq_calling_ap_title := aarq_calling_ap_title a\<rparr>"
  define o4 where "o4 = o3\<lparr>aarq_calling_ae_qualifier := aarq_calling_ae_qualifier a\<rparr>"
  define o5 where "o5 = o4\<lparr>aarq_sender_acse_requirements := aarq_sender_acse_requirements a\<rparr>"
  define o6 where "o6 = o5\<lparr>aarq_mechanism_name := aarq_mechanism_name a\<rparr>"
  define o7 where "o7 = o6\<lparr>aarq_calling_authentication_value := aarq_calling_authentication_value a\<rparr>"
  note os = o1_def o2_def o3_def o4_def o5_def o6_def o7_def Aarq_default_def
  have 1: "reads_as Aarq_field (context_part (aarq_application_context a)) Aarq_default o1"
    by (rule reads_context) (use valid in \<open>auto simp: os Aarq_field_def Tlv_context_number_def context_valid_def\<close>)
  have 2: "reads_as Aarq_field (octets_part 0xA2 4 (aarq_called_ap_title a)) o1 o2"
    by (rule reads_octets) (use valid in \<open>auto simp: os Aarq_field_def Tlv_context_number_def\<close>)
  have 3: "reads_as Aarq_field (octets_part 0xA6 4 (aarq_calling_ap_title a)) o2 o3"
    by (rule reads_octets) (use valid in \<open>auto simp: os Aarq_field_def Tlv_context_number_def\<close>)
  have 4: "reads_as Aarq_field (octets_part 0xA7 4 (aarq_calling_ae_qualifier a)) o3 o4"
    by (rule reads_octets) (use valid in \<open>auto simp: os Aarq_field_def Tlv_context_number_def\<close>)
  have 5: "reads_as Aarq_field (requirements_part 0x8A (aarq_sender_acse_requirements a)) o4 o5"
    by (rule reads_requirements) (auto simp: os Aarq_field_def Tlv_context_number_def)
  have 6: "reads_as Aarq_field (mechanism_part 0x8B (aarq_mechanism_name a)) o5 o6"
    by (rule reads_mechanism) (use valid in \<open>auto simp: os Aarq_field_def Tlv_context_number_def mechanism_valid_def\<close>)
  have 7: "reads_as Aarq_field (octets_part 0xAC 0x80 (aarq_calling_authentication_value a)) o6 o7"
    by (rule reads_octets) (use valid in \<open>auto simp: os Aarq_field_def Tlv_context_number_def\<close>)
  have 8: "reads_as Aarq_field (octets_part 0xBE 4 (aarq_user_information a)) o7 a"
    by (rule reads_octets) (use valid in \<open>auto simp: os Aarq_field_def Tlv_context_number_def intro!: Aarq.equality\<close>)
  show ?thesis unfolding Aarq_parts_def by (intro reads_as_append [OF 1] reads_as_append [OF 2] reads_as_append [OF 3] reads_as_append [OF 4]
    reads_as_append [OF 5] reads_as_append [OF 6] reads_as_append [OF 7] 8)
qed

lemma reads_Aare:
  assumes "Aare_valid a"
  shows "reads_as Aare_field (Aare_parts a) Aare_default a"
proof -
  note valid = assms [unfolded Aare_valid_def Aare_parts_def elements_simps length_append]
  define o1 where "o1 = Aare_default\<lparr>aare_application_context := aare_application_context a\<rparr>"
  define o2 where "o2 = o1\<lparr>aare_result := aare_result a\<rparr>"
  define o3 where "o3 = o2\<lparr>aare_diagnostic := aare_diagnostic a\<rparr>"
  define o4 where "o4 = o3\<lparr>aare_responding_ap_title := aare_responding_ap_title a\<rparr>"
  define o5 where "o5 = o4\<lparr>aare_responder_acse_requirements := aare_responder_acse_requirements a\<rparr>"
  define o6 where "o6 = o5\<lparr>aare_mechanism_name := aare_mechanism_name a\<rparr>"
  define o7 where "o7 = o6\<lparr>aare_responding_authentication_value := aare_responding_authentication_value a\<rparr>"
  note os = o1_def o2_def o3_def o4_def o5_def o6_def o7_def Aare_default_def
  have 1: "reads_as Aare_field (context_part (aare_application_context a)) Aare_default o1"
    by (rule reads_context) (use valid in \<open>auto simp: os Aare_field_def Tlv_context_number_def context_valid_def\<close>)
  have 2: "reads_as Aare_field [(0xA2, tlv_image 2 [AssociationResult_as_u8 (aare_result a)])] o1 o2"
  proof (rule reads_as_one)
    fix off show "Aare_field o1 \<lparr>tlv_tag = 0xA2, tlv_value = tlv_image 2 [AssociationResult_as_u8 (aare_result a)], tlv_offset = off\<rparr> = Inr o2"
      using first_image [of 2 "[AssociationResult_as_u8 (aare_result a)]" "0xA2" off] valid
      by (auto simp: os Aare_field_def Tlv_context_number_def Tlv_as_u8_def)
  qed
  have 3: "reads_as Aare_field [(0xA3, diagnostic_image (aare_diagnostic a))] o2 o3"
  proof (rule reads_as_one)
    fix off
    obtain inner v where d: "diagnostic_image (aare_diagnostic a) = tlv_image inner (tlv_image 2 [v])" "inner = 0xA1 \<or> inner = 0xA2"
      "aare_diagnostic a = (if inner = 0xA1 then DiagUser (UserDiagnostic_from_u8 v) else DiagProvider v)"
      using valid by (cases "aare_diagnostic a") auto
    then have len: "length (tlv_image 2 [v]) < 2 ^ 32" "inner AND 0x1F \<noteq> 0x1F" by auto
    obtain off' where off': "fst (read_tlv (Tlv_reader \<lparr>tlv_tag = 0xA3, tlv_value = tlv_image inner (tlv_image 2 [v]), tlv_offset = off\<rparr>)) =
        Inr \<lparr>tlv_tag = inner, tlv_value = tlv_image 2 [v], tlv_offset = off'\<rparr>"
      using first_image [OF len(2,1)] by blast
    show "Aare_field o2 \<lparr>tlv_tag = 0xA3, tlv_value = diagnostic_image (aare_diagnostic a), tlv_offset = off\<rparr> = Inr o3"
      using first_image [of 2 "[v]" inner off'] d(2,3) unfolding d(1)
      by (auto simp: os Aare_field_def Tlv_context_number_def Tlv_as_u8_def off')
  qed
  have 4: "reads_as Aare_field (octets_part 0xA4 4 (aare_responding_ap_title a)) o3 o4"
    by (rule reads_octets) (use valid in \<open>auto simp: os Aare_field_def Tlv_context_number_def\<close>)
  have 5: "reads_as Aare_field (requirements_part 0x88 (aare_responder_acse_requirements a)) o4 o5"
    by (rule reads_requirements) (auto simp: os Aare_field_def Tlv_context_number_def)
  have 6: "reads_as Aare_field (mechanism_part 0x89 (aare_mechanism_name a)) o5 o6"
    by (rule reads_mechanism) (use valid in \<open>auto simp: os Aare_field_def Tlv_context_number_def mechanism_valid_def\<close>)
  have 7: "reads_as Aare_field (octets_part 0xAA 0x80 (aare_responding_authentication_value a)) o6 o7"
    by (rule reads_octets) (use valid in \<open>auto simp: os Aare_field_def Tlv_context_number_def\<close>)
  have 8: "reads_as Aare_field (octets_part 0xBE 4 (aare_user_information a)) o7 a"
    by (rule reads_octets) (use valid in \<open>auto simp: os Aare_field_def Tlv_context_number_def intro!: Aare.equality\<close>)
  show ?thesis unfolding Aare_parts_def by (intro reads_as_append [OF 1] reads_as_append [OF 2] reads_as_append [OF 3] reads_as_append [OF 4]
    reads_as_append [OF 5] reads_as_append [OF 6] reads_as_append [OF 7] 8)
qed

lemma reads_release:
  assumes "Release_valid a"
  shows "reads_as Release_field (Release_parts a) Release_default a"
proof -
  note valid = assms [unfolded Release_valid_def Release_parts_def elements_simps length_append]
  have 1: "reads_as Release_field (part (\<lambda>r. (0x80, [ReleaseReason_as_u8 r])) (rl_reason a)) Release_default (Release_default\<lparr>rl_reason := rl_reason a\<rparr>)"
    by (rule reads_as_part) (use valid in \<open>auto simp: Release_default_def Release_field_def Tlv_context_number_def Tlv_as_u8_def\<close>)
  have 2: "reads_as Release_field (octets_part 0xBE 4 (rl_user_information a)) (Release_default\<lparr>rl_reason := rl_reason a\<rparr>) a"
    by (rule reads_octets) (use valid in \<open>auto simp: Release_default_def Release_field_def Tlv_context_number_def intro!: Release.equality\<close>)
  show ?thesis unfolding Release_parts_def by (rule reads_as_append [OF 1 2])
qed

lemma Aarq_tags: "\<forall>(t, v)\<in>set (Aarq_parts a). t AND 0x1F \<noteq> 0x1F"
  by (auto simp: Aarq_parts_def part_defs part_def split: option.splits)

lemma Aare_tags: "\<forall>(t, v)\<in>set (Aare_parts a). t AND 0x1F \<noteq> 0x1F"
  by (auto simp: Aare_parts_def part_defs part_def split: option.splits)

lemma Release_tags: "\<forall>(t, v)\<in>set (Release_parts a). t AND 0x1F \<noteq> 0x1F"
  by (auto simp: Release_parts_def part_defs part_def split: option.splits)

interpretation aarq: codec_pair Aarq_encode "\<lambda>a. tlv_image 0x60 (elements (Aarq_parts a))" Aarq_valid Aarq_decode
proof unfold_locales
  fix a assume "Aarq_valid a"
  then show "decodes Aarq_decode (tlv_image 0x60 (elements (Aarq_parts a))) a"
    unfolding Aarq_decode_def using Aarq_valid_def by (intro decodes_fields reads_Aarq Aarq_tags) auto
qed (rule writes_Aarq)

interpretation aare: codec_pair Aare_encode "\<lambda>a. tlv_image 0x61 (elements (Aare_parts a))" Aare_valid Aare_decode
proof unfold_locales
  fix a assume "Aare_valid a"
  then show "decodes Aare_decode (tlv_image 0x61 (elements (Aare_parts a))) a"
    unfolding Aare_decode_def using Aare_valid_def by (intro decodes_fields reads_Aare Aare_tags) auto
qed (rule writes_Aare)

interpretation rlrq: codec_pair Rlrq_encode "\<lambda>a. tlv_image 0x62 (elements (Release_parts a))" Release_valid Rlrq_decode
proof unfold_locales
  fix a assume "Release_valid a"
  then show "decodes Rlrq_decode (tlv_image 0x62 (elements (Release_parts a))) a"
    unfolding Rlrq_decode_def release_decode_def using Release_valid_def by (intro decodes_fields reads_release Release_tags) auto
qed (simp add: Rlrq_encode_def writes_release)

interpretation rlre: codec_pair Rlre_encode "\<lambda>a. tlv_image 0x63 (elements (Release_parts a))" Release_valid Rlre_decode
proof unfold_locales
  fix a assume "Release_valid a"
  then show "decodes Rlre_decode (tlv_image 0x63 (elements (Release_parts a))) a"
    unfolding Rlre_decode_def release_decode_def using Release_valid_def by (intro decodes_fields reads_release Release_tags) auto
qed (simp add: Rlre_encode_def writes_release)

subsection \<open>Staying inside\<close>

text \<open>An element points into the buffer it was read from, and what is wrong with a field is inside its element.\<close>

definition tlv_within :: "nat \<Rightarrow> nat \<Rightarrow> Tlv result \<Rightarrow> bool" where
  "tlv_within lo hi t \<longleftrightarrow> (case t of Inl e \<Rightarrow> lo \<le> err_offset e \<and> err_offset e \<le> hi
     | Inr t \<Rightarrow> lo \<le> tlv_offset t \<and> tlv_offset t + length (tlv_value t) \<le> hi)"

definition located :: "('o \<Rightarrow> Tlv \<Rightarrow> 'o result) \<Rightarrow> bool" where
  "located field \<longleftrightarrow> (\<forall>out t e. field out t = Inl e \<longrightarrow> tlv_offset t \<le> err_offset e \<and> err_offset e \<le> tlv_offset t + length (tlv_value t))"

lemma safe_read_tlv [safe_intro]: "safe_dec n read_tlv"
proof -
  have "safe_dec m (\<lambda>r. try_bind (Reader_take len) (\<lambda>value. ok \<lparr>tlv_tag = tag, tlv_value = value, tlv_offset = Reader_offset r\<rparr>) r)"
    for len tag m
    by (rule safe_state [where f = "\<lambda>r0. try_bind (Reader_take len) (\<lambda>value.
        ok \<lparr>tlv_tag = tag, tlv_value = value, tlv_offset = Reader_offset r0\<rparr>)"]) (intro safe_intro)
  then show ?thesis unfolding read_tlv_is_length_prefixed by (intro safe_u8_bind) (auto intro!: safe_intro)
qed

lemma read_tlv_within:
  assumes "rd_wf r"
  shows "tlv_within (Reader_offset r) (rd_base r + length (rd_buf r)) (fst (read_tlv r))"
proof (cases "fst (read_tlv r)")
  case (Inl e)
  then have "read_tlv r = (Inl e, snd (read_tlv r))" by (metis prod.collapse)
  from safe_decD(5) [OF safe_read_tlv [of 0] assms le0 this refl] Inl show ?thesis by (simp add: tlv_within_def)
next
  case (Inr t)
  then obtain r' where run: "read_tlv r = (Inr t, r')" by (metis prod.collapse)
  obtain tag r1 where u8: "Reader_u8 r = (Inr tag, r1)"
    using run unfolding read_tlv_is_length_prefixed by (auto elim!: try_bind_InrE)
  obtain len r2 where len: "Reader_length r1 = (Inr len, r2)"
    and body: "try_bind (Reader_take len) (\<lambda>value. ok \<lparr>tlv_tag = tag, tlv_value = value, tlv_offset = Reader_offset r2\<rparr>) r2 = (Inr t, r')"
    using run [unfolded read_tlv_is_length_prefixed try_bind_Inr [of Reader_u8, OF u8]]
    by (cases "tag AND 0x1F = 0x1F") (auto simp: rd_fail_back_def elim: try_bind_InrE)
  note s1 = safe_decD [OF safe_u8 [of 0] assms le0 u8]
  note s2 = safe_decD [OF safe_length [of 0] s1(4) le0 len]
  from body s2(4) have "tlv_offset t = Reader_offset r2" "length (tlv_value t) \<le> length (rd_buf r2) - rd_pos r2"
    by (auto simp: Reader_take_eq Reader_rest_def split: if_splits elim!: try_bind_InrE)
  with Inr s1 s2 show ?thesis by (auto simp: tlv_within_def Reader_offset_def rd_wf_def)
qed

lemma items_within:
  assumes "rd_wf r" "t \<in> set (tlv_items r)"
  shows "tlv_within (Reader_offset r) (rd_base r + length (rd_buf r)) t"
  using assms
proof (induction r rule: tlv_items.induct)
  case (1 r)
  show ?case
  proof (cases "Reader_is_empty r")
    case False
    define r' where "r' = snd (read_tlv r)"
    have run: "read_tlv r = (fst (read_tlv r), r')" by (simp add: r'_def)
    note s = safe_decD [OF safe_read_tlv [of 0] "1.prems"(1) le0 run]
    from "1.prems"(2) False consider "t = fst (read_tlv r)" | "t \<in> set (tlv_items r')"
      by (subst (asm) tlv_items.simps) (auto simp: r'_def split: if_splits)
    then show ?thesis
    proof cases
      case 1
      with read_tlv_within "1.prems"(1) show ?thesis by simp
    next
      case 2
      then have "tlv_within (Reader_offset r') (rd_base r' + length (rd_buf r')) t"
        using "1.IH" "1.prems"(1) False s(4) by (simp add: r'_def)
      with s(1-3) show ?thesis by (auto simp: tlv_within_def Reader_offset_def split: sum.splits)
    qed
  qed (use "1.prems"(2) in \<open>subst (asm) tlv_items.simps; simp\<close>)
qed

lemma fold_fields_within:
  assumes "located field"
  shows "\<forall>t\<in>set items. tlv_within lo hi t \<Longrightarrow> fold_fields field out items = Inl e \<Longrightarrow> lo \<le> err_offset e \<and> err_offset e \<le> hi"
proof (induction items arbitrary: out)
  case (Cons t ts)
  show ?case
  proof (cases t)
    case (Inr u)
    with Cons.prems(1) have u: "lo \<le> tlv_offset u" "tlv_offset u + length (tlv_value u) \<le> hi" by (simp_all add: tlv_within_def)
    show ?thesis
    proof (cases "field out u")
      case (Inl f)
      with assms have "tlv_offset u \<le> err_offset f" "err_offset f \<le> tlv_offset u + length (tlv_value u)" by (simp_all add: located_def)
      with u Inl \<open>t = Inr u\<close> Cons.prems(2) show ?thesis by simp
    next
      case (Inr out')
      with \<open>t = Inr u\<close> Cons.prems show ?thesis by (intro Cons.IH) simp_all
    qed
  qed (use Cons.prems in \<open>simp add: tlv_within_def\<close>)
qed simp

definition located_at :: "Tlv \<Rightarrow> 'a result \<Rightarrow> bool" where
  "located_at t x \<longleftrightarrow> (\<forall>e. x = Inl e \<longrightarrow> tlv_offset t \<le> err_offset e \<and> err_offset e \<le> tlv_offset t + length (tlv_value t))"

lemma located_iff: "located field \<longleftrightarrow> (\<forall>out t. located_at t (field out t))"
  by (auto simp: located_def located_at_def)

lemma located_at_inner:
  assumes "\<And>inner. located_at inner (f inner)"
  shows "located_at t (case fst (read_tlv (Tlv_reader t)) of Inl e \<Rightarrow> Inl e | Inr inner \<Rightarrow> f inner)"
  using assms read_tlv_within [of "Tlv_reader t"]
  by (cases "fst (read_tlv (Tlv_reader t))") (fastforce simp: located_at_def tlv_within_def Tlv_reader_def)+

lemma located_at_Inr: "located_at t (Inr x)"
  by (simp add: located_at_def)

lemma located_at_map: "located_at t x \<Longrightarrow> located_at t (map_sum id f x)"
  by (cases x) (simp_all add: located_at_def)

lemma located_at_error: "located_at t (Inl (Error_new k (tlv_offset t)))"
  by (simp add: located_at_def)

lemma located_at_oid: "located_at t (check_oid_prefix (tlv_value t) (tlv_offset t))"
  by (simp add: check_oid_prefix_def located_at_error located_at_Inr)

lemma located_at_if: "(b \<Longrightarrow> located_at t x) \<Longrightarrow> (\<not> b \<Longrightarrow> located_at t y) \<Longrightarrow> located_at t (if b then x else y)"
  by simp

lemma located_at_option: "located_at t x \<Longrightarrow> (\<And>v. o' = Some v \<Longrightarrow> located_at t (f v)) \<Longrightarrow> located_at t (case o' of None \<Rightarrow> x | Some v \<Rightarrow> f v)"
  by (cases o') simp_all

lemma located_at_helpers: "located_at t (oid_arc t)" "located_at t (implicit_oid_arc t)" "located_at t (inner_octets t k)" "located_at t (Tlv_as_u8 t)"
  unfolding oid_arc_def implicit_oid_arc_def inner_octets_def Tlv_as_u8_def
  by (intro located_at_if located_at_inner located_at_oid located_at_error located_at_Inr
    | simp add: located_at_error located_at_Inr split: list.split)+

lemmas located_intro = located_at_helpers located_at_map located_at_Inr located_at_if located_at_option located_at_inner

lemma located_fields: "located Aarq_field" "located Aare_field" "located Release_field"
  unfolding located_iff Aarq_field_def Aare_field_def Release_field_def by (intro allI located_intro)+

lemma safe_decode_fields:
  assumes "located field"
  shows "safe_dec n (decode_fields tag field dflt)"
proof (rule safe_dec_mono [OF safe_decI le0])
  fix r res r' assume r: "rd_wf r" and run: "decode_fields tag field dflt r = (res, r')"
  define outer where "outer = read_tlv r"
  have split: "read_tlv r = (fst outer, snd outer)" by (simp add: outer_def)
  note s = safe_decD [OF safe_read_tlv [of 0] r le0 split]
  have within: "tlv_within (Reader_offset r) (rd_base r + length (rd_buf r)) (fst outer)" using read_tlv_within [OF r] by (simp add: outer_def)
  have r': "r' = snd outer" using run split by (cases "fst outer") (auto simp: decode_fields_def try_bind_def split: if_splits)
  have "Reader_offset r \<le> err_offset e \<and> err_offset e \<le> rd_base r + length (rd_buf r)" if "res = Inl e" for e
  proof (cases "fst outer")
    case (Inl f)
    with run split that within show ?thesis by (simp add: decode_fields_def try_bind_def tlv_within_def)
  next
    case (Inr t)
    have lo: "Reader_offset r \<le> tlv_offset t" "tlv_offset t + length (tlv_value t) \<le> rd_base r + length (rd_buf r)"
      using within Inr by (simp_all add: tlv_within_def)
    show ?thesis
    proof (cases "tlv_tag t = tag")
      case True
      have "\<forall>x\<in>set (iter_tlv (tlv_value t) (tlv_offset t)). tlv_within (tlv_offset t) (tlv_offset t + length (tlv_value t)) x"
        using items_within [of "Reader_with_base (tlv_value t) (tlv_offset t)"] by (simp add: iter_tlv_def)
      moreover have "fold_fields field dflt (iter_tlv (tlv_value t) (tlv_offset t)) = Inl e"
        using run split Inr True that by (simp add: decode_fields_def try_bind_def)
      ultimately show ?thesis using fold_fields_within [OF assms] lo by (meson le_trans)
    next
      case False
      with run split Inr that lo show ?thesis by (auto simp: decode_fields_def try_bind_def)
    qed
  qed
  with s r' show "rd_buf r' = rd_buf r \<and> rd_base r' = rd_base r \<and> rd_pos r \<le> rd_pos r' \<and> rd_wf r' \<and>
     (\<forall>e. res = Inl e \<longrightarrow> Reader_offset r \<le> err_offset e + 0 \<and> err_offset e \<le> rd_base r + length (rd_buf r))" by simp
qed

lemma safe_acse [safe_intro]:
  "safe_dec n Aarq_decode" "safe_dec n Aare_decode" "safe_dec n Rlrq_decode" "safe_dec n Rlre_decode"
  by (simp_all add: Aarq_decode_def Aare_decode_def Rlrq_decode_def Rlre_decode_def release_decode_def safe_decode_fields
      located_fields)

end
