(* ===== verification/Apdu.thy ===== *)
theory Apdu
  imports AccessNotify Acse Gbt
begin

text \<open>
  The APDU, \<^verbatim>\<open>src/src/xdlms/apdu.rs\<close>: one type over everything the application layer sends.  The short-name services are
  behind the feature \<^verbatim>\<open>sn\<close>, which a default build leaves out, and are not modelled.
\<close>

datatype Apdu =
    ApAarq Aarq
  | ApAare Aare
  | ApRlrq Rlrq
  | ApRlre Rlre
  | ApInitiateRequest InitiateRequest
  | ApInitiateResponse InitiateResponse
  | ApGetRequest GetRequest
  | ApGetResponse GetResponse
  | ApSetRequest SetRequest
  | ApSetResponse SetResponse
  | ApActionRequest ActionRequest
  | ApActionResponse ActionResponse
  | ApAccessRequest AccessRequest
  | ApAccessResponse AccessResponse
  | ApDataNotification DataNotification
  | ApEventNotification EventNotification
  | ApExceptionResponse ExceptionResponse
  | ApConfirmedServiceError ConfirmedServiceError
  | ApGeneralBlockTransfer GeneralBlockTransfer
  | ApCiphered Protection ApduTag CipheredService
  | ApGeneralCiphered Protection GeneralGloCiphering
  | ApGeneralCiphering GeneralCiphering
  | ApGeneralSigning GeneralSigning
  | ApGateway bool u8 bytes bytes

fun Apdu_tag :: "Apdu \<Rightarrow> ApduTag" where
  "Apdu_tag (ApAarq _) = AAarq"
| "Apdu_tag (ApAare _) = AAare"
| "Apdu_tag (ApRlrq _) = AReleaseRequest"
| "Apdu_tag (ApRlre _) = AReleaseResponse"
| "Apdu_tag (ApInitiateRequest _) = AInitiateRequest"
| "Apdu_tag (ApInitiateResponse _) = AInitiateResponse"
| "Apdu_tag (ApGetRequest _) = AGetRequest"
| "Apdu_tag (ApGetResponse _) = AGetResponse"
| "Apdu_tag (ApSetRequest _) = ASetRequest"
| "Apdu_tag (ApSetResponse _) = ASetResponse"
| "Apdu_tag (ApActionRequest _) = AActionRequest"
| "Apdu_tag (ApActionResponse _) = AActionResponse"
| "Apdu_tag (ApAccessRequest _) = AAccessRequest"
| "Apdu_tag (ApAccessResponse _) = AAccessResponse"
| "Apdu_tag (ApDataNotification _) = ADataNotification"
| "Apdu_tag (ApEventNotification _) = AEventNotificationRequest"
| "Apdu_tag (ApExceptionResponse _) = AExceptionResponse"
| "Apdu_tag (ApConfirmedServiceError _) = AConfirmedServiceError"
| "Apdu_tag (ApGeneralBlockTransfer _) = AGeneralBlockTransfer"
| "Apdu_tag (ApCiphered protection service _) = (case ApduTag_protected_as protection service of Some t \<Rightarrow> t | None \<Rightarrow> service)"
| "Apdu_tag (ApGeneralCiphered protection _) = (case protection of PDedicated \<Rightarrow> AGeneralDedCiphering | _ \<Rightarrow> AGeneralGloCiphering)"
| "Apdu_tag (ApGeneralCiphering _) = AGeneralCiphering"
| "Apdu_tag (ApGeneralSigning _) = AGeneralSigning"
| "Apdu_tag (ApGateway response _ _ _) = (if response then AGatewayResponse else AGatewayRequest)"

fun Apdu_is_protected :: "Apdu \<Rightarrow> bool" where
  "Apdu_is_protected (ApCiphered _ _ _) = True"
| "Apdu_is_protected (ApGeneralCiphered _ _) = True"
| "Apdu_is_protected (ApGeneralCiphering _) = True"
| "Apdu_is_protected (ApGeneralSigning _) = True"
| "Apdu_is_protected _ = False"

text \<open>The second match of the encoder: the body behind the tag.\<close>

definition invalid_value :: "(writer, 'a) op" where
  "invalid_value = (\<lambda>w. (Inl (Error_new InvalidValue (written w)), w))"

fun Apdu_encode_body :: "Apdu \<Rightarrow> (writer, unit) op" where
  "Apdu_encode_body (ApAarq _) = invalid_value"
| "Apdu_encode_body (ApAare _) = invalid_value"
| "Apdu_encode_body (ApRlrq _) = invalid_value"
| "Apdu_encode_body (ApRlre _) = invalid_value"
| "Apdu_encode_body (ApInitiateRequest v) = InitiateRequest_encode v"
| "Apdu_encode_body (ApInitiateResponse v) = InitiateResponse_encode v"
| "Apdu_encode_body (ApGetRequest v) = GetRequest_encode v"
| "Apdu_encode_body (ApGetResponse v) = GetResponse_encode v"
| "Apdu_encode_body (ApSetRequest v) = SetRequest_encode v"
| "Apdu_encode_body (ApSetResponse v) = SetResponse_encode v"
| "Apdu_encode_body (ApActionRequest v) = ActionRequest_encode v"
| "Apdu_encode_body (ApActionResponse v) = ActionResponse_encode v"
| "Apdu_encode_body (ApAccessRequest v) = AccessRequest_encode v"
| "Apdu_encode_body (ApAccessResponse v) = AccessResponse_encode v"
| "Apdu_encode_body (ApDataNotification v) = DataNotification_encode v"
| "Apdu_encode_body (ApEventNotification v) = EventNotification_encode v"
| "Apdu_encode_body (ApExceptionResponse v) = ExceptionResponse_encode v"
| "Apdu_encode_body (ApConfirmedServiceError v) = ConfirmedServiceError_encode v"
| "Apdu_encode_body (ApGeneralBlockTransfer v) = GeneralBlockTransfer_encode v"
| "Apdu_encode_body (ApCiphered _ _ body) = CipheredService_encode body"
| "Apdu_encode_body (ApGeneralCiphered _ body) = GeneralGloCiphering_encode body"
| "Apdu_encode_body (ApGeneralCiphering v) = GeneralCiphering_encode v"
| "Apdu_encode_body (ApGeneralSigning v) = GeneralSigning_encode v"
| "Apdu_encode_body (ApGateway _ network_id physical_device_address payload) =
     try_bind (write_u8 network_id) (\<lambda>_. try_bind (write_length_prefixed physical_device_address) (\<lambda>_. write_bytes payload))"

definition Apdu_encode :: "Apdu \<Rightarrow> (writer, unit) op" where
  "Apdu_encode a = (case a of
     ApAarq v \<Rightarrow> Aarq_encode v
   | ApAare v \<Rightarrow> Aare_encode v
   | ApRlrq v \<Rightarrow> Rlrq_encode v
   | ApRlre v \<Rightarrow> Rlre_encode v
   | _ \<Rightarrow>
     if (case a of ApCiphered protection service _ \<Rightarrow> ApduTag_protected_as protection service = None | _ \<Rightarrow> False) then invalid_value
     else try_bind (write_u8 (ApduTag_as_u8 (Apdu_tag a))) (\<lambda>_. Apdu_encode_body a))"

text \<open>The last match of the decoder: what is behind a plain tag.\<close>

definition Apdu_decode_body :: "ApduTag \<Rightarrow> u8 \<Rightarrow> (Reader, Apdu) op" where
  "Apdu_decode_body tag tag_byte =
     (if tag = AInitiateRequest then try_bind InitiateRequest_decode (\<lambda>v. ok (ApInitiateRequest v))
      else if tag = AInitiateResponse then try_bind InitiateResponse_decode (\<lambda>v. ok (ApInitiateResponse v))
      else if tag = AGetRequest then try_bind GetRequest_decode (\<lambda>v. ok (ApGetRequest v))
      else if tag = AGetResponse then try_bind GetResponse_decode (\<lambda>v. ok (ApGetResponse v))
      else if tag = ASetRequest then try_bind SetRequest_decode (\<lambda>v. ok (ApSetRequest v))
      else if tag = ASetResponse then try_bind SetResponse_decode (\<lambda>v. ok (ApSetResponse v))
      else if tag = AActionRequest then try_bind ActionRequest_decode (\<lambda>v. ok (ApActionRequest v))
      else if tag = AActionResponse then try_bind ActionResponse_decode (\<lambda>v. ok (ApActionResponse v))
      else if tag = AAccessRequest then try_bind AccessRequest_decode (\<lambda>v. ok (ApAccessRequest v))
      else if tag = AAccessResponse then try_bind AccessResponse_decode (\<lambda>v. ok (ApAccessResponse v))
      else if tag = ADataNotification then try_bind DataNotification_decode (\<lambda>v. ok (ApDataNotification v))
      else if tag = AEventNotificationRequest then try_bind EventNotification_decode (\<lambda>v. ok (ApEventNotification v))
      else if tag = AExceptionResponse then try_bind ExceptionResponse_decode (\<lambda>v. ok (ApExceptionResponse v))
      else if tag = AConfirmedServiceError then try_bind ConfirmedServiceError_decode (\<lambda>v. ok (ApConfirmedServiceError v))
      else if tag = AGeneralBlockTransfer then try_bind GeneralBlockTransfer_decode (\<lambda>v. ok (ApGeneralBlockTransfer v))
      else if tag = AGeneralGloCiphering then try_bind GeneralGloCiphering_decode (\<lambda>v. ok (ApGeneralCiphered PGlobal v))
      else if tag = AGeneralDedCiphering then try_bind GeneralGloCiphering_decode (\<lambda>v. ok (ApGeneralCiphered PDedicated v))
      else if tag = AGeneralCiphering then try_bind GeneralCiphering_decode (\<lambda>v. ok (ApGeneralCiphering v))
      else if tag = AGeneralSigning then try_bind GeneralSigning_decode (\<lambda>v. ok (ApGeneralSigning v))
      else if tag = AGatewayRequest \<or> tag = AGatewayResponse then
        try_bind Reader_u8 (\<lambda>network_id. try_bind Reader_length_prefixed (\<lambda>address r.
          case Reader_take_rest r of (payload, r') \<Rightarrow> (Inr (ApGateway (tag = AGatewayResponse) network_id address payload), r')))
      else rd_fail_back (InvalidTag tag_byte) 1)"

definition Apdu_decode :: "(Reader, Apdu) op" where
  "Apdu_decode = try_bind (\<lambda>r. (Reader_peek_u8 r, r)) (\<lambda>tag_byte.
     case ApduTag_from_u8 tag_byte of
       None \<Rightarrow> rd_fail (InvalidTag tag_byte)
     | Some tag \<Rightarrow>
         if tag = AAarq then try_bind Aarq_decode (\<lambda>v. ok (ApAarq v))
         else if tag = AAare then try_bind Aare_decode (\<lambda>v. ok (ApAare v))
         else if tag = AReleaseRequest then try_bind Rlrq_decode (\<lambda>v. ok (ApRlrq v))
         else if tag = AReleaseResponse then try_bind Rlre_decode (\<lambda>v. ok (ApRlre v))
         else try_bind (Reader_skip 1) (\<lambda>_.
           case ApduTag_unprotect tag of
             Some (protection, service) \<Rightarrow> try_bind CipheredService_decode (\<lambda>body. ok (ApCiphered protection service body))
           | None \<Rightarrow> Apdu_decode_body tag tag_byte))"

subsection \<open>Reading back\<close>

fun Apdu_valid :: "Apdu \<Rightarrow> bool" where
  "Apdu_valid (ApAarq v) = Aarq_valid v"
| "Apdu_valid (ApAare v) = Aare_valid v"
| "Apdu_valid (ApRlrq v) = Release_valid v"
| "Apdu_valid (ApRlre v) = Release_valid v"
| "Apdu_valid (ApInitiateRequest v) = InitiateRequest_valid v"
| "Apdu_valid (ApInitiateResponse v) = InitiateResponse_valid v"
| "Apdu_valid (ApGetRequest v) = GetRequest_valid v"
| "Apdu_valid (ApGetResponse v) = GetResponse_valid v"
| "Apdu_valid (ApSetRequest v) = SetRequest_valid v"
| "Apdu_valid (ApSetResponse v) = SetResponse_valid v"
| "Apdu_valid (ApActionRequest v) = ActionRequest_valid v"
| "Apdu_valid (ApActionResponse v) = ActionResponse_valid v"
| "Apdu_valid (ApAccessRequest v) = AccessRequest_valid v"
| "Apdu_valid (ApAccessResponse v) = AccessResponse_valid v"
| "Apdu_valid (ApDataNotification v) = DataNotification_valid v"
| "Apdu_valid (ApEventNotification v) = EventNotification_valid v"
| "Apdu_valid (ApExceptionResponse v) = ExceptionResponse_valid v"
| "Apdu_valid (ApConfirmedServiceError v) = True"
| "Apdu_valid (ApGeneralBlockTransfer v) = gbt_valid v"
| "Apdu_valid (ApCiphered protection service body) =
     (protection \<noteq> PNone \<and> ApduTag_protected_as protection service \<noteq> None \<and> ciphered_valid body)"
| "Apdu_valid (ApGeneralCiphered protection body) = (protection \<noteq> PNone \<and> glo_valid body)"
| "Apdu_valid (ApGeneralCiphering v) = gc_valid v"
| "Apdu_valid (ApGeneralSigning v) = sign_valid v"
| "Apdu_valid (ApGateway response network_id address payload) = short_field address"

fun Apdu_abs :: "Apdu \<Rightarrow> Apdu" where
  "Apdu_abs (ApGetRequest v) = ApGetRequest (GetRequest_abs v)"
| "Apdu_abs (ApGetResponse v) = ApGetResponse (GetResponse_abs v)"
| "Apdu_abs (ApSetRequest v) = ApSetRequest (SetRequest_abs v)"
| "Apdu_abs (ApSetResponse v) = ApSetResponse (SetResponse_abs v)"
| "Apdu_abs (ApActionRequest v) = ApActionRequest (ActionRequest_abs v)"
| "Apdu_abs (ApActionResponse v) = ApActionResponse (ActionResponse_abs v)"
| "Apdu_abs (ApAccessRequest v) = ApAccessRequest (AccessRequest_abs v)"
| "Apdu_abs (ApAccessResponse v) = ApAccessResponse (AccessResponse_abs v)"
| "Apdu_abs (ApDataNotification v) = ApDataNotification (DataNotification_abs v)"
| "Apdu_abs (ApEventNotification v) = ApEventNotification (EventNotification_abs v)"
| "Apdu_abs a = a"

lemma peek_eq: "rd_wf r \<Longrightarrow> Reader_rest r = b # bs \<Longrightarrow> Reader_peek_u8 r = Inr b"
  by (auto simp: Reader_peek_u8_def Reader_rest_def rd_wf_def) (metis Cons_nth_drop_Suc list.inject not_less drop_all list.distinct(1))+

definition acse_tag :: "ApduTag \<Rightarrow> bool" where
  "acse_tag t \<longleftrightarrow> t = AAarq \<or> t = AAare \<or> t = AReleaseRequest \<or> t = AReleaseResponse"

lemma Apdu_decode_service:
  assumes "rd_wf r" "Reader_rest r = ApduTag_as_u8 t # bs" "\<not> acse_tag t"
  shows "Apdu_decode r = (case ApduTag_unprotect t of
             Some (protection, service) \<Rightarrow> try_bind CipheredService_decode (\<lambda>body. ok (ApCiphered protection service body))
           | None \<Rightarrow> Apdu_decode_body t (ApduTag_as_u8 t)) (rd_advance 1 r)"
proof -
  have "Reader_skip 1 r = (Inr (), rd_advance 1 r)" using assms(1,2) by (simp add: Reader_skip_def try_bind_def Reader_take_eq)
  then show ?thesis using assms(3) peek_eq [OF assms(1,2)]
    by (auto simp: Apdu_decode_def try_bind_def acse_tag_def split: option.split)
qed

lemma codes_service:
  assumes "codes fin e (case ApduTag_unprotect t of
             Some (protection, service) \<Rightarrow> try_bind CipheredService_decode (\<lambda>body. ok (ApCiphered protection service body))
           | None \<Rightarrow> Apdu_decode_body t (ApduTag_as_u8 t)) P" "\<not> acse_tag t"
  shows "codes fin (try_bind (write_u8 (ApduTag_as_u8 t)) (\<lambda>_. e)) Apdu_decode P"
proof -
  from assms(1) obtain bs where bs: "writes e bs" "decodes_sat fin (case ApduTag_unprotect t of
             Some (protection, service) \<Rightarrow> try_bind CipheredService_decode (\<lambda>body. ok (ApCiphered protection service body))
           | None \<Rightarrow> Apdu_decode_body t (ApduTag_as_u8 t)) bs P" by (auto simp: codes_def)
  have "decodes_sat fin Apdu_decode ([ApduTag_as_u8 t] @ bs) P"
    unfolding decodes_sat_def
  proof (intro allI impI)
    fix r rest assume r: "rd_wf r" "Reader_rest r = ([ApduTag_as_u8 t] @ bs) @ rest" "fin \<longrightarrow> rest = []"
    then have rest: "Reader_rest r = [ApduTag_as_u8 t] @ (bs @ rest)" by simp
    obtain y where "(case ApduTag_unprotect t of
             Some (protection, service) \<Rightarrow> try_bind CipheredService_decode (\<lambda>body. ok (ApCiphered protection service body))
           | None \<Rightarrow> Apdu_decode_body t (ApduTag_as_u8 t)) (rd_advance 1 r) = (Inr y, rd_advance (length bs) (rd_advance 1 r))" "P y"
      using decodes_satD [OF bs(2), of "rd_advance 1 r" rest] rest_append [OF r(1) rest] r(3) by auto
    with Apdu_decode_service [OF r(1) _ assms(2)] rest
    show "\<exists>y. Apdu_decode r = (Inr y, rd_advance (length ([ApduTag_as_u8 t] @ bs)) r) \<and> P y" by simp
  qed
  with writes_seq [OF writes_u8 bs(1)] show ?thesis unfolding codes_def by blast
qed

lemma codes_codec:
  assumes "writes e bs" "decodes d bs x"
  shows "codes fin e d (\<lambda>y. y = x)"
  by (rule codes_prim [OF assms])

text \<open>The ACSE APDUs carry their own tag.\<close>

lemma codes_acse:
  assumes "writes e (tlv_image (ApduTag_as_u8 t) bs)" "decodes d (tlv_image (ApduTag_as_u8 t) bs) x"
    and "\<And>r. Reader_peek_u8 r = Inr (ApduTag_as_u8 t) \<Longrightarrow> Apdu_decode r = try_bind d (\<lambda>v. ok (mk v)) r"
  shows "codes fin e Apdu_decode (\<lambda>y. y = mk x)"
proof -
  have "decodes_sat fin Apdu_decode (tlv_image (ApduTag_as_u8 t) bs) (\<lambda>y. y = mk x)"
    unfolding decodes_sat_def
  proof (intro allI impI)
    fix r rest assume r: "rd_wf r" "Reader_rest r = tlv_image (ApduTag_as_u8 t) bs @ rest"
    then have "Reader_peek_u8 r = Inr (ApduTag_as_u8 t)" by (intro peek_eq) (simp_all add: tlv_image_def)
    moreover have "d r = (Inr x, rd_advance (length (tlv_image (ApduTag_as_u8 t) bs)) r)" using assms(2) r by (simp add: decodes_def decodes_at_def)
    ultimately show "\<exists>y. Apdu_decode r = (Inr y, rd_advance (length (tlv_image (ApduTag_as_u8 t) bs)) r) \<and> y = mk x"
      using assms(3) [of r] by (simp add: try_bind_def)
  qed
  with assms(1) show ?thesis unfolding codes_def by blast
qed

lemma plain_tags:
  "list_all (\<lambda>t. ApduTag_unprotect t = None) [AInitiateRequest, AInitiateResponse, AGetRequest, AGetResponse, ASetRequest, ASetResponse,
     AActionRequest, AActionResponse, AAccessRequest, AAccessResponse, ADataNotification, AEventNotificationRequest, AExceptionResponse,
     AConfirmedServiceError, AGeneralBlockTransfer, AGeneralGloCiphering, AGeneralDedCiphering, AGeneralCiphering, AGeneralSigning,
     AGatewayRequest, AGatewayResponse]"
  by code_simp

lemmas plain_tag = plain_tags [unfolded list.pred_inject]

lemma codes_plain:
  assumes "ApduTag_unprotect t = None" "\<not> acse_tag t" "codes fin e (Apdu_decode_body t (ApduTag_as_u8 t)) P"
  shows "codes fin (try_bind (write_u8 (ApduTag_as_u8 t)) (\<lambda>_. e)) Apdu_decode P"
  by (rule codes_service) (use assms in simp_all)

lemma codes_gateway:
  assumes "short_field a"
  shows "codes True (try_bind (write_u8 n) (\<lambda>_. try_bind (write_length_prefixed a) (\<lambda>_. write_bytes p)))
    (try_bind Reader_u8 (\<lambda>network_id. try_bind Reader_length_prefixed (\<lambda>address r.
          case Reader_take_rest r of (payload, r') \<Rightarrow> (Inr (ApGateway b network_id address payload), r'))))
    (\<lambda>y. y = ApGateway b n a p)"
proof (intro codes_eq [OF codes_u8] codes_eq [OF codes_prefixed [OF assms]])
  have "decodes_sat True (\<lambda>r. case Reader_take_rest r of (payload, r') \<Rightarrow> (Inr (ApGateway b n a payload), r')) p (\<lambda>y. y = ApGateway b n a p)"
    unfolding decodes_sat_def
  proof (intro allI impI)
    fix r :: Reader and rest assume r: "rd_wf r" "Reader_rest r = p @ rest" "True \<longrightarrow> rest = []"
    then have "rd_pos r + length p = length (rd_buf r)" by (auto simp: Reader_rest_def rd_wf_def dest!: arg_cong [of _ _ length])
    then show "\<exists>y. (case Reader_take_rest r of (payload, r') \<Rightarrow> (Inr (ApGateway b n a payload), r')) = (Inr y, rd_advance (length p) r) \<and> y = ApGateway b n a p"
      using r by (simp add: Reader_take_rest_def rd_advance_def)
  qed
  then show "codes True (write_bytes p) (\<lambda>r. case Reader_take_rest r of (payload, r') \<Rightarrow> (Inr (ApGateway b n a payload), r')) (\<lambda>y. y = ApGateway b n a p)"
    unfolding codes_def using writes_bytes by blast
qed

lemma codes_apdu:
  assumes "Apdu_valid a"
  shows "codes True (Apdu_encode a) Apdu_decode (\<lambda>y. Apdu_abs y = Apdu_abs a)"
proof (cases a)
  case (ApAarq v)
  with assms have "codes True (Aarq_encode v) Apdu_decode (\<lambda>y. y = ApAarq v)"
    by (intro codes_acse [of _ AAarq "elements (Aarq_parts v)" Aarq_decode]) (simp_all add: aarq.enc_writes aarq.dec_img Apdu_decode_def try_bind_def ApduTag_from_u8_def)
  then show ?thesis using ApAarq by (auto simp: Apdu_encode_def elim: codes_mono)
next
  case (ApAare v)
  with assms have "codes True (Aare_encode v) Apdu_decode (\<lambda>y. y = ApAare v)"
    by (intro codes_acse [of _ AAare "elements (Aare_parts v)" Aare_decode]) (simp_all add: aare.enc_writes aare.dec_img Apdu_decode_def try_bind_def ApduTag_from_u8_def)
  then show ?thesis using ApAare by (auto simp: Apdu_encode_def elim: codes_mono)
next
  case (ApRlrq v)
  with assms have "codes True (Rlrq_encode v) Apdu_decode (\<lambda>y. y = ApRlrq v)"
    by (intro codes_acse [of _ AReleaseRequest "elements (Release_parts v)" Rlrq_decode]) (simp_all add: rlrq.enc_writes rlrq.dec_img Apdu_decode_def try_bind_def ApduTag_from_u8_def)
  then show ?thesis using ApRlrq by (auto simp: Apdu_encode_def elim: codes_mono)
next
  case (ApRlre v)
  with assms have "codes True (Rlre_encode v) Apdu_decode (\<lambda>y. y = ApRlre v)"
    by (intro codes_acse [of _ AReleaseResponse "elements (Release_parts v)" Rlre_decode]) (simp_all add: rlre.enc_writes rlre.dec_img Apdu_decode_def try_bind_def ApduTag_from_u8_def)
  then show ?thesis using ApRlre by (auto simp: Apdu_encode_def elim: codes_mono)
next
  case (ApCiphered p t c)
  then obtain tag where tag: "ApduTag_protected_as p t = Some tag" "p \<noteq> PNone" "ciphered_valid c" using assms by auto
  then have un: "ApduTag_unprotect tag = Some (p, t)" by (intro protected_as_unprotect)
  then have "\<not> acse_tag tag" by (auto simp: acse_tag_def ApduTag_unprotect_def)
  then have "codes True (try_bind (write_u8 (ApduTag_as_u8 tag)) (\<lambda>_. CipheredService_encode c)) Apdu_decode (\<lambda>y. y = a)"
    using ApCiphered tag(3) by (intro codes_service) (auto simp: un intro!: codes_map [OF codes_prim [OF ciphered.enc_writes ciphered.dec_img]])
  then show ?thesis using ApCiphered tag by (auto simp: Apdu_encode_def elim: codes_mono)
next
  case (ApGeneralCiphered p c)
  have "codes True (Apdu_encode a) Apdu_decode (\<lambda>y. y = a)"
    using ApGeneralCiphered assms
    by (cases p) (auto simp: Apdu_encode_def Apdu_decode_body_def plain_tag acse_tag_def simp del: ApduTag_as_u8.simps
        intro!: codes_plain codes_map [OF codes_prim [OF glo.enc_writes glo.dec_img]])
  then show ?thesis by (rule codes_mono) simp
next
  case (ApGateway b n ad p)
  have "codes True (Apdu_encode a) Apdu_decode (\<lambda>y. y = a)"
    using ApGateway assms codes_gateway [of ad n p b]
    by (cases b) (auto simp: Apdu_encode_def Apdu_decode_body_def plain_tag acse_tag_def simp del: ApduTag_as_u8.simps intro!: codes_plain)
  then show ?thesis by (rule codes_mono) simp
qed (use assms in \<open>auto simp: Apdu_encode_def Apdu_decode_body_def plain_tag acse_tag_def simp del: ApduTag_as_u8.simps
    intro!: codes_plain codes_map codes_initiate_request codes_initiate_response codes_get_request codes_get_response codes_set_request codes_set_response
      codes_action_request codes_action_response codes_access codes_notification codes_exception codes_confirmed_error
      codes_prim [OF gbt.enc_writes gbt.dec_img] codes_prim [OF gc.enc_writes gc.dec_img] codes_prim [OF sign.enc_writes sign.dec_img]\<close>)

subsection \<open>Staying inside\<close>

lemma safe_peek_bind:
  assumes "\<And>b. safe_dec n (f b)"
  shows "safe_dec n (try_bind (\<lambda>r. (Reader_peek_u8 r, r)) f)"
proof (intro safe_bind assms)
  show "safe_dec n (\<lambda>r. (Reader_peek_u8 r, r))"
    by (auto simp: safe_dec_def Reader_peek_u8_def Reader_err_def Reader_offset_def rd_wf_def)
qed

lemma safe_skip_bind: "(\<And>u. safe_dec (n + 1) (f u)) \<Longrightarrow> safe_dec n (try_bind (Reader_skip 1) f)"
  unfolding Reader_skip_def try_bind_assoc try_bind_ok by (rule safe_take_bind)

lemma safe_take_rest: "safe_dec n (\<lambda>r. case Reader_take_rest r of (p, r') \<Rightarrow> (Inr (f p), r'))"
  by (auto simp: safe_dec_def Reader_take_rest_def rd_wf_def)

lemma safe_ciphered [safe_intro]: "safe_dec n CipheredService_decode"
proof (rule safe_dec_mono [OF safe_decI le0])
  fix r res r' assume r: "rd_wf r" and run: "CipheredService_decode r = (res, r')"
  define inner where "inner body br0 = fst (try_bind Reader_u8 (\<lambda>control. try_bind Reader_u32 (\<lambda>counter br.
        case Reader_take_rest br of (payload, br') \<Rightarrow>
          (Inr \<lparr>cs_security_control = SecurityControl control, cs_invocation_counter = counter, cs_payload = payload\<rparr>, br')))
        (Reader_with_base body br0))" for body br0
  have inner: "br0 \<le> err_offset e \<and> err_offset e \<le> br0 + length body" if "inner body br0 = Inl e" for body br0 e
  proof -
    have "safe_dec 0 (try_bind Reader_u8 (\<lambda>control. try_bind Reader_u32 (\<lambda>counter br.
        case Reader_take_rest br of (payload, br') \<Rightarrow>
          (Inr \<lparr>cs_security_control = SecurityControl control, cs_invocation_counter = counter, cs_payload = payload\<rparr>, br'))))"
      by (intro safe_intro safe_take_rest)
    from safe_decD(5) [OF this, of "Reader_with_base body br0"] that show ?thesis unfolding inner_def by (metis Reader_with_base_simps(1,3,4,5,6) add_0_right le0 prod.collapse)
  qed
  obtain x r1 where x: "Reader_length_prefixed r = (x, r1)" by fastforce
  note s = safe_decD [OF safe_length_prefixed [of 0] r le0 x]
  show "rd_buf r' = rd_buf r \<and> rd_base r' = rd_base r \<and> rd_pos r \<le> rd_pos r' \<and> rd_wf r' \<and>
     (\<forall>e. res = Inl e \<longrightarrow> Reader_offset r \<le> err_offset e + 0 \<and> err_offset e \<le> rd_base r + length (rd_buf r))"
  proof (cases x)
    case (Inl e)
    with run x have "res = Inl e" "r' = r1" by (simp_all add: CipheredService_decode_def try_bind_def)
    with Inl s show ?thesis by auto
  next
    case (Inr body)
    then have out: "res = inner body (Reader_offset r1 - length body)" "r' = r1"
      using run x by (auto simp: CipheredService_decode_def try_bind_def inner_def)
    have "rd_pos r + length body \<le> rd_pos r1"
    proof -
      obtain len r2 where len: "Reader_length r = (Inr len, r2)" "Reader_take len r2 = (Inr body, r1)"
        using x Inr by (auto simp: Reader_length_prefixed_def elim!: try_bind_InrE)
      note s2 = safe_decD [OF safe_length [of 0] r le0 len(1)]
      from len(2) s2 show ?thesis by (auto simp: Reader_take_eq Reader_rest_def split: if_splits)
    qed
    then have "Reader_offset r \<le> Reader_offset r1 - length body" "Reader_offset r1 - length body + length body \<le> rd_base r + length (rd_buf r)"
      using s(1-4) by (simp_all add: Reader_offset_def rd_wf_def)
    with out s(1-4) inner show ?thesis by fastforce
  qed
qed

lemma safe_protection [safe_intro]:
  "safe_dec n GeneralGloCiphering_decode" "safe_dec n KeyInfo_decode" "safe_dec n GeneralCiphering_decode" "safe_dec n GeneralSigning_decode"
  "safe_dec n GeneralBlockTransfer_decode"
proof -
  show k: "safe_dec n KeyInfo_decode" for n unfolding KeyInfo_decode_def by (auto intro!: safe_u8_bind safe_intro)
  show "safe_dec n GeneralGloCiphering_decode" "safe_dec n GeneralCiphering_decode" "safe_dec n GeneralSigning_decode" "safe_dec n GeneralBlockTransfer_decode"
    unfolding GeneralGloCiphering_decode_def GeneralCiphering_decode_def GeneralSigning_decode_def GeneralBlockTransfer_decode_def
    by (intro safe_intro k)+
qed

lemma safe_apdu_body: "safe_dec (Suc n) (Apdu_decode_body t b)"
  unfolding Apdu_decode_body_def
  by (intro safe_intro safe_take_rest | simp)+

lemma safe_apdu [safe_intro]: "safe_dec n Apdu_decode"
proof -
  have tail: "safe_dec n (try_bind (Reader_skip 1) (\<lambda>_. case ApduTag_unprotect t of
             Some (protection, service) \<Rightarrow> try_bind CipheredService_decode (\<lambda>body. ok (ApCiphered protection service body))
           | None \<Rightarrow> Apdu_decode_body t b))" for t b
    by (rule safe_skip_bind) (auto split: option.split intro!: safe_intro safe_apdu_body)
  show ?thesis unfolding Apdu_decode_def
    by (rule safe_peek_bind, split option.split) (intro conjI allI impI tail safe_intro safe_rd_fail)
qed

subsection \<open>Properties\<close>

text \<open>C22: Every APDU within the limits of its encoding is written as bytes that are read back as the same APDU, whatever its kind: the association
  APDUs with their BER fields, the services, the notifications, the refusals and the protected and forwarded forms.  The limits
  (\<open>Apdu_valid\<close>): fields, contents and counts below \<open>2 ^ 32\<close>; logical names of six bytes and conformance sets of 24 bits; a bit string with
  just the bytes its bits need; lists and nested values that hold as many readable items as they announce, nested no deeper than the decoder goes; a code kept as an
  unknown one is not one that has a name; an exception carries a counter only when it reports a counter error; and
  a ciphered form names a protection that is one, with a tag for the service inside.  What
  \<open>Apdu_abs\<close> leaves out is where the bytes of borrowed values lay in the input.  The length computed in advance is the one written.\<close>

theorem apdu_round_trip:
  assumes "Apdu_valid a"
  shows "\<exists>bs y. Apdu_encode a (VecW []) = (Inr (), VecW bs) \<and> from_bytes Apdu_decode bs = Inr y \<and> Apdu_abs y = Apdu_abs a \<and>
     encoded_len (Apdu_encode a) = length bs"
  by (rule codes_round_trip [OF codes_apdu [OF assms]])

theorem apdu_round_trip_witness:
  "\<exists>bs y. Apdu_encode (ApRlrq \<lparr>rl_reason = Some RrUrgent, rl_user_information = Some [1, 2]\<rparr>) (VecW []) = (Inr (), VecW bs) \<and>
     from_bytes Apdu_decode bs = Inr y \<and> Apdu_abs y = ApRlrq \<lparr>rl_reason = Some RrUrgent, rl_user_information = Some [1, 2]\<rparr>"
proof -
  have "Apdu_valid (ApRlrq \<lparr>rl_reason = Some RrUrgent, rl_user_information = Some [1, 2]\<rparr>)"
    by (simp add: Release_valid_def Release_parts_def part_def octets_part_def ReleaseReason_from_u8_def)
  from apdu_round_trip [OF this] show ?thesis by fastforce
qed

text \<open>Decoding bytes off the network never reads outside them: whatever they are, the buffer is untouched, the cursor only moves forward
  and stays inside, and an error names a position inside the APDU.\<close>

theorem apdu_decode_stays_inside:
  assumes "Apdu_decode (Reader_new bs) = (res, r)"
  shows "rd_buf r = bs \<and> rd_pos r \<le> length bs \<and> (\<forall>e. res = Inl e \<longrightarrow> err_offset e \<le> length bs)"
proof -
  have wf: "rd_wf (Reader_new bs)" by (simp add: Reader_new_def rd_wf_def)
  show ?thesis using safe_decD [OF safe_apdu [of 0] wf le0 assms] assms by (auto simp: Reader_new_def rd_wf_def)
qed

theorem apdu_decode_stays_inside_witness:
  "\<exists>e r. Apdu_decode (Reader_new [0xC0, 0x02, 0x41, 0x00]) = (Inl e, r) \<and> err_offset e \<le> 4 \<and> rd_pos r \<le> 4"
proof -
  have "isl (fst (Apdu_decode (Reader_new [0xC0, 0x02, 0x41, 0x00])))" by code_simp
  then obtain e r where run: "Apdu_decode (Reader_new [0xC0, 0x02, 0x41, 0x00]) = (Inl e, r)"
    by (cases "Apdu_decode (Reader_new [0xC0, 0x02, 0x41, 0x00])") (auto simp: isl_def)
  from apdu_decode_stays_inside [OF run] run show ?thesis by auto
qed

end
