(* ===== verification/Keys.thy ===== *)
theory Keys
  imports Codec
begin

text \<open>
  The keys of \<^verbatim>\<open>src/src/security/keys.rs\<close> (system titles, key usages, keys and secrets of fixed capacity, the key ring, the
  nonce) and the security suites of \<^verbatim>\<open>src/src/security/mod.rs\<close>.  A fixed-size array is a list; where its size matters a
  lemma says so.
\<close>

subsection \<open>Suites\<close>

datatype SecuritySuite = Suite0 | Suite1 | Suite2

fun SecuritySuite_id :: "SecuritySuite \<Rightarrow> u8" where
  "SecuritySuite_id Suite0 = 0"
| "SecuritySuite_id Suite1 = 1"
| "SecuritySuite_id Suite2 = 2"

definition SecuritySuite_from_id :: "u8 \<Rightarrow> SecuritySuite result" where
  "SecuritySuite_from_id v =
     (if v = 0 then Inr Suite0
      else if v = 1 then Inr Suite1
      else if v = 2 then Inr Suite2
      else Inl (Error_new Unsupported 0))"

fun SecuritySuite_key_len :: "SecuritySuite \<Rightarrow> nat" where
  "SecuritySuite_key_len Suite0 = 16"
| "SecuritySuite_key_len Suite1 = 16"
| "SecuritySuite_key_len Suite2 = 32"

definition TAG_LEN :: nat where
  "TAG_LEN = 12"

definition NONCE_LEN :: nat where
  "NONCE_LEN = 12"

text \<open>The derived order of the suites is the order of their ids.\<close>

instantiation SecuritySuite :: linorder
begin

definition less_eq_SecuritySuite :: "SecuritySuite \<Rightarrow> SecuritySuite \<Rightarrow> bool" where
  "less_eq_SecuritySuite s t \<longleftrightarrow> SecuritySuite_id s \<le> SecuritySuite_id t"

definition less_SecuritySuite :: "SecuritySuite \<Rightarrow> SecuritySuite \<Rightarrow> bool" where
  "less_SecuritySuite s t \<longleftrightarrow> SecuritySuite_id s < SecuritySuite_id t"

instance
proof
  fix s t :: SecuritySuite
  assume "s \<le> t" "t \<le> s"
  then have "SecuritySuite_id s = SecuritySuite_id t" by (simp add: less_eq_SecuritySuite_def)
  then show "s = t" by (cases s; cases t) simp_all
qed (auto simp: less_eq_SecuritySuite_def less_SecuritySuite_def)

end

subsection \<open>Names of keys\<close>

datatype SystemTitle = SystemTitle (st_bytes: bytes)

definition SystemTitle_from_slice :: "bytes \<Rightarrow> SystemTitle result" where
  "SystemTitle_from_slice b = (if length b = 8 then Inr (SystemTitle b) else Inl (Error_new InvalidLength 0))"

datatype KeyUsage =
    GlobalUnicastEncryption
  | GlobalBroadcastEncryption
  | Authentication
  | KeyEncrypting
  | DedicatedKey

fun KeyUsage_key_id :: "KeyUsage \<Rightarrow> u8 option" where
  "KeyUsage_key_id GlobalUnicastEncryption = Some 0"
| "KeyUsage_key_id GlobalBroadcastEncryption = Some 1"
| "KeyUsage_key_id Authentication = None"
| "KeyUsage_key_id KeyEncrypting = None"
| "KeyUsage_key_id DedicatedKey = None"

datatype KeyRef = Usage KeyUsage | Raw bytes

subsection \<open>Key material\<close>

record Key =
  key_buf :: bytes
  key_len :: nat

definition Key_MAX_LEN :: nat where
  "Key_MAX_LEN = 32"

definition Key_new :: "bytes \<Rightarrow> Key" where
  "Key_new b = \<lparr>key_buf = overwrite (replicate Key_MAX_LEN 0) 0 (take 16 b), key_len = 16\<rparr>"

definition Key_new_256 :: "bytes \<Rightarrow> Key" where
  "Key_new_256 b = \<lparr>key_buf = b, key_len = 32\<rparr>"

definition Key_from_slice :: "bytes \<Rightarrow> Key result" where
  "Key_from_slice b =
     (if length b \<noteq> 16 \<and> length b \<noteq> 32 then Inl (Error_new InvalidLength 0)
      else Inr \<lparr>key_buf = overwrite (replicate Key_MAX_LEN 0) 0 b, key_len = length b\<rparr>)"

definition Key_expose :: "Key \<Rightarrow> bytes" where
  "Key_expose k = (case slice (key_buf k) 0 (key_len k) of Some b \<Rightarrow> b | None \<Rightarrow> [])"

record Secret =
  sec_buf :: bytes
  sec_len :: nat

definition Secret_MAX_LEN :: nat where
  "Secret_MAX_LEN = 64"

definition Secret_new :: "bytes \<Rightarrow> Secret result" where
  "Secret_new b =
     (if length b > Secret_MAX_LEN then Inl (Error_new InvalidLength 0)
      else Inr \<lparr>sec_buf = overwrite (replicate Secret_MAX_LEN 0) 0 b, sec_len = length b\<rparr>)"

definition Secret_expose :: "Secret \<Rightarrow> bytes" where
  "Secret_expose s = take (sec_len s) (sec_buf s)"

record KeyRing =
  kr_guek :: "Key option"
  kr_gbek :: "Key option"
  kr_gak :: "Key option"
  kr_kek :: "Key option"
  kr_dedicated :: "Key option"

definition KeyRing_new :: "bytes \<Rightarrow> bytes \<Rightarrow> KeyRing" where
  "KeyRing_new guek gak = \<lparr>kr_guek = Some (Key_new guek), kr_gbek = None, kr_gak = Some (Key_new gak),
     kr_kek = None, kr_dedicated = None\<rparr>"

definition KeyRing_new_256 :: "bytes \<Rightarrow> bytes \<Rightarrow> KeyRing" where
  "KeyRing_new_256 guek gak = \<lparr>kr_guek = Some (Key_new_256 guek), kr_gbek = None, kr_gak = Some (Key_new_256 gak),
     kr_kek = None, kr_dedicated = None\<rparr>"

fun KeyRing_slot :: "KeyUsage \<Rightarrow> KeyRing \<Rightarrow> Key option" where
  "KeyRing_slot GlobalUnicastEncryption r = kr_guek r"
| "KeyRing_slot GlobalBroadcastEncryption r = kr_gbek r"
| "KeyRing_slot Authentication r = kr_gak r"
| "KeyRing_slot KeyEncrypting r = kr_kek r"
| "KeyRing_slot DedicatedKey r = kr_dedicated r"

definition KeyRing_get :: "KeyUsage \<Rightarrow> KeyRing \<Rightarrow> bytes option" where
  "KeyRing_get usage r = map_option Key_expose (KeyRing_slot usage r)"

fun KeyRing_set :: "KeyUsage \<Rightarrow> Key \<Rightarrow> KeyRing \<Rightarrow> KeyRing" where
  "KeyRing_set GlobalUnicastEncryption k r = r\<lparr>kr_guek := Some k\<rparr>"
| "KeyRing_set GlobalBroadcastEncryption k r = r\<lparr>kr_gbek := Some k\<rparr>"
| "KeyRing_set Authentication k r = r\<lparr>kr_gak := Some k\<rparr>"
| "KeyRing_set KeyEncrypting k r = r\<lparr>kr_kek := Some k\<rparr>"
| "KeyRing_set DedicatedKey k r = r\<lparr>kr_dedicated := Some k\<rparr>"

definition KeyRing_set_dedicated :: "Key \<Rightarrow> KeyRing \<Rightarrow> KeyRing" where
  "KeyRing_set_dedicated k r = r\<lparr>kr_dedicated := Some k\<rparr>"

definition KeyRing_clear_dedicated :: "KeyRing \<Rightarrow> KeyRing" where
  "KeyRing_clear_dedicated r = r\<lparr>kr_dedicated := None\<rparr>"

text \<open>The twelve bytes of the nonce: the title, then the counter.\<close>

definition nonce :: "SystemTitle \<Rightarrow> u32 \<Rightarrow> bytes" where
  "nonce system_title invocation_counter =
     (let t = st_bytes system_title; c = be_bytes 4 invocation_counter
      in [t ! 0, t ! 1, t ! 2, t ! 3, t ! 4, t ! 5, t ! 6, t ! 7, c ! 0, c ! 1, c ! 2, c ! 3])"

subsection \<open>Properties\<close>

lemma SecuritySuite_id_inverse [simp]:
  "SecuritySuite_from_id (SecuritySuite_id s) = Inr s" "SecuritySuite_id s AND 0x0F = SecuritySuite_id s"
  by (cases s; simp add: SecuritySuite_from_id_def)+

lemma SecuritySuite_from_id_Inr: "SecuritySuite_from_id v = Inr s \<longleftrightarrow> v = SecuritySuite_id s"
  by (auto simp: SecuritySuite_from_id_def split: if_splits) (cases s; simp)+

lemma SecuritySuite_id_inject [simp]: "SecuritySuite_id s = SecuritySuite_id t \<longleftrightarrow> s = t"
  by (cases s; cases t) simp_all

lemma nonce_length: "length (nonce t c) = NONCE_LEN"
  by (simp add: nonce_def NONCE_LEN_def Let_def)

lemma list8: "length b = 8 \<Longrightarrow> [b ! 0, b ! 1, b ! 2, b ! 3, b ! 4, b ! 5, b ! 6, b ! 7] = b"
  by (auto simp: numeral_eq_Suc length_Suc_conv)

lemma list4: "length b = 4 \<Longrightarrow> [b ! 0, b ! 1, b ! 2, b ! 3] = b"
  by (auto simp: numeral_eq_Suc length_Suc_conv)

lemma nonce_eq: "length (st_bytes t) = 8 \<Longrightarrow> nonce t c = st_bytes t @ be_bytes 4 c"
proof -
  assume t: "length (st_bytes t) = 8"
  have "nonce t c = [st_bytes t ! 0, st_bytes t ! 1, st_bytes t ! 2, st_bytes t ! 3, st_bytes t ! 4, st_bytes t ! 5, st_bytes t ! 6, st_bytes t ! 7] @
      [be_bytes 4 c ! 0, be_bytes 4 c ! 1, be_bytes 4 c ! 2, be_bytes 4 c ! 3]"
    by (simp add: nonce_def Let_def)
  then show ?thesis by (simp only: list8 [OF t] list4 [OF length_be_bytes])
qed

lemma Key_from_slice_expose: "Key_from_slice b = Inr k \<Longrightarrow> Key_expose k = b \<and> (length b = 16 \<or> length b = 32)"
  by (auto simp: Key_from_slice_def Key_expose_def overwrite_def slice_def Key_MAX_LEN_def split: if_splits)

lemma Secret_new_expose: "Secret_new b = Inr s \<Longrightarrow> Secret_expose s = b"
  by (auto simp: Secret_new_def Secret_expose_def overwrite_def split: if_splits)

lemma KeyRing_get_set: "KeyRing_get u (KeyRing_set v k r) = (if u = v then Some (Key_expose k) else KeyRing_get u r)"
  by (cases u; cases v) (simp_all add: KeyRing_get_def)

text \<open>Two messages share a nonce only if they were sent under the same system title with the same invocation counter: with eight-byte
  titles the nonce is injective, so a counter that never repeats means a nonce that never repeats under a key.\<close>

theorem nonce_injective:
  assumes "length (st_bytes t) = 8" "length (st_bytes t') = 8"
  shows "nonce t c = nonce t' c' \<longleftrightarrow> t = t' \<and> c = c'"
proof -
  have "c = c'" if "be_bytes 4 c = be_bytes 4 c'" using that be_word_inverses(2) by metis
  then show ?thesis using assms by (cases t; cases t') (auto simp: nonce_eq)
qed

theorem nonce_injective_witness:
  "length (st_bytes (SystemTitle [1, 2, 3, 4, 5, 6, 7, 8])) = 8 \<and>
    nonce (SystemTitle [1, 2, 3, 4, 5, 6, 7, 8]) 1 \<noteq> nonce (SystemTitle [1, 2, 3, 4, 5, 6, 7, 8]) 2"
  using nonce_injective [of "SystemTitle [1, 2, 3, 4, 5, 6, 7, 8]" "SystemTitle [1, 2, 3, 4, 5, 6, 7, 8]" 1 2] by simp

end
