(* ===== verification/Protect.thy ===== *)
theory Protect
  imports Ciphered Keys
begin

text \<open>
  Applying and removing protection, \<^verbatim>\<open>src/src/security/protect.rs\<close>.  The crypto provider is a trait of the source, so
  it is an argument: a record of its operations.  An operation that works in place returns its result and the buffer as
  it leaves it.  What the code relies on is stated by named predicates (\<open>provider_in_place\<close>, \<open>aead_inverse\<close>,
  \<open>ctr_involution\<close>), which are the documented behaviour of an authenticated cipher in counter mode.
\<close>

subsection \<open>The provider\<close>

record CryptoProvider =
  cp_aead_seal :: "KeyRef \<Rightarrow> SecuritySuite \<Rightarrow> bytes \<Rightarrow> bytes \<Rightarrow> bytes \<Rightarrow> bytes result \<times> bytes"
  cp_aead_open :: "KeyRef \<Rightarrow> SecuritySuite \<Rightarrow> bytes \<Rightarrow> bytes \<Rightarrow> bytes \<Rightarrow> bytes \<Rightarrow> unit result \<times> bytes"
  cp_gmac :: "KeyRef \<Rightarrow> SecuritySuite \<Rightarrow> bytes \<Rightarrow> bytes list \<Rightarrow> bytes result"
  cp_authentication_key :: "bytes option"

text \<open>A slice keeps its length when it is encrypted in place, and a tag has twelve bytes.\<close>

definition provider_in_place :: "CryptoProvider \<Rightarrow> bool" where
  "provider_in_place p \<longleftrightarrow>
     (\<forall>k s n aad buf. length (snd (cp_aead_seal p k s n aad buf)) = length buf \<and>
        (\<forall>tag. fst (cp_aead_seal p k s n aad buf) = Inr tag \<longrightarrow> length tag = TAG_LEN)) \<and>
     (\<forall>k s n aad buf tag. length (snd (cp_aead_open p k s n aad buf tag)) = length buf) \<and>
     (\<forall>k s n segs tag. cp_gmac p k s n segs = Inr tag \<longrightarrow> length tag = TAG_LEN)"

text \<open>Opening what was sealed, under the same key, nonce and additional data, gives the plaintext back.\<close>

definition aead_inverse :: "CryptoProvider \<Rightarrow> bool" where
  "aead_inverse p \<longleftrightarrow> (\<forall>k s n aad buf tag c. cp_aead_seal p k s n aad buf = (Inr tag, c) \<longrightarrow>
     cp_aead_open p k s n aad c tag = (Inr (), buf))"

text \<open>Counter mode: encrypting the ciphertext under the same nonce recovers the plaintext.\<close>

definition ctr_involution :: "CryptoProvider \<Rightarrow> bool" where
  "ctr_involution p \<longleftrightarrow> (\<forall>k s n aad buf tag c. cp_aead_seal p k s n aad buf = (Inr tag, c) \<longrightarrow>
     (\<exists>tag'. cp_aead_seal p k s n aad c = (Inr tag', buf)))"

subsection \<open>Key sets and policies\<close>

datatype KeySet = KsGlobalUnicast | KsGlobalBroadcast | KsDedicated

fun KeySet_usage :: "KeySet \<Rightarrow> KeyUsage" where
  "KeySet_usage KsGlobalUnicast = GlobalUnicastEncryption"
| "KeySet_usage KsGlobalBroadcast = GlobalBroadcastEncryption"
| "KeySet_usage KsDedicated = DedicatedKey"

definition KeySet_is_broadcast :: "KeySet \<Rightarrow> bool" where
  "KeySet_is_broadcast k \<longleftrightarrow> k = KsGlobalBroadcast"

definition KeySet_is_dedicated :: "KeySet \<Rightarrow> bool" where
  "KeySet_is_dedicated k \<longleftrightarrow> k = KsDedicated"

record SecurityPolicy =
  sp_suite :: SecuritySuite
  sp_authenticated :: bool
  sp_encrypted :: bool
  sp_key_set :: KeySet

definition SecurityPolicy_NONE :: SecurityPolicy where
  "SecurityPolicy_NONE = \<lparr>sp_suite = Suite0, sp_authenticated = False, sp_encrypted = False, sp_key_set = KsGlobalUnicast\<rparr>"

definition SecurityPolicy_authenticated_encrypted :: "SecuritySuite \<Rightarrow> SecurityPolicy" where
  "SecurityPolicy_authenticated_encrypted suite =
     \<lparr>sp_suite = suite, sp_authenticated = True, sp_encrypted = True, sp_key_set = KsGlobalUnicast\<rparr>"

definition SecurityPolicy_global :: "SecurityPolicy \<Rightarrow> SecurityPolicy" where
  "SecurityPolicy_global p = p\<lparr>sp_key_set := KsGlobalUnicast\<rparr>"

definition SecurityPolicy_with_dedicated :: "bool \<Rightarrow> SecurityPolicy \<Rightarrow> SecurityPolicy" where
  "SecurityPolicy_with_dedicated dedicated p = p\<lparr>sp_key_set := if dedicated then KsDedicated else KsGlobalUnicast\<rparr>"

definition SecurityPolicy_with_broadcast :: "bool \<Rightarrow> SecurityPolicy \<Rightarrow> SecurityPolicy" where
  "SecurityPolicy_with_broadcast broadcast p = p\<lparr>sp_key_set := if broadcast then KsGlobalBroadcast else KsGlobalUnicast\<rparr>"

definition SecurityPolicy_dedicated :: "SecurityPolicy \<Rightarrow> bool" where
  "SecurityPolicy_dedicated p \<longleftrightarrow> KeySet_is_dedicated (sp_key_set p)"

definition SecurityPolicy_broadcast :: "SecurityPolicy \<Rightarrow> bool" where
  "SecurityPolicy_broadcast p \<longleftrightarrow> KeySet_is_broadcast (sp_key_set p)"

definition SecurityPolicy_key_usage :: "SecurityPolicy \<Rightarrow> KeyUsage" where
  "SecurityPolicy_key_usage p = KeySet_usage (sp_key_set p)"

definition SecurityPolicy_control :: "SecurityPolicy \<Rightarrow> SecurityControl" where
  "SecurityPolicy_control p = SecurityControl_with_broadcast (KeySet_is_broadcast (sp_key_set p))
     (SecurityControl_new (SecuritySuite_id (sp_suite p)) (sp_authenticated p) (sp_encrypted p))"

definition SecurityPolicy_is_none :: "SecurityPolicy \<Rightarrow> bool" where
  "SecurityPolicy_is_none p \<longleftrightarrow> \<not> sp_authenticated p \<and> \<not> sp_encrypted p"

definition SecurityPolicy_check_received :: "SecurityPolicy \<Rightarrow> SecurityControl \<Rightarrow> unit result" where
  "SecurityPolicy_check_received p control =
     (if SecurityControl_compressed control then Inl (Error_new Unsupported 0)
      else if SecurityControl_broadcast_key control \<noteq> KeySet_is_broadcast (sp_key_set p)
      then Inl (Error_new UnexpectedMessage 0)
      else if SecurityPolicy_is_none p then Inr ()
      else if SecurityControl_suite control \<noteq> SecuritySuite_id (sp_suite p) \<or>
          sp_authenticated p \<and> \<not> SecurityControl_authenticated control \<or>
          sp_encrypted p \<and> \<not> SecurityControl_encrypted control
      then Inl (Error_new UnexpectedMessage 0)
      else Inr ())"

subsection \<open>The protector\<close>

record Protector =
  pr_provider :: CryptoProvider
  pr_policy :: SecurityPolicy

definition Protector_set_dedicated :: "bool \<Rightarrow> Protector \<Rightarrow> Protector" where
  "Protector_set_dedicated dedicated t = t\<lparr>pr_policy := SecurityPolicy_with_dedicated dedicated (pr_policy t)\<rparr>"

definition Protector_auth_key :: "Protector \<Rightarrow> bytes option" where
  "Protector_auth_key t = cp_authentication_key (pr_provider t)"

definition build_aad :: "SecurityControl \<Rightarrow> bytes \<Rightarrow> bytes result" where
  "build_aad control auth_key =
     (if 1 + length auth_key > 1 + Key_MAX_LEN then Inl (Error_new Unsupported 0)
      else Inr (sc_byte control # auth_key))"

text \<open>The comparison without the \<^verbatim>\<open>crypto\<close> feature; with it, \<^verbatim>\<open>ct_eq\<close> decides the same question.\<close>

definition constant_time_eq :: "bytes \<Rightarrow> bytes \<Rightarrow> bool" where
  "constant_time_eq a b \<longleftrightarrow> length a = length b \<and> foldl (\<lambda>diff (x, y). diff OR (x XOR y)) 0 (zip a b) = 0"

definition Protector_gmac_with :: "Protector \<Rightarrow> SecurityPolicy \<Rightarrow> SecurityControl \<Rightarrow> bytes \<Rightarrow> bytes \<Rightarrow> bytes \<Rightarrow> bytes result" where
  "Protector_gmac_with t policy control auth_key iv d =
     res_bind (SecuritySuite_from_id (SecurityControl_suite control)) (\<lambda>suite.
       cp_gmac (pr_provider t) (Usage (SecurityPolicy_key_usage policy)) suite iv [[sc_byte control], auth_key, d])"

definition Protector_gmac_over :: "Protector \<Rightarrow> SecurityControl \<Rightarrow> bytes \<Rightarrow> bytes \<Rightarrow> bytes \<Rightarrow> bytes result" where
  "Protector_gmac_over t control auth_key iv d = Protector_gmac_with t (pr_policy t) control auth_key iv d"

text \<open>
  \<^verbatim>\<open>protect_as\<close> writes into \<open>out\<close>; the result is the slice of it that holds the payload.  The second component is \<open>out\<close> as
  it is left, also on an error.
\<close>

definition Protector_protect_as ::
  "Protector \<Rightarrow> SecurityPolicy \<Rightarrow> SystemTitle \<Rightarrow> u32 \<Rightarrow> bytes \<Rightarrow> bytes \<Rightarrow> bytes \<Rightarrow> bytes result \<times> bytes" where
  "Protector_protect_as t policy system_title invocation_counter auth_key plaintext out =
     (let control = SecurityPolicy_control policy;
          iv = nonce system_title invocation_counter;
          key = Usage (SecurityPolicy_key_usage policy);
          n = length plaintext
      in if SecurityPolicy_is_none policy then
           (if n \<le> length out then (let out = overwrite out 0 plaintext in (Inr (take n out), out))
            else (Inl (Error_new (BufferTooSmall n) 0), out))
         else
           let needed = n + (if sp_authenticated policy then TAG_LEN else 0) in
           if length out < needed then (Inl (Error_new (BufferTooSmall (needed - length out)) 0), out)
           else
             let out = overwrite out 0 plaintext in
             if sp_authenticated policy \<and> sp_encrypted policy then
               (case build_aad control auth_key of
                  Inl e \<Rightarrow> (Inl e, out)
                | Inr aad \<Rightarrow>
                    (case cp_aead_seal (pr_provider t) key (sp_suite policy) iv aad (take n out) of
                       (Inl e, buf) \<Rightarrow> (Inl e, overwrite out 0 buf)
                     | (Inr tag, buf) \<Rightarrow>
                         let out = overwrite (overwrite out 0 buf) n tag in (Inr (take needed out), out)))
             else if sp_authenticated policy then
               (case Protector_gmac_with t policy control auth_key iv plaintext of
                  Inl e \<Rightarrow> (Inl e, out)
                | Inr tag \<Rightarrow> let out = overwrite out n tag in (Inr (take needed out), out))
             else
               (case cp_aead_seal (pr_provider t) key (sp_suite policy) iv [] (take n out) of
                  (Inl e, buf) \<Rightarrow> (Inl e, overwrite out 0 buf)
                | (Inr _, buf) \<Rightarrow> let out = overwrite out 0 buf in (Inr (take needed out), out)))"

definition Protector_protect :: "Protector \<Rightarrow> SystemTitle \<Rightarrow> u32 \<Rightarrow> bytes \<Rightarrow> bytes \<Rightarrow> bytes \<Rightarrow> bytes result \<times> bytes" where
  "Protector_protect t system_title invocation_counter auth_key plaintext out =
     Protector_protect_as t (pr_policy t) system_title invocation_counter auth_key plaintext out"

text \<open>\<^verbatim>\<open>aead_open_unauthenticated\<close>: the tag that the seal returns is dropped.\<close>

definition aead_open_unauthenticated :: "CryptoProvider \<Rightarrow> KeyRef \<Rightarrow> SecuritySuite \<Rightarrow> bytes \<Rightarrow> bytes \<Rightarrow> unit result \<times> bytes" where
  "aead_open_unauthenticated p key suite iv buf =
     (case cp_aead_seal p key suite iv [] buf of (Inl e, buf') \<Rightarrow> (Inl e, buf') | (Inr _, buf') \<Rightarrow> (Inr (), buf'))"

definition Protector_unprotect_as ::
  "Protector \<Rightarrow> SecurityPolicy \<Rightarrow> SecurityControl \<Rightarrow> SystemTitle \<Rightarrow> u32 \<Rightarrow> bytes \<Rightarrow> bytes \<Rightarrow> bytes result \<times> bytes" where
  "Protector_unprotect_as t policy control system_title invocation_counter auth_key payload =
     (case SecurityPolicy_check_received policy control of
        Inl e \<Rightarrow> (Inl e, payload)
      | Inr _ \<Rightarrow>
          let iv = nonce system_title invocation_counter;
              key = Usage (SecurityPolicy_key_usage policy)
          in case SecuritySuite_from_id (SecurityControl_suite control) of
               Inl e \<Rightarrow> (Inl e, payload)
             | Inr suite \<Rightarrow>
                 if SecurityControl_is_plain control then (Inr payload, payload)
                 else if \<not> SecurityControl_authenticated control then
                   (case aead_open_unauthenticated (pr_provider t) key suite iv payload of
                      (Inl e, payload') \<Rightarrow> (Inl e, payload')
                    | (Inr _, payload') \<Rightarrow> (Inr payload', payload'))
                 else if length payload < TAG_LEN then (Inl (Error_new InvalidLength 0), payload)
                 else
                   let len = length payload - TAG_LEN;
                       tag = drop len payload
                   in if SecurityControl_encrypted control then
                        (case build_aad control auth_key of
                           Inl e \<Rightarrow> (Inl e, payload)
                         | Inr aad \<Rightarrow>
                             (case cp_aead_open (pr_provider t) key suite iv aad (take len payload) tag of
                                (Inl e, buf) \<Rightarrow> (Inl e, overwrite payload 0 buf)
                              | (Inr _, buf) \<Rightarrow>
                                  let payload = overwrite payload 0 buf in (Inr (take len payload), payload)))
                      else
                        (case Protector_gmac_with t policy control auth_key iv (take len payload) of
                           Inl e \<Rightarrow> (Inl e, payload)
                         | Inr expected \<Rightarrow>
                             if \<not> constant_time_eq expected tag then (Inl (Error_new BadTag 0), payload)
                             else (Inr (take len payload), payload)))"

definition Protector_unprotect :: "Protector \<Rightarrow> SecurityControl \<Rightarrow> SystemTitle \<Rightarrow> u32 \<Rightarrow> bytes \<Rightarrow> bytes \<Rightarrow> bytes result \<times> bytes" where
  "Protector_unprotect t control system_title invocation_counter auth_key payload =
     Protector_unprotect_as t (pr_policy t) control system_title invocation_counter auth_key payload"

subsection \<open>HLS mechanism 5\<close>

definition Protector_hls_gmac_response :: "Protector \<Rightarrow> SystemTitle \<Rightarrow> u32 \<Rightarrow> bytes \<Rightarrow> bytes \<Rightarrow> bytes result" where
  "Protector_hls_gmac_response t system_title invocation_counter auth_key challenge =
     (let control = SecurityControl_new (SecuritySuite_id (sp_suite (pr_policy t))) True False;
          iv = nonce system_title invocation_counter
      in res_bind (Protector_gmac_with t (SecurityPolicy_global (pr_policy t)) control auth_key iv challenge) (\<lambda>tag.
           Inr (sc_byte control # be_bytes 4 invocation_counter @ tag)))"

definition Protector_verify_hls_gmac :: "Protector \<Rightarrow> SystemTitle \<Rightarrow> bytes \<Rightarrow> bytes \<Rightarrow> bytes \<Rightarrow> unit result" where
  "Protector_verify_hls_gmac t peer_title auth_key challenge response =
     (if length response \<noteq> 17 then Inl (Error_new InvalidLength 0)
      else
        let control = SecurityControl (response ! 0) in
        if \<not> SecurityControl_authenticated control \<or> SecurityControl_encrypted control \<or>
            SecurityControl_broadcast_key control \<or> SecurityControl_compressed control \<or>
            SecurityControl_suite control \<noteq> SecuritySuite_id (sp_suite (pr_policy t))
        then Inl (Error_new UnexpectedMessage 0)
        else
          let ic = be_word [response ! 1, response ! 2, response ! 3, response ! 4];
              iv = nonce peer_title ic
          in res_bind (Protector_gmac_with t (SecurityPolicy_global (pr_policy t)) control auth_key iv challenge) (\<lambda>expected.
               if constant_time_eq expected (drop 5 response) then Inr () else Inl (Error_new BadTag 0)))"

subsection \<open>Comparing in constant time\<close>

lemma or_xor_fold_zero:
  "foldl (\<lambda>diff (x, y). diff OR (x XOR y)) d ps = 0 \<longleftrightarrow> d = (0 :: u8) \<and> (\<forall>(x, y)\<in>set ps. x = y)"
proof (induction ps arbitrary: d)
  case (Cons xy ps)
  have "d OR (x XOR y) = 0 \<longleftrightarrow> d = 0 \<and> x = y" for x y :: u8
    by (auto simp: bit_eq_iff bit_simps)
  with Cons show ?case by (cases xy) auto
qed simp

lemma constant_time_eq_iff: "constant_time_eq a b \<longleftrightarrow> a = b"
  unfolding constant_time_eq_def or_xor_fold_zero
  by (simp add: list_all2_eq list_all2_iff)

subsection \<open>The control byte of a policy\<close>

lemma policy_control_bits [simp]:
  "SecurityControl_authenticated (SecurityPolicy_control p) = sp_authenticated p"
  "SecurityControl_encrypted (SecurityPolicy_control p) = sp_encrypted p"
  "SecurityControl_broadcast_key (SecurityPolicy_control p) = KeySet_is_broadcast (sp_key_set p)"
  "SecurityControl_compressed (SecurityPolicy_control p) = False"
  "SecurityControl_suite (SecurityPolicy_control p) = SecuritySuite_id (sp_suite p)"
  by (simp_all add: SecurityPolicy_control_def)

lemma check_received_own [simp]: "SecurityPolicy_check_received p (SecurityPolicy_control p) = Inr ()"
  by (simp add: SecurityPolicy_check_received_def)

lemma check_received_Inr:
  "SecurityPolicy_check_received p c = Inr () \<longleftrightarrow>
     \<not> SecurityControl_compressed c \<and> SecurityControl_broadcast_key c = KeySet_is_broadcast (sp_key_set p) \<and>
     (SecurityPolicy_is_none p \<or> SecurityControl_suite c = SecuritySuite_id (sp_suite p) \<and>
        (sp_authenticated p \<longrightarrow> SecurityControl_authenticated c) \<and> (sp_encrypted p \<longrightarrow> SecurityControl_encrypted c))"
  by (auto simp: SecurityPolicy_check_received_def)

subsection \<open>Protecting and opening\<close>

lemma overwrite_front: "overwrite out 0 b = b @ drop (length b) out"
  by (simp add: overwrite_def)

lemma take_front [simp]: "take (length b) (overwrite out 0 b) = b"
  by (simp add: overwrite_front)

lemma overwrite_behind: "n = length b \<Longrightarrow> overwrite (b @ out) n tag = b @ tag @ drop (length tag) out"
  by (simp add: overwrite_def)

lemma provider_in_placeD:
  assumes "provider_in_place p"
  shows "cp_aead_seal p k s n aad buf = (res, c) \<Longrightarrow> length c = length buf"
    "cp_aead_seal p k s n aad buf = (Inr tag, c) \<Longrightarrow> length tag = TAG_LEN"
    "cp_aead_open p k s n aad buf tag = (r, c) \<Longrightarrow> length c = length buf"
    "cp_gmac p k s n segs = Inr tag \<Longrightarrow> length tag = TAG_LEN"
  using assms unfolding provider_in_place_def by (metis fst_conv snd_conv)+

text \<open>What each mode puts into the payload.\<close>

lemma protect_as_Inr:
  assumes "Protector_protect_as t pol title ic ak plain out = (Inr payload, out')" "provider_in_place (pr_provider t)"
  obtains (none) "SecurityPolicy_is_none pol" "payload = plain"
  | (sealed) tag c where "sp_authenticated pol" "sp_encrypted pol" "length ak \<le> Key_MAX_LEN"
      "cp_aead_seal (pr_provider t) (Usage (SecurityPolicy_key_usage pol)) (sp_suite pol) (nonce title ic)
        (sc_byte (SecurityPolicy_control pol) # ak) plain = (Inr tag, c)" "payload = c @ tag"
  | (macced) tag where "sp_authenticated pol" "\<not> sp_encrypted pol"
      "Protector_gmac_with t pol (SecurityPolicy_control pol) ak (nonce title ic) plain = Inr tag" "payload = plain @ tag"
  | (hidden) tag where "\<not> sp_authenticated pol" "sp_encrypted pol"
      "cp_aead_seal (pr_provider t) (Usage (SecurityPolicy_key_usage pol)) (sp_suite pol) (nonce title ic) [] plain = (Inr tag, payload)"
proof (cases "SecurityPolicy_is_none pol")
  case True
  with assms(1) show thesis by (intro none) (auto simp: Protector_protect_as_def Let_def overwrite_front split: if_splits)
next
  case False
  define needed where "needed = length plain + (if sp_authenticated pol then TAG_LEN else 0)"
  have room: "\<not> length out < needed"
  proof
    assume "length out < needed"
    with False assms(1) show False by (simp add: Protector_protect_as_def Let_def needed_def)
  qed
  let ?prov = "pr_provider t" and ?key = "Usage (SecurityPolicy_key_usage pol)" and ?suite = "sp_suite pol" and ?iv = "nonce title ic"
  let ?control = "SecurityPolicy_control pol" and ?out = "overwrite out 0 plain" and ?n = "length plain"
  consider (ae) "sp_authenticated pol" "sp_encrypted pol" | (a) "sp_authenticated pol" "\<not> sp_encrypted pol"
    | (e) "\<not> sp_authenticated pol" "sp_encrypted pol" using False by (auto simp: SecurityPolicy_is_none_def)
  then show thesis
  proof cases
    case ae
    have run: "(case build_aad ?control ak of Inl e \<Rightarrow> (Inl e, ?out)
        | Inr aad \<Rightarrow> (case cp_aead_seal ?prov ?key ?suite ?iv aad plain of (Inl e, buf) \<Rightarrow> (Inl e, overwrite ?out 0 buf)
          | (Inr tag, buf) \<Rightarrow> (Inr (take needed (overwrite (overwrite ?out 0 buf) ?n tag)), overwrite (overwrite ?out 0 buf) ?n tag)))
        = (Inr payload, out')"
      using assms(1) False room ae unfolding Protector_protect_as_def Let_def needed_def by (simp cong: sum.case_cong prod.case_cong)
    then obtain aad where aad: "build_aad ?control ak = Inr aad" by (cases "build_aad ?control ak") auto
    with run obtain tag c where seal: "cp_aead_seal ?prov ?key ?suite ?iv aad plain = (Inr tag, c)"
      and pay: "payload = take needed (overwrite (overwrite ?out 0 c) ?n tag)"
      by (cases "cp_aead_seal ?prov ?key ?suite ?iv aad plain"; cases "fst (cp_aead_seal ?prov ?key ?suite ?iv aad plain)") auto
    from provider_in_placeD(1,2) [OF assms(2)] seal have "length c = length plain" "length tag = TAG_LEN" by blast+
    then have "payload = c @ tag" using pay ae by (simp add: overwrite_front overwrite_behind needed_def)
    moreover have "aad = sc_byte ?control # ak" "length ak \<le> Key_MAX_LEN" using aad by (auto simp: build_aad_def split: if_splits)
    ultimately show thesis using ae seal by (intro sealed [of tag c]) auto
  next
    case a
    have run: "(case Protector_gmac_with t pol ?control ak ?iv plain of Inl e \<Rightarrow> (Inl e, ?out)
        | Inr tag \<Rightarrow> (Inr (take needed (overwrite ?out ?n tag)), overwrite ?out ?n tag)) = (Inr payload, out')"
      using assms(1) False room a unfolding Protector_protect_as_def Let_def needed_def by (simp cong: sum.case_cong prod.case_cong)
    then obtain tag where mac: "Protector_gmac_with t pol ?control ak ?iv plain = Inr tag"
      and pay: "payload = take needed (overwrite ?out ?n tag)"
      by (cases "Protector_gmac_with t pol ?control ak ?iv plain") auto
    from mac provider_in_placeD(4) [OF assms(2)] have "length tag = TAG_LEN" by (auto simp: Protector_gmac_with_def)
    then have "payload = plain @ tag" using pay a by (simp add: overwrite_front overwrite_behind needed_def)
    with a mac show thesis by (intro macced)
  next
    case e
    have run: "(case cp_aead_seal ?prov ?key ?suite ?iv [] plain of (Inl e, buf) \<Rightarrow> (Inl e, overwrite ?out 0 buf)
        | (Inr _, buf) \<Rightarrow> (Inr (take needed (overwrite ?out 0 buf)), overwrite ?out 0 buf)) = (Inr payload, out')"
      using assms(1) False room e unfolding Protector_protect_as_def Let_def needed_def by (simp cong: sum.case_cong prod.case_cong)
    then obtain tag c where seal: "cp_aead_seal ?prov ?key ?suite ?iv [] plain = (Inr tag, c)" and pay: "payload = take needed (overwrite ?out 0 c)"
      by (cases "cp_aead_seal ?prov ?key ?suite ?iv [] plain"; cases "fst (cp_aead_seal ?prov ?key ?suite ?iv [] plain)") auto
    from provider_in_placeD(1) [OF assms(2) seal] pay e have "payload = c" by (simp add: overwrite_front needed_def)
    with e seal show thesis by (intro hidden) auto
  qed
qed

lemma unprotect_protected:
  assumes prot: "Protector_protect_as t pol title ic ak plain out = (Inr payload, out')"
    and laws: "provider_in_place (pr_provider t)" "aead_inverse (pr_provider t)" "ctr_involution (pr_provider t)"
  shows "\<exists>rest. Protector_unprotect_as t pol (SecurityPolicy_control pol) title ic ak payload = (Inr plain, rest)"
  using prot laws(1)
proof (cases rule: protect_as_Inr)
  case none
  then show ?thesis by (auto simp: Protector_unprotect_as_def SecurityControl_is_plain_def SecurityPolicy_is_none_def)
next
  case (sealed tag c)
  have len: "length tag = TAG_LEN" "length c = length plain" using provider_in_placeD(1,2) [OF laws(1)] sealed(4) by blast+
  have "cp_aead_open (pr_provider t) (Usage (SecurityPolicy_key_usage pol)) (sp_suite pol) (nonce title ic)
        (sc_byte (SecurityPolicy_control pol) # ak) c tag = (Inr (), plain)"
    using laws(2) sealed(4) by (simp add: aead_inverse_def)
  with sealed len show ?thesis
    by (simp add: Protector_unprotect_as_def SecurityControl_is_plain_def build_aad_def Let_def overwrite_front)
next
  case (macced tag)
  have "length tag = TAG_LEN"
    using macced(3) provider_in_placeD(4) [OF laws(1)] by (auto simp: Protector_gmac_with_def)
  with macced show ?thesis
    by (simp add: Protector_unprotect_as_def SecurityControl_is_plain_def constant_time_eq_iff Let_def)
next
  case (hidden tag)
  then obtain tag' where "cp_aead_seal (pr_provider t) (Usage (SecurityPolicy_key_usage pol)) (sp_suite pol) (nonce title ic) [] payload = (Inr tag', plain)"
    using laws(3) unfolding ctr_involution_def by blast
  with hidden show ?thesis
    by (simp add: Protector_unprotect_as_def SecurityControl_is_plain_def aead_open_unauthenticated_def)
qed

text \<open>What it means that a payload has been verified under a policy that demands authentication.\<close>

definition verified :: "Protector \<Rightarrow> SecurityPolicy \<Rightarrow> SecurityControl \<Rightarrow> SystemTitle \<Rightarrow> u32 \<Rightarrow> bytes \<Rightarrow> bytes \<Rightarrow> bytes \<Rightarrow> bool" where
  "verified t pol control title ic ak payload plain \<longleftrightarrow>
     TAG_LEN \<le> length payload \<and> SecurityControl_suite control = SecuritySuite_id (sp_suite pol) \<and>
     SecurityControl_authenticated control \<and> (sp_encrypted pol \<longrightarrow> SecurityControl_encrypted control) \<and>
     SecurityControl_broadcast_key control = KeySet_is_broadcast (sp_key_set pol) \<and>
     (let len = length payload - TAG_LEN in
      if SecurityControl_encrypted control
      then cp_aead_open (pr_provider t) (Usage (SecurityPolicy_key_usage pol)) (sp_suite pol) (nonce title ic)
             (sc_byte control # ak) (take len payload) (drop len payload) = (Inr (), plain)
      else plain = take len payload \<and>
           cp_gmac (pr_provider t) (Usage (SecurityPolicy_key_usage pol)) (sp_suite pol) (nonce title ic)
             [[sc_byte control], ak, plain] = Inr (drop len payload))"

lemma unprotect_verified:
  assumes "Protector_unprotect_as t pol control title ic ak payload = (Inr plain, rest)" "sp_authenticated pol"
    and "provider_in_place (pr_provider t)"
  shows "verified t pol control title ic ak payload plain"
proof -
  from assms(1) have "SecurityPolicy_check_received pol control = Inr ()"
    by (auto simp: Protector_unprotect_as_def split: sum.splits)
  with assms(2) have chk: "SecurityControl_broadcast_key control = KeySet_is_broadcast (sp_key_set pol)"
    "SecurityControl_suite control = SecuritySuite_id (sp_suite pol)" "SecurityControl_authenticated control"
    "sp_encrypted pol \<longrightarrow> SecurityControl_encrypted control" "SecurityPolicy_check_received pol control = Inr ()"
    by (auto simp: check_received_Inr SecurityPolicy_is_none_def)
  define len where "len = length payload - TAG_LEN"
  have long: "\<not> length payload < TAG_LEN"
    using assms(1) chk by (auto simp: Protector_unprotect_as_def SecurityControl_is_plain_def Let_def)
  note run = assms(1) [unfolded Protector_unprotect_as_def chk(2,5) SecuritySuite_id_inverse Let_def len_def [symmetric]]
  show ?thesis
  proof (cases "SecurityControl_encrypted control")
    case True
    with run chk long obtain buf where opened: "cp_aead_open (pr_provider t) (Usage (SecurityPolicy_key_usage pol)) (sp_suite pol) (nonce title ic)
        (sc_byte control # ak) (take len payload) (drop len payload) = (Inr (), buf)" and plain: "plain = take len (overwrite payload 0 buf)"
      by (auto simp: SecurityControl_is_plain_def build_aad_def split: sum.splits prod.splits if_splits)
    have "length buf = len" using provider_in_placeD(3) [OF assms(3) opened] by (simp add: len_def)
    with plain have "plain = buf" by (simp add: overwrite_front)
    with opened True chk long show ?thesis by (simp add: verified_def len_def Let_def)
  next
    case False
    with run chk long have "Protector_gmac_with t pol control ak (nonce title ic) (take len payload) = Inr (drop len payload)"
      "plain = take len payload"
      by (auto simp: SecurityControl_is_plain_def constant_time_eq_iff split: sum.splits if_splits)
    with False chk long show ?thesis by (simp add: verified_def len_def Let_def Protector_gmac_with_def)
  qed
qed

subsection \<open>The answer to a challenge\<close>

lemma hls_response_Inr:
  assumes "Protector_hls_gmac_response t title ic ak challenge = Inr response" "provider_in_place (pr_provider t)"
  obtains tag where "response = sc_byte (SecurityControl_new (SecuritySuite_id (sp_suite (pr_policy t))) True False) # be_bytes 4 ic @ tag"
    "Protector_gmac_with t (SecurityPolicy_global (pr_policy t)) (SecurityControl_new (SecuritySuite_id (sp_suite (pr_policy t))) True False)
      ak (nonce title ic) challenge = Inr tag" "length tag = TAG_LEN"
  using assms provider_in_placeD(4) [OF assms(2)]
  by (auto simp: Protector_hls_gmac_response_def Let_def Protector_gmac_with_def res_bind_def split: sum.splits)

lemma and_bit4: "(b :: u8) AND 0x10 \<noteq> 0 \<Longrightarrow> b AND 0x10 = 0x10"
proof -
  have sixteen: "(0x10 :: u8) = 2 ^ 4" by simp
  assume "b AND 0x10 \<noteq> 0"
  then have "bit b 4" unfolding sixteen and_exp_eq_0_iff_not_bit by simp
  then show ?thesis unfolding sixteen
    by (intro bit_eqI) (auto simp only: bit_and_iff bit_exp_iff)
qed

text \<open>A control byte with the authentication bit and nothing else but the suite is the one the response uses.\<close>

lemma control_only_authenticated:
  assumes "SecurityControl_authenticated c" "\<not> SecurityControl_encrypted c" "\<not> SecurityControl_broadcast_key c"
    "\<not> SecurityControl_compressed c" "SecurityControl_suite c = SecuritySuite_id s"
  shows "c = SecurityControl_new (SecuritySuite_id s) True False"
proof -
  obtain b where c: "c = SecurityControl b" by (cases c)
  have parts: "b = (b AND 0x0F) OR (b AND 0x10) OR (b AND 0x20) OR (b AND 0x40) OR (b AND 0x80)"
  proof -
    have "(0x0F OR 0x10 OR 0x20 OR 0x40 OR 0x80 :: u8) = - 1" by simp
    then have "b AND (0x0F OR 0x10 OR 0x20 OR 0x40 OR 0x80) = b" by (simp only: bit.conj_one_right)
    then show ?thesis by (simp only: bit.conj_disj_distrib)
  qed
  have "b = SecuritySuite_id s OR 0x10"
    using parts assms and_bit4 [of b] c
    by (simp add: SecurityControl_authenticated_def SecurityControl_encrypted_def SecurityControl_broadcast_key_def
        SecurityControl_compressed_def SecurityControl_suite_def)
  then show ?thesis by (simp add: c SecurityControl_new_def Let_def)
qed

lemma length_17: "length r = 17 \<Longrightarrow> r = r ! 0 # [r ! 1, r ! 2, r ! 3, r ! 4] @ drop 5 r"
proof -
  assume "length r = 17"
  then have "take 5 r = [r ! 0, r ! 1, r ! 2, r ! 3, r ! 4]" by (simp add: numeral_eq_Suc take_Suc_conv_app_nth)
  then show ?thesis using append_take_drop_id [of 5 r] by simp
qed

subsection \<open>A provider to evaluate with\<close>

definition demo_provider :: CryptoProvider where
  "demo_provider = \<lparr>
     cp_aead_seal = (\<lambda>k s n aad buf. (Inr (replicate 12 (of_nat (length aad))), map (\<lambda>b. b XOR 0x5A) buf)),
     cp_aead_open = (\<lambda>k s n aad buf tag. if tag = replicate 12 (of_nat (length aad)) then (Inr (), map (\<lambda>b. b XOR 0x5A) buf)
       else (Inl (Error_new BadTag 0), buf)),
     cp_gmac = (\<lambda>k s n segs. Inr (replicate 12 (of_nat (length (concat segs))))),
     cp_authentication_key = Some (replicate 16 7)\<rparr>"

lemma demo_laws: "provider_in_place demo_provider" "aead_inverse demo_provider" "ctr_involution demo_provider"
  by (auto simp: demo_provider_def provider_in_place_def aead_inverse_def ctr_involution_def TAG_LEN_def comp_def
      xor.assoc intro!: map_idI)

subsection \<open>Properties\<close>

text \<open>What a protector seals, a protector with the same provider and policy opens again, in every mode: authenticated and encrypted,
  authenticated only, encrypted only and none, with the provider's documented laws as the only assumption about it.\<close>

theorem protect_unprotect_round_trip:
  assumes "provider_in_place (pr_provider t)" "aead_inverse (pr_provider t)" "ctr_involution (pr_provider t)"
    and "Protector_protect_as t pol title ic ak plain out = (Inr payload, out')"
  shows "\<exists>rest. Protector_unprotect_as t pol (SecurityPolicy_control pol) title ic ak payload = (Inr plain, rest)"
  using unprotect_protected [OF assms(4,1,2,3)] .

theorem protect_unprotect_round_trip_witness:
  "\<exists>payload out' rest.
     Protector_protect_as \<lparr>pr_provider = demo_provider, pr_policy = SecurityPolicy_NONE\<rparr> (SecurityPolicy_authenticated_encrypted Suite0)
       (SystemTitle [1, 2, 3, 4, 5, 6, 7, 8]) 9 [1, 2] [0xC0, 1] (replicate 20 0) = (Inr payload, out') \<and>
     payload \<noteq> [0xC0, 1] \<and>
     Protector_unprotect_as \<lparr>pr_provider = demo_provider, pr_policy = SecurityPolicy_NONE\<rparr> (SecurityPolicy_authenticated_encrypted Suite0)
       (SecurityPolicy_control (SecurityPolicy_authenticated_encrypted Suite0)) (SystemTitle [1, 2, 3, 4, 5, 6, 7, 8]) 9 [1, 2] payload = (Inr [0xC0, 1], rest)"
proof -
  let ?t = "\<lparr>pr_provider = demo_provider, pr_policy = SecurityPolicy_NONE\<rparr>"
  let ?run = "Protector_protect_as ?t (SecurityPolicy_authenticated_encrypted Suite0) (SystemTitle [1, 2, 3, 4, 5, 6, 7, 8]) 9 [1, 2] [0xC0, 1] (replicate 20 0)"
  have "case ?run of (Inr payload, _) \<Rightarrow> payload \<noteq> [0xC0, 1] | _ \<Rightarrow> False" by code_simp
  then obtain payload out' where run: "?run = (Inr payload, out')" "payload \<noteq> [0xC0, 1]"
    by (cases ?run; cases "fst ?run") auto
  from protect_unprotect_round_trip [of ?t, OF _ _ _ run(1)] demo_laws run show ?thesis by simp
qed

text \<open>C17: Nothing weaker than the policy gets through: a payload that is opened under a policy that demands authentication carried the
  policy's suite, the key set the receiver chose and not the sender, the bits the policy demands, and a tag that the provider
  verified under that key over the control byte, the authentication key and the content.\<close>

theorem no_downgrade:
  assumes "provider_in_place (pr_provider t)" "sp_authenticated pol"
    and "Protector_unprotect_as t pol control title ic ak payload = (Inr plain, rest)"
  shows "verified t pol control title ic ak payload plain"
  using unprotect_verified [OF assms(3,2,1)] .

theorem no_downgrade_witness:
  "\<exists>plain rest. Protector_unprotect_as \<lparr>pr_provider = demo_provider, pr_policy = SecurityPolicy_NONE\<rparr> (SecurityPolicy_authenticated_encrypted Suite0)
      (SecurityControl 0x30) (SystemTitle [1, 2, 3, 4, 5, 6, 7, 8]) 9 [1, 2] (0x9A # replicate 12 3) = (Inr plain, rest) \<and>
    verified \<lparr>pr_provider = demo_provider, pr_policy = SecurityPolicy_NONE\<rparr> (SecurityPolicy_authenticated_encrypted Suite0)
      (SecurityControl 0x30) (SystemTitle [1, 2, 3, 4, 5, 6, 7, 8]) 9 [1, 2] (0x9A # replicate 12 3) plain"
proof -
  let ?t = "\<lparr>pr_provider = demo_provider, pr_policy = SecurityPolicy_NONE\<rparr>"
  let ?run = "Protector_unprotect_as ?t (SecurityPolicy_authenticated_encrypted Suite0)
      (SecurityControl 0x30) (SystemTitle [1, 2, 3, 4, 5, 6, 7, 8]) 9 [1, 2] (0x9A # replicate 12 3)"
  have "case ?run of (Inr _, _) \<Rightarrow> True | _ \<Rightarrow> False" by code_simp
  then obtain plain rest where run: "?run = (Inr plain, rest)" by (cases ?run; cases "fst ?run") auto
  have "verified ?t (SecurityPolicy_authenticated_encrypted Suite0) (SecurityControl 0x30) (SystemTitle [1, 2, 3, 4, 5, 6, 7, 8]) 9 [1, 2]
      (0x9A # replicate 12 3) plain"
    by (rule no_downgrade [OF _ _ run]) (simp_all add: demo_laws SecurityPolicy_authenticated_encrypted_def)
  with run show ?thesis by blast
qed

lemma hls_response_verifies:
  assumes "provider_in_place (pr_provider t)" "Protector_hls_gmac_response t title ic ak challenge = Inr response"
  shows "Protector_verify_hls_gmac t title ak challenge response = Inr ()"
proof -
  from assms obtain tag where resp: "response = sc_byte (SecurityControl_new (SecuritySuite_id (sp_suite (pr_policy t))) True False) # be_bytes 4 ic @ tag"
    "Protector_gmac_with t (SecurityPolicy_global (pr_policy t)) (SecurityControl_new (SecuritySuite_id (sp_suite (pr_policy t))) True False)
      ak (nonce title ic) challenge = Inr tag" "length tag = TAG_LEN"
    using hls_response_Inr by metis
  have "[response ! 1, response ! 2, response ! 3, response ! 4] = be_bytes 4 ic" "drop 5 response = tag"
    using list4 [of "be_bytes 4 ic"] by (simp_all add: resp(1) nth_append)
  then show "Protector_verify_hls_gmac t title ak challenge response = Inr ()"
    using resp by (simp add: Protector_verify_hls_gmac_def Let_def TAG_LEN_def constant_time_eq_iff)
qed

text \<open>C18: The check of an answer to an HLS challenge accepts exactly the answers the peer's own response function produces: seventeen bytes
  that are the response under some counter, and no other control byte, length or tag.\<close>

theorem hls_gmac_accepts_exactly_responses:
  assumes "provider_in_place (pr_provider t)"
  shows "Protector_verify_hls_gmac t title ak challenge response = Inr () \<longleftrightarrow>
    (\<exists>ic. Protector_hls_gmac_response t title ic ak challenge = Inr response)"
proof
  assume "\<exists>ic. Protector_hls_gmac_response t title ic ak challenge = Inr response"
  then show "Protector_verify_hls_gmac t title ak challenge response = Inr ()" using hls_response_verifies [OF assms] by blast
next
  assume ver: "Protector_verify_hls_gmac t title ak challenge response = Inr ()"
  define ic where "ic = (be_word [response ! 1, response ! 2, response ! 3, response ! 4] :: u32)"
  define c where "c = SecurityControl (response ! 0)"
  from ver have len: "length response = 17" by (auto simp: Protector_verify_hls_gmac_def split: if_splits)
  from ver have c: "c = SecurityControl_new (SecuritySuite_id (sp_suite (pr_policy t))) True False"
    by (intro control_only_authenticated) (auto simp: Protector_verify_hls_gmac_def c_def Let_def split: if_splits)
  from ver have "Protector_gmac_with t (SecurityPolicy_global (pr_policy t)) c ak (nonce title ic) challenge = Inr (drop 5 response)"
    by (auto simp: Protector_verify_hls_gmac_def Let_def constant_time_eq_iff res_bind_def c_def ic_def split: if_splits sum.splits)
  moreover have "be_bytes 4 ic = [response ! 1, response ! 2, response ! 3, response ! 4]"
    using be_bytes_be_word [of "[response ! 1, response ! 2, response ! 3, response ! 4]", where 'a = 32] by (simp add: ic_def numeral_eq_Suc)
  moreover have "sc_byte c = response ! 0" by (simp add: c_def)
  ultimately show "\<exists>ic. Protector_hls_gmac_response t title ic ak challenge = Inr response"
    using length_17 [OF len] by (intro exI [of _ ic]) (simp add: Protector_hls_gmac_response_def Let_def flip: c)
qed

theorem hls_gmac_accepts_exactly_responses_witness:
  "provider_in_place demo_provider \<and>
   (\<exists>response. Protector_hls_gmac_response \<lparr>pr_provider = demo_provider, pr_policy = SecurityPolicy_NONE\<rparr> (SystemTitle [1, 2, 3, 4, 5, 6, 7, 8]) 7
        [1, 2] [9, 9, 9] = Inr response \<and>
      Protector_verify_hls_gmac \<lparr>pr_provider = demo_provider, pr_policy = SecurityPolicy_NONE\<rparr> (SystemTitle [1, 2, 3, 4, 5, 6, 7, 8])
        [1, 2] [9, 9, 9] response = Inr ())"
proof -
  let ?t = "\<lparr>pr_provider = demo_provider, pr_policy = SecurityPolicy_NONE\<rparr>"
  let ?run = "Protector_hls_gmac_response ?t (SystemTitle [1, 2, 3, 4, 5, 6, 7, 8]) 7 [1, 2] [9, 9, 9]"
  have "\<not> isl ?run" by code_simp
  then obtain response where run: "?run = Inr response" by (cases ?run) auto
  have law: "provider_in_place (pr_provider ?t)" by (simp add: demo_laws)
  from hls_gmac_accepts_exactly_responses [OF law] run demo_laws(1) show ?thesis by blast
qed

end
