(* ===== verification/Counter.thy ===== *)
theory Counter
  imports Prelude
begin

text \<open>
  Invocation counters and the replay window of \<^verbatim>\<open>src/src/security/counter.rs\<close>.  The contract the
  protection layer relies on is the locale \<open>replay_guard\<close>; the window of the source is an
  interpretation of it, and it refines a specification that remembers every accepted value.
\<close>

subsection \<open>The sending counter\<close>

datatype InvocationCounter = InvocationCounter u32

definition InvocationCounter_new :: "u32 \<Rightarrow> InvocationCounter" where
  "InvocationCounter_new v = InvocationCounter v"

fun InvocationCounter_get :: "InvocationCounter \<Rightarrow> u32" where
  "InvocationCounter_get (InvocationCounter v) = v"

fun InvocationCounter_next :: "(InvocationCounter, u32) op" where
  "InvocationCounter_next (InvocationCounter v) =
     (if v = 0xFFFFFFFF then (Inl (Error_new Unsupported 0), InvocationCounter v)
      else (Inr (v + 1), InvocationCounter (v + 1)))"

subsection \<open>The replay window\<close>

definition REPLAY_WINDOW_MAX :: u32 where
  "REPLAY_WINDOW_MAX = 64"

definition REPLAY_WIDTH_MAX :: u32 where
  "REPLAY_WIDTH_MAX = REPLAY_WINDOW_MAX - 1"

record ReplayWindow =
  rw_highest :: "u32 option"
  rw_seen :: u64
  rw_width :: u32

definition ReplayWindow_strict :: ReplayWindow where
  "ReplayWindow_strict = \<lparr>rw_highest = None, rw_seen = 0, rw_width = 0\<rparr>"

definition ReplayWindow_new :: "u32 \<Rightarrow> ReplayWindow" where
  "ReplayWindow_new width =
     \<lparr>rw_highest = None, rw_seen = 0, rw_width = (if width > REPLAY_WIDTH_MAX then REPLAY_WIDTH_MAX else width)\<rparr>"

definition ReplayWindow_resumed :: "u32 \<Rightarrow> u32 \<Rightarrow> ReplayWindow" where
  "ReplayWindow_resumed highest width =
     (ReplayWindow_new width)\<lparr>rw_highest := Some highest, rw_seen := 0xFFFFFFFFFFFFFFFF\<rparr>"

definition ReplayWindow_expected_next :: "ReplayWindow \<Rightarrow> u32" where
  "ReplayWindow_expected_next w =
     (case rw_highest w of
        Some h \<Rightarrow> if h = 0xFFFFFFFF then 0xFFFFFFFF else h + 1
      | None \<Rightarrow> 0)"

definition ReplayWindow_check :: "ReplayWindow \<Rightarrow> u32 \<Rightarrow> unit result" where
  "ReplayWindow_check w received =
     (case rw_highest w of
        None \<Rightarrow> Inr ()
      | Some highest \<Rightarrow>
          if received > highest then Inr ()
          else let back = highest - received in
            if back > rw_width w \<or> back \<ge> REPLAY_WINDOW_MAX then Inl (Error_new Replay 0)
            else if rw_seen w AND push_bit (unat back) 1 \<noteq> 0 then Inl (Error_new Replay 0)
            else Inr ())"

definition ReplayWindow_accept :: "u32 \<Rightarrow> (ReplayWindow, unit) op" where
  "ReplayWindow_accept received w =
     (case ReplayWindow_check w received of
        Inl e \<Rightarrow> (Inl e, w)
      | Inr _ \<Rightarrow> (Inr (),
          case rw_highest w of
            None \<Rightarrow> w\<lparr>rw_highest := Some received, rw_seen := 1\<rparr>
          | Some highest \<Rightarrow>
              if received > highest then
                let advance = received - highest;
                    seen = (if advance \<ge> REPLAY_WINDOW_MAX then 0 else push_bit (unat advance) (rw_seen w))
                in w\<lparr>rw_seen := seen OR 1, rw_highest := Some received\<rparr>
              else
                let back = highest - received
                in w\<lparr>rw_seen := rw_seen w OR push_bit (unat back) 1\<rparr>))"

subsection \<open>The contract of a replay guard\<close>

text \<open>Offering a list of values to a guard, keeping those it accepts.\<close>

fun accepted_values :: "('v \<Rightarrow> ('s, unit) op) \<Rightarrow> 's \<Rightarrow> 'v list \<Rightarrow> 'v list" where
  "accepted_values accept s [] = []"
| "accepted_values accept s (v # vs) =
     (case accept v s of
        (Inl _, s') \<Rightarrow> accepted_values accept s' vs
      | (Inr _, s') \<Rightarrow> v # accepted_values accept s' vs)"

locale replay_guard =
  fixes check :: "'s \<Rightarrow> 'v \<Rightarrow> unit result"
    and accept :: "'v \<Rightarrow> ('s, unit) op"
  assumes accept_error: "check s v = Inl e \<Longrightarrow> accept v s = (Inl e, s)"
    and accept_succeeds: "check s v = Inr () \<Longrightarrow> \<exists>s'. accept v s = (Inr (), s')"
    and spends: "accept v s = (Inr (), s') \<Longrightarrow> check s' v \<noteq> Inr ()"
    and stays_refused: "accept v s = (Inr (), s') \<Longrightarrow> check s u \<noteq> Inr () \<Longrightarrow> check s' u \<noteq> Inr ()"
begin

lemma refused_never_accepted:
  "check s u \<noteq> Inr () \<Longrightarrow> u \<notin> set (accepted_values accept s vs)"
proof (induction vs arbitrary: s)
  case (Cons v vs)
  show ?case
  proof (cases "check s v")
    case (Inl e)
    then show ?thesis using Cons by (simp add: accept_error)
  next
    case (Inr x)
    then obtain s' where s': "accept v s = (Inr (), s')" using accept_succeeds by fastforce
    with Cons.prems Inr have "u \<noteq> v" by auto
    moreover have "u \<notin> set (accepted_values accept s' vs)"
      using Cons.IH stays_refused [OF s' Cons.prems] by simp
    ultimately show ?thesis by (simp add: s')
  qed
qed simp

lemma at_most_once: "distinct (accepted_values accept s vs)"
proof (induction vs arbitrary: s)
  case (Cons v vs)
  show ?case
  proof (cases "check s v")
    case (Inl e)
    then show ?thesis using Cons by (simp add: accept_error)
  next
    case (Inr x)
    then obtain s' where s': "accept v s = (Inr (), s')" using accept_succeeds by fastforce
    then show ?thesis using Cons refused_never_accepted spends by auto
  qed
qed simp

end

subsection \<open>The window is a replay guard\<close>

lemma bit_test: "(s AND 2 ^ n \<noteq> 0) \<longleftrightarrow> bit (s :: u64) n"
  using bit_iff_and_push_bit_not_eq_0 [of s n] by simp

lemma check_eq:
  "ReplayWindow_check w v =
     (case rw_highest w of None \<Rightarrow> Inr ()
      | Some h \<Rightarrow>
          if h < v then Inr ()
          else if rw_width w < h - v \<or> 64 \<le> unat (h - v) \<or> bit (rw_seen w) (unat (h - v))
          then Inl (Error_new Replay 0) else Inr ())"
  by (auto simp: ReplayWindow_check_def Let_def bit_test REPLAY_WINDOW_MAX_def word_le_nat_alt
      split: option.splits)

lemma unat_inc: "v \<noteq> 0xFFFFFFFF \<Longrightarrow> unat (v + 1 :: u32) = unat v + 1"
proof -
  assume "v \<noteq> 0xFFFFFFFF"
  then have "unat v \<noteq> 2 ^ 32 - 1" by (simp add: word_unat_eq_iff)
  with unat_bound [of v] show ?thesis by (simp add: unat_word_ariths)
qed

lemma unat_diff: "v \<le> h \<Longrightarrow> unat (h - v :: 'a::len word) = unat h - unat v"
  by (rule unat_sub)

lemma refused_iff:
  "ReplayWindow_check w v \<noteq> Inr () \<longleftrightarrow>
     (\<exists>h. rw_highest w = Some h \<and> unat v \<le> unat h \<and>
       (unat (rw_width w) < unat h - unat v \<or> 64 \<le> unat h - unat v \<or> bit (rw_seen w) (unat h - unat v)))"
proof (cases "rw_highest w")
  case (Some h)
  then show ?thesis
    by (cases "h < v")
      (auto simp: check_eq not_less unat_diff word_le_nat_alt word_less_nat_alt [of "rw_width w"]
        word_less_nat_alt [of h])
qed (simp add: check_eq)

text \<open>What an accepted value does to the bits: three cases, as in the source.\<close>

lemma accept_cases:
  assumes "ReplayWindow_accept v w = (Inr (), w')"
  obtains (first) "rw_highest w = None" "rw_highest w' = Some v" "rw_seen w' = 1" "rw_width w' = rw_width w"
  | (ahead) h where "rw_highest w = Some h" "unat h < unat v" "rw_highest w' = Some v" "rw_width w' = rw_width w"
      "\<And>i. i < 64 \<Longrightarrow> bit (rw_seen w') i \<longleftrightarrow> i = 0 \<or> (unat v - unat h \<le> i \<and> bit (rw_seen w) (i - (unat v - unat h)))"
  | (behind) h where "rw_highest w = Some h" "unat v \<le> unat h" "rw_highest w' = Some h" "rw_width w' = rw_width w"
      "unat h - unat v \<le> unat (rw_width w)" "unat h - unat v < 64" "\<not> bit (rw_seen w) (unat h - unat v)"
      "\<And>i. i < 64 \<Longrightarrow> bit (rw_seen w') i \<longleftrightarrow> i = unat h - unat v \<or> bit (rw_seen w) i"
proof -
  from assms have chk: "ReplayWindow_check w v = Inr ()"
    by (auto simp: ReplayWindow_accept_def split: sum.splits)
  show thesis
  proof (cases "rw_highest w")
    case None
    with assms chk show thesis by (intro first) (auto simp: ReplayWindow_accept_def)
  next
    case (Some h)
    show thesis
    proof (cases "h < v")
      case True
      then have d: "unat (v - h) = unat v - unat h" by (simp add: unat_diff)
      define adv where "adv = unat v - unat h"
      have w': "w' = w\<lparr>rw_seen := (if 64 \<le> adv then 0 else push_bit adv (rw_seen w)) OR 1, rw_highest := Some v\<rparr>"
        using assms chk Some True d
        by (auto simp: ReplayWindow_accept_def Let_def REPLAY_WINDOW_MAX_def word_le_nat_alt adv_def)
      show thesis
      proof (rule ahead [OF Some])
        show "unat h < unat v" using True by (simp add: word_less_nat_alt)
        show "rw_highest w' = Some v" "rw_width w' = rw_width w" by (simp_all add: w')
        show "bit (rw_seen w') i \<longleftrightarrow> i = 0 \<or> unat v - unat h \<le> i \<and> bit (rw_seen w) (i - (unat v - unat h))"
          if "i < 64" for i
          using that by (auto simp: w' bit_simps adv_def)
      qed
    next
      case False
      then have le: "unat v \<le> unat h" by (simp add: word_less_nat_alt)
      then have d: "unat (h - v) = unat h - unat v" by (simp add: unat_diff word_le_nat_alt)
      have ok: "\<not> (unat (rw_width w) < unat h - unat v \<or> 64 \<le> unat h - unat v \<or> bit (rw_seen w) (unat h - unat v))"
        using chk Some le refused_iff [of w v] by auto
      have w': "w' = w\<lparr>rw_seen := rw_seen w OR 2 ^ (unat h - unat v)\<rparr>"
        using assms chk Some False d by (simp add: ReplayWindow_accept_def Let_def)
      show thesis
      proof (rule behind [OF Some le])
        show "rw_highest w' = Some h" "rw_width w' = rw_width w" by (simp_all add: w' Some)
        show "unat h - unat v \<le> unat (rw_width w)" "unat h - unat v < 64" "\<not> bit (rw_seen w) (unat h - unat v)"
          using ok by simp_all
        show "bit (rw_seen w') i \<longleftrightarrow> i = unat h - unat v \<or> bit (rw_seen w) i" if "i < 64" for i
          using that by (auto simp: w' bit_simps)
      qed
    qed
  qed
qed

interpretation rw: replay_guard ReplayWindow_check ReplayWindow_accept
proof unfold_locales
  fix w v e assume "ReplayWindow_check w v = Inl e"
  then show "ReplayWindow_accept v w = (Inl e, w)" by (simp add: ReplayWindow_accept_def)
next
  fix w v assume "ReplayWindow_check w v = Inr ()"
  then show "\<exists>w'. ReplayWindow_accept v w = (Inr (), w')" by (simp add: ReplayWindow_accept_def)
next
  fix v w w' assume "ReplayWindow_accept v w = (Inr (), w')"
  then show "ReplayWindow_check w' v \<noteq> Inr ()"
    by (cases rule: accept_cases) (auto simp: refused_iff)
next
  fix v w w' u
  assume acc: "ReplayWindow_accept v w = (Inr (), w')" and ref: "ReplayWindow_check w u \<noteq> Inr ()"
  from ref obtain h where h: "rw_highest w = Some h" "unat u \<le> unat h"
    and bk: "unat (rw_width w) < unat h - unat u \<or> 64 \<le> unat h - unat u \<or> bit (rw_seen w) (unat h - unat u)"
    by (auto simp: refused_iff)
  from acc show "ReplayWindow_check w' u \<noteq> Inr ()"
  proof (cases rule: accept_cases)
    case first
    then show ?thesis using h by simp
  next
    case (ahead h')
    then have "unat v - unat u - (unat v - unat h) = unat h - unat u" using h by simp
    then show ?thesis using ahead h bk by (cases "unat v - unat u < 64") (auto simp: refused_iff)
  next
    case (behind h')
    then show ?thesis using h bk by (cases "unat h - unat u < 64") (auto simp: refused_iff)
  qed
qed

subsection \<open>Refinement: the window against a specification that forgets nothing\<close>

text \<open>
  The specification keeps the set of all values accepted so far.  A value is accepted when it is above
  every accepted one, or when it was not accepted before and lies at most the width below the highest.
\<close>

definition spec_accepts :: "u32 \<Rightarrow> u32 set \<Rightarrow> u32 \<Rightarrow> bool" where
  "spec_accepts width A v \<longleftrightarrow>
     (\<forall>a\<in>A. a < v) \<or> (v \<notin> A \<and> (\<exists>h\<in>A. (\<forall>a\<in>A. a \<le> h) \<and> unat h - unat v \<le> unat width))"

text \<open>The window represents the set: its highest value, and one bit for each of the 64 values below.\<close>

definition represents :: "ReplayWindow \<Rightarrow> u32 set \<Rightarrow> bool" where
  "represents w A \<longleftrightarrow> unat (rw_width w) \<le> 63 \<and>
     (case rw_highest w of
        None \<Rightarrow> A = {}
      | Some h \<Rightarrow> h \<in> A \<and> (\<forall>a\<in>A. unat a \<le> unat h) \<and>
          (\<forall>v. unat v \<le> unat h \<longrightarrow> unat h - unat v < 64 \<longrightarrow> (bit (rw_seen w) (unat h - unat v) \<longleftrightarrow> v \<in> A)))"

lemma represents_new: "represents (ReplayWindow_new width) {}"
proof (cases "width > REPLAY_WIDTH_MAX")
  case False
  then have "unat width \<le> unat REPLAY_WIDTH_MAX" by (simp add: word_less_nat_alt)
  with False show ?thesis
    by (simp add: represents_def ReplayWindow_new_def REPLAY_WIDTH_MAX_def REPLAY_WINDOW_MAX_def)
qed (simp add: represents_def ReplayWindow_new_def REPLAY_WIDTH_MAX_def REPLAY_WINDOW_MAX_def)

lemma represents_resumed: "represents (ReplayWindow_resumed h width) {v. v \<le> h}"
proof -
  have "bit (0xFFFFFFFFFFFFFFFF :: u64) i" if "i < 64" for i
  proof -
    have "(0xFFFFFFFFFFFFFFFF :: u64) = - 1" by simp
    then show ?thesis using that by (simp only: bit_minus_1_iff) simp
  qed
  then show ?thesis
    using represents_new [of width]
    by (auto simp: represents_def ReplayWindow_resumed_def word_le_nat_alt split: option.splits)
qed

lemma represents_check:
  assumes "represents w A"
  shows "ReplayWindow_check w v = Inr () \<longleftrightarrow> spec_accepts (rw_width w) A v"
proof (cases "rw_highest w")
  case None
  then show ?thesis using assms refused_iff [of w v] by (simp add: represents_def spec_accepts_def)
next
  case (Some h)
  then have h: "h \<in> A" "\<And>a. a \<in> A \<Longrightarrow> unat a \<le> unat h" and w: "unat (rw_width w) \<le> 63"
    and b: "\<And>v. unat v \<le> unat h \<Longrightarrow> unat h - unat v < 64 \<Longrightarrow> bit (rw_seen w) (unat h - unat v) \<longleftrightarrow> v \<in> A"
    using assms by (auto simp: represents_def)
  have top: "(\<exists>h'\<in>A. (\<forall>a\<in>A. a \<le> h') \<and> unat h' - unat v \<le> k) \<longleftrightarrow> unat h - unat v \<le> k" for k
    using h by (metis word_le_nat_alt le_antisym word_unat_eq_iff)
  have above: "(\<forall>a\<in>A. a < v) \<longleftrightarrow> unat h < unat v"
    using h by (auto simp: word_less_nat_alt intro: le_less_trans)
  show ?thesis
    using Some refused_iff [of w v] w b [of v] unfolding spec_accepts_def top above
    by (cases "unat h < unat v") auto
qed

lemma represents_accept:
  assumes rep: "represents w A" and acc: "ReplayWindow_accept v w = (Inr (), w')"
  shows "represents w' (insert v A)"
  using acc
proof (cases rule: accept_cases)
  case first
  have "bit (1 :: u64) (unat v - unat u) \<longleftrightarrow> u = v" if "unat u \<le> unat v" for u :: u32
    using that by (auto simp: bit_1_iff word_unat_eq_iff)
  then show ?thesis using rep first by (auto simp: represents_def)
next
  case (ahead h)
  have "bit (rw_seen w') (unat v - unat u) \<longleftrightarrow> u \<in> insert v A"
    if u: "unat u \<le> unat v" "unat v - unat u < 64" for u
  proof (cases "unat u \<le> unat h")
    case True
    then have "unat v - unat u - (unat v - unat h) = unat h - unat u" "unat v - unat u \<noteq> 0" "u \<noteq> v"
      using ahead(2) by auto
    moreover have "unat v - unat h \<le> unat v - unat u" using True by simp
    ultimately show ?thesis
      using rep ahead(1) ahead(5) [OF u(2)] True u by (auto simp: represents_def)
  next
    case False
    then have "u \<notin> A" and "\<not> unat v - unat h \<le> unat v - unat u"
      using rep ahead(1) u by (auto simp: represents_def)
    then show ?thesis using ahead(5) [OF u(2)] u by (auto simp: word_unat_eq_iff)
  qed
  moreover have "\<forall>a\<in>A. unat a \<le> unat v" using rep ahead(1,2) by (fastforce simp: represents_def)
  ultimately show ?thesis using rep ahead(3,4) by (simp add: represents_def)
next
  case (behind h)
  have "bit (rw_seen w') (unat h - unat u) \<longleftrightarrow> u \<in> insert v A"
    if u: "unat u \<le> unat h" "unat h - unat u < 64" for u
  proof -
    have "unat h - unat u = unat h - unat v \<longleftrightarrow> u = v"
      using u behind(2) by (auto simp: word_unat_eq_iff)
    then show ?thesis using rep behind(1) behind(8) [OF u(2)] u by (auto simp: represents_def)
  qed
  then show ?thesis using rep behind(1-4) by (auto simp: represents_def)
qed

subsection \<open>Properties of the counters\<close>

text \<open>C1: Whatever the state of a replay window and whatever sequence of invocation counters is offered to
  it, no counter is accepted twice, at any reorder width.\<close>

theorem replay_window_accepts_at_most_once:
  "distinct (accepted_values ReplayWindow_accept w vs)"
  by (rule rw.at_most_once)

text \<open>A replay window of any width up to 63 is an exact implementation of the specification that
  remembers every accepted counter: it accepts a counter exactly when the specification does, refuses
  with \<open>Replay\<close> and unchanged state otherwise, and represents the enlarged set afterwards.\<close>

theorem replay_window_refines_spec:
  assumes "represents w A"
  shows "if spec_accepts (rw_width w) A v
    then \<exists>w'. ReplayWindow_accept v w = (Inr (), w') \<and> represents w' (insert v A) \<and> rw_width w' = rw_width w
    else ReplayWindow_accept v w = (Inl (Error_new Replay 0), w)"
proof (cases "spec_accepts (rw_width w) A v")
  case True
  then obtain w' where acc: "ReplayWindow_accept v w = (Inr (), w')"
    using represents_check [OF assms] rw.accept_succeeds by blast
  moreover from acc have "rw_width w' = rw_width w" by (cases rule: accept_cases) auto
  ultimately show ?thesis using True represents_accept [OF assms acc] by simp
next
  case False
  then have "ReplayWindow_check w v \<noteq> Inr ()" using represents_check [OF assms] by simp
  then have "ReplayWindow_check w v = Inl (Error_new Replay 0)"
    by (auto simp: check_eq split: option.splits if_splits)
  with False show ?thesis by (simp add: rw.accept_error)
qed

theorem replay_window_refines_spec_witness:
  "represents (ReplayWindow_new 4) {} \<and> spec_accepts (rw_width (ReplayWindow_new 4)) {} 10 \<and>
    (\<exists>w'. ReplayWindow_accept 10 (ReplayWindow_new 4) = (Inr (), w') \<and> represents w' {10})"
  using replay_window_refines_spec [OF represents_new, of 4 10] represents_new [of 4]
  by (auto simp: spec_accepts_def)

text \<open>The sending counter hands out strictly increasing values without wrapping: from a last used value
  below the maximum it yields exactly the next one; at the maximum it refuses and does not move.\<close>

theorem invocation_counter_never_wraps:
  "(case InvocationCounter_next c of
      (Inr v, c') \<Rightarrow> unat v = unat (InvocationCounter_get c) + 1 \<and> InvocationCounter_get c' = v
    | (Inl e, c') \<Rightarrow> err_kind e = Unsupported \<and> c' = c \<and> unat (InvocationCounter_get c) = 2 ^ 32 - 1)"
proof (cases c)
  case (InvocationCounter v)
  then show ?thesis using unat_inc [of v] by (simp add: word_unat_eq_iff)
qed

text \<open>The counter a window names as expected next is one it accepts, unless the highest accepted counter
  is already the last one there is.\<close>

theorem expected_next_is_accepted:
  assumes "rw_highest w \<noteq> Some 0xFFFFFFFF"
  shows "ReplayWindow_check w (ReplayWindow_expected_next w) = Inr ()"
proof (cases "rw_highest w")
  case (Some h)
  then have "h < h + 1" using assms unat_inc [of h] by (simp add: word_less_nat_alt)
  then show ?thesis using Some assms by (simp add: check_eq ReplayWindow_expected_next_def)
qed (simp add: check_eq)

theorem expected_next_is_accepted_witness:
  "rw_highest (ReplayWindow_resumed 500 8) \<noteq> Some 0xFFFFFFFF \<and>
    ReplayWindow_check (ReplayWindow_resumed 500 8) (ReplayWindow_expected_next (ReplayWindow_resumed 500 8)) = Inr ()"
  using expected_next_is_accepted [of "ReplayWindow_resumed 500 8"]
  by (simp add: ReplayWindow_resumed_def)

end
