(* ===== verification/ApduProtection.thy ===== *)
theory ApduProtection
  imports Protect Counter
begin

text \<open>
  Putting protection on a whole APDU and taking it off again, \<^verbatim>\<open>src/src/security/wrap.rs\<close>: the choice between the
  \<^verbatim>\<open>glo-\<close>/\<^verbatim>\<open>ded-\<close>, the general and the plain form, the header laid down before the payload, and the order of replay
  check, decryption and recording of the counter.  The theorems here span the tags, the wire types, the protector and the
  replay window.
\<close>

subsection \<open>Outgoing\<close>

record Outgoing =
  og_system_title :: SystemTitle
  og_invocation_counter :: u32
  og_auth_key :: "bytes option"
  og_policy :: SecurityPolicy
  og_general_allowed :: bool

definition HEADER_MAX :: nat where
  "HEADER_MAX = 1 + (1 + 8) + 5 + 1 + 4"

text \<open>The tag, and for the general form the system title, that go in front of the ciphered content.\<close>

definition form_header :: "Outgoing \<Rightarrow> ApduTag \<Rightarrow> (writer, unit) op" where
  "form_header ctx plain_tag =
     (let protection = (if SecurityPolicy_dedicated (og_policy ctx) then PDedicated else PGlobal) in
      case ApduTag_protected_as protection plain_tag of
        Some tag \<Rightarrow> write_u8 (ApduTag_as_u8 tag)
      | None \<Rightarrow>
          if \<not> og_general_allowed ctx then fail (Error_new Unsupported 0)
          else
            let tag = (case protection of PDedicated \<Rightarrow> AGeneralDedCiphering | _ \<Rightarrow> AGeneralGloCiphering) in
            try_bind (write_u8 (ApduTag_as_u8 tag)) (\<lambda>_. write_length_prefixed (st_bytes (og_system_title ctx))))"

definition protected_header :: "Outgoing \<Rightarrow> ApduTag \<Rightarrow> nat \<Rightarrow> (writer, unit) op" where
  "protected_header ctx plain_tag payload_len =
     try_bind (form_header ctx plain_tag) (\<lambda>_.
     try_bind (write_length (5 + payload_len)) (\<lambda>_.
     try_bind (write_u8 (sc_byte (SecurityPolicy_control (og_policy ctx)))) (\<lambda>_.
     write_u32 (og_invocation_counter ctx))))"

definition first_tag :: "bytes \<Rightarrow> ApduTag result" where
  "first_tag plain =
     (case plain of
        [] \<Rightarrow> Inl (Error_new (InvalidTag 0) 0)
      | b # _ \<Rightarrow> (case ApduTag_from_u8 b of None \<Rightarrow> Inl (Error_new (InvalidTag b) 0) | Some tag \<Rightarrow> Inr tag))"

definition protect_apdu :: "Protector \<Rightarrow> Outgoing \<Rightarrow> bytes \<Rightarrow> bytes \<Rightarrow> nat result \<times> bytes" where
  "protect_apdu t ctx plain out =
     (if SecurityPolicy_is_none (og_policy ctx) then encode_into (write_bytes plain) out
      else case first_tag plain of
        Inl e \<Rightarrow> (Inl e, out)
      | Inr plain_tag \<Rightarrow>
          (case og_auth_key ctx of
             None \<Rightarrow> (Inl (Error_new Unsupported 0), out)
           | Some auth_key \<Rightarrow>
               let payload_len = length plain + (if sp_authenticated (og_policy ctx) then TAG_LEN else 0) in
               (case encode_into (protected_header ctx plain_tag payload_len) (replicate HEADER_MAX 0) of
                  (Inl e, _) \<Rightarrow> (Inl e, out)
                | (Inr header_len, header) \<Rightarrow>
                    if length out < header_len then (Inl (Error_new (BufferTooSmall header_len) 0), out)
                    else
                      let out = overwrite out 0 (take header_len header) in
                      (case Protector_protect_as t (og_policy ctx) (og_system_title ctx) (og_invocation_counter ctx)
                              auth_key plain (drop header_len out) of
                         (Inl e, body) \<Rightarrow> (Inl e, take header_len out @ body)
                       | (Inr payload, body) \<Rightarrow>
                           let out = take header_len out @ body; written_len = length payload in
                           if written_len \<noteq> payload_len then (Inl (Error_new InvalidLength header_len), out)
                           else (Inr (header_len + written_len), out)))))"

subsection \<open>Incoming\<close>

record Incoming =
  in_local :: "SystemTitle option"
  in_peer :: "SystemTitle option"
  in_auth_key :: "bytes option"
  in_policy :: SecurityPolicy
  in_plain_allowed :: "ApduTag list"

text \<open>What the tag says about the APDU: it is bare, or it carries a ciphered service and perhaps names the service inside.\<close>

datatype apdu_form = Bare | Sealed "ApduTag option" CipheredService

definition unexpected :: "('s, 'a) op" where
  "unexpected = fail (Error_new UnexpectedMessage 0)"

definition incoming_form :: "Incoming \<Rightarrow> ApduTag \<Rightarrow> (Reader, apdu_form) op" where
  "incoming_form ctx tag =
     (let dedicated = SecurityPolicy_dedicated (in_policy ctx) in
      case tag of
        AGeneralSigning \<Rightarrow> fail (Error_new Unsupported 0)
      | AGeneralCiphering \<Rightarrow>
          try_bind GeneralCiphering_decode (\<lambda>g.
            if (case in_peer ctx of Some peer \<Rightarrow> gc_originator_system_title g \<noteq> st_bytes peer | None \<Rightarrow> False) then unexpected
            else if (case in_local ctx of
                 Some us \<Rightarrow> gc_recipient_system_title g \<noteq> [] \<and> gc_recipient_system_title g \<noteq> st_bytes us
               | None \<Rightarrow> False) then unexpected
            else
              try_bind (case gc_key_info g of
                  None \<Rightarrow> ok ()
                | Some (Identified key_id) \<Rightarrow>
                    if Some key_id = KeyUsage_key_id (SecurityPolicy_key_usage (in_policy ctx)) then ok () else unexpected
                | Some _ \<Rightarrow> fail (Error_new Unsupported 0)) (\<lambda>_.
              if dedicated then unexpected else ok (Sealed None (gc_ciphered g))))
      | _ \<Rightarrow>
          if tag = AGeneralGloCiphering \<or> tag = AGeneralDedCiphering then
            try_bind GeneralGloCiphering_decode (\<lambda>g.
              if (case in_peer ctx of Some peer \<Rightarrow> gg_system_title g \<noteq> st_bytes peer | None \<Rightarrow> False) then unexpected
              else if (tag = AGeneralDedCiphering) \<noteq> dedicated then unexpected
              else ok (Sealed None (gg_ciphered g)))
          else
            (case ApduTag_unprotect tag of
               None \<Rightarrow>
                 if \<not> SecurityPolicy_is_none (in_policy ctx) \<and> tag \<notin> set (in_plain_allowed ctx) then unexpected else ok Bare
             | Some (protection, plain_tag) \<Rightarrow>
                 if (protection = PDedicated) \<noteq> dedicated then unexpected
                 else try_bind CipheredService_decode (\<lambda>c. ok (Sealed (Some plain_tag) c))))"

definition unprotect_sealed ::
  "Protector \<Rightarrow> Incoming \<Rightarrow> ApduTag option \<Rightarrow> CipheredService \<Rightarrow> ReplayWindow \<Rightarrow> bytes \<Rightarrow> bytes result \<times> ReplayWindow \<times> bytes" where
  "unprotect_sealed t ctx expect_tag c replay buf =
     (case in_peer ctx of
        None \<Rightarrow> (Inl (Error_new UnexpectedMessage 0), replay, buf)
      | Some peer \<Rightarrow>
          (case ReplayWindow_check replay (cs_invocation_counter c) of
             Inl e \<Rightarrow> (Inl e, replay, buf)
           | Inr _ \<Rightarrow>
               let n = length (cs_payload c) in
               if length buf < n then (Inl (Error_new (BufferTooSmall n) 0), replay, buf)
               else
                 let buf = overwrite buf 0 (cs_payload c) in
                 (case in_auth_key ctx of
                    None \<Rightarrow> (Inl (Error_new Unsupported 0), replay, buf)
                  | Some auth_key \<Rightarrow>
                      (case Protector_unprotect_as t (in_policy ctx) (cs_security_control c) peer (cs_invocation_counter c)
                              auth_key (take n buf) of
                         (Inl e, body) \<Rightarrow> (Inl e, replay, overwrite buf 0 body)
                       | (Inr plain, body) \<Rightarrow>
                           let buf = overwrite buf 0 body; plain_len = length plain in
                           (case ReplayWindow_accept (cs_invocation_counter c) replay of
                              (Inl e, replay) \<Rightarrow> (Inl e, replay, buf)
                            | (Inr _, replay) \<Rightarrow>
                                if (case expect_tag of
                                      None \<Rightarrow> False
                                    | Some expected \<Rightarrow> (case buf of [] \<Rightarrow> True | b # _ \<Rightarrow> b \<noteq> ApduTag_as_u8 expected))
                                then (Inl (Error_new UnexpectedMessage 0), replay, buf)
                                else if length buf < plain_len then (Inl (Error_new InvalidLength 0), replay, buf)
                                else (Inr (take plain_len buf), replay, buf))))))"

definition incoming_parse :: "Incoming \<Rightarrow> bytes \<Rightarrow> apdu_form result" where
  "incoming_parse ctx apdu =
     (let tag_byte = (case apdu of [] \<Rightarrow> 0 | b # _ \<Rightarrow> b) in
      case ApduTag_from_u8 tag_byte of
        None \<Rightarrow> Inl (Error_new (InvalidTag tag_byte) 0)
      | Some tag \<Rightarrow> fst (try_bind (Reader_skip 1) (\<lambda>_. incoming_form ctx tag) (Reader_new apdu)))"

definition unprotect_apdu :: "Protector \<Rightarrow> Incoming \<Rightarrow> ReplayWindow \<Rightarrow> bytes \<Rightarrow> bytes \<Rightarrow> bytes result \<times> ReplayWindow \<times> bytes" where
  "unprotect_apdu t ctx replay apdu buf =
     (case incoming_parse ctx apdu of
        Inl e \<Rightarrow> (Inl e, replay, buf)
      | Inr Bare \<Rightarrow>
          if length buf < length apdu then (Inl (Error_new (BufferTooSmall (length apdu)) 0), replay, buf)
          else (Inr apdu, replay, overwrite buf 0 apdu)
      | Inr (Sealed expect_tag c) \<Rightarrow> unprotect_sealed t ctx expect_tag c replay buf)"

subsection \<open>What opening does to the window\<close>

text \<open>The plaintext is the front of the buffer it was opened in.\<close>

lemma unprotect_as_front:
  assumes "Protector_unprotect_as t pol control title ic ak payload = (Inr plain, rest)" "provider_in_place (pr_provider t)"
  shows "plain = take (length plain) rest" "length rest = length payload"
proof -
  have chk: "SecurityPolicy_check_received pol control = Inr ()"
  proof (cases "SecurityPolicy_check_received pol control")
    case (Inl e)
    with assms(1) show ?thesis unfolding Protector_unprotect_as_def Inl sum.case by simp
  qed simp
  obtain suite where suite: "SecuritySuite_from_id (SecurityControl_suite control) = Inr suite"
  proof (cases "SecuritySuite_from_id (SecurityControl_suite control)")
    case (Inl e)
    with assms(1) chk show thesis unfolding Protector_unprotect_as_def chk sum.case Let_def Inl by simp
  qed
  note run = assms(1) [unfolded Protector_unprotect_as_def chk suite sum.case Let_def]
  let ?prov = "pr_provider t" and ?key = "Usage (SecurityPolicy_key_usage pol)" and ?iv = "nonce title ic"
  let ?len = "length payload - TAG_LEN"
  consider (plain) "SecurityControl_is_plain control" | (hidden) "\<not> SecurityControl_is_plain control" "\<not> SecurityControl_authenticated control"
    | (sealed) "SecurityControl_authenticated control" "SecurityControl_encrypted control" "\<not> SecurityControl_is_plain control"
    | (macced) "SecurityControl_authenticated control" "\<not> SecurityControl_encrypted control" "\<not> SecurityControl_is_plain control"
    by (auto simp: SecurityControl_is_plain_def)
  then have "plain = take (length plain) rest \<and> length rest = length payload"
  proof cases
    case plain
    show ?thesis using run [unfolded if_P [OF plain]] by auto
  next
    case hidden
    have "(case aead_open_unauthenticated ?prov ?key suite ?iv payload of (Inl e, payload') \<Rightarrow> (Inl e, payload')
        | (Inr _, payload') \<Rightarrow> (Inr payload', payload')) = (Inr plain, rest)"
      using run [unfolded if_not_P [OF hidden(1)] if_P [OF hidden(2)]] .
    then obtain tag where "cp_aead_seal ?prov ?key suite ?iv [] payload = (Inr tag, plain)" "rest = plain"
      by (cases "cp_aead_seal ?prov ?key suite ?iv [] payload"; cases "fst (cp_aead_seal ?prov ?key suite ?iv [] payload)")
        (auto simp: aead_open_unauthenticated_def)
    with provider_in_placeD(1) [OF assms(2) this(1)] show ?thesis by simp
  next
    case sealed
    then have auth: "\<not> \<not> SecurityControl_authenticated control" by simp
    note run1 = run [unfolded if_not_P [OF sealed(3)] if_not_P [OF auth] if_P [OF sealed(2)]]
    then have long: "\<not> length payload < TAG_LEN" by (cases "length payload < TAG_LEN") simp_all
    note run2 = run1 [unfolded if_not_P [OF long]]
    then obtain aad where aad: "build_aad control ak = Inr aad" by (cases "build_aad control ak") auto
    let ?open = "cp_aead_open ?prov ?key suite ?iv aad (take ?len payload) (drop ?len payload)"
    obtain r buf where opened: "?open = (r, buf)" by fastforce
    have "r = Inr ()" "plain = take ?len (overwrite payload 0 buf)" "rest = overwrite payload 0 buf"
      using run2 [unfolded aad sum.case opened prod.case] by (cases r; simp)+
    note opened = opened [unfolded this(1)] this(2,3)
    have "length buf = ?len" using provider_in_placeD(3) [OF assms(2) opened(1)] by simp
    then show ?thesis using opened(2,3) long by (simp add: overwrite_front)
  next
    case macced
    then have auth: "\<not> \<not> SecurityControl_authenticated control" by simp
    note run1 = run [unfolded if_not_P [OF macced(3)] if_not_P [OF auth] if_not_P [OF macced(2)]]
    then have long: "\<not> length payload < TAG_LEN" by (cases "length payload < TAG_LEN") simp_all
    note run2 = run1 [unfolded if_not_P [OF long]]
    then show ?thesis by (cases "Protector_gmac_with t pol control ak ?iv (take ?len payload)") (auto split: if_splits)
  qed
  then show "plain = take (length plain) rest" "length rest = length payload" by simp_all
qed

text \<open>The counter of a ciphered service is recorded only when its payload has been opened.\<close>

definition opens :: "Protector \<Rightarrow> Incoming \<Rightarrow> ReplayWindow \<Rightarrow> CipheredService \<Rightarrow> ReplayWindow \<Rightarrow> bytes \<Rightarrow> bool" where
  "opens t ctx w c w' plain \<longleftrightarrow>
     (\<exists>peer ak rest. in_peer ctx = Some peer \<and> in_auth_key ctx = Some ak \<and>
        ReplayWindow_accept (cs_invocation_counter c) w = (Inr (), w') \<and>
        Protector_unprotect_as t (in_policy ctx) (cs_security_control c) peer (cs_invocation_counter c) ak (cs_payload c) = (Inr plain, rest))"

lemma unprotect_sealed_cases:
  assumes "unprotect_sealed t ctx ex c w buf = (res, w', buf')" "provider_in_place (pr_provider t)"
  obtains (refused) e where "res = Inl e" "w' = w"
  | (mismatch) plain where "res = Inl (Error_new UnexpectedMessage 0)" "ex \<noteq> None" "opens t ctx w c w' plain"
  | (opened) plain where "res = Inr plain" "opens t ctx w c w' plain"
proof (cases "in_peer ctx")
  case None
  then show thesis using assms(1) by (intro refused) (auto simp: unprotect_sealed_def)
next
  case (Some peer)
  note peer = this
  show thesis
  proof (cases "ReplayWindow_check w (cs_invocation_counter c)")
    case (Inl e)
    then show thesis using assms(1) peer by (intro refused) (auto simp: unprotect_sealed_def)
  next
    case (Inr u)
    note chk = this
    let ?n = "length (cs_payload c)"
    show thesis
    proof (cases "length buf < ?n \<or> in_auth_key ctx = None")
      case True
      then show thesis using assms(1) peer chk
        by (cases "length buf < ?n") (auto simp: unprotect_sealed_def Let_def intro: refused)
    next
      case False
      then obtain ak where ak: "in_auth_key ctx = Some ak" "\<not> length buf < ?n" by auto
      obtain ur body where ur: "Protector_unprotect_as t (in_policy ctx) (cs_security_control c) peer (cs_invocation_counter c) ak (cs_payload c) = (ur, body)"
        by fastforce
      show thesis
      proof (cases ur)
        case (Inl e)
        then show thesis using assms(1) peer chk ak ur by (intro refused) (auto simp: unprotect_sealed_def Let_def)
      next
        case (Inr plain)
        obtain w1 where acc: "ReplayWindow_accept (cs_invocation_counter c) w = (Inr (), w1)" using rw.accept_succeeds [of w "cs_invocation_counter c"] chk by auto
        have opens: "opens t ctx w c w1 plain" using peer ak acc ur Inr by (auto simp: opens_def)
        note front = unprotect_as_front [OF ur [unfolded Inr] assms(2)]
        let ?buf = "overwrite (overwrite buf 0 (cs_payload c)) 0 body"
        have "length plain \<le> length body" using front(1) by (metis length_take min.cobounded1)
        then have len: "\<not> length ?buf < length plain" "take (length plain) ?buf = plain"
          using front ak(2) by (auto simp: overwrite_front)
        let ?bad = "case ex of None \<Rightarrow> False | Some expected \<Rightarrow> (case ?buf of [] \<Rightarrow> True | b # _ \<Rightarrow> b \<noteq> ApduTag_as_u8 expected)"
        have "unprotect_sealed t ctx ex c w buf = (if ?bad then (Inl (Error_new UnexpectedMessage 0), w1, ?buf)
            else if length ?buf < length plain then (Inl (Error_new InvalidLength 0), w1, ?buf) else (Inr (take (length plain) ?buf), w1, ?buf))"
          using peer chk ak ur Inr acc unfolding unprotect_sealed_def Let_def by simp
        then have "(res, w', buf') = (if ?bad then (Inl (Error_new UnexpectedMessage 0), w1, ?buf) else (Inr plain, w1, ?buf))"
          unfolding assms(1) if_not_P [OF len(1)] len(2) .
        then show thesis using opens by (cases ex) (auto split: if_splits intro: mismatch opened)
      qed
    qed
  qed
qed

lemma incoming_parse_Bare:
  assumes "incoming_parse ctx apdu = Inr Bare"
  obtains tag where "apdu \<noteq> []" "hd apdu = ApduTag_as_u8 tag"
    "SecurityPolicy_is_none (in_policy ctx) \<or> tag \<in> set (in_plain_allowed ctx)"
proof -
  from assms obtain tag where tag: "ApduTag_from_u8 (case apdu of [] \<Rightarrow> 0 | b # _ \<Rightarrow> b) = Some tag"
    and form: "fst (try_bind (Reader_skip 1) (\<lambda>_. incoming_form ctx tag) (Reader_new apdu)) = Inr Bare"
    by (auto simp: incoming_parse_def Let_def split: option.splits)
  have "apdu \<noteq> []" using tag by (auto simp: ApduTag_from_u8_def)
  moreover from this tag have "hd apdu = ApduTag_as_u8 tag" by (cases apdu) (simp_all add: ApduTag_from_u8_Some)
  moreover have "SecurityPolicy_is_none (in_policy ctx) \<or> tag \<in> set (in_plain_allowed ctx)"
    using form unfolding incoming_form_def Let_def unexpected_def
    by (auto simp: try_bind_def split: sum.splits prod.splits ApduTag.splits if_splits option.splits KeyInfo.splits)
  ultimately show thesis by (rule that)
qed

lemma unprotect_apdu_cases:
  assumes "unprotect_apdu t ctx w apdu buf = (res, w', buf')" "provider_in_place (pr_provider t)"
  obtains (refused) e where "res = Inl e" "w' = w"
  | (bare) "res = Inr apdu" "w' = w" "incoming_parse ctx apdu = Inr Bare"
  | (sealed) ex c plain where "res = Inr plain \<or> (\<exists>e. res = Inl e)" "incoming_parse ctx apdu = Inr (Sealed ex c)" "opens t ctx w c w' plain"
proof (cases "incoming_parse ctx apdu")
  case (Inl e)
  then show thesis using assms(1) by (intro refused) (auto simp: unprotect_apdu_def)
next
  case (Inr f)
  note form = this
  note run = assms(1) [unfolded unprotect_apdu_def Inr]
  show thesis
  proof (cases f)
    case Bare
    then show thesis using run form refused by (cases "length buf < length apdu") (auto intro: bare)
  next
    case (Sealed ex c)
    with run have "unprotect_sealed t ctx ex c w buf = (res, w', buf')" by simp
    then show thesis using assms(2) form Sealed by (cases rule: unprotect_sealed_cases) (auto intro: refused sealed)
  qed
qed

text \<open>A receiver's window over any number of APDUs, whatever is offered to it.\<close>

inductive window_step :: "Protector \<Rightarrow> ReplayWindow \<Rightarrow> ReplayWindow \<Rightarrow> bool" for t where
  offer: "unprotect_apdu t ctx w apdu buf = (res, w', buf') \<Longrightarrow> window_step t w w'"

inductive_cases window_stepE: "window_step t w w'"

lemma window_step_stays_refused:
  assumes "window_step t w w'" "provider_in_place (pr_provider t)" "ReplayWindow_check w u \<noteq> Inr ()"
  shows "ReplayWindow_check w' u \<noteq> Inr ()"
proof -
  from assms(1) obtain ctx apdu buf res buf' where "unprotect_apdu t ctx w apdu buf = (res, w', buf')" by (rule window_stepE)
  then show ?thesis using assms(2)
    by (cases rule: unprotect_apdu_cases) (use assms(3) in \<open>auto simp: opens_def dest: rw.stays_refused\<close>)
qed

lemma window_steps_stay_refused:
  assumes "(window_step t)\<^sup>*\<^sup>* w w'" "provider_in_place (pr_provider t)" "ReplayWindow_check w u \<noteq> Inr ()"
  shows "ReplayWindow_check w' u \<noteq> Inr ()"
  using assms by (induction rule: rtranclp_induct) (auto dest: window_step_stays_refused)

lemma refused_counter_not_opened:
  assumes "incoming_parse ctx apdu = Inr (Sealed ex c)" "ReplayWindow_check w (cs_invocation_counter c) \<noteq> Inr ()"
  shows "\<exists>e. unprotect_apdu t ctx w apdu buf = (Inl e, w, buf)"
  using assms by (auto simp: unprotect_apdu_def unprotect_sealed_def split: option.splits sum.splits)

subsection \<open>From one end to the other\<close>

lemma protect_as_front:
  assumes "Protector_protect_as t pol title ic ak plain out = (Inr payload, out')"
  shows "payload = take (length payload) out'"
proof -
  have front: "b = take k x \<Longrightarrow> b = take (length b) x" for b x :: bytes and k by (metis length_take take_all_iff nle_le take_take)
  from assms show ?thesis
    unfolding Protector_protect_as_def Let_def
    by (auto split: if_splits sum.splits prod.splits intro: front)
qed

lemma general_not_renamed:
  "ApduTag_unprotect AGeneralSigning = None" "ApduTag_unprotect AGeneralCiphering = None"
  "ApduTag_unprotect AGeneralGloCiphering = None" "ApduTag_unprotect AGeneralDedCiphering = None"
  by code_simp+

text \<open>The bytes in front of the payload, in either form.\<close>

definition form_image :: "Outgoing \<Rightarrow> ApduTag \<Rightarrow> bytes" where
  "form_image ctx plain_tag =
     (let protection = (if SecurityPolicy_dedicated (og_policy ctx) then PDedicated else PGlobal) in
      case ApduTag_protected_as protection plain_tag of
        Some tag \<Rightarrow> [ApduTag_as_u8 tag]
      | None \<Rightarrow> ApduTag_as_u8 (if protection = PDedicated then AGeneralDedCiphering else AGeneralGloCiphering) #
          prefixed (st_bytes (og_system_title ctx)))"

lemma writes_form_header:
  assumes "short_field (st_bytes (og_system_title ctx))"
    and "ApduTag_protected_as (if SecurityPolicy_dedicated (og_policy ctx) then PDedicated else PGlobal) plain_tag \<noteq> None \<or> og_general_allowed ctx"
  shows "writes (form_header ctx plain_tag) (form_image ctx plain_tag)"
  using assms unfolding form_header_def form_image_def Let_def
  by (auto intro!: writes_u8 writes_seq [OF writes_u8, simplified] writes_prefixed split: option.splits)

lemma form_header_refused:
  assumes "ApduTag_protected_as (if SecurityPolicy_dedicated (og_policy ctx) then PDedicated else PGlobal) plain_tag = None"
    "\<not> og_general_allowed ctx"
  shows "form_header ctx plain_tag w = (Inl (Error_new Unsupported 0), w)"
  using assms by (simp add: form_header_def Let_def)

lemma protect_apdu_Inr:
  assumes run: "protect_apdu t ctx plain out = (Inr n, out')" and pol: "\<not> SecurityPolicy_is_none (og_policy ctx)"
    and title: "length (st_bytes (og_system_title ctx)) = 8" and size: "5 + length plain + TAG_LEN < 2 ^ 32"
  obtains tag ak payload out1 body where "first_tag plain = Inr tag" "og_auth_key ctx = Some ak"
    "Protector_protect_as t (og_policy ctx) (og_system_title ctx) (og_invocation_counter ctx) ak plain out1 = (Inr payload, body)"
    "take n out' = form_image ctx tag @ ciphered_image \<lparr>cs_security_control = SecurityPolicy_control (og_policy ctx),
       cs_invocation_counter = og_invocation_counter ctx, cs_payload = payload\<rparr>"
    "length payload = length plain + (if sp_authenticated (og_policy ctx) then TAG_LEN else 0)"
proof -
  from run pol obtain tag ak where tag: "first_tag plain = Inr tag" and ak: "og_auth_key ctx = Some ak"
    by (auto simp: protect_apdu_def split: sum.splits option.splits)
  define pl where "pl = length plain + (if sp_authenticated (og_policy ctx) then TAG_LEN else 0)"
  define img where "img = form_image ctx tag @ len_bytes (5 + pl) @ [sc_byte (SecurityPolicy_control (og_policy ctx))] @ be_bytes 4 (og_invocation_counter ctx)"
  let ?enc = "encode_into (protected_header ctx tag pl) (replicate HEADER_MAX 0)"
  from run pol tag ak obtain hl header where enc: "?enc = (Inr hl, header)"
    by (cases ?enc; cases "fst ?enc") (auto simp: protect_apdu_def pl_def)
  have allowed: "ApduTag_protected_as (if SecurityPolicy_dedicated (og_policy ctx) then PDedicated else PGlobal) tag \<noteq> None \<or> og_general_allowed ctx"
  proof (rule ccontr)
    assume "\<not> ?thesis"
    then have "fst ?enc = Inl (Error_new Unsupported 0)"
      by (simp add: encode_into_def protected_header_def try_bind_def form_header_refused)
    with enc show False by simp
  qed
  have "writes (protected_header ctx tag pl) img"
    unfolding protected_header_def img_def
    by (intro writes_seq writes_form_header allowed writes_length writes_u8 writes_u32)
      (use title size in \<open>auto simp: short_field_def pl_def TAG_LEN_def\<close>)
  from encode_into_InrD [OF this enc] have hl: "hl = length img" "take hl header = img" by auto
  let ?out = "overwrite out 0 (take hl header)"
  let ?prot = "Protector_protect_as t (og_policy ctx) (og_system_title ctx) (og_invocation_counter ctx) ak plain (drop hl ?out)"
  have room: "\<not> length out < hl"
    using run pol tag ak enc by (cases "length out < hl") (simp_all add: protect_apdu_def pl_def [symmetric] Let_def)
  have step: "(case ?prot of (Inl e, body) \<Rightarrow> (Inl e, take hl ?out @ body)
      | (Inr payload, body) \<Rightarrow> if length payload \<noteq> pl then (Inl (Error_new InvalidLength hl), take hl ?out @ body)
          else (Inr (hl + length payload), take hl ?out @ body)) = (Inr n, out')"
    using run [unfolded protect_apdu_def Let_def, folded pl_def] pol tag ak enc room by simp
  then obtain payload body where prot: "?prot = (Inr payload, body)" and len: "length payload = pl"
    and n: "n = hl + length payload" and out': "out' = take hl ?out @ body"
    by (cases ?prot; cases "fst ?prot") (auto split: if_splits)
  have "take hl ?out = img" unfolding hl(2) using hl(1) by simp
  then have "take n out' = img @ payload" using n out' hl protect_as_front [OF prot] by simp
  then have "take n out' = form_image ctx tag @ ciphered_image \<lparr>cs_security_control = SecurityPolicy_control (og_policy ctx),
       cs_invocation_counter = og_invocation_counter ctx, cs_payload = payload\<rparr>"
    by (simp add: img_def ciphered_image_def len)
  with tag ak prot len show thesis by (intro that) (auto simp: pl_def)
qed

text \<open>The receiver reads back the form the sender chose.\<close>

lemma decodes_fst: "decodes dec bs x \<Longrightarrow> fst (dec (Reader_new bs)) = Inr x"
  using decodes_inside [of dec bs x bs "[]" "[]" 0 "length bs"] by simp

lemma incoming_parse_own:
  assumes "form_image out_ctx tag = T # pre" "ApduTag_from_u8 T = Some ctag"
    and "decodes (incoming_form ctx ctag) (pre @ rest) f"
  shows "incoming_parse ctx (form_image out_ctx tag @ rest) = Inr f"
proof -
  have "decodes (try_bind (Reader_skip 1) (\<lambda>_. incoming_form ctx ctag)) ([T] @ (pre @ rest)) f"
    by (rule decodes_bind [OF decodes_skip assms(3)]) simp
  from decodes_fst [OF this] show ?thesis using assms(1,2) by (simp add: incoming_parse_def)
qed

definition agrees :: "Outgoing \<Rightarrow> Incoming \<Rightarrow> bool" where
  "agrees og ctx \<longleftrightarrow> in_peer ctx = Some (og_system_title og) \<and> in_auth_key ctx = og_auth_key og \<and> in_policy ctx = og_policy og"

lemma sealed_form_read_back:
  assumes "agrees og ctx" "short_field (st_bytes (og_system_title og))" "ciphered_valid c"
  obtains ex where "incoming_parse ctx (form_image og tag @ ciphered_image c) = Inr (Sealed ex c)" "ex = None \<or> ex = Some tag"
proof -
  define prot where "prot = (if SecurityPolicy_dedicated (og_policy og) then PDedicated else PGlobal)"
  have pol: "in_policy ctx = og_policy og" "in_peer ctx = Some (og_system_title og)" using assms(1) by (auto simp: agrees_def)
  have pnone: "prot \<noteq> PNone" "(prot = PDedicated) = SecurityPolicy_dedicated (og_policy og)" by (auto simp: prot_def)
  show thesis
  proof (cases "ApduTag_protected_as prot tag")
    case (Some ctag)
    then have un: "ApduTag_unprotect ctag = Some (prot, tag)" using protected_as_unprotect pnone by blast
    have "ctag \<notin> {AGeneralSigning, AGeneralCiphering, AGeneralGloCiphering, AGeneralDedCiphering}"
      using un general_not_renamed by auto
    then have "incoming_form ctx ctag = try_bind CipheredService_decode (\<lambda>c. ok (Sealed (Some tag) c))"
      using un pol pnone by (cases ctag) (simp_all add: incoming_form_def)
    then have "decodes (incoming_form ctx ctag) ([] @ ciphered_image c) (Sealed (Some tag) c)"
      using ciphered.dec_img [OF assms(3)] by (auto intro: decodes_map)
    moreover have "form_image og tag = ApduTag_as_u8 ctag # []" using Some by (simp add: form_image_def prot_def [symmetric])
    ultimately have "incoming_parse ctx (form_image og tag @ ciphered_image c) = Inr (Sealed (Some tag) c)"
      by (intro incoming_parse_own [where pre = "[]" and ctag = ctag]) auto
    then show thesis by (rule that) simp
  next
    case None
    define ctag where "ctag = (if prot = PDedicated then AGeneralDedCiphering else AGeneralGloCiphering)"
    let ?g = "\<lparr>gg_system_title = st_bytes (og_system_title og), gg_ciphered = c\<rparr>"
    have g: "decodes GeneralGloCiphering_decode (glo_image ?g) ?g"
      using assms(2,3) by (intro glo.dec_img) (simp add: glo_valid_def)
    have "decodes (incoming_form ctx ctag) (glo_image ?g) (Sealed None c)"
      unfolding incoming_form_def Let_def
      using pol pnone by (auto simp: ctag_def intro!: decodes_last [OF g])
    then have "decodes (incoming_form ctx ctag) (prefixed (st_bytes (og_system_title og)) @ ciphered_image c) (Sealed None c)"
      by (simp add: glo_image_def)
    moreover have "form_image og tag = ApduTag_as_u8 ctag # prefixed (st_bytes (og_system_title og))"
      using None by (simp add: form_image_def prot_def [symmetric] ctag_def)
    ultimately have "incoming_parse ctx (form_image og tag @ ciphered_image c) = Inr (Sealed None c)"
      by (intro incoming_parse_own [where ctag = ctag]) auto
    then show thesis by (rule that) simp
  qed
qed

lemma unprotect_sealed_opens:
  assumes "in_peer ctx = Some peer" "in_auth_key ctx = Some ak" "ReplayWindow_check w (cs_invocation_counter c) = Inr ()"
    and "length (cs_payload c) \<le> length buf"
    and un: "Protector_unprotect_as t (in_policy ctx) (cs_security_control c) peer (cs_invocation_counter c) ak (cs_payload c) = (Inr plain, rest)"
    and "first_tag plain = Inr tag" "ex = None \<or> ex = Some tag" "provider_in_place (pr_provider t)"
  shows "\<exists>w' buf'. ReplayWindow_accept (cs_invocation_counter c) w = (Inr (), w') \<and> unprotect_sealed t ctx ex c w buf = (Inr plain, w', buf')"
proof -
  obtain w1 where acc: "ReplayWindow_accept (cs_invocation_counter c) w = (Inr (), w1)" using rw.accept_succeeds [OF assms(3)] by blast
  note front = unprotect_as_front [OF un assms(8)]
  let ?buf = "overwrite (overwrite buf 0 (cs_payload c)) 0 rest"
  have "length plain \<le> length rest" using front(1) by (metis length_take min.cobounded1)
  then have len: "\<not> length ?buf < length plain" "take (length plain) ?buf = plain"
    using front assms(4) by (auto simp: overwrite_front)
  obtain b bs where plain: "plain = b # bs" "b = ApduTag_as_u8 tag"
    using assms(6) by (auto simp: first_tag_def ApduTag_from_u8_Some split: list.splits option.splits)
  with len(2) obtain bs' where "?buf = b # bs'" by (cases ?buf) auto
  then have good: "(case ex of None \<Rightarrow> False | Some expected \<Rightarrow> (case ?buf of [] \<Rightarrow> True | b # _ \<Rightarrow> b \<noteq> ApduTag_as_u8 expected)) = False"
    using plain(2) assms(7) by auto
  have "take (length (cs_payload c)) (overwrite buf 0 (cs_payload c)) = cs_payload c" "\<not> length buf < length (cs_payload c)"
    using assms(4) by simp_all
  then have "unprotect_sealed t ctx ex c w buf = (Inr (take (length plain) ?buf), w1, ?buf)"
    unfolding unprotect_sealed_def Let_def assms(1,2) option.case assms(3) sum.case
    using un acc len(1) good by simp
  then show ?thesis using acc unfolding len(2) by blast
qed

subsection \<open>Properties\<close>

text \<open>The two ends of the examples: a client and a meter that agree on suite 0, authenticated and encrypted.\<close>

definition demo_end :: Protector where
  "demo_end = \<lparr>pr_provider = demo_provider, pr_policy = SecurityPolicy_authenticated_encrypted Suite0\<rparr>"

definition demo_out :: Outgoing where
  "demo_out = \<lparr>og_system_title = SystemTitle [1, 2, 3, 4, 5, 6, 7, 8], og_invocation_counter = 9, og_auth_key = Some [1, 2],
     og_policy = SecurityPolicy_authenticated_encrypted Suite0, og_general_allowed = True\<rparr>"

definition demo_in :: Incoming where
  "demo_in = \<lparr>in_local = None, in_peer = Some (SystemTitle [1, 2, 3, 4, 5, 6, 7, 8]), in_auth_key = Some [1, 2],
     in_policy = SecurityPolicy_authenticated_encrypted Suite0, in_plain_allowed = []\<rparr>"

definition demo_apdu :: bytes where
  "demo_apdu = [0xC8, 20, 0x30, 0, 0, 0, 9, 0x9A, 0x5B, 0x5B] @ replicate 12 3"

lemma demo_sealed:
  "incoming_parse demo_in demo_apdu = Inr (Sealed (Some AGetRequest)
     \<lparr>cs_security_control = SecurityControl 0x30, cs_invocation_counter = 9, cs_payload = [0x9A, 0x5B, 0x5B] @ replicate 12 3\<rparr>)"
  by code_simp

lemma demo_opened: "fst (unprotect_apdu demo_end demo_in (ReplayWindow_new 8) demo_apdu (replicate 40 0)) = Inr [0xC0, 1, 1]"
  by code_simp

lemma demo_end_laws: "provider_in_place (pr_provider demo_end)" "aead_inverse (pr_provider demo_end)" "ctr_involution (pr_provider demo_end)"
  by (simp_all add: demo_end_def demo_laws)

text \<open>C14: From one end to the other: whatever APDU one end protects, under any policy and in the service-specific or the general form, the
  other end opens to exactly that APDU when it has the same keys and policy, its window has not seen the counter and its buffer
  holds the payload; and its window afterwards is the one that has recorded the counter.\<close>

theorem apdu_protection_end_to_end:
  assumes "provider_in_place (pr_provider t)" "aead_inverse (pr_provider t)" "ctr_involution (pr_provider t)"
    and "protect_apdu t og plain out = (Inr n, out')" "\<not> SecurityPolicy_is_none (og_policy og)"
    and "length (st_bytes (og_system_title og)) = 8" "5 + length plain + TAG_LEN < 2 ^ 32"
    and "agrees og ctx" "ReplayWindow_check w (og_invocation_counter og) = Inr ()" "length plain + TAG_LEN \<le> length buf"
  shows "\<exists>w' buf'. ReplayWindow_accept (og_invocation_counter og) w = (Inr (), w') \<and>
    unprotect_apdu t ctx w (take n out') buf = (Inr plain, w', buf')"
  using assms(4-7)
proof (cases rule: protect_apdu_Inr)
  case (1 tag ak payload out1 body)
  define c where "c = \<lparr>cs_security_control = SecurityPolicy_control (og_policy og), cs_invocation_counter = og_invocation_counter og, cs_payload = payload\<rparr>"
  have ctx: "in_peer ctx = Some (og_system_title og)" "in_auth_key ctx = Some ak" "in_policy ctx = og_policy og"
    using assms(8) 1(2) by (auto simp: agrees_def)
  have fits: "short_field (st_bytes (og_system_title og))" "ciphered_valid c" "length payload \<le> length buf"
    using assms(6,7,10) 1(5) by (auto simp: short_field_def ciphered_valid_def c_def split: if_splits)
  obtain ex where ex: "incoming_parse ctx (form_image og tag @ ciphered_image c) = Inr (Sealed ex c)" "ex = None \<or> ex = Some tag"
    using assms(8) fits(1,2) by (rule sealed_form_read_back)
  obtain rest where "Protector_unprotect_as t (og_policy og) (SecurityPolicy_control (og_policy og)) (og_system_title og)
      (og_invocation_counter og) ak payload = (Inr plain, rest)"
    using unprotect_protected [OF 1(3) assms(1-3)] by blast
  then have "\<exists>w' buf'. ReplayWindow_accept (cs_invocation_counter c) w = (Inr (), w') \<and> unprotect_sealed t ctx ex c w buf = (Inr plain, w', buf')"
    using ctx assms(1,9) 1(1) ex(2) fits(3)
    by (intro unprotect_sealed_opens [where peer = "og_system_title og" and ak = ak]) (auto simp: c_def)
  then show ?thesis using ex(1) 1(4) by (auto simp: unprotect_apdu_def c_def)
qed

theorem apdu_protection_end_to_end_witness:
  "\<exists>n out' w' buf'. protect_apdu demo_end demo_out [0xC0, 1, 1] (replicate 60 0) = (Inr n, out') \<and> agrees demo_out demo_in \<and>
     unprotect_apdu demo_end demo_in (ReplayWindow_new 8) (take n out') (replicate 40 0) = (Inr [0xC0, 1, 1], w', buf')"
proof -
  let ?run = "protect_apdu demo_end demo_out [0xC0, 1, 1] (replicate 60 0)"
  have "\<not> isl (fst ?run)" by code_simp
  then obtain n out' where run: "?run = (Inr n, out')" by (cases ?run; cases "fst ?run") auto
  have agr: "agrees demo_out demo_in" by (simp add: agrees_def demo_out_def demo_in_def)
  have "\<exists>w' buf'. ReplayWindow_accept (og_invocation_counter demo_out) (ReplayWindow_new 8) = (Inr (), w') \<and>
      unprotect_apdu demo_end demo_in (ReplayWindow_new 8) (take n out') (replicate 40 0) = (Inr [0xC0, 1, 1], w', buf')"
    by (rule apdu_protection_end_to_end [OF demo_end_laws run _ _ _ agr])
      (simp_all add: demo_out_def SecurityPolicy_is_none_def SecurityPolicy_authenticated_encrypted_def TAG_LEN_def ReplayWindow_check_def ReplayWindow_new_def)
  with run agr show ?thesis by blast
qed

text \<open>C15: Nothing gets past an authenticating policy unverified.  Whatever bytes are offered, an APDU that is handed on either bears a tag the
  caller let through in the clear and is handed on as it came, or it parsed as a ciphered service whose content the provider verified
  under the policy; and the replay window is unchanged unless such a verified service carried the counter it now records, so that a
  forged APDU cannot move it.\<close>

theorem unprotect_apdu_authentic:
  assumes "provider_in_place (pr_provider t)" "sp_authenticated (in_policy ctx)"
    and "unprotect_apdu t ctx w apdu buf = (res, w', buf')"
  shows "(w' = w \<and> (\<forall>plain. res = Inr plain \<longrightarrow> plain = apdu \<and> (\<exists>tag\<in>set (in_plain_allowed ctx). hd apdu = ApduTag_as_u8 tag))) \<or>
    (\<exists>ex c peer ak plain. incoming_parse ctx apdu = Inr (Sealed ex c) \<and> in_peer ctx = Some peer \<and> in_auth_key ctx = Some ak \<and>
       verified t (in_policy ctx) (cs_security_control c) peer (cs_invocation_counter c) ak (cs_payload c) plain \<and>
       (res = Inr plain \<or> (\<exists>e. res = Inl e)) \<and> ReplayWindow_accept (cs_invocation_counter c) w = (Inr (), w'))"
  using assms(3,1)
proof (cases rule: unprotect_apdu_cases)
  case bare
  from bare(3) obtain tag where "hd apdu = ApduTag_as_u8 tag" "SecurityPolicy_is_none (in_policy ctx) \<or> tag \<in> set (in_plain_allowed ctx)"
    by (rule incoming_parse_Bare)
  with assms(2) have "tag \<in> set (in_plain_allowed ctx)" by (simp add: SecurityPolicy_is_none_def)
  with bare \<open>hd apdu = ApduTag_as_u8 tag\<close> show ?thesis by blast
next
  case (sealed ex c plain)
  from sealed(3) obtain peer ak rest where "in_peer ctx = Some peer" "in_auth_key ctx = Some ak"
    "ReplayWindow_accept (cs_invocation_counter c) w = (Inr (), w')"
    "Protector_unprotect_as t (in_policy ctx) (cs_security_control c) peer (cs_invocation_counter c) ak (cs_payload c) = (Inr plain, rest)"
    by (auto simp: opens_def)
  with unprotect_verified [OF this(4) assms(2,1)] sealed(1,2) show ?thesis by blast
qed simp

theorem unprotect_apdu_authentic_witness:
  "\<exists>plain w' buf'. unprotect_apdu demo_end demo_in (ReplayWindow_new 8) demo_apdu (replicate 40 0) = (Inr plain, w', buf') \<and>
     (\<exists>ex c peer ak. incoming_parse demo_in demo_apdu = Inr (Sealed ex c) \<and>
        verified demo_end (in_policy demo_in) (cs_security_control c) peer (cs_invocation_counter c) ak (cs_payload c) plain)"
proof -
  let ?run = "unprotect_apdu demo_end demo_in (ReplayWindow_new 8) demo_apdu (replicate 40 0)"
  obtain w' buf' where run: "?run = (Inr [0xC0, 1, 1], w', buf')" using demo_opened by (cases ?run) auto
  have "sp_authenticated (in_policy demo_in)" by (simp add: demo_in_def SecurityPolicy_authenticated_encrypted_def)
  from unprotect_apdu_authentic [OF demo_end_laws(1) this run] run show ?thesis
    by (force simp: demo_in_def)
qed

text \<open>C16: No replay: a protected APDU that was opened once is refused, without any effect on the window or the buffer, whenever it is
  offered again, whatever sequence of APDUs, valid or forged, was offered to the window in between.\<close>

theorem protected_apdu_opens_once:
  assumes "provider_in_place (pr_provider t)" "incoming_parse ctx apdu = Inr (Sealed ex c)"
    and "unprotect_apdu t ctx w apdu buf = (Inr plain, w1, buf1)" "(window_step t)\<^sup>*\<^sup>* w1 w2"
  shows "\<exists>e. unprotect_apdu t ctx w2 apdu buf2 = (Inl e, w2, buf2)"
proof -
  have "ReplayWindow_check w1 (cs_invocation_counter c) \<noteq> Inr ()"
    using assms(3,1) by (cases rule: unprotect_apdu_cases) (use assms(2) in \<open>auto simp: opens_def dest: rw.spends\<close>)
  with window_steps_stay_refused [OF assms(4,1)] have "ReplayWindow_check w2 (cs_invocation_counter c) \<noteq> Inr ()" by simp
  with assms(2) show ?thesis by (rule refused_counter_not_opened)
qed

theorem protected_apdu_opens_once_witness:
  "\<exists>w1 buf1 e. unprotect_apdu demo_end demo_in (ReplayWindow_new 8) demo_apdu (replicate 40 0) = (Inr [0xC0, 1, 1], w1, buf1) \<and>
     unprotect_apdu demo_end demo_in w1 demo_apdu [1] = (Inl e, w1, [1])"
proof -
  let ?run = "unprotect_apdu demo_end demo_in (ReplayWindow_new 8) demo_apdu (replicate 40 0)"
  obtain w1 buf1 where run: "?run = (Inr [0xC0, 1, 1], w1, buf1)" using demo_opened by (cases ?run) auto
  from protected_apdu_opens_once [OF demo_end_laws(1) demo_sealed run rtranclp.rtrancl_refl] run show ?thesis by blast
qed

end
