(* ===== verification/Rights.thy ===== *)
theory Rights
  imports Axdr Obis
begin

text \<open>
  What an association may do with an object, \<^verbatim>\<open>src/src/cosem/access.rs\<close>: the flags of version 3, the enumeration of the
  versions before it, and the object list that carries either.
\<close>

subsection \<open>Flags\<close>

datatype AttributeAccess = AttributeAccess (aa_bits: u8)

definition AA_READ :: u8 where
  "AA_READ = 0x01"

definition AA_WRITE :: u8 where
  "AA_WRITE = 0x02"

definition AA_AUTHENTICATED_REQUEST :: u8 where
  "AA_AUTHENTICATED_REQUEST = 0x04"

definition AA_ENCRYPTED_REQUEST :: u8 where
  "AA_ENCRYPTED_REQUEST = 0x08"

definition AA_DIGITALLY_SIGNED_REQUEST :: u8 where
  "AA_DIGITALLY_SIGNED_REQUEST = 0x10"

definition AA_AUTHENTICATED_RESPONSE :: u8 where
  "AA_AUTHENTICATED_RESPONSE = 0x20"

definition AA_ENCRYPTED_RESPONSE :: u8 where
  "AA_ENCRYPTED_RESPONSE = 0x40"

definition AA_DIGITALLY_SIGNED_RESPONSE :: u8 where
  "AA_DIGITALLY_SIGNED_RESPONSE = 0x80"

text \<open>Every bit of the byte is a flag of an attribute; bit 1 is none of a method.\<close>

definition AttributeAccess_from_bits_truncate :: "u8 \<Rightarrow> AttributeAccess" where
  "AttributeAccess_from_bits_truncate b = AttributeAccess b"

datatype MethodAccess = MethodAccess (ma_bits: u8)

definition MA_ACCESS :: u8 where
  "MA_ACCESS = 0x01"

definition MA_AUTHENTICATED_REQUEST :: u8 where
  "MA_AUTHENTICATED_REQUEST = 0x04"

definition MethodAccess_from_bits_truncate :: "u8 \<Rightarrow> MethodAccess" where
  "MethodAccess_from_bits_truncate b = MethodAccess (b AND 0xFD)"

definition AttributeAccess_from_legacy :: "u8 \<Rightarrow> AttributeAccess" where
  "AttributeAccess_from_legacy mode =
     (if mode = 1 then AttributeAccess AA_READ
      else if mode = 2 then AttributeAccess AA_WRITE
      else if mode = 3 then AttributeAccess_from_bits_truncate (AA_READ OR AA_WRITE)
      else if mode = 4 then AttributeAccess_from_bits_truncate (AA_READ OR AA_AUTHENTICATED_REQUEST)
      else if mode = 5 then AttributeAccess_from_bits_truncate (AA_WRITE OR AA_AUTHENTICATED_REQUEST)
      else if mode = 6 then AttributeAccess_from_bits_truncate (AA_READ OR AA_WRITE OR AA_AUTHENTICATED_REQUEST)
      else AttributeAccess 0)"

definition can_read :: "AttributeAccess \<Rightarrow> bool" where
  "can_read a \<longleftrightarrow> aa_bits a AND AA_READ = AA_READ"

definition can_write :: "AttributeAccess \<Rightarrow> bool" where
  "can_write a \<longleftrightarrow> aa_bits a AND AA_WRITE = AA_WRITE"

definition requires_protection :: "AttributeAccess \<Rightarrow> bool" where
  "requires_protection a \<longleftrightarrow>
     aa_bits a AND (AA_AUTHENTICATED_REQUEST OR AA_ENCRYPTED_REQUEST OR AA_DIGITALLY_SIGNED_REQUEST) \<noteq> 0"

definition MethodAccess_from_legacy :: "u8 \<Rightarrow> MethodAccess" where
  "MethodAccess_from_legacy mode =
     (if mode = 1 then MethodAccess MA_ACCESS
      else if mode = 2 then MethodAccess_from_bits_truncate (MA_ACCESS OR MA_AUTHENTICATED_REQUEST)
      else MethodAccess 0)"

definition can_invoke :: "MethodAccess \<Rightarrow> bool" where
  "can_invoke m \<longleftrightarrow> ma_bits m AND MA_ACCESS = MA_ACCESS"

subsection \<open>The object list\<close>

datatype AssociationVersion = AvLegacy | AvV3

record AttributeRight =
  ar_attribute_id :: int
  ar_access :: AttributeAccess
  ar_has_selectors :: bool

record MethodRight =
  mr_method_id :: int
  mr_access :: MethodAccess

record ObjectListEntry =
  ole_class_id :: u16
  ole_version :: u8
  ole_logical_name :: Obis
  ole_access_rights :: "Data option"

definition invalid :: "'a option \<Rightarrow> 'a result" where
  "invalid v = (case v of None \<Rightarrow> Inl (Error_new InvalidValue 0) | Some x \<Rightarrow> Inr x)"

text \<open>\<^verbatim>\<open>u16::try_from\<close> and the others: the value when it is in the range of the type.\<close>

definition in_range :: "int \<Rightarrow> int \<Rightarrow> int \<Rightarrow> int option" where
  "in_range lo hi v = (if lo \<le> v \<and> v \<le> hi then Some v else None)"

definition Data_as_obis :: "Data \<Rightarrow> Obis option" where
  "Data_as_obis d = (case Data_as_bytes d of None \<Rightarrow> None | Some b \<Rightarrow> if length b = 6 then Some (Obis b) else None)"

definition ObjectListEntry_from_data :: "Data \<Rightarrow> ObjectListEntry result" where
  "ObjectListEntry_from_data d =
     res_bind (invalid (Data_as_structure d)) (\<lambda>s.
     res_bind (res_bind (Seq_get s 0) (\<lambda>v. invalid (Data_as_u64 v))) (\<lambda>class_id.
     res_bind (invalid (in_range 0 65535 class_id)) (\<lambda>class_id.
     res_bind (res_bind (Seq_get s 1) (\<lambda>v. invalid (Data_as_u64 v))) (\<lambda>version.
     res_bind (invalid (in_range 0 255 version)) (\<lambda>version.
     res_bind (res_bind (Seq_get s 2) (\<lambda>v. invalid (Data_as_obis v))) (\<lambda>logical_name.
       Inr \<lparr>ole_class_id = of_int class_id, ole_version = of_int version, ole_logical_name = logical_name,
         ole_access_rights = (case Seq_get s 3 of Inl _ \<Rightarrow> None | Inr v \<Rightarrow> Some v)\<rparr>))))))"

text \<open>The access mode of one entry, as the association version writes it.\<close>

definition small_mode :: "Data \<Rightarrow> u8" where
  "small_mode mode = (case in_range 0 255 (case Data_as_u64 mode of None \<Rightarrow> 0 | Some v \<Rightarrow> v) of None \<Rightarrow> 0 | Some v \<Rightarrow> of_int v)"

definition access_of_mode :: "AssociationVersion \<Rightarrow> Data \<Rightarrow> AttributeAccess" where
  "access_of_mode version mode =
     (case version of
        AvLegacy \<Rightarrow> AttributeAccess_from_legacy (small_mode mode)
      | AvV3 \<Rightarrow> AttributeAccess_from_bits_truncate
          (case mode of
             DBitString b \<Rightarrow> ucast (drop_bit (min (bs_bits b - 8) 24) (BitStr_to_u32 b))
           | other \<Rightarrow> small_mode other))"

definition attribute_right :: "AssociationVersion \<Rightarrow> Data \<Rightarrow> AttributeRight result" where
  "attribute_right version entry =
     res_bind (invalid (Data_as_structure entry)) (\<lambda>e.
     res_bind (res_bind (Seq_get e 0) (\<lambda>v. invalid (Data_as_i64 v))) (\<lambda>attribute_id.
     res_bind (invalid (in_range (-128) 127 attribute_id)) (\<lambda>attribute_id.
     res_bind (Seq_get e 1) (\<lambda>mode.
       Inr \<lparr>ar_attribute_id = attribute_id, ar_access = access_of_mode version mode,
         ar_has_selectors = (case Seq_get e 2 of Inl _ \<Rightarrow> False | Inr d \<Rightarrow> d \<noteq> DNull)\<rparr>))))"

text \<open>The visitor \<open>f\<close> is called on every right in turn; its state is the state of the operation.\<close>

function visit_rights ::
  "AssociationVersion \<Rightarrow> (AttributeRight \<Rightarrow> ('st, unit) op) \<Rightarrow> SeqIter \<Rightarrow> ('st, unit) op" where
  "visit_rights version f it =
     (case SeqIter_next it of
        (None, _) \<Rightarrow> ok ()
      | (Some entry, it') \<Rightarrow>
          try_bind (lift_res (res_bind entry (attribute_right version))) (\<lambda>right.
          try_bind (f right) (\<lambda>_. visit_rights version f it')))"
  by pat_completeness auto

termination
  by (relation "measure (\<lambda>(_, _, it). si_left it)")
    (auto simp: SeqIter_next_def split: if_splits prod.splits)

definition for_each_attribute_right ::
  "ObjectListEntry \<Rightarrow> AssociationVersion \<Rightarrow> (AttributeRight \<Rightarrow> ('st, unit) op) \<Rightarrow> ('st, unit) op" where
  "for_each_attribute_right entry version f =
     (case ole_access_rights entry of None \<Rightarrow> ok ()
      | Some rights \<Rightarrow> (case Data_as_structure rights of None \<Rightarrow> ok ()
      | Some s \<Rightarrow> (case Seq_get s 0 of Inl _ \<Rightarrow> ok ()
      | Inr list1 \<Rightarrow> (case Data_as_array list1 of None \<Rightarrow> ok ()
      | Some items \<Rightarrow> visit_rights version f (Seq_iter items)))))"

definition access_byte :: "Data \<Rightarrow> u8 option" where
  "access_byte d =
     (case d of
        DBitString b \<Rightarrow> (case bs_bytes b of [] \<Rightarrow> None | x # _ \<Rightarrow> Some x)
      | other \<Rightarrow> (case Data_as_u64 other of None \<Rightarrow> None | Some v \<Rightarrow> map_option of_int (in_range 0 255 v)))"

subsection \<open>The two shapes agree\<close>

text \<open>Rights of the enumeration, as the flags say them.\<close>

lemma legacy_rights:
  "can_read (AttributeAccess_from_legacy mode) \<longleftrightarrow> mode \<in> {1, 3, 4, 6}"
  "can_write (AttributeAccess_from_legacy mode) \<longleftrightarrow> mode \<in> {2, 3, 5, 6}"
  "requires_protection (AttributeAccess_from_legacy mode) \<longleftrightarrow> mode \<in> {4, 5, 6}"
  "can_invoke (MethodAccess_from_legacy mode) \<longleftrightarrow> mode \<in> {1, 2}"
  by (auto simp: can_read_def can_write_def requires_protection_def can_invoke_def AttributeAccess_from_legacy_def
    MethodAccess_from_legacy_def AttributeAccess_from_bits_truncate_def MethodAccess_from_bits_truncate_def AA_READ_def AA_WRITE_def
    AA_AUTHENTICATED_REQUEST_def AA_ENCRYPTED_REQUEST_def AA_DIGITALLY_SIGNED_REQUEST_def MA_ACCESS_def MA_AUTHENTICATED_REQUEST_def)

end
