(* ===== verification/Server.thy ===== *)
theory Server
  imports Apdu ApduProtection Rights
begin

text \<open>
  The server engine, \<^verbatim>\<open>src/src/server/mod.rs\<close> and the store interface \<^verbatim>\<open>src/src/server/store.rs\<close>, in a build without the
  short-name services (feature \<^verbatim>\<open>sn\<close> off).  A handler takes the server and the output buffer and returns the result, the
  server and the buffer as it leaves them.  The object store, the operations that change the key store of the crypto provider
  and the random source are traits of the source: they are the argument \<open>Env\<close> over a store state \<open>'s\<close>.  The buffers of \<open>N\<close>
  bytes have the length of \<open>sv_response\<close>.
\<close>

subsection \<open>The store\<close>

datatype AuditEvent =
    AuAssociated AuthMechanism bool
  | AuAssociationRefused UserDiagnostic
  | AuReleased
  | AuAttributeRead u16 Obis u8 DataAccessResult
  | AuAttributeWritten u16 Obis u8 DataAccessResult
  | AuMethodInvoked u16 Obis u8 ActionResult

record 's Env =
  env_get_attribute :: "'s \<Rightarrow> u16 \<Rightarrow> Obis \<Rightarrow> u8 \<Rightarrow> SelectiveAccess option \<Rightarrow> writer \<Rightarrow> (DataAccessResult + unit) \<times> writer"
  env_set_attribute :: "'s \<Rightarrow> u16 \<Rightarrow> Obis \<Rightarrow> u8 \<Rightarrow> SelectiveAccess option \<Rightarrow> Data \<Rightarrow> (DataAccessResult + unit) \<times> 's"
  env_invoke_method :: "'s \<Rightarrow> u16 \<Rightarrow> Obis \<Rightarrow> u8 \<Rightarrow> Data option \<Rightarrow> writer \<Rightarrow> (ActionResult + bool) \<times> 's \<times> writer"
  env_attribute_access :: "'s \<Rightarrow> u16 \<Rightarrow> Obis \<Rightarrow> u8 \<Rightarrow> AttributeAccess"
  env_method_access :: "'s \<Rightarrow> u16 \<Rightarrow> Obis \<Rightarrow> u8 \<Rightarrow> MethodAccess"
  env_audit :: "AuditEvent \<Rightarrow> 's \<Rightarrow> 's"
  env_set_dedicated_key :: "Key \<Rightarrow> CryptoProvider \<Rightarrow> unit result \<times> CryptoProvider"
  env_clear_dedicated_key :: "CryptoProvider \<Rightarrow> CryptoProvider"
  env_random :: "bytes \<Rightarrow> unit result \<times> bytes"

text \<open>What the trait answers for an operation that a store does not implement.\<close>

definition default_set_attribute :: "'s \<Rightarrow> u16 \<Rightarrow> Obis \<Rightarrow> u8 \<Rightarrow> SelectiveAccess option \<Rightarrow> Data \<Rightarrow> (DataAccessResult + unit) \<times> 's" where
  "default_set_attribute store _ _ _ _ _ = (Inl DarReadWriteDenied, store)"

definition default_invoke_method :: "'s \<Rightarrow> u16 \<Rightarrow> Obis \<Rightarrow> u8 \<Rightarrow> Data option \<Rightarrow> writer \<Rightarrow> (ActionResult + bool) \<times> 's \<times> writer" where
  "default_invoke_method store _ _ _ _ w = (Inl ActObjectUndefined, store, w)"

definition default_attribute_access :: "'s \<Rightarrow> u16 \<Rightarrow> Obis \<Rightarrow> u8 \<Rightarrow> AttributeAccess" where
  "default_attribute_access _ _ _ _ = AttributeAccess 0"

definition default_method_access :: "'s \<Rightarrow> u16 \<Rightarrow> Obis \<Rightarrow> u8 \<Rightarrow> MethodAccess" where
  "default_method_access _ _ _ _ = MethodAccess 0"

definition default_audit :: "AuditEvent \<Rightarrow> 's \<Rightarrow> 's" where
  "default_audit _ store = store"

subsection \<open>State\<close>

definition PLAIN_FROM_CLIENT :: "ApduTag list" where
  "PLAIN_FROM_CLIENT = [AAarq, AReleaseRequest]"

definition PLAIN_INITIATE :: "ApduTag list" where
  "PLAIN_INITIATE = [AInitiateRequest]"

definition BLOCK_HEADER_MAX :: nat where
  "BLOCK_HEADER_MAX = 1 + 1 + 1 + 1 + 4 + 1 + 5"

definition PROTECTION_MAX :: nat where
  "PROTECTION_MAX = 1 + 5 + 1 + 4 + 12"

definition NORMAL_HEADER_MAX :: nat where
  "NORMAL_HEADER_MAX = 1 + 1 + 1 + 1"

definition ACTION_HEADER_MAX :: nat where
  "ACTION_HEADER_MAX = 1 + 1 + 1 + 1 + 1 + 1"

datatype Outbound = ObGet | ObAction

text \<open>
  \<open>TrSending invoke_id service len sent block\<close>,
  \<open>TrReceivingSet invoke_id descriptor list header_end len block\<close> and
  \<open>TrReceivingAction invoke_id descriptor len block\<close>.
\<close>

datatype Transfer =
    TrIdle
  | TrSending InvokeId Outbound nat nat u32
  | TrReceivingSet InvokeId AttributeDescriptor bool nat nat u32
  | TrReceivingAction InvokeId MethodDescriptor nat u32

record ServerConfig =
  sc_system_title :: "SystemTitle option"
  sc_mechanism :: AuthMechanism
  sc_password :: "Secret option"
  sc_security :: SecurityPolicy
  sc_referencing :: Referencing
  sc_max_pdu_size :: u16
  sc_conformance :: Conformance
  sc_challenge_len :: nat
  sc_invocation_counter :: u32
  sc_replay_window :: u32

definition ServerConfig_default :: ServerConfig where
  "ServerConfig_default = \<lparr>sc_system_title = None, sc_mechanism = AmNone, sc_password = None, sc_security = SecurityPolicy_NONE,
     sc_referencing = RefLogicalName, sc_max_pdu_size = 1024, sc_conformance = SERVER_DEFAULT, sc_challenge_len = 16,
     sc_invocation_counter = 0, sc_replay_window = 0\<rparr>"

datatype ServerState = SsIdle | SsAwaitingHlsReply | SsAssociated | SsClosed

record 's Server =
  sv_config :: ServerConfig
  sv_store :: 's
  sv_protector :: Protector
  sv_state :: ServerState
  sv_client_system_title :: "SystemTitle option"
  sv_client_challenge :: bytes
  sv_client_challenge_len :: nat
  sv_server_challenge :: bytes
  sv_server_challenge_len :: nat
  sv_invocation_counter :: InvocationCounter
  sv_peer_replay :: ReplayWindow
  sv_replay_owner :: "SystemTitle option"
  sv_negotiated :: Conformance
  sv_ciphered_association :: bool
  sv_client_max_pdu_size :: u16
  sv_transfer :: Transfer
  sv_response :: bytes
  sv_scratch :: bytes

abbreviation sv_N :: "'s Server \<Rightarrow> nat" where
  "sv_N s \<equiv> length (sv_response s)"

definition Server_new :: "nat \<Rightarrow> ServerConfig \<Rightarrow> 's \<Rightarrow> CryptoProvider \<Rightarrow> 's Server" where
  "Server_new N config store provider =
     \<lparr>sv_config = config, sv_store = store,
      sv_protector = \<lparr>pr_provider = provider, pr_policy = SecurityPolicy_global (sc_security config)\<rparr>,
      sv_state = SsIdle, sv_client_system_title = None,
      sv_client_challenge = replicate 64 0, sv_client_challenge_len = 0,
      sv_server_challenge = replicate 64 0, sv_server_challenge_len = 0,
      sv_invocation_counter = InvocationCounter_new (sc_invocation_counter config),
      sv_peer_replay = ReplayWindow_new (sc_replay_window config), sv_replay_owner = None,
      sv_negotiated = Conformance_empty, sv_ciphered_association = False,
      sv_client_max_pdu_size = sc_max_pdu_size config, sv_transfer = TrIdle,
      sv_response = replicate N 0, sv_scratch = replicate N 0\<rparr>"

definition Server_invocation_counter :: "'s Server \<Rightarrow> u32" where
  "Server_invocation_counter s = InvocationCounter_get (sv_invocation_counter s)"

definition Server_peer_invocation_counter :: "'s Server \<Rightarrow> u32 option" where
  "Server_peer_invocation_counter s = rw_highest (sv_peer_replay s)"

definition with_provider :: "(CryptoProvider \<Rightarrow> CryptoProvider) \<Rightarrow> Protector \<Rightarrow> Protector" where
  "with_provider f t = t\<lparr>pr_provider := f (pr_provider t)\<rparr>"

definition clear_association :: "'s Env \<Rightarrow> 's Server \<Rightarrow> 's Server" where
  "clear_association env s = s\<lparr>
     sv_client_system_title := None,
     sv_client_challenge := replicate 64 0, sv_client_challenge_len := 0,
     sv_server_challenge := replicate 64 0, sv_server_challenge_len := 0,
     sv_negotiated := Conformance_empty, sv_ciphered_association := False,
     sv_client_max_pdu_size := sc_max_pdu_size (sv_config s),
     sv_protector := Protector_set_dedicated False (with_provider (env_clear_dedicated_key env) (sv_protector s)),
     sv_transfer := TrIdle\<rparr>"

definition audit :: "'s Env \<Rightarrow> AuditEvent \<Rightarrow> 's Server \<Rightarrow> 's Server" where
  "audit env e s = s\<lparr>sv_store := env_audit env e (sv_store s)\<rparr>"

definition Server_reset :: "'s Env \<Rightarrow> 's Server \<Rightarrow> 's Server" where
  "Server_reset env s =
     (let s = clear_association env (s\<lparr>sv_state := SsIdle\<rparr>)
      in audit env AuReleased (s\<lparr>sv_scratch := replicate (sv_N s) 0\<rparr>))"

definition resume_replay_window :: "SystemTitle \<Rightarrow> u32 \<Rightarrow> 's Server \<Rightarrow> 's Server" where
  "resume_replay_window peer highest s =
     s\<lparr>sv_replay_owner := Some peer, sv_peer_replay := ReplayWindow_resumed highest (sc_replay_window (sv_config s))\<rparr>"

definition is_block_transfer_in_progress :: "'s Server \<Rightarrow> bool" where
  "is_block_transfer_in_progress s \<longleftrightarrow> sv_transfer s \<noteq> TrIdle"

type_synonym 's reply = "nat result \<times> 's Server \<times> bytes"

subsection \<open>Emitting\<close>

definition check_fits :: "'s Server \<Rightarrow> nat \<Rightarrow> unit result" where
  "check_fits s len =
     (if len > unat (sv_client_max_pdu_size s) then Inl (Error_new (BufferTooSmall (len - unat (sv_client_max_pdu_size s))) 0)
      else Inr ())"

text \<open>\<^verbatim>\<open>let mut w = SliceWriter::new(out); x.encode(&mut w)?; Ok(w.written())\<close>\<close>

definition emit :: "(writer, unit) op \<Rightarrow> 's Server \<Rightarrow> bytes \<Rightarrow> 's reply" where
  "emit enc s out = (case encode_into enc out of (r, out) \<Rightarrow> (r, s, out))"

definition send :: "Apdu \<Rightarrow> 's Server \<Rightarrow> bytes \<Rightarrow> 's reply" where
  "send apdu s out =
     (case encode_into (Apdu_encode apdu) (sv_scratch s) of
        (Inl e, scratch) \<Rightarrow> (Inl e, s\<lparr>sv_scratch := scratch\<rparr>, out)
      | (Inr plain_len, scratch) \<Rightarrow>
          let s = s\<lparr>sv_scratch := scratch\<rparr>; plain = take plain_len scratch in
          if SecurityPolicy_is_none (sc_security (sv_config s)) then
            (case check_fits s plain_len of
               Inl e \<Rightarrow> (Inl e, s, out)
             | Inr _ \<Rightarrow> emit (write_bytes plain) s out)
          else
            (case sc_system_title (sv_config s) of
               None \<Rightarrow> (Inl (Error_new UnexpectedMessage 0), s, out)
             | Some title \<Rightarrow>
                 (case InvocationCounter_next (sv_invocation_counter s) of
                    (Inl e, counter) \<Rightarrow> (Inl e, s\<lparr>sv_invocation_counter := counter\<rparr>, out)
                  | (Inr ic, counter) \<Rightarrow>
                      let s = s\<lparr>sv_invocation_counter := counter\<rparr>;
                          ctx = \<lparr>og_system_title = title, og_invocation_counter = ic,
                            og_auth_key = Protector_auth_key (sv_protector s), og_policy = pr_policy (sv_protector s),
                            og_general_allowed = Conformance_contains (sv_negotiated s) GENERAL_PROTECTION\<rparr>
                      in case protect_apdu (sv_protector s) ctx plain out of
                           (Inl e, out) \<Rightarrow> (Inl e, s, out)
                         | (Inr n, out) \<Rightarrow>
                             (case check_fits s n of Inl e \<Rightarrow> (Inl e, s, out) | Inr _ \<Rightarrow> (Inr n, s, out)))))"

definition exception_apdu :: "StateError \<Rightarrow> ServiceError \<Rightarrow> u32 option \<Rightarrow> Apdu" where
  "exception_apdu state_error service_error expected = ApExceptionResponse
     \<lparr>er_state_error = state_error, er_service_error = service_error, er_expected_invocation_counter = expected\<rparr>"

definition counter_exception :: "u32 \<Rightarrow> 's Server \<Rightarrow> bytes \<Rightarrow> 's reply" where
  "counter_exception expected = emit (Apdu_encode (exception_apdu SeServiceNotAllowed SvInvocationCounterError (Some expected)))"

definition exception :: "StateError \<Rightarrow> ServiceError \<Rightarrow> 's Server \<Rightarrow> bytes \<Rightarrow> 's reply" where
  "exception state_error service_error s out =
     (let apdu = exception_apdu state_error service_error None in
      if SecurityPolicy_is_none (sc_security (sv_config s)) \<or> \<not> Conformance_contains (sv_negotiated s) GENERAL_PROTECTION
      then emit (Apdu_encode apdu) s out
      else send apdu s out)"

abbreviation not_allowed :: "'s Server \<Rightarrow> bytes \<Rightarrow> 's reply" where
  "not_allowed \<equiv> exception SeServiceNotAllowed SvOperationNotPossible"

abbreviation not_supported :: "'s Server \<Rightarrow> bytes \<Rightarrow> 's reply" where
  "not_supported \<equiv> exception SeServiceUnknown SvServiceNotSupported"

definition agreed :: "'s Server \<Rightarrow> Conformance \<Rightarrow> bool" where
  "agreed s required \<longleftrightarrow> Conformance_require (sv_negotiated s) required = Inr ()"

definition protection_overhead :: "'s Server \<Rightarrow> nat" where
  "protection_overhead s = (if SecurityPolicy_is_none (sc_security (sv_config s)) then 0 else PROTECTION_MAX)"

definition max_fragment :: "'s Server \<Rightarrow> nat" where
  "max_fragment s = min (unat (sv_client_max_pdu_size s) - BLOCK_HEADER_MAX - protection_overhead s) (sv_N s)"

definition unprotect_into :: "bytes \<Rightarrow> bytes \<Rightarrow> ('s Server, bytes) op" where
  "unprotect_into apdu buf s =
     (let ctx = \<lparr>in_local = sc_system_title (sv_config s), in_peer = sv_client_system_title s,
          in_auth_key = Protector_auth_key (sv_protector s), in_policy = pr_policy (sv_protector s),
          in_plain_allowed = PLAIN_FROM_CLIENT\<rparr>
      in case unprotect_apdu (sv_protector s) ctx (sv_peer_replay s) apdu buf of
           (res, replay, _) \<Rightarrow> (res, s\<lparr>sv_peer_replay := replay\<rparr>))"

definition unprotect_initiate :: "bytes \<Rightarrow> bytes \<Rightarrow> ('s Server, bytes) op" where
  "unprotect_initiate apdu buf s =
     (let ctx = \<lparr>in_local = sc_system_title (sv_config s), in_peer = sv_client_system_title s,
          in_auth_key = Protector_auth_key (sv_protector s), in_policy = SecurityPolicy_global (sc_security (sv_config s)),
          in_plain_allowed = PLAIN_INITIATE\<rparr>
      in case unprotect_apdu (sv_protector s) ctx (sv_peer_replay s) apdu buf of
           (res, replay, _) \<Rightarrow> (res, s\<lparr>sv_peer_replay := replay\<rparr>))"

definition auth_key :: "'s Server \<Rightarrow> bytes result" where
  "auth_key s = (case Protector_auth_key (sv_protector s) of None \<Rightarrow> Inl (Error_new Unsupported 0) | Some k \<Rightarrow> Inr k)"

definition next_counter :: "('s Server, u32) op" where
  "next_counter s = (case InvocationCounter_next (sv_invocation_counter s) of
     (r, counter) \<Rightarrow> (r, s\<lparr>sv_invocation_counter := counter\<rparr>))"

definition own_title :: "'s Server \<Rightarrow> SystemTitle result" where
  "own_title s = (case sc_system_title (sv_config s) of None \<Rightarrow> Inl (Error_new UnexpectedMessage 0) | Some t \<Rightarrow> Inr t)"

text \<open>Without the feature \<^verbatim>\<open>sn\<close>.\<close>

fun serves :: "Referencing \<Rightarrow> bool" where
  "serves RefLogicalName = True"
| "serves RefShortName = False"

fun vaa_name :: "Referencing \<Rightarrow> u16" where
  "vaa_name RefLogicalName = VAA_NAME_LN"
| "vaa_name RefShortName = VAA_NAME_LN"

subsection \<open>Opening an association\<close>

definition refuse :: "'s Env \<Rightarrow> AssociationResult \<Rightarrow> UserDiagnostic \<Rightarrow> 's Server \<Rightarrow> bytes \<Rightarrow> 's reply" where
  "refuse env result diagnostic s out =
     (let s = audit env (AuAssociationRefused diagnostic) (s\<lparr>sv_state := SsClosed\<rparr>);
          context = (if sv_ciphered_association s then CtxLogicalNameCiphered else CtxLogicalName);
          aare = Aare_default\<lparr>aare_application_context := Some context, aare_result := result,
            aare_diagnostic := DiagUser diagnostic,
            aare_responding_ap_title := map_option st_bytes (sc_system_title (sv_config s))\<rparr>
      in emit (Aare_encode aare) s out)"

text \<open>The user information of the answer: the initiate response, protected when the association is ciphered.\<close>

definition initiate_response :: "'s Server \<Rightarrow> InitiateResponse" where
  "initiate_response s = InitiateResponse_default\<lparr>is_negotiated_conformance := sv_negotiated s,
     is_server_max_receive_pdu_size := sc_max_pdu_size (sv_config s), is_vaa_name := vaa_name (sc_referencing (sv_config s))\<rparr>"

definition seal_user_information :: "bytes \<Rightarrow> ('s Server, bytes) op" where
  "seal_user_information plain =
     try_bind (\<lambda>s. (own_title s, s)) (\<lambda>title.
     try_bind next_counter (\<lambda>ic.
     try_bind (\<lambda>s. (auth_key s, s)) (\<lambda>ak.
     try_bind (\<lambda>s. (fst (Protector_protect_as (sv_protector s) (SecurityPolicy_global (sc_security (sv_config s)))
         title ic ak plain (replicate 128 0)), s)) (\<lambda>payload.
     try_bind (lift_res (case ApduTag_protected_as PGlobal AInitiateResponse of
         None \<Rightarrow> Inl (Error_new Unsupported 0) | Some tag \<Rightarrow> Inr tag)) (\<lambda>tag s.
       case encode_into (try_bind (write_u8 (ApduTag_as_u8 tag)) (\<lambda>_. CipheredService_encode
           \<lparr>cs_security_control = SecurityPolicy_control (sc_security (sv_config s)), cs_invocation_counter = ic, cs_payload = payload\<rparr>))
           (replicate 160 0) of
         (Inl e, _) \<Rightarrow> (Inl e, s)
       | (Inr n, user_info) \<Rightarrow> (Inr (take n user_info), s))))))"

definition user_information :: "('s Server, bytes) op" where
  "user_information s =
     (case encode_into (try_bind (write_u8 (ApduTag_as_u8 AInitiateResponse)) (\<lambda>_. InitiateResponse_encode (initiate_response s)))
         (replicate 64 0) of
        (Inl e, _) \<Rightarrow> (Inl e, s)
      | (Inr plain_len, plain) \<Rightarrow>
          if sv_ciphered_association s then seal_user_information (take plain_len plain) s
          else (Inr (take plain_len plain), s))"

definition accept_association ::
  "'s Env \<Rightarrow> ApplicationContext \<Rightarrow> AuthMechanism \<Rightarrow> nat option \<Rightarrow> 's Server \<Rightarrow> bytes \<Rightarrow> 's reply" where
  "accept_association env context mechanism challenge_len s out =
     (case user_information s of
        (Inl e, s) \<Rightarrow> (Inl e, s, out)
      | (Inr user_info, s) \<Rightarrow>
          let aare = \<lparr>aare_application_context = Some context, aare_result = ArAccepted, aare_diagnostic = DiagUser UdNull,
                aare_responding_ap_title = map_option st_bytes (sc_system_title (sv_config s)),
                aare_responder_acse_requirements = (mechanism \<noteq> AmNone),
                aare_mechanism_name = (if mechanism \<noteq> AmNone then Some mechanism else None),
                aare_responding_authentication_value = map_option (\<lambda>len. take len (sv_server_challenge s)) challenge_len,
                aare_user_information = Some user_info\<rparr>;
              s = audit env (AuAssociated mechanism (sv_ciphered_association s)) s
          in emit (Aare_encode aare) s out)"

text \<open>The challenge exchange of high level security: the client's challenge is kept, the server's is drawn.\<close>

definition start_hls :: "'s Env \<Rightarrow> Aarq \<Rightarrow> ('s Server, nat) op" where
  "start_hls env aarq s =
     (case aarq_calling_authentication_value aarq of
        None \<Rightarrow> (Inl (Error_new UnexpectedMessage 0), s)
      | Some given \<Rightarrow>
          if length given > 64 then (Inl (Error_new InvalidLength 0), s)
          else
            let s = s\<lparr>sv_client_challenge := overwrite (sv_client_challenge s) 0 given, sv_client_challenge_len := length given\<rparr>;
                len = min (max (sc_challenge_len (sv_config s)) 8) 64
            in case env_random env (take len (sv_server_challenge s)) of
                 (res, drawn) \<Rightarrow>
                   let s = s\<lparr>sv_server_challenge := overwrite (sv_server_challenge s) 0 drawn\<rparr> in
                   (case res of
                      Inl e \<Rightarrow> (Inl e, s)
                    | Inr _ \<Rightarrow> (Inr len, s\<lparr>sv_server_challenge_len := len, sv_state := SsAwaitingHlsReply\<rparr>)))"

definition negotiate_association ::
  "'s Env \<Rightarrow> Aarq \<Rightarrow> ApplicationContext \<Rightarrow> AuthMechanism \<Rightarrow> Conformance \<Rightarrow> u16 \<Rightarrow> 's Server \<Rightarrow> bytes \<Rightarrow> 's reply" where
  "negotiate_association env aarq context mechanism proposed client_max s out =
     (let s = s\<lparr>sv_negotiated := Conformance_negotiate (sc_conformance (sv_config s)) proposed,
            sv_client_max_pdu_size := (if client_max = 0 then sc_max_pdu_size (sv_config s) else client_max)\<rparr>
      in if AuthMechanism_is_high_level mechanism then
           if mechanism \<noteq> AmHighGmac then refuse env ArRejectedPermanent UdAuthenticationMechanismNameNotRecognised s out
           else (case start_hls env aarq s of
               (Inl e, s) \<Rightarrow> (Inl e, s, out)
             | (Inr len, s) \<Rightarrow> accept_association env context mechanism (Some len) s out)
         else accept_association env context mechanism None (s\<lparr>sv_state := SsAssociated\<rparr>) out)"

definition initiate_parameters :: "bytes \<Rightarrow> InitiateRequest option result" where
  "initiate_parameters plain = fst (try_bind Reader_u8 (\<lambda>tag.
     if ApduTag_from_u8 tag = Some AInitiateRequest then try_bind InitiateRequest_decode (\<lambda>init. ok (Some init)) else ok None)
     (Reader_new plain))"

definition take_dedicated_key :: "'s Env \<Rightarrow> Key \<Rightarrow> ('s Server, unit) op" where
  "take_dedicated_key env key s =
     (case env_set_dedicated_key env key (pr_provider (sv_protector s)) of
        (res, provider) \<Rightarrow>
          let s = s\<lparr>sv_protector := with_provider (\<lambda>_. provider) (sv_protector s)\<rparr> in
          (case res of
             Inl e \<Rightarrow> (Inl e, s)
           | Inr _ \<Rightarrow> (Inr (), s\<lparr>sv_protector := Protector_set_dedicated True (sv_protector s)\<rparr>)))"

definition open_user_information ::
  "'s Env \<Rightarrow> Aarq \<Rightarrow> ApplicationContext \<Rightarrow> AuthMechanism \<Rightarrow> bytes \<Rightarrow> 's Server \<Rightarrow> bytes \<Rightarrow> 's reply" where
  "open_user_information env aarq context mechanism user_info s out =
     (case unprotect_initiate user_info (replicate 256 0) s of
        (Inl e, s) \<Rightarrow>
          if err_kind e = Replay then
            let expected = ReplayWindow_expected_next (sv_peer_replay s);
                s = audit env (AuAssociationRefused UdAuthenticationFailure) (s\<lparr>sv_state := SsIdle\<rparr>)
            in counter_exception expected s out
          else refuse env ArRejectedPermanent UdAuthenticationFailure s out
      | (Inr plain, s) \<Rightarrow>
          (case initiate_parameters plain of
             Inl e \<Rightarrow> (Inl e, s, out)
           | Inr None \<Rightarrow> negotiate_association env aarq context mechanism Conformance_empty (sc_max_pdu_size (sv_config s)) s out
           | Inr (Some init) \<Rightarrow>
               let proceed = negotiate_association env aarq context mechanism (ir_proposed_conformance init)
                     (ir_client_max_receive_pdu_size init)
               in case ir_dedicated_key init of
                    None \<Rightarrow> proceed s out
                  | Some dedicated \<Rightarrow>
                      (case Key_from_slice dedicated of
                         Inl e \<Rightarrow> (Inl e, s, out)
                       | Inr key \<Rightarrow>
                           (case take_dedicated_key env key s of
                              (Inl _, s) \<Rightarrow> refuse env ArRejectedPermanent UdNoReasonGiven s out
                            | (Inr _, s) \<Rightarrow> proceed s out))))"

text \<open>Whose counters the window describes: a fresh one when the calling title changes.\<close>

definition identify_peer :: "Aarq \<Rightarrow> ('s Server, unit) op" where
  "identify_peer aarq s =
     (case aarq_calling_ap_title aarq of
        None \<Rightarrow> (Inr (), s)
      | Some title \<Rightarrow>
          (case SystemTitle_from_slice title of
             Inl e \<Rightarrow> (Inl e, s)
           | Inr title \<Rightarrow>
               let s = s\<lparr>sv_client_system_title := Some title\<rparr> in
               (Inr (), if sv_replay_owner s \<noteq> Some title then
                  s\<lparr>sv_replay_owner := Some title, sv_peer_replay := ReplayWindow_new (sc_replay_window (sv_config s))\<rparr> else s)))"

definition password_accepted :: "Aarq \<Rightarrow> 's Server \<Rightarrow> bool" where
  "password_accepted aarq s \<longleftrightarrow>
     (let expected = (case sc_password (sv_config s) of None \<Rightarrow> [] | Some p \<Rightarrow> Secret_expose p);
          given = (case aarq_calling_authentication_value aarq of None \<Rightarrow> [] | Some v \<Rightarrow> v)
      in constant_time_eq expected given)"

definition handle_aarq :: "'s Env \<Rightarrow> bytes \<Rightarrow> 's Server \<Rightarrow> bytes \<Rightarrow> 's reply" where
  "handle_aarq env apdu s out =
     (case from_bytes Aarq_decode apdu of
        Inl e \<Rightarrow> (Inl e, s, out)
      | Inr aarq \<Rightarrow>
          let s = clear_association env s;
              context = (case aarq_application_context aarq of None \<Rightarrow> CtxLogicalName | Some c \<Rightarrow> c);
              s = s\<lparr>sv_ciphered_association := ApplicationContext_is_ciphered context\<rparr>;
              config = sv_config s;
              mechanism = (case aarq_mechanism_name aarq of None \<Rightarrow> AmNone | Some m \<Rightarrow> m)
          in if ApplicationContext_referencing context \<noteq> sc_referencing config \<or> \<not> serves (sc_referencing config)
             then refuse env ArRejectedPermanent UdApplicationContextNameNotSupported s out
             else if sv_ciphered_association s = SecurityPolicy_is_none (sc_security config)
             then refuse env ArRejectedPermanent UdApplicationContextNameNotSupported s out
             else if mechanism \<noteq> sc_mechanism config
             then refuse env ArRejectedPermanent
               (if sc_mechanism config = AmNone then UdAuthenticationMechanismNameNotRecognised
                else UdAuthenticationMechanismNameRequired) s out
             else (case identify_peer aarq s of
                 (Inl e, s) \<Rightarrow> (Inl e, s, out)
               | (Inr _, s) \<Rightarrow>
                   if mechanism = AmLow \<and> \<not> password_accepted aarq s
                   then refuse env ArRejectedPermanent UdAuthenticationFailure s out
                   else (case aarq_user_information aarq of
                       None \<Rightarrow> negotiate_association env aarq context mechanism Conformance_empty (sc_max_pdu_size config) s out
                     | Some user_info \<Rightarrow> open_user_information env aarq context mechanism user_info s out)))"

definition handle_release :: "'s Env \<Rightarrow> bytes \<Rightarrow> 's Server \<Rightarrow> bytes \<Rightarrow> 's reply" where
  "handle_release env apdu s out =
     (case from_bytes Rlrq_decode apdu of
        Inl e \<Rightarrow> (Inl e, s, out)
      | Inr rlrq \<Rightarrow>
          let s = s\<lparr>sv_state := SsClosed,
                sv_protector := Protector_set_dedicated False (with_provider (env_clear_dedicated_key env) (sv_protector s))\<rparr>;
              s = audit env AuReleased s
          in emit (Rlre_encode \<lparr>rl_reason = rl_reason rlrq, rl_user_information = None\<rparr>) s out)"

subsection \<open>Working through a list\<close>

text \<open>
  The loops over the entries of a request thread the store and the writer of the results.  An entry that does not decode ends
  the request, and so does a result that does not fit.  The result of the loop is its count.
\<close>

type_synonym 's work = "'s \<times> writer"

definition on_writer :: "(writer, 'a) op \<Rightarrow> ('s work, 'a) op" where
  "on_writer f = (\<lambda>(store, w). case f w of (r, w) \<Rightarrow> (r, store, w))"

definition on_store :: "('s \<Rightarrow> 'a \<times> 's) \<Rightarrow> ('s work, 'a) op" where
  "on_store f = (\<lambda>(store, w). case f store of (x, store) \<Rightarrow> (Inr x, store, w))"

definition written_so_far :: "('s work, nat) op" where
  "written_so_far = (\<lambda>(store, w). (Inr (written w), store, w))"

text \<open>\<^verbatim>\<open>SliceWriter::truncate\<close> on the writer of a loop, which is a slice writer.\<close>

fun truncate_to :: "nat \<Rightarrow> (writer, unit) op" where
  "truncate_to at (SliceW w) = apsnd SliceW (SliceWriter_truncate at w)"
| "truncate_to at w = (Inr (), w)"

primrec for_each :: "('a \<Rightarrow> ('st, unit) op) \<Rightarrow> 'a list \<Rightarrow> ('st, nat) op" where
  "for_each f [] = ok 0"
| "for_each f (x # xs) = try_bind (f x) (\<lambda>_. try_bind (for_each f xs) (\<lambda>n. ok (Suc n)))"

definition each_item :: "('a \<Rightarrow> ('st, unit) op) \<Rightarrow> 'a result list \<Rightarrow> ('st, nat) op" where
  "each_item f = for_each (\<lambda>item. try_bind (lift_res item) f)"

definition each_pair :: "('a \<Rightarrow> 'b \<Rightarrow> ('st, unit) op) \<Rightarrow> 'a result list \<Rightarrow> 'b result list \<Rightarrow> ('st, nat) op" where
  "each_pair f xs ys = for_each (\<lambda>(item, v). try_bind (lift_res item) (\<lambda>x. try_bind (lift_res v) (\<lambda>y. f x y))) (zip xs ys)"

text \<open>Running a loop on the server's store with a fresh buffer of \<open>n\<close> bytes: the count and what was written.\<close>

definition with_buffer :: "nat \<Rightarrow> ('s work, 'a) op \<Rightarrow> ('s Server, 'a \<times> bytes) op" where
  "with_buffer n f s =
     (case f (sv_store s, SliceW (SliceWriter_new (replicate n 0))) of
        (Inl e, store, _) \<Rightarrow> (Inl e, s\<lparr>sv_store := store\<rparr>)
      | (Inr x, store, w) \<Rightarrow> (Inr (x, take (written w) (wr_buf w)), s\<lparr>sv_store := store\<rparr>))"

subsection \<open>One object at a time\<close>

definition read_event :: "AttributeDescriptor \<Rightarrow> DataAccessResult \<Rightarrow> AuditEvent" where
  "read_event d outcome = AuAttributeRead (ad_class_id d) (ad_instance_id d) (ad_attribute_id d) outcome"

definition written_event :: "AttributeDescriptor \<Rightarrow> DataAccessResult \<Rightarrow> AuditEvent" where
  "written_event d outcome = AuAttributeWritten (ad_class_id d) (ad_instance_id d) (ad_attribute_id d) outcome"

definition audit_read :: "'s Env \<Rightarrow> AttributeDescriptor \<Rightarrow> DataAccessResult \<Rightarrow> 's Server \<Rightarrow> 's Server" where
  "audit_read env d outcome = audit env (read_event d outcome)"

definition rights_of :: "'s Env \<Rightarrow> 's \<Rightarrow> AttributeDescriptor \<Rightarrow> AttributeAccess" where
  "rights_of env store d = env_attribute_access env store (ad_class_id d) (ad_instance_id d) (ad_attribute_id d)"

definition get_attribute :: "'s Env \<Rightarrow> 's \<Rightarrow> AttributeDescriptor \<Rightarrow> SelectiveAccess option \<Rightarrow> writer \<Rightarrow> (DataAccessResult + unit) \<times> writer" where
  "get_attribute env store d = env_get_attribute env store (ad_class_id d) (ad_instance_id d) (ad_attribute_id d)"

definition write_one :: "'s Env \<Rightarrow> AttributeDescriptor \<Rightarrow> SelectiveAccess option \<Rightarrow> Data \<Rightarrow> 's \<Rightarrow> DataAccessResult \<times> 's" where
  "write_one env d access v store =
     (let (result, store) =
        (if can_write (rights_of env store d) then
           (case env_set_attribute env store (ad_class_id d) (ad_instance_id d) (ad_attribute_id d) access v of
              (Inr _, store) \<Rightarrow> (DarSuccess, store)
            | (Inl e, store) \<Rightarrow> (e, store))
         else (DarReadWriteDenied, store))
      in (result, env_audit env (written_event d result) store))"

definition invoke_event :: "MethodDescriptor \<Rightarrow> (ActionResult + bool) \<Rightarrow> AuditEvent" where
  "invoke_event d outcome = AuMethodInvoked (md_class_id d) (md_instance_id d) (md_method_id d)
     (case outcome of Inl e \<Rightarrow> e | Inr _ \<Rightarrow> ActSuccess)"

definition run_method :: "'s Env \<Rightarrow> MethodDescriptor \<Rightarrow> Data option \<Rightarrow> ('s work, ActionResult + bool) op" where
  "run_method env d parameters = (\<lambda>(store, w).
     let (outcome, store, w) =
       (if can_invoke (env_method_access env store (md_class_id d) (md_instance_id d) (md_method_id d)) then
          env_invoke_method env store (md_class_id d) (md_instance_id d) (md_method_id d) parameters w
        else (Inl ActReadWriteDenied, store, w))
     in (Inr outcome, env_audit env (invoke_event d outcome) store, w))"

subsection \<open>Answers\<close>

definition get_error :: "InvokeId \<Rightarrow> DataAccessResult \<Rightarrow> 's Server \<Rightarrow> bytes \<Rightarrow> 's reply" where
  "get_error invoke_id e = send (ApGetResponse (GetRspNormal invoke_id (GdrError e)))"

definition action_answer :: "ActionResult \<Rightarrow> GetDataResult option \<Rightarrow> ActionResponseWithOptionalData" where
  "action_answer r parameters = \<lparr>aro_result = r, aro_return_parameters = parameters\<rparr>"

definition action_error :: "InvokeId \<Rightarrow> ActionResult \<Rightarrow> 's Server \<Rightarrow> bytes \<Rightarrow> 's reply" where
  "action_error invoke_id e = send (ApActionResponse (ActRspNormal invoke_id (action_answer e None)))"

definition set_error :: "InvokeId \<Rightarrow> DataAccessResult \<Rightarrow> 's Server \<Rightarrow> bytes \<Rightarrow> 's reply" where
  "set_error invoke_id e = send (ApSetResponse (SetRspNormal invoke_id e))"

definition set_last_block :: "InvokeId \<Rightarrow> DataAccessResult \<Rightarrow> u32 \<Rightarrow> 's Server \<Rightarrow> bytes \<Rightarrow> 's reply" where
  "set_last_block invoke_id result block_number = send (ApSetResponse (SetRspLastDataBlock invoke_id result block_number))"

definition outbound_error :: "Outbound \<Rightarrow> InvokeId \<Rightarrow> DataAccessResult \<Rightarrow> ActionResult \<Rightarrow> 's Server \<Rightarrow> bytes \<Rightarrow> 's reply" where
  "outbound_error service invoke_id e a = (case service of ObGet \<Rightarrow> get_error invoke_id e | ObAction \<Rightarrow> action_error invoke_id a)"

text \<open>
  The next fragment of what is being sent.  \<^verbatim>\<open>copy_from_slice\<close> would panic on a slice of another length: \<open>transfer_inv\<close> below
  says that the slice of the response buffer is always there.
\<close>

definition block_apdu :: "Outbound \<Rightarrow> InvokeId \<Rightarrow> bool \<Rightarrow> u32 \<Rightarrow> bytes \<Rightarrow> Apdu" where
  "block_apdu service invoke_id last_block number payload =
     (case service of
        ObGet \<Rightarrow> ApGetResponse (GetRspWithDataBlock invoke_id
          \<lparr>dbg_last_block = last_block, dbg_block_number = number, dbg_result = Inr payload\<rparr>)
      | ObAction \<Rightarrow> ApActionResponse (ActRspWithPblock invoke_id
          \<lparr>dbs_last_block = last_block, dbs_block_number = number, dbs_raw_data = payload\<rparr>))"

definition send_next_block :: "'s Server \<Rightarrow> bytes \<Rightarrow> 's reply" where
  "send_next_block s out =
     (case sv_transfer s of
        TrSending invoke_id service len sent block \<Rightarrow>
          let max1 = max_fragment s in
          if max1 = 0 then
            outbound_error service invoke_id DarLongGetAborted ActLongActionAborted (s\<lparr>sv_transfer := TrIdle\<rparr>) out
          else
            let end1 = min (sent + max1) len;
                payload = (case slice (sv_response s) sent end1 of Some b \<Rightarrow> b | None \<Rightarrow> []);
                last_block = (end1 = len);
                number = sat_inc block
            in if sv_N s < end1 - sent then (Inl (Error_new (BufferTooSmall (end1 - sent)) 0), s, out)
               else (case send (block_apdu service invoke_id last_block number payload) s out of
                   (Inl e, s, out) \<Rightarrow> (Inl e, s, out)
                 | (Inr n, s, out) \<Rightarrow>
                     (Inr n, s\<lparr>sv_transfer := (if last_block then TrIdle else TrSending invoke_id service len end1 number)\<rparr>, out))
      | _ \<Rightarrow> not_allowed s out)"

definition deliver_blocked :: "InvokeId \<Rightarrow> Outbound \<Rightarrow> nat \<Rightarrow> 's Server \<Rightarrow> bytes \<Rightarrow> 's reply" where
  "deliver_blocked invoke_id service len s out =
     (let required = (case service of ObGet \<Rightarrow> BLOCK_TRANSFER_WITH_GET_OR_READ | ObAction \<Rightarrow> BLOCK_TRANSFER_WITH_ACTION)
      in if \<not> agreed s required then
           outbound_error service invoke_id DarDataBlockUnavailable ActDataBlockUnavailable (s\<lparr>sv_transfer := TrIdle\<rparr>) out
         else send_next_block (s\<lparr>sv_transfer := TrSending invoke_id service len 0 0\<rparr>) out)"

subsection \<open>GET\<close>

definition get_normal :: "'s Env \<Rightarrow> InvokeId \<Rightarrow> AttributeDescriptor \<Rightarrow> SelectiveAccess option \<Rightarrow> 's Server \<Rightarrow> bytes \<Rightarrow> 's reply" where
  "get_normal env invoke_id d access s out =
     (let s = s\<lparr>sv_transfer := TrIdle\<rparr> in
      if \<not> can_read (rights_of env (sv_store s) d) then
        get_error invoke_id DarReadWriteDenied (audit_read env d DarReadWriteDenied s) out
      else (case get_attribute env (sv_store s) d access (SliceW (SliceWriter_new (replicate (sv_N s) 0))) of
          (Inl e, _) \<Rightarrow> get_error invoke_id e (audit_read env d e s) out
        | (Inr _, vw) \<Rightarrow>
            let s = audit_read env d DarSuccess s; n = written vw; v = take n (wr_buf vw) in
            if n = 0 then get_error invoke_id DarOtherReason (audit_read env d DarOtherReason s) out
            else if n + NORMAL_HEADER_MAX + protection_overhead s \<le> unat (sv_client_max_pdu_size s) then
              (case from_bytes Data_decode v of
                 Inl e \<Rightarrow> (Inl e, s, out)
               | Inr d \<Rightarrow> send (ApGetResponse (GetRspNormal invoke_id (GdrData d))) s out)
            else if \<not> agreed s BLOCK_TRANSFER_WITH_GET_OR_READ then get_error invoke_id DarDataBlockUnavailable s out
            else if sv_N s < n then (Inl (Error_new (BufferTooSmall n) 0), s, out)
            else send_next_block (s\<lparr>sv_response := overwrite (sv_response s) 0 v,
                   sv_transfer := TrSending invoke_id ObGet n 0 0\<rparr>) out))"

definition error_result :: "DataAccessResult \<Rightarrow> ('s work, unit) op" where
  "error_result e = try_bind (on_writer (write_u8 1)) (\<lambda>_. on_writer (write_u8 (DataAccessResult_as_u8 e)))"

definition read_item :: "'s Env \<Rightarrow> AttributeDescriptorWithSelection \<Rightarrow> ('s work, unit) op" where
  "read_item env item =
     (let d = ads_descriptor item in
      try_bind (\<lambda>(store, w).
        if can_read (rights_of env store d) then
          try_bind (on_writer (write_u8 0)) (\<lambda>_.
          try_bind written_so_far (\<lambda>start1 (store, w).
            case get_attribute env store d (ads_access item) w of
              (Inr _, w) \<Rightarrow>
                if written w = start1 then
                  try_bind (on_writer (truncate_to (start1 - 1))) (\<lambda>_.
                  try_bind (error_result DarOtherReason) (\<lambda>_. ok DarOtherReason)) (store, w)
                else (Inr DarSuccess, store, w)
            | (Inl e, w) \<Rightarrow>
                try_bind (on_writer (truncate_to (start1 - 1))) (\<lambda>_.
                try_bind (error_result e) (\<lambda>_. ok e)) (store, w))) (store, w)
        else try_bind (error_result DarReadWriteDenied) (\<lambda>_. ok DarReadWriteDenied) (store, w)) (\<lambda>outcome.
      on_store (\<lambda>store. ((), env_audit env (read_event d outcome) store))))"

definition handle_get_with_list :: "'s Env \<Rightarrow> InvokeId \<Rightarrow> WireList \<Rightarrow> 's Server \<Rightarrow> bytes \<Rightarrow> 's reply" where
  "handle_get_with_list env invoke_id list1 s out =
     (if \<not> agreed s MULTIPLE_REFERENCES then not_supported s out
      else (case with_buffer (sv_N s) (each_item (read_item env) (List_iter AttributeDescriptorWithSelection_decode list1))
            (s\<lparr>sv_transfer := TrIdle\<rparr>) of
          (Inl e, s) \<Rightarrow> (Inl e, s, out)
        | (Inr (count, results), s) \<Rightarrow>
            (case encode_into (write_length count) (replicate 5 0) of
               (Inl e, _) \<Rightarrow> (Inl e, s, out)
             | (Inr prefix_len, prefix1) \<Rightarrow>
                 let prefix1 = take prefix_len prefix1; body_len = prefix_len + length results in
                 if body_len + NORMAL_HEADER_MAX + protection_overhead s \<le> unat (sv_client_max_pdu_size s) then
                   send (ApGetResponse (GetRspWithList invoke_id (List_from_raw count results))) s out
                 else if \<not> agreed s BLOCK_TRANSFER_WITH_GET_OR_READ then get_error invoke_id DarDataBlockUnavailable s out
                 else if sv_N s < prefix_len then (Inl (Error_new (BufferTooSmall body_len) 0), s, out)
                 else
                   let s = s\<lparr>sv_response := overwrite (sv_response s) 0 prefix1\<rparr> in
                   if sv_N s < body_len then (Inl (Error_new (BufferTooSmall body_len) 0), s, out)
                   else send_next_block (s\<lparr>sv_response := overwrite (sv_response s) prefix_len results,
                     sv_transfer := TrSending invoke_id ObGet body_len 0 0\<rparr>) out)))"

definition handle_get_next :: "InvokeId \<Rightarrow> u32 \<Rightarrow> 's Server \<Rightarrow> bytes \<Rightarrow> 's reply" where
  "handle_get_next invoke_id acked s out =
     (case sv_transfer s of
        TrSending id1 ObGet _ _ block \<Rightarrow>
          if invoke_id \<noteq> id1 \<or> acked \<noteq> block
          then get_error invoke_id DarDataBlockNumberInvalid (s\<lparr>sv_transfer := TrIdle\<rparr>) out
          else send_next_block s out
      | _ \<Rightarrow> get_error invoke_id DarNoLongGetInProgress s out)"

definition handle_get :: "'s Env \<Rightarrow> GetRequest \<Rightarrow> 's Server \<Rightarrow> bytes \<Rightarrow> 's reply" where
  "handle_get env req s out =
     (if sv_state s \<noteq> SsAssociated then not_allowed s out
      else if \<not> agreed s GET then not_supported s out
      else case req of
        GetNormal invoke_id d access \<Rightarrow> get_normal env invoke_id d access s out
      | GetNext invoke_id block_number \<Rightarrow> handle_get_next invoke_id block_number s out
      | GetWithList invoke_id list1 \<Rightarrow> handle_get_with_list env invoke_id list1 s out)"

subsection \<open>SET\<close>

definition write_item :: "'s Env \<Rightarrow> AttributeDescriptorWithSelection \<Rightarrow> Data \<Rightarrow> ('s work, unit) op" where
  "write_item env item v =
     try_bind (on_store (write_one env (ads_descriptor item) (ads_access item) v)) (\<lambda>result.
     on_writer (write_u8 (DataAccessResult_as_u8 result)))"

definition handle_set_with_list :: "'s Env \<Rightarrow> InvokeId \<Rightarrow> WireList \<Rightarrow> WireList \<Rightarrow> 's Server \<Rightarrow> bytes \<Rightarrow> 's reply" where
  "handle_set_with_list env invoke_id descriptors vs s out =
     (if \<not> agreed s MULTIPLE_REFERENCES then not_supported s out
      else if wl_count descriptors \<noteq> wl_count vs then not_allowed s out
      else (case with_buffer (sv_N s) (each_pair (write_item env)
              (List_iter AttributeDescriptorWithSelection_decode descriptors) (List_iter Data_decode vs)) (s\<lparr>sv_transfer := TrIdle\<rparr>) of
          (Inl e, s) \<Rightarrow> (Inl e, s, out)
        | (Inr (count, results), s) \<Rightarrow> send (ApSetResponse (SetRspWithList invoke_id (List_from_raw count results))) s out))"

definition finish_blocked_list_set :: "'s Env \<Rightarrow> InvokeId \<Rightarrow> nat \<Rightarrow> nat \<Rightarrow> u32 \<Rightarrow> 's Server \<Rightarrow> bytes \<Rightarrow> 's reply" where
  "finish_blocked_list_set env invoke_id header_end len block_number s out =
     (let header = (case slice (sv_response s) 0 header_end of Some b \<Rightarrow> b | None \<Rightarrow> []);
          values_bytes = (case slice (sv_response s) header_end (header_end + len) of Some b \<Rightarrow> b | None \<Rightarrow> [])
      in case from_bytes (List_decode AttributeDescriptorWithSelection_decode) header of
           Inl e \<Rightarrow> (Inl e, s, out)
         | Inr descriptors \<Rightarrow>
             (case from_bytes (List_decode Data_decode) values_bytes of
                Inl e \<Rightarrow> (Inl e, s, out)
              | Inr vs \<Rightarrow>
                  if wl_count descriptors \<noteq> wl_count vs then set_error invoke_id DarTypeUnmatched (s\<lparr>sv_transfer := TrIdle\<rparr>) out
                  else (case with_buffer MAX_ACCESS_ITEMS (each_pair (write_item env)
                          (List_iter AttributeDescriptorWithSelection_decode descriptors) (List_iter Data_decode vs)) s of
                      (Inl e, s) \<Rightarrow> (Inl e, s, out)
                    | (Inr (count, results), s) \<Rightarrow>
                        send (ApSetResponse (SetRspLastDataBlockWithList invoke_id (List_from_raw count results) block_number)) s out)))"

text \<open>The last block of a single write: the selector and the value are decoded out of the buffer.\<close>

definition finish_blocked_set :: "'s Env \<Rightarrow> InvokeId \<Rightarrow> AttributeDescriptor \<Rightarrow> nat \<Rightarrow> nat \<Rightarrow> u32 \<Rightarrow> 's Server \<Rightarrow> bytes \<Rightarrow> 's reply" where
  "finish_blocked_set env invoke_id d header_end len block_number s out =
     (case (if header_end = 0 then Inr None
            else res_bind (from_bytes SelectiveAccess_decode
              (case slice (sv_response s) 0 header_end of Some b \<Rightarrow> b | None \<Rightarrow> [])) (\<lambda>sa. Inr (Some sa))) of
        Inl e \<Rightarrow> (Inl e, s, out)
      | Inr selective \<Rightarrow>
          (case from_bytes Data_decode (case slice (sv_response s) header_end (header_end + len) of Some b \<Rightarrow> b | None \<Rightarrow> []) of
             Inl e \<Rightarrow> (Inl e, s, out)
           | Inr v \<Rightarrow>
               (case write_one env d selective v (sv_store s) of
                  (result, store) \<Rightarrow> set_last_block invoke_id result block_number (s\<lparr>sv_store := store\<rparr>) out)))"

definition continue_blocked_set :: "'s Env \<Rightarrow> InvokeId \<Rightarrow> DataBlockSA \<Rightarrow> 's Server \<Rightarrow> bytes \<Rightarrow> 's reply" where
  "continue_blocked_set env invoke_id block s out =
     (case sv_transfer s of
        TrReceivingSet id1 d list1 header_end len last1 \<Rightarrow>
          if invoke_id \<noteq> id1 \<or> dbs_block_number block \<noteq> sat_inc last1
          then set_error invoke_id DarDataBlockNumberInvalid (s\<lparr>sv_transfer := TrIdle\<rparr>) out
          else
            let at = header_end + len; end1 = at + length (dbs_raw_data block) in
            if sv_N s < end1 then set_error invoke_id DarLongSetAborted (s\<lparr>sv_transfer := TrIdle\<rparr>) out
            else
              let s = s\<lparr>sv_response := overwrite (sv_response s) at (dbs_raw_data block)\<rparr>;
                  len = len + length (dbs_raw_data block)
              in if \<not> dbs_last_block block then
                   send (ApSetResponse (SetRspDataBlock invoke_id (dbs_block_number block)))
                     (s\<lparr>sv_transfer := TrReceivingSet invoke_id d list1 header_end len (dbs_block_number block)\<rparr>) out
                 else if list1 then finish_blocked_list_set env invoke_id header_end len (dbs_block_number block) (s\<lparr>sv_transfer := TrIdle\<rparr>) out
                 else finish_blocked_set env invoke_id d header_end len (dbs_block_number block) (s\<lparr>sv_transfer := TrIdle\<rparr>) out
      | _ \<Rightarrow> set_error invoke_id DarNoLongSetInProgress s out)"

definition begin_blocked_set ::
  "'s Env \<Rightarrow> InvokeId \<Rightarrow> AttributeDescriptor \<Rightarrow> SelectiveAccess option \<Rightarrow> DataBlockSA \<Rightarrow> 's Server \<Rightarrow> bytes \<Rightarrow> 's reply" where
  "begin_blocked_set env invoke_id d access block s out =
     (let s = s\<lparr>sv_transfer := TrIdle\<rparr> in
      if \<not> agreed s BLOCK_TRANSFER_WITH_SET_OR_WRITE then set_error invoke_id DarDataBlockUnavailable s out
      else if \<not> can_write (rights_of env (sv_store s) d) then
        set_last_block invoke_id DarReadWriteDenied (dbs_block_number block) (audit env (written_event d DarReadWriteDenied) s) out
      else (case (case access of None \<Rightarrow> (Inr 0, sv_response s) | Some sa \<Rightarrow> encode_into (SelectiveAccess_encode sa) (sv_response s)) of
          (Inl e, response) \<Rightarrow> (Inl e, s\<lparr>sv_response := response\<rparr>, out)
        | (Inr access_end, response) \<Rightarrow>
            continue_blocked_set env invoke_id block
              (s\<lparr>sv_response := response, sv_transfer := TrReceivingSet invoke_id d False access_end 0 0\<rparr>) out))"

definition begin_blocked_list_set :: "'s Env \<Rightarrow> InvokeId \<Rightarrow> WireList \<Rightarrow> DataBlockSA \<Rightarrow> 's Server \<Rightarrow> bytes \<Rightarrow> 's reply" where
  "begin_blocked_list_set env invoke_id descriptors block s out =
     (let s = s\<lparr>sv_transfer := TrIdle\<rparr> in
      if \<not> agreed s MULTIPLE_REFERENCES \<or> \<not> agreed s BLOCK_TRANSFER_WITH_SET_OR_WRITE
      then set_error invoke_id DarDataBlockUnavailable s out
      else if wl_count descriptors > MAX_ACCESS_ITEMS then set_error invoke_id DarOtherReason s out
      else (case encode_into (List_encode descriptors) (sv_response s) of
          (Inl e, response) \<Rightarrow> (Inl e, s\<lparr>sv_response := response\<rparr>, out)
        | (Inr header_end, response) \<Rightarrow>
            continue_blocked_set env invoke_id block
              (s\<lparr>sv_response := response, sv_transfer := TrReceivingSet invoke_id
                 (AttributeDescriptor_new 0 (Obis_new 0 0 0 0 0 0) 0) True header_end 0 0\<rparr>) out))"

definition handle_set :: "'s Env \<Rightarrow> SetRequest \<Rightarrow> 's Server \<Rightarrow> bytes \<Rightarrow> 's reply" where
  "handle_set env req s out =
     (if sv_state s \<noteq> SsAssociated then not_allowed s out
      else if \<not> agreed s SET then not_supported s out
      else case req of
        SetNormal invoke_id d access v \<Rightarrow>
          (case write_one env d access v (sv_store s) of
             (result, store) \<Rightarrow> send (ApSetResponse (SetRspNormal invoke_id result)) (s\<lparr>sv_transfer := TrIdle, sv_store := store\<rparr>) out)
      | SetWithFirstDataBlock invoke_id d access block \<Rightarrow> begin_blocked_set env invoke_id d access block s out
      | SetWithDataBlock invoke_id block \<Rightarrow> continue_blocked_set env invoke_id block s out
      | SetWithList invoke_id descriptors vs \<Rightarrow> handle_set_with_list env invoke_id descriptors vs s out
      | SetWithListAndFirstDataBlock invoke_id descriptors block \<Rightarrow> begin_blocked_list_set env invoke_id descriptors block s out)"

subsection \<open>ACTION\<close>

definition answer_method :: "InvokeId \<Rightarrow> ActionResult + bool \<Rightarrow> bytes \<Rightarrow> 's Server \<Rightarrow> bytes \<Rightarrow> 's reply" where
  "answer_method invoke_id outcome v s out =
     (case outcome of
        Inl e \<Rightarrow> action_error invoke_id e s out
      | Inr False \<Rightarrow> send (ApActionResponse (ActRspNormal invoke_id (action_answer ActSuccess None))) s out
      | Inr True \<Rightarrow>
          if v = [] then action_error invoke_id ActOtherReason s out
          else
            let n = length v in
            if n + ACTION_HEADER_MAX + protection_overhead s \<le> unat (sv_client_max_pdu_size s) then
              (case from_bytes Data_decode v of
                 Inl e \<Rightarrow> (Inl e, s, out)
               | Inr d \<Rightarrow> send (ApActionResponse (ActRspNormal invoke_id (action_answer ActSuccess (Some (GdrData d))))) s out)
            else if sv_N s < n then (Inl (Error_new (BufferTooSmall n) 0), s, out)
            else deliver_blocked invoke_id ObAction n (s\<lparr>sv_response := overwrite (sv_response s) 0 v\<rparr>) out)"

definition invoke_and_answer :: "'s Env \<Rightarrow> InvokeId \<Rightarrow> MethodDescriptor \<Rightarrow> Data option \<Rightarrow> 's Server \<Rightarrow> bytes \<Rightarrow> 's reply" where
  "invoke_and_answer env invoke_id d parameters s out =
     (case with_buffer (sv_N s) (run_method env d parameters) s of
        (Inl e, s) \<Rightarrow> (Inl e, s, out)
      | (Inr (outcome, v), s) \<Rightarrow> answer_method invoke_id outcome v s out)"

definition continue_blocked_action :: "'s Env \<Rightarrow> InvokeId \<Rightarrow> DataBlockSA \<Rightarrow> 's Server \<Rightarrow> bytes \<Rightarrow> 's reply" where
  "continue_blocked_action env invoke_id block s out =
     (case sv_transfer s of
        TrReceivingAction id1 d len last1 \<Rightarrow>
          if invoke_id \<noteq> id1 \<or> dbs_block_number block \<noteq> sat_inc last1
          then action_error invoke_id ActDataBlockUnavailable (s\<lparr>sv_transfer := TrIdle\<rparr>) out
          else
            let end1 = len + length (dbs_raw_data block) in
            if sv_N s < end1 then action_error invoke_id ActLongActionAborted (s\<lparr>sv_transfer := TrIdle\<rparr>) out
            else
              let s = s\<lparr>sv_response := overwrite (sv_response s) len (dbs_raw_data block)\<rparr> in
              if \<not> dbs_last_block block then
                send (ApActionResponse (ActRspNextPblock invoke_id (dbs_block_number block)))
                  (s\<lparr>sv_transfer := TrReceivingAction invoke_id d end1 (dbs_block_number block)\<rparr>) out
              else
                let s = s\<lparr>sv_transfer := TrIdle\<rparr> in
                (case from_bytes Data_decode (take end1 (sv_response s)) of
                   Inl e \<Rightarrow> (Inl e, s, out)
                 | Inr parameters \<Rightarrow> invoke_and_answer env invoke_id d (Some parameters) s out)
      | _ \<Rightarrow> action_error invoke_id ActNoLongActionInProgress s out)"

definition handle_action_next :: "InvokeId \<Rightarrow> u32 \<Rightarrow> 's Server \<Rightarrow> bytes \<Rightarrow> 's reply" where
  "handle_action_next invoke_id acked s out =
     (case sv_transfer s of
        TrSending id1 ObAction _ _ block \<Rightarrow>
          if invoke_id \<noteq> id1 \<or> acked \<noteq> block
          then action_error invoke_id ActDataBlockUnavailable (s\<lparr>sv_transfer := TrIdle\<rparr>) out
          else send_next_block s out
      | _ \<Rightarrow> action_error invoke_id ActNoLongActionInProgress s out)"

text \<open>\<^verbatim>\<open>null-data\<close> stands for no parameter.\<close>

definition not_null :: "Data \<Rightarrow> Data option" where
  "not_null v = (if v = DNull then None else Some v)"

definition method_result :: "ActionResult \<Rightarrow> ('s work, unit) op" where
  "method_result r = try_bind (on_writer (write_u8 (ActionResult_as_u8 r))) (\<lambda>_. on_writer (write_u8 0))"

definition invoke_item :: "'s Env \<Rightarrow> MethodDescriptor \<Rightarrow> Data \<Rightarrow> ('s work, unit) op" where
  "invoke_item env d parameter =
     try_bind written_so_far (\<lambda>start1.
     try_bind (on_writer (write_u8 (ActionResult_as_u8 ActSuccess))) (\<lambda>_.
     try_bind (on_writer (write_u8 1)) (\<lambda>_.
     try_bind (on_writer (write_u8 0)) (\<lambda>_.
     try_bind written_so_far (\<lambda>value_at.
     try_bind (run_method env d (not_null parameter)) (\<lambda>outcome.
     try_bind written_so_far (\<lambda>now.
       case outcome of
         Inr True \<Rightarrow> if now = value_at then try_bind (on_writer (truncate_to start1)) (\<lambda>_. method_result ActOtherReason) else ok ()
       | Inr False \<Rightarrow> try_bind (on_writer (truncate_to start1)) (\<lambda>_. method_result ActSuccess)
       | Inl e \<Rightarrow> try_bind (on_writer (truncate_to start1)) (\<lambda>_. method_result e))))))))"

definition handle_action_with_list :: "'s Env \<Rightarrow> InvokeId \<Rightarrow> WireList \<Rightarrow> WireList \<Rightarrow> 's Server \<Rightarrow> bytes \<Rightarrow> 's reply" where
  "handle_action_with_list env invoke_id descriptors parameters s out =
     (if \<not> agreed s MULTIPLE_REFERENCES then not_supported s out
      else if wl_count descriptors \<noteq> wl_count parameters \<or> wl_count descriptors > MAX_ACCESS_ITEMS then not_allowed s out
      else (case with_buffer (sv_N s) (each_pair (invoke_item env)
              (List_iter MethodDescriptor_decode descriptors) (List_iter Data_decode parameters)) (s\<lparr>sv_transfer := TrIdle\<rparr>) of
          (Inl e, s) \<Rightarrow> (Inl e, s, out)
        | (Inr (count, responses), s) \<Rightarrow>
            send (ApActionResponse (ActRspWithList invoke_id (List_from_raw count responses))) s out))"

definition handle_hls_reply :: "InvokeId \<Rightarrow> MethodDescriptor \<Rightarrow> Data option \<Rightarrow> 's Server \<Rightarrow> bytes \<Rightarrow> 's reply" where
  "handle_hls_reply invoke_id d parameters s out =
     (let is_reply = (md_class_id d = 15 \<and> md_method_id d = 1);
          proof1 = Option.bind parameters Data_as_bytes
      in case (is_reply, proof1) of
        (True, Some proof1) \<Rightarrow>
          (case sv_client_system_title s of
             None \<Rightarrow> (Inl (Error_new UnexpectedMessage 0), s, out)
           | Some peer \<Rightarrow>
               (case auth_key s of
                  Inl e \<Rightarrow> (Inl e, s, out)
                | Inr ak \<Rightarrow>
                    if Protector_verify_hls_gmac (sv_protector s) peer ak (take (sv_server_challenge_len s) (sv_server_challenge s)) proof1 \<noteq> Inr ()
                    then action_error invoke_id ActReadWriteDenied (s\<lparr>sv_state := SsClosed\<rparr>) out
                    else
                      (case try_bind (\<lambda>s. (own_title s, s)) (\<lambda>title. try_bind next_counter (\<lambda>ic. try_bind (\<lambda>s. (auth_key s, s)) (\<lambda>ak s.
                           (Protector_hls_gmac_response (sv_protector s) title ic ak
                             (take (sv_client_challenge_len s) (sv_client_challenge s)), s)))) s of
                         (Inl e, s) \<Rightarrow> (Inl e, s, out)
                       | (Inr reply, s) \<Rightarrow>
                           send (ApActionResponse (ActRspNormal invoke_id (action_answer ActSuccess (Some (GdrData (DOctetString reply))))))
                             (s\<lparr>sv_state := SsAssociated\<rparr>) out)))
      | _ \<Rightarrow> not_allowed s out)"

definition handle_action :: "'s Env \<Rightarrow> ActionRequest \<Rightarrow> 's Server \<Rightarrow> bytes \<Rightarrow> 's reply" where
  "handle_action env req s out =
     (if sv_state s = SsAwaitingHlsReply then
        (case req of
           ActNormal invoke_id d parameters \<Rightarrow> handle_hls_reply invoke_id d parameters s out
         | _ \<Rightarrow> not_allowed s out)
      else if sv_state s \<noteq> SsAssociated then not_allowed s out
      else if \<not> agreed s ACTION then not_supported s out
      else case req of
        ActNormal invoke_id d parameters \<Rightarrow> invoke_and_answer env invoke_id d parameters (s\<lparr>sv_transfer := TrIdle\<rparr>) out
      | ActNextPblock invoke_id block_number \<Rightarrow> handle_action_next invoke_id block_number s out
      | ActWithFirstPblock invoke_id d block \<Rightarrow>
          let s = s\<lparr>sv_transfer := TrIdle\<rparr> in
          if \<not> agreed s BLOCK_TRANSFER_WITH_ACTION then action_error invoke_id ActDataBlockUnavailable s out
          else continue_blocked_action env invoke_id block (s\<lparr>sv_transfer := TrReceivingAction invoke_id d 0 0\<rparr>) out
      | ActWithPblock invoke_id block \<Rightarrow> continue_blocked_action env invoke_id block s out
      | ActWithList invoke_id descriptors parameters \<Rightarrow> handle_action_with_list env invoke_id descriptors parameters s out
      | ActWithListAndFirstPblock _ _ _ \<Rightarrow> not_supported s out)"

subsection \<open>ACCESS\<close>

definition access_one :: "'s Env \<Rightarrow> AttributeDescriptor \<Rightarrow> SelectiveAccess option \<Rightarrow> Data \<Rightarrow> bool \<Rightarrow> ('s work, AccessResponseSpecification) op" where
  "access_one env d access v is_get =
     (if \<not> is_get then
        try_bind (on_store (write_one env d access v)) (\<lambda>result (store, w).
          case Data_encode DNull w of
            (Inl _, w) \<Rightarrow> (Inr (AspSet DarOtherReason), store, w)
          | (Inr _, w) \<Rightarrow> (Inr (AspSet result), store, w))
      else (\<lambda>(store, w).
        let start1 = written w;
            (outcome, w) =
              (if can_read (rights_of env store d) then
                 (case get_attribute env store d access w of
                    (Inr _, w) \<Rightarrow> (if written w = start1 then DarOtherReason else DarSuccess, w)
                  | (Inl e, w) \<Rightarrow> (e, w))
               else (DarReadWriteDenied, w))
        in case (if outcome \<noteq> DarSuccess then try_bind (truncate_to start1) (\<lambda>_. Data_encode DNull) w else (Inr (), w)) of
             (Inl _, w) \<Rightarrow> (Inr (AspGet DarOtherReason), store, w)
           | (Inr _, w) \<Rightarrow> (Inr (AspGet outcome), env_audit env (read_event d outcome) store, w)))"

definition access_action :: "'s Env \<Rightarrow> MethodDescriptor \<Rightarrow> Data \<Rightarrow> ('s work, AccessResponseSpecification) op" where
  "access_action env d v =
     try_bind written_so_far (\<lambda>start1.
     try_bind (run_method env d (not_null v)) (\<lambda>outcome.
       case outcome of
         Inr True \<Rightarrow> ok (AspAction ActSuccess)
       | Inr False \<Rightarrow> try_bind (on_writer (Data_encode DNull)) (\<lambda>_. ok (AspAction ActSuccess))
       | Inl e \<Rightarrow> try_bind (on_writer (truncate_to start1)) (\<lambda>_. try_bind (on_writer (Data_encode DNull)) (\<lambda>_. ok (AspAction e)))))"

definition access_entry :: "'s Env \<Rightarrow> AccessRequestSpecification \<Rightarrow> Data \<Rightarrow> ('s work, AccessResponseSpecification) op" where
  "access_entry env spec v =
     (case spec of
        ArsGet d \<Rightarrow> access_one env d None v True
      | ArsSet d \<Rightarrow> access_one env d None v False
      | ArsGetWithSelection d \<Rightarrow> access_one env (ads_descriptor d) (ads_access d) v True
      | ArsSetWithSelection d \<Rightarrow> access_one env (ads_descriptor d) (ads_access d) v False
      | ArsAction d \<Rightarrow> access_action env d v)"

text \<open>The outcomes go into a second writer beside the one of the values.\<close>

definition access_item :: "'s Env \<Rightarrow> AccessRequestSpecification \<Rightarrow> Data \<Rightarrow> ('s work \<times> writer, unit) op" where
  "access_item env spec v = (\<lambda>(work, rw).
     case access_entry env spec v work of
       (Inl e, work) \<Rightarrow> (Inl e, work, rw)
     | (Inr outcome, work) \<Rightarrow> (case AccessResponseSpecification_encode outcome rw of (r, rw) \<Rightarrow> (r, work, rw)))"

definition handle_access :: "'s Env \<Rightarrow> AccessRequest \<Rightarrow> 's Server \<Rightarrow> bytes \<Rightarrow> 's reply" where
  "handle_access env req s out =
     (if sv_state s \<noteq> SsAssociated then not_allowed s out
      else if \<not> agreed s ACCESS then not_supported s out
      else if wl_count (aq_specification req) \<noteq> wl_count (aq_data req) then not_allowed s out
      else if wl_count (aq_specification req) > MAX_ACCESS_ITEMS then exception SeServiceNotAllowed SvPduTooLong s out
      else (let s = s\<lparr>sv_transfer := TrIdle\<rparr> in
        case each_pair (access_item env) (List_iter AccessRequestSpecification_decode (aq_specification req))
               (List_iter Data_decode (aq_data req))
               ((sv_store s, SliceW (SliceWriter_new (replicate (sv_N s) 0))), SliceW (SliceWriter_new (replicate (MAX_ACCESS_ITEMS * 2) 0))) of
          (Inl e, (store, _), _) \<Rightarrow> (Inl e, s\<lparr>sv_store := store\<rparr>, out)
        | (Inr count, (store, dw), rw) \<Rightarrow>
            send (ApAccessResponse \<lparr>as_long_invoke_id = aq_long_invoke_id req, as_date_time = None, as_request_specification = None,
                as_data = List_from_raw count (take (written dw) (wr_buf dw)),
                as_response_specification = List_from_raw count (take (written rw) (wr_buf rw))\<rparr>)
              (s\<lparr>sv_store := store\<rparr>) out))"

subsection \<open>One APDU\<close>

definition dispatch :: "'s Env \<Rightarrow> Apdu \<Rightarrow> 's Server \<Rightarrow> bytes \<Rightarrow> 's reply" where
  "dispatch env apdu =
     (case apdu of
        ApGetRequest req \<Rightarrow> handle_get env req
      | ApSetRequest req \<Rightarrow> handle_set env req
      | ApActionRequest req \<Rightarrow> handle_action env req
      | ApAccessRequest req \<Rightarrow> handle_access env req
      | _ \<Rightarrow> not_supported)"

definition handle_service :: "'s Env \<Rightarrow> bytes \<Rightarrow> 's Server \<Rightarrow> bytes \<Rightarrow> 's reply" where
  "handle_service env apdu s out =
     (if sv_state s \<noteq> SsAssociated \<and> sv_state s \<noteq> SsAwaitingHlsReply then not_allowed s out
      else (case unprotect_into apdu (replicate (sv_N s) 0) s of
          (Inl e, s) \<Rightarrow>
            if err_kind e = Replay then counter_exception (ReplayWindow_expected_next (sv_peer_replay s)) s out
            else exception SeServiceNotAllowed
              (case err_kind e of BufferTooSmall _ \<Rightarrow> SvPduTooLong | _ \<Rightarrow> SvDecipheringError) s out
        | (Inr plain, s) \<Rightarrow>
            (case from_bytes Apdu_decode plain of
               Inl _ \<Rightarrow> not_supported s out
             | Inr decoded \<Rightarrow> dispatch env decoded s out)))"

definition handle :: "'s Env \<Rightarrow> bytes \<Rightarrow> 's Server \<Rightarrow> bytes \<Rightarrow> 's reply" where
  "handle env apdu s out =
     (if length apdu > unat (sc_max_pdu_size (sv_config s)) then exception SeServiceNotAllowed SvPduTooLong s out
      else (case ApduTag_from_u8 (case apdu of [] \<Rightarrow> 0 | b # _ \<Rightarrow> b) of
          None \<Rightarrow> not_supported s out
        | Some AAarq \<Rightarrow> handle_aarq env apdu s out
        | Some AReleaseRequest \<Rightarrow> handle_release env apdu s out
        | Some _ \<Rightarrow> handle_service env apdu s out))"

subsection \<open>An environment to run on\<close>

text \<open>
  Objects that answer every read with the same value, count the writes and invocations, and grant the rights \<open>aa\<close> and \<open>ma\<close>
  everywhere; a provider without dedicated keys; a server of 64 bytes over them.  They serve to evaluate concrete exchanges.
\<close>

definition demo_env :: "u8 \<Rightarrow> u8 \<Rightarrow> nat Env" where
  "demo_env aa ma = \<lparr>
     env_get_attribute = (\<lambda>store c i a sel w. map_prod (map_sum (\<lambda>_. DarOtherReason) id) id (write_bytes [0x11, 0x05] w)),
     env_set_attribute = (\<lambda>store c i a sel v. (Inr (), Suc store)),
     env_invoke_method = (\<lambda>store c i a v w. (Inr False, Suc store, w)),
     env_attribute_access = (\<lambda>store c i a. AttributeAccess aa), env_method_access = (\<lambda>store c i a. MethodAccess ma),
     env_audit = (\<lambda>e store. store), env_set_dedicated_key = (\<lambda>k p. (Inl (Error_new Unsupported 0), p)),
     env_clear_dedicated_key = (\<lambda>p. p), env_random = (\<lambda>b. (Inr (), map (\<lambda>_. 7) b))\<rparr>"

definition demo_config :: "AuthMechanism \<Rightarrow> SecurityPolicy \<Rightarrow> ServerConfig" where
  "demo_config mechanism security = ServerConfig_default\<lparr>sc_mechanism := mechanism, sc_security := security,
     sc_system_title := Some (SystemTitle [1, 2, 3, 4, 5, 6, 7, 8])\<rparr>"

definition demo_server :: "AuthMechanism \<Rightarrow> SecurityPolicy \<Rightarrow> nat Server" where
  "demo_server mechanism security = Server_new 64 (demo_config mechanism security) 0 demo_provider"

definition demo_open :: "nat Server" where
  "demo_open = (demo_server AmNone SecurityPolicy_NONE)\<lparr>sv_state := SsAssociated, sv_negotiated := SERVER_DEFAULT\<rparr>"

text \<open>Setting attribute 2 of an object of class 3 to 5, and reading it.\<close>

definition demo_set :: bytes where
  "demo_set = [0xC1, 0x01, 0x41, 0x00, 0x03, 1, 0, 1, 8, 0, 255, 0x02, 0x00, 0x11, 0x05]"

definition demo_get :: bytes where
  "demo_get = [0xC0, 0x01, 0x41, 0x00, 0x03, 1, 0, 1, 8, 0, 255, 0x02, 0x00]"

end
