(* ===== verification/Appends.thy ===== *)
theory Appends
  imports Apdu
begin

text \<open>
  What holds of every encoder, also of a value it cannot represent and of a buffer that is too small: it only appends to its
  writer.  So a buffer keeps its size, and the number of bytes a successful encoder reports is inside the buffer.
\<close>

definition appends :: "(writer, 'a) op \<Rightarrow> bool" where
  "appends f \<longleftrightarrow> (\<forall>w r w'. wr_room w 0 \<longrightarrow> f w = (r, w') \<longrightarrow> (\<exists>b. wr_room w (length b) \<and> w' = wr_after w b))"

named_theorems appends_intro \<open>encoders append\<close>

lemma wr_after_Nil_room: "wr_after w [] = w"
  by (cases w) simp_all

lemma appendsD:
  assumes "appends f" "wr_room w 0" "f w = (r, w')"
  obtains b where "wr_room w (length b)" "w' = wr_after w b"
  using assms unfolding appends_def by blast

lemma appends_bind [appends_intro]:
  assumes "appends f" "\<And>x. appends (g x)"
  shows "appends (try_bind f g)"
  unfolding appends_def
proof (intro allI impI)
  fix w r w' assume w: "wr_room w 0" and run: "try_bind f g w = (r, w')"
  obtain r1 w1 where f: "f w = (r1, w1)" by fastforce
  obtain a where a: "wr_room w (length a)" "w1 = wr_after w a" using appendsD [OF assms(1) w f] .
  show "\<exists>b. wr_room w (length b) \<and> w' = wr_after w b"
  proof (cases r1)
    case (Inl e)
    with f run a show ?thesis by (auto simp: try_bind_def)
  next
    case (Inr x)
    then have g: "g x w1 = (r, w')" using f run by (simp add: try_bind_def)
    have "wr_room w1 0" using a by (simp add: wr.room_after)
    then obtain b where b: "wr_room w1 (length b)" "w' = wr_after w1 b" using appendsD [OF assms(2) _ g] by blast
    then show ?thesis using a wr.room_after [OF a(1), of "length b"] by (intro exI [of _ "a @ b"]) (simp add: wr.after_after)
  qed
qed

lemma appends_bytes [appends_intro]: "appends (write_bytes b)"
  unfolding appends_def
proof (intro allI impI)
  fix w r w' assume w: "wr_room w 0" "write_bytes b w = (r, w')"
  show "\<exists>b. wr_room w (length b) \<and> w' = wr_after w b"
  proof (cases "wr_room w (length b)")
    case True
    then show ?thesis using w wr.put_fits [of w b] by auto
  next
    case False
    then have "w' = w" using w wr.put_full [of w b] by auto
    then show ?thesis using w by (intro exI [of _ "[]"]) (simp add: wr_after_Nil_room)
  qed
qed

lemma appends_same: "(\<And>w. snd (f w) = w) \<Longrightarrow> appends f"
  unfolding appends_def by (metis list.size(3) snd_conv wr_after_Nil_room)

lemma appends_ok [appends_intro]: "appends (ok x)"
  by (rule appends_same) simp

lemma appends_fail [appends_intro]: "appends (\<lambda>w. (Inl (e w), w))"
  by (rule appends_same) simp

lemma appends_if [appends_intro]: "appends f \<Longrightarrow> appends g \<Longrightarrow> appends (if c then f else g)"
  by simp

lemma appends_option [appends_intro]: "appends f \<Longrightarrow> (\<And>x. appends (g x)) \<Longrightarrow> appends (case v of None \<Rightarrow> f | Some x \<Rightarrow> g x)"
  by (cases v) simp_all

lemma appends_sum [appends_intro]: "(\<And>x. appends (f x)) \<Longrightarrow> (\<And>x. appends (g x)) \<Longrightarrow> appends (case v of Inl x \<Rightarrow> f x | Inr x \<Rightarrow> g x)"
  by (cases v) simp_all

lemma appends_let [appends_intro]: "appends (f x) \<Longrightarrow> appends (let y = x in f y)"
  by simp

lemma appends_ints [appends_intro]: "appends (write_u8 a)" "appends (write_u16 b)" "appends (write_u32 c)" "appends (write_u64 d)"
  unfolding write_u8_def write_u16_def write_u32_def write_u64_def by (rule appends_bytes)+

lemma appends_length [appends_intro]: "appends (write_length n)" "appends (write_len n)"
  unfolding write_length_def write_len_def by (intro appends_intro)+

lemma appends_prefixed [appends_intro]: "appends (write_length_prefixed b)" "appends (write_tlv t b)"
  unfolding write_length_prefixed_def write_tlv_def by (intro appends_intro)+

lemma appends_constructed [appends_intro]:
  assumes "appends f"
  shows "appends (write_constructed tag f)"
  unfolding appends_def
proof (intro allI impI)
  fix w r w' assume w: "wr_room w 0" "write_constructed tag f w = (r, w')"
  show "\<exists>b. wr_room w (length b) \<and> w' = wr_after w b"
  proof (cases "fst (f (CountW 0))")
    case (Inl e)
    with w have "w' = w" by (auto simp: write_constructed_def split: prod.splits)
    then show ?thesis using w by (intro exI [of _ "[]"]) (simp add: wr_after_Nil_room)
  next
    case (Inr x)
    obtain counter where c: "f (CountW 0) = (Inr x, counter)" using Inr by (cases "f (CountW 0)") auto
    have "appends (try_bind (write_u8 tag) (\<lambda>_. try_bind (write_len (written counter)) (\<lambda>_. f)))" by (intro appends_intro assms)
    moreover have "try_bind (write_u8 tag) (\<lambda>_. try_bind (write_len (written counter)) (\<lambda>_. f)) w = (r, w')"
      using w(2) c by (simp add: write_constructed_def)
    ultimately show ?thesis using w(1) unfolding appends_def by blast
  qed
qed

lemma appends_when_some [appends_intro]: "(\<And>x. appends (f x)) \<Longrightarrow> appends (when_some f v)"
  unfolding when_some_def by (intro appends_intro)

lemma appends_optional [appends_intro]: "(\<And>x. appends (f x)) \<Longrightarrow> appends (encode_optional f v)"
  unfolding encode_optional_def by (intro appends_intro)

subsection \<open>Every encoder\<close>

lemma appends_Data [appends_intro]: "appends (Data_encode d)"
proof -
  have "appends (Data_encode_body d)"
    by (cases d; simp only: Data_encode_body.simps CompactArray_encode_body_def) (intro appends_intro)+
  then show ?thesis unfolding Data_encode_def by (intro appends_intro)
qed

lemma appends_descriptors [appends_intro]:
  "appends (AttributeDescriptor_encode a)" "appends (MethodDescriptor_encode m)" "appends (SelectiveAccess_encode sa)"
  "appends (AttributeDescriptorWithSelection_encode ad)" "appends (List_encode l)"
  unfolding AttributeDescriptor_encode_def MethodDescriptor_encode_def SelectiveAccess_encode_def
    AttributeDescriptorWithSelection_encode_def List_encode_def
  by (intro appends_intro | simp only: SelectiveAccess_encode_def AttributeDescriptor_encode_def)+

lemma appends_results [appends_intro]:
  "appends (GetDataResult_encode g)" "appends (DataBlockG_encode bg)" "appends (DataBlockSA_encode bs)"
  "appends (DataAccessResult_encode r)" "appends (ActionResult_encode ar)"
  unfolding DataBlockG_encode_def DataBlockSA_encode_def DataAccessResult_encode_def ActionResult_encode_def
  by ((cases g; simp only: GetDataResult_encode.simps; intro appends_intro) | intro appends_intro)+

lemma appends_action_response [appends_intro]: "appends (ActionResponseWithOptionalData_encode a)"
  unfolding ActionResponseWithOptionalData_encode_def by (intro appends_intro)

lemma appends_services [appends_intro]:
  "appends (GetRequest_encode q1)" "appends (GetResponse_encode p1)" "appends (SetRequest_encode q2)" "appends (SetResponse_encode p2)"
  "appends (ActionRequest_encode q3)" "appends (ActionResponse_encode p3)"
  by ((cases q1; simp only: GetRequest_encode.simps; intro appends_intro) | (cases p1; simp only: GetResponse_encode.simps; intro appends_intro)
    | (cases q2; simp only: SetRequest_encode.simps; intro appends_intro) | (cases p2; simp only: SetResponse_encode.simps; intro appends_intro)
    | (cases q3; simp only: ActionRequest_encode.simps; intro appends_intro) | (cases p3; simp only: ActionResponse_encode.simps; intro appends_intro))+

lemma appends_access [appends_intro]:
  "appends (OptionalDateTime_encode t)" "appends (AccessResponseSpecification_encode asp)"
  "appends (AccessRequest_encode q)" "appends (AccessResponse_encode p)" "appends (DataNotification_encode dn)" "appends (EventNotification_encode en)"
proof -
  show t: "appends (OptionalDateTime_encode t)" for t
    unfolding OptionalDateTime_encode_def by (intro appends_intro)
  show "appends (AccessResponseSpecification_encode asp)"
    by (cases asp; simp only: AccessResponseSpecification_encode.simps; intro appends_intro)
  show "appends (AccessRequest_encode q)" "appends (AccessResponse_encode p)" "appends (DataNotification_encode dn)" "appends (EventNotification_encode en)"
    unfolding AccessRequest_encode_def AccessResponse_encode_def DataNotification_encode_def EventNotification_encode_def DateTimeOctets_encode_def
    by (intro appends_intro t)+
qed

lemma appends_initiate [appends_intro]:
  "appends (InitiateRequest_encode q)" "appends (InitiateResponse_encode p)" "appends (ExceptionResponse_encode e)" "appends (ConfirmedServiceError_encode c)"
  unfolding InitiateRequest_encode_def InitiateResponse_encode_def ExceptionResponse_encode_def ConfirmedServiceError_encode_def
    Conformance_encode_tagged_def
  by (intro appends_intro)+

lemma appends_ciphered [appends_intro]:
  "appends (CipheredService_encode c)" "appends (GeneralGloCiphering_encode g)" "appends (GeneralCiphering_encode gc)"
  "appends (GeneralSigning_encode gs)" "appends (GeneralBlockTransfer_encode gb)"
proof -
  have k: "appends (KeyInfo_encode k)" for k by (cases k; simp only: KeyInfo_encode.simps; intro appends_intro)
  show c: "appends (CipheredService_encode c)" for c unfolding CipheredService_encode_def by (intro appends_intro)
  show "appends (GeneralGloCiphering_encode g)" "appends (GeneralCiphering_encode gc)" "appends (GeneralSigning_encode gs)"
    "appends (GeneralBlockTransfer_encode gb)"
    unfolding GeneralGloCiphering_encode_def GeneralCiphering_encode_def GeneralSigning_encode_def GeneralBlockTransfer_encode_def
    by (intro appends_intro k c)+
qed

lemma appends_acse [appends_intro]:
  "appends (Aarq_encode q)" "appends (Aare_encode a)" "appends (Rlrq_encode r)" "appends (Rlre_encode r)"
  unfolding Aarq_encode_def Aare_encode_def Rlrq_encode_def Rlre_encode_def release_encode_def
  by (intro appends_intro | cases "aare_diagnostic a"; simp only: Diagnostic.case)+

lemma appends_Apdu [appends_intro]: "appends (Apdu_encode a)"
proof -
  have body: "appends (Apdu_encode_body a)" for a
    by (cases a; simp only: Apdu_encode_body.simps invalid_value_def) (intro appends_intro)+
  show ?thesis
    by (cases a; simp only: Apdu_encode_def Apdu.case invalid_value_def) (intro appends_intro body)+
qed

subsection \<open>Encoding into a buffer\<close>

lemma encode_into_appends:
  assumes "appends f" "encode_into f out = (r, out')"
  shows "length out' = length out" "r = Inr n \<Longrightarrow> n \<le> length out"
proof -
  obtain r1 w where run: "f (SliceW (SliceWriter_new out)) = (r1, w)" by fastforce
  have "wr_room (SliceW (SliceWriter_new out)) 0" by (simp add: SliceWriter_new_def)
  then obtain b where b: "wr_room (SliceW (SliceWriter_new out)) (length b)" "w = wr_after (SliceW (SliceWriter_new out)) b"
    using appendsD [OF assms(1) _ run] by blast
  show "length out' = length out" "r = Inr n \<Longrightarrow> n \<le> length out"
    using assms(2) run b by (auto simp: encode_into_def SliceWriter_new_def split: sum.splits)
qed

end
