(* ===== verification/ServerSafety.thy ===== *)
theory ServerSafety
  imports Server Appends
begin

text \<open>
  What every exchange with the server keeps, whatever the client sends: its configuration, the size of its buffers, its
  invocation counter, the bookkeeping of a block transfer, and which operations of the object store it may use.
\<close>

subsection \<open>What one exchange may change\<close>

text \<open>What a transfer says about the response buffer lies inside it.\<close>

fun transfer_fits :: "nat \<Rightarrow> Transfer \<Rightarrow> bool" where
  "transfer_fits n TrIdle \<longleftrightarrow> True"
| "transfer_fits n (TrSending _ _ len sent _) \<longleftrightarrow> sent \<le> len \<and> len \<le> n"
| "transfer_fits n (TrReceivingSet _ _ _ header_end len _) \<longleftrightarrow> header_end + len \<le> n"
| "transfer_fits n (TrReceivingAction _ _ len _) \<longleftrightarrow> len \<le> n"

definition server_inv :: "'s Server \<Rightarrow> bool" where
  "server_inv s \<longleftrightarrow> transfer_fits (sv_N s) (sv_transfer s) \<and> length (sv_scratch s) = sv_N s"

text \<open>
  The configuration and the sizes of the buffers stay, the invariant holds and the sending counter never goes back.
  \<open>evolved\<close> says it of the reply of a handler; the simplifier works through the updates of the state.
\<close>

definition evolves :: "'s Server \<Rightarrow> 's Server \<Rightarrow> bool" where
  "evolves s s' \<longleftrightarrow> sv_config s' = sv_config s \<and> sv_N s' = sv_N s \<and> server_inv s' \<and>
     Server_invocation_counter s \<le> Server_invocation_counter s'"

definition evolved :: "'s Server \<Rightarrow> 'a \<times> 's Server \<times> 'b \<Rightarrow> bool" where
  "evolved s rep \<longleftrightarrow> evolves s (fst (snd rep))"

definition evolved_op :: "'s Server \<Rightarrow> 'a \<times> 's Server \<Rightarrow> bool" where
  "evolved_op s rep \<longleftrightarrow> evolves s (snd rep)"

lemma evolves_refl [intro]: "server_inv s \<Longrightarrow> evolves s s"
  by (simp add: evolves_def)

lemma evolves_trans: "evolves s t \<Longrightarrow> evolves t u \<Longrightarrow> evolves s u"
  by (auto simp: evolves_def)

lemma evolves_fields [simp]:
  "evolves s (t\<lparr>sv_store := a\<rparr>) = evolves s t"
  "evolves s (t\<lparr>sv_protector := b\<rparr>) = evolves s t"
  "evolves s (t\<lparr>sv_state := c\<rparr>) = evolves s t"
  "evolves s (t\<lparr>sv_client_system_title := d\<rparr>) = evolves s t"
  "evolves s (t\<lparr>sv_client_challenge := e\<rparr>) = evolves s t"
  "evolves s (t\<lparr>sv_client_challenge_len := f\<rparr>) = evolves s t"
  "evolves s (t\<lparr>sv_server_challenge := e\<rparr>) = evolves s t"
  "evolves s (t\<lparr>sv_server_challenge_len := f\<rparr>) = evolves s t"
  "evolves s (t\<lparr>sv_peer_replay := g\<rparr>) = evolves s t"
  "evolves s (t\<lparr>sv_replay_owner := d\<rparr>) = evolves s t"
  "evolves s (t\<lparr>sv_negotiated := h\<rparr>) = evolves s t"
  "evolves s (t\<lparr>sv_ciphered_association := i\<rparr>) = evolves s t"
  "evolves s (t\<lparr>sv_client_max_pdu_size := j\<rparr>) = evolves s t"
  "length l = sv_N t \<Longrightarrow> evolves s (t\<lparr>sv_response := l\<rparr>) = evolves s t"
  "length l = length (sv_scratch t) \<Longrightarrow> evolves s (t\<lparr>sv_scratch := l\<rparr>) = evolves s t"
  by (simp_all add: evolves_def server_inv_def Server_invocation_counter_def)

lemma evolves_transfer [simp]:
  "evolves s t \<Longrightarrow> transfer_fits (sv_N t) k \<Longrightarrow> evolves s (t\<lparr>sv_transfer := k\<rparr>)"
  by (simp add: evolves_def server_inv_def Server_invocation_counter_def)

lemma evolves_fits: "evolves s t \<Longrightarrow> sv_transfer t = k \<Longrightarrow> transfer_fits (sv_N t) k"
  by (auto simp: evolves_def server_inv_def)

lemma evolved_simps [simp]: "evolved s (r, t, out) = evolves s t" "evolved_op s (r', t) = evolves s t"
  by (simp_all add: evolved_def evolved_op_def)

lemma evolved_if: "(c \<Longrightarrow> evolved s a) \<Longrightarrow> (\<not> c \<Longrightarrow> evolved s b) \<Longrightarrow> evolved s (if c then a else b)"
  by simp

lemma evolved_option: "evolved s a \<Longrightarrow> (\<And>x. evolved s (f x)) \<Longrightarrow> evolved s (case v of None \<Rightarrow> a | Some x \<Rightarrow> f x)"
  by (cases v) simp_all

lemma counter_step: "InvocationCounter_next c = (r, c') \<Longrightarrow> InvocationCounter_get c \<le> InvocationCounter_get c'"
  by (cases c) (auto simp: word_le_nat_alt unat_inc split: if_splits)

lemma evolves_counter: "evolves s t \<Longrightarrow> InvocationCounter_next (sv_invocation_counter t) = (r, c) \<Longrightarrow> evolves s (t\<lparr>sv_invocation_counter := c\<rparr>)"
  using counter_step by (fastforce simp: evolves_def server_inv_def Server_invocation_counter_def)

lemma evolved_emit [simp]: "evolved s (emit enc t out) = evolves s t"
  by (simp add: emit_def split: prod.splits)

lemma evolved_send: "evolves s t \<Longrightarrow> evolved s (send apdu t out)"
proof -
  assume t: "evolves s t"
  obtain r scratch where enc: "encode_into (Apdu_encode apdu) (sv_scratch t) = (r, scratch)" by fastforce
  have "length scratch = length (sv_scratch t)" using encode_into_appends(1) [OF appends_Apdu enc] .
  with t have u: "evolves s (t\<lparr>sv_scratch := scratch\<rparr>)" by simp
  then show ?thesis unfolding send_def enc prod.case Let_def
    by (auto split: sum.splits option.splits prod.splits intro!: evolves_counter)
qed

lemma evolved_exception: "evolves s t \<Longrightarrow> evolved s (exception a b t out)"
  by (simp add: exception_def Let_def evolved_send)

lemma evolved_counter_exception: "evolves s t \<Longrightarrow> evolved s (counter_exception c t out)"
  by (simp add: counter_exception_def)

lemma evolves_audit [simp]: "evolves s (audit env e t) = evolves s t"
  by (simp add: audit_def)

lemma evolves_clear [simp]: "evolves s t \<Longrightarrow> evolves s (clear_association env t)"
  by (simp add: clear_association_def)

lemma evolved_refuse: "evolves s t \<Longrightarrow> evolved s (refuse env a b t out)"
  by (simp add: refuse_def Let_def)

lemmas evolved_answers = evolved_send evolved_exception evolved_counter_exception evolved_refuse

lemma evolved_errors:
  "evolves s t \<Longrightarrow> evolved s (get_error i e t out)" "evolves s t \<Longrightarrow> evolved s (action_error i a t out)"
  "evolves s t \<Longrightarrow> evolved s (set_error i e t out)" "evolves s t \<Longrightarrow> evolved s (set_last_block i e n t out)"
  "evolves s t \<Longrightarrow> evolved s (outbound_error v i e a t out)"
  by (auto simp: get_error_def action_error_def set_error_def set_last_block_def outbound_error_def split: Outbound.split intro: evolved_send)

text \<open>Sequencing: a part that evolves, and whatever follows it.\<close>

lemma evolved_reply_case:
  assumes "evolved s rep" "\<And>e t out. rep = (Inl e, t, out) \<Longrightarrow> evolves s t \<Longrightarrow> evolved s (f e t out)"
    "\<And>x t out. rep = (Inr x, t, out) \<Longrightarrow> evolves s t \<Longrightarrow> evolved s (g x t out)"
  shows "evolved s (case rep of (Inl e, t, out) \<Rightarrow> f e t out | (Inr x, t, out) \<Rightarrow> g x t out)"
  using assms by (cases rep; cases "fst rep") auto

lemma evolved_op_case:
  assumes "evolved_op s m" "\<And>e t. m = (Inl e, t) \<Longrightarrow> evolves s t \<Longrightarrow> evolved s (f e t)"
    "\<And>x t. m = (Inr x, t) \<Longrightarrow> evolves s t \<Longrightarrow> evolved s (g x t)"
  shows "evolved s (case m of (Inl e, t) \<Rightarrow> f e t | (Inr x, t) \<Rightarrow> g x t)"
  using assms by (cases m; cases "fst m") auto

lemma evolved_bind:
  assumes "evolved_op s (m t)" "\<And>x u. m t = (Inr x, u) \<Longrightarrow> evolves s u \<Longrightarrow> evolved_op s (f x u)"
  shows "evolved_op s (try_bind m f t)"
  using assms by (cases "m t"; cases "fst (m t)") (auto simp: try_bind_def)

lemma send_keeps:
  assumes "send apdu t out = (r, u, out')"
  shows "sv_transfer u = sv_transfer t" "sv_N u = sv_N t" "sv_state u = sv_state t" "sv_store u = sv_store t"
  using assms by (auto simp: send_def emit_def Let_def split: prod.splits sum.splits option.splits if_splits)

lemma evolved_then:
  assumes "evolves s t" "\<And>x u out'. send apdu t out = (Inr x, u, out') \<Longrightarrow> evolves s u \<Longrightarrow> evolves s (f u)"
  shows "evolved s (case send apdu t out of (Inl e, u, out) \<Rightarrow> (Inl e, u, out) | (Inr n, u, out) \<Rightarrow> (Inr n, f u, out))"
  by (rule evolved_reply_case [OF evolved_send [OF assms(1)]]) (simp_all add: assms(2))

lemma evolved_send_next_block:
  assumes "evolves s t"
  shows "evolved s (send_next_block t out)"
proof (cases "sv_transfer t")
  case (TrSending i v len sent block)
  note fits = evolves_fits [OF assms TrSending]
  define e where "e = min (sent + max_fragment t) len"
  have e: "sent \<le> e" "e \<le> len" using fits by (simp_all add: e_def)
  have next1: "evolved s (case send apdu t out of (Inl x, u, out) \<Rightarrow> (Inl x, u, out)
      | (Inr n, u, out) \<Rightarrow> (Inr n, u\<lparr>sv_transfer := (if c then TrIdle else TrSending i v len e k)\<rparr>, out))" for apdu c k
  proof (rule evolved_then [OF assms])
    fix x u out' assume "send apdu t out = (Inr x, u, out')" "evolves s u"
    then show "evolves s (u\<lparr>sv_transfer := (if c then TrIdle else TrSending i v len e k)\<rparr>)"
      using fits e send_keeps(2) by (intro evolves_transfer) (auto, fastforce)
  qed
  show ?thesis unfolding send_next_block_def TrSending Transfer.case Let_def e_def [symmetric]
    using assms by (intro evolved_if evolved_errors next1) simp_all
qed (use assms in \<open>simp_all add: send_next_block_def evolved_exception\<close>)

lemma evolved_deliver: "evolves s t \<Longrightarrow> n \<le> sv_N t \<Longrightarrow> evolved s (deliver_blocked i v n t out)"
  by (simp add: deliver_blocked_def Let_def evolved_errors evolved_send_next_block)

subsection \<open>The association\<close>

lemma evolved_next_counter: "evolves s t \<Longrightarrow> evolved_op s (next_counter t)"
  by (auto simp: next_counter_def split: prod.splits intro: evolves_counter)

lemma evolved_pure: "evolves s t \<Longrightarrow> evolved_op s (m t, t)"
  by simp

lemma evolved_user_information: "evolves s t \<Longrightarrow> evolved_op s (user_information t)"
  unfolding user_information_def seal_user_information_def
  by (auto split: prod.splits sum.splits intro!: evolved_bind evolved_next_counter)

lemma evolved_accept: "evolves s t \<Longrightarrow> evolved s (accept_association env c m l t out)"
  unfolding accept_association_def Let_def by (auto intro!: evolved_op_case [OF evolved_user_information])

lemma evolved_start_hls: "evolves s t \<Longrightarrow> evolved_op s (start_hls env aarq t)"
  by (auto simp: start_hls_def Let_def split: option.splits prod.splits sum.splits)

lemma evolved_negotiate: "evolves s t \<Longrightarrow> evolved s (negotiate_association env aarq c m p x t out)"
  unfolding negotiate_association_def Let_def
  by (auto intro!: evolved_op_case [OF evolved_start_hls] evolved_refuse evolved_accept)

lemma evolved_unprotect: "evolves s t \<Longrightarrow> evolved_op s (unprotect_into a b t)" "evolves s t \<Longrightarrow> evolved_op s (unprotect_initiate a b t)"
  by (auto simp: unprotect_into_def unprotect_initiate_def Let_def split: prod.splits)

lemma evolved_take_dedicated: "evolves s t \<Longrightarrow> evolved_op s (take_dedicated_key env k t)"
  by (auto simp: take_dedicated_key_def Let_def split: prod.splits sum.splits)

lemma evolved_open: "evolves s t \<Longrightarrow> evolved s (open_user_information env aarq c m u t out)"
  unfolding open_user_information_def Let_def
  by (auto split: sum.splits option.splits intro!: evolved_op_case [OF evolved_unprotect(2)] evolved_op_case [OF evolved_take_dedicated]
    evolved_answers evolved_negotiate)

lemma evolved_identify: "evolves s t \<Longrightarrow> evolved_op s (identify_peer aarq t)"
  by (auto simp: identify_peer_def Let_def split: option.splits sum.splits)

lemma evolved_aarq:
  assumes "server_inv s"
  shows "evolved s (handle_aarq env apdu s out)"
proof (cases "from_bytes Aarq_decode apdu")
  case (Inl e)
  with assms show ?thesis by (simp add: handle_aarq_def evolves_refl)
next
  case (Inr aarq)
  define t where "t = (clear_association env s)\<lparr>sv_ciphered_association := ApplicationContext_is_ciphered
    (case aarq_application_context aarq of None \<Rightarrow> CtxLogicalName | Some c \<Rightarrow> c)\<rparr>"
  have t: "evolves s t" using assms by (simp add: t_def evolves_refl)
  show ?thesis unfolding handle_aarq_def Inr sum.case Let_def t_def [symmetric]
    by (intro evolved_if evolved_option evolved_refuse evolved_negotiate evolved_open t evolved_op_case [OF evolved_identify [OF t]]) simp_all
qed

lemma evolved_release: "server_inv s \<Longrightarrow> evolved s (handle_release env apdu s out)"
  by (auto simp: handle_release_def Let_def split: sum.splits)

subsection \<open>The services\<close>

lemma evolved_with_buffer: "evolves s t \<Longrightarrow> evolved_op s (with_buffer n f t)"
  by (auto simp: with_buffer_def split: prod.splits sum.splits)

lemma evolves_with_buffer: "with_buffer n f t = (r, u) \<Longrightarrow> evolves s u \<longleftrightarrow> evolves s t"
  by (auto simp: with_buffer_def split: prod.splits sum.splits)

lemmas evolved_parts = evolved_answers evolved_errors evolved_send_next_block evolved_deliver

lemma evolved_get_normal: "evolves s t \<Longrightarrow> evolved s (get_normal env i d a t out)"
  unfolding get_normal_def Let_def
  by (auto simp: audit_read_def split: sum.splits prod.splits intro!: evolved_parts)

lemma evolved_get_next: "evolves s t \<Longrightarrow> evolved s (handle_get_next i n t out)"
  unfolding handle_get_next_def by (auto split: Transfer.splits Outbound.splits intro!: evolved_parts)

lemma encode_into_bounds:
  "encode_into f out = (r, out') \<Longrightarrow> appends f \<Longrightarrow> length out' = length out \<and> (\<forall>n. r = Inr n \<longrightarrow> n \<le> length out)"
  using encode_into_appends by metis

lemma evolved_start_sending:
  assumes "evolves s t" "n \<le> sv_N t" "length b = sv_N t"
  shows "evolved s (send_next_block (t\<lparr>sv_response := b, sv_transfer := TrSending i v n 0 0\<rparr>) out)"
  by (rule evolved_send_next_block) (use assms in simp)

lemma evolved_get_with_list:
  assumes "evolves s t"
  shows "evolved s (handle_get_with_list env i l t out)"
proof (cases "agreed t MULTIPLE_REFERENCES")
  case True
  obtain r u where run: "with_buffer (sv_N t) (each_item (read_item env) (List_iter AttributeDescriptorWithSelection_decode l)) (t\<lparr>sv_transfer := TrIdle\<rparr>) = (r, u)"
    by fastforce
  have u: "evolves s u" using assms by (simp add: evolves_with_buffer [OF run])
  show ?thesis
  proof (cases r)
    case (Inl e)
    with u True show ?thesis by (simp add: handle_get_with_list_def run)
  next
    case (Inr x)
    obtain count results where x: "x = (count, results)" by fastforce
    obtain m b where enc: "encode_into (write_length count) (replicate 5 0) = (m, b)" by fastforce
    have b: "length b = 5" "\<And>n. m = Inr n \<Longrightarrow> n \<le> 5" using encode_into_bounds [OF enc appends_length(1)] by simp_all
    note run = handle_get_with_list_def True not_True_eq_False if_False run Inr sum.case prod.case x enc Let_def
    show ?thesis
    proof (cases m)
      case (Inl e)
      with u show ?thesis by (simp only: run) simp
    next
      case (Inr n)
      have p: "length (take n b) = n" using b Inr by simp
      moreover have "length (overwrite (sv_response u) 0 (take n b)) = sv_N u" if "n \<le> sv_N u" using that p by (simp del: length_take)
      ultimately show ?thesis unfolding run Inr
        by (intro evolved_if evolved_send evolved_errors u evolved_start_sending)
          (use True u p in \<open>simp_all del: length_take\<close>)
    qed
  qed
qed (use assms in \<open>simp add: handle_get_with_list_def evolved_exception\<close>)

lemma evolved_get: "evolves s t \<Longrightarrow> evolved s (handle_get env q t out)"
  by (auto simp: handle_get_def split: GetRequest.split intro!: evolved_parts evolved_get_normal evolved_get_next evolved_get_with_list)

lemma evolved_finish_list: "evolves s t \<Longrightarrow> evolved s (finish_blocked_list_set env i h l n t out)"
  unfolding finish_blocked_list_set_def Let_def
  by (auto simp: evolves_with_buffer split: sum.splits prod.splits intro!: evolved_parts)

lemma evolved_finish: "evolves s t \<Longrightarrow> evolved s (finish_blocked_set env i d h l n t out)"
  unfolding finish_blocked_set_def by (auto split: sum.splits prod.splits intro!: evolved_parts)

lemma evolved_continue_set: "evolves s t \<Longrightarrow> evolved s (continue_blocked_set env i b t out)"
  unfolding continue_blocked_set_def Let_def
  by (auto split: Transfer.split intro!: evolved_parts evolved_finish evolved_finish_list)

lemma evolved_begin_set: "evolves s t \<Longrightarrow> evolved s (begin_blocked_set env i d a b t out)"
  unfolding begin_blocked_set_def Let_def
  by (auto split: sum.splits prod.splits option.splits intro!: evolved_parts evolved_continue_set
    dest!: encode_into_bounds [OF _ appends_descriptors(3)])

lemma evolved_begin_list_set: "evolves s t \<Longrightarrow> evolved s (begin_blocked_list_set env i ds b t out)"
  unfolding begin_blocked_list_set_def Let_def
  by (auto split: sum.splits prod.splits intro!: evolved_parts evolved_continue_set dest!: encode_into_bounds [OF _ appends_descriptors(5)])

lemma evolved_set_with_list: "evolves s t \<Longrightarrow> evolved s (handle_set_with_list env i d v t out)"
  unfolding handle_set_with_list_def by (auto intro!: evolved_op_case [OF evolved_with_buffer] evolved_parts)

lemma evolved_set: "evolves s t \<Longrightarrow> evolved s (handle_set env q t out)"
  by (auto simp: handle_set_def split: SetRequest.split prod.splits
    intro!: evolved_parts evolved_continue_set evolved_begin_set evolved_begin_list_set evolved_set_with_list)

lemma evolved_answer: "evolves s t \<Longrightarrow> evolved s (answer_method i r v t out)"
  unfolding answer_method_def Let_def by (auto split: sum.splits bool.splits intro!: evolved_parts)

lemma evolved_invoke: "evolves s t \<Longrightarrow> evolved s (invoke_and_answer env i d p t out)"
  unfolding invoke_and_answer_def by (auto intro!: evolved_op_case [OF evolved_with_buffer] evolved_answer)

lemma evolved_continue_action: "evolves s t \<Longrightarrow> evolved s (continue_blocked_action env i b t out)"
  unfolding continue_blocked_action_def Let_def
  by (auto split: Transfer.split sum.splits intro!: evolved_parts evolved_invoke)

lemma evolved_action_next: "evolves s t \<Longrightarrow> evolved s (handle_action_next i n t out)"
  unfolding handle_action_next_def by (auto split: Transfer.splits Outbound.splits intro!: evolved_parts)

lemma evolved_action_with_list: "evolves s t \<Longrightarrow> evolved s (handle_action_with_list env i d v t out)"
  unfolding handle_action_with_list_def by (auto intro!: evolved_op_case [OF evolved_with_buffer] evolved_parts)

lemma evolved_hls_reply: "evolves s t \<Longrightarrow> evolved s (handle_hls_reply i d p t out)"
  unfolding handle_hls_reply_def Let_def
  by (auto split: option.splits bool.splits sum.splits intro!: evolved_op_case evolved_bind evolved_next_counter evolved_parts)

lemma evolved_action: "evolves s t \<Longrightarrow> evolved s (handle_action env q t out)"
  unfolding handle_action_def Let_def
  by (auto split: ActionRequest.split intro!: evolved_parts evolved_hls_reply evolved_invoke evolved_action_next evolved_continue_action
    evolved_action_with_list)

lemma evolved_access: "evolves s t \<Longrightarrow> evolved s (handle_access env q t out)"
  unfolding handle_access_def Let_def by (auto split: prod.splits sum.splits intro!: evolved_parts)

lemma evolved_dispatch: "evolves s t \<Longrightarrow> evolved s (dispatch env a t out)"
  unfolding dispatch_def by (cases a; simp only: Apdu.case) (auto intro: evolved_parts evolved_get evolved_set evolved_action evolved_access)

lemma evolved_service: "server_inv s \<Longrightarrow> evolved s (handle_service env apdu s out)"
  unfolding handle_service_def
  by (auto split: sum.splits intro!: evolved_op_case [OF evolved_unprotect(1)] evolved_parts evolved_dispatch)

lemma evolved_handle: "server_inv s \<Longrightarrow> evolved s (handle env apdu s out)"
  unfolding handle_def
  by (auto split: option.splits ApduTag.splits intro: evolved_parts evolved_aarq evolved_release evolved_service)


subsection \<open>The invariant over a lifetime\<close>

text \<open>What the caller of the engine can do: hand it an APDU, reset it, restore a replay window, and change the objects.\<close>

inductive server_step :: "'s Server \<Rightarrow> 's Server \<Rightarrow> bool" where
  handled: "handle env apdu s out = (r, s', out') \<Longrightarrow> server_step s s'"
| was_reset: "server_step s (Server_reset env s)"
| resumed: "server_step s (resume_replay_window peer highest s)"
| stored: "server_step s (s\<lparr>sv_store := store\<rparr>)"

lemma server_step_evolves: "server_step s s' \<Longrightarrow> server_inv s \<Longrightarrow> evolves s s'"
proof (induction rule: server_step.induct)
  case (handled env apdu s out r s' out')
  then show ?case using evolved_handle [of s env apdu out] by simp
next
  case (was_reset s env)
  then have "evolves s (clear_association env (s\<lparr>sv_state := SsIdle\<rparr>))" by (simp add: evolves_refl)
  moreover from this was_reset have "sv_N s = length (sv_scratch (clear_association env (s\<lparr>sv_state := SsIdle\<rparr>)))"
    by (simp add: evolves_def server_inv_def)
  moreover have "sv_N (clear_association env (s\<lparr>sv_state := SsIdle\<rparr>)) = sv_N s" by (simp add: clear_association_def)
  ultimately show ?case by (simp add: Server_reset_def Let_def)
qed (simp_all add: resume_replay_window_def evolves_refl)

text \<open>C4: Over a server's whole life, whatever clients send and whatever the object store does, its configuration and the size of its
  buffers never change, every offset of a block transfer stays inside the response buffer (so no copy of a fragment can panic),
  and the invocation counter under which it protects replies never goes back, also when an association is reset or an APDU
  is refused.\<close>

theorem server_lifetime_invariant:
  assumes "server_step\<^sup>*\<^sup>* s s'" "server_inv s"
  shows "server_inv s' \<and> sv_config s' = sv_config s \<and> sv_N s' = sv_N s \<and> Server_invocation_counter s \<le> Server_invocation_counter s'"
proof -
  from assms have "evolves s s'"
  proof (induction rule: rtranclp_induct)
    case (step t u)
    then have t: "evolves s t" by simp
    then have "server_inv t" by (simp add: evolves_def)
    with step t show ?case using server_step_evolves evolves_trans by blast
  qed (rule evolves_refl)
  with assms show ?thesis by (simp add: evolves_def)
qed

lemma server_inv_new: "server_inv (Server_new N config store provider)"
  by (simp add: Server_new_def server_inv_def)

theorem server_lifetime_invariant_witness:
  "server_inv (Server_reset (demo_env 3 1) (resume_replay_window (SystemTitle [1, 2, 3, 4, 5, 6, 7, 8]) 41 (demo_server AmNone SecurityPolicy_NONE)))"
proof -
  have "server_step\<^sup>*\<^sup>* (demo_server AmNone SecurityPolicy_NONE)
     (Server_reset (demo_env 3 1) (resume_replay_window (SystemTitle [1, 2, 3, 4, 5, 6, 7, 8]) 41 (demo_server AmNone SecurityPolicy_NONE)))"
    by (rule rtranclp_trans [OF r_into_rtranclp [of server_step] r_into_rtranclp [of server_step]]) (rule resumed, rule was_reset)
  from server_lifetime_invariant [OF this] show ?thesis by (simp add: demo_server_def server_inv_new)
qed

end
