(* ===== verification/ServerAccess.thy ===== *)
theory ServerAccess
  imports Server
begin

text \<open>
  Which operations of the object store the server uses: only those the association has a right to, and none before the
  association is open.  Both are stated by replacing operations: the exchange does not notice.
\<close>

subsection \<open>Rights\<close>

text \<open>
  Two environments serve alike when they differ at most in what \<^verbatim>\<open>get_attribute\<close>, \<^verbatim>\<open>set_attribute\<close> and \<^verbatim>\<open>invoke_method\<close> would
  do where the rights do not allow them.
\<close>

definition serves_alike :: "'s Env \<Rightarrow> 's Env \<Rightarrow> bool" where
  "serves_alike env env' \<longleftrightarrow>
     env_attribute_access env' = env_attribute_access env \<and> env_method_access env' = env_method_access env \<and>
     env_audit env' = env_audit env \<and> env_random env' = env_random env \<and>
     env_set_dedicated_key env' = env_set_dedicated_key env \<and> env_clear_dedicated_key env' = env_clear_dedicated_key env \<and>
     (\<forall>store c i a. can_read (env_attribute_access env store c i a) \<longrightarrow> env_get_attribute env' store c i a = env_get_attribute env store c i a) \<and>
     (\<forall>store c i a. can_write (env_attribute_access env store c i a) \<longrightarrow> env_set_attribute env' store c i a = env_set_attribute env store c i a) \<and>
     (\<forall>store c i a. can_invoke (env_method_access env store c i a) \<longrightarrow> env_invoke_method env' store c i a = env_invoke_method env store c i a)"

lemma alike_fields:
  assumes "serves_alike env env'"
  shows "rights_of env' = rights_of env" "env_method_access env' = env_method_access env" "env_audit env' = env_audit env"
    "env_random env' = env_random env" "env_set_dedicated_key env' = env_set_dedicated_key env"
    "env_clear_dedicated_key env' = env_clear_dedicated_key env"
  using assms by (auto simp: serves_alike_def rights_of_def fun_eq_iff)

lemma alike_read: "serves_alike env env' \<Longrightarrow> can_read (rights_of env store d) \<Longrightarrow> get_attribute env' store d = get_attribute env store d"
  by (auto simp: serves_alike_def rights_of_def get_attribute_def fun_eq_iff)

lemma alike_write: "serves_alike env env' \<Longrightarrow> write_one env' = write_one env"
  by (auto simp: fun_eq_iff write_one_def alike_fields) (auto simp: serves_alike_def rights_of_def)

lemma alike_run: "serves_alike env env' \<Longrightarrow> run_method env' = run_method env"
  by (auto simp: fun_eq_iff run_method_def alike_fields) (auto simp: serves_alike_def)

text \<open>The association does not touch the objects.\<close>

definition same_keeper :: "'s Env \<Rightarrow> 's Env \<Rightarrow> bool" where
  "same_keeper env env' \<longleftrightarrow> env_audit env' = env_audit env \<and> env_random env' = env_random env \<and>
     env_set_dedicated_key env' = env_set_dedicated_key env \<and> env_clear_dedicated_key env' = env_clear_dedicated_key env"

lemma keeper_association:
  assumes "same_keeper env env'"
  shows "handle_aarq env' = handle_aarq env" "handle_release env' = handle_release env" "audit env' = audit env"
proof -
  note eqs = assms [unfolded same_keeper_def, THEN conjunct1] assms [unfolded same_keeper_def, THEN conjunct2, THEN conjunct1]
    assms [unfolded same_keeper_def, THEN conjunct2, THEN conjunct2, THEN conjunct1]
    assms [unfolded same_keeper_def, THEN conjunct2, THEN conjunct2, THEN conjunct2]
  show audit: "audit env' = audit env" by (intro ext, unfold audit_def eqs, rule refl)
  have clear: "clear_association env' = clear_association env" by (intro ext, unfold clear_association_def eqs, rule refl)
  have key: "take_dedicated_key env' = take_dedicated_key env" by (intro ext, unfold take_dedicated_key_def eqs, rule refl)
  have hls: "start_hls env' = start_hls env" by (intro ext, unfold start_hls_def eqs, rule refl)
  have refuse: "refuse env' = refuse env" by (intro ext, unfold refuse_def audit, rule refl)
  have accept: "accept_association env' = accept_association env" by (intro ext, unfold accept_association_def audit, rule refl)
  have neg: "negotiate_association env' = negotiate_association env"
    by (intro ext, unfold negotiate_association_def refuse accept hls, rule refl)
  have open1: "open_user_information env' = open_user_information env"
    by (intro ext, unfold open_user_information_def refuse neg audit key, rule refl)
  show "handle_aarq env' = handle_aarq env" by (intro ext, unfold handle_aarq_def clear refuse neg open1, rule refl)
  show "handle_release env' = handle_release env" by (intro ext, unfold handle_release_def audit eqs, rule refl)
qed

lemma alike_items:
  assumes "serves_alike env env'"
  shows "read_item env' = read_item env" "write_item env' = write_item env" "invoke_item env' = invoke_item env"
    "access_item env' = access_item env"
proof -
  note [simp] = alike_fields [OF assms] alike_read [OF assms] alike_write [OF assms] alike_run [OF assms]
  show "read_item env' = read_item env"
  proof (intro ext)
    fix item and work :: "'a work"
    obtain store w where work: "work = (store, w)" by fastforce
    show "read_item env' item work = read_item env item work"
      unfolding read_item_def work Let_def
      by (cases "can_read (rights_of env store (ads_descriptor item))")
        (simp_all add: try_bind_def on_writer_def written_so_far_def split: prod.split sum.split)
  qed
  show "write_item env' = write_item env" "invoke_item env' = invoke_item env"
    by (simp_all add: fun_eq_iff write_item_def invoke_item_def)
  have "access_one env' d a v g work = access_one env d a v g work" for d a v g and work :: "'a work"
  proof (cases work)
    case (Pair store w)
    show ?thesis unfolding access_one_def Pair prod.case alike_write [OF assms] alike_fields [OF assms]
      by (cases "can_read (rights_of env store d)"; cases g) (simp_all only: alike_read [OF assms] alike_fields [OF assms] if_True if_False prod.case not_True_eq_False not_False_eq_True)
  qed
  then show "access_item env' = access_item env"
    by (simp add: fun_eq_iff access_item_def access_entry_def access_action_def split: AccessRequestSpecification.splits)
qed


lemma alike_handlers:
  assumes "serves_alike env env'"
  shows "dispatch env' = dispatch env"
proof -
  note fields = alike_fields [OF assms] alike_items [OF assms] alike_write [OF assms] alike_run [OF assms]
  have audit: "audit env' = audit env" by (intro ext, unfold audit_def fields, rule refl)
  have audit_read: "audit_read env' = audit_read env" by (intro ext, unfold audit_read_def audit, rule refl)
  have get: "get_normal env' = get_normal env"
  proof (intro ext)
    fix i d a out and t :: "'a Server"
    show "get_normal env' i d a t out = get_normal env i d a t out"
    proof (cases "can_read (rights_of env (sv_store t) d)")
      case True
      then have read: "get_attribute env' (sv_store (t\<lparr>sv_transfer := TrIdle\<rparr>)) d = get_attribute env (sv_store (t\<lparr>sv_transfer := TrIdle\<rparr>)) d"
        using alike_read [OF assms] by simp
      show ?thesis unfolding get_normal_def Let_def fields audit_read read by (rule refl)
    next
      case False
      then show ?thesis by (simp add: get_normal_def Let_def fields audit_read)
    qed
  qed
  have list: "handle_get_with_list env' = handle_get_with_list env" by (intro ext, unfold handle_get_with_list_def fields, rule refl)
  have finish: "finish_blocked_list_set env' = finish_blocked_list_set env" "finish_blocked_set env' = finish_blocked_set env"
    unfolding finish_blocked_list_set_def finish_blocked_set_def fields by (rule refl)+
  have continue1: "continue_blocked_set env' = continue_blocked_set env" by (intro ext, unfold continue_blocked_set_def finish, rule refl)
  have sets: "begin_blocked_set env' = begin_blocked_set env" "begin_blocked_list_set env' = begin_blocked_list_set env"
    "handle_set_with_list env' = handle_set_with_list env"
    unfolding begin_blocked_set_def begin_blocked_list_set_def handle_set_with_list_def continue1 fields audit by (rule refl)+
  have invoke: "invoke_and_answer env' = invoke_and_answer env" by (intro ext, unfold invoke_and_answer_def fields, rule refl)
  have actions: "handle_action_with_list env' = handle_action_with_list env" "continue_blocked_action env' = continue_blocked_action env"
    unfolding handle_action_with_list_def continue_blocked_action_def invoke fields by (rule refl)+
  have "handle_get env' = handle_get env" "handle_set env' = handle_set env" "handle_action env' = handle_action env"
    "handle_access env' = handle_access env"
    unfolding handle_get_def handle_set_def handle_action_def handle_access_def get list continue1 sets invoke actions fields by (rule refl)+
  then show ?thesis by (intro ext, unfold dispatch_def) (simp only:)
qed

lemma handle_by_parts:
  assumes "handle_aarq env' = handle_aarq env" "handle_release env' = handle_release env"
    "handle_service env' apdu s out = handle_service env apdu s out"
  shows "handle env' apdu s out = handle env apdu s out"
  unfolding handle_def assms by (rule refl)

text \<open>C5: The rights of an association are enforced by the server for every service: what the store's read, write and invoke operations
  would do where the rights of the moment do not allow them has no influence on any exchange, neither on the answer nor on the
  state of the server or of the objects, whatever the request (single, listed, blocked or batched in an ACCESS).\<close>

theorem rights_are_enforced:
  assumes "serves_alike env env'"
  shows "handle env' apdu s out = handle env apdu s out"
proof -
  have "same_keeper env env'" using assms by (simp add: same_keeper_def serves_alike_def)
  moreover have "handle_service env' apdu s out = handle_service env apdu s out"
    by (unfold handle_service_def alike_handlers [OF assms], rule refl)
  ultimately show ?thesis by (intro handle_by_parts keeper_association)
qed

text \<open>Objects that grant nothing: what their operations do makes no difference, here for a request to write.\<close>

theorem rights_are_enforced_witness:
  "handle (demo_env 0 0) demo_set demo_open (replicate 64 0) =
     handle ((demo_env 0 0)\<lparr>env_set_attribute := default_set_attribute, env_invoke_method := default_invoke_method\<rparr>) demo_set demo_open (replicate 64 0)"
  by (rule rights_are_enforced) (simp add: serves_alike_def demo_env_def can_read_def can_write_def can_invoke_def AA_READ_def AA_WRITE_def MA_ACCESS_def)

subsection \<open>Nothing before the association\<close>

text \<open>C13: Until an association is open the objects behind the server are out of reach: in every other state no APDU whatever makes the
  server read or write an attribute or invoke a method, and no answer depends on what those operations would do or which
  rights the objects grant.\<close>

theorem objects_out_of_reach_before_association:
  assumes "sv_state s \<noteq> SsAssociated"
  shows "handle (env\<lparr>env_get_attribute := g, env_set_attribute := st, env_invoke_method := i, env_attribute_access := ra,
      env_method_access := rm\<rparr>) apdu s out = handle env apdu s out"
proof -
  let ?env = "env\<lparr>env_get_attribute := g, env_set_attribute := st, env_invoke_method := i, env_attribute_access := ra, env_method_access := rm\<rparr>"
  have "same_keeper env ?env" by (simp add: same_keeper_def)
  moreover have "dispatch ?env a t out = dispatch env a t out" if "sv_state t \<noteq> SsAssociated" for a t
    using that by (cases a; simp only: dispatch_def Apdu.case)
      (simp_all add: handle_get_def handle_set_def handle_action_def handle_access_def)
  moreover have "sv_state t = sv_state s" if "unprotect_into apdu b s = (r, t)" for b r t
    using that by (auto simp: unprotect_into_def Let_def split: prod.splits)
  ultimately have "handle_service ?env apdu s out = handle_service env apdu s out" "same_keeper env ?env"
    using assms by (auto simp: handle_service_def split: prod.split sum.split)
  then show ?thesis by (intro handle_by_parts keeper_association)
qed

theorem objects_out_of_reach_before_association_witness:
  "handle ((demo_env 3 1)\<lparr>env_get_attribute := env_get_attribute (demo_env 3 1), env_set_attribute := default_set_attribute,
      env_invoke_method := default_invoke_method, env_attribute_access := default_attribute_access,
      env_method_access := default_method_access\<rparr>) demo_set (demo_server AmNone SecurityPolicy_NONE) (replicate 64 0) =
    handle (demo_env 3 1) demo_set (demo_server AmNone SecurityPolicy_NONE) (replicate 64 0)"
  by (rule objects_out_of_reach_before_association) (simp add: demo_server_def Server_new_def)

end
