(* ===== verification/ServerAuth.thy ===== *)
theory ServerAuth
  imports Server
begin

text \<open>
  How an association comes to be: what a client has to present before the server serves it, and what an unauthenticated
  association request can do to a server that already serves one.
\<close>

subsection \<open>Answers keep the state\<close>

definition reply_state :: "nat result \<times> 's Server \<times> bytes \<Rightarrow> ServerState" where
  "reply_state rep = sv_state (fst (snd rep))"

lemma reply_state_simps [simp]: "reply_state (r, t, out) = sv_state t"
  by (simp add: reply_state_def)

lemma emit_state [simp]: "reply_state (emit enc t out) = sv_state t"
  by (simp add: emit_def split: prod.splits)

lemma send_state [simp]: "reply_state (send apdu t out) = sv_state t"
  by (simp add: send_def Let_def split: prod.splits sum.splits option.splits)

lemma answers_state [simp]:
  "reply_state (exception a b t out) = sv_state t" "reply_state (counter_exception c t out) = sv_state t"
  "reply_state (action_error i r t out) = sv_state t" "reply_state (refuse env x d t out) = SsClosed"
  by (simp_all add: exception_def counter_exception_def action_error_def refuse_def Let_def audit_def)

lemma ops_state:
  "identify_peer aarq t = (r1, u) \<Longrightarrow> sv_state u = sv_state t \<and> sv_config u = sv_config t"
  "unprotect_initiate a b t = (r2, u) \<Longrightarrow> sv_state u = sv_state t"
  "unprotect_into a b t = (r2, u) \<Longrightarrow> sv_state u = sv_state t"
  "take_dedicated_key env k t = (r3, u) \<Longrightarrow> sv_state u = sv_state t"
  "user_information t = (r4, u) \<Longrightarrow> sv_state u = sv_state t"
  "next_counter t = (r5, u) \<Longrightarrow> sv_state u = sv_state t"
  by (auto simp: identify_peer_def unprotect_initiate_def unprotect_into_def take_dedicated_key_def user_information_def
    seal_user_information_def next_counter_def try_bind_def Let_def split: option.splits sum.splits prod.splits if_splits)

lemma accept_state [simp]: "reply_state (accept_association env c m l t out) = sv_state t"
  by (auto simp: accept_association_def Let_def audit_def ops_state(5) split: prod.splits sum.splits)

lemma start_hls_state: "start_hls env aarq t = (r, u) \<Longrightarrow> sv_state u = sv_state t \<or> sv_state u = SsAwaitingHlsReply"
  by (auto simp: start_hls_def Let_def split: option.splits sum.splits prod.splits if_splits)

lemma negotiate_state:
  "reply_state (negotiate_association env aarq c m p x t out) = SsAssociated \<Longrightarrow>
    sv_state t = SsAssociated \<or> \<not> AuthMechanism_is_high_level m"
  by (auto simp: negotiate_association_def Let_def split: prod.splits sum.splits if_splits dest!: start_hls_state)

lemma open_state:
  assumes "reply_state (open_user_information env aarq c m ui t out) = SsAssociated"
  shows "sv_state t = SsAssociated \<or> \<not> AuthMechanism_is_high_level m"
proof -
  obtain r u where run: "unprotect_initiate ui (replicate 256 0) t = (r, u)" by fastforce
  note u = ops_state(2) [OF run]
  show ?thesis using assms
    by (auto simp: open_user_information_def run Let_def u audit_def split: prod.splits sum.splits if_splits option.splits
      dest!: negotiate_state dest: ops_state(4))
qed

lemma aarq_state:
  assumes "reply_state (handle_aarq env apdu s out) = SsAssociated" "sv_state s \<noteq> SsAssociated"
  shows "\<not> AuthMechanism_is_high_level (sc_mechanism (sv_config s)) \<and>
    (sc_mechanism (sv_config s) = AmLow \<longrightarrow> (\<exists>aarq. from_bytes Aarq_decode apdu = Inr aarq \<and> password_accepted aarq s))"
proof (cases "from_bytes Aarq_decode apdu")
  case (Inl e)
  with assms show ?thesis by (simp add: handle_aarq_def)
next
  case (Inr aarq)
  define t where "t = (clear_association env s)\<lparr>sv_ciphered_association := ApplicationContext_is_ciphered
    (case aarq_application_context aarq of None \<Rightarrow> CtxLogicalName | Some c \<Rightarrow> c)\<rparr>"
  have t: "sv_state t = sv_state s" "sv_config t = sv_config s" by (simp_all add: t_def clear_association_def)
  define m where "m = (case aarq_mechanism_name aarq of None \<Rightarrow> AmNone | Some m \<Rightarrow> m)"
  obtain r u where run: "identify_peer aarq t = (r, u)" by fastforce
  have u: "sv_state u \<noteq> SsAssociated" "password_accepted aarq u \<longleftrightarrow> password_accepted aarq s"
    using ops_state(1) [OF run] assms(2) t by (simp_all add: password_accepted_def)
  have go: "m = sc_mechanism (sv_config s)" "r = Inr ()" "\<not> (m = AmLow \<and> \<not> password_accepted aarq u)"
    "reply_state (case aarq_user_information aarq of
        None \<Rightarrow> negotiate_association env aarq (case aarq_application_context aarq of None \<Rightarrow> CtxLogicalName | Some c \<Rightarrow> c) m Conformance_empty (sc_max_pdu_size (sv_config t)) u out
      | Some ui \<Rightarrow> open_user_information env aarq (case aarq_application_context aarq of None \<Rightarrow> CtxLogicalName | Some c \<Rightarrow> c) m ui u out) = SsAssociated"
    using assms(1) u(1) unfolding handle_aarq_def Inr sum.case Let_def t_def [symmetric] m_def [symmetric] t(2) run prod.case
    by (auto split: if_splits sum.splits)
  have "\<not> AuthMechanism_is_high_level m"
    using go(4) u(1) by (auto split: option.splits dest: negotiate_state open_state)
  then show ?thesis using go u(2) Inr by auto
qed

lemma hls_state:
  assumes "reply_state (handle_hls_reply i d p s out) = SsAssociated" "sv_state s \<noteq> SsAssociated"
  shows "\<exists>proof1 peer ak. md_class_id d = 15 \<and> md_method_id d = 1 \<and> Option.bind p Data_as_bytes = Some proof1 \<and>
    sv_client_system_title s = Some peer \<and> auth_key s = Inr ak \<and>
    Protector_verify_hls_gmac (sv_protector s) peer ak (take (sv_server_challenge_len s) (sv_server_challenge s)) proof1 = Inr ()"
  using assms unfolding handle_hls_reply_def Let_def
  by (auto simp: try_bind_def split: bool.splits option.splits sum.splits prod.splits if_splits dest: ops_state(6))

text \<open>C6: The gate of authentication.  An exchange that takes a server from not serving to serving is one of three: the server requires
  no authentication; it requires a password and the request carried exactly that password; or it was waiting for the
  reply to its challenge and, after protection was removed, the APDU invoked method 1 of class 15 with a proof that verifies
  under the client's system title, the authentication key and the challenge the server had sent.\<close>

theorem association_needs_authentication:
  assumes "handle env apdu s out = (r, s', out')" "sv_state s \<noteq> SsAssociated" "sv_state s' = SsAssociated"
  shows "sc_mechanism (sv_config s) = AmNone \<or>
    sc_mechanism (sv_config s) = AmLow \<and> (\<exists>aarq. from_bytes Aarq_decode apdu = Inr aarq \<and> password_accepted aarq s) \<or>
    sv_state s = SsAwaitingHlsReply \<and>
      (\<exists>plain t i d p proof1 peer ak. unprotect_into apdu (replicate (sv_N s) 0) s = (Inr plain, t) \<and>
         from_bytes Apdu_decode plain = Inr (ApActionRequest (ActNormal i d p)) \<and> md_class_id d = 15 \<and> md_method_id d = 1 \<and>
         Option.bind p Data_as_bytes = Some proof1 \<and> sv_client_system_title s = Some peer \<and> auth_key s = Inr ak \<and>
         Protector_verify_hls_gmac (sv_protector s) peer ak (take (sv_server_challenge_len s) (sv_server_challenge s)) proof1 = Inr ())"
proof -
  have goal: "reply_state (handle env apdu s out) = SsAssociated" using assms by simp
  consider (aarq) "reply_state (handle_aarq env apdu s out) = SsAssociated" | (service) "reply_state (handle_service env apdu s out) = SsAssociated"
  proof -
    have "reply_state (handle_release env apdu s out) \<noteq> SsAssociated"
      using assms(2) by (auto simp: handle_release_def Let_def audit_def split: sum.splits)
    then show thesis using goal assms(2) that by (auto simp: handle_def split: if_splits option.splits ApduTag.splits)
  qed
  then show ?thesis
  proof cases
    case aarq
    then show ?thesis using aarq_state [OF aarq assms(2)] by (auto simp: AuthMechanism_is_high_level_def)
  next
    case service
    obtain res t where run: "unprotect_into apdu (replicate (sv_N s) 0) s = (res, t)" by fastforce
    have t: "sv_state t = sv_state s" "sv_client_system_title t = sv_client_system_title s" "sv_protector t = sv_protector s"
      "sv_server_challenge t = sv_server_challenge s" "sv_server_challenge_len t = sv_server_challenge_len s" "auth_key t = auth_key s"
      using run by (auto simp: unprotect_into_def Let_def auth_key_def split: prod.splits)
    from service assms(2) t(1) have waiting: "sv_state s = SsAwaitingHlsReply" and
      disp: "\<exists>plain a. res = Inr plain \<and> from_bytes Apdu_decode plain = Inr a \<and> reply_state (dispatch env a t out) = SsAssociated"
      by (auto simp: handle_service_def run split: if_splits sum.splits)
    then obtain plain a where a: "res = Inr plain" "from_bytes Apdu_decode plain = Inr a" "reply_state (dispatch env a t out) = SsAssociated"
      by blast
    have "\<exists>i d p. a = ApActionRequest (ActNormal i d p) \<and> reply_state (handle_hls_reply i d p t out) = SsAssociated"
      using a(3) assms(2) t(1) waiting unfolding dispatch_def
      by (cases a; simp only: Apdu.case)
        (auto simp: handle_get_def handle_set_def handle_action_def handle_access_def split: ActionRequest.splits)
    then obtain i d p where hls: "a = ApActionRequest (ActNormal i d p)" "reply_state (handle_hls_reply i d p t out) = SsAssociated" by blast
    show ?thesis using hls_state [OF hls(2)] t assms(2) waiting run a hls(1) by auto
  qed
qed

text \<open>A request for low level security with the password \<^verbatim>\<open>abc\<close>, and a server that asks for it.\<close>

definition password_request :: bytes where
  "password_request =
     [0x60, 0x1B, 0xA1, 0x09, 0x06, 0x07, 0x60, 0x85, 0x74, 0x05, 0x08, 0x01, 0x01, 0x8B, 0x07, 0x60, 0x85, 0x74, 0x05, 0x08, 0x02, 0x01,
      0xAC, 0x05, 0x80, 0x03, 0x61, 0x62, 0x63]"

definition password_server :: "nat Server" where
  "password_server = (demo_server AmLow SecurityPolicy_NONE)\<lparr>sv_config := (demo_config AmLow SecurityPolicy_NONE)\<lparr>
     sc_password := Some \<lparr>sec_buf = [0x61, 0x62, 0x63], sec_len = 3\<rparr>\<rparr>\<rparr>"

theorem association_needs_authentication_witness:
  "\<exists>r s' out'. handle (demo_env 3 1) password_request password_server (replicate 80 0) = (r, s', out') \<and> sv_state s' = SsAssociated \<and>
     (\<exists>aarq. from_bytes Aarq_decode password_request = Inr aarq \<and> password_accepted aarq password_server)"
proof -
  obtain r s' out' where run: "handle (demo_env 3 1) password_request password_server (replicate 80 0) = (r, s', out')" by (rule prod_cases3)
  have "sv_state (fst (snd (handle (demo_env 3 1) password_request password_server (replicate 80 0)))) = SsAssociated" by code_simp
  then have "sv_state s' = SsAssociated" by (simp add: run)
  moreover have "sv_state password_server = SsIdle" "sc_mechanism (sv_config password_server) = AmLow"
    by (simp_all add: password_server_def demo_server_def Server_new_def demo_config_def)
  ultimately show ?thesis using association_needs_authentication [OF run] run by auto
qed

subsection \<open>An association request that fails\<close>

text \<open>A request for HLS with GMAC in the plain logical-name context that carries no challenge, but an initiate request proposing everything.\<close>

definition keyless_request :: bytes where
  "keyless_request =
     [0x60, 0x26, 0xA1, 0x09, 0x06, 0x07, 0x60, 0x85, 0x74, 0x05, 0x08, 0x01, 0x01, 0x8B, 0x07, 0x60, 0x85, 0x74, 0x05, 0x08, 0x02, 0x05,
      0xBE, 0x10, 0x04, 0x0E, 0x01, 0x00, 0x00, 0x00, 0x06, 0x5F, 0x1F, 0x04, 0x00, 0xFF, 0xFF, 0xFF, 0xFF, 0xFF]"

definition keyless_user_information :: bytes where
  "keyless_user_information = [0x01, 0x00, 0x00, 0x00, 0x06, 0x5F, 0x1F, 0x04, 0x00, 0xFF, 0xFF, 0xFF, 0xFF, 0xFF]"

lemma keyless_decodes:
  "from_bytes Aarq_decode keyless_request = Inr (Aarq_default\<lparr>aarq_application_context := Some CtxLogicalName,
     aarq_mechanism_name := Some AmHighGmac, aarq_user_information := Some keyless_user_information\<rparr>)"
  unfolding keyless_request_def keyless_user_information_def Aarq_default_def by code_simp

lemma keyless_initiate:
  "initiate_parameters keyless_user_information = Inr (Some \<lparr>ir_dedicated_key = None, ir_response_allowed = None,
     ir_proposed_quality_of_service = None, ir_proposed_dlms_version = 6, ir_proposed_conformance = Conformance 0xFFFFFF,
     ir_client_max_receive_pdu_size = 0xFFFF\<rparr>)"
  unfolding keyless_user_information_def by code_simp

lemma keyless_parse:
  assumes "SecurityPolicy_is_none (in_policy ctx)"
  shows "incoming_parse ctx keyless_user_information = Inr Bare"
proof -
  have tag: "ApduTag_from_u8 1 = Some AInitiateRequest" "ApduTag_unprotect AInitiateRequest = None" by code_simp+
  have "\<not> isl (fst (Reader_skip 1 (Reader_new keyless_user_information)))" unfolding keyless_user_information_def by code_simp
  then obtain r where "Reader_skip 1 (Reader_new keyless_user_information) = (Inr (), r)"
    by (cases "Reader_skip 1 (Reader_new keyless_user_information)"; cases "fst (Reader_skip 1 (Reader_new keyless_user_information))") auto
  then have skip: "try_bind (Reader_skip 1) f (Reader_new keyless_user_information) = f () r" for f :: "unit \<Rightarrow> (Reader, apdu_form) op"
    by (simp add: try_bind_def)
  have "(case keyless_user_information of [] \<Rightarrow> 0 | b # _ \<Rightarrow> b) = 1" by (simp add: keyless_user_information_def)
  then show ?thesis using assms
    by (simp only: incoming_parse_def Let_def tag option.case skip) (simp add: incoming_form_def tag)
qed

lemma clear_association_keeps [simp]:
  "sv_config (clear_association env s) = sv_config s" "sv_state (clear_association env s) = sv_state s"
  "sv_peer_replay (clear_association env s) = sv_peer_replay s" "sv_replay_owner (clear_association env s) = sv_replay_owner s"
  by (simp_all add: clear_association_def)

text \<open>C25: A failed association request leaves a serving server serving.  A server that requires HLS with GMAC but no ciphering and already
  serves an association gets an association request without the challenge that HLS needs.  The exchange ends with an error,
  but the association of the previous client has been replaced: the state still says associated, the services the request
  proposed are negotiated, and no challenge was ever sent, so whoever sent the request is served without authentication.\<close>

theorem failed_request_keeps_serving:
  assumes "sv_state s = SsAssociated" "sc_mechanism (sv_config s) = AmHighGmac" "SecurityPolicy_is_none (sc_security (sv_config s))"
    "sc_referencing (sv_config s) = RefLogicalName" "40 \<le> unat (sc_max_pdu_size (sv_config s))"
  shows "\<exists>s'. handle env keyless_request s out = (Inl (Error_new UnexpectedMessage 0), s', out) \<and>
    sv_state s' = SsAssociated \<and> sv_client_system_title s' = None \<and> sv_server_challenge_len s' = 0 \<and>
    sv_negotiated s' = Conformance_negotiate (sc_conformance (sv_config s)) (Conformance 0xFFFFFF)"
proof -
  define t where "t = (clear_association env s)\<lparr>sv_ciphered_association := False\<rparr>"
  have t: "sv_config t = sv_config s" "sv_state t = SsAssociated" "sv_client_system_title t = None" "sv_server_challenge_len t = 0"
    "\<not> sv_ciphered_association t"
    using assms(1) by (simp_all add: t_def clear_association_def)
  let ?aarq = "Aarq_default\<lparr>aarq_application_context := Some CtxLogicalName, aarq_mechanism_name := Some AmHighGmac,
    aarq_user_information := Some keyless_user_information\<rparr>"
  have "SecurityPolicy_is_none (SecurityPolicy_global (sc_security (sv_config s)))"
    using assms(3) by (simp add: SecurityPolicy_is_none_def SecurityPolicy_global_def)
  then have opened: "unprotect_initiate keyless_user_information (replicate 256 0) t = (Inr keyless_user_information, t)"
    by (simp add: unprotect_initiate_def unprotect_apdu_def keyless_parse t(1) Let_def) (simp add: keyless_user_information_def)
  have "handle_aarq env keyless_request s out = negotiate_association env ?aarq CtxLogicalName AmHighGmac (Conformance 0xFFFFFF) 0xFFFF t out"
    using assms(2-4) t by (simp add: handle_aarq_def Let_def t_def [symmetric] keyless_decodes Aarq_default_def ApplicationContext_is_ciphered_def t_def [symmetric]
      ApplicationContext_referencing_def ApplicationContext_is_logical_name_def identify_peer_def open_user_information_def opened keyless_initiate)
  moreover have "handle env keyless_request s out = handle_aarq env keyless_request s out"
    using assms(5) by (simp add: handle_def keyless_request_def ApduTag_from_u8_def)
  ultimately show ?thesis using t
    by (simp add: negotiate_association_def AuthMechanism_is_high_level_def start_hls_def Aarq_default_def Let_def)
qed

theorem failed_request_keeps_serving_witness:
  "\<exists>s'. handle (demo_env 3 1) keyless_request ((demo_server AmHighGmac SecurityPolicy_NONE)\<lparr>sv_state := SsAssociated\<rparr>) (replicate 80 0) =
      (Inl (Error_new UnexpectedMessage 0), s', replicate 80 0) \<and>
    sv_state s' = SsAssociated \<and> Conformance_contains (sv_negotiated s') SET"
proof -
  have "Conformance_contains (Conformance_negotiate SERVER_DEFAULT (Conformance 0xFFFFFF)) SET" by code_simp
  then show ?thesis
    using failed_request_keeps_serving [of "(demo_server AmHighGmac SecurityPolicy_NONE)\<lparr>sv_state := SsAssociated\<rparr>" "demo_env 3 1" "replicate 80 0"]
    by (auto simp: demo_server_def Server_new_def demo_config_def ServerConfig_default_def SecurityPolicy_NONE_def SecurityPolicy_is_none_def)
qed

subsection \<open>Whose counters the window remembers\<close>

text \<open>
  An association request that names the calling title \<open>title\<close> and that the server takes up: right context and mechanism, no
  password needed, no user information.  Nothing in it is protected.
\<close>

definition names_title :: "ServerConfig \<Rightarrow> bytes \<Rightarrow> bytes \<Rightarrow> bool" where
  "names_title config apdu title \<longleftrightarrow>
     length apdu \<le> unat (sc_max_pdu_size config) \<and> apdu \<noteq> [] \<and> hd apdu = 0x60 \<and> length title = 8 \<and>
     (\<exists>aarq. from_bytes Aarq_decode apdu = Inr aarq \<and>
        aarq_application_context aarq = Some (if SecurityPolicy_is_none (sc_security config) then CtxLogicalName else CtxLogicalNameCiphered) \<and>
        (case aarq_mechanism_name aarq of None \<Rightarrow> AmNone | Some m \<Rightarrow> m) = sc_mechanism config \<and> sc_mechanism config \<noteq> AmLow \<and>
        aarq_calling_ap_title aarq = Some title \<and> aarq_user_information aarq = None)"

definition reply_window :: "'a \<times> 's Server \<times> 'b \<Rightarrow> SystemTitle option \<times> ReplayWindow \<times> ServerConfig" where
  "reply_window rep = (let t = fst (snd rep) in (sv_replay_owner t, sv_peer_replay t, sv_config t))"

lemma ops_window:
  "user_information t = (r, u) \<Longrightarrow> sv_replay_owner u = sv_replay_owner t \<and> sv_peer_replay u = sv_peer_replay t \<and> sv_config u = sv_config t"
  "start_hls env aarq t = (r1, u) \<Longrightarrow> sv_replay_owner u = sv_replay_owner t \<and> sv_peer_replay u = sv_peer_replay t \<and> sv_config u = sv_config t"
  by (auto simp: user_information_def seal_user_information_def next_counter_def try_bind_def start_hls_def Let_def
    split: option.splits sum.splits prod.splits if_splits)

lemma accept_window: "reply_window (accept_association env c m l t out) = (sv_replay_owner t, sv_peer_replay t, sv_config t)"
  by (auto simp: accept_association_def reply_window_def Let_def audit_def emit_def split: prod.splits sum.splits dest!: ops_window(1))

lemma refuse_window: "reply_window (refuse env x d t out) = (sv_replay_owner t, sv_peer_replay t, sv_config t)"
  by (simp add: refuse_def reply_window_def Let_def audit_def emit_def split: prod.splits)

lemma negotiate_window:
  "reply_window (negotiate_association env aarq c m p x t out) = (sv_replay_owner t, sv_peer_replay t, sv_config t)"
  by (auto simp: negotiate_association_def Let_def refuse_window accept_window split: prod.splits sum.splits dest!: ops_window(2))
    (simp_all add: reply_window_def)

lemma named_request_window:
  assumes "names_title (sv_config s) apdu title" "sc_referencing (sv_config s) = RefLogicalName"
  shows "reply_window (handle env apdu s out) =
    (Some (SystemTitle title), if sv_replay_owner s = Some (SystemTitle title) then sv_peer_replay s
       else ReplayWindow_new (sc_replay_window (sv_config s)), sv_config s)"
proof -
  obtain aarq where aarq: "from_bytes Aarq_decode apdu = Inr aarq"
    "aarq_application_context aarq = Some (if SecurityPolicy_is_none (sc_security (sv_config s)) then CtxLogicalName else CtxLogicalNameCiphered)"
    "(case aarq_mechanism_name aarq of None \<Rightarrow> AmNone | Some m \<Rightarrow> m) = sc_mechanism (sv_config s)" "sc_mechanism (sv_config s) \<noteq> AmLow"
    "aarq_calling_ap_title aarq = Some title" "aarq_user_information aarq = None" "length title = 8"
    using assms(1) by (auto simp: names_title_def)
  define t where "t = (clear_association env s)\<lparr>sv_ciphered_association := \<not> SecurityPolicy_is_none (sc_security (sv_config s))\<rparr>"
  obtain u where u: "identify_peer aarq t = (Inr (), u)"
    "sv_replay_owner u = Some (SystemTitle title)" "sv_config u = sv_config s"
    "sv_peer_replay u = (if sv_replay_owner s = Some (SystemTitle title) then sv_peer_replay s else ReplayWindow_new (sc_replay_window (sv_config s)))"
    using aarq(5,7) by (simp add: identify_peer_def SystemTitle_from_slice_def Let_def t_def split: if_splits)
  have "reply_window (handle_aarq env apdu s out) = (sv_replay_owner u, sv_peer_replay u, sv_config u)"
    using assms(2) aarq u(1,3)
    by (simp add: handle_aarq_def Let_def ApplicationContext_is_ciphered_def ApplicationContext_referencing_def ApplicationContext_is_logical_name_def
      negotiate_window t_def split: if_splits)
  moreover have "handle env apdu s out = handle_aarq env apdu s out"
    using assms(1) by (cases apdu) (auto simp: names_title_def handle_def ApduTag_from_u8_def)
  ultimately show ?thesis using u by simp
qed

text \<open>C24: The replay window of a client can be thrown away by anyone.  Two association requests, neither protected nor authenticated, one
  naming any other title and one naming the client's, leave the server with a fresh window for the client: whatever counters
  it had accepted before, every one of them passes the check for replays again.\<close>

theorem replay_window_restarted_by_anyone:
  assumes "names_title (sv_config s) apdu1 title1" "names_title (sv_config s) apdu2 title2" "title1 \<noteq> title2"
    "sc_referencing (sv_config s) = RefLogicalName"
    "handle env apdu1 s out1 = (r1, s1, out1')" "handle env apdu2 s1 out2 = (r2, s2, out2')"
  shows "sv_replay_owner s2 = Some (SystemTitle title2) \<and> (\<forall>counter. ReplayWindow_check (sv_peer_replay s2) counter = Inr ())"
proof -
  have s1: "sv_replay_owner s1 = Some (SystemTitle title1)" "sv_config s1 = sv_config s"
    using named_request_window [OF assms(1,4), of env out1] assms(5) by (simp_all add: reply_window_def)
  have "names_title (sv_config s1) apdu2 title2" "sc_referencing (sv_config s1) = RefLogicalName" using assms(2,4) s1 by simp_all
  from named_request_window [OF this, of env out2] assms(3,6) s1
  have "sv_replay_owner s2 = Some (SystemTitle title2)" "sv_peer_replay s2 = ReplayWindow_new (sc_replay_window (sv_config s))"
    by (simp_all add: reply_window_def split: if_splits)
  then show ?thesis by (simp add: ReplayWindow_check_def ReplayWindow_new_def)
qed

text \<open>Two requests that differ in the last byte of the title.\<close>

definition titled_request :: "u8 \<Rightarrow> bytes" where
  "titled_request x = [0x60, 0x17, 0xA1, 0x09, 0x06, 0x07, 0x60, 0x85, 0x74, 0x05, 0x08, 0x01, 0x03, 0xA6, 0x0A, 0x04, 0x08, 1, 2, 3, 4, 5, 6, 7, x]"

lemma titled_request_names:
  "names_title (demo_config AmNone (SecurityPolicy_authenticated_encrypted Suite0)) (titled_request 8) [1, 2, 3, 4, 5, 6, 7, 8]"
  "names_title (demo_config AmNone (SecurityPolicy_authenticated_encrypted Suite0)) (titled_request 9) [1, 2, 3, 4, 5, 6, 7, 9]"
proof -
  have "from_bytes Aarq_decode (titled_request 8) = Inr (Aarq_default\<lparr>aarq_application_context := Some CtxLogicalNameCiphered,
      aarq_calling_ap_title := Some [1, 2, 3, 4, 5, 6, 7, 8]\<rparr>)"
    "from_bytes Aarq_decode (titled_request 9) = Inr (Aarq_default\<lparr>aarq_application_context := Some CtxLogicalNameCiphered,
      aarq_calling_ap_title := Some [1, 2, 3, 4, 5, 6, 7, 9]\<rparr>)" by code_simp+
  then show
    "names_title (demo_config AmNone (SecurityPolicy_authenticated_encrypted Suite0)) (titled_request 8) [1, 2, 3, 4, 5, 6, 7, 8]"
    "names_title (demo_config AmNone (SecurityPolicy_authenticated_encrypted Suite0)) (titled_request 9) [1, 2, 3, 4, 5, 6, 7, 9]"
    by (simp_all add: names_title_def) (simp_all add: titled_request_def demo_config_def ServerConfig_default_def Aarq_default_def
      SecurityPolicy_authenticated_encrypted_def SecurityPolicy_is_none_def)
qed

theorem replay_window_restarted_by_anyone_witness:
  "let s = (demo_server AmNone (SecurityPolicy_authenticated_encrypted Suite0))\<lparr>
       sv_replay_owner := Some (SystemTitle [1, 2, 3, 4, 5, 6, 7, 9]), sv_peer_replay := ReplayWindow_resumed 1000 0\<rparr>;
     (_, s1, _) = handle (demo_env 3 1) (titled_request 8) s (replicate 80 0);
     (_, s2, _) = handle (demo_env 3 1) (titled_request 9) s1 (replicate 80 0)
   in ReplayWindow_check (sv_peer_replay s) 1000 \<noteq> Inr () \<and> ReplayWindow_check (sv_peer_replay s2) 1000 = Inr ()"
proof -
  define s where "s = (demo_server AmNone (SecurityPolicy_authenticated_encrypted Suite0))\<lparr>
    sv_replay_owner := Some (SystemTitle [1, 2, 3, 4, 5, 6, 7, 9]), sv_peer_replay := ReplayWindow_resumed 1000 0\<rparr>"
  have config: "sv_config s = demo_config AmNone (SecurityPolicy_authenticated_encrypted Suite0)" "sc_referencing (sv_config s) = RefLogicalName"
    by (simp_all add: s_def demo_server_def Server_new_def demo_config_def ServerConfig_default_def)
  obtain r1 s1 o1 where 1: "handle (demo_env 3 1) (titled_request 8) s (replicate 80 0) = (r1, s1, o1)" by (rule prod_cases3)
  obtain r2 s2 o2 where 2: "handle (demo_env 3 1) (titled_request 9) s1 (replicate 80 0) = (r2, s2, o2)" by (rule prod_cases3)
  have "ReplayWindow_check (sv_peer_replay s2) 1000 = Inr ()"
    using replay_window_restarted_by_anyone [OF titled_request_names [folded config(1)] _ config(2) 1 2] by simp
  moreover have "ReplayWindow_check (ReplayWindow_resumed 1000 0) 1000 \<noteq> Inr ()" by code_simp
  ultimately show ?thesis unfolding s_def [symmetric] Let_def 1 2 prod.case by (simp add: s_def 1 2)
qed

end
