(* ===== verification/ServerBlocks.thy ===== *)
theory ServerBlocks
  imports Server
begin

text \<open>
  Block transfer end to end: a value that arrives in blocks is written once, as a whole, and a value that leaves in blocks
  arrives as it was read.
\<close>

subsection \<open>What answering leaves alone\<close>

lemma send_leaves:
  assumes "send apdu t out = (r, u, out')"
  shows "sv_transfer u = sv_transfer t \<and> sv_response u = sv_response t \<and> sv_state u = sv_state t \<and> sv_store u = sv_store t \<and>
    sv_negotiated u = sv_negotiated t \<and> sv_config u = sv_config t \<and> sv_client_max_pdu_size u = sv_client_max_pdu_size t"
  using assms by (auto simp: send_def emit_def Let_def split: prod.splits sum.splits option.splits if_splits)

subsection \<open>A value arriving in blocks\<close>

text \<open>The blocks a client cuts a value into: numbered from the given number on, the last one marked.\<close>

fun set_blocks :: "u32 \<Rightarrow> bytes list \<Rightarrow> DataBlockSA list" where
  "set_blocks k [] = []"
| "set_blocks k (f # fs) = \<lparr>dbs_last_block = (fs = []), dbs_block_number = k, dbs_raw_data = f\<rparr> # set_blocks (k + 1) fs"

text \<open>The requests of the whole transfer, and the server after them.\<close>

definition set_requests :: "InvokeId \<Rightarrow> AttributeDescriptor \<Rightarrow> SelectiveAccess option \<Rightarrow> bytes list \<Rightarrow> SetRequest list" where
  "set_requests i d access frags =
     (case set_blocks 1 frags of [] \<Rightarrow> [] | b # bs \<Rightarrow> SetWithFirstDataBlock i d access b # map (SetWithDataBlock i) bs)"

fun serve_sets :: "'s Env \<Rightarrow> SetRequest list \<Rightarrow> 's Server \<Rightarrow> bytes \<Rightarrow> 's Server" where
  "serve_sets env [] s out = s"
| "serve_sets env (q # qs) s out = (case handle_set env q s out of (_, s', out') \<Rightarrow> serve_sets env qs s' out')"

text \<open>Between two blocks: what has arrived is at the front of the response buffer, and nothing else has changed.\<close>

definition receiving :: "'s Server \<Rightarrow> InvokeId \<Rightarrow> AttributeDescriptor \<Rightarrow> bytes \<Rightarrow> u32 \<Rightarrow> 's Server \<Rightarrow> bool" where
  "receiving s0 i d got k s \<longleftrightarrow> sv_state s = SsAssociated \<and> agreed s SET \<and> sv_store s = sv_store s0 \<and> sv_N s = sv_N s0 \<and>
     sv_transfer s = TrReceivingSet i d False 0 (length got) k \<and> take (length got) (sv_response s) = got \<and> length got \<le> sv_N s"

lemma sat_inc_step: "k \<noteq> - 1 \<Longrightarrow> sat_inc k = k + (1 :: u32)"
  by (simp add: sat_inc_def)

lemma unat_step: "k \<noteq> - 1 \<Longrightarrow> unat (k + 1 :: u32) = unat k + 1"
proof -
  have "(- 1 :: u32) = 0xFFFFFFFF" by simp
  then show "k \<noteq> - 1 \<Longrightarrow> unat (k + 1 :: u32) = unat k + 1" using unat_inc by metis
qed

lemma receive_block:
  assumes "receiving s0 i d got k s" "k \<noteq> - 1" "length got + length f \<le> sv_N s0"
    "continue_blocked_set env i \<lparr>dbs_last_block = False, dbs_block_number = k + 1, dbs_raw_data = f\<rparr> s out = (r, s', out')"
  shows "receiving s0 i d (got @ f) (k + 1) s'"
proof -
  have "take (length got + length f) (overwrite (sv_response s) (length got) f) = got @ f"
    using assms(1) take_overwrite_upto [of "length got" "sv_response s" f] by (simp add: receiving_def)
  then show ?thesis using assms
    by (auto simp: continue_blocked_set_def receiving_def sat_inc_step agreed_def Let_def dest!: send_leaves)
qed

lemma receive_last:
  assumes "receiving s0 i d got k s" "k \<noteq> - 1" "length got + length f \<le> sv_N s0" "from_bytes Data_decode (got @ f) = Inr v"
    "continue_blocked_set env i \<lparr>dbs_last_block = True, dbs_block_number = k + 1, dbs_raw_data = f\<rparr> s out = (r, s', out')"
  shows "sv_store s' = snd (write_one env d None v (sv_store s0)) \<and> sv_transfer s' = TrIdle"
proof -
  have "take (length got + length f) (overwrite (sv_response s) (length got) f) = got @ f"
    using assms(1) take_overwrite_upto [of "length got" "sv_response s" f] by (simp add: receiving_def)
  moreover have "length got + length f \<le> length (overwrite (sv_response s) (length got) f)"
    using assms(1,3) by (simp add: receiving_def)
  ultimately have "slice (overwrite (sv_response s) (length got) f) 0 (length got + length f) = Some (got @ f)"
    by (simp add: slice_def)
  then show ?thesis using assms
    by (auto simp: continue_blocked_set_def finish_blocked_set_def set_last_block_def receiving_def sat_inc_step Let_def
      split: prod.splits dest!: send_leaves)
qed

lemma receive_rest:
  assumes "receiving s0 i d got k s" "unat k + length fs < 2 ^ 32" "fs \<noteq> []" "length got + length (concat fs) \<le> sv_N s0"
    "from_bytes Data_decode (got @ concat fs) = Inr v"
  shows "sv_store (serve_sets env (map (SetWithDataBlock i) (set_blocks (k + 1) fs)) s out) = snd (write_one env d None v (sv_store s0)) \<and>
    sv_transfer (serve_sets env (map (SetWithDataBlock i) (set_blocks (k + 1) fs)) s out) = TrIdle"
  using assms
proof (induction fs arbitrary: got k s out)
  case (Cons f fs)
  have k: "k \<noteq> - 1"
  proof
    assume "k = - 1"
    then have "unat k = 2 ^ 32 - 1" by (simp add: unsigned_minus_1_eq_mask mask_eq_exp_minus_1)
    with Cons.prems(2) show False by simp
  qed
  have open1: "sv_state s = SsAssociated" "agreed s SET" using Cons.prems(1) by (simp_all add: receiving_def)
  obtain r s' out' where run: "continue_blocked_set env i \<lparr>dbs_last_block = (fs = []), dbs_block_number = k + 1, dbs_raw_data = f\<rparr> s out = (r, s', out')"
    by (rule prod_cases3)
  have step: "serve_sets env (map (SetWithDataBlock i) (set_blocks (k + 1) (f # fs))) s out =
      serve_sets env (map (SetWithDataBlock i) (set_blocks (k + 1 + 1) fs)) s' out'"
    using open1 run by (simp add: handle_set_def)
  show ?case
  proof (cases "fs = []")
    case True
    with Cons.prems run receive_last [OF Cons.prems(1) k, of f v env out] show ?thesis unfolding step by simp
  next
    case False
    have "receiving s0 i d (got @ f) (k + 1) s'"
      using receive_block [OF Cons.prems(1) k, of f env out] run False Cons.prems(4) by simp
    moreover have "unat (k + 1) = unat k + 1" using k by (rule unat_step)
    ultimately show ?thesis unfolding step using Cons.IH [of "got @ f" "k + 1" s' out'] Cons.prems False by simp
  qed
qed simp

lemma receive_prefix:
  assumes "receiving s0 i d got k s" "unat k + length fs < 2 ^ 32" "length got + length (concat fs) \<le> sv_N s0" "n < length fs"
  shows "sv_store (serve_sets env (take n (map (SetWithDataBlock i) (set_blocks (k + 1) fs))) s out) = sv_store s0"
  using assms
proof (induction fs arbitrary: got k s out n)
  case (Cons f fs)
  show ?case
  proof (cases n)
    case 0
    then show ?thesis using Cons.prems(1) by (simp add: receiving_def)
  next
    case (Suc m)
    have k: "k \<noteq> - 1"
    proof
      assume "k = - 1"
      then have "unat k = 2 ^ 32 - 1" by (simp add: unsigned_minus_1_eq_mask mask_eq_exp_minus_1)
      with Cons.prems(2) show False by simp
    qed
    have open1: "sv_state s = SsAssociated" "agreed s SET" using Cons.prems(1) by (simp_all add: receiving_def)
    have more: "fs \<noteq> []" "m < length fs" using Suc Cons.prems(4) by auto
    obtain r s' out' where run: "continue_blocked_set env i \<lparr>dbs_last_block = False, dbs_block_number = k + 1, dbs_raw_data = f\<rparr> s out = (r, s', out')"
      by (rule prod_cases3)
    have "receiving s0 i d (got @ f) (k + 1) s'"
      using receive_block [OF Cons.prems(1) k _ run] Cons.prems(3) by simp
    moreover have "unat (k + 1) = unat k + 1" using k by (rule unat_step)
    ultimately show ?thesis
      using Cons.IH [of "got @ f" "k + 1" s' m out'] Cons.prems more open1 run by (simp add: Suc handle_set_def)
  qed
qed simp

text \<open>C8: A write in blocks writes exactly the value that was cut up, once, and only when its last block has arrived: when the fragments of a
  value's encoding come in order, the store is untouched after every proper beginning of the requests, and after all of them the server has performed the
  one write a plain request with that value would perform and keeps nothing of the transfer.  This is for an open association
  that agreed on SET and on block transfer for it, an attribute the client may write, without selective access, any cut into at
  least one and fewer than \<open>2 ^ 32\<close> fragments, and an encoding no longer than the server's buffer.\<close>

theorem blocked_set_writes_whole_value:
  assumes "sv_state s = SsAssociated" "agreed s SET" "agreed s BLOCK_TRANSFER_WITH_SET_OR_WRITE" "can_write (rights_of env (sv_store s) d)"
    "frags \<noteq> []" "length frags < 2 ^ 32" "length (concat frags) \<le> sv_N s" "from_bytes Data_decode (concat frags) = Inr v"
  shows "(\<forall>n<length frags. sv_store (serve_sets env (take n (set_requests i d None frags)) s out) = sv_store s) \<and>
    sv_store (serve_sets env (set_requests i d None frags) s out) = snd (write_one env d None v (sv_store s)) \<and>
    sv_transfer (serve_sets env (set_requests i d None frags) s out) = TrIdle"
proof -
  let ?t = "s\<lparr>sv_transfer := TrReceivingSet i d False 0 0 0\<rparr>"
  have t: "receiving s i d [] 0 ?t" using assms(1,2) by (simp add: receiving_def agreed_def)
  obtain f fs where frags: "frags = f # fs" using assms(5) by (cases frags) auto
  have "begin_blocked_set env i d None b s out = continue_blocked_set env i b ?t out" for b
    using assms(3,4) by (simp add: begin_blocked_set_def agreed_def)
  then have runs: "serve_sets env (take (Suc m) (set_requests i d None frags)) s out =
      serve_sets env (take (Suc m) (map (SetWithDataBlock i) (set_blocks (0 + 1) frags))) ?t out" for m
    using assms(1,2) t by (simp add: set_requests_def frags handle_set_def receiving_def)
  have before: "sv_store (serve_sets env (take n (set_requests i d None frags)) s out) = sv_store s" if "n < length frags" for n
    using receive_prefix [OF t, of frags n env out] runs that assms(6,7) by (cases n) simp_all
  have "length (set_blocks k fs) = length fs" for k by (induction fs arbitrary: k) simp_all
  then have "serve_sets env (set_requests i d None frags) s out = serve_sets env (map (SetWithDataBlock i) (set_blocks (0 + 1) frags)) ?t out"
    using runs [of "length fs"] by (simp add: set_requests_def frags)
  then show ?thesis using before receive_rest [OF t, of frags v env out] assms(5-8) by simp
qed

theorem blocked_set_writes_whole_value_witness:
  "sv_store (serve_sets (demo_env 3 1) (take 2 (set_requests (InvokeId 0x41) (AttributeDescriptor_new 3 (Obis_new 1 0 1 8 0 255) 2) None
      [[0x09, 0x03], [0x61], [0x62, 0x63]])) demo_open (replicate 64 0)) = 0 \<and>
   sv_store (serve_sets (demo_env 3 1) (set_requests (InvokeId 0x41) (AttributeDescriptor_new 3 (Obis_new 1 0 1 8 0 255) 2) None
      [[0x09, 0x03], [0x61], [0x62, 0x63]]) demo_open (replicate 64 0)) = 1"
proof -
  have "from_bytes Data_decode [0x09, 0x03, 0x61, 0x62, 0x63] = Inr (DOctetString [0x61, 0x62, 0x63])" by code_simp
  moreover have "agreed demo_open SET" "agreed demo_open BLOCK_TRANSFER_WITH_SET_OR_WRITE" by code_simp+
  moreover have "can_write (rights_of (demo_env 3 1) 0 (AttributeDescriptor_new 3 (Obis_new 1 0 1 8 0 255) 2))" by code_simp
  moreover have "sv_state demo_open = SsAssociated" "sv_store demo_open = 0" "sv_N demo_open = 64"
    by (simp_all add: demo_open_def demo_server_def Server_new_def)
  moreover have three: "length [[0x09, 0x03], [0x61], [0x62, 0x63 :: u8]] = 3" by simp
  ultimately show ?thesis
    using blocked_set_writes_whole_value [of demo_open "demo_env 3 1" "AttributeDescriptor_new 3 (Obis_new 1 0 1 8 0 255) 2"
      "[[0x09, 0x03], [0x61], [0x62, 0x63]]" "DOctetString [0x61, 0x62, 0x63]" "InvokeId 0x41" "replicate 64 0"]
    unfolding three by (simp add: write_one_def demo_env_def rights_of_def)
qed

subsection \<open>A value leaving in blocks\<close>

text \<open>What one block of a GET costs around its fragment.\<close>

definition block_image :: "InvokeId \<Rightarrow> bool \<Rightarrow> u32 \<Rightarrow> bytes \<Rightarrow> bytes" where
  "block_image i last_block number payload =
     [0xC4, 0x02, invoke_byte i, of_bool last_block] @ be_bytes 4 number @ [0x00] @ prefixed payload"

lemma block_writes:
  assumes "length payload < 2 ^ 16"
  shows "writes (Apdu_encode (block_apdu ObGet i l n payload)) (block_image i l n payload)" "length (block_image i l n payload) \<le> length payload + 12"
proof -
  have short: "short_field payload" using assms by (simp add: short_field_def)
  let ?w = "try_bind (write_u8 0xC4) (\<lambda>_. try_bind (write_u8 2) (\<lambda>_. try_bind (write_u8 (invoke_byte i)) (\<lambda>_.
     try_bind (write_u8 (of_bool l)) (\<lambda>_. try_bind (write_u32 n) (\<lambda>_. try_bind (write_u8 0) (\<lambda>_. write_length_prefixed payload))))))"
  have "Apdu_encode (block_apdu ObGet i l n payload) = ?w"
    by (simp add: block_apdu_def Apdu_encode_def DataBlockG_encode_def)
  moreover have "writes ?w ([0xC4] @ [2] @ [invoke_byte i] @ [of_bool l] @ be_bytes 4 n @ [0] @ prefixed payload)"
    by (intro writes_seq writes_u8 writes_u32 writes_prefixed short)
  ultimately show "writes (Apdu_encode (block_apdu ObGet i l n payload)) (block_image i l n payload)"
    by (simp add: block_image_def)
  have "length (len_bytes (length payload)) \<le> Suc 2" using assms by (intro length_len_bytes) simp_all
  then show "length (block_image i l n payload) \<le> length payload + 12" by (simp add: block_image_def prefixed_def)
qed

lemma block_read_back:
  assumes "length payload < 2 ^ 16"
  shows "from_bytes Apdu_decode (block_image i l n payload) =
    Inr (ApGetResponse (GetRspWithDataBlock i \<lparr>dbg_last_block = l, dbg_block_number = n, dbg_result = Inr payload\<rparr>))"
proof -
  have "Apdu_valid (block_apdu ObGet i l n payload)"
    using assms by (simp add: block_apdu_def DataBlockG_valid_def short_field_def)
  from codes_round_trip [OF codes_apdu [OF this]] obtain bs y where
    bs: "Apdu_encode (block_apdu ObGet i l n payload) (VecW []) = (Inr (), VecW bs)" "from_bytes Apdu_decode bs = Inr y"
      "Apdu_abs y = Apdu_abs (block_apdu ObGet i l n payload)" by blast
  have "bs = block_image i l n payload" using writes_VecW [OF block_writes(1) [OF assms], of i l n "[]"] bs(1) by simp
  moreover have "y = block_apdu ObGet i l n payload"
    using bs(3) by (cases y; simp add: block_apdu_def; rename_tac g; case_tac g; simp)
  ultimately show ?thesis using bs(2) by (simp add: block_apdu_def)
qed

text \<open>
  A client that reads an attribute and, as long as the answers are blocks and not the last one, asks for the next: the bytes it
  collects.  \<open>None\<close>: an answer was none, or not a block, or the fuel ran out.
\<close>

fun fetch :: "nat \<Rightarrow> 's Env \<Rightarrow> GetRequest \<Rightarrow> 's Server \<Rightarrow> bytes \<Rightarrow> bytes option" where
  "fetch 0 env q s out = None"
| "fetch (Suc fuel) env q s out =
     (case handle_get env q s out of
        (Inl _, _, _) \<Rightarrow> None
      | (Inr n, s', out') \<Rightarrow>
          (case from_bytes Apdu_decode (take n out') of
             Inr (ApGetResponse (GetRspWithDataBlock i b)) \<Rightarrow>
               (case dbg_result b of
                  Inl _ \<Rightarrow> None
                | Inr raw \<Rightarrow>
                    if dbg_last_block b then Some raw
                    else map_option ((@) raw) (fetch fuel env (GetNext i (dbg_block_number b)) s' out'))
           | _ \<Rightarrow> None))"

text \<open>A server in the middle of sending, without protection, and with a client that takes blocks the server can build.\<close>

definition sending :: "'s Server \<Rightarrow> InvokeId \<Rightarrow> nat \<Rightarrow> nat \<Rightarrow> u32 \<Rightarrow> bool" where
  "sending s i len sent block \<longleftrightarrow> sv_state s = SsAssociated \<and> agreed s GET \<and> SecurityPolicy_is_none (sc_security (sv_config s)) \<and>
     sv_transfer s = TrSending i ObGet len sent block \<and> sent < len \<and> len \<le> sv_N s \<and> length (sv_scratch s) = sv_N s \<and>
     14 < unat (sv_client_max_pdu_size s) \<and> unat (sv_client_max_pdu_size s) \<le> sv_N s"

lemma send_block:
  assumes "SecurityPolicy_is_none (sc_security (sv_config s))" "length payload + 12 \<le> unat (sv_client_max_pdu_size s)"
    "unat (sv_client_max_pdu_size s) \<le> length (sv_scratch s)" "unat (sv_client_max_pdu_size s) \<le> length out"
  shows "\<exists>scratch. length scratch = length (sv_scratch s) \<and> send (block_apdu ObGet i l n payload) s out =
    (Inr (length (block_image i l n payload)), s\<lparr>sv_scratch := scratch\<rparr>,
     block_image i l n payload @ drop (length (block_image i l n payload)) out)"
proof -
  let ?img = "block_image i l n payload"
  have "unat (sv_client_max_pdu_size s) < 2 ^ 16" using unat_bound [of "sv_client_max_pdu_size s"] by simp
  then have short: "length payload < 2 ^ 16" using assms(2) by linarith
  note w = block_writes [OF short, of i l n]
  have fits: "length ?img \<le> length (sv_scratch s)" "length ?img \<le> length out" "\<not> unat (sv_client_max_pdu_size s) < length ?img"
    using w(2) assms(2-4) by simp_all
  have "send (block_apdu ObGet i l n payload) s out = (Inr (length ?img),
      s\<lparr>sv_scratch := ?img @ drop (length ?img) (sv_scratch s)\<rparr>, ?img @ drop (length ?img) out)"
    unfolding send_def encode_into_fits [OF w(1) fits(1)] using assms(1) fits
    by (simp add: Let_def check_fits_def emit_def encode_into_fits [OF writes_bytes fits(2)])
  then show ?thesis using fits(1) by (intro exI [of _ "?img @ drop (length ?img) (sv_scratch s)"]) simp
qed

lemma fetch_block:
  assumes "sending s i len sent block" "unat (sv_client_max_pdu_size s) \<le> length out"
  obtains e n payload t out' where "sent < e" "e \<le> len" "payload = take (e - sent) (drop sent (sv_response s))" "length payload < 2 ^ 16"
    "send_next_block s out = (Inr n, t, out')" "take n out' = block_image i (e = len) (sat_inc block) payload" "length out' = length out"
    "sv_response t = sv_response s" "sv_client_max_pdu_size t = sv_client_max_pdu_size s" "e < len \<Longrightarrow> sending t i len e (sat_inc block)"
proof -
  define e where "e = min (sent + max_fragment s) len"
  define payload where "payload = take (e - sent) (drop sent (sv_response s))"
  note s = assms(1) [unfolded sending_def]
  have max1: "0 < max_fragment s" "max_fragment s + 14 \<le> unat (sv_client_max_pdu_size s)"
    using s by (auto simp: max_fragment_def protection_overhead_def BLOCK_HEADER_MAX_def)
  have e: "sent < e" "e \<le> len" "e - sent \<le> max_fragment s" using s max1(1) by (auto simp: e_def)
  have payload: "slice (sv_response s) sent e = Some payload" "length payload \<le> max_fragment s"
    using e s by (auto simp: slice_def payload_def)
  obtain scratch where send: "length scratch = length (sv_scratch s)"
    "send (block_apdu ObGet i (e = len) (sat_inc block) payload) s out =
      (Inr (length (block_image i (e = len) (sat_inc block) payload)), s\<lparr>sv_scratch := scratch\<rparr>,
       block_image i (e = len) (sat_inc block) payload @ drop (length (block_image i (e = len) (sat_inc block) payload)) out)"
    using send_block [of s payload out i "e = len" "sat_inc block"] s payload(2) max1 assms(2) by auto
  have "unat (sv_client_max_pdu_size s) < 2 ^ 16" using unat_bound [of "sv_client_max_pdu_size s"] by simp
  then have short: "length payload < 2 ^ 16" using payload(2) max1 by linarith
  from block_writes(2) [OF short, of i "e = len" "sat_inc block"]
  have img: "length (block_image i (e = len) (sat_inc block) payload) \<le> length out" using payload(2) max1 assms(2) by linarith
  have room: "\<not> sv_N s < e - sent" using e(2) s by linarith
  have next1: "send_next_block s out = (Inr (length (block_image i (e = len) (sat_inc block) payload)),
      s\<lparr>sv_scratch := scratch, sv_transfer := (if e = len then TrIdle else TrSending i ObGet len e (sat_inc block))\<rparr>,
      block_image i (e = len) (sat_inc block) payload @ drop (length (block_image i (e = len) (sat_inc block) payload)) out)"
    using s room max1(1) unfolding send_next_block_def by (simp add: Let_def e_def [symmetric] payload(1) send(2))
  show thesis
    by (rule that [OF e(1,2) payload_def short next1]) (use s img send(1) e in \<open>auto simp: sending_def agreed_def\<close>)
qed

text \<open>Asking for the next block until the last one, from anywhere inside a transfer.\<close>

lemma fetch_rest:
  assumes "sending s i len sent block" "unat (sv_client_max_pdu_size s) \<le> length out" "len - sent \<le> fuel"
  shows "fetch fuel env (GetNext i block) s out = Some (take (len - sent) (drop sent (sv_response s)))"
  using assms
proof (induction fuel arbitrary: s sent block out)
  case (Suc fuel)
  obtain e n payload t out' where b: "sent < e" "e \<le> len" "payload = take (e - sent) (drop sent (sv_response s))" "length payload < 2 ^ 16"
    "send_next_block s out = (Inr n, t, out')" "take n out' = block_image i (e = len) (sat_inc block) payload" "length out' = length out"
    "sv_response t = sv_response s" "sv_client_max_pdu_size t = sv_client_max_pdu_size s" "e < len \<Longrightarrow> sending t i len e (sat_inc block)"
    using fetch_block [OF Suc.prems(1,2)] by metis
  have run: "handle_get env (GetNext i block) s out = (Inr n, t, out')"
    using Suc.prems(1) b(5) by (simp add: handle_get_def handle_get_next_def sending_def)
  show ?case
  proof (cases "e = len")
    case True
    then show ?thesis using b(3,4,6) run by (simp add: block_read_back)
  next
    case False
    then have "fetch fuel env (GetNext i (sat_inc block)) t out' = Some (take (len - e) (drop e (sv_response s)))"
      using Suc.IH [of t e "sat_inc block" out'] Suc.prems b by simp
    moreover have "payload @ take (len - e) (drop e (sv_response s)) = take (len - sent) (drop sent (sv_response s))"
    proof -
      have "take (len - sent) (drop sent (sv_response s)) = take (e - sent + (len - e)) (drop sent (sv_response s))" using b(1,2) by simp
      also have "\<dots> = payload @ take (len - e) (drop e (sv_response s))" using b(1) by (simp only: take_add b(3) drop_drop) simp
      finally show ?thesis by simp
    qed
    ultimately show ?thesis using False b(4,6) run by (simp add: block_read_back)
  qed
qed (simp add: sending_def)

text \<open>C7: A value too large for one answer reaches the client whole from a server that does not cipher: reading an attribute whose value the
  object writes, and asking for the next block until the last, collects exactly the bytes the object wrote, in no more
  exchanges than the value has bytes and one.  The association is open and agreed on GET and on block transfer for it, the client may read the
  attribute, the value is longer than the size the client takes less four and no longer than the server's buffer, and that size
  is more than 14, which leaves room for a fragment, and no more than the server's buffer and the output buffer; both
  buffers of the server have the one size \<open>N\<close> of the code.\<close>

theorem blocked_get_delivers_value:
  assumes "sv_state s = SsAssociated" "agreed s GET" "agreed s BLOCK_TRANSFER_WITH_GET_OR_READ" "SecurityPolicy_is_none (sc_security (sv_config s))"
    "length (sv_scratch s) = sv_N s" "14 < unat (sv_client_max_pdu_size s)" "unat (sv_client_max_pdu_size s) \<le> sv_N s"
    "unat (sv_client_max_pdu_size s) \<le> length out"
    "can_read (rights_of env (sv_store s) d)" "get_attribute env (sv_store s) d access (SliceW (SliceWriter_new (replicate (sv_N s) 0))) = (Inr (), vw)"
    "written vw = length v" "take (length v) (wr_buf vw) = v" "unat (sv_client_max_pdu_size s) < length v + 4" "length v \<le> sv_N s"
  shows "fetch (Suc (length v)) env (GetNormal i d access) s out = Some v"
proof -
  define t where "t = (audit_read env d DarSuccess (s\<lparr>sv_transfer := TrIdle\<rparr>))
    \<lparr>sv_response := overwrite (sv_response s) 0 v, sv_transfer := TrSending i ObGet (length v) 0 0\<rparr>"
  have "0 < length v" using assms(6,13) by linarith
  then have t: "sending t i (length v) 0 0" "take (length v) (sv_response t) = v" "sv_client_max_pdu_size t = sv_client_max_pdu_size s"
    using assms by (simp_all add: sending_def t_def audit_read_def audit_def agreed_def)
  have "v \<noteq> []" using \<open>0 < length v\<close> by simp
  then have start: "handle_get env (GetNormal i d access) s out = send_next_block t out"
    using assms by (simp add: handle_get_def get_normal_def Let_def t_def NORMAL_HEADER_MAX_def protection_overhead_def audit_read_def audit_def agreed_def)
  have "handle_get env (GetNext i 0) t out = send_next_block t out"
    using t(1) by (simp add: handle_get_def handle_get_next_def sending_def)
  then have "fetch (Suc (length v)) env (GetNormal i d access) s out = fetch (Suc (length v)) env (GetNext i 0) t out"
    by (simp add: start)
  then show ?thesis using fetch_rest [OF t(1), of out "Suc (length v)" env] assms(8) t by simp
qed

theorem blocked_get_delivers_value_witness:
  "fetch 21 ((demo_env 3 1)\<lparr>env_get_attribute := (\<lambda>store c i a sel w. map_prod (map_sum (\<lambda>_. DarOtherReason) id) id (write_bytes (0x09 # 18 # replicate 18 7) w))\<rparr>)
     (GetNormal (InvokeId 0x41) (AttributeDescriptor_new 3 (Obis_new 1 0 1 8 0 255) 2) None) (demo_open\<lparr>sv_client_max_pdu_size := 20\<rparr>) (replicate 30 0) =
   Some (0x09 # 18 # replicate 18 7)"
proof -
  let ?env = "(demo_env 3 1)\<lparr>env_get_attribute := (\<lambda>store c i a sel w. map_prod (map_sum (\<lambda>_. DarOtherReason) id) id (write_bytes (0x09 # 18 # replicate 18 7) w))\<rparr>"
  let ?s = "demo_open\<lparr>sv_client_max_pdu_size := 20\<rparr>" and ?d = "AttributeDescriptor_new 3 (Obis_new 1 0 1 8 0 255) 2" and ?v = "0x09 # 18 # replicate 18 (7 :: u8)"
  have agreed: "agreed demo_open GET" "agreed demo_open BLOCK_TRANSFER_WITH_GET_OR_READ" by code_simp+
  have s: "sv_state ?s = SsAssociated" "SecurityPolicy_is_none (sc_security (sv_config ?s))" "length (sv_scratch ?s) = sv_N ?s" "sv_N ?s = 64"
    "agreed ?s GET" "agreed ?s BLOCK_TRANSFER_WITH_GET_OR_READ"
    using agreed by (simp_all add: agreed_def demo_open_def demo_server_def Server_new_def demo_config_def SecurityPolicy_NONE_def SecurityPolicy_is_none_def)
  have "wr_room (SliceW (SliceWriter_new (replicate 64 0))) (length ?v)" by (simp add: SliceWriter_new_def)
  from wr.put_fits [OF this] have w: "write_bytes ?v (SliceW (SliceWriter_new (replicate 64 0))) = (Inr (), wr_after (SliceW (SliceWriter_new (replicate 64 0))) ?v)" .
  have "get_attribute ?env (sv_store ?s) ?d None (SliceW (SliceWriter_new (replicate (sv_N ?s) 0))) = (Inr (), wr_after (SliceW (SliceWriter_new (replicate 64 0))) ?v)"
    unfolding s(4) by (simp add: get_attribute_def w del: write_bytes.simps)
  moreover have "can_read (rights_of ?env (sv_store ?s) ?d)" by (simp add: rights_of_def demo_env_def can_read_def AA_READ_def)
  moreover have "written (wr_after (SliceW (SliceWriter_new (replicate 64 0))) ?v) = length ?v"
    "take (length ?v) (wr_buf (wr_after (SliceW (SliceWriter_new (replicate 64 0))) ?v)) = ?v"
    by (simp_all add: SliceWriter_new_def overwrite_def)
  ultimately show ?thesis
    using blocked_get_delivers_value [of ?s "replicate 30 0" ?env ?d None "wr_after (SliceW (SliceWriter_new (replicate 64 0))) ?v" ?v "InvokeId 0x41"] s
    by simp
qed

end
