(* ===== verification/ServerReplies.thy ===== *)
theory ServerReplies
  imports Server Appends
begin

text \<open>
  What the replies of a serving server look like: none is longer than the client can receive; and two cases in which the reply is
  not what it should be.
\<close>

subsection \<open>No reply is too long\<close>

definition bounded :: "nat \<Rightarrow> 's reply \<Rightarrow> bool" where
  "bounded m rep \<longleftrightarrow> (case rep of (Inl _, _, _) \<Rightarrow> True | (Inr n, _, _) \<Rightarrow> n \<le> m)"

lemma bounded_simps [simp]: "bounded m (Inl e, t, out)" "bounded m (Inr n, t, out) \<longleftrightarrow> n \<le> m"
  by (simp_all add: bounded_def)

text \<open>\<open>small m t\<close>: the client of \<open>t\<close> takes no more than \<open>m\<close> bytes.\<close>

definition small :: "nat \<Rightarrow> 's Server \<Rightarrow> bool" where
  "small m t \<longleftrightarrow> unat (sv_client_max_pdu_size t) \<le> m \<and> 7 \<le> m"

lemma small_fields [simp]:
  "small m (t\<lparr>sv_store := a\<rparr>) = small m t" "small m (t\<lparr>sv_state := b\<rparr>) = small m t" "small m (t\<lparr>sv_transfer := c\<rparr>) = small m t"
  "small m (t\<lparr>sv_response := d\<rparr>) = small m t" "small m (t\<lparr>sv_scratch := d\<rparr>) = small m t" "small m (t\<lparr>sv_peer_replay := e\<rparr>) = small m t"
  "small m (t\<lparr>sv_invocation_counter := f\<rparr>) = small m t" "small m (audit env ev t) = small m t"
  by (simp_all add: small_def audit_def)

lemma small_fits: "small m t \<Longrightarrow> check_fits u n = Inr x \<Longrightarrow> sv_client_max_pdu_size u = sv_client_max_pdu_size t \<Longrightarrow> n \<le> m"
  by (auto simp: check_fits_def small_def split: if_splits)

lemma bounded_emit:
  assumes "writes f b" "length b \<le> m"
  shows "bounded m (emit f u out)"
proof (cases "length b \<le> length out")
  case True
  then show ?thesis using assms(2) by (simp add: emit_def encode_into_fits [OF assms(1)])
next
  case False
  then obtain n off out' where "encode_into f out = (Inl (Error_new (BufferTooSmall n) off), out')"
    using encode_into_full [OF assms(1), of out] by auto
  then show ?thesis by (simp add: emit_def)
qed

lemma bounded_send: "small m t \<Longrightarrow> bounded m (send apdu t out)"
proof -
  assume t: "small m t"
  have plain: "bounded m (emit (write_bytes (take n b)) u out)" if "check_fits (t\<lparr>sv_scratch := scratch\<rparr>) n = Inr x" for n b u x scratch
    using small_fits [OF t that] by (intro bounded_emit [OF writes_bytes]) auto
  obtain r scratch where enc: "encode_into (Apdu_encode apdu) (sv_scratch t) = (r, scratch)" by fastforce
  show ?thesis unfolding send_def enc prod.case Let_def
    by (auto split: prod.splits sum.split option.split intro: plain dest: small_fits [OF t])
qed

lemma bounded_exceptions:
  assumes "small m t"
  shows "bounded m (exception a b t out)" "bounded m (counter_exception c t out)"
proof -
  have "writes (Apdu_encode (exception_apdu a b None)) ([0xD8] @ [StateError_as_u8 a] @ [ServiceError_as_u8 b] @ [])"
    "writes (Apdu_encode (exception_apdu a b (Some c))) ([0xD8] @ [StateError_as_u8 a] @ [ServiceError_as_u8 b] @ be_bytes 4 c)" for a b
    by (simp_all only: exception_apdu_def Apdu_encode_def Apdu.case ExceptionResponse_encode_def Apdu_encode_body.simps Apdu_tag.simps if_False
      ApduTag_as_u8.simps ExceptionResponse.simps option.case)
      (intro writes_seq writes_u8 writes_u32 writes_ok)+
  then have w: "3 \<le> m \<Longrightarrow> bounded m (emit (Apdu_encode (exception_apdu a b None)) u out)"
    "7 \<le> m \<Longrightarrow> bounded m (emit (Apdu_encode (exception_apdu a b (Some c))) u out)" for a b and u :: "'a Server"
    by (auto intro!: bounded_emit)
  show "bounded m (exception a b t out)"
    unfolding exception_def Let_def using assms by (auto simp: small_def intro: w(1) bounded_send)
  show "bounded m (counter_exception c t out)"
    unfolding counter_exception_def using assms by (intro w(2)) (simp add: small_def)
qed

lemmas bounded_answers = bounded_send bounded_exceptions

lemma bounded_errors:
  "small m t \<Longrightarrow> bounded m (get_error i e t out)" "small m t \<Longrightarrow> bounded m (action_error i a t out)"
  "small m t \<Longrightarrow> bounded m (set_error i e t out)" "small m t \<Longrightarrow> bounded m (set_last_block i e n t out)"
  "small m t \<Longrightarrow> bounded m (outbound_error v i e a t out)"
  by (auto simp: get_error_def action_error_def set_error_def set_last_block_def outbound_error_def split: Outbound.split intro: bounded_send)

lemma bounded_then:
  assumes "bounded m rep"
  shows "bounded m (case rep of (Inl e, u, out) \<Rightarrow> (Inl e, u, out) | (Inr n, u, out) \<Rightarrow> (Inr n, f u, out))"
  using assms by (cases rep; cases "fst rep") auto

lemma bounded_next_block: "small m t \<Longrightarrow> bounded m (send_next_block t out)"
  unfolding send_next_block_def Let_def
  by (auto split: Transfer.split intro!: bounded_answers bounded_errors bounded_then)

lemma bounded_deliver: "small m t \<Longrightarrow> bounded m (deliver_blocked i v n t out)"
  unfolding deliver_blocked_def Let_def by (auto intro!: bounded_errors bounded_next_block)

lemmas bounded_parts = bounded_answers bounded_errors bounded_next_block bounded_deliver

lemma small_with_buffer [simp]: "with_buffer n f t = (r, u) \<Longrightarrow> small m u \<longleftrightarrow> small m t"
  by (auto simp: with_buffer_def split: prod.splits sum.splits)

lemma bounded_get: "small m t \<Longrightarrow> bounded m (handle_get env q t out)"
  by (auto simp: handle_get_def get_normal_def handle_get_next_def handle_get_with_list_def audit_read_def Let_def
    split: GetRequest.split sum.split prod.split Transfer.split Outbound.split intro!: bounded_parts)

lemma bounded_finish: "small m t \<Longrightarrow> bounded m (finish_blocked_list_set env i h l n t out)" "small m t \<Longrightarrow> bounded m (finish_blocked_set env i d h l n t out)"
  by (auto simp: finish_blocked_list_set_def finish_blocked_set_def Let_def split: sum.split prod.split intro!: bounded_parts)

lemma bounded_continue_set: "small m t \<Longrightarrow> bounded m (continue_blocked_set env i b t out)"
  unfolding continue_blocked_set_def Let_def by (auto split: Transfer.split intro!: bounded_parts bounded_finish)

lemma bounded_set: "small m t \<Longrightarrow> bounded m (handle_set env q t out)"
  by (auto simp: handle_set_def begin_blocked_set_def begin_blocked_list_set_def handle_set_with_list_def Let_def
    split: SetRequest.split sum.split prod.split option.split intro!: bounded_parts bounded_continue_set)

lemma bounded_invoke: "small m t \<Longrightarrow> bounded m (invoke_and_answer env i d p t out)"
  by (auto simp: invoke_and_answer_def answer_method_def Let_def split: sum.split prod.split bool.split intro!: bounded_parts)

lemma small_hls: "try_bind (\<lambda>s. (own_title s, s)) (\<lambda>title. try_bind next_counter (\<lambda>ic. try_bind (\<lambda>s. (auth_key s, s)) (\<lambda>ak s. (g title ic ak s, s)))) t = (r, u) \<Longrightarrow>
    small m u \<longleftrightarrow> small m t"
  by (auto simp: try_bind_def next_counter_def split: sum.splits prod.splits)

lemma bounded_action: "small m t \<Longrightarrow> bounded m (handle_action env q t out)"
proof -
  assume t: "small m t"
  have continue1: "small m t \<Longrightarrow> bounded m (continue_blocked_action env i b t out)" for i b t out
    unfolding continue_blocked_action_def Let_def by (auto split: Transfer.split sum.split intro!: bounded_parts bounded_invoke)
  have hls: "bounded m (handle_hls_reply i d p t out)" for i d p
    unfolding handle_hls_reply_def Let_def using t
    by (auto split: option.split bool.split sum.split prod.split intro!: bounded_parts dest: small_hls [of _ t _ _ m])
  show ?thesis unfolding handle_action_def handle_action_next_def handle_action_with_list_def Let_def using t
    by (auto split: ActionRequest.split sum.split prod.split Transfer.split Outbound.split intro!: bounded_parts bounded_invoke continue1 hls)
qed

lemma bounded_access: "small m t \<Longrightarrow> bounded m (handle_access env q t out)"
  unfolding handle_access_def Let_def by (auto split: prod.splits sum.splits intro!: bounded_parts)

lemma bounded_dispatch: "small m t \<Longrightarrow> bounded m (dispatch env a t out)"
  unfolding dispatch_def
  by (cases a; simp only: Apdu.case) (auto intro: bounded_parts bounded_get bounded_set bounded_action bounded_access)

text \<open>C12: A server that serves an association never sends more than the client said it can receive: every reply to an APDU other than an
  association or release request is at most as long as the client's maximum, or seven bytes, which is what the longest bare
  exception takes.  Values that are longer leave in blocks or not at all.\<close>

theorem replies_fit_the_client:
  assumes "handle env apdu s out = (Inr n, s', out')"
    "ApduTag_from_u8 (hd apdu) \<noteq> Some AAarq" "ApduTag_from_u8 (hd apdu) \<noteq> Some AReleaseRequest"
  shows "n \<le> max (unat (sv_client_max_pdu_size s)) 7"
proof -
  let ?m = "max (unat (sv_client_max_pdu_size s)) 7"
  have s: "small ?m s" by (simp add: small_def)
  have service: "bounded ?m (handle_service env apdu s out)"
  proof -
    obtain r t where run: "unprotect_into apdu (replicate (sv_N s) 0) s = (r, t)" by fastforce
    then have "small ?m t" by (auto simp: unprotect_into_def Let_def small_def split: prod.splits)
    then show ?thesis using s unfolding handle_service_def run
      by (auto split: sum.split intro!: bounded_parts bounded_dispatch)
  qed
  have "bounded ?m (handle env apdu s out)"
  proof (cases apdu)
    case Nil
    have "ApduTag_from_u8 0 = None" by code_simp
    then show ?thesis using s Nil by (simp add: handle_def bounded_parts)
  next
    case (Cons b rest)
    then show ?thesis using assms(2,3) s service unfolding handle_def
      by (cases "ApduTag_from_u8 b") (auto intro!: bounded_parts split: ApduTag.split)
  qed
  then show ?thesis using assms(1) by simp
qed

theorem replies_fit_the_client_witness:
  "\<exists>n s' out'. handle (demo_env 3 1) demo_get demo_open (replicate 64 0) = (Inr n, s', out') \<and> n \<le> 1024"
proof -
  have "\<not> isl (fst (handle (demo_env 3 1) demo_get demo_open (replicate 64 0)))" by code_simp
  then obtain n s' out' where run: "handle (demo_env 3 1) demo_get demo_open (replicate 64 0) = (Inr n, s', out')"
    by (cases "handle (demo_env 3 1) demo_get demo_open (replicate 64 0)"; cases "fst (handle (demo_env 3 1) demo_get demo_open (replicate 64 0))") auto
  have "ApduTag_from_u8 (hd demo_get) = Some AGetRequest" by code_simp
  moreover have "unat (sv_client_max_pdu_size demo_open) = 1024" by code_simp
  ultimately show ?thesis using replies_fit_the_client [OF run] run by simp
qed

subsection \<open>A value that fits the buffer but not the answer\<close>

lemma octet_string_writes: "short_field b \<Longrightarrow> writes (Data_encode (DOctetString b)) (0x09 # prefixed b)"
  unfolding Data_encode_def using writes_seq [OF writes_u8 writes_prefixed, of b 9] by simp

lemma octet_string_read_back:
  assumes "short_field b"
  shows "from_bytes Data_decode (0x09 # prefixed b) = Inr (DOctetString b)"
proof -
  have "codes True (Data_encode (DOctetString b)) Data_decode (\<lambda>y. Data_abs y = Data_abs (DOctetString b))"
    using codes_Data [of "DOctetString b" True] assms by simp
  from codes_round_trip [OF this] obtain bs y where
    bs: "Data_encode (DOctetString b) (VecW []) = (Inr (), VecW bs)" "from_bytes Data_decode bs = Inr y" "Data_abs y = Data_abs (DOctetString b)" by blast
  have "bs = 0x09 # prefixed b" using writes_VecW [OF octet_string_writes [OF assms], of "[]"] bs(1) by simp
  moreover have "y = DOctetString b" using bs(3) by (cases y) simp_all
  ultimately show ?thesis using bs(2) by simp
qed

text \<open>The buffer that bounds a value does not hold the answer around it.  The documentation of the server lets a value have as many bytes as
  the buffer.  A value of the last four sizes, which the client could receive in one answer, does not reach it: the exchange
  ends with an error that the buffer is too small, not with an answer the client could read.\<close>

theorem value_of_buffer_size_is_not_sent:
  assumes "sv_state s = SsAssociated" "agreed s GET" "length (sv_scratch s) = sv_N s"
    "can_read (rights_of env (sv_store s) d)" "get_attribute env (sv_store s) d access (SliceW (SliceWriter_new (replicate (sv_N s) 0))) = (Inr (), vw)"
    "written vw = length v" "take (length v) (wr_buf vw) = v" "v = 0x09 # prefixed b" "short_field b"
    "length v \<le> sv_N s" "sv_N s < length v + 4" "length v + 4 + protection_overhead s \<le> unat (sv_client_max_pdu_size s)"
  shows "\<exists>n off s' out'. handle_get env (GetNormal i d access) s out = (Inl (Error_new (BufferTooSmall n) off), s', out')"
proof -
  define t where "t = audit_read env d DarSuccess (s\<lparr>sv_transfer := TrIdle\<rparr>)"
  have t: "sv_N t = sv_N s" "agreed t = agreed s" "protection_overhead t = protection_overhead s" "sv_client_max_pdu_size t = sv_client_max_pdu_size s"
    by (simp_all add: t_def audit_read_def audit_def agreed_def [abs_def] protection_overhead_def)
  have enc: "writes (Data_encode (DOctetString b)) v" unfolding assms(8) by (rule octet_string_writes [OF assms(9)])
  have nonempty: "v \<noteq> []" using assms(8) by simp
  have dec: "from_bytes Data_decode v = Inr (DOctetString b)"
    using octet_string_read_back [OF assms(9)] assms(8) by simp
  let ?apdu = "ApGetResponse (GetRspNormal i (GdrData (DOctetString b)))"
  have "writes (Apdu_encode ?apdu) ([0xC4] @ [1] @ [invoke_byte i] @ [0] @ v)"
    using enc by (simp only: Apdu_encode_def Apdu.case if_False Apdu_tag.simps Apdu_encode_body.simps GetResponse_encode.simps GetDataResult_encode.simps ApduTag_as_u8.simps)
      (intro writes_seq writes_u8)
  from encode_into_full [OF this, of "sv_scratch t"] assms(3,11)
  obtain n off b' where full: "encode_into (Apdu_encode ?apdu) (sv_scratch t) = (Inl (Error_new (BufferTooSmall n) off), b')"
    by (auto simp: t_def audit_read_def audit_def)
  have "handle_get env (GetNormal i d access) s out = send ?apdu t out"
    using assms(1-7,10,12) dec t nonempty by (simp add: handle_get_def get_normal_def Let_def t_def [symmetric] NORMAL_HEADER_MAX_def)
  then show ?thesis by (simp add: send_def full)
qed

theorem value_of_buffer_size_is_not_sent_witness:
  "\<exists>n off s' out'. handle_get ((demo_env 3 1)\<lparr>env_get_attribute := (\<lambda>store c i a sel w. map_prod (map_sum (\<lambda>_. DarOtherReason) id) id (write_bytes ([0x09, 0x04, 1, 2, 3, 4]) w))\<rparr>)
     (GetNormal (InvokeId 0x41) (AttributeDescriptor_new 3 (Obis_new 1 0 1 8 0 255) 2) None) (demo_open\<lparr>sv_response := replicate 8 0, sv_scratch := replicate 8 0\<rparr>) (replicate 8 0) = (Inl (Error_new (BufferTooSmall n) off), s', out')"
proof -
  let ?env = "(demo_env 3 1)\<lparr>env_get_attribute := (\<lambda>store c i a sel w. map_prod (map_sum (\<lambda>_. DarOtherReason) id) id (write_bytes ([0x09, 0x04, 1, 2, 3, 4]) w))\<rparr>"
  let ?s = "demo_open\<lparr>sv_response := replicate 8 0, sv_scratch := replicate 8 0\<rparr>"
  let ?d = "AttributeDescriptor_new 3 (Obis_new 1 0 1 8 0 255) 2" and ?v = "[0x09, 0x04, 1, 2, 3, 4 :: u8]"
  let ?vw = "wr_after (SliceW (SliceWriter_new (replicate 8 0))) ?v"
  have "agreed demo_open GET" "sv_client_max_pdu_size demo_open = 1024" "protection_overhead demo_open = 0" by code_simp+
  then have s: "sv_state ?s = SsAssociated" "agreed ?s GET" "length (sv_scratch ?s) = sv_N ?s" "sv_N ?s = 8"
    "protection_overhead ?s = 0" "unat (sv_client_max_pdu_size ?s) = 1024"
    by (simp_all add: agreed_def protection_overhead_def) (simp add: demo_open_def)
  have "wr_room (SliceW (SliceWriter_new (replicate 8 0))) (length ?v)" by (simp add: SliceWriter_new_def)
  from wr.put_fits [OF this] have w: "write_bytes ?v (SliceW (SliceWriter_new (replicate 8 0))) = (Inr (), ?vw)" .
  have att: "get_attribute ?env (sv_store ?s) ?d None (SliceW (SliceWriter_new (replicate (sv_N ?s) 0))) = (Inr (), ?vw)"
    unfolding s(4) by (simp add: get_attribute_def w del: write_bytes.simps)
  have read: "can_read (rights_of ?env (sv_store ?s) ?d)" by (simp add: rights_of_def demo_env_def can_read_def AA_READ_def)
  have vw: "written ?vw = length ?v" "take (length ?v) (wr_buf ?vw) = ?v"
    by (simp_all add: SliceWriter_new_def overwrite_def)
  have b: "?v = 0x09 # prefixed [1, 2, 3, 4]" "short_field [1, 2, 3, 4 :: u8]"
    by (simp_all add: prefixed_def len_bytes_def short_field_def)
  show ?thesis
    by (rule value_of_buffer_size_is_not_sent [OF s(1-3) read att vw b]) (unfold s(4-6), simp_all)
qed

subsection \<open>A method that answers nothing\<close>

text \<open>An ACCESS request for one method, and an object whose method reports a return value and writes none.\<close>

definition demo_access :: bytes where
  "demo_access = [0xD9, 0x40, 0, 0, 1, 0, 1, 3, 0, 3, 1, 0, 1, 8, 0, 255, 1, 1, 0]"

definition silent_env :: "nat Env" where
  "silent_env = (demo_env 3 1)\<lparr>env_invoke_method := (\<lambda>store c i m p w. (Inr True, store, w))\<rparr>"

text \<open>An ACCESS response can come out unreadable: when an object reports that its method returns a value and writes none, which the
  plain ACTION service answers with an access result, the ACCESS service puts nothing at the method's place in the list of
  results, and the response does not decode.\<close>

theorem silent_method_spoils_access_response:
  "case handle silent_env demo_access demo_open (replicate 64 0) of
     (Inr n, s', out') \<Rightarrow> isl (from_bytes Apdu_decode (take n out'))
   | (Inl e, _, _) \<Rightarrow> False"
  by code_simp

end
