(* ===== verification/Client.thy ===== *)
theory Client
  imports Apdu ApduProtection
begin

text \<open>
  The client's end of an association (\<^verbatim>\<open>client/session.rs\<close>, without the feature \<^verbatim>\<open>sn\<close>).  The session produces requests and
  consumes what comes back; the caller moves the bytes.  A request function takes the session and the output buffer and returns
  the result with both as it leaves them.  The dedicated key of the crypto provider and its random source are the argument
  \<open>ClientEnv\<close>.
\<close>

subsection \<open>State\<close>

record ClientEnv =
  ce_dedicated_key :: "CryptoProvider \<Rightarrow> bytes option"
  ce_random :: "bytes \<Rightarrow> unit result \<times> bytes"

definition PLAIN_FROM_SERVER :: "ApduTag list" where
  "PLAIN_FROM_SERVER = [AAare, AReleaseResponse, AExceptionResponse]"

definition CLIENT_PLAIN_INITIATE :: "ApduTag list" where
  "CLIENT_PLAIN_INITIATE = [AInitiateResponse, AConfirmedServiceError]"

datatype SessionState = SnIdle | SnAssociating | SnAuthenticatingHls | SnAssociated | SnReleasing | SnClosed

datatype AssociationStep =
    StepEstablished
  | StepHlsReplyRequired
  | StepRejected AssociationResult Diagnostic
  | StepException ExceptionResponse

datatype Response =
    RsData Data
  | RsDataList WireList
  | RsDataError DataAccessResult
  | RsBlock bool u32 bytes
  | RsResultList WireList
  | RsActionResults WireList
  | RsBlockAccepted u32
  | RsAccess WireList WireList
  | RsOk
  | RsActionResult ActionResult "Data option"
  | RsException ExceptionResponse
  | RsReleased

record ClientConfig =
  cc_client_sap :: u8
  cc_system_title :: "SystemTitle option"
  cc_mechanism :: AuthMechanism
  cc_password :: "Secret option"
  cc_security :: SecurityPolicy
  cc_max_pdu_size :: u16
  cc_conformance :: Conformance
  cc_referencing :: Referencing
  cc_challenge_len :: nat
  cc_invocation_counter :: u32
  cc_replay_window :: u32

definition ClientConfig_default :: ClientConfig where
  "ClientConfig_default = \<lparr>cc_client_sap = 0x10, cc_system_title = None, cc_mechanism = AmNone, cc_password = None,
     cc_security = SecurityPolicy_NONE, cc_max_pdu_size = 1024, cc_conformance = CLIENT_DEFAULT, cc_referencing = RefLogicalName,
     cc_challenge_len = 16, cc_invocation_counter = 0, cc_replay_window = 0\<rparr>"

record ClientSession =
  cl_config :: ClientConfig
  cl_protector :: Protector
  cl_state :: SessionState
  cl_invoke_id :: u8
  cl_outstanding :: "InvokeId option"
  cl_invocation_counter :: InvocationCounter
  cl_peer_replay :: ReplayWindow
  cl_negotiated :: "InitiateResponse option"
  cl_server_system_title :: "SystemTitle option"
  cl_client_challenge :: bytes
  cl_client_challenge_len :: nat
  cl_server_challenge :: bytes
  cl_server_challenge_len :: nat
  cl_scratch :: bytes

abbreviation cl_N :: "ClientSession \<Rightarrow> nat" where
  "cl_N s \<equiv> length (cl_scratch s)"

definition ClientSession_new :: "nat \<Rightarrow> ClientConfig \<Rightarrow> CryptoProvider \<Rightarrow> ClientSession" where
  "ClientSession_new N config provider =
     \<lparr>cl_config = config,
      cl_protector = \<lparr>pr_provider = provider, pr_policy = SecurityPolicy_global (cc_security config)\<rparr>,
      cl_state = SnIdle, cl_invoke_id = 0, cl_outstanding = None,
      cl_invocation_counter = InvocationCounter_new (cc_invocation_counter config),
      cl_peer_replay = ReplayWindow_new (cc_replay_window config),
      cl_negotiated = None, cl_server_system_title = None,
      cl_client_challenge = replicate 64 0, cl_client_challenge_len = 0,
      cl_server_challenge = replicate 64 0, cl_server_challenge_len = 0,
      cl_scratch = replicate N 0\<rparr>"

definition Client_invocation_counter :: "ClientSession \<Rightarrow> u32" where
  "Client_invocation_counter s = InvocationCounter_get (cl_invocation_counter s)"

definition set_invocation_counter :: "u32 \<Rightarrow> ClientSession \<Rightarrow> ClientSession" where
  "set_invocation_counter v s = s\<lparr>cl_invocation_counter := InvocationCounter_new v\<rparr>"

definition Client_peer_invocation_counter :: "ClientSession \<Rightarrow> u32 option" where
  "Client_peer_invocation_counter s = rw_highest (cl_peer_replay s)"

subsection \<open>Small steps\<close>

definition error_if :: "bool \<Rightarrow> ErrorKind \<Rightarrow> ('st, unit) op" where
  "error_if b kind = (if b then fail (Error_new kind 0) else ok ())"

definition need :: "ErrorKind \<Rightarrow> 'a option \<Rightarrow> ('st, 'a) op" where
  "need kind v = (case v of None \<Rightarrow> fail (Error_new kind 0) | Some x \<Rightarrow> ok x)"

definition require_associated :: "(ClientSession, unit) op" where
  "require_associated s = error_if (cl_state s \<noteq> SnAssociated) UnexpectedMessage s"

definition require_conformance :: "Conformance \<Rightarrow> (ClientSession, unit) op" where
  "require_conformance required s =
     (case cl_negotiated s of
        Some n \<Rightarrow> lift_res (Conformance_require (is_negotiated_conformance n) required) s
      | None \<Rightarrow> (Inr (), s))"

definition general_protection_agreed :: "ClientSession \<Rightarrow> bool" where
  "general_protection_agreed s \<longleftrightarrow>
     (case cl_negotiated s of None \<Rightarrow> False | Some n \<Rightarrow> Conformance_contains (is_negotiated_conformance n) GENERAL_PROTECTION)"

definition client_auth_key :: "(ClientSession, bytes) op" where
  "client_auth_key s = need Unsupported (Protector_auth_key (cl_protector s)) s"

definition client_title :: "(ClientSession, SystemTitle) op" where
  "client_title s = need UnexpectedMessage (cc_system_title (cl_config s)) s"

definition client_next_counter :: "(ClientSession, u32) op" where
  "client_next_counter s = (case InvocationCounter_next (cl_invocation_counter s) of
     (r, counter) \<Rightarrow> (r, s\<lparr>cl_invocation_counter := counter\<rparr>))"

definition next_invoke_id :: "(ClientSession, InvokeId) op" where
  "next_invoke_id s =
     (let n = (cl_invoke_id s + 1) AND 0x0F; id1 = InvokeId_confirmed n
      in (Inr id1, s\<lparr>cl_invoke_id := n, cl_outstanding := Some id1\<rparr>))"

definition next_long_invoke_id :: "(ClientSession, LongInvokeId) op" where
  "next_long_invoke_id s =
     (let n = (cl_invoke_id s + 1) AND 0x0F
      in (Inr (LongInvokeId_confirmed (LongInvokeId_new (ucast n))), s\<lparr>cl_invoke_id := n, cl_outstanding := None\<rparr>))"

definition outstanding_id :: "(ClientSession, InvokeId) op" where
  "outstanding_id s = need UnexpectedMessage (cl_outstanding s) s"

definition application_context :: "ClientSession \<Rightarrow> ApplicationContext" where
  "application_context s =
     ApplicationContext_for_referencing (cc_referencing (cl_config s)) (\<not> SecurityPolicy_is_none (cc_security (cl_config s)))"

definition CLIENT_HEADER_MAX :: nat where
  "CLIENT_HEADER_MAX = 1 + 1 + 1 + 9 + 1 + 1 + 4 + 5"

definition CLIENT_PROTECTION_MAX :: nat where
  "CLIENT_PROTECTION_MAX = 1 + 5 + 1 + 4 + 12"

definition max_fragment_less :: "nat \<Rightarrow> (ClientSession, nat) op" where
  "max_fragment_less extra s =
     (let overhead = (if SecurityPolicy_is_none (cc_security (cl_config s)) then 0 else CLIENT_PROTECTION_MAX);
          ceiling = (case cl_negotiated s of None \<Rightarrow> cc_max_pdu_size (cl_config s) | Some n \<Rightarrow> is_server_max_receive_pdu_size n);
          fragment = min (unat ceiling - CLIENT_HEADER_MAX - overhead - extra) (cl_N s)
      in (if fragment = 0 then Inl (Error_new InvalidLength 0) else Inr fragment, s))"

definition client_max_fragment :: "(ClientSession, nat) op" where
  "client_max_fragment = max_fragment_less 0"

subsection \<open>Sending and receiving\<close>

definition send_plain :: "nat \<Rightarrow> ClientSession \<Rightarrow> bytes \<Rightarrow> nat result \<times> ClientSession \<times> bytes" where
  "send_plain plain_len s out =
     (let plain = take plain_len (cl_scratch s) in
      if SecurityPolicy_is_none (cc_security (cl_config s)) then
        (case encode_into (write_bytes plain) out of (r, out) \<Rightarrow> (r, s, out))
      else
        (case try_bind client_title (\<lambda>title. try_bind client_next_counter (\<lambda>ic. ok (title, ic))) s of
           (Inl e, s) \<Rightarrow> (Inl e, s, out)
         | (Inr (title, ic), s) \<Rightarrow>
             (let ctx = \<lparr>og_system_title = title, og_invocation_counter = ic,
                   og_auth_key = Protector_auth_key (cl_protector s), og_policy = pr_policy (cl_protector s),
                   og_general_allowed = general_protection_agreed s\<rparr>
              in case protect_apdu (cl_protector s) ctx plain out of (r, out) \<Rightarrow> (r, s, out))))"

definition client_send :: "Apdu \<Rightarrow> ClientSession \<Rightarrow> bytes \<Rightarrow> nat result \<times> ClientSession \<times> bytes" where
  "client_send apdu s out =
     (case encode_into (Apdu_encode apdu) (cl_scratch s) of
        (Inl e, scratch) \<Rightarrow> (Inl e, s\<lparr>cl_scratch := scratch\<rparr>, out)
      | (Inr plain_len, scratch) \<Rightarrow> send_plain plain_len (s\<lparr>cl_scratch := scratch\<rparr>) out)"

text \<open>A request: the checks and the APDU, then the sending of it.\<close>

definition request :: "(ClientSession, Apdu) op \<Rightarrow> ClientSession \<Rightarrow> bytes \<Rightarrow> nat result \<times> ClientSession \<times> bytes" where
  "request prep s out =
     (case prep s of
        (Inl e, s) \<Rightarrow> (Inl e, s, out)
      | (Inr apdu, s) \<Rightarrow> client_send apdu s out)"

definition client_unprotect_initiate :: "bytes \<Rightarrow> bytes \<Rightarrow> (ClientSession, bytes) op" where
  "client_unprotect_initiate apdu buf s =
     (let ctx = \<lparr>in_local = cc_system_title (cl_config s), in_peer = cl_server_system_title s,
          in_auth_key = Protector_auth_key (cl_protector s), in_policy = SecurityPolicy_global (cc_security (cl_config s)),
          in_plain_allowed = CLIENT_PLAIN_INITIATE\<rparr>
      in case unprotect_apdu (cl_protector s) ctx (cl_peer_replay s) apdu buf of
           (res, replay, _) \<Rightarrow> (res, s\<lparr>cl_peer_replay := replay\<rparr>))"

definition client_unprotect_into :: "bytes \<Rightarrow> bytes \<Rightarrow> (ClientSession, bytes) op" where
  "client_unprotect_into apdu buf s =
     (let ctx = \<lparr>in_local = cc_system_title (cl_config s), in_peer = cl_server_system_title s,
          in_auth_key = Protector_auth_key (cl_protector s), in_policy = pr_policy (cl_protector s),
          in_plain_allowed = PLAIN_FROM_SERVER\<rparr>
      in case unprotect_apdu (cl_protector s) ctx (cl_peer_replay s) apdu buf of
           (res, replay, _) \<Rightarrow> (res, s\<lparr>cl_peer_replay := replay\<rparr>))"

subsection \<open>Opening the association\<close>

text \<open>The initiate request, with the dedicated key when one is to be used: it only ever travels inside a ciphered request.\<close>

definition offered_key :: "ClientEnv \<Rightarrow> (ClientSession, bytes option) op" where
  "offered_key env s =
     (if \<not> SecurityPolicy_is_none (cc_security (cl_config s)) \<and> SecurityPolicy_dedicated (cc_security (cl_config s)) then
        try_bind (need Unsupported (ce_dedicated_key env (pr_provider (cl_protector s)))) (\<lambda>k. ok (Some k)) s
      else (Inr None, s))"

definition proposed_initiate :: "bytes option \<Rightarrow> ClientSession \<Rightarrow> InitiateRequest" where
  "proposed_initiate dedicated s = InitiateRequest_default\<lparr>ir_proposed_dlms_version := DLMS_VERSION,
     ir_proposed_conformance := cc_conformance (cl_config s), ir_client_max_receive_pdu_size := cc_max_pdu_size (cl_config s),
     ir_dedicated_key := dedicated\<rparr>"

definition seal_initiate :: "bytes \<Rightarrow> (ClientSession, bytes) op" where
  "seal_initiate plain =
     try_bind client_next_counter (\<lambda>ic.
     try_bind client_title (\<lambda>title.
     try_bind client_auth_key (\<lambda>ak.
     try_bind (\<lambda>s. (fst (Protector_protect_as (cl_protector s) (SecurityPolicy_global (cc_security (cl_config s)))
         title ic ak plain (replicate 128 0)), s)) (\<lambda>payload.
     try_bind (lift_res (case ApduTag_protected_as PGlobal AInitiateRequest of
         None \<Rightarrow> Inl (Error_new Unsupported 0) | Some tag \<Rightarrow> Inr tag)) (\<lambda>tag s.
       case encode_into (try_bind (write_u8 (ApduTag_as_u8 tag)) (\<lambda>_. CipheredService_encode
           \<lparr>cs_security_control = SecurityPolicy_control (cc_security (cl_config s)), cs_invocation_counter = ic, cs_payload = payload\<rparr>))
           (replicate 160 0) of
         (Inl e, _) \<Rightarrow> (Inl e, s)
       | (Inr n, user_info) \<Rightarrow> (Inr (take n user_info), s))))))"

definition client_user_information :: "bytes option \<Rightarrow> (ClientSession, bytes) op" where
  "client_user_information dedicated s =
     (case encode_into (try_bind (write_u8 (ApduTag_as_u8 AInitiateRequest)) (\<lambda>_. InitiateRequest_encode (proposed_initiate dedicated s)))
         (replicate 64 0) of
        (Inl e, _) \<Rightarrow> (Inl e, s)
      | (Inr plain_len, plain) \<Rightarrow>
          if \<not> SecurityPolicy_is_none (cc_security (cl_config s)) then seal_initiate (take plain_len plain) s
          else (Inr (take plain_len plain), s))"

definition authentication_value :: "ClientEnv \<Rightarrow> (ClientSession, bytes option) op" where
  "authentication_value env s =
     (if AuthMechanism_is_high_level (cc_mechanism (cl_config s)) then
        let len = min (max (cc_challenge_len (cl_config s)) 8) 64
        in case ce_random env (take len (cl_client_challenge s)) of
             (res, drawn) \<Rightarrow>
               let s = s\<lparr>cl_client_challenge := overwrite (cl_client_challenge s) 0 drawn\<rparr> in
               (case res of
                  Inl e \<Rightarrow> (Inl e, s)
                | Inr _ \<Rightarrow> (Inr (Some (take len (cl_client_challenge s))), s\<lparr>cl_client_challenge_len := len\<rparr>))
      else (Inr (map_option Secret_expose (cc_password (cl_config s))), s))"

definition prepare_association :: "ClientEnv \<Rightarrow> (ClientSession, Aarq) op" where
  "prepare_association env =
     try_bind (\<lambda>s. error_if (cc_referencing (cl_config s) = RefShortName) Unsupported s) (\<lambda>_.
     try_bind (\<lambda>s. error_if ((\<not> SecurityPolicy_is_none (cc_security (cl_config s)) \<or> cc_mechanism (cl_config s) = AmHighGmac) \<and>
         cc_system_title (cl_config s) = None) UnexpectedMessage s) (\<lambda>_.
     try_bind (offered_key env) (\<lambda>dedicated.
     try_bind (client_user_information dedicated) (\<lambda>user_info.
     try_bind (authentication_value env) (\<lambda>challenge s.
       (Inr \<lparr>aarq_application_context = Some (application_context s), aarq_called_ap_title = None,
          aarq_calling_ap_title = map_option st_bytes (cc_system_title (cl_config s)), aarq_calling_ae_qualifier = None,
          aarq_sender_acse_requirements = (cc_mechanism (cl_config s) \<noteq> AmNone),
          aarq_mechanism_name = (if cc_mechanism (cl_config s) \<noteq> AmNone then Some (cc_mechanism (cl_config s)) else None),
          aarq_calling_authentication_value = challenge, aarq_user_information = Some user_info\<rparr>, s))))))"

definition associate_request :: "ClientEnv \<Rightarrow> ClientSession \<Rightarrow> bytes \<Rightarrow> nat result \<times> ClientSession \<times> bytes" where
  "associate_request env s out =
     (case prepare_association env s of
        (Inl e, s) \<Rightarrow> (Inl e, s, out)
      | (Inr aarq, s) \<Rightarrow>
          (case encode_into (Aarq_encode aarq) out of
             (Inl e, out) \<Rightarrow> (Inl e, s, out)
           | (Inr n, out) \<Rightarrow> (Inr n, s\<lparr>cl_state := SnAssociating\<rparr>, out)))"

definition rejected :: "AssociationResult \<Rightarrow> Diagnostic \<Rightarrow> (ClientSession, AssociationStep) op" where
  "rejected res diagnostic s = (Inr (StepRejected res diagnostic), s\<lparr>cl_state := SnClosed\<rparr>)"

text \<open>What the server's user information says: the parameters, or that the initiate request was refused.\<close>

definition initiate_answer :: "bytes \<Rightarrow> InitiateResponse option result" where
  "initiate_answer plain = fst (try_bind Reader_u8 (\<lambda>tag.
     case ApduTag_from_u8 tag of
       Some AInitiateResponse \<Rightarrow> try_bind InitiateResponse_decode (\<lambda>resp.
         try_bind (lift_res (InitiateResponse_check_version resp)) (\<lambda>_. ok (Some resp)))
     | Some AConfirmedServiceError \<Rightarrow> ok None
     | _ \<Rightarrow> fail (Error_new UnexpectedMessage 0)) (Reader_new plain))"

definition take_challenge :: "Aare \<Rightarrow> (ClientSession, AssociationStep) op" where
  "take_challenge aare s =
     (case aare_responding_authentication_value aare of
        None \<Rightarrow> (Inl (Error_new UnexpectedMessage 0), s)
      | Some challenge \<Rightarrow>
          if length challenge > 64 then (Inl (Error_new InvalidLength 0), s)
          else (Inr StepHlsReplyRequired, s\<lparr>cl_server_challenge := overwrite (cl_server_challenge s) 0 challenge,
             cl_server_challenge_len := length challenge, cl_state := SnAuthenticatingHls\<rparr>))"

definition complete_association :: "Aare \<Rightarrow> (ClientSession, AssociationStep) op" where
  "complete_association aare s =
     (let s = (if SecurityPolicy_dedicated (cc_security (cl_config s)) then s\<lparr>cl_protector := Protector_set_dedicated True (cl_protector s)\<rparr> else s)
      in if AuthMechanism_is_high_level (cc_mechanism (cl_config s)) then take_challenge aare s
         else (Inr StepEstablished, s\<lparr>cl_state := SnAssociated\<rparr>))"

definition accepted_response :: "Aare \<Rightarrow> (ClientSession, AssociationStep) op" where
  "accepted_response aare s =
     (case aare_user_information aare of
        None \<Rightarrow> complete_association aare s
      | Some user_info \<Rightarrow>
          (case client_unprotect_initiate user_info (replicate 256 0) s of
             (Inl e, s) \<Rightarrow> (Inl e, s)
           | (Inr plain, s) \<Rightarrow>
               (case initiate_answer plain of
                  Inl e \<Rightarrow> (Inl e, s)
                | Inr None \<Rightarrow> rejected ArRejectedPermanent (aare_diagnostic aare) s
                | Inr (Some resp) \<Rightarrow> complete_association aare (s\<lparr>cl_negotiated := Some resp\<rparr>))))"

definition note_title :: "Aare \<Rightarrow> (ClientSession, unit) op" where
  "note_title aare s =
     (case aare_responding_ap_title aare of
        None \<Rightarrow> (Inr (), s)
      | Some title \<Rightarrow>
          (case SystemTitle_from_slice title of
             Inl e \<Rightarrow> (Inl e, s)
           | Inr title \<Rightarrow> (Inr (), s\<lparr>cl_server_system_title := Some title\<rparr>)))"

definition differs :: "'a option \<Rightarrow> 'a \<Rightarrow> bool" where
  "differs got wanted = (case got of None \<Rightarrow> False | Some x \<Rightarrow> x \<noteq> wanted)"

definition handle_associate_response :: "bytes \<Rightarrow> (ClientSession, AssociationStep) op" where
  "handle_associate_response apdu s =
     (if apdu \<noteq> [] \<and> hd apdu = ApduTag_as_u8 AExceptionResponse then
        (case from_bytes ExceptionResponse_decode (tl apdu) of
           Inl e \<Rightarrow> (Inl e, s\<lparr>cl_state := SnClosed\<rparr>)
         | Inr e \<Rightarrow> (Inr (StepException e), s\<lparr>cl_state := SnClosed\<rparr>))
      else (case from_bytes Aare_decode apdu of
          Inl e \<Rightarrow> (Inl e, s)
        | Inr aare \<Rightarrow>
            (case note_title aare s of
               (Inl e, s) \<Rightarrow> (Inl e, s)
             | (Inr _, s) \<Rightarrow>
                 if \<not> Aare_is_accepted aare then rejected (aare_result aare) (aare_diagnostic aare) s
                 else if differs (aare_application_context aare) (application_context s)
                 then rejected ArRejectedPermanent (DiagUser UdApplicationContextNameNotSupported) s
                 else if differs (aare_mechanism_name aare) (cc_mechanism (cl_config s))
                 then rejected ArRejectedPermanent (DiagUser UdAuthenticationMechanismNameNotRecognised) s
                 else if cc_mechanism (cl_config s) \<noteq> AmNone \<and> aare_mechanism_name aare = None
                 then rejected ArRejectedPermanent (DiagUser UdAuthenticationRequired) s
                 else accepted_response aare s)))"

text \<open>The two passes that follow a challenge.\<close>

definition hls_reply_request :: "ClientSession \<Rightarrow> bytes \<Rightarrow> nat result \<times> ClientSession \<times> bytes" where
  "hls_reply_request = request (
     try_bind (\<lambda>s. error_if (cl_state s \<noteq> SnAuthenticatingHls) UnexpectedMessage s) (\<lambda>_.
     try_bind (\<lambda>s. error_if (cc_mechanism (cl_config s) \<noteq> AmHighGmac) Unsupported s) (\<lambda>_.
     try_bind client_title (\<lambda>title.
     try_bind client_next_counter (\<lambda>ic.
     try_bind client_auth_key (\<lambda>ak.
     try_bind (\<lambda>s. (Protector_hls_gmac_response (cl_protector s) title ic ak
         (take (cl_server_challenge_len s) (cl_server_challenge s)), s)) (\<lambda>reply.
     try_bind next_invoke_id (\<lambda>i.
       ok (ApActionRequest (ActNormal i (MethodDescriptor_new 15 (Obis_new 0 0 40 0 0 255) 1) (Some (DOctetString reply))))))))))))"

definition hls_proof :: "ActionResponseWithOptionalData \<Rightarrow> bytes option" where
  "hls_proof response = Option.bind (aro_return_parameters response) (\<lambda>p.
     case GetDataResult_value p of Inl _ \<Rightarrow> None | Inr d \<Rightarrow> Data_as_bytes d)"

definition handle_hls_reply_response :: "bytes \<Rightarrow> (ClientSession, AssociationStep) op" where
  "handle_hls_reply_response apdu =
     try_bind (client_unprotect_into apdu (replicate 512 0)) (\<lambda>plain.
     try_bind (lift_res (from_bytes Apdu_decode plain)) (\<lambda>decoded.
       case decoded of
         ApActionResponse (ActRspNormal _ response) \<Rightarrow>
           if \<not> ActionResult_is_success (aro_result response)
           then rejected ArRejectedPermanent (DiagUser UdAuthenticationFailure)
           else
             try_bind (need UnexpectedMessage (hls_proof response)) (\<lambda>proof1.
             try_bind (\<lambda>s. need UnexpectedMessage (cl_server_system_title s) s) (\<lambda>peer.
             try_bind client_auth_key (\<lambda>ak.
             try_bind (\<lambda>s. (Protector_verify_hls_gmac (cl_protector s) peer ak
                 (take (cl_client_challenge_len s) (cl_client_challenge s)) proof1, s)) (\<lambda>_ s.
               (Inr StepEstablished, s\<lparr>cl_state := SnAssociated\<rparr>)))))
       | _ \<Rightarrow> fail (Error_new UnexpectedMessage 0)))"

subsection \<open>Requests\<close>

primrec write_all :: "('a \<Rightarrow> (writer, unit) op) \<Rightarrow> 'a list \<Rightarrow> (writer, unit) op" where
  "write_all f [] = ok ()"
| "write_all f (x # xs) = try_bind (f x) (\<lambda>_. write_all f xs)"

text \<open>What is written into a fresh buffer of \<open>n\<close> bytes, in one run or in two with the end of the first noted.\<close>

definition encoded_run :: "nat \<Rightarrow> (writer, unit) op \<Rightarrow> bytes result" where
  "encoded_run n f = (case encode_into f (replicate n 0) of (Inl e, _) \<Rightarrow> Inl e | (Inr k, buf) \<Rightarrow> Inr (take k buf))"

definition encoded_runs :: "nat \<Rightarrow> (writer, unit) op \<Rightarrow> (writer, unit) op \<Rightarrow> (bytes \<times> bytes) result" where
  "encoded_runs n f g = fst (try_bind f (\<lambda>_. try_bind (\<lambda>w. (Inr (written w), w)) (\<lambda>mid. try_bind g (\<lambda>_ w.
     (Inr (take mid (wr_buf w), take (written w - mid) (drop mid (wr_buf w))), w)))) (SliceW (SliceWriter_new (replicate n 0))))"

definition require_selection :: "bool \<Rightarrow> (ClientSession, unit) op" where
  "require_selection used = (if used then require_conformance SELECTIVE_ACCESS else ok ())"

definition uses_selection :: "AttributeDescriptorWithSelection list \<Rightarrow> bool" where
  "uses_selection items \<longleftrightarrow> (\<exists>i\<in>set items. ads_access i \<noteq> None)"

definition get_request :: "AttributeDescriptor \<Rightarrow> SelectiveAccess option \<Rightarrow> ClientSession \<Rightarrow> bytes \<Rightarrow> nat result \<times> ClientSession \<times> bytes" where
  "get_request d access = request (
     try_bind require_associated (\<lambda>_.
     try_bind (require_conformance GET) (\<lambda>_.
     try_bind (require_selection (access \<noteq> None)) (\<lambda>_.
     try_bind next_invoke_id (\<lambda>i.
       ok (ApGetRequest (GetNormal i d access)))))))"

text \<open>\<^verbatim>\<open>get::<C>\<close>, with the class identifier of \<open>C\<close>.\<close>

definition get_of_class :: "u16 \<Rightarrow> Obis \<Rightarrow> u8 \<Rightarrow> ClientSession \<Rightarrow> bytes \<Rightarrow> nat result \<times> ClientSession \<times> bytes" where
  "get_of_class class_id logical_name attribute = get_request (AttributeDescriptor_new class_id logical_name attribute) None"

definition get_request_with_list :: "AttributeDescriptorWithSelection list \<Rightarrow> ClientSession \<Rightarrow> bytes \<Rightarrow> nat result \<times> ClientSession \<times> bytes" where
  "get_request_with_list items = request (
     try_bind require_associated (\<lambda>_.
     try_bind (require_conformance GET) (\<lambda>_.
     try_bind (require_conformance MULTIPLE_REFERENCES) (\<lambda>_.
     try_bind (error_if (items = []) InvalidValue) (\<lambda>_.
     try_bind (require_selection (uses_selection items)) (\<lambda>_.
     try_bind (\<lambda>s. (encoded_run (cl_N s) (write_all AttributeDescriptorWithSelection_encode items), s)) (\<lambda>encoded.
     try_bind next_invoke_id (\<lambda>i.
       ok (ApGetRequest (GetWithList i (List_from_raw (length items) encoded)))))))))))"

definition get_next_block_request :: "u32 \<Rightarrow> ClientSession \<Rightarrow> bytes \<Rightarrow> nat result \<times> ClientSession \<times> bytes" where
  "get_next_block_request block_number = request (
     try_bind require_associated (\<lambda>_.
     try_bind outstanding_id (\<lambda>i.
       ok (ApGetRequest (GetNext i block_number)))))"

definition set_request :: "AttributeDescriptor \<Rightarrow> SelectiveAccess option \<Rightarrow> Data \<Rightarrow> ClientSession \<Rightarrow> bytes \<Rightarrow> nat result \<times> ClientSession \<times> bytes" where
  "set_request d access v = request (
     try_bind require_associated (\<lambda>_.
     try_bind (require_conformance SET) (\<lambda>_.
     try_bind (require_selection (access \<noteq> None)) (\<lambda>_.
     try_bind next_invoke_id (\<lambda>i.
       ok (ApSetRequest (SetNormal i d access v)))))))"

definition set_request_with_list ::
  "AttributeDescriptorWithSelection list \<Rightarrow> Data list \<Rightarrow> ClientSession \<Rightarrow> bytes \<Rightarrow> nat result \<times> ClientSession \<times> bytes" where
  "set_request_with_list items vals = request (
     try_bind require_associated (\<lambda>_.
     try_bind (require_conformance SET) (\<lambda>_.
     try_bind (require_conformance MULTIPLE_REFERENCES) (\<lambda>_.
     try_bind (error_if (items = [] \<or> length items \<noteq> length vals) InvalidValue) (\<lambda>_.
     try_bind (require_selection (uses_selection items)) (\<lambda>_.
     try_bind (\<lambda>s. (encoded_runs (cl_N s) (write_all AttributeDescriptorWithSelection_encode items) (write_all Data_encode vals), s)) (\<lambda>(ds, vs).
     try_bind next_invoke_id (\<lambda>i.
       ok (ApSetRequest (SetWithList i (List_from_raw (length items) ds) (List_from_raw (length vals) vs)))))))))))"

definition or_null :: "Data option \<Rightarrow> Data" where
  "or_null p = (case p of None \<Rightarrow> DNull | Some d \<Rightarrow> d)"

definition action_request :: "MethodDescriptor \<Rightarrow> Data option \<Rightarrow> ClientSession \<Rightarrow> bytes \<Rightarrow> nat result \<times> ClientSession \<times> bytes" where
  "action_request d parameters = request (
     try_bind require_associated (\<lambda>_.
     try_bind (require_conformance ACTION) (\<lambda>_.
     try_bind next_invoke_id (\<lambda>i.
       ok (ApActionRequest (ActNormal i d parameters))))))"

definition action_request_with_list ::
  "MethodDescriptor list \<Rightarrow> Data option list \<Rightarrow> ClientSession \<Rightarrow> bytes \<Rightarrow> nat result \<times> ClientSession \<times> bytes" where
  "action_request_with_list descriptors parameters = request (
     try_bind require_associated (\<lambda>_.
     try_bind (require_conformance ACTION) (\<lambda>_.
     try_bind (require_conformance MULTIPLE_REFERENCES) (\<lambda>_.
     try_bind (error_if (descriptors = [] \<or> length descriptors \<noteq> length parameters \<or> length descriptors > MAX_ACCESS_ITEMS) InvalidValue) (\<lambda>_.
     try_bind (\<lambda>s. (encoded_runs (cl_N s) (write_all MethodDescriptor_encode descriptors)
         (write_all (\<lambda>p. Data_encode (or_null p)) parameters), s)) (\<lambda>(ds, ps).
     try_bind next_invoke_id (\<lambda>i.
       ok (ApActionRequest (ActWithList i (List_from_raw (length descriptors) ds) (List_from_raw (length parameters) ps))))))))))"

definition action_next_block_request :: "u32 \<Rightarrow> ClientSession \<Rightarrow> bytes \<Rightarrow> nat result \<times> ClientSession \<times> bytes" where
  "action_next_block_request block_number = request (
     try_bind require_associated (\<lambda>_.
     try_bind outstanding_id (\<lambda>i.
       ok (ApActionRequest (ActNextPblock i block_number)))))"

datatype AccessItem =
    AiGet AttributeDescriptor "SelectiveAccess option"
  | AiSet AttributeDescriptor "SelectiveAccess option" Data
  | AiAction MethodDescriptor "Data option"

definition with_selection :: "AttributeDescriptor \<Rightarrow> SelectiveAccess \<Rightarrow> AttributeDescriptorWithSelection" where
  "with_selection d access = \<lparr>ads_descriptor = d, ads_access = Some access\<rparr>"

fun AccessItem_specification :: "AccessItem \<Rightarrow> AccessRequestSpecification" where
  "AccessItem_specification (AiGet d None) = ArsGet d"
| "AccessItem_specification (AiGet d (Some access)) = ArsGetWithSelection (with_selection d access)"
| "AccessItem_specification (AiSet d None _) = ArsSet d"
| "AccessItem_specification (AiSet d (Some access) _) = ArsSetWithSelection (with_selection d access)"
| "AccessItem_specification (AiAction d _) = ArsAction d"

fun AccessItem_data :: "AccessItem \<Rightarrow> Data" where
  "AccessItem_data (AiGet _ _) = DNull"
| "AccessItem_data (AiSet _ _ v) = v"
| "AccessItem_data (AiAction _ parameters) = or_null parameters"

definition access_request :: "AccessItem list \<Rightarrow> ClientSession \<Rightarrow> bytes \<Rightarrow> nat result \<times> ClientSession \<times> bytes" where
  "access_request items = request (
     try_bind require_associated (\<lambda>_.
     try_bind (require_conformance ACCESS) (\<lambda>_.
     try_bind (error_if (items = [] \<or> length items > MAX_ACCESS_ITEMS) InvalidValue) (\<lambda>_.
     try_bind (\<lambda>s. (encoded_runs (cl_N s) (write_all (\<lambda>i. AccessRequestSpecification_encode (AccessItem_specification i)) items)
         (write_all (\<lambda>i. Data_encode (AccessItem_data i)) items), s)) (\<lambda>(specs, ds).
     try_bind next_long_invoke_id (\<lambda>i.
       ok (ApAccessRequest \<lparr>aq_long_invoke_id = i, aq_date_time = None,
         aq_specification = List_from_raw (length items) specs, aq_data = List_from_raw (length items) ds\<rparr>)))))))"

definition release_request :: "ClientSession \<Rightarrow> bytes \<Rightarrow> nat result \<times> ClientSession \<times> bytes" where
  "release_request s out =
     (case encode_into (Rlrq_encode \<lparr>rl_reason = Some RrNormal, rl_user_information = None\<rparr>) out of
        (Inl e, out) \<Rightarrow> (Inl e, s, out)
      | (Inr n, out) \<Rightarrow> (Inr n, s\<lparr>cl_state := SnReleasing\<rparr>, out))"

subsection \<open>Values sent in blocks\<close>

datatype BlockTarget =
    BtAttribute AttributeDescriptor "SelectiveAccess option"
  | BtMethod MethodDescriptor
  | BtAttributeList WireList

record BlockSender =
  bk_target :: BlockTarget
  bk_bytes :: bytes
  bk_sent :: nat
  bk_block :: u32
  bk_fragment :: nat

definition block_sender :: "BlockTarget \<Rightarrow> bytes \<Rightarrow> nat \<Rightarrow> BlockSender" where
  "block_sender target v fragment = \<lparr>bk_target = target, bk_bytes = v, bk_sent = 0, bk_block = 0, bk_fragment = fragment\<rparr>"

definition BlockSender_is_done :: "BlockSender \<Rightarrow> bool" where
  "BlockSender_is_done b \<longleftrightarrow> bk_block b > 0 \<and> bk_sent b \<ge> length (bk_bytes b)"

definition BlockSender_remaining :: "BlockSender \<Rightarrow> nat" where
  "BlockSender_remaining b = length (bk_bytes b) - bk_sent b"

definition BlockSender_blocks :: "BlockSender \<Rightarrow> nat" where
  "BlockSender_blocks b = (let n = div_ceil (length (bk_bytes b)) (bk_fragment b) in if n = 0 then 1 else n)"

definition set_transfer :: "AttributeDescriptor \<Rightarrow> SelectiveAccess option \<Rightarrow> bytes \<Rightarrow> (ClientSession, BlockSender) op" where
  "set_transfer d access v =
     try_bind require_associated (\<lambda>_.
     try_bind (require_conformance SET) (\<lambda>_.
     try_bind (require_conformance BLOCK_TRANSFER_WITH_SET_OR_WRITE) (\<lambda>_.
     try_bind (max_fragment_less (case access of None \<Rightarrow> 0 | Some a \<Rightarrow> encoded_len (SelectiveAccess_encode a))) (\<lambda>fragment.
       ok (block_sender (BtAttribute d access) v fragment)))))"

definition set_transfer_with_list :: "AttributeDescriptorWithSelection list \<Rightarrow> bytes \<Rightarrow> bytes \<Rightarrow> (ClientSession, BlockSender) op" where
  "set_transfer_with_list items vals scratch =
     try_bind require_associated (\<lambda>_.
     try_bind (require_conformance SET) (\<lambda>_.
     try_bind (require_conformance MULTIPLE_REFERENCES) (\<lambda>_.
     try_bind (require_conformance BLOCK_TRANSFER_WITH_SET_OR_WRITE) (\<lambda>_.
     try_bind (error_if (items = [] \<or> length items > MAX_ACCESS_ITEMS) InvalidValue) (\<lambda>_.
     try_bind (\<lambda>s. (case encode_into (write_all AttributeDescriptorWithSelection_encode items) scratch of
         (Inl e, _) \<Rightarrow> (Inl e, s) | (Inr n, buf) \<Rightarrow> (Inr (List_from_raw (length items) (take n buf)), s))) (\<lambda>list1.
     try_bind (max_fragment_less (encoded_len (List_encode list1))) (\<lambda>fragment.
       ok (block_sender (BtAttributeList list1) vals fragment))))))))"

definition encode_value_list :: "Data list \<Rightarrow> bytes \<Rightarrow> nat result \<times> bytes" where
  "encode_value_list vals out = encode_into (try_bind (write_length (length vals)) (\<lambda>_. write_all Data_encode vals)) out"

definition action_transfer :: "MethodDescriptor \<Rightarrow> bytes \<Rightarrow> (ClientSession, BlockSender) op" where
  "action_transfer d parameters =
     try_bind require_associated (\<lambda>_.
     try_bind (require_conformance ACTION) (\<lambda>_.
     try_bind (require_conformance BLOCK_TRANSFER_WITH_ACTION) (\<lambda>_.
     try_bind client_max_fragment (\<lambda>fragment.
       ok (block_sender (BtMethod d) parameters fragment)))))"

fun block_request :: "bool \<Rightarrow> InvokeId \<Rightarrow> DataBlockSA \<Rightarrow> BlockTarget \<Rightarrow> Apdu" where
  "block_request first i block (BtAttribute d access) =
     ApSetRequest (if first then SetWithFirstDataBlock i d access block else SetWithDataBlock i block)"
| "block_request first i block (BtMethod d) =
     ApActionRequest (if first then ActWithFirstPblock i d block else ActWithPblock i block)"
| "block_request first i block (BtAttributeList ds) =
     ApSetRequest (if first then SetWithListAndFirstDataBlock i ds block else SetWithDataBlock i block)"

definition BlockSender_end :: "BlockSender \<Rightarrow> nat" where
  "BlockSender_end b = min (bk_sent b + bk_fragment b) (length (bk_bytes b))"

definition next_block :: "BlockSender \<Rightarrow> DataBlockSA" where
  "next_block b = \<lparr>dbs_last_block = (BlockSender_end b = length (bk_bytes b)), dbs_block_number = sat_inc (bk_block b),
     dbs_raw_data = (case slice (bk_bytes b) (bk_sent b) (BlockSender_end b) of Some d \<Rightarrow> d | None \<Rightarrow> [])\<rparr>"

definition next_block_request ::
  "BlockSender \<Rightarrow> ClientSession \<Rightarrow> bytes \<Rightarrow> nat result \<times> BlockSender \<times> ClientSession \<times> bytes" where
  "next_block_request b s out =
     (case request (
         try_bind require_associated (\<lambda>_.
         try_bind (error_if (BlockSender_is_done b) UnexpectedMessage) (\<lambda>_.
         try_bind (if bk_block b = 0 then next_invoke_id else outstanding_id) (\<lambda>i.
           ok (block_request (bk_block b = 0) i (next_block b) (bk_target b)))))) s out of
        (Inl e, s, out) \<Rightarrow> (Inl e, b, s, out)
      | (Inr n, s, out) \<Rightarrow> (Inr n, b\<lparr>bk_sent := BlockSender_end b, bk_block := sat_inc (bk_block b)\<rparr>, s, out))"

subsection \<open>Responses\<close>

fun response_invoke_id :: "Apdu \<Rightarrow> InvokeId option" where
  "response_invoke_id (ApGetResponse (GetRspNormal i _)) = Some i"
| "response_invoke_id (ApGetResponse (GetRspWithDataBlock i _)) = Some i"
| "response_invoke_id (ApGetResponse (GetRspWithList i _)) = Some i"
| "response_invoke_id (ApSetResponse (SetRspNormal i _)) = Some i"
| "response_invoke_id (ApSetResponse (SetRspDataBlock i _)) = Some i"
| "response_invoke_id (ApSetResponse (SetRspLastDataBlock i _ _)) = Some i"
| "response_invoke_id (ApSetResponse (SetRspLastDataBlockWithList i _ _)) = Some i"
| "response_invoke_id (ApSetResponse (SetRspWithList i _)) = Some i"
| "response_invoke_id (ApActionResponse (ActRspNormal i _)) = Some i"
| "response_invoke_id (ApActionResponse (ActRspWithPblock i _)) = Some i"
| "response_invoke_id (ApActionResponse (ActRspWithList i _)) = Some i"
| "response_invoke_id (ApActionResponse (ActRspNextPblock i _)) = Some i"
| "response_invoke_id _ = None"

text \<open>A late answer to another request than the outstanding one.\<close>

definition stray :: "InvokeId option \<Rightarrow> Apdu \<Rightarrow> bool" where
  "stray outstanding decoded \<longleftrightarrow>
     (case (outstanding, response_invoke_id decoded) of
        (Some wanted, Some got) \<Rightarrow> InvokeId_id got \<noteq> InvokeId_id wanted
      | _ \<Rightarrow> False)"

definition write_outcome :: "DataAccessResult \<Rightarrow> Response" where
  "write_outcome r = (if DataAccessResult_is_success r then RsOk else RsDataError r)"

definition data_outcome :: "GetDataResult \<Rightarrow> Response" where
  "data_outcome r = (case GetDataResult_value r of Inr d \<Rightarrow> RsData d | Inl e \<Rightarrow> RsDataError e)"

definition returned_data :: "GetDataResult option \<Rightarrow> Data option" where
  "returned_data p = Option.bind p (\<lambda>p. case GetDataResult_value p of Inl _ \<Rightarrow> None | Inr d \<Rightarrow> Some d)"

fun response_of :: "Apdu \<Rightarrow> Response option" where
  "response_of (ApGetResponse (GetRspNormal _ r)) = Some (data_outcome r)"
| "response_of (ApGetResponse (GetRspWithList _ results)) = Some (RsDataList results)"
| "response_of (ApGetResponse (GetRspWithDataBlock _ b)) = Some (case dbg_result b of
     Inr raw \<Rightarrow> RsBlock (dbg_last_block b) (dbg_block_number b) raw | Inl e \<Rightarrow> RsDataError e)"
| "response_of (ApSetResponse (SetRspNormal _ r)) = Some (write_outcome r)"
| "response_of (ApSetResponse (SetRspLastDataBlock _ r _)) = Some (write_outcome r)"
| "response_of (ApSetResponse (SetRspDataBlock _ n)) = Some (RsBlockAccepted n)"
| "response_of (ApSetResponse (SetRspWithList _ results)) = Some (RsResultList results)"
| "response_of (ApSetResponse (SetRspLastDataBlockWithList _ results _)) = Some (RsResultList results)"
| "response_of (ApActionResponse (ActRspNormal _ r)) = Some (RsActionResult (aro_result r) (returned_data (aro_return_parameters r)))"
| "response_of (ApActionResponse (ActRspNextPblock _ n)) = Some (RsBlockAccepted n)"
| "response_of (ApActionResponse (ActRspWithList _ responses)) = Some (RsActionResults responses)"
| "response_of (ApActionResponse (ActRspWithPblock _ b)) = Some (RsBlock (dbs_last_block b) (dbs_block_number b) (dbs_raw_data b))"
| "response_of (ApAccessResponse r) = Some (RsAccess (as_data r) (as_response_specification r))"
| "response_of (ApExceptionResponse e) = Some (RsException e)"
| "response_of (ApRlre _) = Some RsReleased"
| "response_of _ = None"

definition handle_response :: "bytes \<Rightarrow> bytes \<Rightarrow> (ClientSession, Response) op" where
  "handle_response apdu buf =
     try_bind (client_unprotect_into apdu buf) (\<lambda>plain.
     try_bind (lift_res (from_bytes Apdu_decode plain)) (\<lambda>decoded.
     try_bind (\<lambda>s. error_if (stray (cl_outstanding s) decoded) UnexpectedMessage s) (\<lambda>_.
     try_bind (need UnexpectedMessage (response_of decoded)) (\<lambda>response s.
       (Inr response, if response = RsReleased then s\<lparr>cl_state := SnClosed\<rparr> else s)))))"

subsection \<open>Values received in blocks\<close>

record BlockCollector =
  co_buf :: bytes
  co_len :: nat
  co_last_block :: u32

definition BlockCollector_new :: "bytes \<Rightarrow> BlockCollector" where
  "BlockCollector_new buf = \<lparr>co_buf = buf, co_len = 0, co_last_block = 0\<rparr>"

text \<open>The length of the data and of what is there already are lengths of buffers, so their sum does not overflow.\<close>

definition BlockCollector_push :: "u32 \<Rightarrow> bytes \<Rightarrow> (BlockCollector, unit) op" where
  "BlockCollector_push block_number d c =
     (if block_number \<noteq> sat_inc (co_last_block c) then (Inl (Error_new UnexpectedMessage (co_len c)), c)
      else
        let end1 = co_len c + length d in
        if length (co_buf c) < end1 then (Inl (Error_new (BufferTooSmall (end1 - length (co_buf c))) (co_len c)), c)
        else (Inr (), c\<lparr>co_buf := overwrite (co_buf c) (co_len c) d, co_len := end1, co_last_block := block_number\<rparr>))"

definition BlockCollector_bytes :: "BlockCollector \<Rightarrow> bytes" where
  "BlockCollector_bytes c = (case slice (co_buf c) 0 (co_len c) of Some b \<Rightarrow> b | None \<Rightarrow> [])"

definition BlockCollector_value :: "BlockCollector \<Rightarrow> Data result" where
  "BlockCollector_value c = from_bytes Data_decode (BlockCollector_bytes c)"

definition BlockCollector_results :: "BlockCollector \<Rightarrow> WireList result" where
  "BlockCollector_results c = from_bytes (List_decode GetDataResult_decode) (BlockCollector_bytes c)"

definition BlockCollector_reset :: "BlockCollector \<Rightarrow> BlockCollector" where
  "BlockCollector_reset c = c\<lparr>co_len := 0, co_last_block := 0\<rparr>"

subsection \<open>A session to evaluate with\<close>

text \<open>A random source that fills the challenge with sevens, no dedicated keys, and sessions of \<open>n\<close> bytes: fresh, waiting for the answer to
  their challenge, and associated with a server that takes \<open>pdu\<close> bytes.\<close>

definition demo_client_env :: ClientEnv where
  "demo_client_env = \<lparr>ce_dedicated_key = (\<lambda>p. None), ce_random = (\<lambda>b. (Inr (), map (\<lambda>_. 7) b))\<rparr>"

definition demo_client :: "nat \<Rightarrow> AuthMechanism \<Rightarrow> ClientSession" where
  "demo_client n mechanism = ClientSession_new n
     (ClientConfig_default\<lparr>cc_mechanism := mechanism, cc_system_title := Some (SystemTitle [8, 7, 6, 5, 4, 3, 2, 1])\<rparr>) demo_provider"

definition demo_challenged :: ClientSession where
  "demo_challenged = (demo_client 64 AmHighGmac)\<lparr>cl_state := SnAuthenticatingHls, cl_client_challenge_len := 8,
     cl_server_challenge_len := 8, cl_server_system_title := Some (SystemTitle [1, 2, 3, 4, 5, 6, 7, 8])\<rparr>"

definition demo_associated :: "u16 \<Rightarrow> ClientSession" where
  "demo_associated pdu = (demo_client 64 AmNone)\<lparr>cl_state := SnAssociated,
     cl_negotiated := Some (InitiateResponse_default\<lparr>is_negotiated_conformance := SERVER_DEFAULT, is_server_max_receive_pdu_size := pdu\<rparr>)\<rparr>"

end
