(* ===== verification/ClientSafety.thy ===== *)
theory ClientSafety
  imports Client Appends
begin

text \<open>
  What every call on a client session keeps, whatever the caller asks for and whatever arrives: the configuration, the sizes
  of the buffers, the invoke identifiers and the sending counter; and how a session comes to be associated.
\<close>

subsection \<open>The invariant\<close>

definition client_inv :: "ClientSession \<Rightarrow> bool" where
  "client_inv s \<longleftrightarrow> length (cl_client_challenge s) = 64 \<and> cl_client_challenge_len s \<le> 64 \<and>
     length (cl_server_challenge s) = 64 \<and> cl_server_challenge_len s \<le> 64 \<and> cl_invoke_id s \<le> 15 \<and>
     (\<forall>i. cl_outstanding s = Some i \<longrightarrow> i = InvokeId_confirmed (cl_invoke_id s))"

definition grows :: "ClientSession \<Rightarrow> ClientSession \<Rightarrow> bool" where
  "grows s t \<longleftrightarrow> cl_config t = cl_config s \<and> cl_N t = cl_N s \<and> (client_inv s \<longrightarrow> client_inv t) \<and>
     Client_invocation_counter s \<le> Client_invocation_counter t"

lemma grows_refl [intro, simp]: "grows s s"
  by (simp add: grows_def)

lemma grows_trans: "grows s t \<Longrightarrow> grows t u \<Longrightarrow> grows s u"
  by (auto simp: grows_def)

lemma grows_fields [simp]:
  "grows s (t\<lparr>cl_protector := a\<rparr>) = grows s t" "grows s (t\<lparr>cl_state := b\<rparr>) = grows s t"
  "grows s (t\<lparr>cl_peer_replay := c\<rparr>) = grows s t" "grows s (t\<lparr>cl_negotiated := d\<rparr>) = grows s t"
  "grows s (t\<lparr>cl_server_system_title := e\<rparr>) = grows s t"
  "length f = cl_N t \<Longrightarrow> grows s (t\<lparr>cl_scratch := f\<rparr>) = grows s t"
  by (simp_all add: grows_def client_inv_def Client_invocation_counter_def)

text \<open>\<open>steady\<close>: an operation that grows the session and leaves the state of the association as it is.\<close>

definition steady :: "(ClientSession, 'a) op \<Rightarrow> bool" where
  "steady f \<longleftrightarrow> (\<forall>s r t. f s = (r, t) \<longrightarrow> grows s t \<and> cl_state t = cl_state s)"

named_theorems steady_intro \<open>operations that leave the state of the association alone\<close>

lemma steadyI: "(\<And>s r t. f s = (r, t) \<Longrightarrow> grows s t \<and> cl_state t = cl_state s) \<Longrightarrow> steady f"
  by (simp add: steady_def)

lemma steadyD: "steady f \<Longrightarrow> f s = (r, t) \<Longrightarrow> grows s t \<and> cl_state t = cl_state s"
  by (simp add: steady_def)

lemma steady_bind [steady_intro]:
  assumes "steady f" "\<And>x. steady (g x)"
  shows "steady (try_bind f g)"
proof (rule steadyI)
  fix s r t assume run: "try_bind f g s = (r, t)"
  obtain r1 s1 where f: "f s = (r1, s1)" by fastforce
  note s1 = steadyD [OF assms(1) f]
  show "grows s t \<and> cl_state t = cl_state s"
  proof (cases r1)
    case (Inl e) then show ?thesis using run s1 by (simp add: try_bind_def f)
  next
    case (Inr x)
    then have "g x s1 = (r, t)" using run by (simp add: try_bind_def f)
    then show ?thesis using s1 steadyD [OF assms(2)] by (metis grows_trans)
  qed
qed

lemma steady_same [steady_intro]:
  "steady (\<lambda>s. (h s, s))" "steady (ok x)" "steady (fail e)" "steady (error_if b k)" "steady (need k v)" "steady (lift_res v')"
  "steady (\<lambda>s. error_if (b' s) k s)" "steady (\<lambda>s. need k (v'' s) s)" "steady (\<lambda>s. lift_res (v''' s) s)"
  by (auto simp: steady_def ok_def fail_def error_if_def need_def lift_res_def split: if_splits option.splits sum.splits)

lemma steady_if [steady_intro]: "steady f \<Longrightarrow> steady g \<Longrightarrow> steady (if b then f else g)"
  by simp

lemma steady_checks [steady_intro]:
  "steady require_associated" "steady (require_conformance c)" "steady client_auth_key" "steady client_title" "steady outstanding_id"
  "steady (require_selection b)" "steady (max_fragment_less n)" "steady client_max_fragment"
  by (auto simp: steady_def require_associated_def require_conformance_def client_auth_key_def client_title_def outstanding_id_def
    require_selection_def max_fragment_less_def client_max_fragment_def error_if_def need_def lift_res_def ok_def fail_def Let_def
    split: if_splits option.splits sum.splits)

lemma client_counter_step: "InvocationCounter_next c = (r, c') \<Longrightarrow> InvocationCounter_get c \<le> InvocationCounter_get c'"
  by (cases c) (auto simp: word_le_nat_alt unat_inc split: if_splits)

lemma steady_next_counter [steady_intro]: "steady client_next_counter"
  using client_counter_step
  by (auto simp: steady_def client_next_counter_def grows_def client_inv_def Client_invocation_counter_def split: prod.splits)

lemma and_15: "(w :: u8) AND 0x0F \<le> 15"
  by (rule word_and_le1)

lemma steady_invoke_ids [steady_intro]: "steady next_invoke_id" "steady next_long_invoke_id"
  using and_15
  by (auto simp: steady_def next_invoke_id_def next_long_invoke_id_def grows_def client_inv_def Client_invocation_counter_def Let_def)

lemma steady_unprotect [steady_intro]: "steady (client_unprotect_initiate apdu buf)" "steady (client_unprotect_into apdu buf)"
  by (auto simp: steady_def client_unprotect_initiate_def client_unprotect_into_def Let_def split: prod.splits)

lemma steady_offered_key [steady_intro]: "steady (offered_key env)"
  by (auto simp: steady_def offered_key_def need_def try_bind_def ok_def fail_def split: if_splits option.splits)

lemma steady_seal [steady_intro]: "steady (seal_initiate plain)"
proof -
  have "steady (\<lambda>s. case encode_into (f tag ic payload s) (replicate 160 0) of (Inl e, _) \<Rightarrow> (Inl e, s) | (Inr n, user_info) \<Rightarrow> (Inr (take n user_info), s))"
    for f :: "_ \<Rightarrow> _ \<Rightarrow> _ \<Rightarrow> _ \<Rightarrow> (writer, unit) op" and tag ic payload
    by (auto simp: steady_def split: prod.splits sum.splits)
  then show ?thesis unfolding seal_initiate_def by (intro steady_intro)
qed

lemma steady_user_information [steady_intro]: "steady (client_user_information d)"
  using steadyD [OF steady_seal] by (auto simp: steady_def client_user_information_def split: prod.splits sum.splits if_splits)

text \<open>The random source fills the slice it is given.\<close>

definition random_in_place :: "ClientEnv \<Rightarrow> bool" where
  "random_in_place env \<longleftrightarrow> (\<forall>b. length (snd (ce_random env b)) = length b)"

lemma random_in_placeD: "random_in_place env \<Longrightarrow> ce_random env b = (r, d) \<Longrightarrow> length d = length b"
  unfolding random_in_place_def by (metis snd_conv)

lemma steady_authentication_value:
  assumes "random_in_place env"
  shows "steady (authentication_value env)"
  by (auto simp: steady_def authentication_value_def grows_def client_inv_def Client_invocation_counter_def Let_def
    dest!: random_in_placeD [OF assms] split: prod.splits sum.splits if_splits)

lemma steady_prepare: "random_in_place env \<Longrightarrow> steady (prepare_association env)"
  unfolding prepare_association_def by (intro steady_intro steady_authentication_value)

subsection \<open>Requests\<close>

definition steady_reply :: "ClientSession \<Rightarrow> 'a \<times> ClientSession \<times> 'b \<Rightarrow> bool" where
  "steady_reply s rep \<longleftrightarrow> grows s (fst (snd rep)) \<and> cl_state (fst (snd rep)) = cl_state s"

lemma steady_reply_simp [simp]: "steady_reply s (r, t, out) \<longleftrightarrow> grows s t \<and> cl_state t = cl_state s"
  by (simp add: steady_reply_def)

lemma steady_send: "steady_reply s (client_send apdu s out)"
proof -
  obtain r scratch where enc: "encode_into (Apdu_encode apdu) (cl_scratch s) = (r, scratch)" by fastforce
  have len: "length scratch = cl_N s" using encode_into_appends(1) [OF appends_Apdu enc] .
  define u where "u = s\<lparr>cl_scratch := scratch\<rparr>"
  have u: "grows s u" "cl_state u = cl_state s" using len by (simp_all add: u_def)
  have "steady (try_bind client_title (\<lambda>title. try_bind client_next_counter (\<lambda>ic. ok (title, ic))))" by (intro steady_intro)
  note drawn = steadyD [OF this, of u]
  have plain: "steady_reply u (send_plain n u out)" for n
    unfolding send_plain_def Let_def using drawn by (auto split: prod.splits sum.splits)
  then have "steady_reply s (send_plain n u out)" for n
    using u by (auto simp: steady_reply_def intro: grows_trans)
  then show ?thesis unfolding client_send_def enc prod.case u_def [symmetric] using u by (cases r) auto
qed

lemma steady_request:
  assumes "steady prep"
  shows "steady_reply s (request prep s out)"
proof -
  obtain r u where run: "prep s = (r, u)" by fastforce
  note u = steadyD [OF assms run]
  show ?thesis
  proof (cases r)
    case (Inr apdu)
    then show ?thesis using u steady_send [of u apdu out] unfolding request_def run
      by (auto simp: steady_reply_def intro: grows_trans)
  qed (simp add: request_def run u)
qed

lemmas request_defs = hls_reply_request_def get_request_def get_of_class_def get_request_with_list_def get_next_block_request_def
  set_request_def set_request_with_list_def action_request_def action_request_with_list_def action_next_block_request_def access_request_def

lemma steady_requests:
  "steady_reply s (hls_reply_request s out)" "steady_reply s (get_request d a s out)" "steady_reply s (get_request_with_list items s out)"
  "steady_reply s (get_next_block_request n s out)" "steady_reply s (set_request d a v s out)" "steady_reply s (set_request_with_list items vs s out)"
  "steady_reply s (action_request m p s out)" "steady_reply s (action_request_with_list ms ps s out)"
  "steady_reply s (action_next_block_request n s out)" "steady_reply s (access_request as s out)"
  unfolding request_defs by (rule steady_request, intro steady_intro prod.case_eq_if [THEN ssubst, of steady])+

lemma steady_block_request: "next_block_request b s out = (r, b', t, out') \<Longrightarrow> grows s t \<and> cl_state t = cl_state s"
proof -
  assume run: "next_block_request b s out = (r, b', t, out')"
  have "steady_reply s (request (try_bind require_associated (\<lambda>_. try_bind (error_if (BlockSender_is_done b) UnexpectedMessage) (\<lambda>_.
         try_bind (if bk_block b = 0 then next_invoke_id else outstanding_id) (\<lambda>i.
           ok (block_request (bk_block b = 0) i (next_block b) (bk_target b)))))) s out)"
    by (rule steady_request) (intro steady_intro)
  then show ?thesis using run unfolding next_block_request_def by (auto split: prod.splits sum.splits)
qed

subsection \<open>The association\<close>

lemma grows_associate:
  assumes "random_in_place env" "associate_request env s out = (r, t, out')"
  shows "grows s t \<and> (cl_state t = cl_state s \<or> cl_state t = SnAssociating)"
  using assms(2) steadyD [OF steady_prepare [OF assms(1)], of s] unfolding associate_request_def
  by (auto split: prod.splits sum.splits)

lemma note_title_leaves:
  "note_title aare s = (r, t) \<Longrightarrow> grows s t \<and> cl_state t = cl_state s \<and> cl_config t = cl_config s"
  by (auto simp: note_title_def split: option.splits sum.splits)

lemma client_unprotect_leaves:
  "client_unprotect_initiate apdu buf s = (r, t) \<Longrightarrow> grows s t \<and> cl_state t = cl_state s \<and> cl_config t = cl_config s"
  using steady_unprotect(1) [of apdu buf] by (auto simp: steady_def grows_def)

lemma grows_complete:
  assumes "complete_association aare s = (r, t)"
  shows "grows s t \<and> (cl_state t = cl_state s \<or> cl_state t = SnAuthenticatingHls \<or>
    cl_state t = SnAssociated \<and> \<not> AuthMechanism_is_high_level (cc_mechanism (cl_config s)))"
  using assms
  by (auto simp: complete_association_def take_challenge_def Let_def grows_def client_inv_def Client_invocation_counter_def
    split: if_splits option.splits)

lemma grows_accepted:
  assumes "accepted_response aare s = (r, t)"
  shows "grows s t \<and> (cl_state t = cl_state s \<or> cl_state t = SnClosed \<or> cl_state t = SnAuthenticatingHls \<or>
    cl_state t = SnAssociated \<and> \<not> AuthMechanism_is_high_level (cc_mechanism (cl_config s)))"
proof (cases "aare_user_information aare")
  case None
  then show ?thesis using assms grows_complete [of aare s] by (auto simp: accepted_response_def)
next
  case (Some user_info)
  obtain r1 u where un: "client_unprotect_initiate user_info (replicate 256 0) s = (r1, u)" by fastforce
  note u = client_unprotect_leaves [OF un]
  show ?thesis
  proof (cases r1)
    case (Inl e)
    then show ?thesis using assms Some un u by (simp add: accepted_response_def)
  next
    case (Inr plain)
    note run = assms [unfolded accepted_response_def Some option.case un prod.case Inr sum.case]
    consider (bad) e where "initiate_answer plain = Inl e" | (no) "initiate_answer plain = Inr None" | (yes) resp where "initiate_answer plain = Inr (Some resp)"
      by (cases "initiate_answer plain"; cases "projr (initiate_answer plain)") auto
    then show ?thesis
    proof cases
      case bad then show ?thesis using run u by simp
    next
      case no then show ?thesis using run u by (auto simp: rejected_def)
    next
      case (yes resp)
      have "complete_association aare (u\<lparr>cl_negotiated := Some resp\<rparr>) = (r, t)" using run yes by simp
      from grows_complete [OF this] u grows_trans [of s "u\<lparr>cl_negotiated := Some resp\<rparr>" t] show ?thesis by auto
    qed
  qed
qed

lemma grows_associate_response:
  assumes "handle_associate_response apdu s = (r, t)"
  shows "grows s t \<and> (cl_state t = cl_state s \<or> cl_state t = SnClosed \<or> cl_state t = SnAuthenticatingHls \<or>
    cl_state t = SnAssociated \<and> \<not> AuthMechanism_is_high_level (cc_mechanism (cl_config s)))"
proof -
  have accepted: "grows s t' \<and> (cl_state t' = cl_state s \<or> cl_state t' = SnClosed \<or> cl_state t' = SnAuthenticatingHls \<or>
      cl_state t' = SnAssociated \<and> \<not> AuthMechanism_is_high_level (cc_mechanism (cl_config s)))"
    if "note_title aare s = (r', u)" "accepted_response aare u = (r'', t')" for aare r' u r'' t'
    using grows_accepted [OF that(2)] note_title_leaves [OF that(1)] by (auto intro: grows_trans)
  show ?thesis using assms unfolding handle_associate_response_def
    by (auto simp: rejected_def dest: note_title_leaves accepted split: if_splits sum.splits prod.splits)
qed

text \<open>The answer to the challenge: what the session has to find in it, and that it opens on nothing else.\<close>

definition proof_received :: "bytes \<Rightarrow> ClientSession \<Rightarrow> bool" where
  "proof_received apdu s \<longleftrightarrow>
     (case fst (client_unprotect_into apdu (replicate 512 0) s) of
        Inl _ \<Rightarrow> False
      | Inr plain \<Rightarrow>
          (case from_bytes Apdu_decode plain of
             Inr (ApActionResponse (ActRspNormal _ response)) \<Rightarrow>
               (case (hls_proof response, cl_server_system_title s, Protector_auth_key (cl_protector s)) of
                  (Some proof1, Some peer, Some ak) \<Rightarrow>
                    ActionResult_is_success (aro_result response) \<and>
                    Protector_verify_hls_gmac (cl_protector s) peer ak (take (cl_client_challenge_len s) (cl_client_challenge s)) proof1 = Inr ()
                | _ \<Rightarrow> False)
           | _ \<Rightarrow> False))"

lemma hls_reply_cases:
  assumes "handle_hls_reply_response apdu s = (r, t)"
  obtains (still) "grows s t" "cl_state t = cl_state s" | (closed) "grows s t" "cl_state t = SnClosed"
  | (proved) "grows s t" "cl_state t = SnAssociated" "r = Inr StepEstablished" "proof_received apdu s"
proof -
  obtain r1 u where un: "client_unprotect_into apdu (replicate 512 0) s = (r1, u)" by fastforce
  have u: "grows s u" "cl_state u = cl_state s" using steadyD [OF steady_unprotect(2) un] by simp_all
  have same: "cl_server_system_title u = cl_server_system_title s" "cl_protector u = cl_protector s"
    "cl_client_challenge u = cl_client_challenge s" "cl_client_challenge_len u = cl_client_challenge_len s"
    using un by (auto simp: client_unprotect_into_def Let_def split: prod.splits)
  have "(grows s t \<and> (cl_state t = cl_state s \<or> cl_state t = SnClosed)) \<or>
      grows s t \<and> cl_state t = SnAssociated \<and> r = Inr StepEstablished \<and> proof_received apdu s"
    using assms un u same unfolding handle_hls_reply_response_def proof_received_def
    by (auto simp: try_bind_def rejected_def need_def fail_def ok_def lift_res_def client_auth_key_def
      split: sum.splits Apdu.splits ActionResponse.splits if_splits option.splits prod.splits)
  then show thesis using still closed proved by blast
qed

lemma grows_response:
  assumes "handle_response apdu buf s = (r, t)"
  shows "grows s t \<and> (cl_state t = cl_state s \<or> cl_state t = SnClosed)"
proof -
  obtain r1 u where un: "client_unprotect_into apdu buf s = (r1, u)" by fastforce
  have u: "grows s u" "cl_state u = cl_state s" using steadyD [OF steady_unprotect(2) un] by simp_all
  show ?thesis using assms un u unfolding handle_response_def
    by (auto simp: try_bind_def error_if_def need_def fail_def ok_def lift_res_def split: sum.splits if_splits option.splits)
qed

subsection \<open>The life of a session\<close>

text \<open>Every call of a session without short names that changes it but \<^verbatim>\<open>set_invocation_counter\<close>, with which the caller restores a
  counter from storage; with that one too it is \<open>client_call\<close> below.\<close>

inductive client_step :: "ClientEnv \<Rightarrow> ClientSession \<Rightarrow> ClientSession \<Rightarrow> bool" for env where
  associates: "associate_request env s out = (r, t, out') \<Longrightarrow> client_step env s t"
| answered: "handle_associate_response apdu s = (r, t) \<Longrightarrow> client_step env s t"
| proves: "hls_reply_request s out = (r, t, out') \<Longrightarrow> client_step env s t"
| checked: "handle_hls_reply_response apdu s = (r, t) \<Longrightarrow> client_step env s t"
| gets: "get_request d a s out = (r, t, out') \<Longrightarrow> client_step env s t"
| gets_list: "get_request_with_list items s out = (r, t, out') \<Longrightarrow> client_step env s t"
| gets_next: "get_next_block_request n s out = (r, t, out') \<Longrightarrow> client_step env s t"
| sets: "set_request d a v s out = (r, t, out') \<Longrightarrow> client_step env s t"
| sets_list: "set_request_with_list items vs s out = (r, t, out') \<Longrightarrow> client_step env s t"
| acts: "action_request m p s out = (r, t, out') \<Longrightarrow> client_step env s t"
| acts_list: "action_request_with_list ms ps s out = (r, t, out') \<Longrightarrow> client_step env s t"
| acts_next: "action_next_block_request n s out = (r, t, out') \<Longrightarrow> client_step env s t"
| accesses: "access_request as s out = (r, t, out') \<Longrightarrow> client_step env s t"
| sends_block: "next_block_request b s out = (r, b', t, out') \<Longrightarrow> client_step env s t"
| responded: "handle_response apdu buf s = (r, t) \<Longrightarrow> client_step env s t"
| releases: "release_request s out = (r, t, out') \<Longrightarrow> client_step env s t"

lemma reply_grows: "steady_reply s rep \<Longrightarrow> rep = (r, t, out') \<Longrightarrow> grows s t \<and> cl_state t = cl_state s"
  by simp

lemma steady_step:
  "hls_reply_request s out = (r, t, out') \<Longrightarrow> grows s t \<and> cl_state t = cl_state s"
  "get_request d a s out = (r, t, out') \<Longrightarrow> grows s t \<and> cl_state t = cl_state s"
  "get_request_with_list items s out = (r, t, out') \<Longrightarrow> grows s t \<and> cl_state t = cl_state s"
  "get_next_block_request n s out = (r, t, out') \<Longrightarrow> grows s t \<and> cl_state t = cl_state s"
  "set_request d a v s out = (r, t, out') \<Longrightarrow> grows s t \<and> cl_state t = cl_state s"
  "set_request_with_list items vs s out = (r, t, out') \<Longrightarrow> grows s t \<and> cl_state t = cl_state s"
  "action_request m p s out = (r, t, out') \<Longrightarrow> grows s t \<and> cl_state t = cl_state s"
  "action_request_with_list ms ps s out = (r, t, out') \<Longrightarrow> grows s t \<and> cl_state t = cl_state s"
  "action_next_block_request n s out = (r, t, out') \<Longrightarrow> grows s t \<and> cl_state t = cl_state s"
  "access_request as s out = (r, t, out') \<Longrightarrow> grows s t \<and> cl_state t = cl_state s"
  by (erule reply_grows [OF steady_requests(1)] reply_grows [OF steady_requests(2)] reply_grows [OF steady_requests(3)]
    reply_grows [OF steady_requests(4)] reply_grows [OF steady_requests(5)] reply_grows [OF steady_requests(6)]
    reply_grows [OF steady_requests(7)] reply_grows [OF steady_requests(8)] reply_grows [OF steady_requests(9)]
    reply_grows [OF steady_requests(10)])+

lemma grows_release: "release_request s out = (r, t, out') \<Longrightarrow> grows s t \<and> (cl_state t = cl_state s \<or> cl_state t = SnReleasing)"
  by (auto simp: release_request_def split: prod.splits sum.splits)

text \<open>One step: the session grows, and if it becomes associated, a proof was received or none was asked for.\<close>

lemma client_step_grows:
  assumes "client_step env s t" "random_in_place env"
  shows "grows s t \<and> (cl_state t = SnAssociated \<longrightarrow>
    cl_state s = SnAssociated \<or> \<not> AuthMechanism_is_high_level (cc_mechanism (cl_config s)) \<or>
    (\<exists>apdu. handle_hls_reply_response apdu s = (Inr StepEstablished, t) \<and> proof_received apdu s))"
  using assms(1)
proof cases
  case (associates out r out') then show ?thesis using grows_associate [OF assms(2)] by fastforce
next
  case (answered apdu r) then show ?thesis using grows_associate_response by fastforce
next
  case (checked apdu r)
  from this show ?thesis by (rule hls_reply_cases) (use checked in auto)
next
  case (sends_block b out r b' out') then show ?thesis using steady_block_request by fastforce
next
  case (responded apdu buf r) then show ?thesis using grows_response by fastforce
next
  case (releases out r out') then show ?thesis using grows_release by fastforce
qed (auto dest: steady_step)

lemma client_steps_grow: "(client_step env)\<^sup>*\<^sup>* s t \<Longrightarrow> random_in_place env \<Longrightarrow> grows s t"
  by (induction rule: rtranclp_induct) (auto intro: grows_trans dest: client_step_grows)

text \<open>The calls with the restoring of a counter: it can go to any value, and everything else is kept.\<close>

inductive client_call :: "ClientEnv \<Rightarrow> ClientSession \<Rightarrow> ClientSession \<Rightarrow> bool" for env where
  calls: "client_step env s t \<Longrightarrow> client_call env s t"
| restores: "client_call env s (set_invocation_counter v s)"

definition keeps :: "ClientSession \<Rightarrow> ClientSession \<Rightarrow> bool" where
  "keeps s t \<longleftrightarrow> cl_config t = cl_config s \<and> cl_N t = cl_N s \<and> (client_inv s \<longrightarrow> client_inv t)"

lemma client_call_keeps: "client_call env s t \<Longrightarrow> random_in_place env \<Longrightarrow> keeps s t"
  by (induction rule: client_call.induct)
    (auto simp: keeps_def grows_def client_inv_def set_invocation_counter_def dest: client_step_grows)

lemma client_calls_keep: "(client_call env)\<^sup>*\<^sup>* s t \<Longrightarrow> random_in_place env \<Longrightarrow> keeps s t"
  by (induction rule: rtranclp_induct) (auto simp: keeps_def dest: client_call_keeps)

text \<open>C10: The invariant of a client session: whatever sequence of calls is made on it, the restoring of a counter among them, and whatever bytes it is given, the
  challenges lie inside their buffers, the outstanding invoke identifier is the last one it gave out, and the configuration and
  the size of the buffer stay.  The invocation counter never goes back in a sequence of calls without \<^verbatim>\<open>set_invocation_counter\<close>, the call that sets it
  unchecked, which can lower it.  The calls are those of a session built without the short-name feature, which is off by
  default, and the random source fills the buffer it is given.\<close>

theorem client_lifetime_invariant:
  assumes "(client_call env)\<^sup>*\<^sup>* s t" "random_in_place env" "client_inv s"
  shows "client_inv t \<and> cl_config t = cl_config s \<and> cl_N t = cl_N s \<and>
    ((client_step env)\<^sup>*\<^sup>* s t \<longrightarrow> Client_invocation_counter s \<le> Client_invocation_counter t)"
  using client_calls_keep [OF assms(1,2)] client_steps_grow [OF _ assms(2)] assms(3) by (auto simp: keeps_def grows_def)

lemma client_inv_new: "client_inv (ClientSession_new N config provider)"
  by (simp add: client_inv_def ClientSession_new_def)

theorem client_lifetime_invariant_witness:
  "\<exists>r t out. associate_request demo_client_env (demo_client 64 AmHighGmac) (replicate 100 0) = (r, t, out) \<and> cl_state t = SnAssociating \<and>
     client_inv t \<and> cl_config t = cl_config (demo_client 64 AmHighGmac) \<and> cl_client_challenge_len t = 16 \<and>
     Client_invocation_counter (demo_client 64 AmHighGmac) \<le> Client_invocation_counter t \<and> client_inv (set_invocation_counter 7 t)"
proof -
  obtain r t out where run: "associate_request demo_client_env (demo_client 64 AmHighGmac) (replicate 100 0) = (r, t, out)" by (rule prod_cases3)
  have "(\<lambda>(r, t, out). cl_state t = SnAssociating \<and> cl_client_challenge_len t = 16)
      (associate_request demo_client_env (demo_client 64 AmHighGmac) (replicate 100 0))" by code_simp
  moreover have env: "random_in_place demo_client_env" by (simp add: random_in_place_def demo_client_env_def)
  note step = client_step.associates [OF run]
  note one = r_into_rtranclp [of "client_call demo_client_env", OF client_call.calls, OF step]
  have two: "(client_call demo_client_env)\<^sup>*\<^sup>* (demo_client 64 AmHighGmac) (set_invocation_counter 7 t)"
    by (rule rtranclp.rtrancl_into_rtrancl [OF one client_call.restores])
  have new: "client_inv (demo_client 64 AmHighGmac)" unfolding demo_client_def by (rule client_inv_new)
  show ?thesis
    using calculation client_lifetime_invariant [OF one env new] client_lifetime_invariant [OF two env new]
      r_into_rtranclp [of "client_step demo_client_env", OF step] run by simp
qed

text \<open>C11: A session whose mechanism is a high level one becomes associated in one way only: whatever the session's state and whatever call is
  made on it, the step that opens the association is the reception of an answer to the session's own challenge.  The answer opens
  under the session's protection, is a successful ACTION response, and carries a response that verifies against the challenge
  under the authentication key and the title the peer gave.\<close>

theorem client_association_needs_proof:
  assumes "client_step env s t" "random_in_place env" "AuthMechanism_is_high_level (cc_mechanism (cl_config s))"
    "cl_state s \<noteq> SnAssociated" "cl_state t = SnAssociated"
  shows "\<exists>apdu. handle_hls_reply_response apdu s = (Inr StepEstablished, t) \<and> proof_received apdu s"
  using client_step_grows [OF assms(1,2)] assms(3-5) by blast

definition demo_answer :: bytes where
  "demo_answer = [0xC7, 0x01, 0xC1, 0x00, 0x01, 0x00, 0x09, 0x11] @ [0x10, 0, 0, 0, 9] @ replicate 12 25"

theorem client_association_needs_proof_witness:
  "\<exists>t. handle_hls_reply_response demo_answer demo_challenged = (Inr StepEstablished, t) \<and> cl_state t = SnAssociated \<and>
    (\<exists>apdu. proof_received apdu demo_challenged)"
proof -
  obtain r t where run: "handle_hls_reply_response demo_answer demo_challenged = (r, t)" by fastforce
  have "(\<lambda>(r, t). r = Inr StepEstablished \<and> cl_state t = SnAssociated) (handle_hls_reply_response demo_answer demo_challenged)" by code_simp
  moreover have "random_in_place demo_client_env" by (simp add: random_in_place_def demo_client_env_def)
  ultimately show ?thesis
    using client_association_needs_proof [OF client_step.checked [OF run], of demo_client_env] run
    by (auto simp: demo_challenged_def demo_client_def ClientSession_new_def ClientConfig_default_def AuthMechanism_is_high_level_def)
qed

end
