(* ===== verification/EndToEnd.thy ===== *)
theory EndToEnd
  imports Client ServerBlocks
begin

text \<open>
  A client session and a server, talking over a link that carries every APDU: a value that the client sends in blocks is written
  by the server once and whole, and the client learns the outcome.  The association is plain; what protection adds is the subject
  of \<open>ApduProtection\<close>.
\<close>

subsection \<open>An APDU crosses the link\<close>

text \<open>An APDU without borrowed values is the only one that says what it says.\<close>

definition settled :: "Apdu \<Rightarrow> bool" where
  "settled a \<longleftrightarrow> Apdu_valid a \<and> (\<forall>y. Apdu_abs y = Apdu_abs a \<longrightarrow> y = a)"

lemma settled_read_back:
  assumes "settled a" "writes (Apdu_encode a) bs"
  shows "from_bytes Apdu_decode bs = Inr a"
proof -
  from codes_round_trip [OF codes_apdu] assms(1) obtain cs y where
    bs: "Apdu_encode a (VecW []) = (Inr (), VecW cs)" "from_bytes Apdu_decode cs = Inr y" "Apdu_abs y = Apdu_abs a"
    unfolding settled_def by blast
  have "cs = bs" using writes_VecW [OF assms(2), of "[]"] bs(1) by simp
  moreover have "y = a" using assms(1) bs(3) by (simp add: settled_def)
  ultimately show ?thesis using bs(2) by simp
qed

text \<open>The tags of the services these exchanges use.\<close>

definition service_tags :: "u8 list" where
  "service_tags = [0xC0, 0xC1, 0xC3, 0xC4, 0xC5, 0xC7]"

lemma service_tag_table:
  "list_all (\<lambda>b. case ApduTag_from_u8 b of None \<Rightarrow> False | Some tag \<Rightarrow>
     tag \<notin> {AGeneralSigning, AGeneralCiphering, AGeneralGloCiphering, AGeneralDedCiphering, AAarq, AReleaseRequest} \<and>
     ApduTag_unprotect tag = None) service_tags"
  by code_simp

lemma service_tag:
  assumes "b \<in> set service_tags"
  obtains tag where "ApduTag_from_u8 b = Some tag" "ApduTag_unprotect tag = None"
    "tag \<noteq> AGeneralSigning" "tag \<noteq> AGeneralCiphering" "tag \<noteq> AGeneralGloCiphering" "tag \<noteq> AGeneralDedCiphering"
    "tag \<noteq> AAarq" "tag \<noteq> AReleaseRequest"
  using service_tag_table assms by (fastforce simp: list_all_iff split: option.splits)

lemma bare_passes:
  assumes "SecurityPolicy_is_none (in_policy ctx)" "b \<in> set service_tags" "length (b # bs) \<le> length buf"
  shows "unprotect_apdu t ctx replay (b # bs) buf = (Inr (b # bs), replay, overwrite buf 0 (b # bs))"
proof -
  obtain tag where tag: "ApduTag_from_u8 b = Some tag" "ApduTag_unprotect tag = None"
    "tag \<noteq> AGeneralSigning" "tag \<noteq> AGeneralCiphering" "tag \<noteq> AGeneralGloCiphering" "tag \<noteq> AGeneralDedCiphering"
    using service_tag [OF assms(2)] by metis
  have form: "incoming_form ctx tag = ok Bare"
    using tag assms(1) by (cases tag) (simp_all add: incoming_form_def Let_def)
  have skip: "fst (Reader_skip 1 (Reader_new (b # bs))) = Inr ()"
    using decodes_run [OF decodes_skip [of "[b]" 1], of "Reader_new (b # bs)" bs] by simp
  then have "incoming_parse ctx (b # bs) = Inr Bare"
    by (cases "Reader_skip 1 (Reader_new (b # bs))") (simp add: incoming_parse_def Let_def tag(1) form try_bind_def)
  then show ?thesis using assms(3) by (simp add: unprotect_apdu_def)
qed


subsection \<open>Plain ends\<close>

definition plain_client :: "ClientSession \<Rightarrow> bool" where
  "plain_client s \<longleftrightarrow> SecurityPolicy_is_none (cc_security (cl_config s)) \<and> SecurityPolicy_is_none (pr_policy (cl_protector s))"

definition plain_server :: "'s Server \<Rightarrow> bool" where
  "plain_server s \<longleftrightarrow> SecurityPolicy_is_none (sc_security (sv_config s)) \<and> SecurityPolicy_is_none (pr_policy (sv_protector s))"

lemma client_sends_plain:
  assumes "plain_client s" "writes (Apdu_encode a) bs" "length bs \<le> cl_N s" "length bs \<le> length out"
  shows "client_send a s out = (Inr (length bs), s\<lparr>cl_scratch := bs @ drop (length bs) (cl_scratch s)\<rparr>, bs @ drop (length bs) out)"
  unfolding client_send_def encode_into_fits [OF assms(2,3)] using assms(1,4)
  by (simp add: send_plain_def plain_client_def encode_into_fits [OF writes_bytes assms(4)])

lemma server_sends_plain:
  assumes "plain_server s" "writes (Apdu_encode a) bs" "length bs \<le> length (sv_scratch s)" "length bs \<le> length out"
    "length bs \<le> unat (sv_client_max_pdu_size s)"
  shows "send a s out = (Inr (length bs), s\<lparr>sv_scratch := bs @ drop (length bs) (sv_scratch s)\<rparr>, bs @ drop (length bs) out)"
  unfolding send_def encode_into_fits [OF assms(2,3)] using assms(1,4,5)
  by (simp add: Let_def plain_server_def check_fits_def emit_def encode_into_fits [OF writes_bytes assms(4)])

lemma server_takes_plain:
  assumes "plain_server s" "sv_state s = SsAssociated" "b \<in> set service_tags" "settled a" "writes (Apdu_encode a) (b # bs)"
    "length (b # bs) \<le> unat (sc_max_pdu_size (sv_config s))" "length (b # bs) \<le> sv_N s"
  shows "handle env (b # bs) s out = dispatch env a s out"
proof -
  obtain tag where tag: "ApduTag_from_u8 b = Some tag" "tag \<noteq> AAarq" "tag \<noteq> AReleaseRequest"
    using service_tag [OF assms(3)] by metis
  have "unprotect_into (b # bs) (replicate (sv_N s) 0) s = (Inr (b # bs), s)"
    using assms(1,7) by (simp add: unprotect_into_def Let_def bare_passes [OF _ assms(3)] plain_server_def)
  then have "handle_service env (b # bs) s out = dispatch env a s out"
    using assms(2) settled_read_back [OF assms(4,5)] by (simp add: handle_service_def)
  then show ?thesis using assms(6) tag by (cases tag) (simp_all add: handle_def)
qed

lemma client_takes_plain:
  assumes "plain_client s" "b \<in> set service_tags" "settled a" "writes (Apdu_encode a) (b # bs)" "length (b # bs) \<le> length buf"
    "\<not> stray (cl_outstanding s) a" "response_of a = Some rsp" "rsp \<noteq> RsReleased"
  shows "handle_response (b # bs) buf s = (Inr rsp, s)"
proof -
  have "client_unprotect_into (b # bs) buf s = (Inr (b # bs), s)"
    using assms(1,5) by (simp add: client_unprotect_into_def Let_def bare_passes [OF _ assms(2)] plain_client_def)
  then show ?thesis using settled_read_back [OF assms(3,4)] assms(6-8)
    by (simp add: handle_response_def try_bind_def lift_res_def error_if_def need_def ok_def)
qed

subsection \<open>The APDUs of a write in blocks\<close>

definition sa_image :: "DataBlockSA \<Rightarrow> bytes" where
  "sa_image b = of_bool (dbs_last_block b) # be_bytes 4 (dbs_block_number b) @ prefixed (dbs_raw_data b)"

definition first_image :: "InvokeId \<Rightarrow> AttributeDescriptor \<Rightarrow> DataBlockSA \<Rightarrow> bytes" where
  "first_image i d b = [0x02, invoke_byte i] @ be_bytes 2 (ad_class_id d) @ obis_bytes (ad_instance_id d) @ [ad_attribute_id d, 0] @ sa_image b"

lemma writes_sa:
  assumes "length (dbs_raw_data b) < 2 ^ 16"
  shows "writes (DataBlockSA_encode b) (sa_image b)" "length (sa_image b) \<le> length (dbs_raw_data b) + 8"
proof -
  have "writes (DataBlockSA_encode b) ([of_bool (dbs_last_block b)] @ be_bytes 4 (dbs_block_number b) @ prefixed (dbs_raw_data b))"
    unfolding DataBlockSA_encode_def using assms by (intro writes_seq writes_u8 writes_u32 writes_prefixed) (simp add: short_field_def)
  then show "writes (DataBlockSA_encode b) (sa_image b)" by (simp add: sa_image_def)
  have "length (len_bytes (length (dbs_raw_data b))) \<le> Suc 2" using assms by (intro length_len_bytes) simp_all
  then show "length (sa_image b) \<le> length (dbs_raw_data b) + 8" by (simp add: sa_image_def prefixed_def)
qed

lemma writes_first:
  assumes "length (dbs_raw_data b) < 2 ^ 16" "obis_wf (ad_instance_id d)"
  shows "writes (Apdu_encode (ApSetRequest (SetWithFirstDataBlock i d None b))) (0xC1 # first_image i d b)"
    "length (0xC1 # first_image i d b) \<le> length (dbs_raw_data b) + 21"
    "settled (ApSetRequest (SetWithFirstDataBlock i d None b))"
proof -
  have "writes (Apdu_encode (ApSetRequest (SetWithFirstDataBlock i d None b)))
      ([0xC1] @ [0x02] @ [invoke_byte i] @ (be_bytes 2 (ad_class_id d) @ obis_bytes (ad_instance_id d) @ [ad_attribute_id d]) @ [0] @ sa_image b)"
    by (simp only: Apdu_encode_def Apdu.case if_False Apdu_tag.simps Apdu_encode_body.simps SetRequest_encode.simps ApduTag_as_u8.simps
        AttributeDescriptor_encode_def encode_optional_def option.case)
      (intro writes_seq writes_u8 writes_u16 writes_bytes writes_sa assms(1))
  then show "writes (Apdu_encode (ApSetRequest (SetWithFirstDataBlock i d None b))) (0xC1 # first_image i d b)"
    by (simp add: first_image_def)
  show "length (0xC1 # first_image i d b) \<le> length (dbs_raw_data b) + 21"
    using writes_sa(2) [OF assms(1)] assms(2) by (simp add: first_image_def obis_wf_def)
  show "settled (ApSetRequest (SetWithFirstDataBlock i d None b))"
    unfolding settled_def
  proof (intro conjI allI impI)
    show "Apdu_valid (ApSetRequest (SetWithFirstDataBlock i d None b))"
      using assms by (simp add: AttributeDescriptor_valid_def DataBlockSA_valid_def short_field_def)
    fix y assume "Apdu_abs y = Apdu_abs (ApSetRequest (SetWithFirstDataBlock i d None b))"
    then show "y = ApSetRequest (SetWithFirstDataBlock i d None b)"
      by (cases y; simp; rename_tac q; case_tac q; simp)
  qed
qed

lemma settledI: "Apdu_valid a \<Longrightarrow> (\<And>y. Apdu_abs y = Apdu_abs a \<Longrightarrow> y = a) \<Longrightarrow> settled a"
  by (simp add: settled_def)

lemma writes_next:
  assumes "length (dbs_raw_data b) < 2 ^ 16"
  shows "writes (Apdu_encode (ApSetRequest (SetWithDataBlock i b))) (0xC1 # 0x03 # invoke_byte i # sa_image b)"
    "settled (ApSetRequest (SetWithDataBlock i b))"
proof -
  have "writes (Apdu_encode (ApSetRequest (SetWithDataBlock i b))) ([0xC1] @ [0x03] @ [invoke_byte i] @ sa_image b)"
    by (simp only: Apdu_encode_def Apdu.case if_False Apdu_tag.simps Apdu_encode_body.simps SetRequest_encode.simps ApduTag_as_u8.simps)
      (intro writes_seq writes_u8 writes_sa assms(1))
  then show "writes (Apdu_encode (ApSetRequest (SetWithDataBlock i b))) (0xC1 # 0x03 # invoke_byte i # sa_image b)" by simp
  show "settled (ApSetRequest (SetWithDataBlock i b))"
  proof (rule settledI)
    show "Apdu_valid (ApSetRequest (SetWithDataBlock i b))" using assms by (simp add: DataBlockSA_valid_def short_field_def)
    fix y assume "Apdu_abs y = Apdu_abs (ApSetRequest (SetWithDataBlock i b))"
    then show "y = ApSetRequest (SetWithDataBlock i b)" by (cases y; simp; rename_tac q; case_tac q; simp)
  qed
qed

lemma writes_accepted:
  "writes (Apdu_encode (ApSetResponse (SetRspDataBlock i n))) (0xC5 # 0x02 # invoke_byte i # be_bytes 4 n)"
  "settled (ApSetResponse (SetRspDataBlock i n))"
proof -
  have "writes (Apdu_encode (ApSetResponse (SetRspDataBlock i n))) ([0xC5] @ [0x02] @ [invoke_byte i] @ be_bytes 4 n)"
    by (simp only: Apdu_encode_def Apdu.case if_False Apdu_tag.simps Apdu_encode_body.simps SetResponse_encode.simps ApduTag_as_u8.simps)
      (intro writes_seq writes_u8 writes_u32)
  then show "writes (Apdu_encode (ApSetResponse (SetRspDataBlock i n))) (0xC5 # 0x02 # invoke_byte i # be_bytes 4 n)" by simp
  show "settled (ApSetResponse (SetRspDataBlock i n))"
  proof (rule settledI)
    fix y assume "Apdu_abs y = Apdu_abs (ApSetResponse (SetRspDataBlock i n))"
    then show "y = ApSetResponse (SetRspDataBlock i n)" by (cases y; simp; rename_tac q; case_tac q; simp)
  qed simp
qed

lemma writes_outcome:
  assumes "DataAccessResult_valid r"
  shows "writes (Apdu_encode (ApSetResponse (SetRspLastDataBlock i r n))) (0xC5 # 0x03 # invoke_byte i # DataAccessResult_as_u8 r # be_bytes 4 n)"
    "settled (ApSetResponse (SetRspLastDataBlock i r n))"
proof -
  have "writes (Apdu_encode (ApSetResponse (SetRspLastDataBlock i r n))) ([0xC5] @ [0x03] @ [invoke_byte i] @ [DataAccessResult_as_u8 r] @ be_bytes 4 n)"
    by (simp only: Apdu_encode_def Apdu.case if_False Apdu_tag.simps Apdu_encode_body.simps SetResponse_encode.simps ApduTag_as_u8.simps)
      (intro writes_seq writes_u8 writes_u32)
  then show "writes (Apdu_encode (ApSetResponse (SetRspLastDataBlock i r n))) (0xC5 # 0x03 # invoke_byte i # DataAccessResult_as_u8 r # be_bytes 4 n)"
    by simp
  show "settled (ApSetResponse (SetRspLastDataBlock i r n))"
  proof (rule settledI)
    show "Apdu_valid (ApSetResponse (SetRspLastDataBlock i r n))" using assms by simp
    fix y assume "Apdu_abs y = Apdu_abs (ApSetResponse (SetRspLastDataBlock i r n))"
    then show "y = ApSetResponse (SetRspLastDataBlock i r n)" by (cases y; simp; rename_tac q; case_tac q; simp)
  qed
qed

subsection \<open>The exchange\<close>

text \<open>
  What the application on the client's side does: ask the session for the next block, carry it to the server, give the session
  the answer, and go on while blocks are accepted.  \<open>None\<close>: an end reported an error, or the fuel ran out.
\<close>

fun write_in_blocks ::
  "nat \<Rightarrow> 's Env \<Rightarrow> BlockSender \<Rightarrow> ClientSession \<Rightarrow> bytes \<Rightarrow> 's Server \<Rightarrow> bytes \<Rightarrow> bytes \<Rightarrow> (Response \<times> ClientSession \<times> 's Server) option" where
  "write_in_blocks 0 env b s out srv sout buf = None"
| "write_in_blocks (Suc fuel) env b s out srv sout buf =
     (case next_block_request b s out of
        (Inl _, _) \<Rightarrow> None
      | (Inr n, b, s, out) \<Rightarrow>
          (case handle env (take n out) srv sout of
             (Inl _, _) \<Rightarrow> None
           | (Inr m, srv, sout) \<Rightarrow>
               (case handle_response (take m sout) buf s of
                  (Inl _, _) \<Rightarrow> None
                | (Inr rsp, s) \<Rightarrow>
                    if BlockSender_is_done b then Some (rsp, s, srv)
                    else if rsp = RsBlockAccepted (bk_block b) then write_in_blocks fuel env b s out srv sout buf
                    else None)))"

text \<open>The sizes that let every APDU through: of the value, the fragment \<open>f\<close> and the buffers.\<close>

definition roomy :: "ClientSession \<Rightarrow> 's Server \<Rightarrow> nat \<Rightarrow> nat \<Rightarrow> bool" where
  "roomy s srv len f \<longleftrightarrow> 0 < f \<and> f + 21 \<le> unat (sc_max_pdu_size (sv_config srv)) \<and> f + 21 \<le> sv_N srv \<and> f + 21 \<le> cl_N s \<and>
     8 \<le> length (sv_scratch srv) \<and> 8 \<le> unat (sv_client_max_pdu_size srv) \<and> len \<le> sv_N srv \<and> len < 2 ^ 32"

lemma next_block_fields:
  assumes "bk_sent b \<le> length (bk_bytes b)"
  shows "dbs_raw_data (next_block b) = take (BlockSender_end b - bk_sent b) (drop (bk_sent b) (bk_bytes b))"
    "dbs_block_number (next_block b) = sat_inc (bk_block b)" "dbs_last_block (next_block b) \<longleftrightarrow> BlockSender_end b = length (bk_bytes b)"
    "length (dbs_raw_data (next_block b)) \<le> bk_fragment b" "take (bk_sent b) (bk_bytes b) @ dbs_raw_data (next_block b) = take (BlockSender_end b) (bk_bytes b)"
proof -
  have e: "bk_sent b \<le> BlockSender_end b" "BlockSender_end b \<le> length (bk_bytes b)" "BlockSender_end b - bk_sent b \<le> bk_fragment b"
    using assms by (auto simp: BlockSender_end_def)
  then have "slice (bk_bytes b) (bk_sent b) (BlockSender_end b) = Some (take (BlockSender_end b - bk_sent b) (drop (bk_sent b) (bk_bytes b)))"
    by (simp add: slice_def)
  then show raw: "dbs_raw_data (next_block b) = take (BlockSender_end b - bk_sent b) (drop (bk_sent b) (bk_bytes b))"
    and "dbs_block_number (next_block b) = sat_inc (bk_block b)" and "dbs_last_block (next_block b) \<longleftrightarrow> BlockSender_end b = length (bk_bytes b)"
    by (simp_all add: next_block_def)
  show "length (dbs_raw_data (next_block b)) \<le> bk_fragment b" using e by (simp add: raw)
  show "take (bk_sent b) (bk_bytes b) @ dbs_raw_data (next_block b) = take (BlockSender_end b) (bk_bytes b)"
    using e by (simp add: raw flip: take_add)
qed

text \<open>What answering a block leaves alone.\<close>

definition alike :: "'s Server \<Rightarrow> 's Server \<Rightarrow> bool" where
  "alike s t \<longleftrightarrow> sv_config t = sv_config s \<and> sv_protector t = sv_protector s \<and> length (sv_scratch t) = length (sv_scratch s) \<and>
     sv_client_max_pdu_size t = sv_client_max_pdu_size s"

lemma continue_accepts:
  assumes "receiving s0 i d got k s" "k \<noteq> - 1" "length got + length f \<le> sv_N s0"
  obtains t where "receiving s0 i d (got @ f) (k + 1) t" "alike s t"
    "continue_blocked_set env i \<lparr>dbs_last_block = False, dbs_block_number = k + 1, dbs_raw_data = f\<rparr> s out =
      send (ApSetResponse (SetRspDataBlock i (k + 1))) t out"
proof -
  have got: "take (length got + length f) (overwrite (sv_response s) (length got) f) = got @ f"
    using assms(1) take_overwrite_upto [of "length got" "sv_response s" f] by (simp add: receiving_def)
  show thesis
    by (rule that [of "s\<lparr>sv_response := overwrite (sv_response s) (length got) f, sv_transfer := TrReceivingSet i d False 0 (length got + length f) (k + 1)\<rparr>"])
      (use assms got in \<open>simp_all add: receiving_def continue_blocked_set_def sat_inc_step agreed_def Let_def alike_def\<close>)
qed

lemma continue_finishes:
  assumes "receiving s0 i d got k s" "k \<noteq> - 1" "length got + length f \<le> sv_N s0" "from_bytes Data_decode (got @ f) = Inr v"
  obtains t where "sv_store t = snd (write_one env d None v (sv_store s0))" "alike s t"
    "continue_blocked_set env i \<lparr>dbs_last_block = True, dbs_block_number = k + 1, dbs_raw_data = f\<rparr> s out =
      send (ApSetResponse (SetRspLastDataBlock i (fst (write_one env d None v (sv_store s0))) (k + 1))) t out"
proof -
  let ?r = "overwrite (sv_response s) (length got) f"
  have "take (length got + length f) ?r = got @ f"
    using assms(1) take_overwrite_upto [of "length got" "sv_response s" f] by (simp add: receiving_def)
  moreover have "length got + length f \<le> length ?r" using assms(1,3) by (simp add: receiving_def)
  ultimately have whole: "slice ?r 0 (length got + length f) = Some (got @ f)" by (simp add: slice_def)
  obtain r store where w: "write_one env d None v (sv_store s0) = (r, store)" by fastforce
  show thesis
    by (rule that [of "s\<lparr>sv_response := ?r, sv_transfer := TrIdle, sv_store := store\<rparr>"])
      (use assms w whole in \<open>simp_all add: receiving_def continue_blocked_set_def finish_blocked_set_def set_last_block_def sat_inc_step Let_def alike_def\<close>)
qed

text \<open>The client's side of one block.\<close>

definition block_bytes :: "InvokeId \<Rightarrow> AttributeDescriptor \<Rightarrow> BlockSender \<Rightarrow> bytes" where
  "block_bytes i d b = (if bk_block b = 0 then first_image i d (next_block b) else 0x03 # invoke_byte i # sa_image (next_block b))"

definition after_block :: "BlockSender \<Rightarrow> BlockSender" where
  "after_block b = b\<lparr>bk_sent := BlockSender_end b, bk_block := sat_inc (bk_block b)\<rparr>"

lemma block_bytes_ok:
  assumes "bk_sent b \<le> length (bk_bytes b)" "bk_fragment b < 2 ^ 16" "obis_wf (ad_instance_id d)" "bk_target b = BtAttribute d None"
  shows "writes (Apdu_encode (block_request (bk_block b = 0) i (next_block b) (bk_target b))) (0xC1 # block_bytes i d b)"
    "settled (block_request (bk_block b = 0) i (next_block b) (bk_target b))" "length (0xC1 # block_bytes i d b) \<le> bk_fragment b + 21"
proof -
  have raw: "length (dbs_raw_data (next_block b)) < 2 ^ 16" "length (dbs_raw_data (next_block b)) \<le> bk_fragment b"
    using next_block_fields(4) [OF assms(1)] assms(2) by auto
  note first = writes_first [OF raw(1) assms(3)] and rest = writes_next [OF raw(1)]
  show "writes (Apdu_encode (block_request (bk_block b = 0) i (next_block b) (bk_target b))) (0xC1 # block_bytes i d b)"
    "settled (block_request (bk_block b = 0) i (next_block b) (bk_target b))"
    using first(1,3) rest by (simp_all add: block_bytes_def assms(4))
  show "length (0xC1 # block_bytes i d b) \<le> bk_fragment b + 21"
    using first(2) [of i] writes_sa(2) [OF raw(1)] raw(2) by (auto simp: block_bytes_def)
qed

lemma asks_block:
  assumes "plain_client s" "cl_state s = SnAssociated" "bk_block b \<noteq> 0 \<Longrightarrow> cl_outstanding s = Some i" "bk_sent b < length (bk_bytes b)"
    "bk_fragment b < 2 ^ 16" "obis_wf (ad_instance_id d)" "bk_target b = BtAttribute d None" "bk_fragment b + 21 \<le> cl_N s" "bk_fragment b + 21 \<le> length out"
  obtains i' t where "cl_outstanding t = Some i'" "bk_block b \<noteq> 0 \<Longrightarrow> i' = i" "plain_client t" "cl_state t = SnAssociated" "cl_N t = cl_N s"
    "next_block_request b s out = (Inr (length (0xC1 # block_bytes i' d b)), after_block b, t,
       (0xC1 # block_bytes i' d b) @ drop (length (0xC1 # block_bytes i' d b)) out)"
proof -
  obtain i' u where u: "(if bk_block b = 0 then next_invoke_id else outstanding_id) s = (Inr i', u)" "cl_outstanding u = Some i'"
    "bk_block b \<noteq> 0 \<Longrightarrow> i' = i" "plain_client u" "cl_state u = SnAssociated" "cl_scratch u = cl_scratch s"
  proof (cases "bk_block b = 0")
    case True
    show thesis
      by (rule that [of "InvokeId_confirmed ((cl_invoke_id s + 1) AND 0x0F)"
            "s\<lparr>cl_invoke_id := (cl_invoke_id s + 1) AND 0x0F, cl_outstanding := Some (InvokeId_confirmed ((cl_invoke_id s + 1) AND 0x0F))\<rparr>"])
        (use True assms(1,2) in \<open>simp_all add: next_invoke_id_def Let_def plain_client_def\<close>)
  next
    case False
    show thesis by (rule that [of i s]) (use False assms(1-3) in \<open>simp_all add: outstanding_id_def need_def ok_def\<close>)
  qed
  let ?bs = "0xC1 # block_bytes i' d b"
  have le: "bk_sent b \<le> length (bk_bytes b)" using assms(4) by simp
  note img = block_bytes_ok [OF le assms(5-7), of i']
  have fits: "length ?bs \<le> cl_N u" "length ?bs \<le> length out" using order_trans [OF img(3)] assms(8,9) u(6) by simp_all
  note sent = client_sends_plain [OF u(4) img(1) fits]
  have prep: "try_bind require_associated (\<lambda>_. try_bind (error_if (BlockSender_is_done b) UnexpectedMessage) (\<lambda>_.
      try_bind (if bk_block b = 0 then next_invoke_id else outstanding_id) (\<lambda>i. ok (block_request (bk_block b = 0) i (next_block b) (bk_target b))))) s =
      (Inr (block_request (bk_block b = 0) i' (next_block b) (bk_target b)), u)"
    using assms(2,4) u(1) by (simp add: try_bind_def require_associated_def error_if_def ok_def BlockSender_is_done_def)
  show thesis
    by (rule that [of "u\<lparr>cl_scratch := ?bs @ drop (length ?bs) (cl_scratch u)\<rparr>" i'])
      (use u fits in \<open>auto simp: next_block_request_def request_def prep sent after_block_def plain_client_def\<close>)
qed

text \<open>The server's side of one block: it behaves as for a block of a transfer that is under way.\<close>

definition ready :: "'s Env \<Rightarrow> 's Server \<Rightarrow> AttributeDescriptor \<Rightarrow> bool" where
  "ready env s d \<longleftrightarrow> plain_server s \<and> sv_state s = SsAssociated \<and> agreed s SET \<and> agreed s BLOCK_TRANSFER_WITH_SET_OR_WRITE \<and>
     can_write (rights_of env (sv_store s) d)"

text \<open>Between two blocks, seen from the server: nothing has arrived, or what has arrived is what was sent.\<close>

definition midway :: "'s Server \<Rightarrow> 's Server \<Rightarrow> AttributeDescriptor \<Rightarrow> InvokeId \<Rightarrow> BlockSender \<Rightarrow> bool" where
  "midway s0 s d i b \<longleftrightarrow> (if bk_block b = 0 then bk_sent b = 0 \<and> s = s0 else receiving s0 i d (take (bk_sent b) (bk_bytes b)) (bk_block b) s) \<and>
     alike s0 s"

lemma alike_plain: "alike s0 s \<Longrightarrow> plain_server s \<longleftrightarrow> plain_server s0"
  by (simp add: alike_def plain_server_def)

lemma alike_trans: "alike s t \<Longrightarrow> alike t u \<Longrightarrow> alike s u"
  by (simp add: alike_def)

lemma takes_block:
  assumes "midway s0 s d i b" "ready env s0 d" "roomy c s0 (length (bk_bytes b)) (bk_fragment b)" "bk_sent b < length (bk_bytes b)"
    "obis_wf (ad_instance_id d)" "bk_target b = BtAttribute d None" "bk_block b \<noteq> 0 \<Longrightarrow> i' = i"
  obtains t where "receiving s0 i' d (take (bk_sent b) (bk_bytes b)) (bk_block b) t" "alike s0 t"
    "handle env (0xC1 # block_bytes i' d b) s out = continue_blocked_set env i' (next_block b) t out"
proof -
  note s0 = assms(2) [unfolded ready_def] and room = assms(3) [unfolded roomy_def]
  have le: "bk_sent b \<le> length (bk_bytes b)" using assms(4) by simp
  have "unat (sc_max_pdu_size (sv_config s0)) < 2 ^ 16" using unat_bound [of "sc_max_pdu_size (sv_config s0)"] by simp
  then have f: "bk_fragment b < 2 ^ 16" using room by linarith
  note img = block_bytes_ok [OF le f assms(5,6), of i']
  have alike: "alike s0 s" using assms(1) by (simp add: midway_def)
  have open1: "sv_state s = SsAssociated" "agreed s SET" "sv_N s = sv_N s0"
    using assms(1) s0 by (auto simp: midway_def receiving_def split: if_splits)
  have "handle env (0xC1 # block_bytes i' d b) s out = dispatch env (block_request (bk_block b = 0) i' (next_block b) (bk_target b)) s out"
  proof (rule server_takes_plain [OF _ open1(1) _ img(2,1)])
    show "plain_server s" using s0 alike by (simp add: alike_plain)
    show "0xC1 \<in> set service_tags" by (simp add: service_tags_def)
    have "sv_config s = sv_config s0" using alike by (simp add: alike_def)
    then show "length (0xC1 # block_bytes i' d b) \<le> unat (sc_max_pdu_size (sv_config s))" "length (0xC1 # block_bytes i' d b) \<le> sv_N s"
      using order_trans [OF img(3)] room open1(3) by presburger+
  qed
  also have "\<dots> = handle_set env (if bk_block b = 0 then SetWithFirstDataBlock i' d None (next_block b) else SetWithDataBlock i' (next_block b)) s out"
    by (simp add: dispatch_def assms(6))
  finally have run: "handle env (0xC1 # block_bytes i' d b) s out =
      handle_set env (if bk_block b = 0 then SetWithFirstDataBlock i' d None (next_block b) else SetWithDataBlock i' (next_block b)) s out" .
  show thesis
  proof (cases "bk_block b = 0")
    case True
    then have "s = s0" using assms(1) by (simp add: midway_def)
    then have begun: "handle_set env (SetWithFirstDataBlock i' d None (next_block b)) s out =
        continue_blocked_set env i' (next_block b) (s\<lparr>sv_transfer := TrReceivingSet i' d False 0 0 0\<rparr>) out"
      using s0 by (simp add: handle_set_def begin_blocked_set_def agreed_def)
    show thesis
      by (rule that [of "s\<lparr>sv_transfer := TrReceivingSet i' d False 0 0 0\<rparr>"])
        (use True run begun assms(1) s0 in \<open>simp_all add: midway_def receiving_def agreed_def alike_def\<close>)
  next
    case False
    show thesis
      by (rule that [of s]) (use False run open1 assms(1,7) in \<open>simp_all add: midway_def handle_set_def\<close>)
  qed
qed

text \<open>The answers travel back.\<close>

lemma answer_arrives:
  assumes "plain_server t" "8 \<le> length (sv_scratch t)" "8 \<le> unat (sv_client_max_pdu_size t)" "8 \<le> length sout" "8 \<le> length buf"
    "plain_client c" "cl_outstanding c = Some i"
    and bs: "writes (Apdu_encode (ApSetResponse r)) (0xC5 # bs)" "settled (ApSetResponse r)" "length bs \<le> 7"
    and r: "response_invoke_id (ApSetResponse r) = Some i" "response_of (ApSetResponse r) = Some rsp" "rsp \<noteq> RsReleased"
  shows "send (ApSetResponse r) t sout = (Inr (length (0xC5 # bs)), t\<lparr>sv_scratch := (0xC5 # bs) @ drop (length (0xC5 # bs)) (sv_scratch t)\<rparr>,
      (0xC5 # bs) @ drop (length (0xC5 # bs)) sout)"
    "handle_response (0xC5 # bs) buf c = (Inr rsp, c)"
proof -
  show "send (ApSetResponse r) t sout = (Inr (length (0xC5 # bs)), t\<lparr>sv_scratch := (0xC5 # bs) @ drop (length (0xC5 # bs)) (sv_scratch t)\<rparr>,
      (0xC5 # bs) @ drop (length (0xC5 # bs)) sout)"
    by (rule server_sends_plain [OF assms(1) bs(1)]) (use assms(2-4) bs(3) in simp_all)
  show "handle_response (0xC5 # bs) buf c = (Inr rsp, c)"
    by (rule client_takes_plain [OF assms(6) _ bs(2,1) _ _ r(2,3)]) (use assms(5,7) bs(3) r(1) in \<open>simp_all add: service_tags_def stray_def\<close>)
qed

lemma blocks_left_step:
  assumes "bk_sent b < length (bk_bytes b)" "0 < bk_fragment b" "BlockSender_end b \<noteq> length (bk_bytes b)"
  shows "div_ceil (length (bk_bytes b) - bk_sent b) (bk_fragment b) = Suc (div_ceil (length (bk_bytes b) - BlockSender_end b) (bk_fragment b))"
proof -
  have e: "length (bk_bytes b) - bk_sent b = bk_fragment b + (length (bk_bytes b) - BlockSender_end b)"
    using assms by (auto simp: BlockSender_end_def)
  have step: "div_ceil (f + n) f = Suc (div_ceil n f)" if "0 < f" for f n
  proof -
    have "f + n + f - 1 = f + (n + f - 1)" using that by linarith
    moreover have "(f + m) div f = Suc (m div f)" for m using that by (simp add: div_add_self1)
    ultimately show ?thesis unfolding div_ceil_def by (simp only:)
  qed
  show ?thesis unfolding e by (rule step [OF assms(2)])
qed

lemma exchange_step:
  assumes "next_block_request b c out = (Inr (length q), b1, c1, q @ drop (length q) out)"
    "handle env q s sout = (Inr (length r), s1, r @ drop (length r) sout)" "handle_response r buf c1 = (Inr rsp, c2)"
  shows "write_in_blocks (Suc fuel) env b c out s sout buf =
    (if BlockSender_is_done b1 then Some (rsp, c2, s1)
     else if rsp = RsBlockAccepted (bk_block b1)
     then write_in_blocks fuel env b1 c2 (q @ drop (length q) out) s1 (r @ drop (length r) sout) buf else None)"
  using assms by simp

lemma alike_ready:
  assumes "alike s0 u" "ready env s0 d" "roomy c s0 n f"
  shows "plain_server u \<and> 8 \<le> length (sv_scratch u) \<and> 8 \<le> unat (sv_client_max_pdu_size u)"
  using assms(2,3) alike_plain [OF assms(1)] assms(1) by (simp add: ready_def roomy_def alike_def)

lemma exchange_loop:
  assumes "midway s0 s d i b" "ready env s0 d" "roomy c s0 (length (bk_bytes b)) (bk_fragment b)" "bk_sent b < length (bk_bytes b)"
    "obis_wf (ad_instance_id d)" "bk_target b = BtAttribute d None" "unat (bk_block b) \<le> bk_sent b"
    "plain_client c" "cl_state c = SnAssociated" "bk_block b \<noteq> 0 \<Longrightarrow> cl_outstanding c = Some i"
    "bk_fragment b + 21 \<le> length out" "8 \<le> length sout" "8 \<le> length buf"
    "from_bytes Data_decode (bk_bytes b) = Inr v" "DataAccessResult_valid (fst (write_one env d None v (sv_store s0)))"
    "div_ceil (length (bk_bytes b) - bk_sent b) (bk_fragment b) \<le> fuel"
  shows "\<exists>c' s'. write_in_blocks fuel env b c out s sout buf =
      Some (write_outcome (fst (write_one env d None v (sv_store s0))), c', s') \<and> sv_store s' = snd (write_one env d None v (sv_store s0))"
  using assms
proof (induction fuel arbitrary: s i b c out sout)
  case 0
  then have "bk_sent b < length (bk_bytes b)" "0 < bk_fragment b" by (simp_all add: roomy_def)
  then show ?case using 0(16) by (simp add: div_ceil_def div_eq_0_iff)
next
  case (Suc fuel)
  note room = Suc.prems(3) [unfolded roomy_def] and le = Suc.prems(4)
  have "unat (sc_max_pdu_size (sv_config s0)) < 2 ^ 16" using unat_bound [of "sc_max_pdu_size (sv_config s0)"] by simp
  then have f: "bk_fragment b < 2 ^ 16" using room by linarith
  have cN: "bk_fragment b + 21 \<le> cl_N c" using room by simp
  obtain i' c1 where ask: "cl_outstanding c1 = Some i'" "bk_block b \<noteq> 0 \<Longrightarrow> i' = i" "plain_client c1" "cl_state c1 = SnAssociated" "cl_N c1 = cl_N c"
    "next_block_request b c out = (Inr (length (0xC1 # block_bytes i' d b)), after_block b, c1,
       (0xC1 # block_bytes i' d b) @ drop (length (0xC1 # block_bytes i' d b)) out)"
    using asks_block [OF Suc.prems(8-10) le f Suc.prems(5,6) cN Suc.prems(11)] by metis
  obtain t where t: "receiving s0 i' d (take (bk_sent b) (bk_bytes b)) (bk_block b) t" "alike s0 t"
    "handle env (0xC1 # block_bytes i' d b) s sout = continue_blocked_set env i' (next_block b) t sout"
    using takes_block [OF Suc.prems(1-6) ask(2)] by metis
  have k: "bk_block b \<noteq> - 1"
  proof
    assume "bk_block b = - 1"
    then have "unat (bk_block b) = 2 ^ 32 - 1" by (simp add: unsigned_minus_1_eq_mask mask_eq_exp_minus_1)
    with Suc.prems(7) le room show False by linarith
  qed
  have "sat_inc (bk_block b) = bk_block b + 1" "unat (bk_block b + 1) = unat (bk_block b) + 1"
    using sat_inc_step [OF k] unat_step [OF k] by simp_all
  then have number: "sat_inc (bk_block b) = bk_block b + 1" "0 < bk_block b + 1" "unat (bk_block b + 1) \<le> bk_sent b + 1"
    using Suc.prems(7) by (simp_all add: word_less_nat_alt)
  have le1: "bk_sent b \<le> length (bk_bytes b)" using le by simp
  note nb = next_block_fields [OF le1]
  obtain raw where raw: "dbs_raw_data (next_block b) = raw" by simp
  have got: "length (take (bk_sent b) (bk_bytes b)) + length raw \<le> sv_N s0"
  proof -
    have "length (take (bk_sent b) (bk_bytes b) @ raw) \<le> length (bk_bytes b)" unfolding nb(5) [unfolded raw] by simp
    then show ?thesis using room unfolding length_append by linarith
  qed
  note answers = answer_arrives [where c = c1 and i = i' and buf = buf and sout = sout]
  show ?case
  proof (cases "BlockSender_end b = length (bk_bytes b)")
    case True
    have whole: "from_bytes Data_decode (take (bk_sent b) (bk_bytes b) @ raw) = Inr v"
      using nb(5) [unfolded raw] True Suc.prems(14) by simp
    have blk: "next_block b = \<lparr>dbs_last_block = True, dbs_block_number = bk_block b + 1, dbs_raw_data = raw\<rparr>"
      using nb(2,3) raw True number by simp
    let ?r = "fst (write_one env d None v (sv_store s0))"
    obtain u where u: "sv_store u = snd (write_one env d None v (sv_store s0))" "alike t u"
      "continue_blocked_set env i' (next_block b) t sout = send (ApSetResponse (SetRspLastDataBlock i' ?r (bk_block b + 1))) u sout"
      by (rule continue_finishes [OF t(1) k got whole, of env sout, folded blk])
    have au: "alike s0 u" using t(2) u(2) alike_trans by blast
    note w = writes_outcome [OF Suc.prems(15), of i' "bk_block b + 1"]
    have pu: "plain_server u" "8 \<le> length (sv_scratch u)" "8 \<le> unat (sv_client_max_pdu_size u)"
      using alike_ready [OF au Suc.prems(2,3)] by simp_all
    have rsp: "length (0x03 # invoke_byte i' # DataAccessResult_as_u8 ?r # be_bytes 4 (bk_block b + 1)) \<le> 7"
      "response_invoke_id (ApSetResponse (SetRspLastDataBlock i' ?r (bk_block b + 1))) = Some i'"
      "response_of (ApSetResponse (SetRspLastDataBlock i' ?r (bk_block b + 1))) = Some (write_outcome ?r)" "write_outcome ?r \<noteq> RsReleased"
      by (simp_all add: write_outcome_def)
    note a = answers [OF pu Suc.prems(12,13) ask(3,1) w rsp]
    have done1: "BlockSender_is_done (after_block b)" using True number by (simp add: BlockSender_is_done_def after_block_def)
    show ?thesis unfolding exchange_step [OF ask(6) a(1) [folded u(3), folded t(3)] a(2)] using done1 u(1) by simp
  next
    case False
    then have e: "BlockSender_end b < length (bk_bytes b)" "bk_sent b < BlockSender_end b" using le room by (auto simp: BlockSender_end_def)
    have blk: "next_block b = \<lparr>dbs_last_block = False, dbs_block_number = bk_block b + 1, dbs_raw_data = raw\<rparr>"
      using nb(2,3) raw False number by simp
    obtain u where u: "receiving s0 i' d (take (bk_sent b) (bk_bytes b) @ raw) (bk_block b + 1) u" "alike t u"
      "continue_blocked_set env i' (next_block b) t sout = send (ApSetResponse (SetRspDataBlock i' (bk_block b + 1))) u sout"
      by (rule continue_accepts [OF t(1) k got, of env sout, folded blk])
    have au: "alike s0 u" using t(2) u(2) alike_trans by blast
    note w = writes_accepted [of i' "bk_block b + 1"]
    have pu: "plain_server u" "8 \<le> length (sv_scratch u)" "8 \<le> unat (sv_client_max_pdu_size u)"
      using alike_ready [OF au Suc.prems(2,3)] by simp_all
    have rsp: "length (0x02 # invoke_byte i' # be_bytes 4 (bk_block b + 1)) \<le> 7"
      "response_invoke_id (ApSetResponse (SetRspDataBlock i' (bk_block b + 1))) = Some i'"
      "response_of (ApSetResponse (SetRspDataBlock i' (bk_block b + 1))) = Some (RsBlockAccepted (bk_block b + 1))"
      "RsBlockAccepted (bk_block b + 1) \<noteq> RsReleased"
      by simp_all
    note a = answers [OF pu Suc.prems(12,13) ask(3,1) w rsp]
    let ?img = "0xC5 # 0x02 # invoke_byte i' # be_bytes 4 (bk_block b + 1)"
    define u1 where "u1 = u\<lparr>sv_scratch := ?img @ drop (length ?img) (sv_scratch u)\<rparr>"
    define b1 where "b1 = after_block b"
    have b1: "bk_bytes b1 = bk_bytes b" "bk_fragment b1 = bk_fragment b" "bk_sent b1 = BlockSender_end b" "bk_block b1 = bk_block b + 1"
      "bk_target b1 = bk_target b" by (simp_all add: b1_def after_block_def number)
    have open1: "\<not> BlockSender_is_done b1" using e b1 by (simp add: BlockSender_is_done_def)
    have "length ?img \<le> length (sv_scratch u)" using pu(2) by simp
    then have mid: "midway s0 u1 d i' b1"
      using u(1) nb(5) [unfolded raw] au number by (auto simp: midway_def b1 u1_def receiving_def agreed_def alike_def)
    have "\<exists>c' s'. write_in_blocks fuel env b1 c1 ((0xC1 # block_bytes i' d b) @ drop (length (0xC1 # block_bytes i' d b)) out) u1 (?img @ drop (length ?img) sout) buf =
      Some (write_outcome (fst (write_one env d None v (sv_store s0))), c', s') \<and> sv_store s' = snd (write_one env d None v (sv_store s0))"
    proof (rule Suc.IH [OF mid Suc.prems(2)])
      show "roomy c1 s0 (length (bk_bytes b1)) (bk_fragment b1)" using Suc.prems(3) ask(5) by (simp add: roomy_def b1)
      show "bk_sent b1 < length (bk_bytes b1)" "unat (bk_block b1) \<le> bk_sent b1" using e number(3) by (simp_all add: b1)
      show "div_ceil (length (bk_bytes b1) - bk_sent b1) (bk_fragment b1) \<le> fuel"
        using Suc.prems(16) blocks_left_step [OF le _ False] room by (simp add: b1)
    qed (use Suc.prems ask b1 in simp_all)
    note ih = this
    have step: "write_in_blocks (Suc fuel) env b c out s sout buf =
        write_in_blocks fuel env b1 c1 ((0xC1 # block_bytes i' d b) @ drop (length (0xC1 # block_bytes i' d b)) out) u1 (?img @ drop (length ?img) sout) buf"
      unfolding exchange_step [OF ask(6) a(1) [folded u(3), folded t(3)] a(2), folded b1_def u1_def] using open1 by (simp only: b1(4) if_False if_True refl)
    show ?thesis unfolding step by (rule ih)
  qed
qed

lemma set_transfer_InrD:
  assumes "set_transfer d None v s = (Inr b, s')" "cl_negotiated s = Some neg" "plain_client s"
  shows "b = block_sender (BtAttribute d None) v (bk_fragment b)" "0 < bk_fragment b" "cl_state s = SnAssociated" "s' = s"
    "bk_fragment b + 23 \<le> unat (is_server_max_receive_pdu_size neg)"
  using assms
  by (auto simp: set_transfer_def try_bind_def require_associated_def error_if_def require_conformance_def lift_res_def fail_def ok_def
    max_fragment_less_def CLIENT_HEADER_MAX_def Let_def block_sender_def plain_client_def split: if_splits sum.splits)


definition demo_value :: bytes where
  "demo_value = [0x09, 0x0A] @ replicate 10 0x61"


end
