(* ===== verification/ClientAuth.thy ===== *)
theory ClientAuth
  imports ClientSafety EndToEnd
begin

text \<open>
  A client session against its peers: the handshake and a peer that holds no key and only sends back what the session sent; the
  nonces the session protects under; and what becomes of a transfer when the server takes more than the session can build.
\<close>

subsection \<open>A peer that sends back what it hears\<close>

definition encoded :: "(writer, unit) op \<Rightarrow> bytes" where
  "encoded f = (case f (VecW []) of (_, VecW bs) \<Rightarrow> bs | _ \<Rightarrow> [])"

lemma encoded_writes: "writes f bs \<Longrightarrow> encoded f = bs"
  using writes_VecW [of f bs "[]"] by (simp add: encoded_def)

text \<open>An association response with the title and the challenge of the session it answers.\<close>

definition mirror_aare :: "ClientSession \<Rightarrow> Aare" where
  "mirror_aare s = Aare_default\<lparr>aare_application_context := Some (application_context s),
     aare_responding_ap_title := map_option st_bytes (cc_system_title (cl_config s)), aare_responder_acse_requirements := True,
     aare_mechanism_name := Some (cc_mechanism (cl_config s)),
     aare_responding_authentication_value := Some (take (cl_client_challenge_len s) (cl_client_challenge s))\<rparr>"

text \<open>The answer to the session's proof: the octets of the request from the proof on, behind the head of a successful response.\<close>

definition reflected :: "bytes \<Rightarrow> bytes" where
  "reflected req = [0xC7, 0x01, req ! 2, 0x00, 0x01, 0x00] @ drop 13 req"

lemma context_valid_application: "context_valid (application_context s)"
  by (cases "cc_referencing (cl_config s)"; cases "SecurityPolicy_is_none (cc_security (cl_config s))")
    (simp_all add: application_context_def context_valid_def ApplicationContext_from_arc_def)

lemma mirror_valid:
  assumes "cl_client_challenge_len s \<le> 64" "cc_mechanism (cl_config s) = AmHighGmac" "cc_system_title (cl_config s) = Some title"
    "length (st_bytes title) = 8"
  shows "Aare_valid (mirror_aare s)"
  using assms context_valid_application [of s]
  by (auto simp: Aare_valid_def mirror_aare_def Aare_default_def Aare_parts_def part_defs part_def elements_def tlv_image_def len_bytes_def
    oid_def OID_PREFIX_def mechanism_valid_def AuthMechanism_from_arc_def UserDiagnostic_from_u8_def AssociationResult_from_u8_def)

lemma mirror_starts_handshake:
  assumes "plain_client s" "cl_client_challenge_len s \<le> 64" "cc_mechanism (cl_config s) = AmHighGmac"
    "cc_system_title (cl_config s) = Some title" "length (st_bytes title) = 8" "length (cl_server_challenge s) = 64"
    "length (cl_client_challenge s) = 64" "\<not> SecurityPolicy_dedicated (cc_security (cl_config s))"
  shows "\<exists>t. handle_associate_response (encoded (Aare_encode (mirror_aare s))) s = (Inr StepHlsReplyRequired, t) \<and> plain_client t \<and>
    cl_config t = cl_config s \<and> cl_protector t = cl_protector s \<and> cl_server_system_title t = Some title \<and> cl_state t = SnAuthenticatingHls \<and>
    take (cl_server_challenge_len t) (cl_server_challenge t) = take (cl_client_challenge_len t) (cl_client_challenge t)"
proof -
  have valid: "Aare_valid (mirror_aare s)" by (rule mirror_valid [OF assms(2-5)])
  have bs: "encoded (Aare_encode (mirror_aare s)) = tlv_image 0x61 (elements (Aare_parts (mirror_aare s)))"
    by (rule encoded_writes [OF aare.enc_writes [OF valid]])
  have dec: "from_bytes Aare_decode (encoded (Aare_encode (mirror_aare s))) = Inr (mirror_aare s)"
    unfolding bs by (rule decodes_from_bytes [OF aare.dec_img [OF valid]])
  have head: "\<not> (encoded (Aare_encode (mirror_aare s)) \<noteq> [] \<and> hd (encoded (Aare_encode (mirror_aare s))) = ApduTag_as_u8 AExceptionResponse)"
    unfolding bs by (simp add: tlv_image_def)
  show ?thesis unfolding handle_associate_response_def if_not_P [OF head] dec
    using assms
    by (simp add: note_title_def mirror_aare_def Aare_default_def Aare_is_accepted_def differs_def accepted_response_def complete_association_def
      take_challenge_def Let_def AuthMechanism_is_high_level_def SystemTitle_from_slice_def application_context_def plain_client_def overwrite_front)
qed

text \<open>The session's own proof, as it goes out.\<close>

definition proof_request :: "InvokeId \<Rightarrow> bytes \<Rightarrow> Apdu" where
  "proof_request i reply = ApActionRequest (ActNormal i (MethodDescriptor_new 15 (Obis_new 0 0 40 0 0 255) 1) (Some (DOctetString reply)))"

definition proof_response :: "InvokeId \<Rightarrow> bytes \<Rightarrow> Apdu" where
  "proof_response i reply =
     ApActionResponse (ActRspNormal i \<lparr>aro_result = ActSuccess, aro_return_parameters = Some (GdrData (DOctetString reply))\<rparr>)"

lemma writes_proof_value:
  assumes "length reply = 17"
  shows "writes (Data_encode (DOctetString reply)) (9 # 17 # reply)"
proof -
  have "writes (Data_encode (DOctetString reply)) ([9] @ prefixed reply)"
    unfolding Data_encode_def by (simp only: Data_tag.simps DataTag_as_u8.simps Data_encode_body.simps)
      (intro writes_seq writes_u8 writes_prefixed; simp add: short_field_def assms)
  then show ?thesis using assms by (simp add: prefixed_def len_bytes_def)
qed

lemma plain_octets:
  "Data_abs d = DOctetString b \<longleftrightarrow> d = DOctetString b" "GetDataResult_abs g = GdrData (DOctetString b) \<longleftrightarrow> g = GdrData (DOctetString b)"
proof -
  show *: "Data_abs d = DOctetString b \<longleftrightarrow> d = DOctetString b" for d by (cases d) auto
  show "GetDataResult_abs g = GdrData (DOctetString b) \<longleftrightarrow> g = GdrData (DOctetString b)" by (cases g) (simp_all add: *)
qed

lemma proof_response_plain:
  assumes "Apdu_abs y = Apdu_abs (proof_response i reply)"
  shows "y = proof_response i reply"
proof -
  from assms obtain q where y: "y = ApActionResponse q" by (cases y) (auto simp: proof_response_def)
  with assms obtain r where q: "q = ActRspNormal i r" by (cases q) (auto simp: proof_response_def)
  have "r = \<lparr>aro_result = ActSuccess, aro_return_parameters = Some (GdrData (DOctetString reply))\<rparr>"
    using assms by (cases r) (auto simp: y q proof_response_def ActionResponseWithOptionalData_abs_def plain_octets)
  then show ?thesis by (simp add: y q proof_response_def)
qed

lemma writes_proof:
  assumes "length reply = 17"
  shows "writes (Apdu_encode (proof_request i reply)) ([0xC3, 0x01, invoke_byte i, 0, 15, 0, 0, 40, 0, 0, 255, 1, 1] @ 9 # 17 # reply)"
    "writes (Apdu_encode (proof_response i reply)) ([0xC7, 0x01, invoke_byte i, 0, 1, 0] @ 9 # 17 # reply)"
    "settled (proof_response i reply)"
proof -
  note v = writes_proof_value [OF assms]
  have class_bytes: "be_bytes 2 (15 :: u16) = [0, 15]" by code_simp
  let ?d = "MethodDescriptor_new 15 (Obis_new 0 0 40 0 0 255) 1"
  have "writes (Apdu_encode (proof_request i reply)) ([0xC3] @ [0x01] @ [invoke_byte i] @
      (be_bytes 2 (md_class_id ?d) @ obis_bytes (md_instance_id ?d) @ [md_method_id ?d]) @ [1] @ (9 # 17 # reply))"
    by (simp only: proof_request_def Apdu_encode_def Apdu.case if_False Apdu_tag.simps Apdu_encode_body.simps ActionRequest_encode.simps
        ApduTag_as_u8.simps MethodDescriptor_encode_def encode_optional_def option.case)
      (intro writes_seq writes_u8 writes_u16 writes_bytes v)
  then show "writes (Apdu_encode (proof_request i reply)) ([0xC3, 0x01, invoke_byte i, 0, 15, 0, 0, 40, 0, 0, 255, 1, 1] @ 9 # 17 # reply)"
    by (simp add: MethodDescriptor_new_def Obis_new_def class_bytes)
  have "writes (Apdu_encode (proof_response i reply)) ([0xC7] @ [0x01] @ [invoke_byte i] @ [0] @ [1] @ [0] @ (9 # 17 # reply))"
    by (simp only: proof_response_def Apdu_encode_def Apdu.case if_False Apdu_tag.simps Apdu_encode_body.simps ActionResponse_encode.simps
        ActionResponseWithOptionalData_encode_def ActionResponseWithOptionalData.simps ActionResult_as_u8.simps
        ApduTag_as_u8.simps encode_optional_def option.case GetDataResult_encode.simps)
      (intro writes_seq writes_u8 v)
  then show "writes (Apdu_encode (proof_response i reply)) ([0xC7, 0x01, invoke_byte i, 0, 1, 0] @ 9 # 17 # reply)" by simp
  show "settled (proof_response i reply)"
  proof (rule settledI)
    show "Apdu_valid (proof_response i reply)"
      using assms by (simp add: proof_response_def ActionResponseWithOptionalData_valid_def ActionResult_valid_def ActionResult_from_u8_def short_field_def)
  qed (rule proof_response_plain)
qed

definition hls_prep :: "(ClientSession, Apdu) op" where
  "hls_prep =
     try_bind (\<lambda>s. error_if (cl_state s \<noteq> SnAuthenticatingHls) UnexpectedMessage s) (\<lambda>_.
     try_bind (\<lambda>s. error_if (cc_mechanism (cl_config s) \<noteq> AmHighGmac) Unsupported s) (\<lambda>_.
     try_bind client_title (\<lambda>title.
     try_bind client_next_counter (\<lambda>ic.
     try_bind client_auth_key (\<lambda>ak.
     try_bind (\<lambda>s. (Protector_hls_gmac_response (cl_protector s) title ic ak
         (take (cl_server_challenge_len s) (cl_server_challenge s)), s)) (\<lambda>reply.
     try_bind next_invoke_id (\<lambda>i. ok (proof_request i reply))))))))"

lemma try_bind_Inr_iff: "try_bind f g s = (Inr y, t) \<longleftrightarrow> (\<exists>x u. f s = (Inr x, u) \<and> g x u = (Inr y, t))"
  by (auto simp: try_bind_def split: sum.splits prod.splits)

lemma inr_steps:
  "error_if b kind s = (Inr x, t) \<longleftrightarrow> \<not> b \<and> t = s"
  "client_title s = (Inr title, t) \<longleftrightarrow> cc_system_title (cl_config s) = Some title \<and> t = s"
  "client_auth_key s = (Inr ak, t) \<longleftrightarrow> Protector_auth_key (cl_protector s) = Some ak \<and> t = s"
  by (auto simp: error_if_def client_title_def client_auth_key_def need_def fail_def ok_def split: option.splits)

lemma next_counter_Inr: "client_next_counter s = (Inr ic, t) \<Longrightarrow> \<exists>c. t = s\<lparr>cl_invocation_counter := c\<rparr>"
  by (auto simp: client_next_counter_def split: prod.splits)

lemma next_invoke_Inr: "next_invoke_id s = (Inr i, t) \<Longrightarrow> \<exists>k. t = s\<lparr>cl_invoke_id := k, cl_outstanding := Some i\<rparr>"
  by (auto simp: next_invoke_id_def Let_def)

lemma hls_reply_prep: "hls_reply_request = request hls_prep"
  unfolding hls_reply_request_def hls_prep_def proof_request_def ..

lemma request_InrE:
  assumes "request prep s out = (Inr n, t, out')"
  obtains apdu u where "prep s = (Inr apdu, u)" "client_send apdu u out = (Inr n, t, out')"
  using assms by (auto simp: request_def split: prod.splits sum.splits)

lemma hls_reply_Inr:
  assumes "hls_reply_request s out = (Inr m, t, out')" "plain_client s" "provider_in_place (pr_provider (cl_protector s))"
  obtains i reply title ic ak where "take m out' = [0xC3, 0x01, invoke_byte i, 0, 15, 0, 0, 40, 0, 0, 255, 1, 1] @ 9 # 17 # reply"
    "length reply = 17" "cc_system_title (cl_config s) = Some title" "Protector_auth_key (cl_protector s) = Some ak"
    "Protector_hls_gmac_response (cl_protector s) title ic ak (take (cl_server_challenge_len s) (cl_server_challenge s)) = Inr reply"
    "cl_config t = cl_config s" "cl_protector t = cl_protector s" "cl_server_system_title t = cl_server_system_title s"
    "cl_client_challenge t = cl_client_challenge s" "cl_client_challenge_len t = cl_client_challenge_len s" "plain_client t"
proof -
  have "\<exists>i reply title ic ak counter n. cc_system_title (cl_config s) = Some title \<and> Protector_auth_key (cl_protector s) = Some ak \<and>
      Protector_hls_gmac_response (cl_protector s) title ic ak (take (cl_server_challenge_len s) (cl_server_challenge s)) = Inr reply \<and>
      client_send (proof_request i reply) (s\<lparr>cl_invocation_counter := counter, cl_invoke_id := n, cl_outstanding := Some i\<rparr>) out = (Inr m, t, out')"
  proof -
    obtain apdu u where run: "hls_prep s = (Inr apdu, u)" "client_send apdu u out = (Inr m, t, out')"
      using request_InrE [OF assms(1) [unfolded hls_reply_prep]] .
    from run(1) obtain title ic ak reply i s3 where step: "cc_system_title (cl_config s) = Some title" "client_next_counter s = (Inr ic, s3)"
      "Protector_auth_key (cl_protector s3) = Some ak"
      "Protector_hls_gmac_response (cl_protector s3) title ic ak (take (cl_server_challenge_len s3) (cl_server_challenge s3)) = Inr reply"
      "next_invoke_id s3 = (Inr i, u)" "apdu = proof_request i reply"
      unfolding hls_prep_def try_bind_Inr_iff inr_steps by (auto simp: ok_def)
    from next_counter_Inr [OF step(2)] obtain counter where c: "s3 = s\<lparr>cl_invocation_counter := counter\<rparr>" by blast
    from next_invoke_Inr [OF step(5)] obtain k where k: "u = s3\<lparr>cl_invoke_id := k, cl_outstanding := Some i\<rparr>" by blast
    have "Protector_auth_key (cl_protector s) = Some ak"
      "Protector_hls_gmac_response (cl_protector s) title ic ak (take (cl_server_challenge_len s) (cl_server_challenge s)) = Inr reply"
      "client_send (proof_request i reply) (s\<lparr>cl_invocation_counter := counter, cl_invoke_id := k, cl_outstanding := Some i\<rparr>) out = (Inr m, t, out')"
      using step(3,4,6) run(2) by (simp_all add: c k)
    with step(1) show ?thesis by (intro exI conjI)
  qed
  then obtain i reply title ic ak counter k where st: "cc_system_title (cl_config s) = Some title" "Protector_auth_key (cl_protector s) = Some ak"
    "Protector_hls_gmac_response (cl_protector s) title ic ak (take (cl_server_challenge_len s) (cl_server_challenge s)) = Inr reply"
    "client_send (proof_request i reply) (s\<lparr>cl_invocation_counter := counter, cl_invoke_id := k, cl_outstanding := Some i\<rparr>) out = (Inr m, t, out')"
    by blast
  define u where "u = s\<lparr>cl_invocation_counter := counter, cl_invoke_id := k, cl_outstanding := Some i\<rparr>"
  obtain c tag where "reply = c # be_bytes 4 ic @ tag" "length tag = TAG_LEN" by (rule hls_response_Inr [OF st(3) assms(3)])
  then have len: "length reply = 17" by (simp add: TAG_LEN_def)
  note w = writes_proof(1) [OF len, of i]
  obtain r scratch where enc: "encode_into (Apdu_encode (proof_request i reply)) (cl_scratch u) = (r, scratch)" by fastforce
  have "r \<noteq> Inl e" for e using st(4) [folded u_def] by (auto simp: client_send_def enc)
  then obtain j where r: "r = Inr j" by (cases r) blast+
  note sent = encode_into_InrD [OF w enc [unfolded r]]
  have none: "SecurityPolicy_is_none (cc_security (cl_config (u\<lparr>cl_scratch := scratch\<rparr>)))" using assms(2) by (simp add: plain_client_def u_def)
  have "send_plain j (u\<lparr>cl_scratch := scratch\<rparr>) out = (Inr m, t, out')"
    using st(4) [folded u_def] unfolding client_send_def enc r by simp
  then have out: "encode_into (write_bytes (take j scratch)) out = (Inr m, out')" "t = u\<lparr>cl_scratch := scratch\<rparr>"
    unfolding send_plain_def Let_def if_P [OF none] by (simp_all split: prod.splits)
  have bytes: "take m out' = [0xC3, 0x01, invoke_byte i, 0, 15, 0, 0, 40, 0, 0, 255, 1, 1] @ 9 # 17 # reply"
    using encode_into_InrD(2) [OF writes_bytes out(1)] sent(2) by simp
  show thesis
    by (rule that [OF bytes len st(1-3)]) (use out(2) assms(2) in \<open>simp_all add: u_def plain_client_def\<close>)
qed

text \<open>The proof, sent back, is taken for the server's.\<close>

lemma reflected_accepted:
  assumes "hls_reply_request s out = (Inr m, t, out')" "plain_client s" "provider_in_place (pr_provider (cl_protector s))"
    "cl_server_system_title s = cc_system_title (cl_config s)"
    "take (cl_server_challenge_len s) (cl_server_challenge s) = take (cl_client_challenge_len s) (cl_client_challenge s)"
  shows "handle_hls_reply_response (reflected (take m out')) t = (Inr StepEstablished, t\<lparr>cl_state := SnAssociated\<rparr>)"
  using assms(1-3)
proof (cases rule: hls_reply_Inr)
  case (1 i reply title ic ak)
  have refl: "reflected (take m out') = 0xC7 # [0x01, invoke_byte i, 0, 1, 0] @ 9 # 17 # reply" unfolding 1(1) by (simp add: reflected_def)
  have "client_unprotect_into (reflected (take m out')) (replicate 512 0) t = (Inr (reflected (take m out')), t)"
    unfolding refl client_unprotect_into_def Let_def using 1(2,11)
    by (subst bare_passes) (simp_all add: plain_client_def service_tags_def)
  moreover have "from_bytes Apdu_decode (reflected (take m out')) = Inr (proof_response i reply)"
    unfolding refl using settled_read_back [OF writes_proof(3,2) [OF 1(2)]] by simp
  moreover have "Protector_verify_hls_gmac (cl_protector t) title ak (take (cl_client_challenge_len t) (cl_client_challenge t)) reply = Inr ()"
    using hls_response_verifies [OF assms(3) 1(5)] assms(5) 1(7,9,10) by simp
  ultimately show ?thesis using 1(3,4,7,8) assms(4)
    by (simp add: handle_hls_reply_response_def try_bind_def lift_res_def proof_response_def hls_proof_def need_def ok_def client_auth_key_def
      ActionResult_is_success_def)
qed

lemma associate_keeps_protector:
  assumes "associate_request env s out = (Inr n, s1, out1)" "SecurityPolicy_is_none (cc_security (cl_config s))"
  shows "cl_protector s1 = cl_protector s"
proof -
  from assms(1) obtain aarq u where prep: "prepare_association env s = (Inr aarq, u)" "cl_protector s1 = cl_protector u"
    by (auto simp: associate_request_def split: prod.splits sum.splits)
  have offered: "offered_key env s = (Inr None, s)" using assms(2) by (simp add: offered_key_def)
  have info: "client_user_information None s = (x, y) \<Longrightarrow> y = s" for x y
    using assms(2) by (auto simp: client_user_information_def split: prod.splits sum.splits)
  have auth: "authentication_value env s = (x, y) \<Longrightarrow> cl_protector y = cl_protector s" for x y
    by (auto simp: authentication_value_def Let_def split: if_splits prod.splits sum.splits)
  from prep(1) obtain user_info u1 challenge u2 where "client_user_information None s = (Inr user_info, u1)"
    "authentication_value env u1 = (Inr challenge, u2)" "u = u2"
    unfolding prepare_association_def try_bind_Inr_iff by (auto simp: inr_steps offered)
  then show ?thesis using info auth prep(2) by metis
qed

text \<open>C31: A peer without any key passes the handshake: a session that authenticates by GMAC and does not cipher is answered with its own title and
  its own challenge, proves itself against that challenge, and takes its own proof, sent back, for the server's.  It reports the
  association as established, although its documentation promises that a peer without the key is found out here.\<close>

theorem reflected_handshake_is_accepted:
  assumes "associate_request env s out = (Inr n, s1, out1)" "client_inv s" "random_in_place env"
    "plain_client s" "\<not> SecurityPolicy_dedicated (cc_security (cl_config s))" "cc_mechanism (cl_config s) = AmHighGmac"
    "cc_system_title (cl_config s) = Some title" "length (st_bytes title) = 8" "provider_in_place (pr_provider (cl_protector s))"
    "handle_associate_response (encoded (Aare_encode (mirror_aare s1))) s1 = (step, s2)"
    "hls_reply_request s2 out2 = (Inr m, s3, out3)"
  shows "step = Inr StepHlsReplyRequired \<and>
    (\<exists>s4. handle_hls_reply_response (reflected (take m out3)) s3 = (Inr StepEstablished, s4) \<and> cl_state s4 = SnAssociated)"
proof -
  have g: "grows s s1" using grows_associate [OF assms(3,1)] by blast
  then have cfg: "cl_config s1 = cl_config s" and inv: "client_inv s1" using assms(2) by (simp_all add: grows_def)
  have prot: "cl_protector s1 = cl_protector s" using associate_keeps_protector [OF assms(1)] assms(4) by (simp add: plain_client_def)
  have plain: "plain_client s1" using assms(4) cfg prot by (simp add: plain_client_def)
  obtain t where t: "handle_associate_response (encoded (Aare_encode (mirror_aare s1))) s1 = (Inr StepHlsReplyRequired, t)" "plain_client t"
    "cl_config t = cl_config s1" "cl_protector t = cl_protector s1" "cl_server_system_title t = Some title" "cl_state t = SnAuthenticatingHls"
    "take (cl_server_challenge_len t) (cl_server_challenge t) = take (cl_client_challenge_len t) (cl_client_challenge t)"
    using mirror_starts_handshake [OF plain, of title] inv assms(5-8) by (auto simp: client_inv_def cfg)
  then have s2: "step = Inr StepHlsReplyRequired" "s2 = t" using assms(10) by simp_all
  have "provider_in_place (pr_provider (cl_protector t))" "cl_server_system_title t = cc_system_title (cl_config t)"
    using assms(7,9) t(3,4,5) cfg prot by simp_all
  from reflected_accepted [OF assms(11) [unfolded s2(2)] t(2) this t(7)] s2(1) show ?thesis by simp
qed

theorem reflected_handshake_is_accepted_witness:
  "\<exists>n s1 out1 s2 m s3 out3 s4. associate_request demo_client_env (demo_client 64 AmHighGmac) (replicate 100 0) = (Inr n, s1, out1) \<and>
    handle_associate_response (encoded (Aare_encode (mirror_aare s1))) s1 = (Inr StepHlsReplyRequired, s2) \<and>
    hls_reply_request s2 (replicate 100 0) = (Inr m, s3, out3) \<and>
    handle_hls_reply_response (reflected (take m out3)) s3 = (Inr StepEstablished, s4) \<and> cl_state s4 = SnAssociated"
proof -
  let ?s = "demo_client 64 AmHighGmac"
  have "(\<lambda>(r, s1, _). case r of Inl _ \<Rightarrow> False | Inr _ \<Rightarrow>
      (case handle_associate_response (encoded (Aare_encode (mirror_aare s1))) s1 of (_, s2) \<Rightarrow> \<not> isl (fst (hls_reply_request s2 (replicate 100 0)))))
    (associate_request demo_client_env ?s (replicate 100 0))" by code_simp
  then obtain n s1 out1 step s2 m s3 out3 where run: "associate_request demo_client_env ?s (replicate 100 0) = (Inr n, s1, out1)"
    "handle_associate_response (encoded (Aare_encode (mirror_aare s1))) s1 = (step, s2)" "hls_reply_request s2 (replicate 100 0) = (Inr m, s3, out3)"
    by (auto split: prod.splits sum.splits simp: isl_def) (metis prod_cases3 sum.exhaust fst_conv)
  have plain: "plain_client ?s" "\<not> SecurityPolicy_dedicated (cc_security (cl_config ?s))" by code_simp+
  have inv: "client_inv ?s" unfolding demo_client_def by (rule client_inv_new)
  have env: "random_in_place demo_client_env" by (simp add: demo_client_env_def random_in_place_def)
  have fields: "cc_mechanism (cl_config ?s) = AmHighGmac" "cc_system_title (cl_config ?s) = Some (SystemTitle [8, 7, 6, 5, 4, 3, 2, 1])"
    "length (st_bytes (SystemTitle [8, 7, 6, 5, 4, 3, 2, 1])) = 8" "provider_in_place (pr_provider (cl_protector ?s))"
    by (simp_all add: demo_client_def ClientSession_new_def demo_laws)
  show ?thesis
    using reflected_handshake_is_accepted [OF run(1) inv env plain fields run(2,3)] run by blast
qed

subsection \<open>The nonces of a session\<close>

lemma counter_next_Inr:
  "InvocationCounter_next c = (Inr v, c') \<Longrightarrow> InvocationCounter_get c' = v \<and> unat v = unat (InvocationCounter_get c) + 1"
  by (cases c) (auto simp: unat_inc split: if_splits)

lemma drawn_counter:
  assumes "client_next_counter s = (Inr ic, t)"
  shows "Client_invocation_counter t = ic" "Client_invocation_counter s < ic" "\<exists>c. InvocationCounter_next (cl_invocation_counter s) = (Inr ic, c) \<and> t = s\<lparr>cl_invocation_counter := c\<rparr>"
proof -
  obtain r c where nx: "InvocationCounter_next (cl_invocation_counter s) = (r, c)" by fastforce
  with assms have "r = Inr ic" "t = s\<lparr>cl_invocation_counter := c\<rparr>" by (auto simp: client_next_counter_def)
  then show "Client_invocation_counter t = ic" "Client_invocation_counter s < ic" "\<exists>c. InvocationCounter_next (cl_invocation_counter s) = (Inr ic, c) \<and> t = s\<lparr>cl_invocation_counter := c\<rparr>"
    using counter_next_Inr [of "cl_invocation_counter s" ic c] nx by (auto simp: Client_invocation_counter_def word_less_nat_alt)
qed

text \<open>The calls in which a session protects something: the association request with its initiate request, the proof of the
  handshake, and the sending of an APDU, which every request ends with.\<close>

datatype ProtectingCall = CallAssociate | CallProve | CallSend Apdu

fun run_call :: "ClientEnv \<Rightarrow> ProtectingCall \<Rightarrow> ClientSession \<Rightarrow> bytes \<Rightarrow> nat result \<times> ClientSession \<times> bytes" where
  "run_call env CallAssociate s out = associate_request env s out"
| "run_call env CallProve s out = hls_reply_request s out"
| "run_call env (CallSend a) s out = client_send a s out"

text \<open>The counters under which a call protects, in order.  A session that does not cipher protects nothing but the proof, which is a
  GMAC under a counter of its own, whatever protects the request that carries it.\<close>

inductive seals :: "ClientEnv \<Rightarrow> SystemTitle \<Rightarrow> ProtectingCall \<Rightarrow> ClientSession \<Rightarrow> bytes \<Rightarrow> u32 list \<Rightarrow> bool" for env title where
  open_associate: "SecurityPolicy_is_none (cc_security (cl_config s)) \<Longrightarrow> seals env title CallAssociate s out []"
| sealed_associate: "\<not> SecurityPolicy_is_none (cc_security (cl_config s)) \<Longrightarrow> client_next_counter s = (Inr ic, u) \<Longrightarrow>
    Protector_auth_key (cl_protector s) = Some ak \<Longrightarrow>
    Protector_protect_as (cl_protector s) (SecurityPolicy_global (cc_security (cl_config s))) title ic ak plain (replicate 128 0) = (Inr payload, body) \<Longrightarrow>
    seal_initiate plain s = (Inr info, u) \<Longrightarrow> prepare_association env s = (Inr aarq, v) \<Longrightarrow> aarq_user_information aarq = Some info \<Longrightarrow>
    seals env title CallAssociate s out [ic]"
| open_send: "SecurityPolicy_is_none (cc_security (cl_config s)) \<Longrightarrow> seals env title (CallSend a) s out []"
| sealed_send: "\<not> SecurityPolicy_is_none (cc_security (cl_config s)) \<Longrightarrow> client_next_counter s = (Inr ic, u) \<Longrightarrow>
    encode_into (Apdu_encode a) (cl_scratch s) = (Inr j, scratch) \<Longrightarrow>
    protect_apdu (cl_protector s) \<lparr>og_system_title = title, og_invocation_counter = ic, og_auth_key = Protector_auth_key (cl_protector s),
      og_policy = pr_policy (cl_protector s), og_general_allowed = general_protection_agreed s\<rparr> (take j scratch) out = (Inr n, out') \<Longrightarrow>
    client_send a s out = (Inr n, t, out') \<Longrightarrow> seals env title (CallSend a) s out [ic]"
| proves: "client_next_counter s = (Inr ic, u) \<Longrightarrow> Protector_auth_key (cl_protector s) = Some ak \<Longrightarrow>
    Protector_hls_gmac_response (cl_protector s) title ic ak (take (cl_server_challenge_len s) (cl_server_challenge s)) = Inr reply \<Longrightarrow>
    next_invoke_id u = (Inr i, v) \<Longrightarrow> hls_reply_request s out = client_send (proof_request i reply) v out \<Longrightarrow>
    seals env title (CallSend (proof_request i reply)) v out ics \<Longrightarrow> seals env title CallProve s out (ic # ics)"

inductive_cases associateE: "seals env title CallAssociate s out ics"
inductive_cases sendE: "seals env title (CallSend a) s out ics"
inductive_cases proveE: "seals env title CallProve s out ics"

text \<open>The counters of a call, in order, between those of the session before and after it.\<close>

definition fresh_between :: "ClientSession \<Rightarrow> u32 list \<Rightarrow> ClientSession \<Rightarrow> bool" where
  "fresh_between s ics t \<longleftrightarrow> sorted_wrt (<) (Client_invocation_counter s # ics) \<and> (\<forall>ic\<in>set ics. ic \<le> Client_invocation_counter t) \<and>
     Client_invocation_counter s \<le> Client_invocation_counter t"

lemma send_seals:
  assumes "client_send a s out = (Inr n, t, out')" "cc_system_title (cl_config s) = Some title"
  shows "\<exists>ics. seals env title (CallSend a) s out ics \<and> fresh_between s ics t"
proof (cases "SecurityPolicy_is_none (cc_security (cl_config s))")
  case True
  then show ?thesis using seals.open_send steady_send [of s a out] assms(1) by (fastforce simp: fresh_between_def grows_def)
next
  case False
  obtain r scratch where enc: "encode_into (Apdu_encode a) (cl_scratch s) = (r, scratch)" by fastforce
  define w where "w = s\<lparr>cl_scratch := scratch\<rparr>"
  have "r \<noteq> Inl e" for e using assms(1) by (auto simp: client_send_def enc)
  then obtain j where r: "r = Inr j" by (cases r) blast+
  have run: "send_plain j w out = (Inr n, t, out')" using assms(1) unfolding client_send_def enc r by (simp add: w_def)
  have some: "\<not> SecurityPolicy_is_none (cc_security (cl_config w))" using False by (simp add: w_def)
  obtain q v where drawn: "try_bind client_title (\<lambda>title. try_bind client_next_counter (\<lambda>ic. ok (title, ic))) w = (q, v)" by fastforce
  note run1 = run [unfolded send_plain_def Let_def if_not_P [OF some] drawn prod.case]
  have "q \<noteq> Inl e" for e using run1 by auto
  then obtain ic where q: "q = Inr (title, ic)" "client_next_counter w = (Inr ic, v)"
    using drawn assms(2) by (cases q) (auto simp: try_bind_Inr_iff inr_steps ok_def w_def)
  obtain c where v: "InvocationCounter_next (cl_invocation_counter w) = (Inr ic, c)" "v = w\<lparr>cl_invocation_counter := c\<rparr>" using drawn_counter(3) [OF q(2)] by blast
  have own: "client_next_counter s = (Inr ic, s\<lparr>cl_invocation_counter := c\<rparr>)"
    using v(1) by (simp add: client_next_counter_def w_def)
  have "seals env title (CallSend a) s out [ic]"
    by (rule seals.sealed_send [OF False own enc [unfolded r] _ assms(1)])
      (use run1 in \<open>auto simp: q v(2) w_def general_protection_agreed_def split: prod.splits\<close>)
  moreover have "fresh_between s [ic] t"
    using drawn_counter(1,2) [OF q(2)] run1 by (auto simp: fresh_between_def q w_def Client_invocation_counter_def split: prod.splits)
  ultimately show ?thesis by blast
qed

lemma sealed_tail:
  "(case p of (Inl e, _) \<Rightarrow> (Inl e, s) | (Inr n, b) \<Rightarrow> (Inr (take n b), s)) = (Inr x, u) \<Longrightarrow> s = u"
  by (cases p; cases "fst p") auto

lemma sealed_under:
  assumes "seal_initiate plain s = (Inr info, u)" "cc_system_title (cl_config s) = Some title"
  obtains ic ak payload where "client_next_counter s = (Inr ic, u)" "Protector_auth_key (cl_protector s) = Some ak"
    "fst (Protector_protect_as (cl_protector s) (SecurityPolicy_global (cc_security (cl_config s))) title ic ak plain (replicate 128 0)) = Inr payload"
proof -
  from assms(1) obtain ic w title' ak payload where st: "client_next_counter s = (Inr ic, w)" "cc_system_title (cl_config w) = Some title'"
    "Protector_auth_key (cl_protector w) = Some ak"
    "fst (Protector_protect_as (cl_protector w) (SecurityPolicy_global (cc_security (cl_config w))) title' ic ak plain (replicate 128 0)) = Inr payload" "u = w"
    unfolding seal_initiate_def try_bind_Inr_iff inr_steps by (auto simp: lift_res_def dest!: sealed_tail)
  obtain c where "w = s\<lparr>cl_invocation_counter := c\<rparr>" using drawn_counter(3) [OF st(1)] by blast
  then show thesis using that [of ic ak payload] st assms(2) by simp
qed

lemma associate_seals:
  assumes "associate_request env s out = (Inr n, t, out')" "cc_system_title (cl_config s) = Some title" "random_in_place env"
  shows "\<exists>ics. seals env title CallAssociate s out ics \<and> fresh_between s ics t"
proof (cases "SecurityPolicy_is_none (cc_security (cl_config s))")
  case True
  then show ?thesis using seals.open_associate grows_associate [OF assms(3,1)] by (fastforce simp: fresh_between_def grows_def)
next
  case False
  obtain aarq v where prep: "prepare_association env s = (Inr aarq, v)" "Client_invocation_counter t = Client_invocation_counter v"
    using assms(1) by (fastforce simp: associate_request_def Client_invocation_counter_def split: prod.splits sum.splits)
  have offered: "offered_key env s = (Inr k, w) \<Longrightarrow> w = s" for k w
    by (auto simp: offered_key_def need_def try_bind_def ok_def fail_def split: if_splits option.splits)
  have kept: "authentication_value env u = (Inr k, w) \<Longrightarrow> Client_invocation_counter w = Client_invocation_counter u" for u k w
    by (auto simp: authentication_value_def Let_def Client_invocation_counter_def split: if_splits prod.splits sum.splits)
  from prep(1) obtain dedicated info u where info: "client_user_information dedicated s = (Inr info, u)" "aarq_user_information aarq = Some info"
    "Client_invocation_counter v = Client_invocation_counter u"
    unfolding prepare_association_def try_bind_Inr_iff using offered kept by (fastforce simp: inr_steps)
  then obtain plain where seal: "seal_initiate plain s = (Inr info, u)"
    using False by (auto simp: client_user_information_def split: prod.splits sum.splits)
  obtain ic ak payload where st: "client_next_counter s = (Inr ic, u)" "Protector_auth_key (cl_protector s) = Some ak"
    "fst (Protector_protect_as (cl_protector s) (SecurityPolicy_global (cc_security (cl_config s))) title ic ak plain (replicate 128 0)) = Inr payload"
    using sealed_under [OF seal assms(2)] .
  obtain body where "Protector_protect_as (cl_protector s) (SecurityPolicy_global (cc_security (cl_config s))) title ic ak plain (replicate 128 0) = (Inr payload, body)"
    using st(3) by (metis prod.collapse)
  then have "seals env title CallAssociate s out [ic]"
    using seals.sealed_associate [OF False st(1,2) _ seal prep(1) info(2)] by blast
  moreover have "fresh_between s [ic] t" using drawn_counter(1,2) [OF st(1)] prep(2) info(3) by (simp add: fresh_between_def)
  ultimately show ?thesis by blast
qed

lemma proof_seals:
  assumes "hls_reply_request s out = (Inr n, t, out')" "cc_system_title (cl_config s) = Some title"
  shows "\<exists>ics. seals env title CallProve s out ics \<and> fresh_between s ics t"
proof -
  obtain apdu v where run: "hls_prep s = (Inr apdu, v)" "client_send apdu v out = (Inr n, t, out')"
    using request_InrE [OF assms(1) [unfolded hls_reply_prep]] .
  from run(1) obtain title' ic ak reply i u where st: "cc_system_title (cl_config s) = Some title'" "client_next_counter s = (Inr ic, u)"
    "Protector_auth_key (cl_protector u) = Some ak"
    "Protector_hls_gmac_response (cl_protector u) title' ic ak (take (cl_server_challenge_len u) (cl_server_challenge u)) = Inr reply"
    "next_invoke_id u = (Inr i, v)" "apdu = proof_request i reply"
    unfolding hls_prep_def try_bind_Inr_iff inr_steps by (auto simp: ok_def)
  obtain c where u: "u = s\<lparr>cl_invocation_counter := c\<rparr>" using drawn_counter(3) [OF st(2)] by blast
  obtain k where v: "v = u\<lparr>cl_invoke_id := k, cl_outstanding := Some i\<rparr>" using next_invoke_Inr [OF st(5)] by blast
  have "cc_system_title (cl_config v) = Some title" using assms(2) by (simp add: u v)
  from send_seals [OF run(2) this, of env] obtain ics where ics: "seals env title (CallSend apdu) v out ics" "fresh_between v ics t" by blast
  have "hls_reply_request s out = client_send (proof_request i reply) v out" using run(1) st(6) by (simp add: hls_reply_prep request_def)
  then have "seals env title CallProve s out (ic # ics)"
    using seals.proves [OF st(2) _ _ st(5)] st(1,3,4,6) assms(2) ics(1) by (simp add: u)
  moreover have "Client_invocation_counter v = ic" using drawn_counter(1) [OF st(2)] by (simp add: v Client_invocation_counter_def)
  then have "fresh_between s (ic # ics) t"
    using ics(2) drawn_counter(2) [OF st(2)] by (auto simp: fresh_between_def)
  ultimately show ?thesis by blast
qed

lemma call_seals:
  assumes "run_call env x s out = (Inr n, t, out')" "cc_system_title (cl_config s) = Some title" "random_in_place env"
  shows "\<exists>ics. seals env title x s out ics \<and> fresh_between s ics t" "grows s t"
proof -
  show "\<exists>ics. seals env title x s out ics \<and> fresh_between s ics t"
    using assms by (cases x) (simp_all add: associate_seals proof_seals send_seals)
  show "grows s t"
  proof (cases x)
    case CallAssociate
    then show ?thesis using grows_associate [OF assms(3)] assms(1) by simp
  next
    case CallProve
    then show ?thesis using steady_step(1) assms(1) by simp
  next
    case (CallSend a)
    then show ?thesis using steady_send [of s a out] assms(1) by simp
  qed
qed

text \<open>There is one such list for a call.\<close>

lemma seals_counter:
  assumes "seals env title x s out ics" "x = CallAssociate \<or> x = CallSend a"
  shows "if SecurityPolicy_is_none (cc_security (cl_config s)) then ics = [] else \<exists>ic u. client_next_counter s = (Inr ic, u) \<and> ics = [ic]"
  using assms by (auto elim: associateE sendE)

lemma seals_unique: "seals env title x s out ics \<Longrightarrow> seals env title x s out ics' \<Longrightarrow> ics' = ics"
proof -
  have simple: "ics' = ics" if "seals env title y t out ics" "seals env title y t out ics'" "y = CallAssociate \<or> y = CallSend a" for y t ics ics' a
    using seals_counter [OF that(1,3)] seals_counter [OF that(2,3)] by (auto split: if_splits)
  assume two: "seals env title x s out ics" "seals env title x s out ics'"
  show "ics' = ics"
  proof (cases x)
    case CallProve
    have run: "\<exists>ic u ak reply i v jcs. jcs'' = ic # jcs \<and> client_next_counter s = (Inr ic, u) \<and> Protector_auth_key (cl_protector s) = Some ak \<and>
        Protector_hls_gmac_response (cl_protector s) title ic ak (take (cl_server_challenge_len s) (cl_server_challenge s)) = Inr reply \<and>
        next_invoke_id u = (Inr i, v) \<and> seals env title (CallSend (proof_request i reply)) v out jcs"
      if "seals env title CallProve s out jcs''" for jcs''
      using that by (rule proveE) blast
    from run [OF two(1) [unfolded CallProve]] obtain ic u ak reply i v jcs where one: "ics = ic # jcs" "client_next_counter s = (Inr ic, u)"
      "Protector_auth_key (cl_protector s) = Some ak"
      "Protector_hls_gmac_response (cl_protector s) title ic ak (take (cl_server_challenge_len s) (cl_server_challenge s)) = Inr reply"
      "next_invoke_id u = (Inr i, v)" "seals env title (CallSend (proof_request i reply)) v out jcs" by blast
    from run [OF two(2) [unfolded CallProve]] obtain jcs' where "ics' = ic # jcs'" "seals env title (CallSend (proof_request i reply)) v out jcs'"
      using one(2-5) by auto
    then show ?thesis using simple [OF one(6), of jcs'] one(1) by simp
  qed (use simple two in auto)
qed

lemma fresh_nonces:
  assumes "fresh_between s ics s1" "grows s1 s2" "fresh_between s2 ics' s3" "length (st_bytes title) = 8"
  shows "distinct (map (nonce title) (ics @ ics'))"
proof -
  have "sorted_wrt (<) (ics @ ics')"
    using assms(1-3) by (fastforce simp: fresh_between_def grows_def sorted_wrt_append)
  then have "distinct (ics @ ics')" by (simp only: strict_sorted_iff)
  moreover have "inj (nonce title)"
    by (rule injI) (use assms(4) in \<open>metis nonce_eq be_word_inverses(2) same_append_eq\<close>)
  ultimately show ?thesis by (simp only: distinct_map) (blast intro: inj_on_subset)
qed

text \<open>C30: A session never protects two things under one nonce: take any two calls of a session that succeed, each the association request, whose
  initiate request is sealed when the session ciphers, the request with the proof of the handshake, whose GMAC has a counter of its own, or the
  sending of an APDU, which every service request ends with; let any calls be made and anything be received in between.  The counters each call
  protects under are the one list \<open>seals\<close> tells, and all of them, the two of a ciphered request with a proof among them, give different nonces
  with the session's own title of eight bytes.  Restoring a counter from storage is the call that must not be among those in
  between; the short-name requests are not modelled.\<close>

theorem client_nonces_are_fresh:
  assumes "run_call env x s out = (Inr n, s1, out1)" "(client_step env)\<^sup>*\<^sup>* s1 s2" "run_call env y s2 out' = (Inr m, s3, out3)"
    "random_in_place env" "cc_system_title (cl_config s) = Some title" "length (st_bytes title) = 8"
  shows "\<exists>ics ics'. seals env title x s out ics \<and> seals env title y s2 out' ics' \<and> distinct (map (nonce title) (ics @ ics'))"
proof -
  note one = call_seals [OF assms(1,5,4)]
  have "grows s1 s2" using client_steps_grow [OF assms(2,4)] .
  then have "cc_system_title (cl_config s2) = Some title" using one(2) assms(5) by (simp add: grows_def)
  from one(1) call_seals(1) [OF assms(3) this assms(4)] fresh_nonces [OF _ \<open>grows s1 s2\<close> _ assms(6)] show ?thesis by metis
qed

definition demo_read :: Apdu where
  "demo_read = ApGetRequest (GetNormal (InvokeId_confirmed 1) (AttributeDescriptor_new 3 (Obis_new 1 0 1 8 0 255) 2) None)"

definition demo_ciphering :: ClientSession where
  "demo_ciphering = ClientSession_new 64
     (ClientConfig_default\<lparr>cc_security := SecurityPolicy_authenticated_encrypted Suite0, cc_system_title := Some (SystemTitle [8, 7, 6, 5, 4, 3, 2, 1])\<rparr>)
     demo_provider"

theorem client_nonces_are_fresh_witness:
  "\<exists>n s1 out1 m s2 out2 ic ic'. associate_request demo_client_env demo_ciphering (replicate 200 0) = (Inr n, s1, out1) \<and>
    client_send demo_read s1 (replicate 64 0) = (Inr m, s2, out2) \<and>
    seals demo_client_env (SystemTitle [8, 7, 6, 5, 4, 3, 2, 1]) CallAssociate demo_ciphering (replicate 200 0) [ic] \<and>
    seals demo_client_env (SystemTitle [8, 7, 6, 5, 4, 3, 2, 1]) (CallSend demo_read) s1 (replicate 64 0) [ic'] \<and>
    nonce (SystemTitle [8, 7, 6, 5, 4, 3, 2, 1]) ic \<noteq> nonce (SystemTitle [8, 7, 6, 5, 4, 3, 2, 1]) ic'"
proof -
  let ?title = "SystemTitle [8, 7, 6, 5, 4, 3, 2, 1]"
  have "(\<lambda>(r, s1, _). \<not> isl r \<and> \<not> isl (fst (client_send demo_read s1 (replicate 64 0))))
    (associate_request demo_client_env demo_ciphering (replicate 200 0))" by code_simp
  then obtain n s1 out1 m s2 out2 where run: "run_call demo_client_env CallAssociate demo_ciphering (replicate 200 0) = (Inr n, s1, out1)"
    "run_call demo_client_env (CallSend demo_read) s1 (replicate 64 0) = (Inr m, s2, out2)"
    by (auto simp: isl_def split: prod.splits) (metis prod_cases3 sum.exhaust fst_conv)
  have env: "random_in_place demo_client_env" by (simp add: demo_client_env_def random_in_place_def)
  have fields: "cc_system_title (cl_config demo_ciphering) = Some ?title" "length (st_bytes ?title) = 8"
    by (simp_all add: demo_ciphering_def ClientSession_new_def)
  have "\<not> SecurityPolicy_is_none (cc_security (cl_config demo_ciphering))"
    by (simp add: demo_ciphering_def ClientSession_new_def SecurityPolicy_is_none_def SecurityPolicy_authenticated_encrypted_def)
  moreover from this have "\<not> SecurityPolicy_is_none (cc_security (cl_config s1))"
    using call_seals(2) [OF run(1) fields(1) env] by (simp add: grows_def)
  moreover obtain ics ics' where ics: "seals demo_client_env ?title CallAssociate demo_ciphering (replicate 200 0) ics"
    "seals demo_client_env ?title (CallSend demo_read) s1 (replicate 64 0) ics'" "distinct (map (nonce ?title) (ics @ ics'))"
    using client_nonces_are_fresh [OF run(1) rtranclp.rtrancl_refl run(2) env fields] by blast
  ultimately obtain ic ic' where "ics = [ic]" "ics' = [ic']" using seals_counter by (metis (no_types, lifting))
  then show ?thesis using run ics by fastforce
qed

subsection \<open>A server that takes more than the session can build\<close>

text \<open>A server that takes long APDUs cannot be written to in blocks: when the server announces a size of at least 23 bytes more than the
  session's buffer, every value as long as the buffer is cut into fragments of the buffer's size, and the first request, which has
  the descriptor and the block header around its fragment, does not fit into the buffer.  The transfer that was handed out
  can never begin.\<close>

theorem large_pdu_stops_blocked_set:
  assumes "set_transfer d None v c = (Inr b, c')" "cl_negotiated c = Some neg" "plain_client c" "obis_wf (ad_instance_id d)"
    "cl_N c + 23 \<le> unat (is_server_max_receive_pdu_size neg)" "cl_N c \<le> length v"
  shows "\<exists>needed off c''. next_block_request b c' out = (Inl (Error_new (BufferTooSmall needed) off), b, c'', out) \<and> bk_fragment b = cl_N c"
proof -
  note tr = set_transfer_InrD [OF assms(1-3)]
  have frag: "bk_fragment b = cl_N c"
    using assms(1-3,5) by (auto simp: set_transfer_def try_bind_def require_associated_def error_if_def require_conformance_def lift_res_def fail_def
      ok_def max_fragment_less_def CLIENT_HEADER_MAX_def Let_def block_sender_def plain_client_def split: if_splits sum.splits)
  have fields: "bk_bytes b = v" "bk_sent b = 0" "bk_block b = 0" "bk_target b = BtAttribute d None"
    using arg_cong [OF tr(1), of bk_bytes] arg_cong [OF tr(1), of bk_sent] arg_cong [OF tr(1), of bk_block] arg_cong [OF tr(1), of bk_target]
    by (simp_all add: block_sender_def)
  have blk: "length (dbs_raw_data (next_block b)) = cl_N c"
    using next_block_fields(1) [of b] fields frag assms(6) by (simp add: BlockSender_end_def)
  have "unat (is_server_max_receive_pdu_size neg) < 2 ^ 16" using unat_bound [of "is_server_max_receive_pdu_size neg"] by simp
  then have small: "length (dbs_raw_data (next_block b)) < 2 ^ 16" using assms(5) blk by simp
  obtain i u where id: "next_invoke_id c' = (Inr i, u)" "cl_scratch u = cl_scratch c'" by (simp add: next_invoke_id_def Let_def)
  let ?bs = "0xC1 # first_image i d (next_block b)"
  have w: "writes (Apdu_encode (ApSetRequest (SetWithFirstDataBlock i d None (next_block b)))) ?bs" by (rule writes_first(1) [OF small assms(4)])
  have "length (cl_scratch u) < length ?bs"
    using id(2) tr(4) blk by (simp add: first_image_def sa_image_def prefixed_def)
  from encode_into_full [OF w this] obtain needed off scratch where
    enc: "encode_into (Apdu_encode (ApSetRequest (SetWithFirstDataBlock i d None (next_block b)))) (cl_scratch u) =
      (Inl (Error_new (BufferTooSmall needed) off), scratch)" by blast
  have "client_send (ApSetRequest (SetWithFirstDataBlock i d None (next_block b))) u out =
      (Inl (Error_new (BufferTooSmall needed) off), u\<lparr>cl_scratch := scratch\<rparr>, out)" unfolding client_send_def enc by simp
  then show ?thesis using tr(3,4) id(1) fields frag
    by (simp add: next_block_request_def request_def try_bind_def require_associated_def error_if_def ok_def BlockSender_is_done_def)
qed

theorem large_pdu_stops_blocked_set_witness:
  "\<exists>b c' needed off c''. set_transfer (AttributeDescriptor_new 3 (Obis_new 1 0 1 8 0 255) 2) None (replicate 64 0) (demo_associated 0x400) = (Inr b, c') \<and>
    next_block_request b c' (replicate 1000 0) = (Inl (Error_new (BufferTooSmall needed) off), b, c'', replicate 1000 0)"
proof -
  let ?d = "AttributeDescriptor_new 3 (Obis_new 1 0 1 8 0 255) 2"
  have "\<not> isl (fst (set_transfer ?d None (replicate 64 0) (demo_associated 0x400)))" by code_simp
  then obtain b c' where run: "set_transfer ?d None (replicate 64 0) (demo_associated 0x400) = (Inr b, c')"
    by (cases "set_transfer ?d None (replicate 64 0) (demo_associated 0x400)"; cases "fst (set_transfer ?d None (replicate 64 0) (demo_associated 0x400))") auto
  have neg: "cl_negotiated (demo_associated 0x400) =
      Some (InitiateResponse_default\<lparr>is_negotiated_conformance := SERVER_DEFAULT, is_server_max_receive_pdu_size := 0x400\<rparr>)"
    by (simp add: demo_associated_def)
  have N: "cl_N (demo_associated 0x400) = 64" by (simp add: demo_associated_def demo_client_def ClientSession_new_def)
  have facts: "plain_client (demo_associated 0x400)" "obis_wf (ad_instance_id ?d)" by code_simp+
  show ?thesis using large_pdu_stops_blocked_set [OF run neg facts, of "replicate 1000 0"] run by (auto simp: N)
qed

end
