(* ===== verification/Push.thy ===== *)
theory Push
  imports Apdu ApduProtection
begin

text \<open>
  A meter that reports unasked, \<^verbatim>\<open>src/src/server/push.rs\<close>: the notification is built in a scratch buffer, and a protected one
  goes out under the meter's title and the next value of its own counter.
\<close>

subsection \<open>The sender\<close>

record PushSender =
  ps_protector :: Protector
  ps_system_title :: SystemTitle
  ps_invocation_counter :: InvocationCounter
  ps_long_invoke_id :: u32
  ps_scratch :: bytes

definition PushSender_new :: "nat \<Rightarrow> CryptoProvider \<Rightarrow> SystemTitle \<Rightarrow> SecurityPolicy \<Rightarrow> u32 \<Rightarrow> PushSender" where
  "PushSender_new N provider system_title policy invocation_counter =
     \<lparr>ps_protector = \<lparr>pr_provider = provider, pr_policy = SecurityPolicy_global policy\<rparr>, ps_system_title = system_title,
      ps_invocation_counter = InvocationCounter_new invocation_counter, ps_long_invoke_id = 0, ps_scratch = replicate N 0\<rparr>"

definition PushSender_invocation_counter :: "PushSender \<Rightarrow> u32" where
  "PushSender_invocation_counter s = InvocationCounter_get (ps_invocation_counter s)"

definition push_next_long_invoke_id :: "(PushSender, LongInvokeId) op" where
  "push_next_long_invoke_id s =
     (let n = (ps_long_invoke_id s + 1) AND 0x00FFFFFF in (Inr (LongInvokeId_new n), s\<lparr>ps_long_invoke_id := n\<rparr>))"

definition push_notification :: "DateTime option \<Rightarrow> Data \<Rightarrow> LongInvokeId \<Rightarrow> DataNotification" where
  "push_notification captured_at body i = \<lparr>dn_long_invoke_id = i, dn_date_time = captured_at, dn_body = body\<rparr>"

definition notify_protected :: "bytes \<Rightarrow> PushSender \<Rightarrow> bytes \<Rightarrow> nat result \<times> PushSender \<times> bytes" where
  "notify_protected plain s out =
     (if SecurityPolicy_is_none (pr_policy (ps_protector s)) then
        (case encode_into (write_bytes plain) out of (r, out) \<Rightarrow> (r, s, out))
      else
        (case InvocationCounter_next (ps_invocation_counter s) of
           (Inl e, counter) \<Rightarrow> (Inl e, s\<lparr>ps_invocation_counter := counter\<rparr>, out)
         | (Inr ic, counter) \<Rightarrow>
             (let ctx = \<lparr>og_system_title = ps_system_title s, og_invocation_counter = ic,
                   og_auth_key = Protector_auth_key (ps_protector s), og_policy = pr_policy (ps_protector s), og_general_allowed = True\<rparr>
              in case protect_apdu (ps_protector s) ctx plain out of (r, out) \<Rightarrow> (r, s\<lparr>ps_invocation_counter := counter\<rparr>, out))))"

definition PushSender_notify :: "DateTime option \<Rightarrow> Data \<Rightarrow> PushSender \<Rightarrow> bytes \<Rightarrow> nat result \<times> PushSender \<times> bytes" where
  "PushSender_notify captured_at body s out =
     (case push_next_long_invoke_id s of
        (Inl e, s) \<Rightarrow> (Inl e, s, out)
      | (Inr i, s) \<Rightarrow>
          (case encode_into (Apdu_encode (ApDataNotification (push_notification captured_at body i))) (ps_scratch s) of
             (Inl e, scratch) \<Rightarrow> (Inl e, s\<lparr>ps_scratch := scratch\<rparr>, out)
           | (Inr plain_len, scratch) \<Rightarrow> notify_protected (take plain_len scratch) (s\<lparr>ps_scratch := scratch\<rparr>) out))"

subsection \<open>Where a push goes, and whether it fits\<close>

datatype PushDestination = PdWrapper (PushDestination_as_str: string) | PdLocal (PushDestination_as_str: string) | PdOther (PushDestination_as_str: string)

definition PUSH_OVERHEAD :: nat where
  "PUSH_OVERHEAD = 1 + 4 + 13 + (1 + 9 + 5 + 1 + 4 + 12)"

definition check_body_fits :: "Data \<Rightarrow> u16 \<Rightarrow> unit result" where
  "check_body_fits body max_pdu_size =
     (let needed = encoded_len (Data_encode body) + PUSH_OVERHEAD in
      if needed > unat max_pdu_size then Inl (Error_new (BufferTooSmall (needed - unat max_pdu_size)) 0) else Inr ())"

subsection \<open>A sender to evaluate with\<close>

definition demo_policy :: SecurityPolicy where
  "demo_policy = SecurityPolicy_authenticated_encrypted Suite0"

definition demo_sender :: "CryptoProvider \<Rightarrow> PushSender" where
  "demo_sender provider = PushSender_new 64 provider (SystemTitle [1, 2, 3, 4, 5, 6, 7, 8]) demo_policy 41"

subsection \<open>The size of a push\<close>

lemma protect_apdu_inside:
  assumes "protect_apdu t ctx plain out = (Inr n, out')" "\<not> SecurityPolicy_is_none (og_policy ctx)"
  shows "n \<le> length out'"
proof -
  have "n \<le> length out'" if "out' = take k out1 @ body" "k \<le> length out1" "payload = take (length payload) body" "n = k + length payload"
    for k out1 body payload
  proof -
    have "length payload \<le> length body" using that(3) by (metis length_take min.cobounded1)
    then show ?thesis using that by simp
  qed
  then show ?thesis using assms unfolding protect_apdu_def Let_def
    by (auto split: if_splits sum.splits prod.splits option.splits dest!: protect_as_front)
qed

lemma length_general_form:
  assumes "ApduTag_protected_as (if SecurityPolicy_dedicated (og_policy ctx) then PDedicated else PGlobal) tag = None"
    "length (st_bytes (og_system_title ctx)) = 8"
  shows "length (form_image ctx tag) = 10"
  using assms by (simp add: form_image_def Let_def prefixed_def len_bytes_def)

lemma notification_has_no_form: "ApduTag_protected_as (if b then PDedicated else PGlobal) ADataNotification = None"
proof -
  have "ApduTag_protected_as PDedicated ADataNotification = None" "ApduTag_protected_as PGlobal ADataNotification = None" by code_simp+
  then show ?thesis by simp
qed

lemma writes_push:
  assumes "writes (Data_encode body) db"
  obtains pre where "writes (Apdu_encode (ApDataNotification (push_notification t body i))) (0x0F # pre @ db)" "length pre \<le> 17"
proof -
  obtain dt where dt: "writes (OptionalDateTime_encode t) dt" "length dt \<le> 13"
  proof (cases t)
    case None
    then have "writes (OptionalDateTime_encode t) (len_bytes 0)" by (simp add: OptionalDateTime_encode_def writes_length)
    then show thesis by (rule that) (simp add: len_bytes_def)
  next
    case (Some d)
    then have "writes (OptionalDateTime_encode t) (prefixed (DateTime_to_bytes d))"
      by (simp add: OptionalDateTime_encode_def writes_prefixed short_field_def)
    then show thesis by (rule that) (simp add: prefixed_def len_bytes_def)
  qed
  have "writes (Apdu_encode (ApDataNotification (push_notification t body i))) ([0x0F] @ (be_bytes 4 (long_invoke_word i) @ dt @ db))"
    by (simp only: Apdu_encode_def Apdu.case if_False Apdu_tag.simps Apdu_encode_body.simps ApduTag_as_u8.simps DataNotification_encode_def
        push_notification_def DataNotification.simps)
      (intro writes_seq writes_u8 writes_u32 dt(1) assms)
  then show thesis by (intro that [of "be_bytes 4 (long_invoke_word i) @ dt"]) (use dt(2) in simp_all)
qed

text \<open>What a notification that goes out is made of.\<close>

lemma notify_Inr:
  assumes "PushSender_notify t body s out = (Inr n, s', out')" "Data_valid body"
  obtains i plain s1 where "plain \<noteq> []" "hd plain = 0x0F" "length plain \<le> encoded_len (Data_encode body) + 18"
    "writes (Apdu_encode (ApDataNotification (push_notification t body i))) plain"
    "notify_protected plain s1 out = (Inr n, s', out')" "ps_protector s1 = ps_protector s" "ps_system_title s1 = ps_system_title s"
    "ps_invocation_counter s1 = ps_invocation_counter s"
proof -
  obtain i s0 where i: "push_next_long_invoke_id s = (Inr i, s0)" "ps_protector s0 = ps_protector s"
    "ps_system_title s0 = ps_system_title s" "ps_invocation_counter s0 = ps_invocation_counter s"
    by (simp add: push_next_long_invoke_id_def Let_def)
  obtain db where db: "writes (Data_encode body) db" using codes_Data [OF assms(2)] by (auto simp: codes_def)
  obtain pre where pre: "writes (Apdu_encode (ApDataNotification (push_notification t body i))) (0x0F # pre @ db)" "length pre \<le> 17"
    using writes_push [OF db] .
  obtain r scratch where enc: "encode_into (Apdu_encode (ApDataNotification (push_notification t body i))) (ps_scratch s0) = (r, scratch)"
    by fastforce
  from assms(1) i(1) enc obtain k where r: "r = Inr k" by (cases r) (auto simp: PushSender_notify_def)
  note plain = encode_into_InrD [OF pre(1) enc [unfolded r]]
  have "notify_protected (0x0F # pre @ db) (s0\<lparr>ps_scratch := scratch\<rparr>) out = (Inr n, s', out')"
    using assms(1) i(1) enc r plain(2) by (simp add: PushSender_notify_def)
  then show thesis
    by (rule that [of _ i "s0\<lparr>ps_scratch := scratch\<rparr>", rotated 4]) (use i pre writes_encoded_len [OF db] in simp_all)
qed

text \<open>C29: A push that was checked fits: when \<open>check_body_fits\<close> lets a body through for a size, the notification that is built from it has at
  most that many bytes, whatever its time, protected or not, and whatever the sender's counters.\<close>

theorem checked_push_fits:
  assumes "check_body_fits body m = Inr ()" "Data_valid body" "length (st_bytes (ps_system_title s)) = 8"
    "PushSender_notify t body s out = (Inr n, s', out')"
  shows "n \<le> unat m"
  using assms(4,2)
proof (cases rule: notify_Inr)
  case (1 i plain s1)
  have room: "encoded_len (Data_encode body) + PUSH_OVERHEAD \<le> unat m" using assms(1) by (auto simp: check_body_fits_def Let_def split: if_splits)
  have small: "unat m < 2 ^ 16" using unat_bound [of m] by simp
  show ?thesis
  proof (cases "SecurityPolicy_is_none (pr_policy (ps_protector s1))")
    case True
    then have "n = length plain"
      using 1(5) encode_into_InrD(1) [OF writes_bytes] by (auto simp: notify_protected_def split: prod.splits)
    then show ?thesis using 1(3) room by (simp add: PUSH_OVERHEAD_def)
  next
    case False
    obtain r counter where nx: "InvocationCounter_next (ps_invocation_counter s1) = (r, counter)" by fastforce
    define ctx where "ctx ic = \<lparr>og_system_title = ps_system_title s1, og_invocation_counter = ic,
      og_auth_key = Protector_auth_key (ps_protector s1), og_policy = pr_policy (ps_protector s1), og_general_allowed = True\<rparr>" for ic
    from 1(5) False nx obtain ic where ic: "r = Inr ic" "protect_apdu (ps_protector s1) (ctx ic) plain out = (Inr n, out')"
      by (cases r) (auto simp: notify_protected_def Let_def ctx_def split: prod.splits)
    have pol: "\<not> SecurityPolicy_is_none (og_policy (ctx ic))" using False by (simp add: ctx_def)
    have title: "length (st_bytes (og_system_title (ctx ic))) = 8" using assms(3) 1(7) by (simp add: ctx_def)
    have size: "5 + length plain + TAG_LEN < 2 ^ 32" using 1(3) room small by (simp add: PUSH_OVERHEAD_def TAG_LEN_def)
    from ic(2) pol title size show ?thesis
    proof (cases rule: protect_apdu_Inr)
      case inr: (1 tag ak payload out1 body1)
      have "first_tag plain = Inr ADataNotification" using 1(1,2) by (cases plain) (simp_all add: first_tag_def ApduTag_from_u8_def)
      with inr(1) have tag: "tag = ADataNotification" by simp
      have "n = length (take n out')" using protect_apdu_inside [OF ic(2) pol] by simp
      also have "\<dots> = 10 + length (ciphered_image \<lparr>cs_security_control = SecurityPolicy_control (og_policy (ctx ic)),
          cs_invocation_counter = og_invocation_counter (ctx ic), cs_payload = payload\<rparr>)"
        unfolding inr(4) tag length_append length_general_form [OF notification_has_no_form title] ..
      also have "\<dots> \<le> 10 + (5 + 5 + length payload)"
        using length_len_bytes [of "5 + length payload" 4] inr(5) size by (auto simp: ciphered_image_def)
      finally show ?thesis using inr(5) 1(3) room by (auto simp: PUSH_OVERHEAD_def TAG_LEN_def split: if_splits)
    qed
  qed
qed

theorem checked_push_fits_witness:
  "\<exists>n s' out'. PushSender_notify None (DUnsigned 5) (demo_sender demo_provider) (replicate 100 0) = (Inr n, s', out') \<and> n \<le> 60"
proof -
  let ?run = "PushSender_notify None (DUnsigned 5) (demo_sender demo_provider) (replicate 100 0)"
  have "\<not> isl (fst ?run)" by code_simp
  then obtain n s' out' where run: "?run = (Inr n, s', out')" by (cases ?run; cases "fst ?run") auto
  have "check_body_fits (DUnsigned 5) 60 = Inr ()" by code_simp
  from checked_push_fits [OF this _ _ run] run show ?thesis
    by (simp add: demo_sender_def PushSender_new_def)
qed

end
