(* ===== verification/Listener.thy ===== *)
theory Listener
  imports Push
begin

text \<open>
  The other end of a push, \<^verbatim>\<open>src/src/client/notify.rs\<close>: a listener that finds the keys of a meter by the title in the frame,
  refuses what is protected more weakly than it was told to demand, and keeps a window of counters per meter.
\<close>

subsection \<open>Keys by meter\<close>

text \<open>
  The trait \<^verbatim>\<open>PushKeyLookup\<close>.  A window that is handed out by reference is a value to read and a function that stores what
  was written through the reference.
\<close>

record 'l PushKeyLookup =
  pk_keys_for :: "'l \<Rightarrow> SystemTitle \<Rightarrow> KeyRing option"
  pk_replay_window :: "'l \<Rightarrow> SystemTitle \<Rightarrow> ReplayWindow option"
  pk_set_window :: "'l \<Rightarrow> SystemTitle \<Rightarrow> ReplayWindow \<Rightarrow> 'l"

record SingleMeterKeys =
  sm_system_title :: SystemTitle
  sm_keys :: KeyRing
  sm_replay :: ReplayWindow

definition SingleMeterKeys_new :: "SystemTitle \<Rightarrow> KeyRing \<Rightarrow> SingleMeterKeys" where
  "SingleMeterKeys_new system_title keys = \<lparr>sm_system_title = system_title, sm_keys = keys, sm_replay = ReplayWindow_strict\<rparr>"

definition single_meter :: "SingleMeterKeys PushKeyLookup" where
  "single_meter = \<lparr>
     pk_keys_for = (\<lambda>m t. if t = sm_system_title m then Some (sm_keys m) else None),
     pk_replay_window = (\<lambda>m t. if t = sm_system_title m then Some (sm_replay m) else None),
     pk_set_window = (\<lambda>m t w. if t = sm_system_title m then m\<lparr>sm_replay := w\<rparr> else m)\<rparr>"

definition SecurityControl_is_protected :: "SecurityControl \<Rightarrow> bool" where
  "SecurityControl_is_protected c \<longleftrightarrow> \<not> SecurityControl_is_plain c"

subsection \<open>A provider over the keys of one meter\<close>

definition resolve :: "KeyRing \<Rightarrow> KeyRef \<Rightarrow> KeyRef result" where
  "resolve keys key =
     (case key of
        Raw _ \<Rightarrow> Inr key
      | Usage u \<Rightarrow> (case KeyRing_get u keys of None \<Rightarrow> Inl (Error_new Unsupported 0) | Some k \<Rightarrow> Inr (Raw k)))"

definition ProviderWithKeys :: "CryptoProvider \<Rightarrow> KeyRing \<Rightarrow> CryptoProvider" where
  "ProviderWithKeys inner keys = \<lparr>
     cp_aead_seal = (\<lambda>key s n aad buf. case resolve keys key of Inl e \<Rightarrow> (Inl e, buf) | Inr k \<Rightarrow> cp_aead_seal inner k s n aad buf),
     cp_aead_open = (\<lambda>key s n aad buf tag. case resolve keys key of Inl e \<Rightarrow> (Inl e, buf) | Inr k \<Rightarrow> cp_aead_open inner k s n aad buf tag),
     cp_gmac = (\<lambda>key s n segs. res_bind (resolve keys key) (\<lambda>k. cp_gmac inner k s n segs)),
     cp_authentication_key = KeyRing_get Authentication keys\<rparr>"

subsection \<open>The listener\<close>

record ReceivedNotification =
  rn_system_title :: "SystemTitle option"
  rn_invocation_counter :: "u32 option"
  rn_captured_at :: "DateTime option"
  rn_body :: Data

record 'l NotificationListener =
  nl_provider :: CryptoProvider
  nl_lookup :: 'l
  nl_required :: SecurityPolicy

definition NotificationListener_new :: "CryptoProvider \<Rightarrow> 'l \<Rightarrow> SecurityPolicy \<Rightarrow> 'l NotificationListener" where
  "NotificationListener_new provider lookup required = \<lparr>nl_provider = provider, nl_lookup = lookup, nl_required = required\<rparr>"

text \<open>What the frame says before anything is opened: who sent it, the ciphered content, and the bytes behind what was read.\<close>

definition notification_form :: "SystemTitle option \<Rightarrow> ApduTag \<Rightarrow> (Reader, SystemTitle option \<times> CipheredService option) op" where
  "notification_form sender tag =
     (if tag = ADataNotification then ok (None, None)
      else if tag = AGeneralGloCiphering \<or> tag = AGeneralDedCiphering then
        try_bind GeneralGloCiphering_decode (\<lambda>g.
        try_bind (lift_res (SystemTitle_from_slice (gg_system_title g))) (\<lambda>t. ok (Some t, Some (gg_ciphered g))))
      else if tag = AGloEventNotification \<or> tag = ADedEventNotification then
        try_bind CipheredService_decode (\<lambda>c. ok (sender, Some c))
      else unexpected)"

definition notification_parse :: "SystemTitle option \<Rightarrow> bytes \<Rightarrow> (ApduTag \<times> SystemTitle option \<times> CipheredService option \<times> bytes) result" where
  "notification_parse sender apdu =
     (let tag_byte = (case apdu of [] \<Rightarrow> 0 | b # _ \<Rightarrow> b) in
      case ApduTag_from_u8 tag_byte of
        None \<Rightarrow> Inl (Error_new (InvalidTag tag_byte) 0)
      | Some tag \<Rightarrow> fst (try_bind (Reader_skip 1) (\<lambda>_. try_bind (notification_form sender tag) (\<lambda>(title, c) r.
          case Reader_take_rest r of (rest, r) \<Rightarrow> (Inr (tag, title, c, rest), r))) (Reader_new apdu)))"

text \<open>A bare notification passes only a listener that demands nothing.\<close>

definition take_bare :: "SecurityPolicy \<Rightarrow> bytes \<Rightarrow> bytes \<Rightarrow> bytes result \<times> bytes" where
  "take_bare required rest buf =
     (if \<not> SecurityPolicy_is_none required then (Inl (Error_new UnexpectedMessage 0), buf)
      else if length buf < length rest then (Inl (Error_new (BufferTooSmall (length rest)) 0), buf)
      else (Inr rest, overwrite buf 0 rest))"

text \<open>The policy a ciphered one is opened under: what was demanded, with the suite and the key set the frame names.\<close>

definition opening_policy :: "ApduTag \<Rightarrow> SecuritySuite \<Rightarrow> SecurityPolicy \<Rightarrow> SecurityPolicy" where
  "opening_policy tag suite required =
     SecurityPolicy_with_dedicated (tag = AGeneralDedCiphering \<or> tag = ADedEventNotification) (required\<lparr>sp_suite := suite\<rparr>)"

definition ring_auth_key :: "KeyRing \<Rightarrow> bytes result" where
  "ring_auth_key keys =
     (case KeyRing_get Authentication keys of
        None \<Rightarrow> Inl (Error_new Unsupported 0)
      | Some k \<Rightarrow> res_bind (Key_from_slice k) (\<lambda>k. Inr (Key_expose k)))"

text \<open>Opening: with the keys of the meter, under its window, which records the counter once the content has verified.\<close>

definition open_with_keys ::
  "'l PushKeyLookup \<Rightarrow> ApduTag \<Rightarrow> SystemTitle \<Rightarrow> KeyRing \<Rightarrow> bytes \<Rightarrow> CipheredService \<Rightarrow> 'l NotificationListener \<Rightarrow> bytes \<Rightarrow>
     bytes result \<times> 'l NotificationListener \<times> bytes" where
  "open_with_keys K tag title keys auth_key c s buf =
     (let n = length (cs_payload c) in
      if length buf < n then (Inl (Error_new (BufferTooSmall n) 0), s, buf)
      else
        let buf = overwrite buf 0 (cs_payload c) in
        (case SecuritySuite_from_id (SecurityControl_suite (cs_security_control c)) of
           Inl e \<Rightarrow> (Inl e, s, buf)
         | Inr suite \<Rightarrow>
             (let t = \<lparr>pr_provider = ProviderWithKeys (nl_provider s) keys, pr_policy = opening_policy tag suite (nl_required s)\<rparr> in
              case Protector_unprotect t (cs_security_control c) title (cs_invocation_counter c) auth_key (take n buf) of
                (Inl e, body) \<Rightarrow> (Inl e, s, overwrite buf 0 body)
              | (Inr plain, body) \<Rightarrow>
                  (let buf = overwrite buf 0 body in
                   case pk_replay_window K (nl_lookup s) title of
                     None \<Rightarrow> (Inl (Error_new Unsupported 0), s, buf)
                   | Some w \<Rightarrow>
                       (case ReplayWindow_accept (cs_invocation_counter c) w of
                          (r, w) \<Rightarrow>
                            (let s = s\<lparr>nl_lookup := pk_set_window K (nl_lookup s) title w\<rparr> in
                             case r of Inl e \<Rightarrow> (Inl e, s, buf) | Inr _ \<Rightarrow> (Inr (take (length plain) buf), s, buf)))))))"

definition open_notification ::
  "'l PushKeyLookup \<Rightarrow> ApduTag \<Rightarrow> SystemTitle option \<Rightarrow> CipheredService \<Rightarrow> 'l NotificationListener \<Rightarrow> bytes \<Rightarrow>
     bytes result \<times> 'l NotificationListener \<times> bytes" where
  "open_notification K tag system_title c s buf =
     (case SecurityPolicy_check_received (nl_required s) (cs_security_control c) of
        Inl e \<Rightarrow> (Inl e, s, buf)
      | Inr _ \<Rightarrow>
          (case system_title of
             None \<Rightarrow> (Inl (Error_new Unsupported 0), s, buf)
           | Some title \<Rightarrow>
               (case pk_keys_for K (nl_lookup s) title of
                  None \<Rightarrow> (Inl (Error_new Unsupported 0), s, buf)
                | Some keys \<Rightarrow>
                    (case ring_auth_key keys of
                       Inl e \<Rightarrow> (Inl e, s, buf)
                     | Inr auth_key \<Rightarrow>
                         (case pk_replay_window K (nl_lookup s) title of
                            None \<Rightarrow> (Inl (Error_new Unsupported 0), s, buf)
                          | Some w \<Rightarrow>
                              (case ReplayWindow_check w (cs_invocation_counter c) of
                                 Inl e \<Rightarrow> (Inl e, s, buf)
                               | Inr _ \<Rightarrow> open_with_keys K tag title keys auth_key c s buf))))))"

definition notification_inside :: "bytes \<Rightarrow> DataNotification result" where
  "notification_inside plain = fst (try_bind (\<lambda>r. (Reader_peek_u8 r, r)) (\<lambda>inner_tag.
     if ApduTag_from_u8 inner_tag = Some ADataNotification then
       try_bind (lift_res (from_bytes Apdu_decode plain)) (\<lambda>apdu.
         case apdu of ApDataNotification n \<Rightarrow> ok n | _ \<Rightarrow> unexpected)
     else DataNotification_decode) (Reader_new plain))"

definition listener_handle_inner ::
  "'l PushKeyLookup \<Rightarrow> bytes \<Rightarrow> SystemTitle option \<Rightarrow> 'l NotificationListener \<Rightarrow> bytes \<Rightarrow>
     ReceivedNotification result \<times> 'l NotificationListener \<times> bytes" where
  "listener_handle_inner K apdu sender s buf =
     (case notification_parse sender apdu of
        Inl e \<Rightarrow> (Inl e, s, buf)
      | Inr (tag, system_title, ciphered, rest) \<Rightarrow>
          (case (case ciphered of
                   None \<Rightarrow> (case take_bare (nl_required s) rest buf of (r, buf) \<Rightarrow> (r, s, buf))
                 | Some c \<Rightarrow> open_notification K tag system_title c s buf) of
             (Inl e, s, buf) \<Rightarrow> (Inl e, s, buf)
           | (Inr plain, s, buf) \<Rightarrow>
               (case notification_inside plain of
                  Inl e \<Rightarrow> (Inl e, s, buf)
                | Inr n \<Rightarrow> (Inr \<lparr>rn_system_title = system_title, rn_invocation_counter = map_option cs_invocation_counter ciphered,
                    rn_captured_at = dn_date_time n, rn_body = dn_body n\<rparr>, s, buf))))"

definition listener_handle ::
  "'l PushKeyLookup \<Rightarrow> bytes \<Rightarrow> 'l NotificationListener \<Rightarrow> bytes \<Rightarrow> ReceivedNotification result \<times> 'l NotificationListener \<times> bytes" where
  "listener_handle K apdu = listener_handle_inner K apdu None"

definition listener_handle_from ::
  "'l PushKeyLookup \<Rightarrow> SystemTitle \<Rightarrow> bytes \<Rightarrow> 'l NotificationListener \<Rightarrow> bytes \<Rightarrow> ReceivedNotification result \<times> 'l NotificationListener \<times> bytes" where
  "listener_handle_from K sender apdu = listener_handle_inner K apdu (Some sender)"

subsection \<open>The contract of a lookup\<close>

text \<open>What the listener relies on: a window that was stored is the one that is handed out, for its meter only, and storing a window
  leaves the keys as they are.\<close>

locale key_lookup =
  fixes keys_for :: "'l \<Rightarrow> SystemTitle \<Rightarrow> KeyRing option"
    and window :: "'l \<Rightarrow> SystemTitle \<Rightarrow> ReplayWindow option"
    and set_window :: "'l \<Rightarrow> SystemTitle \<Rightarrow> ReplayWindow \<Rightarrow> 'l"
  assumes window_set: "window l t \<noteq> None \<Longrightarrow> window (set_window l t w) t = Some w"
    and window_other: "t' \<noteq> t \<Longrightarrow> window (set_window l t w) t' = window l t'"
    and keys_set: "keys_for (set_window l t w) = keys_for l"
begin

text \<open>A counter that a meter's window refuses.\<close>

lemma refused_after_set:
  assumes "window l t = Some w" "ReplayWindow_accept u w = (Inr (), w')" "window l t' = Some v" "ReplayWindow_check v ic \<noteq> Inr ()"
  shows "\<exists>v'. window (set_window l t w') t' = Some v' \<and> ReplayWindow_check v' ic \<noteq> Inr ()"
proof (cases "t' = t")
  case True
  then have "ReplayWindow_check w' ic \<noteq> Inr ()" using rw.stays_refused [OF assms(2)] assms(1,3,4) by simp
  then show ?thesis using window_set [of l t w'] assms(1) True by simp
qed (use window_other assms(3,4) in simp)

end

interpretation single: key_lookup "pk_keys_for single_meter" "pk_replay_window single_meter" "pk_set_window single_meter"
  by unfold_locales (auto simp: single_meter_def fun_eq_iff split: if_splits)

definition lawful :: "'l PushKeyLookup \<Rightarrow> bool" where
  "lawful K \<longleftrightarrow> key_lookup (pk_keys_for K) (pk_replay_window K) (pk_set_window K)"

lemma lawful_single: "lawful single_meter"
  unfolding lawful_def by (rule single.key_lookup_axioms)

subsection \<open>The keys of one meter\<close>

lemma resolve_laws:
  assumes "provider_in_place p" shows "provider_in_place (ProviderWithKeys p keys)"
  using provider_in_placeD [OF assms]
  by (auto simp: provider_in_place_def ProviderWithKeys_def res_bind_def split: sum.splits) (metis prod.collapse)+

lemma provider_with_keys_laws:
  "aead_inverse p \<Longrightarrow> aead_inverse (ProviderWithKeys p keys)" "ctr_involution p \<Longrightarrow> ctr_involution (ProviderWithKeys p keys)"
  by (auto simp: aead_inverse_def ctr_involution_def ProviderWithKeys_def split: sum.splits)

lemma ring_auth_key_Inr:
  assumes "ring_auth_key keys = Inr ak"
  shows "KeyRing_get Authentication keys = Some ak"
proof -
  from assms obtain k where k: "KeyRing_get Authentication keys = Some k" "length k = 16 \<or> length k = 32"
    "ak = Key_expose \<lparr>key_buf = overwrite (replicate Key_MAX_LEN 0) 0 k, key_len = length k\<rparr>"
    by (auto simp: ring_auth_key_def res_bind_def Key_from_slice_def split: option.splits if_splits sum.splits)
  then have "ak = k" by (auto simp: Key_expose_def slice_def Key_MAX_LEN_def overwrite_front)
  with k(1) show ?thesis by simp
qed

subsection \<open>What a frame does to the listener\<close>

definition parsed_as :: "SystemTitle option \<Rightarrow> bytes \<Rightarrow> ApduTag \<Rightarrow> SystemTitle \<Rightarrow> CipheredService \<Rightarrow> bool" where
  "parsed_as sender apdu tag title c \<longleftrightarrow>
     (case notification_parse sender apdu of
        Inr (tag', Some title', Some c', _) \<Rightarrow> tag' = tag \<and> title' = title \<and> c' = c
      | _ \<Rightarrow> False)"

definition content_opened ::
  "'l PushKeyLookup \<Rightarrow> ApduTag \<Rightarrow> SystemTitle \<Rightarrow> CipheredService \<Rightarrow> 'l NotificationListener \<Rightarrow> bytes \<Rightarrow> 'l NotificationListener \<Rightarrow> bool" where
  "content_opened K tag title c s plain s' \<longleftrightarrow>
     (\<exists>keys ak w w' suite rest. pk_keys_for K (nl_lookup s) title = Some keys \<and> ring_auth_key keys = Inr ak \<and>
        pk_replay_window K (nl_lookup s) title = Some w \<and> ReplayWindow_accept (cs_invocation_counter c) w = (Inr (), w') \<and>
        Protector_unprotect_as \<lparr>pr_provider = ProviderWithKeys (nl_provider s) keys, pr_policy = opening_policy tag suite (nl_required s)\<rparr>
          (opening_policy tag suite (nl_required s)) (cs_security_control c) title (cs_invocation_counter c) ak (cs_payload c) = (Inr plain, rest) \<and>
        SecuritySuite_from_id (SecurityControl_suite (cs_security_control c)) = Inr suite \<and>
        SecurityPolicy_check_received (nl_required s) (cs_security_control c) = Inr () \<and>
        s' = s\<lparr>nl_lookup := pk_set_window K (nl_lookup s) title w'\<rparr>)"

lemma open_with_keys_cases:
  assumes "open_with_keys K tag title keys ak c s buf = (r, s', buf')" "pk_keys_for K (nl_lookup s) title = Some keys"
    "ring_auth_key keys = Inr ak" "pk_replay_window K (nl_lookup s) title = Some w" "ReplayWindow_check w (cs_invocation_counter c) = Inr ()"
    "SecurityPolicy_check_received (nl_required s) (cs_security_control c) = Inr ()"
    "provider_in_place (nl_provider s)"
  obtains (refused) e where "r = Inl e" "s' = s" | (opened) plain where "r = Inr plain" "content_opened K tag title c s plain s'"
proof -
  obtain w' where acc: "ReplayWindow_accept (cs_invocation_counter c) w = (Inr (), w')" using rw.accept_succeeds [OF assms(5)] by blast
  show thesis
  proof (cases "length buf < length (cs_payload c)")
    case True
    then show thesis using assms(1) by (intro refused) (auto simp: open_with_keys_def)
  next
    case False
    show thesis
    proof (cases "SecuritySuite_from_id (SecurityControl_suite (cs_security_control c))")
      case (Inl e)
      then show thesis using assms(1) False by (intro refused) (auto simp: open_with_keys_def Let_def)
    next
      case (Inr suite)
      define t where "t = \<lparr>pr_provider = ProviderWithKeys (nl_provider s) keys, pr_policy = opening_policy tag suite (nl_required s)\<rparr>"
      obtain q body where un: "Protector_unprotect_as t (opening_policy tag suite (nl_required s)) (cs_security_control c) title
          (cs_invocation_counter c) ak (cs_payload c) = (q, body)" by fastforce
      have run: "Protector_unprotect t (cs_security_control c) title (cs_invocation_counter c) ak (take (length (cs_payload c))
          (overwrite buf 0 (cs_payload c))) = (q, body)" using un by (simp add: Protector_unprotect_def t_def)
      show thesis
      proof (cases q)
        case Inl: (Inl e)
        then show thesis using assms(1) False Inr run by (intro refused) (auto simp: open_with_keys_def Let_def t_def)
      next
        case plain: (Inr plain)
        have "provider_in_place (pr_provider t)" using resolve_laws [OF assms(7)] by (simp add: t_def)
        note front = unprotect_as_front [OF un [unfolded plain] this]
        have "length plain \<le> length body" using front(1) by (metis length_take min.cobounded1)
        then have "take (length plain) (overwrite (overwrite buf 0 (cs_payload c)) 0 body) = plain"
          using front(1) by (simp add: overwrite_front)
        then have "r = Inr plain" "s' = s\<lparr>nl_lookup := pk_set_window K (nl_lookup s) title w'\<rparr>"
          using assms(1,4) False Inr run plain acc by (simp_all add: open_with_keys_def Let_def t_def)
        then show thesis using assms(2-6) Inr un plain acc
          by (intro opened) (auto simp: content_opened_def t_def)
      qed
    qed
  qed
qed

lemma open_notification_cases:
  assumes "open_notification K tag t c s buf = (r, s', buf')" "provider_in_place (nl_provider s)"
  obtains (refused) e where "r = Inl e" "s' = s"
  | (opened) title plain where "r = Inr plain" "t = Some title" "content_opened K tag title c s plain s'"
proof (cases "\<exists>title keys ak w. t = Some title \<and> pk_keys_for K (nl_lookup s) title = Some keys \<and> ring_auth_key keys = Inr ak \<and>
    pk_replay_window K (nl_lookup s) title = Some w \<and> ReplayWindow_check w (cs_invocation_counter c) = Inr () \<and>
    SecurityPolicy_check_received (nl_required s) (cs_security_control c) = Inr ()")
  case True
  then obtain title keys ak w where facts: "t = Some title" "pk_keys_for K (nl_lookup s) title = Some keys" "ring_auth_key keys = Inr ak"
    "pk_replay_window K (nl_lookup s) title = Some w" "ReplayWindow_check w (cs_invocation_counter c) = Inr ()"
    "SecurityPolicy_check_received (nl_required s) (cs_security_control c) = Inr ()" by blast
  then have "open_with_keys K tag title keys ak c s buf = (r, s', buf')" using assms(1) by (simp add: open_notification_def)
  from open_with_keys_cases [OF this facts(2-6) assms(2)] show thesis using refused opened facts(1) by metis
next
  case False
  then have "(\<exists>e. r = Inl e) \<and> s' = s" using assms(1) unfolding open_notification_def
    by (auto split: sum.splits option.splits; metis)
  then show thesis using refused by blast
qed

lemma listener_cases:
  assumes "listener_handle_inner K apdu sender s buf = (r, s', buf')" "provider_in_place (nl_provider s)"
  obtains (refused) e where "r = Inl e" "s' = s"
  | (bare) n where "r = Inr n" "s' = s" "SecurityPolicy_is_none (nl_required s)" "rn_system_title n = None \<or> rn_invocation_counter n = None"
  | (opened) tag title c plain where "parsed_as sender apdu tag title c" "content_opened K tag title c s plain s'"
      "(\<exists>e. r = Inl e) \<or> (\<exists>d. notification_inside plain = Inr d \<and> r = Inr \<lparr>rn_system_title = Some title,
         rn_invocation_counter = Some (cs_invocation_counter c), rn_captured_at = dn_date_time d, rn_body = dn_body d\<rparr>)"
proof (cases "notification_parse sender apdu")
  case (Inl e)
  then show thesis using assms(1) by (intro refused) (auto simp: listener_handle_inner_def)
next
  case (Inr p)
  obtain tag t co rest where p: "p = (tag, t, co, rest)" by (cases p) auto
  note parse = Inr [unfolded p]
  show thesis
  proof (cases co)
    case None
    obtain q b where bare: "take_bare (nl_required s) rest buf = (q, b)" by fastforce
    show thesis
    proof (cases q)
      case (Inl e)
      then show thesis using assms(1) parse None bare by (intro refused) (auto simp: listener_handle_inner_def)
    next
      case plain: (Inr plain)
      then have "SecurityPolicy_is_none (nl_required s)" using bare by (auto simp: take_bare_def split: if_splits)
      then show thesis using assms(1) parse None bare plain
        by (cases "notification_inside plain") (auto simp: listener_handle_inner_def intro: that(1,2))
    qed
  next
    case (Some c)
    obtain q u b where op: "open_notification K tag t c s buf = (q, u, b)" by (rule prod_cases3)
    from op assms(2) show thesis
    proof (cases rule: open_notification_cases)
      case (refused e)
      then show thesis using assms(1) parse Some op by (intro that(1)) (auto simp: listener_handle_inner_def)
    next
      case (opened title plain)
      then show thesis using assms(1) parse Some op
        by (intro that(3) [of tag title c plain]) (auto simp: listener_handle_inner_def parsed_as_def split: sum.splits)
    qed
  qed
qed

subsection \<open>Ends to evaluate with\<close>

definition demo_ring :: KeyRing where
  "demo_ring = KeyRing_new (replicate 16 1) (replicate 16 7)"

definition demo_meter :: PushSender where
  "demo_meter = demo_sender (ProviderWithKeys demo_provider demo_ring)"

definition demo_listener :: "SecurityPolicy \<Rightarrow> SingleMeterKeys NotificationListener" where
  "demo_listener required = NotificationListener_new demo_provider (SingleMeterKeys_new (SystemTitle [1, 2, 3, 4, 5, 6, 7, 8]) demo_ring) required"

text \<open>The frame in which the meter pushes the value 5.\<close>

definition demo_frame :: bytes where
  "demo_frame = (case PushSender_notify None (DUnsigned 5) demo_meter (replicate 100 0) of (Inr n, _, out) \<Rightarrow> take n out | _ \<Rightarrow> [])"

lemma demo_listener_hears:
  "(\<lambda>(r, s, _). case r of Inl _ \<Rightarrow> False | Inr n \<Rightarrow> rn_body n = DUnsigned 5 \<and> rn_system_title n = Some (SystemTitle [1, 2, 3, 4, 5, 6, 7, 8]) \<and>
       rn_invocation_counter n = Some 42)
     (listener_handle_inner single_meter demo_frame None (demo_listener demo_policy) (replicate 60 0))"
  by code_simp

subsection \<open>What a listener lets through\<close>

text \<open>C26: A listener that demands authentication hands on a notification, or moves a window, only for content that was verified: whatever
  bytes arrive and whoever is said to have sent them, either the frame is refused and the listener is as it was, or the content
  verified under the keys of the meter the frame names and under a policy that demands authentication, the counter was one the
  window of that meter accepts, and the window now records it.\<close>

theorem listener_authentic:
  assumes "provider_in_place (nl_provider s)" "sp_authenticated (nl_required s)"
    and "listener_handle_inner K apdu sender s buf = (r, s', buf')"
  shows "((\<exists>e. r = Inl e) \<and> s' = s) \<or>
    (\<exists>tag title c keys ak suite w w' plain. parsed_as sender apdu tag title c \<and> pk_keys_for K (nl_lookup s) title = Some keys \<and>
       ring_auth_key keys = Inr ak \<and> pk_replay_window K (nl_lookup s) title = Some w \<and>
       ReplayWindow_accept (cs_invocation_counter c) w = (Inr (), w') \<and> s' = s\<lparr>nl_lookup := pk_set_window K (nl_lookup s) title w'\<rparr> \<and>
       verified \<lparr>pr_provider = ProviderWithKeys (nl_provider s) keys, pr_policy = opening_policy tag suite (nl_required s)\<rparr>
         (opening_policy tag suite (nl_required s)) (cs_security_control c) title (cs_invocation_counter c) ak (cs_payload c) plain \<and>
       (\<forall>n. r = Inr n \<longrightarrow> rn_system_title n = Some title \<and> rn_invocation_counter n = Some (cs_invocation_counter c)))"
  using assms(3,1)
proof (cases rule: listener_cases)
  case bare
  then show ?thesis using assms(2) by (simp add: SecurityPolicy_is_none_def)
next
  case (opened tag title c plain)
  from opened(2) obtain keys ak w w' suite rest where op: "pk_keys_for K (nl_lookup s) title = Some keys" "ring_auth_key keys = Inr ak"
    "pk_replay_window K (nl_lookup s) title = Some w" "ReplayWindow_accept (cs_invocation_counter c) w = (Inr (), w')"
    "Protector_unprotect_as \<lparr>pr_provider = ProviderWithKeys (nl_provider s) keys, pr_policy = opening_policy tag suite (nl_required s)\<rparr>
       (opening_policy tag suite (nl_required s)) (cs_security_control c) title (cs_invocation_counter c) ak (cs_payload c) = (Inr plain, rest)"
    "s' = s\<lparr>nl_lookup := pk_set_window K (nl_lookup s) title w'\<rparr>"
    by (auto simp: content_opened_def)
  have "sp_authenticated (opening_policy tag suite (nl_required s))"
    using assms(2) by (simp add: opening_policy_def SecurityPolicy_with_dedicated_def)
  from unprotect_verified [OF op(5) this] resolve_laws [OF assms(1)] opened(1,3) op(1-4,6) show ?thesis by fastforce
qed simp

theorem listener_authentic_witness:
  "\<exists>n s' buf' plain. listener_handle_inner single_meter demo_frame None (demo_listener demo_policy) (replicate 60 0) = (Inr n, s', buf') \<and>
    (\<exists>tag title c keys ak suite. parsed_as None demo_frame tag title c \<and>
       verified \<lparr>pr_provider = ProviderWithKeys demo_provider keys, pr_policy = opening_policy tag suite demo_policy\<rparr>
         (opening_policy tag suite demo_policy) (cs_security_control c) title (cs_invocation_counter c) ak (cs_payload c) plain)"
proof -
  obtain n s' buf' where run: "listener_handle_inner single_meter demo_frame None (demo_listener demo_policy) (replicate 60 0) = (Inr n, s', buf')"
    using demo_listener_hears by (auto split: prod.splits sum.splits)
  have l: "nl_provider (demo_listener demo_policy) = demo_provider" "nl_required (demo_listener demo_policy) = demo_policy"
    by (simp_all add: demo_listener_def NotificationListener_new_def)
  have "sp_authenticated demo_policy" by (simp add: demo_policy_def SecurityPolicy_authenticated_encrypted_def)
  then show ?thesis using listener_authentic [OF _ _ run] run unfolding l by (simp add: demo_laws) blast
qed

text \<open>Whatever is offered to a listener, under whatever name.\<close>

inductive listener_step :: "'l PushKeyLookup \<Rightarrow> 'l NotificationListener \<Rightarrow> 'l NotificationListener \<Rightarrow> bool" for K where
  offered: "listener_handle_inner K apdu sender s buf = (r, s', buf') \<Longrightarrow> listener_step K s s'"

inductive_cases listener_stepE: "listener_step K s s'"

definition refuses :: "'l PushKeyLookup \<Rightarrow> 'l NotificationListener \<Rightarrow> SystemTitle \<Rightarrow> u32 \<Rightarrow> bool" where
  "refuses K s title ic \<longleftrightarrow> (\<exists>w. pk_replay_window K (nl_lookup s) title = Some w \<and> ReplayWindow_check w ic \<noteq> Inr ())"

lemma step_keeps:
  assumes "listener_step K s s'" "lawful K" "provider_in_place (nl_provider s)"
  shows "nl_provider s' = nl_provider s \<and> nl_required s' = nl_required s \<and> (refuses K s title ic \<longrightarrow> refuses K s' title ic)"
proof -
  from assms(1) obtain apdu sender buf r buf' where "listener_handle_inner K apdu sender s buf = (r, s', buf')" by (rule listener_stepE)
  from this assms(3) show ?thesis
  proof (cases rule: listener_cases)
    case (opened tag t c plain)
    then obtain w w' where w: "pk_replay_window K (nl_lookup s) t = Some w" "ReplayWindow_accept (cs_invocation_counter c) w = (Inr (), w')"
      "s' = s\<lparr>nl_lookup := pk_set_window K (nl_lookup s) t w'\<rparr>" by (auto simp: content_opened_def)
    then show ?thesis using key_lookup.refused_after_set [OF assms(2) [unfolded lawful_def] w(1,2)]
      by (auto simp: refuses_def)
  qed simp_all
qed

lemma steps_keep:
  assumes "(listener_step K)\<^sup>*\<^sup>* s s'" "lawful K" "provider_in_place (nl_provider s)" "refuses K s title ic"
  shows "provider_in_place (nl_provider s') \<and> refuses K s' title ic"
  using assms by (induction rule: rtranclp_induct) (auto dest: step_keeps)

lemma refused_frame:
  assumes "refuses K s title (cs_invocation_counter c)" "parsed_as sender apdu tag title c"
  shows "\<exists>e. listener_handle_inner K apdu sender s buf = (Inl e, s, buf)"
proof -
  from assms(2) obtain rest where "notification_parse sender apdu = Inr (tag, Some title, Some c, rest)"
    by (auto simp: parsed_as_def split: sum.splits option.splits prod.splits)
  moreover from assms(1) obtain w e where "pk_replay_window K (nl_lookup s) title = Some w"
    "ReplayWindow_check w (cs_invocation_counter c) = Inl e"
    by (cases "ReplayWindow_check (the (pk_replay_window K (nl_lookup s) title)) (cs_invocation_counter c)") (auto simp: refuses_def)
  ultimately show ?thesis
    by (auto simp: listener_handle_inner_def open_notification_def split: sum.splits option.splits)
qed

text \<open>C27: A recorded push is worth nothing: once a notification of a meter has been handed on, every frame that names this meter and this
  counter is refused without effect, whatever the listener was offered in between, by whomever, for this meter or for others.\<close>

theorem push_received_once:
  assumes "lawful K" "provider_in_place (nl_provider s)"
    and "listener_handle_inner K apdu sender s buf = (Inr n, s1, buf1)"
    and "rn_system_title n = Some title" "rn_invocation_counter n = Some (cs_invocation_counter c)"
    and "(listener_step K)\<^sup>*\<^sup>* s1 s2" "parsed_as sender2 again tag title c"
  shows "\<exists>e. listener_handle_inner K again sender2 s2 buf2 = (Inl e, s2, buf2)"
proof -
  from assms(3,2) have "refuses K s1 title (cs_invocation_counter c)"
  proof (cases rule: listener_cases)
    case (opened tag1 t c1 plain)
    then have t: "t = title" "cs_invocation_counter c1 = cs_invocation_counter c" using assms(4,5) by auto
    from opened(2) obtain w w' where w: "pk_replay_window K (nl_lookup s) title = Some w"
      "ReplayWindow_accept (cs_invocation_counter c) w = (Inr (), w')" "s1 = s\<lparr>nl_lookup := pk_set_window K (nl_lookup s) title w'\<rparr>"
      unfolding content_opened_def t by blast
    then show ?thesis
      using key_lookup.window_set [OF assms(1) [unfolded lawful_def], of "nl_lookup s" title w'] rw.spends [OF w(2)] by (simp add: refuses_def)
  qed (use assms(4,5) in auto)
  moreover have "provider_in_place (nl_provider s1)"
    using step_keeps [OF listener_step.offered [OF assms(3)] assms(1,2)] assms(2) by simp
  ultimately have "refuses K s2 title (cs_invocation_counter c)" using steps_keep [OF assms(6,1)] by blast
  from refused_frame [OF this assms(7)] show ?thesis .
qed

theorem push_received_once_witness:
  "\<exists>n s1 buf1 e. listener_handle_inner single_meter demo_frame None (demo_listener demo_policy) (replicate 60 0) = (Inr n, s1, buf1) \<and>
     listener_handle_inner single_meter demo_frame None s1 [] = (Inl e, s1, [])"
proof -
  obtain n s1 buf1 where run: "listener_handle_inner single_meter demo_frame None (demo_listener demo_policy) (replicate 60 0) = (Inr n, s1, buf1)"
    "rn_system_title n = Some (SystemTitle [1, 2, 3, 4, 5, 6, 7, 8])" "rn_invocation_counter n = Some 42"
    using demo_listener_hears by (auto split: prod.splits sum.splits)
  have "case notification_parse None demo_frame of Inr (_, Some t, Some c, _) \<Rightarrow> t = SystemTitle [1, 2, 3, 4, 5, 6, 7, 8] \<and> cs_invocation_counter c = 42 | _ \<Rightarrow> False"
    by code_simp
  moreover obtain tag t co rest where "notification_parse None demo_frame = Inr (tag, t, co, rest)"
    using calculation by (cases "notification_parse None demo_frame") auto
  ultimately obtain tag c where c: "parsed_as None demo_frame tag (SystemTitle [1, 2, 3, 4, 5, 6, 7, 8]) c" "cs_invocation_counter c = 42"
    by (cases t; cases co) (auto simp: parsed_as_def)
  have "provider_in_place (nl_provider (demo_listener demo_policy))"
    by (simp add: demo_listener_def NotificationListener_new_def demo_laws)
  from push_received_once [OF lawful_single this run(1,2) _ rtranclp.rtrancl_refl c(1)] run(1,3) c(2) show ?thesis by auto
qed

text \<open>C32: A listener for the broadcast key set hears nothing: told to demand broadcast protection, as its documentation says for meters that push
  under the broadcast key, it refuses every frame there is.  The policy it opens under is put back on the unicast key set, and
  a frame that passes the first check for the broadcast bit fails the second.\<close>

theorem broadcast_listener_hears_nothing:
  assumes "sp_key_set (nl_required s) = KsGlobalBroadcast" "\<not> SecurityPolicy_is_none (nl_required s)" "provider_in_place (nl_provider s)"
  shows "\<exists>e buf'. listener_handle_inner K apdu sender s buf = (Inl e, s, buf')"
proof -
  obtain r s' buf' where run: "listener_handle_inner K apdu sender s buf = (r, s', buf')" by (rule prod_cases3)
  from run assms(3) show ?thesis
  proof (cases rule: listener_cases)
    case (opened tag title c plain)
    then obtain suite t ak rest where "SecurityPolicy_check_received (nl_required s) (cs_security_control c) = Inr ()"
      "Protector_unprotect_as t (opening_policy tag suite (nl_required s)) (cs_security_control c) title (cs_invocation_counter c) ak
         (cs_payload c) = (Inr plain, rest)"
      by (auto simp: content_opened_def)
    moreover from this have "SecurityPolicy_check_received (opening_policy tag suite (nl_required s)) (cs_security_control c) = Inr ()"
      by (auto simp: Protector_unprotect_as_def split: sum.splits)
    ultimately have False using assms(1)
      by (auto simp: check_received_Inr opening_policy_def SecurityPolicy_with_dedicated_def KeySet_is_broadcast_def split: if_splits)
    then show ?thesis ..
  qed (use run assms(2) in auto)
qed

theorem broadcast_listener_hears_nothing_witness:
  "\<exists>e buf'. listener_handle_inner single_meter demo_frame None (demo_listener (SecurityPolicy_with_broadcast True demo_policy)) (replicate 60 0) =
     (Inl e, demo_listener (SecurityPolicy_with_broadcast True demo_policy), buf')"
  by (rule broadcast_listener_hears_nothing)
    (simp_all add: demo_listener_def NotificationListener_new_def demo_laws demo_policy_def SecurityPolicy_with_broadcast_def
      SecurityPolicy_authenticated_encrypted_def SecurityPolicy_is_none_def)

subsection \<open>From the sender to the listener\<close>

lemma parse_from_form:
  assumes "decodes (notification_form sender ctag) bs (t, co)" "ApduTag_from_u8 T = Some ctag"
  shows "\<exists>rest. notification_parse sender (T # bs) = Inr (ctag, t, co, rest)"
proof -
  have skip: "Reader_skip 1 (Reader_new (T # bs)) = (Inr (), rd_advance 1 (Reader_new (T # bs)))"
    using decodes_inside [OF decodes_skip [of "[T]" 1], of "T # bs" "[]" bs 0 1] by simp
  have form: "notification_form sender ctag (rd_advance 1 (Reader_new (T # bs))) = (Inr (t, co), rd_advance (1 + length bs) (Reader_new (T # bs)))"
    using decodes_inside [OF assms(1), of "T # bs" "[T]" "[]" 1 "1 + length bs"] by simp
  show ?thesis using assms(2) skip form by (simp add: notification_parse_def try_bind_def split: prod.splits)
qed

text \<open>A frame that the other end protected under the meter's keys is read back as it was sent.\<close>

lemma protected_frame_parsed:
  assumes "tag = ADataNotification \<or> tag = AEventNotificationRequest \<and> sender = Some (og_system_title og)"
    "length (st_bytes (og_system_title og)) = 8" "ciphered_valid c" "\<not> SecurityPolicy_dedicated (og_policy og)"
  obtains ctag where "parsed_as sender (form_image og tag @ ciphered_image c) ctag (og_system_title og) c"
    "ctag \<noteq> AGeneralDedCiphering" "ctag \<noteq> ADedEventNotification"
proof -
  have forms: "ApduTag_protected_as PGlobal ADataNotification = None" "ApduTag_protected_as PGlobal AEventNotificationRequest = Some AGloEventNotification"
    by code_simp+
  show thesis
  proof (cases "tag = ADataNotification")
    case True
    let ?g = "\<lparr>gg_system_title = st_bytes (og_system_title og), gg_ciphered = c\<rparr>"
    have g: "decodes GeneralGloCiphering_decode (glo_image ?g) ?g"
      using assms(2,3) by (intro glo.dec_img) (simp add: glo_valid_def short_field_def)
    have title: "try_bind (lift_res (SystemTitle_from_slice (gg_system_title ?g))) (\<lambda>t. ok (Some t, Some (gg_ciphered ?g))) =
        ok (Some (og_system_title og), Some c)"
      using assms(2) by (auto simp: SystemTitle_from_slice_def lift_res_def ok_def try_bind_def)
    have "decodes (notification_form sender AGeneralGloCiphering) (glo_image ?g) (Some (og_system_title og), Some c)"
      using decodes_last [OF g, of "\<lambda>g. try_bind (lift_res (SystemTitle_from_slice (gg_system_title g))) (\<lambda>t. ok (Some t, Some (gg_ciphered g)))", OF title]
      by (simp add: notification_form_def)
    from parse_from_form [OF this, of "ApduTag_as_u8 AGeneralGloCiphering"] obtain rest where
      "notification_parse sender (ApduTag_as_u8 AGeneralGloCiphering # glo_image ?g) = Inr (AGeneralGloCiphering, Some (og_system_title og), Some c, rest)"
      by (auto simp: ApduTag_from_u8_def)
    then have "parsed_as sender (form_image og tag @ ciphered_image c) AGeneralGloCiphering (og_system_title og) c"
      using assms(4) forms True by (auto simp: parsed_as_def form_image_def Let_def glo_image_def)
    then show thesis by (rule that) simp_all
  next
    case False
    have "decodes (notification_form sender AGloEventNotification) (ciphered_image c) (sender, Some c)"
      using ciphered.dec_img [OF assms(3)] by (auto simp: notification_form_def intro: decodes_map)
    from parse_from_form [OF this, of "ApduTag_as_u8 AGloEventNotification"] obtain rest where
      "notification_parse sender (ApduTag_as_u8 AGloEventNotification # ciphered_image c) = Inr (AGloEventNotification, sender, Some c, rest)"
      by (auto simp: ApduTag_from_u8_def)
    then have "parsed_as sender (form_image og tag @ ciphered_image c) AGloEventNotification (og_system_title og) c"
      using assms(1,4) forms False by (auto simp: parsed_as_def form_image_def Let_def)
    then show thesis by (rule that) simp_all
  qed
qed

lemma opening_same:
  assumes "sp_key_set p = KsGlobalUnicast" "tag \<noteq> AGeneralDedCiphering" "tag \<noteq> ADedEventNotification"
  shows "opening_policy tag (sp_suite p) p = p"
  using assms by (simp add: opening_policy_def SecurityPolicy_with_dedicated_def)

text \<open>The ends of a push: a listener that knows the keys and the window of a meter, and a meter that protects under these keys as the
  listener demands.\<close>

definition push_ends :: "'l PushKeyLookup \<Rightarrow> 'l NotificationListener \<Rightarrow> SystemTitle \<Rightarrow> u32 \<Rightarrow> Protector \<Rightarrow> bool" where
  "push_ends K s title ic t \<longleftrightarrow>
     provider_in_place (nl_provider s) \<and> aead_inverse (nl_provider s) \<and> ctr_involution (nl_provider s) \<and>
     \<not> SecurityPolicy_is_none (nl_required s) \<and> sp_key_set (nl_required s) = KsGlobalUnicast \<and> pr_policy t = nl_required s \<and>
     length (st_bytes title) = 8 \<and>
     (\<exists>keys ak w. pk_keys_for K (nl_lookup s) title = Some keys \<and> ring_auth_key keys = Inr ak \<and> pr_provider t = ProviderWithKeys (nl_provider s) keys \<and>
        pk_replay_window K (nl_lookup s) title = Some w \<and> ReplayWindow_check w ic = Inr ())"

lemma listener_opens:
  assumes "push_ends K s title ic t"
    and og: "og = \<lparr>og_system_title = title, og_invocation_counter = ic, og_auth_key = Protector_auth_key t, og_policy = pr_policy t, og_general_allowed = True\<rparr>"
    and "protect_apdu t og plain out = (Inr n, out')" "5 + length plain + TAG_LEN < 2 ^ 32" "length plain + TAG_LEN \<le> length buf"
    and "first_tag plain = Inr tag" "tag = ADataNotification \<or> tag = AEventNotificationRequest \<and> sender = Some title"
    and "notification_inside plain = Inr d"
  shows "\<exists>s' buf'. listener_handle_inner K (take n out') sender s buf = (Inr \<lparr>rn_system_title = Some title, rn_invocation_counter = Some ic,
      rn_captured_at = dn_date_time d, rn_body = dn_body d\<rparr>, s', buf')"
proof -
  from assms(1) obtain keys ak w where k: "pk_keys_for K (nl_lookup s) title = Some keys" "ring_auth_key keys = Inr ak"
    "pr_provider t = ProviderWithKeys (nl_provider s) keys" "pk_replay_window K (nl_lookup s) title = Some w" "ReplayWindow_check w ic = Inr ()"
    and p: "\<not> SecurityPolicy_is_none (nl_required s)" "sp_key_set (nl_required s) = KsGlobalUnicast" "pr_policy t = nl_required s"
    "length (st_bytes title) = 8" and laws: "provider_in_place (nl_provider s)" "aead_inverse (nl_provider s)" "ctr_involution (nl_provider s)"
    by (auto simp: push_ends_def)
  note laws' = resolve_laws [OF laws(1), of keys, folded k(3)] provider_with_keys_laws(1) [OF laws(2), of keys, folded k(3)]
    provider_with_keys_laws(2) [OF laws(3), of keys, folded k(3)]
  have auth: "Protector_auth_key t = Some ak"
    using ring_auth_key_Inr [OF k(2)] k(3) by (simp add: Protector_auth_key_def ProviderWithKeys_def)
  have pol: "\<not> SecurityPolicy_is_none (og_policy og)" "length (st_bytes (og_system_title og)) = 8" using p by (simp_all add: og)
  from assms(3) pol assms(4) show ?thesis
  proof (cases rule: protect_apdu_Inr)
    case (1 tag' ak' payload out1 body)
    have [simp]: "tag' = tag" "ak' = ak" using 1(1,2) assms(6) auth by (simp_all add: og)
    define c where "c = \<lparr>cs_security_control = SecurityPolicy_control (pr_policy t), cs_invocation_counter = ic, cs_payload = payload\<rparr>"
    have c: "ciphered_valid c" "length payload \<le> length buf" using assms(4,5) 1(5) by (auto simp: ciphered_valid_def c_def split: if_splits)
    have uni: "\<not> SecurityPolicy_dedicated (og_policy og)" using p by (simp add: og SecurityPolicy_dedicated_def KeySet_is_dedicated_def)
    obtain ctag where ctag: "parsed_as sender (take n out') ctag title c" "ctag \<noteq> AGeneralDedCiphering" "ctag \<noteq> ADedEventNotification"
      using protected_frame_parsed [where tag = tag and sender = sender and og = og and c = c] assms(7) pol(2) c(1) uni 1(4) by (auto simp: og c_def)
    obtain rest where parse: "notification_parse sender (take n out') = Inr (ctag, Some title, Some c, rest)"
      using ctag(1) by (auto simp: parsed_as_def split: sum.splits option.splits prod.splits)
    note same = opening_same [OF p(2) ctag(2,3)]
    obtain rest' where un: "Protector_unprotect_as t (pr_policy t) (SecurityPolicy_control (pr_policy t)) title ic ak payload = (Inr plain, rest')"
      using unprotect_protected [OF 1(3) laws'] by (auto simp: og)
    obtain w' where acc: "ReplayWindow_accept ic w = (Inr (), w')" using rw.accept_succeeds [OF k(5)] by blast
    note front = unprotect_as_front [OF un laws'(1)]
    have "length plain \<le> length rest'" using front(1) by (metis length_take min.cobounded1)
    then have whole: "take (length plain) (overwrite (overwrite buf 0 payload) 0 rest') = plain" using front(1) by (simp add: overwrite_front)
    have t: "t = \<lparr>pr_provider = ProviderWithKeys (nl_provider s) keys, pr_policy = nl_required s\<rparr>" using k(3) p(3) by (cases t) simp
    have "open_with_keys K ctag title keys ak c s buf = (Inr plain, s\<lparr>nl_lookup := pk_set_window K (nl_lookup s) title w'\<rparr>,
        overwrite (overwrite buf 0 payload) 0 rest')"
      using c(2) un acc k(4) whole p(3) same
      by (simp add: open_with_keys_def c_def Let_def Protector_unprotect_def t [symmetric])
    then have "open_notification K ctag (Some title) c s buf = (Inr plain, s\<lparr>nl_lookup := pk_set_window K (nl_lookup s) title w'\<rparr>,
        overwrite (overwrite buf 0 payload) 0 rest')"
      using k p(3) by (simp add: open_notification_def c_def)
    then show ?thesis using parse assms(8) by (simp add: listener_handle_inner_def c_def)
  qed
qed

lemma notification_inside_round_trip:
  assumes "Data_valid body" "writes (Apdu_encode (ApDataNotification (push_notification t body i))) plain" "plain \<noteq> []" "hd plain = 0x0F"
  shows "\<exists>d. notification_inside plain = Inr d \<and> dn_date_time d = t \<and> Data_abs (dn_body d) = Data_abs body"
proof -
  have "Apdu_valid (ApDataNotification (push_notification t body i))" using assms(1) by (simp add: DataNotification_valid_def push_notification_def)
  from codes_round_trip [OF codes_apdu [OF this]] obtain bs y where y: "Apdu_encode (ApDataNotification (push_notification t body i)) (VecW []) = (Inr (), VecW bs)"
    "from_bytes Apdu_decode bs = Inr y" "Apdu_abs y = Apdu_abs (ApDataNotification (push_notification t body i))" by blast
  have "bs = plain" using writes_VecW [OF assms(2), of "[]"] y(1) by simp
  moreover obtain d where "y = ApDataNotification d" "DataNotification_abs d = DataNotification_abs (push_notification t body i)"
    using y(3) by (cases y) auto
  moreover have "Reader_peek_u8 (Reader_new plain) = Inr 0x0F"
    using assms(3,4) by (cases plain) (auto intro!: peek_eq simp: rd_wf_def Reader_new_def Reader_rest_def)
  moreover have "ApduTag_from_u8 0x0F = Some ADataNotification" by (simp add: ApduTag_from_u8_def)
  ultimately show ?thesis using y(2)
    by (cases d) (auto simp: notification_inside_def try_bind_def lift_res_def ok_def DataNotification_abs_def push_notification_def)
qed

lemma notify_protected_Inr:
  assumes "notify_protected plain s out = (Inr n, s', out')" "\<not> SecurityPolicy_is_none (pr_policy (ps_protector s))"
  shows "InvocationCounter_next (ps_invocation_counter s) = (Inr (PushSender_invocation_counter s'), ps_invocation_counter s')"
    "protect_apdu (ps_protector s) \<lparr>og_system_title = ps_system_title s, og_invocation_counter = PushSender_invocation_counter s',
       og_auth_key = Protector_auth_key (ps_protector s), og_policy = pr_policy (ps_protector s), og_general_allowed = True\<rparr> plain out = (Inr n, out')"
proof -
  obtain r counter where nx: "InvocationCounter_next (ps_invocation_counter s) = (r, counter)" by fastforce
  from assms nx obtain ic where r: "r = Inr ic" by (cases r) (auto simp: notify_protected_def)
  then have "InvocationCounter_get counter = ic"
    using nx by (cases "ps_invocation_counter s") (auto split: if_splits)
  then show "InvocationCounter_next (ps_invocation_counter s) = (Inr (PushSender_invocation_counter s'), ps_invocation_counter s')"
    "protect_apdu (ps_protector s) \<lparr>og_system_title = ps_system_title s, og_invocation_counter = PushSender_invocation_counter s',
       og_auth_key = Protector_auth_key (ps_protector s), og_policy = pr_policy (ps_protector s), og_general_allowed = True\<rparr> plain out = (Inr n, out')"
    using assms nx r by (auto simp: notify_protected_def Let_def PushSender_invocation_counter_def split: prod.splits)
qed

text \<open>C28: A push reaches its listener: whatever value a meter pushes and whatever time it gives, when the listener knows the meter's keys, demands
  the protection the meter applies and has not seen the meter's next counter, it reads the frame as a notification of this meter
  under this counter, with this time and this value; only the positions of borrowed bytes are new.\<close>

theorem push_reaches_listener:
  assumes "PushSender_notify t body m out = (Inr n, m', out')" "Data_valid body"
    "push_ends K s (ps_system_title m) (PushSender_invocation_counter m') (ps_protector m)"
    "encoded_len (Data_encode body) + 40 \<le> length buf" "encoded_len (Data_encode body) < 2 ^ 31"
  shows "\<exists>r s' buf'. listener_handle K (take n out') s buf = (Inr r, s', buf') \<and> rn_system_title r = Some (ps_system_title m) \<and>
    rn_invocation_counter r = Some (PushSender_invocation_counter m') \<and> rn_captured_at r = t \<and> Data_abs (rn_body r) = Data_abs body"
  using assms(1,2)
proof (cases rule: notify_Inr)
  case (1 i plain m1)
  obtain d where d: "notification_inside plain = Inr d" "dn_date_time d = t" "Data_abs (dn_body d) = Data_abs body"
    using notification_inside_round_trip [OF assms(2) 1(4,1,2)] by blast
  have "\<not> SecurityPolicy_is_none (pr_policy (ps_protector m1))" using assms(3) 1(6) by (simp add: push_ends_def)
  note sent = notify_protected_Inr(2) [OF 1(5) this, unfolded 1(6,7)]
  have tag: "first_tag plain = Inr ADataNotification" using 1(1,2) by (cases plain) (simp_all add: first_tag_def ApduTag_from_u8_def)
  have size: "5 + length plain + TAG_LEN < 2 ^ 32" "length plain + TAG_LEN \<le> length buf" using 1(3) assms(4,5) by (simp_all add: TAG_LEN_def)
  show ?thesis using listener_opens [OF assms(3) refl sent size tag _ d(1), of None] d(2,3)
    by (auto simp: listener_handle_def)
qed

lemma demo_push_ends:
  "push_ends single_meter (demo_listener demo_policy) (SystemTitle [1, 2, 3, 4, 5, 6, 7, 8]) 42 (ps_protector demo_meter)"
proof -
  have "(case ring_auth_key demo_ring of Inl _ \<Rightarrow> False | Inr _ \<Rightarrow> True)" by code_simp
  then obtain ak where "ring_auth_key demo_ring = Inr ak" by (cases "ring_auth_key demo_ring") auto
  moreover have "ReplayWindow_check ReplayWindow_strict 42 = Inr ()" by code_simp
  ultimately show ?thesis
    by (simp add: push_ends_def demo_listener_def NotificationListener_new_def demo_laws demo_meter_def demo_sender_def PushSender_new_def
      demo_policy_def SecurityPolicy_authenticated_encrypted_def SecurityPolicy_is_none_def SecurityPolicy_global_def single_meter_def SingleMeterKeys_new_def)
qed

theorem push_reaches_listener_witness:
  "\<exists>n m' out' r s' buf'. PushSender_notify None (DUnsigned 5) demo_meter (replicate 100 0) = (Inr n, m', out') \<and>
    listener_handle single_meter (take n out') (demo_listener demo_policy) (replicate 60 0) = (Inr r, s', buf') \<and> Data_abs (rn_body r) = DUnsigned 5"
proof -
  let ?run = "PushSender_notify None (DUnsigned 5) demo_meter (replicate 100 0)"
  have "(\<lambda>(r, m', _). \<not> isl r \<and> PushSender_invocation_counter m' = 42) ?run" by code_simp
  then obtain n m' out' where run: "?run = (Inr n, m', out')" and ic: "PushSender_invocation_counter m' = 42" by (cases ?run; cases "fst ?run") auto
  have "ps_system_title demo_meter = SystemTitle [1, 2, 3, 4, 5, 6, 7, 8]" by (simp add: demo_meter_def demo_sender_def PushSender_new_def)
  moreover have "encoded_len (Data_encode (DUnsigned 5)) = 2" by code_simp
  ultimately show ?thesis
    using push_reaches_listener [OF run, of single_meter "demo_listener demo_policy" "replicate 60 0"] demo_push_ends run by (auto simp: ic)
qed

text \<open>An event notification, taken for a data notification.\<close>

lemma event_bytes:
  assumes "Data_valid v" "writes (Apdu_encode (ApEventNotification \<lparr>en_time = None,
      en_descriptor = AttributeDescriptor_new class_id (Obis_new 0 0 c d e f) attr, en_value = v\<rparr>)) plain"
  obtains rest where "plain = ([0xC2, 0] @ be_bytes 2 class_id) @ [0] @ [0] @ rest"
proof -
  obtain vb where vb: "writes (Data_encode v) vb" using codes_Data [OF assms(1)] by (auto simp: codes_def)
  let ?d = "AttributeDescriptor_new class_id (Obis_new 0 0 c d e f) attr"
  have "writes (Apdu_encode (ApEventNotification \<lparr>en_time = None, en_descriptor = ?d, en_value = v\<rparr>))
      ([0xC2] @ [0] @ (be_bytes 2 (ad_class_id ?d) @ obis_bytes (ad_instance_id ?d) @ [ad_attribute_id ?d]) @ vb)"
    by (simp only: Apdu_encode_def Apdu.case if_False Apdu_tag.simps Apdu_encode_body.simps ApduTag_as_u8.simps EventNotification_encode_def
        EventNotification.simps encode_optional_def option.case AttributeDescriptor_encode_def)
      (intro writes_seq writes_u8 writes_u16 writes_bytes vb)
  from writes_unique [OF assms(2) this] show thesis
    by (intro that [of "[c, d, e, f, attr] @ vb"]) (simp add: AttributeDescriptor_new_def Obis_new_def obis_bytes_def)
qed

lemma event_read_as_null:
  assumes "plain = ([0xC2, 0] @ be_bytes 2 (class_id :: u16)) @ [0] @ [0] @ rest"
  shows "\<exists>d. notification_inside plain = Inr d \<and> dn_date_time d = None \<and> dn_body d = DNull"
proof -
  let ?i = "be_word ([0xC2, 0] @ be_bytes 2 class_id) :: u32"
  have "be_bytes 4 ?i = [0xC2, 0] @ be_bytes 2 class_id"
    using be_bytes_be_word [of "[0xC2, 0] @ be_bytes 2 class_id", where 'a = 32] by simp
  then have word: "decodes Reader_u32 ([0xC2, 0] @ be_bytes 2 class_id) ?i" using decodes_u32 [of ?i] by simp
  have "prefixed [] = [0]" by (simp add: prefixed_def len_bytes_def)
  then have "decodes Reader_length_prefixed [0] []" using decodes_prefixed [of "[]"] by (simp add: short_field_def)
  then have time: "decodes OptionalDateTime_decode [0] None" unfolding OptionalDateTime_decode_def by (rule decodes_last) simp
  obtain bs where bs: "writes (Data_encode DNull) bs" "decodes_sat False Data_decode bs (\<lambda>y. Data_abs y = Data_abs DNull)"
    using codes_Data [of DNull False] by (auto simp: codes_def)
  have abs_null: "Data_abs y = Data_abs DNull \<Longrightarrow> y = DNull" for y by (cases y) simp_all
  have "writes (Data_encode DNull) [0]" unfolding Data_encode_def by (simp add: writes_u8 writes_seq [OF writes_u8 writes_ok, simplified])
  then have "bs = [0]" by (rule writes_unique [OF bs(1)])
  moreover have "decodes_sat False Data_decode bs (\<lambda>y. y = DNull)" by (rule decodes_sat_mono [OF bs(2)]) (rule abs_null)
  ultimately have null: "decodes Data_decode [0] DNull" by (auto simp: decodes_sat_def decodes_def decodes_at_def)
  have "decodes DataNotification_decode (([0xC2, 0] @ be_bytes 2 class_id) @ [0] @ [0]) \<lparr>dn_long_invoke_id = LongInvokeId ?i, dn_date_time = None, dn_body = DNull\<rparr>"
    unfolding DataNotification_decode_def
    by (intro decodes_bind [OF word] decodes_bind [OF time] decodes_last [OF null]) simp
  from decodes_inside [OF this, of plain "[]" rest 0 6]
  have "fst (DataNotification_decode (Reader_new plain)) = Inr \<lparr>dn_long_invoke_id = LongInvokeId ?i, dn_date_time = None, dn_body = DNull\<rparr>"
    using assms by simp
  moreover have "Reader_peek_u8 (Reader_new plain) = Inr 0xC2"
    using assms by (auto intro!: peek_eq simp: rd_wf_def Reader_new_def Reader_rest_def)
  moreover have "ApduTag_from_u8 0xC2 \<noteq> Some ADataNotification" by (simp add: ApduTag_from_u8_def)
  ultimately show ?thesis by (simp add: notification_inside_def try_bind_def)
qed

text \<open>C33: An event notification without a time is read as something else: whatever value a meter reports with a protected event notification that carries no time,
  about an object whose name begins with two zeros, a listener that opens the frame under the meter's keys reports a null value and no time.  The
  plaintext is taken for a data notification, whose fields the bytes of the descriptor happen to fill, and no error is reported.  The listener has
  the keys, policy and window that let the frame through, the value is within the limits of its encoding, and the protected plaintext fits a length field and
  the listener's buffer.\<close>

theorem event_notification_read_as_null:
  assumes "protect_apdu t \<lparr>og_system_title = title, og_invocation_counter = ic, og_auth_key = Protector_auth_key t, og_policy = pr_policy t,
      og_general_allowed = True\<rparr> plain out = (Inr n, out')"
    "writes (Apdu_encode (ApEventNotification \<lparr>en_time = None, en_descriptor = AttributeDescriptor_new class_id (Obis_new 0 0 c d e f) attr,
      en_value = v\<rparr>)) plain"
    "Data_valid v" "push_ends K s title ic t" "5 + length plain + TAG_LEN < 2 ^ 32" "length plain + TAG_LEN \<le> length buf"
  shows "\<exists>s' buf'. listener_handle_from K title (take n out') s buf = (Inr \<lparr>rn_system_title = Some title, rn_invocation_counter = Some ic,
      rn_captured_at = None, rn_body = DNull\<rparr>, s', buf')"
proof -
  obtain rest where plain: "plain = ([0xC2, 0] @ be_bytes 2 class_id) @ [0] @ [0] @ rest" using event_bytes [OF assms(3,2)] .
  obtain r where r: "notification_inside plain = Inr r" "dn_date_time r = None" "dn_body r = DNull" using event_read_as_null [OF plain] by blast
  have "first_tag plain = Inr AEventNotificationRequest" unfolding plain by (simp add: first_tag_def ApduTag_from_u8_def)
  from listener_opens [OF assms(4) refl assms(1,5,6) this _ r(1), of "Some title"] r(2,3) show ?thesis
    by (simp add: listener_handle_from_def)
qed

definition demo_event :: EventNotification where
  "demo_event = \<lparr>en_time = None, en_descriptor = AttributeDescriptor_new 1 (Obis_new 0 0 97 98 0 255) 2, en_value = DUnsigned 5\<rparr>"

theorem event_notification_read_as_null_witness:
  "\<exists>n out' s' buf'. protect_apdu (ps_protector demo_meter) \<lparr>og_system_title = SystemTitle [1, 2, 3, 4, 5, 6, 7, 8], og_invocation_counter = 42,
       og_auth_key = Protector_auth_key (ps_protector demo_meter), og_policy = pr_policy (ps_protector demo_meter), og_general_allowed = True\<rparr>
       [0xC2, 0, 0, 1, 0, 0, 97, 98, 0, 255, 2, 0x11, 5] (replicate 100 0) = (Inr n, out') \<and>
     listener_handle_from single_meter (SystemTitle [1, 2, 3, 4, 5, 6, 7, 8]) (take n out') (demo_listener demo_policy) (replicate 60 0) =
       (Inr \<lparr>rn_system_title = Some (SystemTitle [1, 2, 3, 4, 5, 6, 7, 8]), rn_invocation_counter = Some 42, rn_captured_at = None, rn_body = DNull\<rparr>, s', buf')"
proof -
  let ?plain = "[0xC2, 0, 0, 1, 0, 0, 97, 98, 0, 255, 2, 0x11, 5] :: bytes"
  let ?run = "protect_apdu (ps_protector demo_meter) \<lparr>og_system_title = SystemTitle [1, 2, 3, 4, 5, 6, 7, 8], og_invocation_counter = 42,
       og_auth_key = Protector_auth_key (ps_protector demo_meter), og_policy = pr_policy (ps_protector demo_meter), og_general_allowed = True\<rparr>
       ?plain (replicate 100 0)"
  have "\<not> isl (fst ?run)" by code_simp
  then obtain n out' where run: "?run = (Inr n, out')" by (cases ?run; cases "fst ?run") auto
  have "Apdu_valid (ApEventNotification demo_event)" by (simp add: EventNotification_valid_def AttributeDescriptor_valid_def demo_event_def
      AttributeDescriptor_new_def Obis_new_def obis_wf_def)
  then obtain bs where bs: "writes (Apdu_encode (ApEventNotification demo_event)) bs" using codes_apdu [of "ApEventNotification demo_event"] by (auto simp: codes_def)
  have "Apdu_encode (ApEventNotification demo_event) (VecW []) = (Inr (), VecW ?plain)" by code_simp
  then have "bs = ?plain" using writes_VecW [OF bs, of "[]"] by simp
  note event_notification_read_as_null [OF run bs [unfolded demo_event_def this] _ demo_push_ends, of "replicate 60 0"]
  then show ?thesis using run by (simp add: TAG_LEN_def)
qed

end
