(* ===== verification/Profile.thy ===== *)
theory Profile
  imports Rights ServiceCodec
begin

text \<open>
  Load profiles, \<^verbatim>\<open>src/src/cosem/profile.rs\<close>: the columns of a profile, the two ways to select a part of it, and the reader of
  its buffer, which undoes what a meter leaves out of a row.
\<close>

subsection \<open>A captured column\<close>

record CaptureObject =
  co_class_id :: u16
  co_logical_name :: Obis
  co_attribute_index :: u8
  co_data_index :: u16

definition CaptureObject_new :: "u16 \<Rightarrow> Obis \<Rightarrow> u8 \<Rightarrow> u16 \<Rightarrow> CaptureObject" where
  "CaptureObject_new class_id logical_name attribute_index data_index =
     \<lparr>co_class_id = class_id, co_logical_name = logical_name, co_attribute_index = attribute_index, co_data_index = data_index\<rparr>"

definition CaptureObject_clock :: CaptureObject where
  "CaptureObject_clock = CaptureObject_new 8 (Obis_new 0 0 1 0 0 255) 2 0"

definition CaptureObject_from_data :: "Data \<Rightarrow> CaptureObject result" where
  "CaptureObject_from_data d =
     res_bind (invalid (Data_as_structure d)) (\<lambda>s.
     res_bind (res_bind (Seq_get s 0) (\<lambda>v. invalid (Data_as_u64 v))) (\<lambda>class_id.
     res_bind (invalid (in_range 0 65535 class_id)) (\<lambda>class_id.
     res_bind (res_bind (Seq_get s 1) (\<lambda>v. invalid (Data_as_obis v))) (\<lambda>logical_name.
     res_bind (res_bind (Seq_get s 2) (\<lambda>v. invalid (Data_as_i64 v))) (\<lambda>attribute_index.
     res_bind (invalid (in_range (-128) 127 attribute_index)) (\<lambda>attribute_index.
     res_bind (res_bind (Seq_get s 3) (\<lambda>v. invalid (Data_as_u64 v))) (\<lambda>data_index.
     res_bind (invalid (in_range 0 65535 data_index)) (\<lambda>data_index.
       Inr (CaptureObject_new (of_int class_id) logical_name (of_int attribute_index) (of_int data_index))))))))))"

definition CaptureObject_encode :: "CaptureObject \<Rightarrow> (writer, unit) op" where
  "CaptureObject_encode o1 =
     try_bind (write_bytes [0x02, 0x04]) (\<lambda>_.
     try_bind (write_bytes [0x12]) (\<lambda>_.
     try_bind (write_u16 (co_class_id o1)) (\<lambda>_.
     try_bind (write_bytes [0x09, 0x06]) (\<lambda>_.
     try_bind (write_bytes (obis_bytes (co_logical_name o1))) (\<lambda>_.
     try_bind (write_bytes [0x0F, co_attribute_index o1]) (\<lambda>_.
     try_bind (write_bytes [0x12]) (\<lambda>_.
     write_u16 (co_data_index o1))))))))"

subsection \<open>Selecting a part\<close>

text \<open>A parameter is written into the caller's buffer and read back out of it.\<close>

definition selective_access :: "u8 \<Rightarrow> (writer, unit) op \<Rightarrow> bytes \<Rightarrow> SelectiveAccess result \<times> bytes" where
  "selective_access selector enc buf =
     (case encode_into enc buf of
        (Inl e, buf) \<Rightarrow> (Inl e, buf)
      | (Inr n, buf) \<Rightarrow>
          (res_bind (from_bytes Data_decode (take n buf)) (\<lambda>parameters. Inr \<lparr>sa_selector = selector, sa_parameters = parameters\<rparr>), buf))"

record RangeDescriptor =
  ra_restricting_object :: CaptureObject
  ra_from :: DateTime
  ra_to :: DateTime

definition RangeDescriptor_by_clock :: "DateTime \<Rightarrow> DateTime \<Rightarrow> RangeDescriptor" where
  "RangeDescriptor_by_clock f t = \<lparr>ra_restricting_object = CaptureObject_clock, ra_from = f, ra_to = t\<rparr>"

definition RangeDescriptor_parameters :: "RangeDescriptor \<Rightarrow> (writer, unit) op" where
  "RangeDescriptor_parameters d =
     try_bind (write_bytes [0x02, 0x04]) (\<lambda>_.
     try_bind (CaptureObject_encode (ra_restricting_object d)) (\<lambda>_.
     try_bind (write_bytes [0x09, 0x0C]) (\<lambda>_.
     try_bind (write_bytes (DateTime_to_bytes (ra_from d))) (\<lambda>_.
     try_bind (write_bytes [0x09, 0x0C]) (\<lambda>_.
     try_bind (write_bytes (DateTime_to_bytes (ra_to d))) (\<lambda>_.
     write_bytes [0x01, 0x00]))))))"

definition RangeDescriptor_to_selective_access :: "RangeDescriptor \<Rightarrow> bytes \<Rightarrow> SelectiveAccess result \<times> bytes" where
  "RangeDescriptor_to_selective_access d = selective_access 1 (RangeDescriptor_parameters d)"

record EntryDescriptor =
  ed_from_entry :: u32
  ed_to_entry :: u32
  ed_from_value :: u16
  ed_to_value :: u16

definition EntryDescriptor_entries :: "u32 \<Rightarrow> u32 \<Rightarrow> EntryDescriptor" where
  "EntryDescriptor_entries f t = \<lparr>ed_from_entry = f, ed_to_entry = t, ed_from_value = 1, ed_to_value = 0\<rparr>"

definition EntryDescriptor_parameters :: "EntryDescriptor \<Rightarrow> (writer, unit) op" where
  "EntryDescriptor_parameters d =
     try_bind (write_bytes [0x02, 0x04]) (\<lambda>_.
     try_bind (write_u8 0x06) (\<lambda>_.
     try_bind (write_u32 (ed_from_entry d)) (\<lambda>_.
     try_bind (write_u8 0x06) (\<lambda>_.
     try_bind (write_u32 (ed_to_entry d)) (\<lambda>_.
     try_bind (write_u8 0x12) (\<lambda>_.
     try_bind (write_u16 (ed_from_value d)) (\<lambda>_.
     try_bind (write_u8 0x12) (\<lambda>_.
     write_u16 (ed_to_value d)))))))))"

definition EntryDescriptor_to_selective_access :: "EntryDescriptor \<Rightarrow> bytes \<Rightarrow> SelectiveAccess result \<times> bytes" where
  "EntryDescriptor_to_selective_access d = selective_access 2 (EntryDescriptor_parameters d)"

subsection \<open>The buffer\<close>

definition MAX_COLUMNS :: nat where
  "MAX_COLUMNS = 32"

definition apply_delta :: "Data \<Rightarrow> Data \<Rightarrow> Data option" where
  "apply_delta previous delta =
     (case previous of
          DInteger base \<Rightarrow> (case delta of DDeltaInteger d \<Rightarrow> Some (DInteger (base + d)) | _ \<Rightarrow> None)
        | DLong base \<Rightarrow> (case delta of DDeltaLong d \<Rightarrow> Some (DLong (base + d)) | _ \<Rightarrow> None)
        | DDoubleLong base \<Rightarrow> (case delta of DDeltaDoubleLong d \<Rightarrow> Some (DDoubleLong (base + d)) | _ \<Rightarrow> None)
        | DUnsigned base \<Rightarrow> (case delta of DDeltaUnsigned d \<Rightarrow> Some (DUnsigned (base + d)) | _ \<Rightarrow> None)
        | DLongUnsigned base \<Rightarrow> (case delta of DDeltaLongUnsigned d \<Rightarrow> Some (DLongUnsigned (base + d)) | _ \<Rightarrow> None)
        | DDoubleLongUnsigned base \<Rightarrow> (case delta of DDeltaDoubleLongUnsigned d \<Rightarrow> Some (DDoubleLongUnsigned (base + d)) | _ \<Rightarrow> None)
      | _ \<Rightarrow> None)"

record ProfileBuffer =
  pf_rows :: Seq

definition ProfileBuffer_new :: "Data \<Rightarrow> ProfileBuffer result" where
  "ProfileBuffer_new buffer = res_bind (invalid (Data_as_array buffer)) (\<lambda>rows. Inr \<lparr>pf_rows = rows\<rparr>)"

definition ProfileBuffer_len :: "ProfileBuffer \<Rightarrow> nat" where
  "ProfileBuffer_len p = sq_count (pf_rows p)"

definition ProfileBuffer_is_empty :: "ProfileBuffer \<Rightarrow> bool" where
  "ProfileBuffer_is_empty p \<longleftrightarrow> sq_count (pf_rows p) = 0"

text \<open>What \<^verbatim>\<open>raw_rows\<close> makes of an element of the buffer.\<close>

definition raw_row :: "Data result \<Rightarrow> Seq result" where
  "raw_row row = res_bind row (\<lambda>r. invalid (Data_as_structure r))"

text \<open>The value of a cell, given the value of its column in the row before.\<close>

definition cell_value :: "Data option \<Rightarrow> Data \<Rightarrow> Data result" where
  "cell_value slot cell =
     (if cell = DNull then invalid slot
      else if Data_is_delta cell then
        res_bind (invalid slot) (\<lambda>base.
          case apply_delta base cell of None \<Rightarrow> Inl (Error_new TypeMismatch 0) | Some v \<Rightarrow> Inr v)
      else Inr cell)"

text \<open>The cells of one row, from a column on, for a visitor \<open>f\<close> with a state of its own; the result is the number of columns seen and
  the values by column.\<close>

function row_cells ::
  "nat \<Rightarrow> (nat \<Rightarrow> Data \<Rightarrow> ('c, unit) op) \<Rightarrow> SeqIter \<Rightarrow> nat \<Rightarrow> Data option list \<Rightarrow> ('c, nat \<times> Data option list) op" where
  "row_cells columns f it col previous =
     (case SeqIter_next it of
        (None, _) \<Rightarrow> ok (col, previous)
      | (Some cell, it') \<Rightarrow>
          if col \<ge> columns then ok (col, previous)
          else try_bind (lift_res cell) (\<lambda>cell.
            if length previous \<le> col then fail (Error_new Unsupported 0)
            else try_bind (lift_res (cell_value (previous ! col) cell)) (\<lambda>value.
              try_bind (f col value) (\<lambda>_. row_cells columns f it' (col + 1) (previous[col := Some value])))))"
  by pat_completeness auto

termination
  by (relation "measure (\<lambda>(_, _, it, _). si_left it)") (auto simp: SeqIter_next_def split: if_splits prod.splits)

text \<open>The columns that a short row leaves out.\<close>

fun rest_cells :: "(nat \<Rightarrow> Data \<Rightarrow> ('c, unit) op) \<Rightarrow> Data option list \<Rightarrow> nat list \<Rightarrow> ('c, unit) op" where
  "rest_cells f previous [] = ok ()"
| "rest_cells f previous (col # cols) =
     try_bind (lift_res (invalid (if col < length previous then previous ! col else None))) (\<lambda>value.
     try_bind (f col value) (\<lambda>_. rest_cells f previous cols))"

definition visit_row ::
  "nat \<Rightarrow> (nat \<Rightarrow> Data \<Rightarrow> ('c, unit) op) \<Rightarrow> Seq \<Rightarrow> Data option list \<Rightarrow> ('c, Data option list) op" where
  "visit_row columns f row previous =
     try_bind (row_cells columns f (Seq_iter row) 0 previous) (\<lambda>(seen, previous).
     try_bind (rest_cells f previous [seen..<columns]) (\<lambda>_. ok previous))"

function visit_rows ::
  "nat \<Rightarrow> (nat \<Rightarrow> nat \<Rightarrow> Data \<Rightarrow> ('c, unit) op) \<Rightarrow> SeqIter \<Rightarrow> nat \<Rightarrow> Data option list \<Rightarrow> ('c, unit) op" where
  "visit_rows columns f it row_index previous =
     (case SeqIter_next it of
        (None, _) \<Rightarrow> ok ()
      | (Some row, it') \<Rightarrow>
          try_bind (lift_res (raw_row row)) (\<lambda>row.
          try_bind (visit_row columns (f row_index) row previous) (\<lambda>previous.
            visit_rows columns f it' (row_index + 1) previous)))"
  by pat_completeness auto

termination
  by (relation "measure (\<lambda>(_, _, it, _). si_left it)") (auto simp: SeqIter_next_def split: if_splits prod.splits)

definition for_each_cell :: "ProfileBuffer \<Rightarrow> nat \<Rightarrow> (nat \<Rightarrow> nat \<Rightarrow> Data \<Rightarrow> ('c, unit) op) \<Rightarrow> ('c, unit) op" where
  "for_each_cell p columns f =
     (if columns > MAX_COLUMNS then fail (Error_new Unsupported 0)
      else visit_rows columns f (Seq_iter (pf_rows p)) 0 (replicate MAX_COLUMNS None))"

declare row_cells.simps [simp del] visit_rows.simps [simp del]

subsection \<open>Sequences on the wire\<close>

text \<open>What an iterator yields, each element within a condition of its own.\<close>

primrec yields :: "(Data \<Rightarrow> bool) list \<Rightarrow> SeqIter \<Rightarrow> bool" where
  "yields [] it \<longleftrightarrow> si_left it = 0"
| "yields (P # Ps) it \<longleftrightarrow> (\<exists>x it'. SeqIter_next it = (Some (Inr x), it') \<and> P x \<and> yields Ps it')"

lemma yields_get:
  "yields Ps it \<Longrightarrow> i < length Ps \<Longrightarrow> \<exists>x. SeqIter_nth i it = Some (Inr x) \<and> (Ps ! i) x"
  by (induction Ps arbitrary: i it) (auto simp: nth_Cons split: nat.splits)

lemma yields_Seq_get:
  assumes "yields Ps (Seq_iter s)" "i < length Ps"
  obtains x where "Seq_get s i = Inr x" "(Ps ! i) x"
  using yields_get [OF assms] by (auto simp: Seq_get_def)

lemma decodes_sat_skip:
  assumes "decodes_sat False (Data_decode_at d) bs P"
  shows "decodes (Data_skip d) bs ()"
  unfolding decodes_def decodes_at_def
proof (intro allI impI)
  fix r rest assume r: "rd_wf r" "Reader_rest r = bs @ rest"
  obtain y where "Data_decode_at d r = (Inr y, rd_advance (length bs) r)" using decodes_satD [OF assms r] by blast
  with Data_decode_skip_same [of d] r(1) show "Data_skip d r = (Inr (), rd_advance (length bs) r)" by (auto simp: same_extent_def)
qed

definition element_reads :: "nat \<Rightarrow> bytes \<Rightarrow> (Data \<Rightarrow> bool) \<Rightarrow> bool" where
  "element_reads d bs P \<longleftrightarrow> decodes_sat False (Data_decode_at d) bs P"

lemma elements_skip:
  "list_all2 (element_reads d) bss Ps \<Longrightarrow> decodes (repeat_op (length Ps) (Data_skip d)) (concat bss) ()"
  by (induction rule: list_all2_induct) (auto intro!: decodes_ok decodes_bind decodes_sat_skip simp: element_reads_def simp del: ok_apply)

lemma elements_yield:
  "list_all2 (element_reads d) bss Ps \<Longrightarrow> rd_wf r \<Longrightarrow> Reader_rest r = concat bss \<Longrightarrow>
    yields Ps \<lparr>si_reader = r, si_left = length Ps, si_depth = d\<rparr>"
proof (induction arbitrary: r rule: list_all2_induct)
  case (Cons b bss P Ps)
  from Cons.prems have rest: "Reader_rest r = b @ concat bss" by simp
  obtain x where x: "Data_decode_at d r = (Inr x, rd_advance (length b) r)" "P x"
    using decodes_satD [OF Cons.hyps(1) [unfolded element_reads_def] Cons.prems(1) rest] by blast
  have "yields Ps \<lparr>si_reader = rd_advance (length b) r, si_left = length Ps, si_depth = d\<rparr>"
    by (rule Cons.IH) (use rest_append [OF Cons.prems(1) rest] in auto)
  with x show ?case by (simp add: SeqIter_next_def)
qed simp

lemma sequence_reads:
  assumes d: "\<not> MAX_DEPTH \<le> d" and len: "length Ps < 2 ^ 32" and elems: "list_all2 (element_reads (d + 1)) bss Ps"
    and tag: "tag = TArray \<and> mk = DArray \<or> tag = TStructure \<and> mk = DStructure"
  shows "element_reads d (DataTag_as_u8 tag # len_bytes (length Ps) @ concat bss) (\<lambda>x. \<exists>s. x = mk s \<and> sq_count s = length Ps \<and> yields Ps (Seq_iter s))"
  unfolding element_reads_def decodes_sat_def
proof (intro allI impI)
  fix r rest assume r: "rd_wf r" "Reader_rest r = (DataTag_as_u8 tag # len_bytes (length Ps) @ concat bss) @ rest"
  define r1 where "r1 = rd_advance 1 r"
  define r2 where "r2 = rd_advance (length (len_bytes (length Ps))) r1"
  have r1: "rd_wf r1" "Reader_rest r1 = len_bytes (length Ps) @ (concat bss @ rest)"
    using rest_append [OF r(1), of "[DataTag_as_u8 tag]"] r(2) by (auto simp: r1_def)
  have r2: "rd_wf r2" "Reader_rest r2 = concat bss @ rest" using rest_append [OF r1] by (auto simp: r2_def)
  have len_run: "Reader_length r1 = (Inr (length Ps), r2)"
    using decodes_run [OF decodes_length [OF len] r1] by (simp add: r2_def)
  have walk: "repeat_op (length Ps) (Data_skip (d + 1)) r2 = (Inr (), rd_advance (length (concat bss)) r2)"
    by (rule decodes_run [OF elements_skip [OF elems] r2])
  have "probed (repeat_op (length Ps) (Data_skip (d + 1))) r2 = (Inr (concat bss), rd_advance (length (concat bss)) r2)"
    using r2 by (simp only: probed_eq [OF local_repeat [OF local_Data_skip] r2(1)] walk) simp
  then have "seq_arm d mk r1 = (Inr (mk \<lparr>sq_count = length Ps, sq_raw = concat bss, sq_base = Reader_offset r2, sq_depth = d + 1\<rparr>),
      rd_advance (length (concat bss)) r2)" (is "_ = (Inr (mk ?s), _)")
    by (simp add: seq_arm_def try_bind_Inr [where m = Reader_length, OF len_run] try_bind_Inr Let_def)
  moreover have "Data_decode_at d r = seq_arm d mk r1"
    using tag decode_at_tag [OF d r(1), of tag] r(2) by (auto simp: r1_def)
  moreover have "yields Ps (Seq_iter ?s)"
    unfolding Seq_iter_def by simp (rule elements_yield [OF elems, simplified], simp_all add: Reader_with_base_def rd_wf_def Reader_rest_def)
  ultimately show "\<exists>y. Data_decode_at d r = (Inr y, rd_advance (length (DataTag_as_u8 tag # len_bytes (length Ps) @ concat bss)) r) \<and>
      (\<exists>s. y = mk s \<and> sq_count s = length Ps \<and> yields Ps (Seq_iter s))"
    by (simp add: r1_def r2_def exI [of _ ?s])
qed

text \<open>A value that holds no others reads the same at every depth.\<close>

fun flat :: "Data \<Rightarrow> bool" where
  "flat (DArray _) = False"
| "flat (DStructure _) = False"
| "flat (DCompactArray _) = False"
| "flat d = Data_valid d"

lemma flat_body:
  assumes "flat c" shows "\<exists>b. writes (Data_encode_body c) b"
proof -
  have "codes False (Data_encode_body c) (data_arm (Data_tag c)) (\<lambda>y. True)"
    using assms unfolding data_arm_def
    by (cases c) (auto intro!: codes_ok codes_scalar codes_eq [OF codes_length] codes_map [OF codes_take] simp del: ok_apply One_nat_def)
  then show ?thesis unfolding codes_def by blast
qed

lemma flat_reads:
  assumes "flat c" "writes (Data_encode c) bs" "\<not> MAX_DEPTH \<le> d"
  shows "element_reads d bs ((=) c)"
  unfolding element_reads_def decodes_sat_def
proof (intro allI impI)
  fix r rest assume r: "rd_wf r" "Reader_rest r = bs @ rest"
  have valid: "Data_valid c" and same: "Data_abs y = Data_abs c \<longleftrightarrow> y = c" for y
    using assms(1) by (cases c; cases y; simp)+
  obtain bs' where "writes (Data_encode c) bs'" "decodes_sat False Data_decode bs' (\<lambda>y. Data_abs y = Data_abs c)"
    using codes_Data [OF valid] unfolding codes_def by blast
  with writes_unique [OF assms(2)] have "decodes_sat False Data_decode bs (\<lambda>y. y = c)" by (simp add: same)
  from decodes_satD [OF this r] have run: "Data_decode r = (Inr c, rd_advance (length bs) r)" by blast
  obtain body where body: "bs = DataTag_as_u8 (Data_tag c) # body"
  proof -
    obtain b where "writes (Data_encode_body c) b" using flat_body [OF assms(1)] by blast
    from writes_seq [OF writes_u8 this, of "DataTag_as_u8 (Data_tag c)"] writes_unique [OF assms(2)] show thesis
      by (intro that) (auto simp: Data_encode_def)
  qed
  have "Data_decode_at d r = Data_decode_at 0 r"
    using decode_at_tag [OF assms(3) r(1), of "Data_tag c" "body @ rest"] decode_at_tag [of 0 r "Data_tag c" "body @ rest"] r body assms(1)
    by (cases c) (auto simp: MAX_DEPTH_def)
  then show "\<exists>y. Data_decode_at d r = (Inr y, rd_advance (length bs) r) \<and> c = y" using run by (simp add: Data_decode_def)
qed

subsection \<open>What a meter leaves out\<close>

text \<open>The difference that a meter sends instead of a value.\<close>

definition delta_to :: "Data \<Rightarrow> Data \<Rightarrow> Data option" where
  "delta_to base v =
     (case (base, v) of
        (DInteger b, DInteger v) \<Rightarrow> Some (DDeltaInteger (v - b))
      | (DLong b, DLong v) \<Rightarrow> Some (DDeltaLong (v - b))
      | (DDoubleLong b, DDoubleLong v) \<Rightarrow> Some (DDeltaDoubleLong (v - b))
      | (DUnsigned b, DUnsigned v) \<Rightarrow> Some (DDeltaUnsigned (v - b))
      | (DLongUnsigned b, DLongUnsigned v) \<Rightarrow> Some (DDeltaLongUnsigned (v - b))
      | (DDoubleLongUnsigned b, DDoubleLongUnsigned v) \<Rightarrow> Some (DDeltaDoubleLongUnsigned (v - b))
      | _ \<Rightarrow> None)"

definition absolute :: "Data \<Rightarrow> bool" where
  "absolute d \<longleftrightarrow> d \<noteq> DNull \<and> \<not> Data_is_delta d"

text \<open>How a cell may stand for a value: as itself, as null when the value is that of the row before, or as the difference to it.\<close>

definition stands_for :: "Data option \<Rightarrow> Data \<Rightarrow> Data \<Rightarrow> bool" where
  "stands_for slot cell v \<longleftrightarrow> absolute v \<and>
     (cell = v \<or> cell = DNull \<and> slot = Some v \<or> (\<exists>base. slot = Some base \<and> delta_to base v = Some cell))"

definition row_stands_for :: "nat \<Rightarrow> Data option list \<Rightarrow> Data list \<Rightarrow> Data list \<Rightarrow> bool" where
  "row_stands_for columns slots cells vs \<longleftrightarrow> length vs = columns \<and>
     (\<forall>i<columns. if i < length cells then stands_for (slots ! i) (cells ! i) (vs ! i) else slots ! i = Some (vs ! i))"

primrec table_stands_for :: "nat \<Rightarrow> Data option list \<Rightarrow> Data list list \<Rightarrow> Data list list \<Rightarrow> bool" where
  "table_stands_for columns slots [] table \<longleftrightarrow> table = []"
| "table_stands_for columns slots (cells # rows) table \<longleftrightarrow>
     (\<exists>vs rest. table = vs # rest \<and> row_stands_for columns slots cells vs \<and> table_stands_for columns (map Some vs) rows rest)"

lemma table_length: "table_stands_for columns slots rows table \<Longrightarrow> length table = length rows"
  by (induction rows arbitrary: slots table) auto

lemma apply_delta_to: "delta_to base v = Some cell \<Longrightarrow> apply_delta base cell = Some v \<and> Data_is_delta cell \<and> cell \<noteq> DNull"
  by (auto simp: delta_to_def apply_delta_def Data_is_delta_def split: Data.splits)

lemma cell_value_stands_for: "stands_for slot cell v \<Longrightarrow> cell_value slot cell = Inr v"
  by (auto simp: stands_for_def cell_value_def absolute_def invalid_def dest: apply_delta_to)

text \<open>A visitor sent over the values of a row, and over the rows of a table.\<close>

primrec each_cell :: "(nat \<Rightarrow> Data \<Rightarrow> ('c, unit) op) \<Rightarrow> nat \<Rightarrow> Data list \<Rightarrow> ('c, unit) op" where
  "each_cell f col [] = ok ()"
| "each_cell f col (v # vs) = try_bind (f col v) (\<lambda>_. each_cell f (Suc col) vs)"

primrec each_row :: "(nat \<Rightarrow> nat \<Rightarrow> Data \<Rightarrow> ('c, unit) op) \<Rightarrow> nat \<Rightarrow> Data list list \<Rightarrow> ('c, unit) op" where
  "each_row f row [] = ok ()"
| "each_row f row (vs # table) = try_bind (each_cell (f row) 0 vs) (\<lambda>_. each_row f (Suc row) table)"

lemma each_cell_append: "each_cell f col (a @ b) = try_bind (each_cell f col a) (\<lambda>_. each_cell f (col + length a) b)"
  by (induction a arbitrary: col) (simp_all add: try_bind_assoc)

lemma lift_Inr [simp]: "lift_res (Inr x) = ok x"
  by (simp add: fun_eq_iff)

lemma row_cells_run:
  assumes "yields (map (=) cells) it" "length prev = M" "columns \<le> M" "length vs = columns" "col \<le> columns"
    and "\<And>k. k < length cells \<Longrightarrow> col + k < columns \<Longrightarrow> stands_for (prev ! (col + k)) (cells ! k) (vs ! (col + k))"
  defines "n \<equiv> min (length cells) (columns - col)"
  shows "row_cells columns f it col prev =
    try_bind (each_cell f col (take n (drop col vs))) (\<lambda>_. ok (col + n, take col prev @ map Some (take n (drop col vs)) @ drop (col + n) prev))"
  using assms(1,2,5,6) unfolding n_def
proof (induction cells arbitrary: it col prev)
  case Nil
  then show ?case by (subst row_cells.simps) (simp add: SeqIter_next_def fun_eq_iff)
next
  case (Cons c cells)
  obtain it' where it: "SeqIter_next it = (Some (Inr c), it')" "yields (map (=) cells) it'" using Cons.prems(1) by auto
  show ?case
  proof (cases "col < columns")
    case False
    then show ?thesis using Cons.prems(3) by (subst row_cells.simps) (simp add: it(1) fun_eq_iff)
  next
    case True
    define v where "v = vs ! col"
    have cell: "cell_value (prev ! col) c = Inr v" using Cons.prems(4) [of 0] True by (simp add: v_def cell_value_stands_for)
    have step: "stands_for (prev[col := Some v] ! (col + 1 + k)) (cells ! k) (vs ! (col + 1 + k))"
      if "k < length cells" "col + 1 + k < columns" for k
      using Cons.prems(4) [of "Suc k"] that by simp
    let ?n = "min (length cells) (columns - (col + 1))"
    have IH: "row_cells columns f it' (col + 1) (prev[col := Some v]) = try_bind (each_cell f (col + 1) (take ?n (drop (col + 1) vs)))
        (\<lambda>_. ok (col + 1 + ?n, take (col + 1) (prev[col := Some v]) @ map Some (take ?n (drop (col + 1) vs)) @ drop (col + 1 + ?n) (prev[col := Some v])))"
      by (rule Cons.IH [OF it(2) _ _ step]) (use Cons.prems(2) True in auto)
    have n: "min (length (c # cells)) (columns - col) = Suc ?n" using True by simp
    have vs: "take (Suc ?n) (drop col vs) = v # take ?n (drop (col + 1) vs)"
      using True assms(4) by (simp add: v_def Cons_nth_drop_Suc [symmetric])
    have slots: "take (col + 1) (prev[col := Some v]) = take col prev @ [Some v]" "drop (col + 1 + k) (prev[col := Some v]) = drop (col + 1 + k) prev" for k
      using True Cons.prems(2) assms(3) by (simp_all add: take_Suc_conv_app_nth)
    have "row_cells columns f it col prev = try_bind (f col v) (\<lambda>_. row_cells columns f it' (col + 1) (prev[col := Some v]))"
      using True Cons.prems(2) assms(3) by (subst row_cells.simps) (simp add: it(1) cell)
    then show ?thesis unfolding n vs IH slots by (simp add: try_bind_assoc del: ok_apply)
  qed
qed

lemma rest_cells_run:
  assumes "length vs = columns" "columns \<le> length prev" "\<And>i. seen \<le> i \<Longrightarrow> i < columns \<Longrightarrow> prev ! i = Some (vs ! i)"
  shows "rest_cells f prev [seen..<columns] = each_cell f seen (drop seen vs)"
  using assms
proof (induction "columns - seen" arbitrary: seen)
  case (Suc n)
  then have "seen < columns" by simp
  moreover from this have "drop seen vs = vs ! seen # drop (Suc seen) vs" using Suc.prems(1) by (simp add: Cons_nth_drop_Suc)
  moreover have "rest_cells f prev [Suc seen..<columns] = each_cell f (Suc seen) (drop (Suc seen) vs)"
    by (rule Suc.hyps(1)) (use Suc.hyps(2) Suc.prems in auto)
  ultimately show ?case using Suc.prems by (simp add: upt_conv_Cons invalid_def)
qed simp

text \<open>A row that stands for values sends the visitor over just these values.\<close>

lemma visit_row_run:
  assumes "yields (map (=) cells) (Seq_iter s)" "row_stands_for columns prev cells vs" "columns \<le> length prev"
  shows "visit_row columns f s prev = try_bind (each_cell f 0 vs) (\<lambda>_. ok (map Some vs @ drop columns prev))"
proof -
  define n where "n = min (length cells) columns"
  define slots where "slots = map Some (take n vs) @ drop n prev"
  have vs: "length vs = columns" using assms(2) by (simp add: row_stands_for_def)
  have cells: "i < columns \<Longrightarrow> if i < length cells then stands_for (prev ! i) (cells ! i) (vs ! i) else prev ! i = Some (vs ! i)" for i
    using assms(2) by (simp add: row_stands_for_def)
  have "row_cells columns f (Seq_iter s) 0 prev = try_bind (each_cell f 0 (take n vs)) (\<lambda>_. ok (n, slots))"
    using row_cells_run [OF assms(1) refl assms(3) vs, of 0 f] cells by (simp add: n_def slots_def split: if_splits)
  moreover have rest: "slots ! i = Some (vs ! i)" if "n \<le> i" "i < columns" for i
    using cells [of i] that assms(3) vs by (simp add: slots_def n_def nth_append split: if_splits)
  have "rest_cells f slots [n..<columns] = each_cell f n (drop n vs)"
    by (rule rest_cells_run [OF vs _ rest]) (use assms(3) vs in \<open>auto simp: slots_def n_def\<close>)
  moreover have "slots = map Some vs @ drop columns prev"
  proof (rule nth_equalityI)
    show "length slots = length (map Some vs @ drop columns prev)" using assms(3) vs by (simp add: slots_def n_def)
    fix i assume "i < length slots"
    then show "slots ! i = (map Some vs @ drop columns prev) ! i"
      using rest [of i] assms(3) vs by (cases "i < columns"; cases "i < n") (auto simp: slots_def n_def nth_append)
  qed
  moreover have "each_cell f 0 vs = try_bind (each_cell f 0 (take n vs)) (\<lambda>_. each_cell f n (drop n vs))"
    using each_cell_append [of f 0 "take n vs" "drop n vs"] vs by (simp add: n_def)
  ultimately show ?thesis by (simp add: visit_row_def try_bind_assoc)
qed

definition holds_row :: "Data list \<Rightarrow> Data \<Rightarrow> bool" where
  "holds_row cells d \<longleftrightarrow> (\<exists>s. d = DStructure s \<and> yields (map (=) cells) (Seq_iter s))"

lemma visit_rows_run:
  assumes "yields (map holds_row rows) it" "table_stands_for columns (take columns prev) rows table" "columns \<le> length prev"
  shows "visit_rows columns f it row prev = each_row f row table"
  using assms
proof (induction rows arbitrary: it prev row table)
  case Nil
  then show ?case by (subst visit_rows.simps) (simp add: SeqIter_next_def)
next
  case (Cons cells rows)
  obtain s it' where it: "SeqIter_next it = (Some (Inr (DStructure s)), it')" "yields (map (=) cells) (Seq_iter s)" "yields (map holds_row rows) it'"
    using Cons.prems(1) by (auto simp: holds_row_def [of cells])
  obtain vs rest where tab: "table = vs # rest" "row_stands_for columns (take columns prev) cells vs" "table_stands_for columns (map Some vs) rows rest"
    using Cons.prems(2) by auto
  have row1: "row_stands_for columns prev cells vs" and len: "length vs = columns"
    using tab(2) by (auto simp: row_stands_for_def split: if_splits)
  note first = visit_row_run [OF it(2) row1 Cons.prems(3)]
  have next_rows: "visit_rows columns f it' (row + 1) (map Some vs @ drop columns prev) = each_row f (row + 1) rest"
    by (rule Cons.IH [OF it(3)]) (use tab(3) len in simp_all)
  show ?case
    by (subst visit_rows.simps) (simp add: it(1) raw_row_def invalid_def first try_bind_assoc next_rows [simplified] tab(1))
qed

subsection \<open>Reading a profile\<close>

definition sequence_bytes :: "DataTag \<Rightarrow> bytes list \<Rightarrow> bytes" where
  "sequence_bytes tag bss = DataTag_as_u8 tag # len_bytes (length bss) @ concat bss"

text \<open>The bytes of a buffer, row by row and cell by cell.\<close>

definition profile_bytes :: "bytes list list \<Rightarrow> bytes" where
  "profile_bytes bsss = sequence_bytes TArray (map (sequence_bytes TStructure) bsss)"

definition cell_bytes :: "Data \<Rightarrow> bytes \<Rightarrow> bool" where
  "cell_bytes c bs \<longleftrightarrow> flat c \<and> writes (Data_encode c) bs"

lemma row_reads:
  assumes "list_all2 cell_bytes cells bss" "length cells < 2 ^ 32" "\<not> MAX_DEPTH \<le> d + 1"
  shows "element_reads d (sequence_bytes TStructure bss) (holds_row cells)"
proof -
  have "list_all2 (element_reads (d + 1)) bss (map (=) cells)"
    using assms(1)
  proof (induction rule: list_all2_induct)
    case (Cons c cells b bss)
    then show ?case using flat_reads [of c b "d + 1"] assms(3) by (simp add: cell_bytes_def)
  qed simp
  then have "element_reads d (DataTag_as_u8 TStructure # len_bytes (length (map (=) cells)) @ concat bss)
      (\<lambda>x. \<exists>s. x = DStructure s \<and> sq_count s = length (map (=) cells) \<and> yields (map (=) cells) (Seq_iter s))"
    using assms(2,3) by (intro sequence_reads) simp_all
  then show ?thesis using list_all2_lengthD [OF assms(1)]
    unfolding element_reads_def sequence_bytes_def holds_row_def by (auto elim: decodes_sat_mono)
qed

text \<open>C34: A profile of at most 32 columns is read back as it was recorded, whatever the meter left out of it: let a table of values be written as an array of rows in
  which every cell is the value itself, null where the value is that of the row before, or the difference to it, and in which
  the columns at the end of a row that have not changed are missing.  Then the visitor is called with the values of the table
  row by row and column by column, and with nothing else, until it fails.  The cells hold no array, structure or
  compact array, and there are fewer than \<open>2 ^ 32\<close> rows and cells in a row; a table of more than 32 columns is refused by the source.\<close>

theorem compressed_profile_read_back:
  assumes "list_all2 (list_all2 cell_bytes) rows bsss" "table_stands_for columns (replicate columns None) rows table"
    "columns \<le> 32" "length rows < 2 ^ 32" "\<forall>cells\<in>set rows. length cells < 2 ^ 32"
  shows "\<exists>d p. from_bytes Data_decode (profile_bytes bsss) = Inr d \<and> ProfileBuffer_new d = Inr p \<and>
    ProfileBuffer_len p = length table \<and> for_each_cell p columns f = each_row f 0 table"
proof -
  have len: "length rows = length table" using table_length [OF assms(2)] by simp
  have "list_all2 (element_reads (0 + 1)) (map (sequence_bytes TStructure) bsss) (map holds_row rows)"
    using assms(1,5) by (induction rule: list_all2_induct) (simp_all add: row_reads [where d = 1, unfolded One_nat_def] MAX_DEPTH_def)
  from sequence_reads [OF _ _ this, of TArray DArray]
  have "element_reads 0 (profile_bytes bsss) (\<lambda>x. \<exists>s. x = DArray s \<and> sq_count s = length rows \<and> yields (map holds_row rows) (Seq_iter s))"
    using assms(4) list_all2_lengthD [OF assms(1)] by (simp add: profile_bytes_def sequence_bytes_def MAX_DEPTH_def)
  then obtain s where s: "Data_decode (Reader_new (profile_bytes bsss)) =
      (Inr (DArray s), rd_advance (length (profile_bytes bsss)) (Reader_new (profile_bytes bsss)))"
    "sq_count s = length rows" "yields (map holds_row rows) (Seq_iter s)"
    unfolding element_reads_def Data_decode_def by (elim decodes_sat_new) auto
  have "for_each_cell \<lparr>pf_rows = s\<rparr> columns f = each_row f 0 table"
    using visit_rows_run [OF s(3), of columns "replicate MAX_COLUMNS None" table f 0] assms(2,3)
    by (simp add: for_each_cell_def MAX_COLUMNS_def min_absorb1)
  moreover have "from_bytes Data_decode (profile_bytes bsss) = Inr (DArray s)"
    using s(1) by (simp add: from_bytes_def Reader_is_empty_def Reader_remaining_def)
  ultimately show ?thesis using s(2) len by (simp add: ProfileBuffer_new_def invalid_def ProfileBuffer_len_def)
qed

text \<open>Two readings: the second row sends the register as a difference and leaves the status out.\<close>

definition demo_rows :: "Data list list" where
  "demo_rows = [[DLongUnsigned 10, DUnsigned 1], [DDeltaLongUnsigned 2]]"

definition demo_table :: "Data list list" where
  "demo_table = [[DLongUnsigned 10, DUnsigned 1], [DLongUnsigned 12, DUnsigned 1]]"

theorem compressed_profile_read_back_witness:
  "\<exists>d p. from_bytes Data_decode (profile_bytes [[[0x12, 0, 10], [0x11, 1]], [[0x20, 0, 2]]]) = Inr d \<and> ProfileBuffer_new d = Inr p \<and>
     ProfileBuffer_len p = 2 \<and> for_each_cell p 2 (\<lambda>i j v c. (Inr (), c @ [v])) = each_row (\<lambda>i j v c. (Inr (), c @ [v])) 0 demo_table"
proof -
  have u16: "writes (Data_encode (DLongUnsigned v)) (0x12 # be_bytes 2 v)" "writes (Data_encode (DDeltaLongUnsigned v)) (0x20 # be_bytes 2 v)"
    "writes (Data_encode (DUnsigned b)) [0x11, b]" for v b
    unfolding Data_encode_def using writes_seq [OF writes_u8 writes_u16] writes_seq [OF writes_u8 writes_u8] by simp_all
  have "be_bytes 2 (10 :: u16) = [0, 10]" "be_bytes 2 (2 :: u16) = [0, 2]" by code_simp+
  then have "list_all2 (list_all2 cell_bytes) demo_rows [[[0x12, 0, 10], [0x11, 1]], [[0x20, 0, 2]]]"
    using u16(1) [of 10] u16(2) [of 2] u16(3) [of 1] by (simp add: demo_rows_def cell_bytes_def)
  moreover have "table_stands_for 2 (replicate 2 None) demo_rows demo_table"
    by (simp add: demo_rows_def demo_table_def row_stands_for_def stands_for_def absolute_def Data_is_delta_def delta_to_def
        numeral_2_eq_2 All_less_Suc)
  moreover have "\<forall>cells\<in>set demo_rows. length cells < 2 ^ 32" "length demo_rows < 2 ^ 32" "length demo_table = 2"
    by (simp_all add: demo_rows_def demo_table_def)
  ultimately show ?thesis
    using compressed_profile_read_back [where f = "\<lambda>i j v c. (Inr (), c @ [v])" and columns = 2] by fastforce
qed

subsection \<open>Whatever the buffer holds\<close>

definition record_cell :: "nat \<Rightarrow> nat \<Rightarrow> Data \<Rightarrow> ((nat \<times> nat \<times> Data) list, unit) op" where
  "record_cell row col v cells = (Inr (), cells @ [(row, col, v)])"

primrec positioned :: "nat \<Rightarrow> nat \<Rightarrow> Data list \<Rightarrow> (nat \<times> nat \<times> Data) list" where
  "positioned row col [] = []"
| "positioned row col (v # vs) = (row, col, v) # positioned row (Suc col) vs"

definition place :: "nat \<times> nat \<times> Data \<Rightarrow> nat \<times> nat" where
  "place c = (fst c, fst (snd c))"

definition places :: "nat \<Rightarrow> nat list \<Rightarrow> (nat \<times> nat) list" where
  "places columns rows = concat (map (\<lambda>i. map (Pair i) [0..<columns]) rows)"

definition settled_slots :: "Data option list \<Rightarrow> bool" where
  "settled_slots prev \<longleftrightarrow> (\<forall>v. Some v \<in> set prev \<longrightarrow> absolute v)"

lemma places_positioned: "map place (positioned row col vs) = map (Pair row) [col..<col + length vs]"
  by (induction vs arbitrary: col) (simp_all add: place_def upt_conv_Cons del: upt_Suc)

lemma positioned_append: "positioned row col (a @ b) = positioned row col a @ positioned row (col + length a) b"
  by (induction a arbitrary: col) simp_all

lemma length_positioned: "length (positioned row col vs) = length vs"
  by (induction vs arbitrary: col) simp_all

lemma absolute_positioned: "(\<forall>c\<in>set (positioned row col vs). absolute (snd (snd c))) \<longleftrightarrow> (\<forall>v\<in>set vs. absolute v)"
  by (induction vs arbitrary: col) auto

lemma cell_value_absolute:
  assumes "cell_value slot cell = Inr v" "\<And>w. slot = Some w \<Longrightarrow> absolute w"
  shows "absolute v"
proof -
  have "apply_delta base cell = Some v \<Longrightarrow> absolute v" for base
    by (auto simp: apply_delta_def absolute_def Data_is_delta_def split: Data.splits)
  then show ?thesis using assms
    by (auto simp: cell_value_def invalid_def absolute_def [of v] res_bind_def split: option.splits if_splits sum.splits)
qed

lemma settled_update: "settled_slots prev \<Longrightarrow> absolute v \<Longrightarrow> settled_slots (prev[col := Some v])"
  using set_update_subset_insert [of prev col "Some v"] by (auto simp: settled_slots_def)

text \<open>What a walk over part of the buffer has handed on when it ends, in a result or in an error.\<close>

definition handed_on :: "(nat \<times> nat \<times> Data) list \<Rightarrow> (nat \<times> nat \<times> Data) list \<Rightarrow> nat \<Rightarrow> nat \<Rightarrow> Data list \<Rightarrow> bool" where
  "handed_on c c' row col vs \<longleftrightarrow> c' = c @ positioned row col vs \<and> (\<forall>v\<in>set vs. absolute v)"

lemma row_cells_record:
  "row_cells columns (record_cell row) it col prev c = (r, c') \<Longrightarrow> col \<le> columns \<Longrightarrow> settled_slots prev \<Longrightarrow>
    \<exists>vs. handed_on c c' row col vs \<and> col + length vs \<le> columns \<and>
      (\<forall>seen prev'. r = Inr (seen, prev') \<longrightarrow> seen = col + length vs \<and> settled_slots prev')"
proof (induction "si_left it" arbitrary: it col prev c rule: less_induct)
  case less
  note run = less.prems(1) [unfolded row_cells.simps [of _ _ it]]
  have stop: "c' = c \<and> (\<forall>seen prev'. r = Inr (seen, prev') \<longrightarrow> seen = col \<and> prev' = prev) \<Longrightarrow> ?case"
    using less.prems(2,3) by (intro exI [of _ "[]"]) (auto simp: handed_on_def)
  show ?case
  proof (cases "SeqIter_next it")
    case (Pair e it')
    show ?thesis
    proof (cases "\<exists>cell v. e = Some (Inr cell) \<and> col < columns \<and> col < length prev \<and> cell_value (prev ! col) cell = Inr v")
      case False
      then show ?thesis using run Pair
        by (intro stop) (auto split: option.splits if_splits sum.splits simp: try_bind_def)
    next
      case True
      then obtain cell v where v: "e = Some (Inr cell)" "col < columns" "col < length prev" "cell_value (prev ! col) cell = Inr v" by blast
      have abs: "absolute v" using less.prems(3) v(3) by (intro cell_value_absolute [OF v(4)]) (metis nth_mem settled_slots_def)
      have "row_cells columns (record_cell row) it' (col + 1) (prev[col := Some v]) (c @ [(row, col, v)]) = (r, c')"
        using run Pair v by (simp add: try_bind_def record_cell_def)
      moreover have "si_left it' < si_left it" using Pair v(1) by (auto simp: SeqIter_next_def split: if_splits prod.splits)
      ultimately obtain vs where "handed_on (c @ [(row, col, v)]) c' row (col + 1) vs" "col + 1 + length vs \<le> columns"
        "\<forall>seen prev'. r = Inr (seen, prev') \<longrightarrow> seen = col + 1 + length vs \<and> settled_slots prev'"
        using less.hyps [of it' "col + 1"] settled_update [OF less.prems(3) abs] v(2) by force
      then show ?thesis using abs by (intro exI [of _ "v # vs"]) (auto simp: handed_on_def)
    qed
  qed
qed

lemma rest_cells_record:
  "rest_cells (record_cell row) prev [seen..<columns] c = (r, c') \<Longrightarrow> settled_slots prev \<Longrightarrow> seen \<le> columns \<Longrightarrow>
    \<exists>vs. handed_on c c' row seen vs \<and> seen + length vs \<le> columns \<and> (r = Inr () \<longrightarrow> seen + length vs = columns)"
proof (induction "columns - seen" arbitrary: seen c)
  case 0
  then show ?case by (intro exI [of _ "[]"]) (auto simp: handed_on_def)
next
  case (Suc n)
  then have lt: "seen < columns" by simp
  show ?case
  proof (cases "if seen < length prev then prev ! seen else None")
    case None
    then show ?thesis using Suc.prems(1) lt
      by (intro exI [of _ "[]"]) (auto simp: handed_on_def upt_conv_Cons invalid_def try_bind_def)
  next
    case (Some v)
    then have "absolute v" using Suc.prems(2) by (auto simp: settled_slots_def split: if_splits) (metis nth_mem)
    moreover have "rest_cells (record_cell row) prev [Suc seen..<columns] (c @ [(row, seen, v)]) = (r, c')"
      using Suc.prems(1) Some by (simp add: upt_conv_Cons [OF lt] invalid_def record_cell_def try_bind_def del: upt_Suc)
    ultimately obtain vs where "handed_on (c @ [(row, seen, v)]) c' row (Suc seen) vs" "Suc seen + length vs \<le> columns"
      "r = Inr () \<longrightarrow> Suc seen + length vs = columns"
      using Suc.hyps(1) [of "Suc seen"] Suc.hyps(2) Suc.prems(2) lt by force
    with \<open>absolute v\<close> show ?thesis by (intro exI [of _ "v # vs"]) (auto simp: handed_on_def)
  qed
qed

lemma visit_row_record:
  assumes "visit_row columns (record_cell row) s prev c = (r, c')" "settled_slots prev"
  shows "\<exists>vs. handed_on c c' row 0 vs \<and> length vs \<le> columns \<and> (\<forall>prev'. r = Inr prev' \<longrightarrow> length vs = columns \<and> settled_slots prev')"
proof -
  obtain r1 c1 where first: "row_cells columns (record_cell row) (Seq_iter s) 0 prev c = (r1, c1)" by fastforce
  from row_cells_record [OF this _ assms(2)] obtain vs where vs: "handed_on c c1 row 0 vs" "length vs \<le> columns"
    "\<And>seen prev'. r1 = Inr (seen, prev') \<Longrightarrow> seen = length vs \<and> settled_slots prev'" by auto
  show ?thesis
  proof (cases r1)
    case (Inl e)
    then show ?thesis using assms(1) first vs by (auto simp: visit_row_def try_bind_def)
  next
    case (Inr p)
    obtain seen prev' where p: "p = (seen, prev')" by fastforce
    obtain r2 c2 where rest: "rest_cells (record_cell row) prev' [seen..<columns] c1 = (r2, c2)" by fastforce
    obtain ws where ws: "handed_on c1 c2 row seen ws" "seen + length ws \<le> columns" "r2 = Inr () \<longrightarrow> seen + length ws = columns"
      using rest_cells_record [OF rest] vs(2,3) Inr p by blast
    have "c' = c2" "\<And>q. r = Inr q \<Longrightarrow> r2 = Inr () \<and> q = prev'"
      using assms(1) first Inr p rest by (auto simp: visit_row_def try_bind_def split: sum.splits)
    then show ?thesis using vs Inr p ws
      by (intro exI [of _ "vs @ ws"]) (auto simp: handed_on_def positioned_append)
  qed
qed

lemma visit_rows_record:
  "visit_rows columns record_cell it row prev c = (r, c') \<Longrightarrow> settled_slots prev \<Longrightarrow>
    \<exists>new. c' = c @ new \<and> (\<forall>x\<in>set new. absolute (snd (snd x))) \<and>
      map place new = take (length new) (places columns [row..<row + si_left it]) \<and>
      length new \<le> si_left it * columns \<and> (r = Inr () \<longrightarrow> length new = si_left it * columns)"
proof (induction "si_left it" arbitrary: it row prev c)
  case 0
  then show ?case by (subst (asm) visit_rows.simps) (simp add: SeqIter_next_def)
next
  case (Suc n)
  obtain e it' where step: "SeqIter_next it = (Some e, it')" "si_left it' = n"
    using Suc.hyps(2) by (cases "Data_decode_at (si_depth it) (si_reader it)") (auto simp: SeqIter_next_def)
  note run = Suc.prems(1) [unfolded visit_rows.simps [of _ _ it] step(1)]
  show ?case
  proof (cases "raw_row e")
    case (Inl x)
    then show ?thesis using run by (intro exI [of _ "[]"]) (auto simp: try_bind_def)
  next
    case (Inr s)
    obtain r1 c1 where first: "visit_row columns (record_cell row) s prev c = (r1, c1)" by fastforce
    obtain vs where vs: "handed_on c c1 row 0 vs" "length vs \<le> columns" "\<And>prev'. r1 = Inr prev' \<Longrightarrow> length vs = columns \<and> settled_slots prev'"
      using visit_row_record [OF first Suc.prems(2)] by blast
    have rows: "places columns [row..<row + Suc n] = map (Pair row) [0..<columns] @ places columns [Suc row..<Suc row + n]"
      by (simp add: places_def upt_conv_Cons del: upt_Suc)
    have mine: "map place (positioned row 0 vs) = take (length vs) (map (Pair row) [0..<columns])"
      using vs(2) by (simp add: places_positioned take_map)
    show ?thesis
    proof (cases r1)
      case (Inl x)
      then have "c' = c1" "r \<noteq> Inr ()" using run Inr first by (auto simp: try_bind_def)
      then show ?thesis using vs(1,2) mine
        by (intro exI [of _ "positioned row 0 vs"])
          (auto simp: handed_on_def absolute_positioned Suc.hyps(2) [symmetric] rows [unfolded add_Suc_right] length_positioned intro: trans_le_add1 simp del: upt_Suc)
    next
      case r1: (Inr prev')
      have "visit_rows columns record_cell it' (row + 1) prev' c1 = (r, c')" using run Inr first r1 by (simp add: try_bind_def)
      from Suc.hyps(1) [OF step(2) [symmetric] this] vs(3) [OF r1] step(2) obtain new where new: "c' = c1 @ new"
        "\<forall>x\<in>set new. absolute (snd (snd x))" "map place new = take (length new) (places columns [row + 1..<row + 1 + n])"
        "length new \<le> n * columns" "r = Inr () \<longrightarrow> length new = n * columns" by auto
      moreover have "\<forall>x\<in>set (positioned row 0 vs). absolute (snd (snd x))" using vs(1) by (simp add: handed_on_def absolute_positioned)
      ultimately show ?thesis using vs(1) mine vs(3) [OF r1]
        by (intro exI [of _ "positioned row 0 vs @ new"])
          (auto simp: handed_on_def Suc.hyps(2) [symmetric] rows [unfolded add_Suc_right] length_positioned simp del: upt_Suc)
    qed
  qed
qed

text \<open>C35: Whatever buffer a meter sends, the visitor is handed absolute values only, never a null and never a difference, in the order of the
  rows and of the columns without a gap; and when the walk ends well every row has given every column, none left out.\<close>

theorem profile_cells_complete:
  assumes "for_each_cell p columns record_cell [] = (r, cells)"
  shows "(\<forall>c\<in>set cells. absolute (snd (snd c))) \<and>
    map place cells = take (length cells) (places columns [0..<ProfileBuffer_len p]) \<and>
    (r = Inr () \<longrightarrow> length cells = ProfileBuffer_len p * columns)"
proof (cases "columns > MAX_COLUMNS")
  case False
  then have "visit_rows columns record_cell (Seq_iter (pf_rows p)) 0 (replicate MAX_COLUMNS None) [] = (r, cells)"
    using assms by (simp add: for_each_cell_def)
  from visit_rows_record [OF this] show ?thesis by (auto simp: settled_slots_def Seq_iter_def ProfileBuffer_len_def)
qed (use assms in \<open>auto simp: for_each_cell_def\<close>)

theorem profile_cells_complete_witness:
  "\<exists>p r cells. for_each_cell p 2 record_cell [] = (r, cells) \<and> (\<forall>c\<in>set cells. absolute (snd (snd c))) \<and> length cells = 4"
proof -
  let ?p = "\<lparr>pf_rows = \<lparr>sq_count = 2, sq_raw = [2, 2, 0x11, 7, 0x12, 0, 100, 2, 2, 0, 0x12, 0, 200], sq_base = 0, sq_depth = 1\<rparr>\<rparr>"
  have run: "for_each_cell ?p 2 record_cell [] =
      (Inr (), [(0, 0, DUnsigned 7), (0, 1, DLongUnsigned 100), (1, 0, DUnsigned 7), (1, 1, DLongUnsigned 200)])" by code_simp
  from profile_cells_complete [OF this] run show ?thesis by (intro exI [of _ ?p]) (simp add: ProfileBuffer_len_def)
qed

subsection \<open>Selections that say what was meant\<close>

lemma writes_scalars:
  "writes (Data_encode (DLongUnsigned w)) (0x12 # be_bytes 2 w)" "writes (Data_encode (DInteger b)) [0x0F, b]"
  "writes (Data_encode (DDoubleLongUnsigned v)) (0x06 # be_bytes 4 v)"
  "length o1 < 0x80 \<Longrightarrow> writes (Data_encode (DOctetString o1)) (0x09 # of_nat (length o1) # o1)"
  unfolding Data_encode_def
  using writes_seq [OF writes_u8 writes_u16, of "0x12" w] writes_seq [OF writes_u8 writes_u8, of "0x0F" b] writes_seq [OF writes_u8 writes_u32, of "0x06" v]
    writes_seq [OF writes_u8 writes_length_prefixed, of o1 "0x09"]
  by (simp_all add: len_bytes_def)

definition capture_cells :: "CaptureObject \<Rightarrow> Data list" where
  "capture_cells o1 = [DLongUnsigned (co_class_id o1), DOctetString (obis_bytes (co_logical_name o1)), DInteger (co_attribute_index o1),
     DLongUnsigned (co_data_index o1)]"

definition capture_bytes :: "CaptureObject \<Rightarrow> bytes list" where
  "capture_bytes o1 = [0x12 # be_bytes 2 (co_class_id o1), 0x09 # 0x06 # obis_bytes (co_logical_name o1), [0x0F, co_attribute_index o1],
     0x12 # be_bytes 2 (co_data_index o1)]"

lemma yields_cells_get:
  assumes "yields (map (=) cells) (Seq_iter s)" "i < length cells" shows "Seq_get s i = Inr (cells ! i)"
  using yields_Seq_get [OF assms(1), of i] assms(2) by auto

lemma capture_from_cells:
  assumes "obis_wf (co_logical_name o1)" "holds_row (capture_cells o1) d"
  shows "CaptureObject_from_data d = Inr o1"
proof -
  obtain s where s: "d = DStructure s" "yields (map (=) (capture_cells o1)) (Seq_iter s)" using assms(2) by (auto simp: holds_row_def)
  have get: "Seq_get s 0 = Inr (DLongUnsigned (co_class_id o1))" "Seq_get s 1 = Inr (DOctetString (obis_bytes (co_logical_name o1)))"
    "Seq_get s 2 = Inr (DInteger (co_attribute_index o1))" "Seq_get s 3 = Inr (DLongUnsigned (co_data_index o1))"
    using yields_cells_get [OF s(2), of 0] yields_cells_get [OF s(2), of 1] yields_cells_get [OF s(2), of 2] yields_cells_get [OF s(2), of 3]
    by (simp_all add: capture_cells_def)
  have w: "0 \<le> uint w \<and> uint w \<le> 65535" for w :: u16 using uint_lt2p [of w] by simp
  have b: "- 128 \<le> sint b \<and> sint b \<le> 127" for b :: u8 using sint_ge [of b] sint_lt [of b] by simp
  show ?thesis using assms(1) w [of "co_class_id o1"] w [of "co_data_index o1"] b [of "co_attribute_index o1"]
    by (simp add: CaptureObject_from_data_def s(1) get [unfolded One_nat_def] invalid_def in_range_def Data_as_obis_def obis_wf_def CaptureObject_new_def)
qed

lemma capture_cell_bytes:
  "obis_wf (co_logical_name o1) \<Longrightarrow> list_all2 cell_bytes (capture_cells o1) (capture_bytes o1)"
  using writes_scalars(4) [of "obis_bytes (co_logical_name o1)"]
  by (simp add: capture_cells_def capture_bytes_def cell_bytes_def writes_scalars(1,2) short_field_def obis_wf_def)

lemma capture_writes: "writes (CaptureObject_encode o1) (sequence_bytes TStructure (capture_bytes o1))"
proof -
  have "writes (CaptureObject_encode o1) ([0x02, 0x04] @ [0x12] @ be_bytes 2 (co_class_id o1) @ [0x09, 0x06] @ obis_bytes (co_logical_name o1) @
      [0x0F, co_attribute_index o1] @ [0x12] @ be_bytes 2 (co_data_index o1))"
    unfolding CaptureObject_encode_def by (intro writes_seq writes_bytes writes_u16)
  then show ?thesis by (simp add: sequence_bytes_def capture_bytes_def len_bytes_def)
qed

text \<open>What a selection says, read back.\<close>

lemma selected:
  assumes "writes enc (sequence_bytes TStructure bss)" "list_all2 (element_reads 1) bss Ps" "length Ps < 2 ^ 32"
  shows "(length (sequence_bytes TStructure bss) \<le> length buf \<longrightarrow>
      (\<exists>s buf'. selective_access k enc buf = (Inr \<lparr>sa_selector = k, sa_parameters = DStructure s\<rparr>, buf') \<and> yields Ps (Seq_iter s))) \<and>
    (length buf < length (sequence_bytes TStructure bss) \<longrightarrow>
      (\<exists>n off buf'. selective_access k enc buf = (Inl (Error_new (BufferTooSmall n) off), buf')))"
proof (intro conjI impI)
  assume "length buf < length (sequence_bytes TStructure bss)"
  then show "\<exists>n off buf'. selective_access k enc buf = (Inl (Error_new (BufferTooSmall n) off), buf')"
    using encode_into_full [OF assms(1), of buf] by (auto simp: selective_access_def)
next
  assume fits: "length (sequence_bytes TStructure bss) \<le> length buf"
  have "list_all2 (element_reads (0 + 1)) bss Ps" using assms(2) by simp
  from sequence_reads [OF _ assms(3) this, of TStructure DStructure] list_all2_lengthD [OF assms(2)]
  have "element_reads 0 (sequence_bytes TStructure bss) (\<lambda>x. \<exists>s. x = DStructure s \<and> sq_count s = length Ps \<and> yields Ps (Seq_iter s))"
    by (simp add: sequence_bytes_def MAX_DEPTH_def)
  then obtain s where s: "Data_decode (Reader_new (sequence_bytes TStructure bss)) =
      (Inr (DStructure s), rd_advance (length (sequence_bytes TStructure bss)) (Reader_new (sequence_bytes TStructure bss)))"
    "yields Ps (Seq_iter s)"
    unfolding element_reads_def Data_decode_def by (elim decodes_sat_new) auto
  then have "from_bytes Data_decode (sequence_bytes TStructure bss) = Inr (DStructure s)"
    by (simp add: from_bytes_def Reader_is_empty_def Reader_remaining_def)
  then show "\<exists>s buf'. selective_access k enc buf = (Inr \<lparr>sa_selector = k, sa_parameters = DStructure s\<rparr>, buf') \<and> yields Ps (Seq_iter s)"
    using s(2) encode_into_fits [OF assms(1) fits] by (auto simp: selective_access_def)
qed

lemma flat_elements:
  "list_all2 cell_bytes cells bss \<Longrightarrow> list_all2 (element_reads 1) bss (map (=) cells)"
proof (induction rule: list_all2_induct)
  case (Cons c cells b bss)
  then show ?case using flat_reads [of c b 1] by (simp add: cell_bytes_def MAX_DEPTH_def)
qed simp

text \<open>A range over one column, sent as a selection, says which column, from when and until when, and leaves the columns to deliver open;
  a buffer of fewer than fifty bytes is refused.\<close>

lemma range_selection:
  assumes "obis_wf (co_logical_name (ra_restricting_object d))"
  shows "if length buf < 50 then \<exists>n off buf'. RangeDescriptor_to_selective_access d buf = (Inl (Error_new (BufferTooSmall n) off), buf')
    else \<exists>s column buf'. RangeDescriptor_to_selective_access d buf = (Inr \<lparr>sa_selector = 1, sa_parameters = DStructure s\<rparr>, buf') \<and>
      Seq_get s 0 = Inr column \<and> CaptureObject_from_data column = Inr (ra_restricting_object d) \<and>
      Seq_get s 1 = Inr (DOctetString (DateTime_to_bytes (ra_from d))) \<and> Seq_get s 2 = Inr (DOctetString (DateTime_to_bytes (ra_to d))) \<and>
      (\<exists>columns. Seq_get s 3 = Inr (DArray columns) \<and> sq_count columns = 0)"
proof -
  let ?o = "ra_restricting_object d"
  let ?time = "\<lambda>t. 0x09 # 0x0C # DateTime_to_bytes t"
  let ?bss = "[sequence_bytes TStructure (capture_bytes ?o), ?time (ra_from d), ?time (ra_to d), sequence_bytes TArray []]"
  let ?Ps = "[holds_row (capture_cells ?o), (=) (DOctetString (DateTime_to_bytes (ra_from d))), (=) (DOctetString (DateTime_to_bytes (ra_to d))),
    (\<lambda>x. \<exists>s. x = DArray s \<and> sq_count s = 0)]"
  have "writes (RangeDescriptor_parameters d) ([0x02, 0x04] @ sequence_bytes TStructure (capture_bytes ?o) @ [0x09, 0x0C] @ DateTime_to_bytes (ra_from d) @
      [0x09, 0x0C] @ DateTime_to_bytes (ra_to d) @ [0x01, 0x00])"
    unfolding RangeDescriptor_parameters_def by (intro writes_seq writes_bytes capture_writes)
  then have w: "writes (RangeDescriptor_parameters d) (sequence_bytes TStructure ?bss)" by (simp add: sequence_bytes_def len_bytes_def)
  have len: "length (sequence_bytes TStructure ?bss) = 50"
    using assms by (simp add: sequence_bytes_def len_bytes_def capture_bytes_def obis_wf_def)
  have time: "element_reads 1 (?time t) ((=) (DOctetString (DateTime_to_bytes t)))" for t
    using flat_reads [of "DOctetString (DateTime_to_bytes t)" "?time t" 1] writes_scalars(4) [of "DateTime_to_bytes t"]
    by (simp add: short_field_def MAX_DEPTH_def)
  have none: "element_reads 1 (sequence_bytes TArray []) (\<lambda>x. \<exists>s. x = DArray s \<and> sq_count s = 0)"
    using sequence_reads [of 1 "[]" "[]" TArray DArray]
    by (simp add: MAX_DEPTH_def sequence_bytes_def element_reads_def) (erule decodes_sat_mono, blast)
  have "element_reads 1 (sequence_bytes TStructure (capture_bytes ?o)) (holds_row (capture_cells ?o))"
    using capture_cell_bytes [OF assms] by (rule row_reads) (simp_all add: capture_cells_def MAX_DEPTH_def)
  then have "list_all2 (element_reads 1) ?bss ?Ps" using time none by simp
  note sel = selected [OF w this, of buf 1, unfolded len]
  show ?thesis
  proof (cases "length buf < 50")
    case True
    with sel show ?thesis by (simp add: RangeDescriptor_to_selective_access_def)
  next
    case False
    with sel obtain s buf' where s: "RangeDescriptor_to_selective_access d buf = (Inr \<lparr>sa_selector = 1, sa_parameters = DStructure s\<rparr>, buf')"
      "yields ?Ps (Seq_iter s)" by (auto simp: RangeDescriptor_to_selective_access_def)
    obtain column where "Seq_get s 0 = Inr column" "holds_row (capture_cells ?o) column" using yields_Seq_get [OF s(2), of 0] by auto
    moreover have "Seq_get s 1 = Inr (DOctetString (DateTime_to_bytes (ra_from d)))" by (rule yields_Seq_get [OF s(2), of 1]) simp_all
    moreover have "Seq_get s 2 = Inr (DOctetString (DateTime_to_bytes (ra_to d)))" by (rule yields_Seq_get [OF s(2), of 2]) simp_all
    moreover have "\<exists>columns. Seq_get s 3 = Inr (DArray columns) \<and> sq_count columns = 0" by (rule yields_Seq_get [OF s(2), of 3]) auto
    ultimately show ?thesis using False s(1) capture_from_cells [OF assms] by (simp add: exI [of _ s] exI [of _ column])
  qed
qed

end
