(* ===== verification/Units.thy ===== *)
theory Units
  imports Obis "HOL-Library.Signed_Division"
begin

text \<open>
  Units and scaled values, \<^verbatim>\<open>src/src/axdr/unit.rs\<close>: the table of unit codes, and integers with a power of ten.  Text is the list
  of its bytes in UTF-8.
\<close>

subsection \<open>Units\<close>

text \<open>A literal of ASCII characters.\<close>

definition lit :: "string \<Rightarrow> bytes" where
  "lit s = map of_char s"

datatype Unit = Unit (unit_code: u8)

text \<open>A row of the table: the code, the symbol and the name.\<close>

definition unit_table :: "(u8 \<times> bytes \<times> string) list" where
  "unit_table = [
     (1, lit ''a'', ''year''),
     (2, lit ''mo'', ''month''),
     (3, lit ''wk'', ''week''),
     (4, lit ''d'', ''day''),
     (5, lit ''h'', ''hour''),
     (6, lit ''min'', ''minute''),
     (7, lit ''s'', ''second''),
     (8, [0xC2, 0xB0], ''phase angle''),
     (9, [0xC2, 0xB0] @ lit ''C'', ''temperature''),
     (10, [0xC2, 0xA4], ''local currency''),
     (11, lit ''m'', ''length''),
     (12, lit ''m/s'', ''speed''),
     (13, lit ''m'' @ [0xC2, 0xB3], ''volume''),
     (14, lit ''m'' @ [0xC2, 0xB3], ''corrected volume''),
     (15, lit ''m'' @ [0xC2, 0xB3] @ lit ''/h'', ''volume flux''),
     (16, lit ''m'' @ [0xC2, 0xB3] @ lit ''/h'', ''corrected volume flux''),
     (17, lit ''m'' @ [0xC2, 0xB3] @ lit ''/d'', ''volume flux per day''),
     (18, lit ''m'' @ [0xC2, 0xB3] @ lit ''/d'', ''corrected volume flux per day''),
     (19, lit ''l'', ''volume''),
     (20, lit ''kg/s'', ''mass flux''),
     (21, lit ''N'', ''force''),
     (22, lit ''Nm'', ''energy''),
     (23, lit ''Pa'', ''pressure''),
     (24, lit ''bar'', ''pressure''),
     (25, lit ''J'', ''energy''),
     (26, lit ''J/h'', ''thermal power''),
     (27, lit ''W'', ''active power''),
     (28, lit ''VA'', ''apparent power''),
     (29, lit ''var'', ''reactive power''),
     (30, lit ''Wh'', ''active energy''),
     (31, lit ''VAh'', ''apparent energy''),
     (32, lit ''varh'', ''reactive energy''),
     (33, lit ''A'', ''current''),
     (34, lit ''C'', ''electrical charge''),
     (35, lit ''V'', ''voltage''),
     (36, lit ''V/m'', ''electric field strength''),
     (37, lit ''F'', ''capacitance''),
     (38, [0xCE, 0xA9], ''resistance''),
     (39, [0xCE, 0xA9] @ lit ''m'' @ [0xC2, 0xB2] @ lit ''/m'', ''resistivity''),
     (40, lit ''Wb'', ''magnetic flux''),
     (41, lit ''T'', ''magnetic flux density''),
     (42, lit ''A/m'', ''magnetic field strength''),
     (43, lit ''H'', ''inductance''),
     (44, lit ''Hz'', ''frequency''),
     (45, lit ''1/Wh'', ''active energy meter constant''),
     (46, lit ''1/varh'', ''reactive energy meter constant''),
     (47, lit ''1/VAh'', ''apparent energy meter constant''),
     (48, lit ''V'' @ [0xC2, 0xB2] @ lit ''h'', ''volt-squared hours''),
     (49, lit ''A'' @ [0xC2, 0xB2] @ lit ''h'', ''ampere-squared hours''),
     (50, lit ''kg'', ''mass''),
     (51, lit ''S'', ''conductance''),
     (52, lit ''K'', ''temperature''),
     (53, lit ''1/(V'' @ [0xC2, 0xB2] @ lit ''h)'', ''volt-squared hour meter constant''),
     (54, lit ''1/(A'' @ [0xC2, 0xB2] @ lit ''h)'', ''ampere-squared hour meter constant''),
     (55, lit ''1/m'' @ [0xC2, 0xB3], ''volume meter constant''),
     (56, lit ''%'', ''percentage''),
     (57, lit ''Ah'', ''ampere-hours''),
     (60, lit ''Wh/m'' @ [0xC2, 0xB3], ''energy per volume''),
     (61, lit ''J/m'' @ [0xC2, 0xB3], ''calorific value''),
     (62, lit ''mol %'', ''molar fraction of gas''),
     (63, lit ''g/m'' @ [0xC2, 0xB3], ''mass density''),
     (64, lit ''Pa s'', ''dynamic viscosity''),
     (65, lit ''J/kg'', ''specific energy''),
     (70, lit ''dBm'', ''signal strength''),
     (71, lit ''dB'' @ [0xC2, 0xB5] @ lit ''V'', ''signal strength''),
     (72, lit ''dB'', ''logarithmic unit''),
     (254, lit ''?'', ''other unit''),
     (255, [], ''count, no unit'')]"

definition NO_UNIT :: Unit where "NO_UNIT = Unit 255"
definition WATT :: Unit where "WATT = Unit 27"
definition WATT_HOUR :: Unit where "WATT_HOUR = Unit 30"
definition VAR :: Unit where "VAR = Unit 29"
definition VAR_HOUR :: Unit where "VAR_HOUR = Unit 32"
definition VOLT_AMPERE :: Unit where "VOLT_AMPERE = Unit 28"
definition VOLT_AMPERE_HOUR :: Unit where "VOLT_AMPERE_HOUR = Unit 31"
definition VOLT :: Unit where "VOLT = Unit 35"
definition AMPERE :: Unit where "AMPERE = Unit 33"
definition HERTZ :: Unit where "HERTZ = Unit 44"
definition SECOND :: Unit where "SECOND = Unit 7"
definition CUBIC_METRE :: Unit where "CUBIC_METRE = Unit 13"
definition JOULE :: Unit where "JOULE = Unit 25"
definition KILOGRAM :: Unit where "KILOGRAM = Unit 50"
definition PERCENTAGE :: Unit where "PERCENTAGE = Unit 56"

definition Unit_symbol :: "Unit \<Rightarrow> bytes option" where
  "Unit_symbol u = map_of (map (\<lambda>(code, symbol, _). (code, symbol)) unit_table) (unit_code u)"

definition Unit_name :: "Unit \<Rightarrow> string option" where
  "Unit_name u = map_of (map (\<lambda>(code, _, name). (code, name)) unit_table) (unit_code u)"

definition Unit_display :: "Unit \<Rightarrow> bytes" where
  "Unit_display u = (case Unit_symbol u of Some s \<Rightarrow> s | None \<Rightarrow> lit ''unit('' @ decimal (unat (unit_code u)) @ lit '')'')"

subsection \<open>Scaled values\<close>

type_synonym i64 = "64 word"
type_synonym i8 = "8 word"

record ScaledValue =
  sv_value :: i64
  sv_scaler :: i8
  sv_unit :: Unit

definition ScaledValue_new :: "i64 \<Rightarrow> i8 \<Rightarrow> Unit \<Rightarrow> ScaledValue" where
  "ScaledValue_new value scaler unit = \<lparr>sv_value = value, sv_scaler = scaler, sv_unit = unit\<rparr>"

text \<open>A result of signed arithmetic, unless it overflows.\<close>

definition checked_i64 :: "int \<Rightarrow> i64 option" where
  "checked_i64 v = (if - (2 ^ 63) \<le> v \<and> v < 2 ^ 63 then Some (of_int v) else None)"

primrec times_ten :: "nat \<Rightarrow> i64 \<Rightarrow> i64 option" where
  "times_ten 0 v = Some v"
| "times_ten (Suc n) v = (case checked_i64 (sint v * 10) of None \<Rightarrow> None | Some v \<Rightarrow> times_ten n v)"

text \<open>\<^verbatim>\<open>%\<close> and \<^verbatim>\<open>/\<close> on signed integers round towards zero.\<close>

primrec over_ten :: "nat \<Rightarrow> i64 \<Rightarrow> i64 option" where
  "over_ten 0 v = Some v"
| "over_ten (Suc n) v = (if sint v smod 10 \<noteq> 0 then None else over_ten n (of_int (sint v sdiv 10)))"

definition rescaled :: "i8 \<Rightarrow> ScaledValue \<Rightarrow> i64 option" where
  "rescaled scaler s =
     (let diff = sint (sv_scaler s) - sint scaler in
      if diff = 0 then Some (sv_value s) else if diff > 0 then times_ten (nat diff) (sv_value s)
      else over_ten (nat (- diff)) (sv_value s))"

definition ScaledValue_rescale :: "i8 \<Rightarrow> ScaledValue \<Rightarrow> ScaledValue option" where
  "ScaledValue_rescale scaler s =
     (case rescaled scaler s of
        None \<Rightarrow> None
      | Some value \<Rightarrow> Some \<lparr>sv_value = value, sv_scaler = scaler, sv_unit = sv_unit s\<rparr>)"

text \<open>A number padded with zeros to a width.\<close>

definition zero_padded :: "nat \<Rightarrow> nat \<Rightarrow> bytes" where
  "zero_padded width n = replicate (width - length (decimal n)) 48 @ decimal n"

definition U64_MAX :: nat where
  "U64_MAX = 2 ^ 64 - 1"

definition ScaledValue_digits :: "ScaledValue \<Rightarrow> bytes" where
  "ScaledValue_digits s =
     (let mag = nat \<bar>sint (sv_value s)\<bar>; scaler = sint (sv_scaler s) in
      (if sint (sv_value s) < 0 then [45] else []) @
      (if scaler = 0 then decimal mag
       else if scaler > 0 then decimal mag @ replicate (nat scaler) 48
       else
         let places = nat (- scaler); divisor = (if 10 ^ places \<le> U64_MAX then 10 ^ places else U64_MAX)
         in decimal (mag div divisor) @ [46] @ zero_padded places (mag mod divisor)))"

definition ScaledValue_display :: "ScaledValue \<Rightarrow> bytes" where
  "ScaledValue_display s =
     ScaledValue_digits s @ (case Unit_symbol (sv_unit s) of None \<Rightarrow> [] | Some symbol \<Rightarrow> if symbol = [] then [] else [32] @ symbol)"

subsection \<open>Rescaling is exact or refused\<close>

lemma sint_inject: "sint (v :: i64) = sint w \<longleftrightarrow> v = w"
  using word_eq_iff_signed [of v w] by auto

lemma sint_of_checked:
  assumes "- (2 ^ 63) \<le> v" "v < 2 ^ 63"
  shows "sint (of_int v :: i64) = v"
proof -
  have "(v + 2 ^ 63) mod 2 ^ 64 = v + 2 ^ 63" using assms by (intro mod_pos_pos_trivial) simp_all
  then show ?thesis by (simp add: int_word_sint)
qed

lemma checked_i64_Some: "checked_i64 v = Some w \<longleftrightarrow> sint w = v"
  using sint_ge [of w] sint_lt [of w] sint_of_checked [of v] by (auto simp: checked_i64_def sint_inject [symmetric])

lemma times_ten_Some: "times_ten n v = Some w \<longleftrightarrow> sint w = sint v * 10 ^ n"
proof (induction n arbitrary: v)
  case 0
  then show ?case by (auto simp: sint_inject)
next
  case (Suc n)
  have "checked_i64 (sint v * 10) \<noteq> None" if w: "sint w = sint v * 10 ^ Suc n"
  proof -
    have "(1 :: int) \<le> 10 ^ n" "\<not> (10 :: int) ^ n \<le> 0" by (simp_all add: not_le)
    then have "\<bar>sint v * 10\<bar> \<le> \<bar>sint w\<bar>" "sint v \<ge> 0 \<longleftrightarrow> sint w \<ge> 0"
      unfolding w by (auto simp: abs_mult zero_le_mult_iff mult_le_cancel_left1)
    then show ?thesis using sint_ge [of w] sint_lt [of w] by (auto simp: checked_i64_def split: if_splits)
  qed
  then show ?case
  proof (cases "checked_i64 (sint v * 10)")
    case None
    with \<open>sint w = sint v * 10 ^ Suc n \<Longrightarrow> checked_i64 (sint v * 10) \<noteq> None\<close> show ?thesis by (auto simp: None)
  next
    case (Some u)
    then show ?thesis using Suc.IH [of u] checked_i64_Some [of "sint v * 10" u] by (simp add: ac_simps)
  qed
qed

lemma over_ten_Some: "over_ten n v = Some w \<longleftrightarrow> sint v = sint w * 10 ^ n"
proof (induction n arbitrary: v)
  case 0
  then show ?case by (auto simp: sint_inject)
next
  case (Suc n)
  show ?case
  proof (cases "10 dvd sint v")
    case False
    then have "sint v smod 10 \<noteq> 0" by (auto simp: signed_modulo_int_def sgn_if abs_if dvd_eq_mod_eq_0 [symmetric] split: if_splits)
    moreover have "sint v \<noteq> sint w * 10 ^ Suc n" using False by auto
    ultimately show ?thesis by simp
  next
    case True
    then obtain k where k: "sint v = 10 * k" by blast
    have "sint (of_int k :: i64) = k" using sint_ge [of v] sint_lt [of v] k by (intro sint_of_checked) simp_all
    moreover have "sint v smod 10 = 0" "sint v sdiv 10 = k"
      unfolding k by (auto simp: signed_modulo_int_def signed_divide_int_def sgn_if abs_if)
    ultimately show ?thesis using Suc.IH [of "of_int k"] k by auto
  qed
qed

text \<open>Rescaling is exact or refused: a reading is brought to another power of ten with precisely the value it had and in the same unit; it is
  refused exactly when no 64-bit integer has that value, because a digit would be lost or the number is too large.\<close>

theorem rescale_exact:
  "ScaledValue_rescale scaler s = Some r \<longleftrightarrow> sv_scaler r = scaler \<and> sv_unit r = sv_unit s \<and>
     sint (sv_value r) * 10 ^ nat (sint scaler - sint (sv_scaler s)) = sint (sv_value s) * 10 ^ nat (sint (sv_scaler s) - sint scaler)"
proof -
  consider (same) "sint (sv_scaler s) - sint scaler = 0" | (finer) "sint (sv_scaler s) - sint scaler > 0"
    | (coarser) "sint (sv_scaler s) - sint scaler < 0" by linarith
  then have exact: "rescaled scaler s = Some w \<longleftrightarrow>
    sint w * 10 ^ nat (sint scaler - sint (sv_scaler s)) = sint (sv_value s) * 10 ^ nat (sint (sv_scaler s) - sint scaler)" for w
  proof cases
    case same
    then show ?thesis using sint_inject [of w "sv_value s"] by (auto simp: rescaled_def)
  next
    case finer
    then show ?thesis by (simp add: rescaled_def Let_def times_ten_Some)
  next
    case coarser
    then show ?thesis using over_ten_Some [of _ "sv_value s" w] by (simp add: rescaled_def Let_def) (simp only: eq_commute)
  qed
  have "ScaledValue_rescale scaler s = Some r \<longleftrightarrow> sv_scaler r = scaler \<and> sv_unit r = sv_unit s \<and> rescaled scaler s = Some (sv_value r)"
  proof (cases "rescaled scaler s")
    case (Some v)
    have "\<lparr>sv_value = v, sv_scaler = scaler, sv_unit = sv_unit s\<rparr> = r \<longleftrightarrow> sv_scaler r = scaler \<and> sv_unit r = sv_unit s \<and> v = sv_value r"
      by (cases r) (simp add: eq_commute conj_commute conj_left_commute)
    then show ?thesis by (simp add: ScaledValue_rescale_def Some)
  qed (simp add: ScaledValue_rescale_def)
  then show ?thesis by (simp only: exact)
qed

lemma rescale_demo:
  "ScaledValue_rescale (-4) (ScaledValue_new 12345 (-3) WATT_HOUR) = Some (ScaledValue_new 123450 (-4) WATT_HOUR) \<and>
   ScaledValue_rescale (-2) (ScaledValue_new 12345 (-3) WATT_HOUR) = None"
  by code_simp

end
