(* ===== verification/P1.thy ===== *)
theory P1
  imports Units Clock
begin

text \<open>
  The customer interface of a meter, \<^verbatim>\<open>src/src/transport/p1.rs\<close>: telegrams of text lines under a checksum, the values in
  them, and the reader that finds telegrams in a stream of bytes.  A string is the list of its bytes in UTF-8; what the source
  uses of the string library is spelled out on the bytes.
\<close>

subsection \<open>Text\<close>

definition is_cont :: "u8 \<Rightarrow> bool" where
  "is_cont b \<longleftrightarrow> 0x80 \<le> b \<and> b \<le> 0xBF"

definition between :: "u8 \<Rightarrow> u8 \<Rightarrow> u8 \<Rightarrow> bool" where
  "between lo hi b \<longleftrightarrow> lo \<le> b \<and> b \<le> hi"

text \<open>\<^verbatim>\<open>from_utf8\<close>: well-formed UTF-8, without overlong forms and surrogates.  First the width of a character by its first
  two bytes, zero when they cannot begin one, then the width of the character a string begins with.\<close>

definition utf8_width :: "u8 \<Rightarrow> u8 \<Rightarrow> nat" where
  "utf8_width a b =
     (if between 0xC2 0xDF a \<and> is_cont b then 2
      else if a = 0xE0 \<and> between 0xA0 0xBF b \<or> a = 0xED \<and> between 0x80 0x9F b \<or> (between 0xE1 0xEC a \<or> between 0xEE 0xEF a) \<and> is_cont b
      then 3
      else if a = 0xF0 \<and> between 0x90 0xBF b \<or> between 0xF1 0xF3 a \<and> is_cont b \<or> a = 0xF4 \<and> between 0x80 0x8F b then 4
      else 0)"

definition utf8_char :: "bytes \<Rightarrow> nat option" where
  "utf8_char s =
     (case s of
        [] \<Rightarrow> None
      | a # s \<Rightarrow>
          if a < 0x80 then Some 1
          else case s of
            [] \<Rightarrow> None
          | b # s \<Rightarrow>
              (let n = utf8_width a b in
               if n = 0 \<or> length s + 2 < n \<or> \<not> (\<forall>c\<in>set (take (n - 2) s). is_cont c) then None else Some n))"

lemma utf8_char_bounds: "utf8_char s = Some n \<Longrightarrow> 0 < n \<and> n \<le> length s"
  by (auto simp: utf8_char_def Let_def split: list.splits if_splits)

function utf8_valid :: "bytes \<Rightarrow> bool" where
  "utf8_valid s \<longleftrightarrow> s = [] \<or> (case utf8_char s of None \<Rightarrow> False | Some n \<Rightarrow> utf8_valid (drop n s))"
  by pat_completeness auto

termination
  by (relation "measure length") (auto dest!: utf8_char_bounds)

declare utf8_valid.simps [simp del]

text \<open>\<^verbatim>\<open>s.get(..n)\<close>: a prefix, if it ends between two characters.\<close>

definition str_get_to :: "nat \<Rightarrow> bytes \<Rightarrow> bytes option" where
  "str_get_to n s = (if n > length s \<or> n < length s \<and> is_cont (s ! n) then None else Some (take n s))"

text \<open>The width of the white-space character a string ends with, read from its last byte backwards; zero when there is none.\<close>

definition space_width :: "bytes \<Rightarrow> nat" where
  "space_width r =
     (case r of
        [] \<Rightarrow> 0
      | a # r \<Rightarrow>
          if between 9 13 a \<or> a = 32 then 1
          else case r of
            [] \<Rightarrow> 0
          | b # r \<Rightarrow>
              if b = 0xC2 \<and> (a = 0x85 \<or> a = 0xA0) then 2
              else case r of
                [] \<Rightarrow> 0
              | c # _ \<Rightarrow>
                  if c = 0xE1 \<and> b = 0x9A \<and> a = 0x80 \<or>
                     c = 0xE2 \<and> b = 0x80 \<and> (between 0x80 0x8A a \<or> a = 0xA8 \<or> a = 0xA9 \<or> a = 0xAF) \<or>
                     c = 0xE2 \<and> b = 0x81 \<and> a = 0x9F \<or> c = 0xE3 \<and> b = 0x80 \<and> a = 0x80
                  then 3 else 0)"

function trim_reversed :: "bytes \<Rightarrow> bytes" where
  "trim_reversed r = (if space_width r = 0 then r else trim_reversed (drop (space_width r) r))"
  by pat_completeness auto

termination
  by (relation "measure length") (auto simp: space_width_def split: list.splits)

declare trim_reversed.simps [simp del]

definition str_trim_end :: "bytes \<Rightarrow> bytes" where
  "str_trim_end s = rev (trim_reversed (rev s))"

text \<open>\<^verbatim>\<open>s.lines()\<close>: pieces that a line feed ends, without it and without a carriage return before it.\<close>

definition strip_cr :: "bytes \<Rightarrow> bytes" where
  "strip_cr s = (if s \<noteq> [] \<and> last s = 13 then butlast s else s)"

fun str_lines_acc :: "bytes \<Rightarrow> bytes \<Rightarrow> bytes list" where
  "str_lines_acc acc [] = (if acc = [] then [] else [acc])"
| "str_lines_acc acc (b # s) = (if b = 10 then strip_cr acc # str_lines_acc [] s else str_lines_acc (acc @ [b]) s)"

definition str_lines :: "bytes \<Rightarrow> bytes list" where
  "str_lines = str_lines_acc []"

subsection \<open>The checksum\<close>

definition arc_bit :: "u16 \<Rightarrow> u16" where
  "arc_bit crc = (if crc AND 1 \<noteq> 0 then drop_bit 1 crc XOR 0xA001 else drop_bit 1 crc)"

definition arc_byte :: "u16 \<Rightarrow> u8 \<Rightarrow> u16" where
  "arc_byte crc b = (arc_bit ^^ 8) (crc XOR ucast b)"

definition crc16 :: "bytes \<Rightarrow> u16" where
  "crc16 data = foldl arc_byte 0 data"

subsection \<open>Values\<close>

definition hex_digit :: "u8 \<Rightarrow> u8 option" where
  "hex_digit b =
     (if between 48 57 b then Some (b - 48) else if between 97 102 b then Some (b - 97 + 10)
      else if between 65 70 b then Some (b - 65 + 10) else None)"

text \<open>The loop variables of the decimal parser.\<close>

record decimal_scan =
  dc_mantissa :: i64
  dc_decimals :: u8
  dc_seen_point :: bool
  dc_any :: bool

definition decimal_step :: "u8 \<Rightarrow> decimal_scan \<Rightarrow> decimal_scan option" where
  "decimal_step b st =
     (if is_digit b then
        Option.bind (checked_i64 (sint (dc_mantissa st) * 10)) (\<lambda>m.
        Option.bind (checked_i64 (sint m + uint (b - 48))) (\<lambda>m.
          if dc_seen_point st \<and> dc_decimals st = 255 then None
          else Some (st\<lparr>dc_any := True, dc_mantissa := m, dc_decimals := (if dc_seen_point st then dc_decimals st + 1 else dc_decimals st)\<rparr>)))
      else if b = 46 \<and> \<not> dc_seen_point st then Some (st\<lparr>dc_seen_point := True\<rparr>)
      else None)"

fun decimal_digits :: "bytes \<Rightarrow> decimal_scan \<Rightarrow> decimal_scan option" where
  "decimal_digits [] st = Some st"
| "decimal_digits (b # s) st = (case decimal_step b st of None \<Rightarrow> None | Some st \<Rightarrow> decimal_digits s st)"

definition strip_prefix :: "u8 \<Rightarrow> bytes \<Rightarrow> bytes option" where
  "strip_prefix c s = (case s of [] \<Rightarrow> None | b # rest \<Rightarrow> if b = c then Some rest else None)"

definition parse_decimal :: "bytes \<Rightarrow> (i64 \<times> u8) option" where
  "parse_decimal s =
     (let (sign, digits) = (case strip_prefix 45 s of
        Some rest \<Rightarrow> (- 1, rest)
      | None \<Rightarrow> (1, (case strip_prefix 43 s of Some rest \<Rightarrow> rest | None \<Rightarrow> s)))
      in Option.bind (decimal_digits digits \<lparr>dc_mantissa = 0, dc_decimals = 0, dc_seen_point = False, dc_any = False\<rparr>) (\<lambda>st.
        if dc_any st then Option.bind (checked_i64 (sint (dc_mantissa st) * sign)) (\<lambda>m. Some (m, dc_decimals st)) else None))"

definition p1_units :: "(bytes \<times> Unit \<times> int) list" where
  "p1_units = [
     ([], NO_UNIT, 0), (lit ''W'', WATT, 0), (lit ''kW'', WATT, 3), (lit ''MW'', WATT, 6), (lit ''Wh'', WATT_HOUR, 0),
     (lit ''kWh'', WATT_HOUR, 3), (lit ''MWh'', WATT_HOUR, 6), (lit ''var'', VAR, 0), (lit ''kvar'', VAR, 3), (lit ''varh'', VAR_HOUR, 0),
     (lit ''kvarh'', VAR_HOUR, 3), (lit ''VA'', VOLT_AMPERE, 0), (lit ''kVA'', VOLT_AMPERE, 3), (lit ''VAh'', VOLT_AMPERE_HOUR, 0),
     (lit ''kVAh'', VOLT_AMPERE_HOUR, 3), (lit ''V'', VOLT, 0), (lit ''A'', AMPERE, 0), (lit ''Hz'', HERTZ, 0), (lit ''s'', SECOND, 0),
     (lit ''m3'', CUBIC_METRE, 0), (lit ''m'' @ [0xC2, 0xB3], CUBIC_METRE, 0), (lit ''dm3'', CUBIC_METRE, -3), (lit ''GJ'', JOULE, 9),
     (lit ''MJ'', JOULE, 6), (lit ''J'', JOULE, 0), (lit ''kg'', KILOGRAM, 0), (lit ''%'', PERCENTAGE, 0)]"

definition parse_unit :: "bytes \<Rightarrow> (Unit \<times> int) option" where
  "parse_unit symbol = map_of p1_units symbol"

definition two_digits :: "bytes \<Rightarrow> nat \<Rightarrow> u8 option" where
  "two_digits b i =
     (if i + 1 \<ge> length b \<or> b ! i < 48 \<or> b ! (i + 1) < 48 then None
      else let hi = b ! i - 48; lo = b ! (i + 1) - 48 in if hi > 9 \<or> lo > 9 then None else Some (hi * 10 + lo))"

definition parse_timestamp :: "bytes \<Rightarrow> DateTime option" where
  "parse_timestamp b =
     (if length b \<noteq> 13 then None
      else if b ! 12 \<noteq> 83 \<and> b ! 12 \<noteq> 87 then None
      else
        Option.bind (two_digits b 0) (\<lambda>yy. Option.bind (two_digits b 2) (\<lambda>mo. Option.bind (two_digits b 4) (\<lambda>d.
        Option.bind (two_digits b 6) (\<lambda>h. Option.bind (two_digits b 8) (\<lambda>mi. Option.bind (two_digits b 10) (\<lambda>s.
          Some ((DateTime_from_civil (2000 + ucast yy) mo d h mi s 0)
            \<lparr>dt_deviation := DEVIATION_NOT_SPECIFIED, dt_status := ClockStatus (if b ! 12 = 83 then 0x80 else 0)\<rparr>))))))))"

text \<open>\<^verbatim>\<open>parse::<u64>()\<close>: digits, with a plus sign before them or not.\<close>

fun u64_digits :: "bytes \<Rightarrow> nat \<Rightarrow> nat option" where
  "u64_digits [] n = Some n"
| "u64_digits (b # s) n =
     (if is_digit b then let n = n * 10 + unat (b - 48) in if n \<le> U64_MAX then u64_digits s n else None else None)"

definition parse_u64 :: "bytes \<Rightarrow> nat option" where
  "parse_u64 s =
     (let digits = (case strip_prefix 43 s of Some rest \<Rightarrow> rest | None \<Rightarrow> s) in if digits = [] then None else u64_digits digits 0)"

subsection \<open>A line\<close>

record Line =
  ln_obis :: Obis
  ln_raw :: bytes

definition trim_newlines :: "bytes \<Rightarrow> bytes" where
  "trim_newlines s = rev (dropWhile (\<lambda>b. b = 13 \<or> b = 10) (rev s))"

definition Line_parse :: "bytes \<Rightarrow> Line result" where
  "Line_parse line =
     (let line = trim_newlines line in
      case position (\<lambda>b. b = 40) line of
        None \<Rightarrow> Inl (Error_new InvalidValue 0)
      | Some at1 \<Rightarrow>
          (case Obis_parse (take at1 line) of
             Inl _ \<Rightarrow> Inl (Error_new InvalidValue 0)
           | Inr obis \<Rightarrow> Inr \<lparr>ln_obis = obis, ln_raw = drop at1 line\<rparr>))"

text \<open>What the iterator over the values yields.\<close>

function values_of :: "bytes \<Rightarrow> bytes list" where
  "values_of rest =
     (case position (\<lambda>b. b = 40) rest of
        None \<Rightarrow> []
      | Some at1 \<Rightarrow>
          (let after = drop (at1 + 1) rest in
           case position (\<lambda>b. b = 41) after of
             None \<Rightarrow> []
           | Some close \<Rightarrow> take close after # values_of (drop (close + 1) after)))"
  by pat_completeness auto

termination
  by (relation "measure length") (auto dest!: position_Some)

declare values_of.simps [simp del]

definition Line_values :: "Line \<Rightarrow> bytes list" where
  "Line_values l = values_of (ln_raw l)"

definition Line_value :: "Line \<Rightarrow> nat \<Rightarrow> bytes option" where
  "Line_value l n = (if n < length (Line_values l) then Some (Line_values l ! n) else None)"

definition Line_as_str :: "Line \<Rightarrow> bytes option" where
  "Line_as_str l = (case Line_values l of [] \<Rightarrow> None | v # _ \<Rightarrow> Some v)"

definition Line_as_u64 :: "Line \<Rightarrow> nat option" where
  "Line_as_u64 l = Option.bind (Line_as_str l) parse_u64"

definition split_star :: "bytes \<Rightarrow> bytes \<times> bytes" where
  "split_star s = (case position (\<lambda>b. b = 42) s of None \<Rightarrow> (s, []) | Some i \<Rightarrow> (take i s, drop (i + 1) s))"

definition scaled_text :: "bytes \<Rightarrow> ScaledValue option" where
  "scaled_text text =
     (let (number, unit_text) = split_star text in
      Option.bind (parse_unit unit_text) (\<lambda>(unit, prefix).
      Option.bind (parse_decimal number) (\<lambda>(mantissa, decimals).
        let scaler = prefix - uint decimals in
        if - 128 \<le> scaler \<and> scaler \<le> 127 then Some (ScaledValue_new mantissa (of_int scaler) unit) else None)))"

definition Line_as_scaled :: "Line \<Rightarrow> ScaledValue option" where
  "Line_as_scaled l = Option.bind (Line_as_str l) scaled_text"

definition Line_as_timestamp :: "Line \<Rightarrow> DateTime option" where
  "Line_as_timestamp l = Option.bind (Line_as_str l) parse_timestamp"

text \<open>The pairs of hexadecimal digits, each written as it is read.\<close>

fun hex_pairs :: "bytes \<Rightarrow> nat \<Rightarrow> bytes \<Rightarrow> unit result \<times> bytes" where
  "hex_pairs (h # l # s) i out =
     (case hex_digit h of
        None \<Rightarrow> (Inl (Error_new InvalidValue (i * 2)), out)
      | Some hi \<Rightarrow>
          (case hex_digit l of
             None \<Rightarrow> (Inl (Error_new InvalidValue (i * 2 + 1)), out)
           | Some lo \<Rightarrow> hex_pairs s (i + 1) (out[i := push_bit 4 hi OR lo])))"
| "hex_pairs _ i out = (Inr (), out)"

definition Line_decode_hex :: "Line \<Rightarrow> bytes \<Rightarrow> nat result \<times> bytes" where
  "Line_decode_hex l out =
     (case Line_as_str l of
        None \<Rightarrow> (Inl (Error_new InvalidValue 0), out)
      | Some text \<Rightarrow>
          if length text mod 2 \<noteq> 0 then (Inl (Error_new InvalidValue 0), out)
          else
            let n = length text div 2 in
            if length out < n then (Inl (Error_new (BufferTooSmall (n - length out)) 0), out)
            else (case hex_pairs text 0 out of (Inl e, out) \<Rightarrow> (Inl e, out) | (Inr _, out) \<Rightarrow> (Inr n, out)))"

subsection \<open>A telegram\<close>

record Telegram =
  tg_identification :: bytes
  tg_body :: bytes

definition Telegram_manufacturer :: "Telegram \<Rightarrow> bytes option" where
  "Telegram_manufacturer t =
     (case str_get_to 3 (tg_identification t) of None \<Rightarrow> None | Some s \<Rightarrow> if \<forall>b\<in>set s. b < 0x80 then Some s else None)"

definition Telegram_lines :: "Telegram \<Rightarrow> Line result list" where
  "Telegram_lines t = map Line_parse (filter (\<lambda>l. str_trim_end l \<noteq> []) (str_lines (tg_body t)))"

definition Telegram_get :: "Obis \<Rightarrow> Telegram \<Rightarrow> Line option" where
  "Telegram_get obis t = find (\<lambda>l. ln_obis l = obis) (concat (map (\<lambda>r. case r of Inl _ \<Rightarrow> [] | Inr l \<Rightarrow> [l]) (Telegram_lines t)))"

subsection \<open>The reader\<close>

record TelegramReader =
  tr_discarded :: nat
  tr_require_checksum :: bool

definition TelegramReader_new :: TelegramReader where
  "TelegramReader_new = \<lparr>tr_discarded = 0, tr_require_checksum = True\<rparr>"

definition TelegramReader_without_checksum :: TelegramReader where
  "TelegramReader_without_checksum = \<lparr>tr_discarded = 0, tr_require_checksum = False\<rparr>"

text \<open>The three states of a candidate.\<close>

datatype 'a candidate = Broken | Unfinished | Whole 'a

definition is_hexdigit :: "u8 \<Rightarrow> bool" where
  "is_hexdigit b \<longleftrightarrow> between 48 57 b \<or> between 65 70 b \<or> between 97 102 b"

definition hex_value :: "bytes \<Rightarrow> u16" where
  "hex_value s = foldl (\<lambda>v b. v * 16 + (case hex_digit b of None \<Rightarrow> 0 | Some d \<Rightarrow> ucast d)) 0 s"

text \<open>Where a telegram ends whose \<^verbatim>\<open>!\<close> is at \<open>bang\<close>.\<close>

definition telegram_end :: "bool \<Rightarrow> bytes \<Rightarrow> bytes \<Rightarrow> nat \<Rightarrow> nat candidate" where
  "telegram_end require_checksum checked after bang =
     (if require_checksum then
        (case str_get_to 4 after of
           None \<Rightarrow> Unfinished
         | Some printed \<Rightarrow>
             if \<not> (\<forall>b\<in>set printed. is_hexdigit b) then Broken
             else if hex_value printed \<noteq> crc16 checked then Broken
             else Whole (bang + 5))
      else
        Whole (if (case str_get_to 4 after of None \<Rightarrow> False | Some s \<Rightarrow> \<forall>b\<in>set s. is_hexdigit b) then bang + 5 else bang + 1))"

definition past_newline :: "bytes \<Rightarrow> nat \<Rightarrow> nat" where
  "past_newline text used =
     (case drop used text of
        [] \<Rightarrow> used
      | b # s \<Rightarrow> if b = 13 \<and> s \<noteq> [] \<and> hd s = 10 then used + 2 else if b = 10 then used + 1 else used)"

definition telegram_of :: "bytes \<Rightarrow> Telegram" where
  "telegram_of head =
     (case position (\<lambda>b. b = 10) head of
        Some at1 \<Rightarrow> \<lparr>tg_identification = str_trim_end (take at1 head), tg_body = drop (at1 + 1) head\<rparr>
      | None \<Rightarrow> \<lparr>tg_identification = str_trim_end head, tg_body = []\<rparr>)"

definition TelegramReader_parse :: "TelegramReader \<Rightarrow> bytes \<Rightarrow> (Telegram \<times> nat) candidate" where
  "TelegramReader_parse r buf =
     (if \<not> utf8_valid buf then Broken
      else if buf = [] \<or> hd buf \<noteq> 47 then Broken
      else case position (\<lambda>b. b = 33) buf of
        None \<Rightarrow> Unfinished
      | Some bang \<Rightarrow>
          let checked = take (bang + 1) buf in
          (case telegram_end (tr_require_checksum r) checked (drop (bang + 1) buf) bang of
             Broken \<Rightarrow> Broken
           | Unfinished \<Rightarrow> Unfinished
           | Whole used \<Rightarrow> Whole (telegram_of (drop 1 (take bang checked)), past_newline buf used)))"

datatype FoundTelegram = FtTelegram Telegram nat | FtIncomplete nat

text \<open>The scan over the buffer, from \<open>start\<close>: a telegram with the place it starts at and the bytes it takes, or the place of the first
  unfinished candidate.\<close>

function telegram_scan :: "TelegramReader \<Rightarrow> bytes \<Rightarrow> nat \<Rightarrow> nat option \<Rightarrow> (Telegram \<times> nat \<times> nat) + nat option" where
  "telegram_scan r buf start first_incomplete =
     (if start < length buf then
        (case position (\<lambda>b. b = 47) (drop start buf) of
           None \<Rightarrow> Inr first_incomplete
         | Some rel \<Rightarrow>
             let f = start + rel in
             (case TelegramReader_parse r (drop f buf) of
                Whole (telegram, used) \<Rightarrow> Inl (telegram, f, used)
              | Unfinished \<Rightarrow> telegram_scan r buf (f + 1) (if first_incomplete = None then Some f else first_incomplete)
              | Broken \<Rightarrow> telegram_scan r buf (f + 1) first_incomplete))
      else Inr first_incomplete)"
  by pat_completeness auto

termination
  by (relation "measure (\<lambda>(_, buf, start, _). length buf - start)") auto

declare telegram_scan.simps [simp del]

definition next_telegram :: "bytes \<Rightarrow> (TelegramReader, FoundTelegram) op" where
  "next_telegram buf r =
     (case telegram_scan r buf 0 None of
        Inl (telegram, f, used) \<Rightarrow> (Inr (FtTelegram telegram (f + used)), r\<lparr>tr_discarded := tr_discarded r + f\<rparr>)
      | Inr first_incomplete \<Rightarrow>
          (let discard = (case first_incomplete of None \<Rightarrow> length buf | Some i \<Rightarrow> i)
           in (Inr (FtIncomplete discard), r\<lparr>tr_discarded := tr_discarded r + discard\<rparr>)))"

end
