(* ===== verification/P1Reader.thy ===== *)
theory P1Reader
  imports P1
begin

text \<open>
  What the reader of telegrams does to a stream: what it finds is under its checksum, telegrams that were printed are found and
  read back, and how the stream is cut into buffers does not matter, as long as no character is cut.
\<close>

subsection \<open>Characters\<close>

lemma utf8_char_append: "utf8_char s = Some n \<Longrightarrow> utf8_char (s @ t) = Some n"
  by (auto simp: utf8_char_def Let_def split: list.splits if_splits)

lemma utf8_width_cases: "utf8_width a b = n \<Longrightarrow> n = 0 \<or> n \<in> {2, 3, 4} \<and> is_cont b"
  by (auto simp: utf8_width_def between_def is_cont_def word_le_nat_alt split: if_splits)

lemma utf8_char_last:
  assumes "utf8_char s = Some n" shows "s ! (n - 1) \<le> 0xBF"
proof (cases "\<exists>a rest. s = a # rest \<and> a < 0x80")
  case True
  then show ?thesis using assms by (auto simp: utf8_char_def word_le_nat_alt word_less_nat_alt)
next
  case False
  then obtain a b rest where s: "s = a # b # rest" "utf8_width a b = n" "n \<noteq> 0" "n \<le> length rest + 2" "\<forall>c\<in>set (take (n - 2) rest). is_cont c"
    using assms by (auto simp: utf8_char_def Let_def split: list.splits if_splits)
  show ?thesis
  proof (cases "n = 2")
    case True
    then show ?thesis using utf8_width_cases [OF s(2)] s(1) by (simp add: is_cont_def)
  next
    case False
    then have n: "n \<in> {3, 4}" using utf8_width_cases [OF s(2)] s(3) by auto
    then have "rest ! (n - 3) \<in> set (take (n - 2) rest)" using s(4) by (auto simp: in_set_conv_nth intro!: exI [of _ "n - 3"])
    then show ?thesis using s(1,5) n by (auto simp: is_cont_def)
  qed
qed

lemma utf8_ascii: "a < 0x80 \<Longrightarrow> utf8_valid (a # s) = utf8_valid s"
  by (subst utf8_valid.simps) (simp add: utf8_char_def Let_def)

lemma utf8_ascii_append: "\<forall>b\<in>set a. b < 0x80 \<Longrightarrow> utf8_valid (a @ s) = utf8_valid s"
  by (induction a) (simp_all add: utf8_ascii)

lemma utf8_Nil [simp]: "utf8_valid []"
  by (subst utf8_valid.simps) simp

lemma utf8_append: "utf8_valid a \<Longrightarrow> utf8_valid (a @ s) = utf8_valid s"
proof (induction a rule: length_induct)
  case (1 a)
  show ?case
  proof (cases "a = []")
    case False
    with 1(2) obtain n where n: "utf8_char a = Some n" "utf8_valid (drop n a)"
      by (subst (asm) utf8_valid.simps) (auto split: option.splits)
    from utf8_char_bounds [OF n(1)] have le: "length (drop n a) < length a" "n \<le> length a" using False by auto
    have "utf8_valid (a @ s) = utf8_valid (drop n (a @ s))"
      using False by (subst utf8_valid.simps) (simp add: utf8_char_append [OF n(1)])
    also have "\<dots> = utf8_valid (drop n a @ s)" using le by simp
    finally show ?thesis using 1(1) le n(2) by blast
  qed simp
qed

lemma utf8_last: "utf8_valid s \<Longrightarrow> s \<noteq> [] \<Longrightarrow> last s \<le> 0xBF"
proof (induction s rule: length_induct)
  case (1 s)
  then obtain n where n: "utf8_char s = Some n" "utf8_valid (drop n s)"
    by (subst (asm) (2) utf8_valid.simps) (auto split: option.splits)
  from utf8_char_bounds [OF n(1)] have le: "0 < n" "n \<le> length s" by auto
  show ?case
  proof (cases "n = length s")
    case True
    then show ?thesis using utf8_char_last [OF n(1)] 1(3) by (simp add: last_conv_nth)
  next
    case False
    then show ?thesis using 1(1) n(2) le by (metis drop_eq_Nil last_drop le_neq_implies_less length_drop diff_less length_greater_0_conv 1(3) not_le)
  qed
qed

lemma utf8_first: "is_cont b \<Longrightarrow> \<not> utf8_valid (b # s)"
proof -
  assume b: "is_cont b"
  then have "\<not> b < 0x80" and "\<And>c. utf8_width b c = 0"
    by (auto simp: is_cont_def utf8_width_def between_def word_le_nat_alt word_less_nat_alt)
  then have "utf8_char (b # s) = None" by (cases s) (simp_all add: utf8_char_def)
  then show ?thesis by (subst utf8_valid.simps) simp
qed

subsection \<open>What is found\<close>

definition candidate_text :: "bytes \<Rightarrow> bytes \<Rightarrow> bool" where
  "candidate_text text s \<longleftrightarrow> (\<exists>inside. text = [47] @ inside @ [33] \<and> 33 \<notin> set inside \<and> take (length text) s = text)"

lemma position_split:
  assumes "position P xs = Some i"
  shows "xs = take i xs @ [xs ! i] @ drop (Suc i) xs" "\<forall>x\<in>set (take i xs). \<not> P x" "P (xs ! i)" "i < length xs"
  using position_Some [OF assms] by (auto simp: id_take_nth_drop [symmetric] in_set_conv_nth)

lemma past_newline_bounds: "used \<le> length text \<Longrightarrow> used \<le> past_newline text used \<and> past_newline text used \<le> min (used + 2) (length text)"
proof -
  assume "used \<le> length text"
  then have "length (drop used text) = length text - used" by simp
  then show ?thesis using \<open>used \<le> length text\<close>
    by (cases "drop used text"; cases "tl (drop used text)") (auto simp: past_newline_def)
qed

text \<open>What a candidate that is whole is made of, for a reader that demands the checksum.\<close>

lemma parse_Whole:
  assumes "TelegramReader_parse r buf = Whole (t, used)" "tr_require_checksum r"
  obtains inside printed rest where "buf = [47] @ inside @ [33] @ printed @ rest" "33 \<notin> set inside" "length printed = 4"
    "\<forall>b\<in>set printed. is_hexdigit b" "hex_value printed = crc16 ([47] @ inside @ [33])" "t = telegram_of inside"
    "length inside + 6 \<le> used" "used \<le> min (length inside + 8) (length buf)" "utf8_valid buf"
proof -
  from assms(1) obtain bang where bang: "position (\<lambda>b. b = 33) buf = Some bang" "utf8_valid buf" "buf \<noteq> []" "hd buf = 47"
    by (auto simp: TelegramReader_parse_def split: if_splits option.splits)
  note sp = position_split [OF bang(1)]
  have "0 < bang" using bang(3,4) sp(3) by (cases buf; cases bang) auto
  define inside where "inside = drop 1 (take bang buf)"
  have take_bang: "take bang buf = [47] @ inside" using bang(3,4) \<open>0 < bang\<close> by (cases buf; cases bang) (auto simp: inside_def)
  have len: "bang = length inside + 1" using arg_cong [OF take_bang, of length] sp(4) by simp
  have checked: "take (bang + 1) buf = [47] @ inside @ [33]"
    using sp(1,3,4) take_bang by (simp add: take_Suc_conv_app_nth)
  from assms bang checked obtain printed where pr: "str_get_to 4 (drop (bang + 1) buf) = Some printed" "\<forall>b\<in>set printed. is_hexdigit b"
    "hex_value printed = crc16 ([47] @ inside @ [33])" "used = past_newline buf (bang + 5)" "t = telegram_of inside"
    by (auto simp: TelegramReader_parse_def Let_def telegram_end_def len split: if_splits option.splits candidate.splits)
  from pr(1) have pr4: "4 \<le> length (drop (bang + 1) buf)" "printed = take 4 (drop (bang + 1) buf)"
    by (auto simp: str_get_to_def split: if_splits)
  have "buf = [47] @ inside @ [33] @ printed @ drop (bang + 5) buf"
    using append_take_drop_id [of "bang + 1" buf] append_take_drop_id [of 4 "drop (bang + 1) buf"] unfolding checked pr4(2)
    by (simp add: add.commute)
  moreover have "length printed = 4" using pr4 by simp
  moreover have "33 \<notin> set inside" using sp(2) take_bang by auto
  moreover have "length inside + 6 \<le> used" "used \<le> min (length inside + 8) (length buf)"
  proof -
    have "bang + 5 \<le> length buf" using pr4(1) by simp
    from past_newline_bounds [OF this] show "length inside + 6 \<le> used" "used \<le> min (length inside + 8) (length buf)"
      unfolding pr(4) len by simp_all
  qed
  ultimately show thesis using that [of inside printed "drop (bang + 5) buf"] pr(2,3,5) bang(2) by blast
qed

lemma scan_Inl:
  "telegram_scan r buf start fi = Inl (t, f, used) \<Longrightarrow> start \<le> f \<and> f < length buf \<and> TelegramReader_parse r (drop f buf) = Whole (t, used)"
proof (induction r buf start fi rule: telegram_scan.induct)
  case (1 r buf start fi)
  show ?case
  proof (cases "start < length buf")
    case True
    with 1(3) obtain rel where rel: "position (\<lambda>b. b = 47) (drop start buf) = Some rel"
      by (subst (asm) telegram_scan.simps) (auto split: option.splits)
    have lt: "start + rel < length buf" using position_split(4) [OF rel] by simp
    note step = 1(3) [unfolded telegram_scan.simps [of r buf start fi]]
    show ?thesis
    proof (cases "TelegramReader_parse r (drop (start + rel) buf)")
      case Broken
      with step True rel have "telegram_scan r buf (start + rel + 1) fi = Inl (t, f, used)" by (simp add: Let_def)
      from 1(1) [OF True rel refl Broken this] show ?thesis by simp
    next
      case Unfinished
      with step True rel have "telegram_scan r buf (start + rel + 1) (if fi = None then Some (start + rel) else fi) = Inl (t, f, used)"
        by (simp add: Let_def)
      from 1(2) [OF True rel refl Unfinished this] show ?thesis by simp
    next
      case (Whole p)
      with step True rel lt show ?thesis by (cases p) (auto simp: Let_def)
    qed
  qed (use 1(3) in \<open>subst (asm) telegram_scan.simps, simp\<close>)
qed

text \<open>The telegram that holds nothing, to evaluate with.\<close>

definition demo_telegram :: bytes where
  "demo_telegram = lit ''/!28DC''"

lemma demo_found:
  "next_telegram demo_telegram TelegramReader_new = (Inr (FtTelegram \<lparr>tg_identification = [], tg_body = []\<rparr> 6), TelegramReader_new)"
  by code_simp

text \<open>C36: Nothing but a telegram under its checksum is handed on: when a reader that demands the checksum finds a telegram, the buffer holds it
  between a slash and the first exclamation mark after it, with four hexadecimal digits behind that give the checksum of all of
  it, the marks included; the reported end is just behind these, or behind a line end that follows, and inside the buffer.\<close>

theorem found_telegram_is_checked:
  assumes "next_telegram buf r = (Inr (FtTelegram t consumed), r')" "tr_require_checksum r"
  shows "\<exists>before inside printed rest. buf = before @ [47] @ inside @ [33] @ printed @ rest \<and> 33 \<notin> set inside \<and> length printed = 4 \<and>
    (\<forall>b\<in>set printed. is_hexdigit b) \<and> hex_value printed = crc16 ([47] @ inside @ [33]) \<and> t = telegram_of inside \<and>
    tr_discarded r' = tr_discarded r + length before \<and>
    length before + length inside + 6 \<le> consumed \<and> consumed \<le> min (length before + length inside + 8) (length buf)"
proof -
  obtain f used where found: "telegram_scan r buf 0 None = Inl (t, f, used)" "consumed = f + used" "r' = r\<lparr>tr_discarded := tr_discarded r + f\<rparr>"
    using assms(1) by (auto simp: next_telegram_def Let_def split: sum.splits)
  from scan_Inl [OF found(1)] have f: "f < length buf" "TelegramReader_parse r (drop f buf) = Whole (t, used)" by simp_all
  from parse_Whole [OF f(2) assms(2)] obtain inside printed rest where w: "drop f buf = [47] @ inside @ [33] @ printed @ rest"
    "33 \<notin> set inside" "length printed = 4" "\<forall>b\<in>set printed. is_hexdigit b" "hex_value printed = crc16 ([47] @ inside @ [33])"
    "t = telegram_of inside" "length inside + 6 \<le> used" "used \<le> min (length inside + 8) (length (drop f buf))" .
  have "buf = take f buf @ [47] @ inside @ [33] @ printed @ rest" using w(1) append_take_drop_id [of f buf] by simp
  then show ?thesis using w(2-8) found(2,3) f(1)
    by (intro exI [of _ "take f buf"] exI [of _ inside] exI [of _ printed] exI [of _ rest]) auto
qed

theorem found_telegram_is_checked_witness:
  "\<exists>inside printed. length printed = 4 \<and> hex_value printed = crc16 ([47] @ inside @ [33]) \<and>
     next_telegram demo_telegram TelegramReader_new = (Inr (FtTelegram (telegram_of inside) 6), TelegramReader_new)"
proof -
  have "tr_require_checksum TelegramReader_new" by (simp add: TelegramReader_new_def)
  from found_telegram_is_checked [OF demo_found this] obtain inside printed where
    w: "length printed = 4" "hex_value printed = crc16 ([47] @ inside @ [33])" "\<lparr>tg_identification = [], tg_body = []\<rparr> = telegram_of inside"
    by blast
  from demo_found [unfolded w(3)] w(1,2) show ?thesis by blast
qed

subsection \<open>A stream in pieces\<close>

text \<open>A character that is not complete at the end of the buffer spoils every candidate in it.\<close>

lemma parse_cut:
  assumes "s \<noteq> []" "\<not> last s \<le> 0xBF" shows "TelegramReader_parse r s = Broken"
  using utf8_last [of s] assms by (auto simp: TelegramReader_parse_def)

lemma scan_all_broken:
  assumes "\<And>f. f < length buf \<Longrightarrow> TelegramReader_parse r (drop f buf) = Broken"
  shows "telegram_scan r buf start None = Inr None"
proof (induction "length buf - start" arbitrary: start rule: less_induct)
  case less
  show ?case
  proof (cases "start < length buf")
    case True
    show ?thesis
    proof (cases "position (\<lambda>b. b = 47) (drop start buf)")
      case (Some rel)
      have "start + rel < length buf" using position_split(4) [OF Some] by simp
      then show ?thesis using less [of "start + rel + 1"] assms True Some by (subst telegram_scan.simps) (simp add: Let_def)
    qed (subst telegram_scan.simps, simp)
  qed (subst telegram_scan.simps, simp)
qed

text \<open>C40: A buffer that ends inside a character is thrown away whole: when the last byte in it begins a character, everything before it is
  reported as certainly no part of a telegram, the start of a telegram whose rest has not arrived yet and even a complete
  telegram under a correct checksum.\<close>

theorem cut_character_loses_telegram:
  assumes "0xBF < b"
  shows "next_telegram (buf @ [b]) r = (Inr (FtIncomplete (length buf + 1)), r\<lparr>tr_discarded := tr_discarded r + length buf + 1\<rparr>)"
proof -
  have "TelegramReader_parse r (drop f (buf @ [b])) = Broken" if "f < length (buf @ [b])" for f
    using that assms by (intro parse_cut) auto
  then show ?thesis using scan_all_broken [of "buf @ [b]" r 0] by (simp add: next_telegram_def)
qed

theorem cut_character_loses_telegram_witness:
  "fst (next_telegram demo_telegram TelegramReader_new) = Inr (FtTelegram \<lparr>tg_identification = [], tg_body = []\<rparr> 6) \<and>
   fst (next_telegram (demo_telegram @ [0xC3]) TelegramReader_new) = Inr (FtIncomplete 7)"
proof
  show "fst (next_telegram demo_telegram TelegramReader_new) = Inr (FtTelegram \<lparr>tg_identification = [], tg_body = []\<rparr> 6)"
    by (simp add: demo_found)
  show "fst (next_telegram (demo_telegram @ [0xC3]) TelegramReader_new) = Inr (FtIncomplete 7)"
    using cut_character_loses_telegram [of "0xC3" demo_telegram TelegramReader_new] by (simp add: demo_telegram_def lit_def)
qed

text \<open>A broken candidate stays broken when more arrives, if no character was cut.\<close>

lemma parse_broken_append:
  assumes "\<forall>b\<in>set s. b < 0x80" "TelegramReader_parse r s = Broken" "s \<noteq> []"
  shows "TelegramReader_parse r (s @ later) = Broken"
proof (cases "hd s = 47 \<and> utf8_valid later")
  case False
  then show ?thesis using utf8_ascii_append [OF assms(1)] assms(3) by (auto simp: TelegramReader_parse_def)
next
  case True
  have valid: "utf8_valid s" using utf8_ascii_append [OF assms(1), of "[]"] by simp
  with assms(2,3) True obtain bang where bang: "position (\<lambda>b. b = 33) s = Some bang"
    "telegram_end (tr_require_checksum r) (take (bang + 1) s) (drop (bang + 1) s) bang = Broken"
    by (auto simp: TelegramReader_parse_def Let_def split: option.splits candidate.splits if_splits)
  then obtain printed where pr: "tr_require_checksum r" "str_get_to 4 (drop (bang + 1) s) = Some printed"
    by (auto simp: telegram_end_def split: option.splits if_splits)
  have "bang < length s" using position_Some [OF bang(1)] by blast
  have pos: "position (\<lambda>b. b = 33) (s @ later) = Some bang"
  proof -
    have "position P xs = Some i \<Longrightarrow> position P (xs @ ys) = Some i" for P and xs ys :: bytes and i
      by (induction xs arbitrary: i) (auto split: if_splits)
    then show ?thesis using bang(1) .
  qed
  have four: "4 \<le> length (drop (bang + 1) s)" using pr(2) by (auto simp: str_get_to_def split: if_splits)
  have "str_get_to 4 (drop (bang + 1) s @ later) = str_get_to 4 (drop (bang + 1) s)"
  proof (cases "4 = length (drop (bang + 1) s)")
    case True
    then show ?thesis using \<open>hd s = 47 \<and> utf8_valid later\<close> utf8_first [of "hd later" "tl later"]
      by (cases later) (auto simp: str_get_to_def nth_append)
  next
    case False
    then have "4 < length (drop (bang + 1) s)" using four by simp
    then show ?thesis by (auto simp: str_get_to_def nth_append)
  qed
  then have "telegram_end (tr_require_checksum r) (take (bang + 1) (s @ later)) (drop (bang + 1) (s @ later)) bang = Broken"
    using bang(2) pr(1) \<open>bang < length s\<close> by (simp add: telegram_end_def)
  then show ?thesis using pos by (auto simp: TelegramReader_parse_def Let_def)
qed

text \<open>Where the scan finds the next slash.\<close>

lemma scan_at:
  assumes "position (\<lambda>b. b = 47) (drop start buf) = Some rel"
  shows "telegram_scan r buf start fi = telegram_scan r buf (start + rel) fi"
proof -
  note sp = position_split [OF assms]
  have "position (\<lambda>b. b = 47) (drop (start + rel) buf) = Some 0"
    using sp(3,4) by (cases "drop (start + rel) buf") (auto simp: nth_via_drop)
  then show ?thesis using assms sp(4)
    by (subst telegram_scan.simps, subst (2) telegram_scan.simps) simp
qed

lemma scan_keeps_first: "telegram_scan r buf start (Some i) = Inr x \<Longrightarrow> x = Some i"
proof (induction r buf start "Some i" rule: telegram_scan.induct)
  case (1 r buf start)
  note step = 1(3) [unfolded telegram_scan.simps [of r buf start]]
  show ?case
  proof (cases "start < length buf \<and> (\<exists>rel. position (\<lambda>b. b = 47) (drop start buf) = Some rel)")
    case True
    then obtain rel where rel: "start < length buf" "position (\<lambda>b. b = 47) (drop start buf) = Some rel" by blast
    show ?thesis
      using 1(1) [OF rel refl] 1(2) [OF rel refl] step rel
      by (cases "TelegramReader_parse r (drop (start + rel) buf)") (auto simp: Let_def split: prod.splits)
  qed (use step in \<open>auto split: if_splits\<close>)
qed

lemma scan_slash:
  assumes "f < length buf" "buf ! f = 47"
  shows "telegram_scan r buf f fi = (case TelegramReader_parse r (drop f buf) of
      Whole (t, used) \<Rightarrow> Inl (t, f, used)
    | Unfinished \<Rightarrow> telegram_scan r buf (f + 1) (if fi = None then Some f else fi)
    | Broken \<Rightarrow> telegram_scan r buf (f + 1) fi)"
proof -
  have "position (\<lambda>b. b = 47) (drop f buf) = Some 0" using assms by (simp add: Cons_nth_drop_Suc [symmetric])
  then show ?thesis using assms(1) by (subst telegram_scan.simps) simp
qed

lemma position_append: "position P (a @ b) = (case position P a of Some i \<Rightarrow> Some i | None \<Rightarrow> map_option ((+) (length a)) (position P b))"
proof (induction a)
  case Nil
  then show ?case by (cases "position P b") simp_all
next
  case (Cons x a)
  then show ?case by (cases "position P a"; cases "position P b") simp_all
qed

lemma scan_nothing:
  assumes "position (\<lambda>b. b = 47) (drop start buf) = None" "start \<le> length buf"
  shows "telegram_scan r (buf @ later) start fi = telegram_scan r (buf @ later) (length buf) fi"
proof (cases "position (\<lambda>b. b = 47) later")
  case None
  then show ?thesis using assms by (subst telegram_scan.simps, subst (2) telegram_scan.simps) (simp add: position_append)
next
  case (Some rel)
  have "telegram_scan r (buf @ later) start fi = telegram_scan r (buf @ later) (start + (length (drop start buf) + rel)) fi"
    using Some assms by (intro scan_at) (simp add: position_append)
  moreover have "telegram_scan r (buf @ later) (length buf) fi = telegram_scan r (buf @ later) (length buf + rel) fi"
    using Some by (intro scan_at) simp
  ultimately show ?thesis using assms(2) by simp
qed

text \<open>What is reported as no part of a telegram is none with more behind it either.\<close>

lemma scan_skip:
  assumes "\<forall>b\<in>set buf. b < 0x80" "telegram_scan r buf start None = Inr fi" "start \<le> length buf"
  defines "d \<equiv> (case fi of None \<Rightarrow> length buf | Some i \<Rightarrow> i)"
  shows "d \<le> length buf \<and> telegram_scan r (buf @ later) start None = telegram_scan r (buf @ later) d None"
  using assms(2,3)
proof (induction "length buf - start" arbitrary: start rule: less_induct)
  case less
  show ?case
  proof (cases "position (\<lambda>b. b = 47) (drop start buf)")
    case None
    then have "fi = None" using less.prems(1) by (subst (asm) telegram_scan.simps) (auto split: if_splits)
    then show ?thesis using scan_nothing [OF None less.prems(2)] by (simp add: d_def)
  next
    case (Some rel)
    define f where "f = start + rel"
    have f: "f < length buf" "buf ! f = 47" using position_split [OF Some] by (auto simp: f_def)
    have "position (\<lambda>b. b = 47) (drop start (buf @ later)) = Some rel" using Some less.prems(2) by (simp add: position_append)
    from scan_at [OF this] have later: "telegram_scan r (buf @ later) start None = telegram_scan r (buf @ later) f None" by (simp add: f_def)
    have now: "telegram_scan r buf f None = Inr fi" using scan_at [OF Some, of r None] less.prems(1) by (simp add: f_def)
    show ?thesis
    proof (cases "TelegramReader_parse r (drop f buf)")
      case Broken
      have "\<forall>b\<in>set (drop f buf). b < 0x80" using assms(1) by (meson in_set_dropD)
      with Broken f(1) have "TelegramReader_parse r (drop f (buf @ later)) = Broken" using parse_broken_append by simp
      then have "telegram_scan r (buf @ later) f None = telegram_scan r (buf @ later) (f + 1) None"
        using f by (subst scan_slash) (simp_all add: nth_append)
      moreover have "telegram_scan r buf (f + 1) None = Inr fi" using now Broken f by (subst (asm) scan_slash) simp_all
      ultimately show ?thesis using less.hyps [of "f + 1"] f(1) later by (simp add: f_def)
    next
      case Unfinished
      then have "telegram_scan r buf (f + 1) (Some f) = Inr fi" using now f by (subst (asm) scan_slash) simp_all
      from scan_keeps_first [OF this] show ?thesis using later f(1) by (simp add: d_def)
    next
      case (Whole p)
      then show ?thesis using now f by (subst (asm) scan_slash) (auto split: prod.splits)
    qed
  qed
qed

lemma scan_shift:
  "telegram_scan r (a @ b) (length a + s) (map_option ((+) (length a)) fi) =
    map_sum (\<lambda>(t, f, u). (t, length a + f, u)) (map_option ((+) (length a))) (telegram_scan r b s fi)"
proof (induction "length b - s" arbitrary: s fi rule: less_induct)
  case less
  show ?case
  proof (cases "position (\<lambda>b. b = 47) (drop s b)")
    case None
    then show ?thesis by (subst telegram_scan.simps, subst (2) telegram_scan.simps) simp
  next
    case (Some rel)
    have f: "s + rel < length b" "b ! (s + rel) = 47" using position_split [OF Some] by auto
    have "position (\<lambda>b. b = 47) (drop (length a + s) (a @ b)) = Some rel" using Some by simp
    note both = scan_at [OF this] scan_at [OF Some]
    have IH: "telegram_scan r (a @ b) (length a + (s + rel + 1)) (map_option ((+) (length a)) gi) =
        map_sum (\<lambda>(t, f, u). (t, length a + f, u)) (map_option ((+) (length a))) (telegram_scan r b (s + rel + 1) gi)" for gi
      using less [of "s + rel + 1" gi] f(1) by simp
    have g: "length a + s + rel < length (a @ b)" "(a @ b) ! (length a + s + rel) = 47" using f by (simp_all add: nth_append)
    show ?thesis
      using IH [of fi] IH [of "if fi = None then Some (s + rel) else fi"]
      unfolding both scan_slash [OF f] scan_slash [OF g]
      by (cases "TelegramReader_parse r (drop (s + rel) b)") (auto simp: ac_simps)
  qed
qed

lemma parse_discarded [simp]: "TelegramReader_parse (r\<lparr>tr_discarded := n\<rparr>) = TelegramReader_parse r"
  by (auto simp: fun_eq_iff TelegramReader_parse_def Let_def split: option.split)

lemma scan_discarded [simp]: "telegram_scan (r\<lparr>tr_discarded := n\<rparr>) buf start fi = telegram_scan r buf start fi"
proof (induction "length buf - start" arbitrary: start fi rule: less_induct)
  case less
  show ?case
    by (subst telegram_scan.simps, subst (2) telegram_scan.simps)
      (auto simp: Let_def less split: option.splits candidate.splits dest!: position_split(4))
qed

text \<open>C37: It does not matter how a stream of ASCII arrives: when the reader has found no complete telegram in a buffer and the caller drops
  what it was told to drop and goes on with what comes next, the reader finds what it would have found in everything at once, at
  the same place, and has discarded the same number of bytes.  So no byte it gives up could have become part of a telegram.\<close>

theorem reader_is_incremental:
  assumes "next_telegram buf r = (Inr (FtIncomplete d), r1)" "\<forall>b\<in>set buf. b < 0x80"
  shows "d \<le> length buf \<and> next_telegram (buf @ later) r = (case next_telegram (drop d buf @ later) r1 of
      (Inr (FtTelegram t used), r2) \<Rightarrow> (Inr (FtTelegram t (d + used)), r2)
    | (Inr (FtIncomplete e), r2) \<Rightarrow> (Inr (FtIncomplete (d + e)), r2)
    | (Inl e, r2) \<Rightarrow> (Inl e, r2))"
proof -
  obtain fi where fi: "telegram_scan r buf 0 None = Inr fi" "d = (case fi of None \<Rightarrow> length buf | Some i \<Rightarrow> i)"
    "r1 = r\<lparr>tr_discarded := tr_discarded r + d\<rparr>"
    using assms(1) by (auto simp: next_telegram_def Let_def split: sum.splits prod.splits)
  have d: "d \<le> length buf" "telegram_scan r (buf @ later) 0 None = telegram_scan r (buf @ later) d None"
    using scan_skip [OF assms(2) fi(1)] fi(2) by simp_all
  have "telegram_scan r (take d buf @ drop d buf @ later) (length (take d buf) + 0) (map_option ((+) (length (take d buf))) None) =
      map_sum (\<lambda>(t, f, u). (t, length (take d buf) + f, u)) (map_option ((+) (length (take d buf)))) (telegram_scan r (drop d buf @ later) 0 None)"
    by (rule scan_shift)
  then have "telegram_scan r (buf @ later) 0 None =
      map_sum (\<lambda>(t, f, u). (t, d + f, u)) (map_option ((+) d)) (telegram_scan r (drop d buf @ later) 0 None)"
    using d unfolding append_assoc [symmetric] append_take_drop_id by (simp add: min_absorb2)
  then show ?thesis using d(1) fi(3)
    by (cases "telegram_scan r (drop d buf @ later) 0 None")
      (auto simp: next_telegram_def Let_def split: option.splits)
qed

theorem reader_is_incremental_witness:
  "\<exists>r1. next_telegram (lit ''zz/'') TelegramReader_new = (Inr (FtIncomplete 2), r1) \<and>
     next_telegram (lit ''zz'' @ demo_telegram) TelegramReader_new = (case next_telegram demo_telegram r1 of
      (Inr (FtTelegram t used), r2) \<Rightarrow> (Inr (FtTelegram t (2 + used)), r2)
    | (Inr (FtIncomplete e), r2) \<Rightarrow> (Inr (FtIncomplete (2 + e)), r2)
    | (Inl e, r2) \<Rightarrow> (Inl e, r2))"
proof -
  have run: "next_telegram (lit ''zz/'') TelegramReader_new = (Inr (FtIncomplete 2), TelegramReader_new\<lparr>tr_discarded := 2\<rparr>)" by code_simp
  have "\<forall>b\<in>set (lit ''zz/''). b < 0x80" by code_simp
  from reader_is_incremental [OF run this, of "lit ''!28DC''"] show ?thesis
    using run by (intro exI [of _ "TelegramReader_new\<lparr>tr_discarded := 2\<rparr>"]) (simp add: demo_telegram_def lit_def)
qed

end
