(* ===== verification/P1Text.thy ===== *)
theory P1Text
  imports P1Reader
begin

text \<open>
  What is read out of a telegram: numbers come back exactly as they were printed, and a telegram of readings comes back reading by
  reading.
\<close>

subsection \<open>Digits\<close>

definition digit_text :: "nat list \<Rightarrow> bytes" where
  "digit_text ds = map (\<lambda>d. 48 + of_nat d) ds"

definition digit_value :: "nat \<Rightarrow> nat list \<Rightarrow> nat" where
  "digit_value m ds = foldl (\<lambda>v d. v * 10 + d) m ds"

definition decimal_form :: "bytes \<Rightarrow> nat \<Rightarrow> nat \<Rightarrow> bool" where
  "decimal_form s len n \<longleftrightarrow>
     (\<exists>ds. s = digit_text ds \<and> length ds = len \<and> (\<forall>d\<in>set ds. d < 10) \<and> (\<forall>m. digit_value m ds = m * 10 ^ len + n))"

lemma decimal_form_append:
  "decimal_form s k a \<Longrightarrow> decimal_form t l b \<Longrightarrow> decimal_form (s @ t) (k + l) (a * 10 ^ l + b)"
  unfolding decimal_form_def
proof (elim exE conjE, intro exI conjI allI)
  fix ds es
  assume ds: "s = digit_text ds" "length ds = k" "\<forall>d\<in>set ds. d < 10" "\<forall>m. digit_value m ds = m * 10 ^ k + a"
    and es: "t = digit_text es" "length es = l" "\<forall>d\<in>set es. d < 10" "\<forall>m. digit_value m es = m * 10 ^ l + b"
  show "s @ t = digit_text (ds @ es)" "length (ds @ es) = k + l" "\<forall>d\<in>set (ds @ es). d < 10" using ds es by (auto simp: digit_text_def)
  fix m
  have "digit_value m (ds @ es) = digit_value (digit_value m ds) es" by (simp add: digit_value_def)
  then show "digit_value m (ds @ es) = m * 10 ^ (k + l) + (a * 10 ^ l + b)" using ds(4) es(4) by (simp add: power_add algebra_simps)
qed

lemma decimal_form_digit: "d < 10 \<Longrightarrow> decimal_form [48 + of_nat d] 1 d"
  unfolding decimal_form_def by (intro exI [of _ "[d]"]) (simp add: digit_text_def digit_value_def)

lemma decimal_form_Nil: "decimal_form [] 0 0"
  unfolding decimal_form_def by (intro exI [of _ "[]"]) (simp add: digit_text_def digit_value_def)

lemma decimal_form_zeros: "decimal_form (replicate k 48) k 0"
proof (induction k)
  case (Suc k)
  then show ?case using decimal_form_append [OF decimal_form_digit [of 0] Suc] by simp
qed (simp add: decimal_form_Nil)

lemma decimal_decimal_form: "decimal_form (decimal n) (length (decimal n)) n"
proof (induction n rule: decimal.induct)
  case (1 n)
  show ?case
  proof (cases "n < 10")
    case True
    then show ?thesis using decimal_form_digit [of n] by (simp add: decimal.simps [of n])
  next
    case False
    then show ?thesis using decimal_form_append [OF 1 [OF False] decimal_form_digit [of "n mod 10"]] by (simp add: decimal.simps [of n])
  qed
qed

lemma length_decimal: "0 < p \<Longrightarrow> n < 10 ^ p \<Longrightarrow> length (decimal n) \<le> p \<and> decimal n \<noteq> []"
proof (induction n arbitrary: p rule: decimal.induct)
  case (1 n)
  show ?case
  proof (cases "n < 10")
    case False
    then have p: "1 < p" using 1(3) by (cases p) (auto simp: not_less le_Suc_eq Suc_le_eq intro: ccontr)
    then have "n div 10 < 10 ^ (p - 1)" using 1(3) by (cases p) (simp_all add: less_mult_imp_div_less ac_simps)
    then show ?thesis using 1(1) [OF False, of "p - 1"] p False by (simp add: decimal.simps [of n]) linarith
  qed (use 1(2) in \<open>simp add: decimal.simps [of n]\<close>)
qed

lemma decimal_form_padded:
  assumes "0 < w" "n < 10 ^ w"
  shows "decimal_form (zero_padded w n) w n"
  using decimal_form_append [OF decimal_form_zeros decimal_decimal_form, of "w - length (decimal n)" n] length_decimal [OF assms]
  by (simp add: zero_padded_def)

lemma decimal_form_ascii: "decimal_form s k n \<Longrightarrow> \<forall>b\<in>set s. 48 \<le> b \<and> b \<le> 57"
  using digit_bytes(1) by (auto simp: decimal_form_def digit_text_def is_digit_def)

subsection \<open>The decimal parser on digits\<close>

lemma decimal_digits_append: "decimal_digits (s @ t) st = Option.bind (decimal_digits s st) (decimal_digits t)"
  by (induction s arbitrary: st) (auto split: option.splits)

lemma digit_value_mono: "m \<le> digit_value m ds"
proof (induction ds arbitrary: m)
  case (Cons d ds)
  have "m \<le> m * 10 + d" by simp
  also have "\<dots> \<le> digit_value (m * 10 + d) ds" by (rule Cons)
  finally show ?case by (simp add: digit_value_def)
qed (simp add: digit_value_def)

lemma decimal_step_digit:
  assumes "d < 10" "sint (dc_mantissa st) = int m" "m * 10 + d < 2 ^ 63" "dc_seen_point st \<Longrightarrow> unat (dc_decimals st) < 255"
  obtains w where "decimal_step (48 + of_nat d) st = Some (st\<lparr>dc_any := True, dc_mantissa := w,
      dc_decimals := (if dc_seen_point st then dc_decimals st + 1 else dc_decimals st)\<rparr>)" "sint w = int (m * 10 + d)"
proof -
  have u: "uint (of_nat d :: u8) = int d" using digit_bytes(2,3) [OF assms(1)] by (simp add: uint_nat)
  have tens: "sint (of_int (int m * 10) :: i64) = int m * 10" using assms(3) by (intro sint_of_checked) simp_all
  have step: "checked_i64 (sint (dc_mantissa st) * 10) = Some (of_int (int m * 10))"
    using assms(2) tens by (simp only: checked_i64_Some)
  have sum: "checked_i64 (sint (of_int (int m * 10) :: i64) + int d) = Some (of_int (int (m * 10 + d)))"
    unfolding checked_i64_Some tens using assms(3) by (subst sint_of_checked) simp_all
  have "dc_seen_point st \<Longrightarrow> dc_decimals st \<noteq> 255" using assms(4) by auto
  then show thesis
    using that [of "of_int (int (m * 10 + d))"] digit_bytes(1) [OF assms(1)] step sum sint_of_checked [of "int (m * 10 + d)"] assms(3)
    by (auto simp: decimal_step_def u)
qed

lemma decimal_digits_value:
  assumes "\<forall>d\<in>set ds. d < 10" "sint (dc_mantissa st) = int m" "digit_value m ds < 2 ^ 63"
    "dc_seen_point st \<Longrightarrow> unat (dc_decimals st) + length ds \<le> 255"
  shows "\<exists>w. decimal_digits (digit_text ds) st = Some (st\<lparr>dc_any := (dc_any st \<or> ds \<noteq> []), dc_mantissa := w,
      dc_decimals := (if dc_seen_point st then dc_decimals st + of_nat (length ds) else dc_decimals st)\<rparr>) \<and> sint w = int (digit_value m ds)"
  using assms
proof (induction ds arbitrary: m st)
  case Nil
  then show ?case by (intro exI [of _ "dc_mantissa st"]) (simp add: digit_text_def digit_value_def)
next
  case (Cons d ds)
  have val: "digit_value m (d # ds) = digit_value (m * 10 + d) ds" by (simp add: digit_value_def)
  then have low: "m * 10 + d < 2 ^ 63" using Cons.prems(3) digit_value_mono [of "m * 10 + d" ds] by linarith
  have d: "d < 10" "dc_seen_point st \<Longrightarrow> unat (dc_decimals st) < 255" using Cons.prems(1,4) by auto
  obtain w where w: "decimal_step (48 + of_nat d) st = Some (st\<lparr>dc_any := True, dc_mantissa := w,
      dc_decimals := (if dc_seen_point st then dc_decimals st + 1 else dc_decimals st)\<rparr>)" (is "_ = Some ?st")
    "sint w = int (m * 10 + d)"
    by (rule decimal_step_digit [OF d(1) Cons.prems(2) low d(2)])
  have one: "dc_seen_point st \<Longrightarrow> unat (dc_decimals st + 1) = unat (dc_decimals st) + 1"
    using Cons.prems(4) by (simp add: unat_word_ariths)
  obtain w' where w': "decimal_digits (digit_text ds) ?st = Some (?st\<lparr>dc_any := (dc_any ?st \<or> ds \<noteq> []), dc_mantissa := w',
      dc_decimals := (if dc_seen_point ?st then dc_decimals ?st + of_nat (length ds) else dc_decimals ?st)\<rparr>)"
    "sint w' = int (digit_value (m * 10 + d) ds)"
  proof -
    have "\<forall>d\<in>set ds. d < 10" "sint (dc_mantissa ?st) = int (m * 10 + d)" "digit_value (m * 10 + d) ds < 2 ^ 63"
      "dc_seen_point ?st \<Longrightarrow> unat (dc_decimals ?st) + length ds \<le> 255"
      using Cons.prems(1,3,4) w(2) val one by simp_all
    from Cons.IH [OF this] that show thesis by blast
  qed
  have "decimal_digits (digit_text (d # ds)) st = decimal_digits (digit_text ds) ?st" using w(1) by (simp add: digit_text_def)
  then show ?case using w' by (intro exI [of _ w']) (cases st, auto simp: val)
qed

lemma decimal_form_run:
  assumes "decimal_form s k n" "0 < k" "sint (dc_mantissa st) = int m" "m * 10 ^ k + n < 2 ^ 63"
    "dc_seen_point st \<Longrightarrow> unat (dc_decimals st) + k \<le> 255"
  shows "\<exists>w. decimal_digits s st = Some (st\<lparr>dc_any := True, dc_mantissa := w,
      dc_decimals := (if dc_seen_point st then dc_decimals st + of_nat k else dc_decimals st)\<rparr>) \<and> sint w = int (m * 10 ^ k + n)"
proof -
  obtain ds where ds: "s = digit_text ds" "length ds = k" "\<forall>d\<in>set ds. d < 10" "\<forall>m. digit_value m ds = m * 10 ^ k + n"
    using assms(1) by (auto simp: decimal_form_def)
  have "ds \<noteq> []" using ds(2) assms(2) by auto
  then show ?thesis using decimal_digits_value [of ds st m] ds(2-4) assms(3-5) unfolding ds(1) by (cases "dc_seen_point st") simp_all
qed

definition scan_start :: decimal_scan where
  "scan_start = \<lparr>dc_mantissa = 0, dc_decimals = 0, dc_seen_point = False, dc_any = False\<rparr>"

lemma whole_number_run:
  assumes "decimal_form s k n" "0 < k" "n < 2 ^ 63"
  shows "\<exists>st. decimal_digits s scan_start = Some st \<and> dc_any st \<and> sint (dc_mantissa st) = int n \<and> dc_decimals st = 0 \<and> \<not> dc_seen_point st"
  using decimal_form_run [OF assms(1,2), of scan_start 0] assms(3) by (auto simp: scan_start_def)

lemma fraction_run:
  assumes "decimal_form s k x" "0 < k" "decimal_form t l y" "0 < l" "l \<le> 255" "x * 10 ^ l + y < 2 ^ 63"
  shows "\<exists>st. decimal_digits (s @ [46] @ t) scan_start = Some st \<and> dc_any st \<and> sint (dc_mantissa st) = int (x * 10 ^ l + y) \<and>
    dc_decimals st = of_nat l"
proof -
  have "x * 1 \<le> x * 10 ^ l" by (intro mult_le_mono2) simp
  then have "x < 2 ^ 63" using assms(6) by linarith
  from whole_number_run [OF assms(1,2) this] obtain st where st: "decimal_digits s scan_start = Some st" "dc_any st"
    "sint (dc_mantissa st) = int x" "dc_decimals st = 0" "\<not> dc_seen_point st" by blast
  define st' where "st' = st\<lparr>dc_seen_point := True\<rparr>"
  have point: "decimal_step 46 st = Some st'" using st(5) by (simp add: decimal_step_def is_digit_def st'_def)
  have st': "sint (dc_mantissa st') = int x" "dc_decimals st' = 0" "dc_seen_point st'" using st by (simp_all add: st'_def)
  obtain w where "decimal_digits t st' = Some (st'\<lparr>dc_any := True, dc_mantissa := w, dc_decimals := of_nat l\<rparr>)" "sint w = int (x * 10 ^ l + y)"
    using decimal_form_run [OF assms(3,4) st'(1) assms(6)] st'(2,3) assms(5) by auto
  then show ?thesis using st(1) point by (simp add: decimal_digits_append)
qed

text \<open>A number with a sign or without.\<close>

lemma parse_signed:
  assumes "decimal_digits s scan_start = Some st" "dc_any st" "sint (dc_mantissa st) = int n" "s \<noteq> []" "hd s \<noteq> 45" "hd s \<noteq> 43"
    "int n = \<bar>sint v\<bar>"
  shows "parse_decimal ((if sint v < 0 then [45] else []) @ s) = Some (v, dc_decimals st)"
proof (cases "sint v < 0")
  case True
  have "checked_i64 (- int n) = Some v" using True assms(7) checked_i64_Some by simp
  then show ?thesis using True assms(1,2,3) by (simp add: parse_decimal_def strip_prefix_def scan_start_def)
next
  case False
  have "checked_i64 (int n) = Some v" using False assms(7) checked_i64_Some by simp
  then show ?thesis using False assms by (cases s) (simp_all add: parse_decimal_def strip_prefix_def scan_start_def)
qed

lemma decimal_nonempty [simp]: "decimal n \<noteq> []" "0 < length (decimal n)"
  by (subst decimal.simps, simp)+

text \<open>What \<^verbatim>\<open>Display\<close> prints for a scaler that is not positive: the digits of the value with the point where the scaler puts it.\<close>

lemma printed_digits:
  assumes "sint (sv_scaler s) \<le> 0" "sint (sv_value s) \<noteq> - (2 ^ 63)"
  shows "parse_decimal (ScaledValue_digits s) = Some (sv_value s, of_int (- sint (sv_scaler s)))"
proof -
  define mag where "mag = nat \<bar>sint (sv_value s)\<bar>"
  have mag: "int mag = \<bar>sint (sv_value s)\<bar>" "mag < 2 ^ 63"
    using sint_ge [of "sv_value s"] sint_lt [of "sv_value s"] assms(2) by (auto simp: mag_def)
  have front: "hd (decimal n @ t) \<noteq> 45 \<and> hd (decimal n @ t) \<noteq> 43" for n t
  proof -
    have "hd (decimal n) \<in> set (decimal n)" by simp
    then have "48 \<le> hd (decimal n)" using decimal_form_ascii [OF decimal_decimal_form] by blast
    then show ?thesis by (auto simp: word_le_nat_alt)
  qed
  show ?thesis
  proof (cases "sint (sv_scaler s) = 0")
    case True
    obtain st where "decimal_digits (decimal mag) scan_start = Some st" "dc_any st" "sint (dc_mantissa st) = int mag" "dc_decimals st = 0"
      using whole_number_run [OF decimal_decimal_form _ mag(2)] by auto
    from parse_signed [OF this(1-3), of "sv_value s"] this(4) True mag(1) front [of mag "[]"] show ?thesis
      by (simp add: ScaledValue_digits_def Let_def mag_def)
  next
    case False
    define p where "p = nat (- sint (sv_scaler s))"
    have p: "0 < p" "p \<le> 128" "int p = - sint (sv_scaler s)" using assms(1) False sint_ge [of "sv_scaler s"] by (auto simp: p_def)
    define q where "q = (if 10 ^ p \<le> U64_MAX then 10 ^ p else U64_MAX)"
    have big: "mag < U64_MAX" using mag(2) by (simp add: U64_MAX_def)
    have parts: "mag mod q < 10 ^ p" "mag div q * 10 ^ p + mag mod q = mag"
    proof -
      show "mag mod q < 10 ^ p" using big by (auto simp: q_def intro: less_trans [of mag U64_MAX])
      show "mag div q * 10 ^ p + mag mod q = mag" 
        using big div_mult_mod_eq [of mag "10 ^ p"] by (cases "10 ^ p \<le> U64_MAX") (simp_all add: q_def)
    qed
    obtain st where "decimal_digits (decimal (mag div q) @ [46] @ zero_padded p (mag mod q)) scan_start = Some st" "dc_any st"
      "sint (dc_mantissa st) = int mag" "dc_decimals st = of_nat p"
      using fraction_run [OF decimal_decimal_form decimal_nonempty(2) decimal_form_padded [OF p(1) parts(1)] p(1), of "mag div q"] p(2) parts(2) mag(2)
      by auto
    moreover have "ScaledValue_digits s = (if sint (sv_value s) < 0 then [45] else []) @ decimal (mag div q) @ [46] @ zero_padded p (mag mod q)"
      using False assms(1) by (simp add: ScaledValue_digits_def Let_def mag_def q_def p_def)
    moreover have "of_int (- sint (sv_scaler s)) = (of_nat p :: u8)" by (simp flip: p(3))
    ultimately show ?thesis
      using parse_signed [of "decimal (mag div q) @ [46] @ zero_padded p (mag mod q)" st mag "sv_value s"] mag(1) front by simp
  qed
qed

text \<open>C38: A reading printed is a reading read, when its scaler is zero or negative: what such a scaled value displays as, up to its unit, is parsed back to the same 64-bit value with the
  same power of ten, no digit lost, however far the scaler moves the point; with a unit of P1 behind the star, one that stands for the unit itself and not for a thousand
  of it, it is the scaled value again.  Left out are the least 64-bit integer, whose magnitude the parser cannot hold, and the positive
  scalers, which display as zeros behind the value and are read as a longer number with no scaler.\<close>

theorem printed_reading_is_read_back:
  assumes "sint (sv_scaler s) \<le> 0" "sint (sv_value s) \<noteq> - (2 ^ 63)" "parse_unit symbol = Some (sv_unit s, 0)"
  shows "scaled_text (ScaledValue_digits s @ [42] @ symbol) = Some s"
proof -
  have plain: "42 \<notin> set (ScaledValue_digits s)"
  proof -
    have "42 \<notin> set t" if "decimal_form t k n" for t k n using decimal_form_ascii [OF that] by (auto simp: word_le_nat_alt)
    then have "42 \<notin> set (decimal n)" "42 \<notin> set (zero_padded w n)" for n w
      using decimal_decimal_form by (auto simp: zero_padded_def)
    then show ?thesis by (auto simp: ScaledValue_digits_def Let_def)
  qed
  then have "position (\<lambda>b. b = 42) (ScaledValue_digits s @ [42] @ symbol) = Some (length (ScaledValue_digits s))"
  proof -
    have "position (\<lambda>b. b = 42) (ScaledValue_digits s) = None" using plain by (auto simp: position_None)
    then show ?thesis by (simp add: position_append)
  qed
  then have split: "split_star (ScaledValue_digits s @ [42] @ symbol) = (ScaledValue_digits s, symbol)" by (simp add: split_star_def)
  have undone: "0 - uint (of_int (- sint (sv_scaler s)) :: u8) = sint (sv_scaler s)" "sint (sv_scaler s) \<le> 127"
  proof -
    have "- 128 \<le> sint (sv_scaler s)" using sint_ge [of "sv_scaler s"] by simp
    then have "uint (of_int (- sint (sv_scaler s)) :: u8) = - sint (sv_scaler s)"
      using assms(1) by (simp only: uint_word_of_int) (intro mod_pos_pos_trivial, simp_all)
    then show "0 - uint (of_int (- sint (sv_scaler s)) :: u8) = sint (sv_scaler s)" by simp
    show "sint (sv_scaler s) \<le> 127" using assms(1) by simp
  qed
  have "- 128 \<le> sint (sv_scaler s)" using sint_ge [of "sv_scaler s"] by simp
  moreover have "scaled_text (ScaledValue_digits s @ [42] @ symbol) =
      (let scaler = 0 - uint (of_int (- sint (sv_scaler s)) :: u8)
       in if - 128 \<le> scaler \<and> scaler \<le> 127 then Some (ScaledValue_new (sv_value s) (of_int scaler) (sv_unit s)) else None)"
    by (simp only: scaled_text_def split Let_def prod.case printed_digits [OF assms(1,2)] assms(3) Option.bind.simps)
  ultimately show ?thesis
    unfolding undone(1) using undone(2) by (simp add: ScaledValue_new_def)
qed

theorem printed_reading_is_read_back_witness:
  "scaled_text (lit ''-12.345*Wh'') = Some (ScaledValue_new (-12345) (-3) WATT_HOUR)"
proof -
  have sints: "sint (- 3 :: i8) = - 3" "sint (- 12345 :: i64) = - 12345" by simp_all
  have decimals: "decimal 12 = lit ''12''" "decimal 345 = lit ''345''" by (simp_all add: decimal.simps lit_def)
  have digits: "ScaledValue_digits (ScaledValue_new (-12345) (-3) WATT_HOUR) = lit ''-12.345''"
    by (simp add: ScaledValue_digits_def ScaledValue_new_def sints U64_MAX_def zero_padded_def decimals) (simp add: lit_def)
  have "parse_unit (lit ''Wh'') = Some (WATT_HOUR, 0)" "lit ''-12.345'' @ [42] @ lit ''Wh'' = lit ''-12.345*Wh''" by code_simp+
  then show ?thesis
    using printed_reading_is_read_back [of "ScaledValue_new (-12345) (-3) WATT_HOUR" "lit ''Wh''"] digits
    by (simp add: ScaledValue_new_def sints)
qed

end
