(* ===== verification/P1Telegram.thy ===== *)
theory P1Telegram
  imports P1Text
begin

text \<open>A telegram of readings, as a meter prints it, and what a reader makes of it.\<close>

subsection \<open>Printing\<close>

definition hex_char :: "nat \<Rightarrow> u8" where
  "hex_char d = (if d < 10 then 48 + of_nat d else 55 + of_nat d)"

definition printed_hex :: "u16 \<Rightarrow> bytes" where
  "printed_hex w = map hex_char [unat w div 4096, unat w div 256 mod 16, unat w div 16 mod 16, unat w mod 16]"

text \<open>A logical name without its last group, which P1 leaves out.\<close>

definition p1_name :: "Obis \<Rightarrow> bytes" where
  "p1_name o1 =
     (let g = (\<lambda>i. decimal (unat (obis_bytes o1 ! i))) in g 0 @ [45] @ g 1 @ [58] @ g 2 @ [46] @ g 3 @ [46] @ g 4)"

definition reading_line :: "Obis \<times> bytes \<Rightarrow> bytes" where
  "reading_line r = p1_name (fst r) @ [40] @ snd r @ [41]"

definition telegram_body :: "(Obis \<times> bytes) list \<Rightarrow> bytes" where
  "telegram_body readings = [13, 10] @ concat (map (\<lambda>r. reading_line r @ [13, 10]) readings)"

definition telegram_text :: "bytes \<Rightarrow> (Obis \<times> bytes) list \<Rightarrow> bytes" where
  "telegram_text ident readings = [47] @ ident @ [13, 10] @ telegram_body readings @ [33]"

definition telegram_bytes :: "bytes \<Rightarrow> (Obis \<times> bytes) list \<Rightarrow> bytes" where
  "telegram_bytes ident readings =
     telegram_text ident readings @ printed_hex (crc16 (telegram_text ident readings)) @ [13, 10]"

text \<open>An identification that fits on its line, and a reading that fits between its parentheses.\<close>

definition proper_ident :: "bytes \<Rightarrow> bool" where
  "proper_ident s \<longleftrightarrow> utf8_valid s \<and> 10 \<notin> set s \<and> 33 \<notin> set s \<and> str_trim_end s = s"

definition proper_reading :: "Obis \<times> bytes \<Rightarrow> bool" where
  "proper_reading r \<longleftrightarrow> obis_wf (fst r) \<and> obis_bytes (fst r) ! 5 = 255 \<and> utf8_valid (snd r) \<and> 10 \<notin> set (snd r) \<and> 33 \<notin> set (snd r) \<and>
     41 \<notin> set (snd r)"

definition reads_as :: "Obis \<times> bytes \<Rightarrow> Line result \<Rightarrow> bool" where
  "reads_as r l \<longleftrightarrow> (\<exists>ln. l = Inr ln \<and> ln_obis ln = fst r \<and> Line_values ln = [snd r])"

subsection \<open>The checksum on paper\<close>

lemma hex_char_facts:
  assumes "d < 16"
  shows "is_hexdigit (hex_char d)" "hex_digit (hex_char d) = Some (of_nat d)" "hex_char d < 0x80"
proof -
  have "\<forall>d\<in>set [0..<16]. is_hexdigit (hex_char d) \<and> hex_digit (hex_char d) = Some (of_nat d) \<and> hex_char d < 0x80" by code_simp
  then show "is_hexdigit (hex_char d)" "hex_digit (hex_char d) = Some (of_nat d)" "hex_char d < 0x80" using assms by simp_all
qed

lemma nibbles:
  fixes w :: u16
  shows "unat w div 4096 < 16" "unat w = ((unat w div 4096 * 16 + unat w div 256 mod 16) * 16 + unat w div 16 mod 16) * 16 + unat w mod 16"
proof -
  have "unat w < 65536" using unat_bound [of w] by simp
  then show "unat w div 4096 < 16" by simp
  have a: "unat w = unat w div 16 * 16 + unat w mod 16" by simp
  have b: "unat w div 16 = unat w div 16 div 16 * 16 + unat w div 16 mod 16" by simp
  have c: "unat w div 256 = unat w div 256 div 16 * 16 + unat w div 256 mod 16" by simp
  have "unat w div 16 div 16 = unat w div 256" "unat w div 256 div 16 = unat w div 4096" by (simp_all add: div_mult2_eq [symmetric])
  with a b c show "unat w = ((unat w div 4096 * 16 + unat w div 256 mod 16) * 16 + unat w div 16 mod 16) * 16 + unat w mod 16" by simp
qed

lemma hex_value_printed: "hex_value (printed_hex w) = w"
proof -
  have digit: "(case hex_digit (hex_char d) of None \<Rightarrow> 0 | Some d \<Rightarrow> ucast d) = (of_nat d :: u16)" if "d < 16" for d
  proof -
    have "unat (of_nat d :: u8) = d" "unat (of_nat d :: u16) = d" using that by (simp_all add: unat_of_nat)
    then have "ucast (of_nat d :: u8) = (of_nat d :: u16)" using that by (simp add: word_unat_eq_iff unsigned_ucast_eq take_bit_nat_def)
    then show ?thesis by (simp add: hex_char_facts(2) [OF that])
  qed
  have "hex_value (printed_hex w) = of_nat (((unat w div 4096 * 16 + unat w div 256 mod 16) * 16 + unat w div 16 mod 16) * 16 + unat w mod 16)"
    using nibbles(1) [of w] by (simp add: hex_value_def printed_hex_def digit)
  also have "\<dots> = of_nat (unat w)" by (simp only: nibbles(2) [symmetric])
  finally show ?thesis by simp
qed

lemma printed_hex_facts: "length (printed_hex w) = 4" "\<forall>b\<in>set (printed_hex w). is_hexdigit b" "\<forall>b\<in>set (printed_hex w). b < 0x80"
  using nibbles(1) [of w] by (simp_all add: printed_hex_def hex_char_facts)

subsection \<open>A line\<close>

lemma p1_name_bytes: "\<forall>b\<in>set (p1_name o1). b = 45 \<or> b = 58 \<or> b = 46 \<or> 48 \<le> b \<and> b \<le> 57"
  using decimal_form_ascii [OF decimal_decimal_form] by (auto simp: p1_name_def Let_def)

lemma p1_name_plain: "\<forall>b\<in>set (p1_name o1). b < 0x80 \<and> b \<noteq> 10 \<and> b \<noteq> 33 \<and> b \<noteq> 40"
proof
  fix b assume "b \<in> set (p1_name o1)"
  with p1_name_bytes have "b = 45 \<or> b = 58 \<or> b = 46 \<or> 48 \<le> b \<and> b \<le> 57" by blast
  then show "b < 0x80 \<and> b \<noteq> 10 \<and> b \<noteq> 33 \<and> b \<noteq> 40" by (auto simp: word_le_nat_alt word_less_nat_alt)
qed

lemma p1_name_parses:
  assumes "obis_wf o1" "obis_bytes o1 ! 5 = 255"
  shows "Obis_parse (p1_name o1) = Inr o1"
proof -
  let ?g = "\<lambda>i. unat (obis_bytes o1 ! i)"
  have "obis_scan_bytes (p1_name o1) \<lparr>os_groups = replicate 6 0, os_n = 0, os_have_digit = False, os_cur = 0\<rparr> =
      Inr \<lparr>os_groups = map (\<lambda>i. of_nat (?g i)) [0, 1, 2, 3, 4] @ [0], os_n = 5, os_have_digit = False, os_cur = of_nat (?g 4)\<rparr>"
    unfolding p1_name_def Let_def groups6(1)
    by (simp add: scan_group [simplified] scan_last_group separators u8_below groups6)
  then show ?thesis
    using list6 [of "obis_bytes o1", symmetric] assms
    by (cases o1) (simp add: Obis_parse_def Obis_new_def obis_wf_def u8_through_u16)
qed

lemma values_of_one: "41 \<notin> set v \<Longrightarrow> values_of ([40] @ v @ [41]) = [v]"
proof -
  assume "41 \<notin> set v"
  then have "position (\<lambda>b. b = 41) v = None" by (auto simp: position_None)
  then show ?thesis by (subst values_of.simps) (simp add: position_append values_of.simps [of "[]"])
qed

lemma line_reads_as:
  assumes "proper_reading r" shows "reads_as r (Line_parse (reading_line r))"
proof -
  have "position (\<lambda>b. b = 40) (p1_name (fst r)) = None" using p1_name_plain by (auto simp: position_None)
  then have "position (\<lambda>b. b = 40) (reading_line r) = Some (length (p1_name (fst r)))" by (simp add: reading_line_def position_append)
  moreover have "trim_newlines (reading_line r) = reading_line r" by (simp add: trim_newlines_def reading_line_def)
  moreover have "take (length (p1_name (fst r))) (reading_line r) = p1_name (fst r)" "drop (length (p1_name (fst r))) (reading_line r) = [40] @ snd r @ [41]"
    by (simp_all add: reading_line_def)
  ultimately show ?thesis
    using assms p1_name_parses values_of_one [of "snd r"]
    by (simp add: Line_parse_def reads_as_def proper_reading_def Line_values_def)
qed

subsection \<open>A telegram\<close>

lemma str_lines_line: "10 \<notin> set a \<Longrightarrow> str_lines_acc acc (a @ 10 # s) = strip_cr (acc @ a) # str_lines_acc [] s"
  by (induction a arbitrary: acc) auto

lemma body_lines:
  assumes "\<forall>r\<in>set readings. proper_reading r"
  shows "str_lines (telegram_body readings) = [] # map reading_line readings"
proof -
  have plain: "10 \<notin> set (reading_line r @ [13])" if "proper_reading r" for r
    using that p1_name_plain [of "fst r"] by (auto simp: reading_line_def proper_reading_def)
  have "str_lines_acc [] (concat (map (\<lambda>r. reading_line r @ [13, 10]) readings)) = map reading_line readings"
    using assms
  proof (induction readings)
    case (Cons r readings)
    then show ?case
      using str_lines_line [OF plain, of r "[]" "concat (map (\<lambda>r. reading_line r @ [13, 10]) readings)"] by (simp add: strip_cr_def)
  qed simp
  then show ?thesis using str_lines_line [of "[13]" "[]"] by (simp add: str_lines_def telegram_body_def strip_cr_def)
qed

lemma not_blank: "str_trim_end (reading_line r) \<noteq> []"
proof -
  have "trim_reversed (41 # s) = 41 # s" for s
    by (subst trim_reversed.simps) (simp add: space_width_def between_def split: list.split)
  then show ?thesis by (simp add: str_trim_end_def reading_line_def)
qed

lemma trim_end_cr: "str_trim_end (s @ [13]) = str_trim_end s"
proof -
  have "space_width (13 # rev s) = 1" by (simp add: space_width_def between_def)
  then have "trim_reversed (13 # rev s) = trim_reversed (rev s)" by (subst trim_reversed.simps) simp
  then show ?thesis by (simp add: str_trim_end_def)
qed

lemma body_valid:
  assumes "\<forall>r\<in>set readings. proper_reading r"
  shows "utf8_valid (telegram_body readings)" "33 \<notin> set (telegram_body readings)"
proof -
  have line: "utf8_valid (reading_line r @ [13, 10])" if "proper_reading r" for r
  proof -
    have "utf8_valid (snd r)" using that by (simp add: proper_reading_def)
    moreover have "utf8_valid [41, 13, 10]" using utf8_ascii_append [of "[41, 13, 10]" "[]"] by simp
    ultimately have "utf8_valid (snd r @ [41, 13, 10])" by (simp add: utf8_append)
    moreover have "\<forall>b\<in>set (p1_name (fst r) @ [40]). b < 0x80" using p1_name_plain by auto
    ultimately show ?thesis using utf8_ascii_append [of "p1_name (fst r) @ [40]" "snd r @ [41, 13, 10]"] by (simp add: reading_line_def)
  qed
  have "utf8_valid (concat (map (\<lambda>r. reading_line r @ [13, 10]) readings))"
    using assms
  proof (induction readings)
    case (Cons r readings)
    then show ?case using utf8_append [OF line, of r "concat (map (\<lambda>r. reading_line r @ [13, 10]) readings)"] by simp
  qed simp
  then show "utf8_valid (telegram_body readings)"
    using utf8_ascii_append [of "[13, 10]"] by (simp add: telegram_body_def)
  show "33 \<notin> set (telegram_body readings)"
    using assms p1_name_plain by (auto simp: telegram_body_def reading_line_def proper_reading_def)
qed

lemma telegram_of_inside:
  assumes "proper_ident ident"
  shows "telegram_of (ident @ [13, 10] @ body) = \<lparr>tg_identification = ident, tg_body = body\<rparr>"
proof -
  have "position (\<lambda>b. b = 10) ident = None" using assms by (auto simp: position_None proper_ident_def)
  then have "position (\<lambda>b. b = 10) (ident @ [13, 10] @ body) = Some (length ident + 1)" by (simp add: position_append)
  then show ?thesis using assms by (simp add: telegram_of_def trim_end_cr proper_ident_def)
qed

lemma telegram_parses:
  assumes "proper_ident ident" "\<forall>r\<in>set readings. proper_reading r" "utf8_valid later"
  shows "TelegramReader_parse s (telegram_bytes ident readings @ later) =
    Whole (\<lparr>tg_identification = ident, tg_body = telegram_body readings\<rparr>, length (telegram_bytes ident readings))"
proof -
  let ?text = "telegram_text ident readings" and ?inside = "ident @ [13, 10] @ telegram_body readings"
  let ?hex = "printed_hex (crc16 ?text)"
  have all: "telegram_bytes ident readings @ later = ?text @ ?hex @ [13, 10] @ later" by (simp add: telegram_bytes_def)
  have shape: "?text = [47] @ ?inside @ [33]" by (simp add: telegram_text_def)
  have valid: "utf8_valid ?text"
  proof -
    have "utf8_valid (telegram_body readings @ [33])"
      using utf8_append [OF body_valid(1) [OF assms(2)], of "[33]"] utf8_ascii_append [of "[33]" "[]"] by simp
    then have "utf8_valid ([13, 10] @ telegram_body readings @ [33])" using utf8_ascii_append [of "[13, 10]"] by simp
    then have "utf8_valid (ident @ [13, 10] @ telegram_body readings @ [33])" using assms(1) by (simp add: utf8_append proper_ident_def)
    then show ?thesis using utf8_ascii_append [of "[47]"] by (simp add: telegram_text_def)
  qed
  have "utf8_valid (?hex @ [13, 10] @ later)"
    using utf8_ascii_append [of "?hex @ [13, 10]" later] printed_hex_facts(3) assms(3) by auto
  then have whole: "utf8_valid (?text @ ?hex @ [13, 10] @ later)" using utf8_append [OF valid] by blast
  have "33 \<notin> set ([47] @ ?inside)" using assms(1) body_valid(2) [OF assms(2)] by (simp add: proper_ident_def)
  then have none: "position (\<lambda>b. b = 33) ([47] @ ?inside) = None" by (auto simp: position_None)
  define bang where "bang = length ?inside + 1"
  have "position (\<lambda>b. b = 33) (([47] @ ?inside) @ [33] @ ?hex @ [13, 10] @ later) = Some (length ([47] @ ?inside))"
    by (simp only: position_append [of _ "[47] @ ?inside"] none option.case) simp
  then have pos: "position (\<lambda>b. b = 33) (?text @ ?hex @ [13, 10] @ later) = Some bang" by (simp add: shape bang_def)
  have len: "length ?text = bang + 1" by (simp add: shape bang_def)
  have "str_get_to 4 (?hex @ [13, 10] @ later) = Some ?hex"
    using printed_hex_facts(1) by (simp add: str_get_to_def nth_append is_cont_def)
  then have fin: "telegram_end (tr_require_checksum s) ?text (?hex @ [13, 10] @ later) bang = Whole (bang + 5)"
    using printed_hex_facts(2) hex_value_printed by (simp add: telegram_end_def)
  have newline: "past_newline (?text @ ?hex @ [13, 10] @ later) (bang + 5) = length (telegram_bytes ident readings)"
    using len printed_hex_facts(1) by (simp add: past_newline_def telegram_bytes_def)
  have cut: "take (bang + 1) (?text @ ?hex @ [13, 10] @ later) = ?text" "drop (bang + 1) (?text @ ?hex @ [13, 10] @ later) = ?hex @ [13, 10] @ later"
    using len by simp_all
  have inside: "drop 1 (take bang ?text) = ?inside" by (simp add: shape bang_def)
  show ?thesis
    unfolding all TelegramReader_parse_def Let_def pos option.case cut fin candidate.case newline inside telegram_of_inside [OF assms(1)]
    using whole by (simp add: shape)
qed

text \<open>C39: A telegram of readings is read back: after whatever noise without a slash, a telegram that a meter printed is found, all of it and no
  more is consumed, and it has its identification and a line for every reading, in order, each under the logical name and with
  the text that was printed; with text after the telegram as well as without, and whether the reader asks for checksums or not.\<close>

theorem telegram_is_read_back:
  assumes "47 \<notin> set noise" "proper_ident ident" "\<forall>r\<in>set readings. proper_reading r" "utf8_valid later"
  shows "\<exists>t. next_telegram (noise @ telegram_bytes ident readings @ later) s =
      (Inr (FtTelegram t (length noise + length (telegram_bytes ident readings))), s\<lparr>tr_discarded := tr_discarded s + length noise\<rparr>) \<and>
    tg_identification t = ident \<and> list_all2 reads_as readings (Telegram_lines t)"
proof -
  define t where "t = \<lparr>tg_identification = ident, tg_body = telegram_body readings\<rparr>"
  define n where "n = length (telegram_bytes ident readings)"
  let ?buf = "noise @ telegram_bytes ident readings @ later"
  have slash: "telegram_bytes ident readings = 47 # tl (telegram_bytes ident readings)" by (simp add: telegram_bytes_def telegram_text_def)
  have none: "position (\<lambda>b. b = 47) noise = None" using assms(1) by (auto simp: position_None)
  have "position (\<lambda>b. b = 47) (drop 0 ?buf) = Some (length noise)"
    unfolding position_append drop_0 none by (subst slash) simp
  from scan_at [OF this, of s None] have "telegram_scan s ?buf 0 None = telegram_scan s ?buf (length noise) None" by simp
  also have "\<dots> = Inl (t, length noise, n)"
  proof (subst scan_slash)
    show "length noise < length ?buf" by (subst slash) simp
    show "?buf ! length noise = 47" by (subst slash) (simp add: nth_append)
    show "(case TelegramReader_parse s (drop (length noise) ?buf) of
        Broken \<Rightarrow> telegram_scan s ?buf (length noise + 1) None
      | Unfinished \<Rightarrow> telegram_scan s ?buf (length noise + 1) (if (None :: nat option) = None then Some (length noise) else None)
      | Whole (t, used) \<Rightarrow> Inl (t, length noise, used)) = Inl (t, length noise, n)"
      using telegram_parses [OF assms(2-4), of s] by (simp add: t_def n_def)
  qed
  finally have "next_telegram ?buf s = (Inr (FtTelegram t (length noise + n)), s\<lparr>tr_discarded := tr_discarded s + length noise\<rparr>)"
    by (simp add: next_telegram_def)
  moreover have "list_all2 reads_as readings (Telegram_lines t)"
  proof -
    have "Telegram_lines t = map (\<lambda>r. Line_parse (reading_line r)) readings"
      using not_blank by (simp add: Telegram_lines_def t_def body_lines [OF assms(3)] str_trim_end_def trim_reversed.simps [of "[]"] space_width_def comp_def)
    then show ?thesis using assms(3) line_reads_as by (simp add: list_all2_conv_all_nth)
  qed
  ultimately show ?thesis unfolding n_def by (intro exI [of _ t]) (simp add: t_def)
qed

definition demo_readings :: "(Obis \<times> bytes) list" where
  "demo_readings = [(Obis_new 1 0 1 8 1 255, lit ''000123.456*kWh'')]"

theorem telegram_is_read_back_witness:
  "\<exists>t. next_telegram (lit ''5)'' @ telegram_bytes (lit ''XMX5'') demo_readings @ lit ''/'') TelegramReader_new =
      (Inr (FtTelegram t (length (lit ''5)'') + length (telegram_bytes (lit ''XMX5'') demo_readings))),
        TelegramReader_new\<lparr>tr_discarded := tr_discarded TelegramReader_new + length (lit ''5)'')\<rparr>) \<and>
    tg_identification t = lit ''XMX5'' \<and> list_all2 reads_as demo_readings (Telegram_lines t)"
proof (rule telegram_is_read_back)
  have ascii: "utf8_valid (lit ''XMX5'')" "utf8_valid (lit ''000123.456*kWh'')" "utf8_valid (lit ''/'')"
    using utf8_ascii_append [of "lit ''XMX5''" "[]"] utf8_ascii_append [of "lit ''000123.456*kWh''" "[]"] utf8_ascii_append [of "lit ''/''" "[]"]
    by (simp_all add: lit_def)
  then show "proper_ident (lit ''XMX5'')"
    by (simp add: proper_ident_def) (simp add: lit_def str_trim_end_def trim_reversed.simps space_width_def between_def)
  show "\<forall>r\<in>set demo_readings. proper_reading r"
    using ascii(2) by (simp add: demo_readings_def proper_reading_def obis_wf_def Obis_new_def) (simp add: lit_def)
  show "utf8_valid (lit ''/'')" by (rule ascii(3))
qed (simp add: lit_def)

end
