(* ===== verification/Spec2Isabelle.thy ===== *)
theory Spec2Isabelle
  imports HdlcLink Wrapper Gbt ServerSafety ServerAccess ServerAuth ServerBlocks ServerReplies ClientAuth Listener Profile P1Telegram
begin

text \<open>
  A verification library for dlms-cosem-rs, an implementation of the DLMS/COSEM metering protocols.

  \<^bold>\<open>The program.\<close>  A client or a meter sends APDUs.  Values inside them are A-XDR data (\<^verbatim>\<open>src/src/axdr\<close>); the
  APDU is possibly ciphered (\<^verbatim>\<open>src/src/security\<close>, \<^verbatim>\<open>src/src/xdlms/protection.rs\<close>), possibly cut into blocks
  (\<^verbatim>\<open>src/src/xdlms/gbt.rs\<close>), and carried over HDLC or the TCP/UDP wrapper (\<^verbatim>\<open>src/src/transport\<close>).  Everything is read
  and written through the cursors of \<^verbatim>\<open>src/src/codec.rs\<close>.

  \<^bold>\<open>Conventions.\<close>  A Rust function that can fail is a function into \<open>Error + 'a\<close>; one that also changes a state is a function
  from the state to the result and the new state (\<open>('s, 'a) op\<close> of theory \<open>Prelude\<close>, sequenced by \<open>try_bind\<close> for the
  question-mark operator), and the state after an error is the one the Rust code leaves behind.  Structs are records, enums are
  datatypes with the source's constructors, integers keep their width as words; \<^verbatim>\<open>usize\<close> quantities that are lengths of
  existing buffers are natural numbers.  Slices written in place are lists of the same length (\<open>overwrite\<close>).

  \<^bold>\<open>Theories and sources.\<close>
  \<^item> \<open>Prelude\<close>: errors, operations with state, byte and word lemmas.
  \<^item> \<open>Codec\<close> (\<^verbatim>\<open>codec.rs\<close>): the reader, the four writers, lengths.  \<open>writes\<close> and \<open>decodes\<close> say what an encoder emits and
    a decoder consumes; the locale \<open>codec_pair\<close> turns both into round trips for every wire type below; \<open>safe_dec\<close> says that a
    decoder stays inside its buffer.
  \<^item> \<open>Ber\<close> (\<^verbatim>\<open>ber.rs\<close>), \<open>Clock\<close> (\<^verbatim>\<open>axdr/datetime.rs\<close>), \<open>Axdr\<close> and \<open>AxdrTree\<close>
    (\<^verbatim>\<open>axdr/data.rs\<close>, \<^verbatim>\<open>axdr/compact.rs\<close>): values, borrowed and owned, and compact arrays with their node budget.
  \<^item> \<open>Counter\<close> (\<^verbatim>\<open>security/counter.rs\<close>): sending counter and replay window; the locale \<open>replay_guard\<close> is the contract the
    protection layer relies on.
  \<^item> \<open>Keys\<close> (\<^verbatim>\<open>security/mod.rs\<close>, \<^verbatim>\<open>security/keys.rs\<close>), \<open>Protect\<close> (\<^verbatim>\<open>security/protect.rs\<close>), \<open>ApduTag\<close>
    (\<^verbatim>\<open>xdlms/tag.rs\<close>), \<open>Ciphered\<close> (\<^verbatim>\<open>xdlms/protection.rs\<close>), \<open>ApduProtection\<close> (\<^verbatim>\<open>security/wrap.rs\<close>): the
    security layer.
  \<^item> \<open>Gbt\<close> (\<^verbatim>\<open>xdlms/gbt.rs\<close>): general block transfer, as an interleaving of sender, receiver and a line that loses blocks.
  \<^item> \<open>Obis\<close> (\<^verbatim>\<open>obis.rs\<close>), \<open>Wire\<close> and \<open>Services\<close> (\<^verbatim>\<open>xdlms/descriptor.rs\<close>, \<^verbatim>\<open>xdlms/result.rs\<close>,
    \<^verbatim>\<open>xdlms/service.rs\<close>), \<open>Initiate\<close> (\<^verbatim>\<open>xdlms/conformance.rs\<close>, \<^verbatim>\<open>xdlms/initiate.rs\<close>,
    \<^verbatim>\<open>xdlms/error.rs\<close>), \<open>AccessNotify\<close> (\<^verbatim>\<open>xdlms/access.rs\<close>, \<^verbatim>\<open>xdlms/notify.rs\<close>), \<open>Acse\<close>
    (\<^verbatim>\<open>acse.rs\<close>) and \<open>Apdu\<close> (\<^verbatim>\<open>xdlms/apdu.rs\<close>): the application layer on the wire.  A borrowed value
    remembers where its bytes came from, so the contract of these types (locale \<open>wire_type\<close>) is up to positions;
    \<open>ServiceCodec\<close> discharges it for every service.
  \<^item> \<open>Rights\<close> (\<^verbatim>\<open>cosem/access.rs\<close>), \<open>Server\<close> (\<^verbatim>\<open>server/mod.rs\<close>, \<^verbatim>\<open>server/store.rs\<close>): the meter's end
    of an association, one definition per handler, from \<open>handle\<close> down: \<open>handle_aarq\<close> and \<open>handle_release\<close> for the
    association, \<open>handle_get\<close>, \<open>handle_set\<close>, \<open>handle_action\<close>, \<open>handle_access\<close> for the services, \<open>send\<close> and
    \<open>send_next_block\<close> for the answers.  The record \<open>Server\<close> has the fields of the struct; a handler takes the server and the
    output buffer and returns the result with both as it leaves them.  \<open>ServerSafety\<close> has the invariant of the server's whole
    life, \<open>ServerAccess\<close> what a client may reach, \<open>ServerAuth\<close> how an association comes to be, \<open>ServerBlocks\<close> the block
    transfers, \<open>ServerReplies\<close> the size and shape of the answers, on the lemmas of \<open>Appends\<close> about what encoders do to a
    buffer.
  \<^item> \<open>Client\<close> (\<^verbatim>\<open>client/session.rs\<close>): the other end, one definition per request and per response.  The record
    \<open>ClientSession\<close> has the fields of the struct; a request is the checks and the APDU, then \<open>client_send\<close>.  \<open>ClientSafety\<close>
    has the step relation over every call of the session and what each step keeps; \<open>EndToEnd\<close> runs a client against a server,
    and \<open>ClientAuth\<close> has what its handshake and its counters are worth.
  \<^item> \<open>Push\<close> (\<^verbatim>\<open>server/push.rs\<close>) and \<open>Listener\<close> (\<^verbatim>\<open>client/notify.rs\<close>): a meter that reports unasked, and who hears it; the
    locale \<open>key_lookup\<close> is what the listener relies on in the keeper of keys and windows.
  \<^item> \<open>Profile\<close> (\<^verbatim>\<open>cosem/profile.rs\<close>): load profiles, the selection of a part of one, and the reader that undoes what a
    meter leaves out of a row; its iterators are the ones of \<open>Axdr\<close>, and \<open>yields\<close> says what such an iterator goes over.
  \<^item> \<open>Units\<close> (\<^verbatim>\<open>axdr/unit.rs\<close>): the table of units and scaled values.  \<open>P1\<close> (\<^verbatim>\<open>transport/p1.rs\<close>): the
    telegrams of the customer interface, with the functions of the string library that the source uses written out over the
    bytes of UTF-8; \<open>P1Reader\<close> has what the reader does to a stream, \<open>P1Text\<close> what the values in a telegram are read as, and
    \<open>P1Telegram\<close> the way of whole telegrams.
  \<^item> \<open>Wrapper\<close> (\<^verbatim>\<open>transport/wrapper.rs\<close>), \<open>Hdlc\<close> and \<open>HdlcLink\<close> (\<^verbatim>\<open>transport/hdlc.rs\<close>): the transports; the
    frame layer and the link machine with its segmentation.

  \<^bold>\<open>What is shown.\<close>  Round trips of every encoding; that decoders stay inside their input and their work is bounded; that the
  replay window is an exact implementation of a remembered set and no protected APDU is opened twice; that nothing unverified gets
  past an authenticating policy; that a server touches its objects only inside an association that was authenticated and only
  where the rights allow, writes a value sent in blocks once and whole and delivers a value in blocks unchanged; that a block transfer delivers exactly the APDU and completes over a line that is eventually
  fair; that a corrupted HDLC frame is refused and the link delivers what was sent; that a push is read by its listener as it was sent and
  only once; that no two things a client session protects share a nonce; that a profile is read back as it was recorded whatever the meter left out of it; that a telegram is found wherever
  the stream of bytes was cut and its decimals are read exactly.

  \<^bold>\<open>Bounds and fuel.\<close>  Loops over the input recurse on what is left of it.  Decoding nested data takes the remaining depth
  as an argument, as the source does with its own depth limit; the compact array loops spend the node budget of the source.

  \<^bold>\<open>Parameters.\<close>  The cryptographic provider (the trait \<^verbatim>\<open>CryptoProvider\<close>) is an argument, with the documented laws
  \<open>provider_in_place\<close>, \<open>aead_inverse\<close> and \<open>ctr_involution\<close> as named hypotheses and a concrete provider that
  satisfies them.  The object store of a server (the trait \<^verbatim>\<open>ObjectStore\<close>), the operations of the provider that change
  its key store and its random source are the fields of the record \<open>Env\<close>, over a store of any type; the witnesses use the
  store \<open>demo_env\<close>, which counts what is done to it.  The random source and the dedicated key of a client are the fields of
  \<open>ClientEnv\<close>.  The keys and windows of a listener (the trait \<^verbatim>\<open>PushKeyLookup\<close>) are the record \<open>PushKeyLookup\<close>, whose
  law \<open>lawful\<close> is that a window stored is the window read; \<open>single_meter\<close> is the lookup the source provides.

  \<^bold>\<open>Not modelled.\<close>  Text formatting other than that of logical names, units and scaled values, the conversion of scaled values to floating
  point, the erasing of dropped keys, the third-party ciphers behind the provider, the class tables of the COSEM object model,
  and the short-name services (the feature \<^verbatim>\<open>sn\<close>, off by default, with the handlers of the server and the requests of the
  client for it).
\<close>

end
